(* ===== verification/PlanCore.thy ===== *)
theory PlanCore
  imports Prelude
begin

text \<open>
  The domain types of \<open>core/plan.py\<close>, \<open>core/execution.py\<close> and \<open>core/errors.py\<close>: plans of nodes
  (nested through subplan nodes), node results, and the execution state of a task.  Wall-clock
  stamps (\<open>created_at\<close>, \<open>updated_at\<close>, \<open>timestamp\<close>, \<open>execution_time_s\<close>) are left out, since no
  decision of the program reads them; \<open>touch\<close> therefore has no counterpart.
\<close>

section \<open>Plans\<close>

datatype node_type = TOOL | DECISION | SYNTHESIS | THINK | SUMMARY | RESULT | SUBPLAN

fun node_type_value :: "node_type \<Rightarrow> string" where
  "node_type_value TOOL = ''tool''"
| "node_type_value DECISION = ''decision''"
| "node_type_value SYNTHESIS = ''synthesis''"
| "node_type_value THINK = ''think''"
| "node_type_value SUMMARY = ''summary''"
| "node_type_value RESULT = ''result''"
| "node_type_value SUBPLAN = ''subplan''"

datatype summary_format = CONCISE | MEDIUM | VERBOSE

datatype tool_risk = RiskRead | RiskNetwork | RiskWrite | RiskExecute

type_synonym node_id = int

text \<open>
  One constructor per model class, with its fields as selectors.  \<open>branches\<close> is an ordered dict
  from branch names to node ids.
\<close>

datatype node =
  Node
    (n_id: node_id)
    (n_type: node_type)
    (n_description: string)
    (n_tool: "string option")
    (n_args_template: "(string \<times> json) list option")
    (n_context_needed: "node_id list")
    (n_condition: "string option")
    (n_branches: "(string \<times> node_id list) list option")
    (n_default_branch: "string option")
    (n_reasoning_required: bool)
    (n_forced_tier: "int option")
    (n_subplan: "plan option")
    (n_format: "summary_format option")
and plan =
  Plan
    (p_nodes: "node list")
    (p_sorted_node_ids: "node_id list")

text \<open>The defaults of the \<open>Node\<close> fields: what the planner may leave out.\<close>

definition mk_node :: "node_id \<Rightarrow> node_type \<Rightarrow> string \<Rightarrow> node_id list \<Rightarrow> node" where
  "mk_node i t d deps = Node i t d None None deps None None None False None None None"

definition node_ids :: "plan \<Rightarrow> node_id list" where
  "node_ids p = map n_id (p_nodes p)"

text \<open>
  \<open>node_map = {n.id: n for n in plan.nodes}\<close>: with duplicate ids the last node wins.
\<close>

definition node_map :: "plan \<Rightarrow> node_id \<Rightarrow> node option" where
  "node_map p = map_of (map (\<lambda>n. (n_id n, n)) (rev (p_nodes p)))"

lemma node_map_Some:
  "node_map p i = Some n \<Longrightarrow> n \<in> set (p_nodes p) \<and> n_id n = i"
  unfolding node_map_def by (drule map_of_SomeD) auto

lemma node_map_None: "node_map p i = None \<longleftrightarrow> i \<notin> set (node_ids p)"
  unfolding node_map_def node_ids_def by (simp add: map_of_eq_None_iff image_image)

lemma node_map_distinct:
  assumes "distinct (node_ids p)" and "n \<in> set (p_nodes p)"
  shows "node_map p (n_id n) = Some n"
proof -
  have "map fst (map (\<lambda>n. (n_id n, n)) (rev (p_nodes p))) = rev (node_ids p)"
    by (simp add: node_ids_def rev_map comp_def)
  then have "distinct (map fst (map (\<lambda>n. (n_id n, n)) (rev (p_nodes p))))"
    using assms(1) by (simp only: distinct_rev)
  then show ?thesis
    unfolding node_map_def using assms(2) by (intro map_of_is_SomeI) auto
qed

text \<open>\<open>node.branches\<close> as the code tests it: absent and the empty dict are both falsy.\<close>

definition branch_list :: "node \<Rightarrow> (string \<times> node_id list) list" where
  "branch_list n = (case n_branches n of None \<Rightarrow> [] | Some bs \<Rightarrow> bs)"

definition branch_targets :: "node \<Rightarrow> node_id list" where
  "branch_targets n = concat (map snd (branch_list n))"

text \<open>The targets that count as control edges: only decision nodes have them.\<close>

definition control_targets :: "node \<Rightarrow> node_id list" where
  "control_targets n = (if n_type n = DECISION then branch_targets n else [])"

text \<open>A subplan is smaller than the plan that holds its node: nested recursion terminates.\<close>

lemma size_subplan:
  assumes "n \<in> set (p_nodes p)" and "n_subplan n = Some q"
  shows "size q < size p"
proof -
  have "size q < size n"
    using assms(2) by (cases n) simp
  also have "size n < size p"
    using assms(1) size_list_estimation' [of n "p_nodes p" "size n" size]
    by (cases p) auto
  finally show ?thesis .
qed

section \<open>Execution state\<close>

datatype node_status = PENDING | COMPLETED | SKIPPED | FAILED | EMPTY

record node_result =
  r_node_id :: node_id
  r_status :: node_status
  r_output :: json
  r_branch_taken :: "string option"
  r_args_used :: "(string \<times> json) list option"
  r_confidence :: pyfloat
  r_flagged :: bool
  r_tokens_used :: int
  r_retries :: nat
  r_error :: "string option"
  r_tier_used :: "int option"

text \<open>\<open>NodeResult(node_id=i, status=st)\<close> with every other field at its default.\<close>

definition mk_result :: "node_id \<Rightarrow> node_status \<Rightarrow> node_result" where
  "mk_result i st =
     \<lparr>r_node_id = i, r_status = st, r_output = JNull, r_branch_taken = None,
      r_args_used = None, r_confidence = Fin 1, r_flagged = False, r_tokens_used = 0,
      r_retries = 0, r_error = None, r_tier_used = None\<rparr>"

record branch_log_entry =
  b_node_id :: node_id
  b_condition :: "string option"
  b_branch_taken :: "string option"
  b_confidence :: pyfloat

record planning_attempt =
  a_attempt :: nat
  a_raw_output :: string
  a_parsed :: "(string \<times> json) list option"
  a_plan :: "plan option"
  a_error :: "string option"
  a_error_type :: "string option"
  a_error_detail :: "string option"
  a_tokens_used :: int
  a_filepath :: "string option"

definition attempt_valid :: "planning_attempt \<Rightarrow> bool" where
  "attempt_valid a \<longleftrightarrow> a_plan a \<noteq> None \<and> a_error a = None"

datatype task_status =
    PLANNING | AWAITING_CONFIRMATION | RESUMING | EXECUTING | TASK_COMPLETED | TASK_FAILED
  | PAUSED | CANCELLED | REJECTED

record exec_state =
  s_task_id :: string
  s_user_request :: string
  s_plan :: "plan option"
  s_results :: "(node_id \<times> node_result) list"
  s_completed_nodes :: "node_id list"
  s_skipped_nodes :: "node_id list"
  s_branch_log :: "branch_log_entry list"
  s_planning_attempts :: "planning_attempt list"
  s_status :: task_status
  s_replan_count :: nat
  s_final_output :: "string option"
  s_error :: "string option"

definition new_state :: "string \<Rightarrow> string \<Rightarrow> plan option \<Rightarrow> exec_state" where
  "new_state tid req p =
     \<lparr>s_task_id = tid, s_user_request = req, s_plan = p, s_results = [],
      s_completed_nodes = [], s_skipped_nodes = [], s_branch_log = [],
      s_planning_attempts = [], s_status = PLANNING, s_replan_count = 0,
      s_final_output = None, s_error = None\<rparr>"

definition total_tokens :: "exec_state \<Rightarrow> int" where
  "total_tokens s =
     sum_list (map a_tokens_used (s_planning_attempts s)) +
     sum_list (map (r_tokens_used \<circ> snd) (s_results s))"

text \<open>\<open>state.results.get(i)\<close>, and the nodes that have a result.\<close>

abbreviation result_of :: "exec_state \<Rightarrow> node_id \<Rightarrow> node_result option" where
  "result_of s \<equiv> map_of (s_results s)"

abbreviation has_result :: "exec_state \<Rightarrow> node_id set" where
  "has_result s \<equiv> dom (map_of (s_results s))"

end
