(* ===== verification/PlanGraph.thy ===== *)
theory PlanGraph
  imports PlanCore
begin

text \<open>
  The dependency graph of a plan and \<open>topo_sort\<close> of \<open>validator/validator.py\<close>: Kahn's algorithm over
  data edges (\<open>context_needed\<close>) and control edges (decision node to branch target).  The last
  section proves that the sort returns an order exactly when every reference exists, the ids are
  distinct and the graph is acyclic, and that the order respects every edge.
\<close>

section \<open>Validation errors\<close>

text \<open>
  One constructor per \<open>raise PlanValidationError\<close> of the file, with the interpolated values.
  \<open>DoesNotReturn\<close> is no error of the code: it is the value of a loop or recursion that has used
  up its fuel, and is proved unreachable.
\<close>

datatype plan_error =
    MissingContext node_id node_id
  | MissingBranchTarget node_id string node_id
  | DependencyCycle
  | TooManyNodes bool nat int
  | ToolNotDeclared node_id
  | ToolNotAllowed node_type node_id
  | DecisionFieldsNotAllowed node_type node_id
  | SubplanMissing node_id
  | SubplanNotAllowed node_type node_id
  | ConditionMissing node_id
  | BranchesMissing node_id
  | BranchesNotYesNo node_id
  | DefaultNotABranch node_id
  | UnknownTools "string list"
  | ForcedTierOutside node_id int int
  | NestingTooDeep nat int node_id
  | TooManySubplans nat int
  | DoesNotReturn

section \<open>Edges\<close>

text \<open>
  The checks of the first loop of \<open>topo_sort\<close>, in its order: the node's \<open>context_needed\<close>, then
  the targets of its branches.
\<close>

definition check_refs :: "node_id set \<Rightarrow> node \<Rightarrow> plan_error + unit" where
  "check_refs ids n =
     and_then (check_all (\<lambda>d. raise_if (d \<notin> ids) (MissingContext (n_id n) d)) (n_context_needed n))
       (\<lambda>_. if n_type n = DECISION
            then check_all
                   (\<lambda>(b, ts). check_all (\<lambda>t. raise_if (t \<notin> ids) (MissingBranchTarget (n_id n) b t)) ts)
                   (branch_list n)
            else Inr ())"

definition node_edges :: "node \<Rightarrow> (node_id \<times> node_id) list" where
  "node_edges n =
     map (\<lambda>d. (d, n_id n)) (n_context_needed n) @ map (\<lambda>t. (n_id n, t)) (control_targets n)"

text \<open>The set \<open>edges\<close>: duplicates removed.\<close>

definition plan_edges :: "plan \<Rightarrow> (node_id \<times> node_id) list" where
  "plan_edges p = remdups (concat (map node_edges (p_nodes p)))"

definition refs_exist :: "plan \<Rightarrow> bool" where
  "refs_exist p \<longleftrightarrow>
     (\<forall>n \<in> set (p_nodes p). set (n_context_needed n) \<subseteq> set (node_ids p) \<and>
        set (control_targets n) \<subseteq> set (node_ids p))"

lemma check_refs_Inr:
  "check_refs ids n = Inr u \<longleftrightarrow>
     set (n_context_needed n) \<subseteq> ids \<and> set (control_targets n) \<subseteq> ids"
  by (fastforce simp: check_refs_def control_targets_def branch_targets_def subset_iff)

lemma set_plan_edges:
  "(u, v) \<in> set (plan_edges p) \<longleftrightarrow>
     (\<exists>n \<in> set (p_nodes p). (u \<in> set (n_context_needed n) \<and> v = n_id n) \<or>
        (u = n_id n \<and> v \<in> set (control_targets n)))"
  by (auto simp: plan_edges_def node_edges_def)

lemma plan_edges_within:
  "refs_exist p \<Longrightarrow> set (plan_edges p) \<subseteq> set (node_ids p) \<times> set (node_ids p)"
  unfolding refs_exist_def by (auto simp: set_plan_edges node_ids_def subset_iff)

section \<open>Kahn's algorithm\<close>

text \<open>
  \<open>for neighbour in sorted(graph[node_id])\<close>: decrement, and queue the neighbour whose in-degree
  reaches zero.  \<open>graph[u]\<close> lists the targets of the distinct edges out of \<open>u\<close>.
\<close>

definition successors :: "(node_id \<times> node_id) list \<Rightarrow> node_id \<Rightarrow> node_id list" where
  "successors es u = sort (map snd (filter (\<lambda>e. fst e = u) es))"

definition in_degree :: "(node_id \<times> node_id) list \<Rightarrow> node_id \<Rightarrow> int" where
  "in_degree es v = int (length (filter (\<lambda>e. snd e = v) es))"

fun relax :: "node_id list \<Rightarrow> (node_id \<Rightarrow> int) \<Rightarrow> node_id list \<times> (node_id \<Rightarrow> int)" where
  "relax [] deg = ([], deg)"
| "relax (v # vs) deg =
     (let deg' = deg(v := deg v - 1);
          (queued, deg'') = relax vs deg'
      in (if deg' v = 0 then v # queued else queued, deg''))"

text \<open>
  The \<open>while queue\<close> loop, with fuel: each turn moves one id from the queue to the output.
  \<open>None\<close> is "still running"; \<open>kahn_terminates\<close> shows that as many turns as there are nodes, plus
  one for the final test of the queue, always suffice.
\<close>

fun kahn ::
  "(node_id \<times> node_id) list \<Rightarrow> nat \<Rightarrow> node_id list \<Rightarrow> (node_id \<Rightarrow> int) \<Rightarrow> node_id list
     \<Rightarrow> node_id list option"
where
  "kahn es 0 queue deg out = None"
| "kahn es (Suc fuel) [] deg out = Some out"
| "kahn es (Suc fuel) (u # queue) deg out =
     (let (queued, deg') = relax (successors es u) deg
      in kahn es fuel (queue @ queued) deg' (out @ [u]))"

definition initial_queue :: "plan \<Rightarrow> node_id list" where
  "initial_queue p =
     sort (filter (\<lambda>i. in_degree (plan_edges p) i = 0) (remdups (node_ids p)))"

definition kahn_order :: "plan \<Rightarrow> node_id list option" where
  "kahn_order p =
     kahn (plan_edges p) (Suc (length (p_nodes p))) (initial_queue p)
       (in_degree (plan_edges p)) []"

definition topo_sort :: "plan \<Rightarrow> plan_error + node_id list" where
  "topo_sort p =
     and_then (check_all (check_refs (set (node_ids p))) (p_nodes p))
       (\<lambda>_. case kahn_order p of
              None \<Rightarrow> Inl DoesNotReturn
            | Some ids \<Rightarrow>
                if length ids \<noteq> length (p_nodes p) then Inl DependencyCycle else Inr ids)"

section \<open>Correctness\<close>

text \<open>Every edge's source stands before its target.\<close>

definition dep_ordered :: "(node_id \<times> node_id) set \<Rightarrow> node_id list \<Rightarrow> bool" where
  "dep_ordered E xs \<longleftrightarrow>
     (\<forall>ys v zs. xs = ys @ v # zs \<longrightarrow> (\<forall>u. (u, v) \<in> E \<longrightarrow> u \<in> set ys))"

lemma dep_ordered_Nil [simp]: "dep_ordered E []"
  by (simp add: dep_ordered_def)

lemma dep_ordered_snoc:
  "dep_ordered E (xs @ [v]) \<longleftrightarrow> dep_ordered E xs \<and> (\<forall>u. (u, v) \<in> E \<longrightarrow> u \<in> set xs)"
proof
  assume r: "dep_ordered E (xs @ [v])"
  have "u \<in> set ys" if "xs = ys @ w # zs" and "(u, w) \<in> E" for ys w zs u
    using r that unfolding dep_ordered_def by (metis append_Cons append_assoc)
  moreover have "u \<in> set xs" if "(u, v) \<in> E" for u
    using r that unfolding dep_ordered_def by blast
  ultimately show "dep_ordered E xs \<and> (\<forall>u. (u, v) \<in> E \<longrightarrow> u \<in> set xs)"
    by (auto simp: dep_ordered_def)
next
  assume r: "dep_ordered E xs \<and> (\<forall>u. (u, v) \<in> E \<longrightarrow> u \<in> set xs)"
  show "dep_ordered E (xs @ [v])"
    unfolding dep_ordered_def
  proof (intro allI impI)
    fix ys w zs u
    assume split: "xs @ [v] = ys @ w # zs" and edge: "(u, w) \<in> E"
    show "u \<in> set ys"
    proof (cases zs rule: rev_cases)
      case Nil
      with split edge r show ?thesis by simp
    next
      case (snoc zs' z)
      with split have "xs = ys @ w # zs'" by simp
      with edge r show ?thesis unfolding dep_ordered_def by blast
    qed
  qed
qed

lemma dep_ordered_acyclic:
  assumes "dep_ordered E xs" and "E \<subseteq> set xs \<times> set xs"
  shows "acyclic E"
proof (rule wf_acyclic, rule wf_subset)
  let ?pos = "\<lambda>v. length (takeWhile (\<lambda>w. w \<noteq> v) xs)"
  show "wf (measure ?pos)" by simp
  show "E \<subseteq> measure ?pos"
  proof
    fix e assume e: "e \<in> E"
    then obtain u v where uv: "e = (u, v)" and "v \<in> set xs"
      using assms(2) by auto
    then obtain ys zs where xs: "xs = ys @ v # zs" and "v \<notin> set ys"
      by (auto dest: split_list_first)
    have "u \<in> set ys"
      using assms(1) e uv xs unfolding dep_ordered_def by blast
    moreover have "takeWhile (\<lambda>w. w \<noteq> v) xs = ys"
      using xs \<open>v \<notin> set ys\<close>
      by (metis (mono_tags, lifting) takeWhile_eq_all_conv takeWhile_tail)
    moreover have "length (takeWhile (\<lambda>w. w \<noteq> u) ys) < length ys"
      using \<open>u \<in> set ys\<close>
      by (metis (mono_tags, lifting) length_takeWhile_le nat_less_le set_takeWhileD takeWhile_eq_take take_all order_refl)
    ultimately show "e \<in> measure ?pos"
      using xs uv by (simp add: takeWhile_append1)
  qed
qed

subsection \<open>One turn of the loop\<close>

lemma relax_eq:
  "distinct vs \<Longrightarrow>
     relax vs deg = (filter (\<lambda>v. deg v = 1) vs, \<lambda>x. if x \<in> set vs then deg x - 1 else deg x)"
proof (induction vs arbitrary: deg)
  case Nil
  then show ?case by simp
next
  case (Cons v vs)
  have "filter (\<lambda>w. (deg(v := deg v - 1)) w = 1) vs = filter (\<lambda>w. deg w = 1) vs"
    using Cons.prems by (intro filter_cong) auto
  then have "relax vs (deg(v := deg v - 1)) =
      (filter (\<lambda>w. deg w = 1) vs,
       \<lambda>x. if x \<in> set vs then (deg(v := deg v - 1)) x - 1 else (deg(v := deg v - 1)) x)"
    using Cons by simp
  then show ?case
    using Cons.prems by (auto simp: Let_def fun_eq_iff simp del: fun_upd_apply)
       (auto simp: fun_eq_iff)
qed

lemma set_successors: "v \<in> set (successors es u) \<longleftrightarrow> (u, v) \<in> set es"
  by (force simp: successors_def)

lemma distinct_successors: "distinct es \<Longrightarrow> distinct (successors es u)"
  by (auto simp: successors_def distinct_map inj_on_def intro: prod_eqI)

definition open_preds :: "(node_id \<times> node_id) list \<Rightarrow> node_id list \<Rightarrow> node_id \<Rightarrow> node_id set" where
  "open_preds es out v = {u. (u, v) \<in> set es \<and> u \<notin> set out}"

lemma finite_open_preds [simp]: "finite (open_preds es out v)"
  by (rule finite_subset [of _ "fst ` set es"]) (force simp: open_preds_def)+

lemma open_preds_snoc: "open_preds es (out @ [u]) v = open_preds es out v - {u}"
  by (auto simp: open_preds_def)

lemma in_degree_open_preds: "distinct es \<Longrightarrow> in_degree es v = int (card (open_preds es [] v))"
proof -
  assume d: "distinct es"
  have "open_preds es [] v = fst ` set (filter (\<lambda>e. snd e = v) es)"
    by (force simp: open_preds_def)
  moreover have "inj_on fst (set (filter (\<lambda>e. snd e = v) es))"
    by (auto simp: inj_on_def intro: prod_eqI)
  ultimately show ?thesis
    using d by (simp add: in_degree_def card_image distinct_card flip: set_filter)
qed

text \<open>
  The loop invariant: the output is in dependency order, and an id is queued or output exactly
  when all its predecessors are output.
\<close>

definition kahn_inv ::
  "(node_id \<times> node_id) list \<Rightarrow> node_id set \<Rightarrow> node_id list \<Rightarrow> (node_id \<Rightarrow> int) \<Rightarrow> node_id list \<Rightarrow> bool"
where
  "kahn_inv es V queue deg out \<longleftrightarrow>
     distinct (out @ queue) \<and> set (out @ queue) \<subseteq> V \<and>
     (\<forall>v \<in> V. deg v = int (card (open_preds es out v))) \<and>
     (\<forall>v \<in> V. v \<in> set (out @ queue) \<longleftrightarrow> open_preds es out v = {}) \<and>
     dep_ordered (set es) out"

lemma kahn_inv_step:
  assumes inv: "kahn_inv es V (u # queue) deg out"
    and es: "distinct es" "set es \<subseteq> V \<times> V"
    and relaxed: "relax (successors es u) deg = (queued, deg')"
  shows "kahn_inv es V (queue @ queued) deg' (out @ [u])"
proof -
  let ?open = "open_preds es out"
  have u: "u \<in> V" "u \<notin> set out" "?open u = {}"
    using inv by (auto simp: kahn_inv_def)
  have deg: "deg v = int (card (?open v))"
    and done_iff: "v \<in> set out \<or> v = u \<or> v \<in> set queue \<longleftrightarrow> ?open v = {}" if "v \<in> V" for v
    using inv that by (auto simp: kahn_inv_def)
  have queued: "queued = filter (\<lambda>v. deg v = 1) (successors es u)"
    and deg': "deg' = (\<lambda>x. if (u, x) \<in> set es then deg x - 1 else deg x)"
    using relaxed relax_eq [OF distinct_successors [OF es(1)]] by (auto simp: set_successors)
  have u_open: "u \<in> ?open v \<longleftrightarrow> (u, v) \<in> set es" for v
    using u(2) by (simp add: open_preds_def)
  have queued_iff: "v \<in> set queued \<longleftrightarrow> ?open v = {u}" if "v \<in> V" for v
  proof -
    have "v \<in> set queued \<longleftrightarrow> u \<in> ?open v \<and> card (?open v) = 1"
      using deg [OF that] by (auto simp: queued set_successors u_open)
    also have "\<dots> \<longleftrightarrow> ?open v = {u}"
      by (metis card_1_singletonE is_singletonI is_singleton_altdef singletonD singletonI)
    finally show ?thesis .
  qed
  have queued_V: "set queued \<subseteq> V"
    using es(2) by (auto simp: queued set_successors)
  have "distinct (out @ [u] @ queue @ queued)"
  proof -
    have "v \<notin> set out \<and> v \<noteq> u \<and> v \<notin> set queue" if "v \<in> set queued" for v
      using that queued_V queued_iff done_iff by blast
    moreover have "distinct queued"
      using es(1) by (simp add: queued distinct_successors)
    ultimately show ?thesis
      using inv by (auto simp: kahn_inv_def)
  qed
  moreover have "set (out @ [u] @ queue @ queued) \<subseteq> V"
    using inv queued_V by (auto simp: kahn_inv_def)
  moreover have "deg' v = int (card (open_preds es (out @ [u]) v))" if "v \<in> V" for v
  proof (cases "u \<in> ?open v")
    case True
    then have "card (?open v) > 0" by (auto simp: card_gt_0_iff)
    with True deg [OF that] show ?thesis
      by (simp add: deg' open_preds_snoc u_open card_Diff_singleton)
  next
    case False
    with deg [OF that] show ?thesis
      by (simp add: deg' open_preds_snoc u_open)
  qed
  moreover have "v \<in> set (out @ [u] @ queue @ queued) \<longleftrightarrow> open_preds es (out @ [u]) v = {}"
    if "v \<in> V" for v
    using done_iff [OF that] queued_iff [OF that] by (auto simp: open_preds_snoc)
  moreover have "dep_ordered (set es) (out @ [u])"
    using inv u(3) by (auto simp: dep_ordered_snoc kahn_inv_def open_preds_def)
  ultimately show ?thesis by (simp add: kahn_inv_def)
qed

lemma kahn_run:
  assumes "kahn_inv es V queue deg out" and "finite V" and "card V - length out < fuel"
    and "distinct es" and "set es \<subseteq> V \<times> V"
  shows "\<exists>xs deg'. kahn es fuel queue deg out = Some xs \<and> kahn_inv es V [] deg' xs"
  using assms
proof (induction es fuel queue deg out rule: kahn.induct)
  case (1 es queue deg out)
  then show ?case by simp
next
  case (2 es fuel deg out)
  then show ?case by auto
next
  case (3 es fuel u queue deg out)
  obtain queued deg' where r: "relax (successors es u) deg = (queued, deg')"
    by (cases "relax (successors es u) deg")
  have "kahn_inv es V (queue @ queued) deg' (out @ [u])"
    using "3.prems" r by (intro kahn_inv_step)
  moreover have "length (out @ u # queue) \<le> card V"
    using "3.prems" by (metis card_mono distinct_card kahn_inv_def)
  ultimately show ?case
    using "3.IH" [OF r [symmetric] refl] "3.prems" r by simp
qed

subsection \<open>The whole sort\<close>

lemma kahn_inv_initial:
  "kahn_inv (plan_edges p) (set (node_ids p)) (initial_queue p) (in_degree (plan_edges p)) []"
proof -
  have d: "distinct (plan_edges p)" by (simp add: plan_edges_def)
  then show ?thesis
    by (auto simp: kahn_inv_def initial_queue_def in_degree_open_preds)
qed

lemma kahn_order_run:
  assumes "refs_exist p"
  obtains xs deg where "kahn_order p = Some xs"
    and "kahn_inv (plan_edges p) (set (node_ids p)) [] deg xs"
proof -
  have "card (set (node_ids p)) \<le> length (p_nodes p)"
    using card_length [of "node_ids p"] by (simp add: node_ids_def)
  moreover have "distinct (plan_edges p)" by (simp add: plan_edges_def)
  ultimately have "\<exists>xs deg. kahn_order p = Some xs \<and>
      kahn_inv (plan_edges p) (set (node_ids p)) [] deg xs"
    unfolding kahn_order_def
    using kahn_run [OF kahn_inv_initial, of p "Suc (length (p_nodes p))"]
      plan_edges_within [OF assms] by auto
  then show thesis using that by blast
qed

lemma topo_sort_returns: "topo_sort p \<noteq> Inl DoesNotReturn"
proof (cases "refs_exist p")
  case True
  then obtain xs where "kahn_order p = Some xs" by (rule kahn_order_run)
  moreover have c: "check_all (check_refs (set (node_ids p))) (p_nodes p) = Inr ()"
    using True by (simp add: check_refs_Inr refs_exist_def)
  ultimately show ?thesis unfolding topo_sort_def c by simp
next
  case False
  have no_fuel: "check_refs ids n \<noteq> Inl DoesNotReturn" for ids n
    by (auto simp: check_refs_def and_then_Inl_iff dest!: check_all_InlD)
  from False have "check_all (check_refs (set (node_ids p))) (p_nodes p) \<noteq> Inr ()"
    by (simp add: check_refs_Inr refs_exist_def)
  then obtain e where e: "check_all (check_refs (set (node_ids p))) (p_nodes p) = Inl e"
    by (cases "check_all (check_refs (set (node_ids p))) (p_nodes p)") auto
  then have "e \<noteq> DoesNotReturn" using no_fuel by (auto dest!: check_all_InlD)
  with e show ?thesis by (simp add: topo_sort_def)
qed

lemma topo_sort_sound:
  assumes "topo_sort p = Inr ids"
  shows "refs_exist p" and "distinct (node_ids p)" and "distinct ids"
    and "set ids = set (node_ids p)" and "dep_ordered (set (plan_edges p)) ids"
proof -
  show refs: "refs_exist p"
    using assms by (simp add: topo_sort_def check_refs_Inr refs_exist_def)
  obtain xs deg where xs: "kahn_order p = Some xs"
    and inv: "kahn_inv (plan_edges p) (set (node_ids p)) [] deg xs"
    using refs by (rule kahn_order_run)
  from assms xs have [simp]: "xs = ids" and len: "length ids = length (node_ids p)"
    by (auto simp: topo_sort_def node_ids_def split: if_splits)
  show d: "distinct ids" and "dep_ordered (set (plan_edges p)) ids"
    using inv by (auto simp: kahn_inv_def)
  have sub: "set ids \<subseteq> set (node_ids p)" using inv by (simp add: kahn_inv_def)
  have "card (set ids) = length (node_ids p)" using d len by (simp add: distinct_card)
  then have "card (set (node_ids p)) = length (node_ids p)"
    using sub card_mono [of "set (node_ids p)" "set ids"] card_length [of "node_ids p"] by simp
  then show "distinct (node_ids p)" by (rule card_distinct)
  show "set ids = set (node_ids p)"
    using sub \<open>card (set ids) = length (node_ids p)\<close> card_length [of "node_ids p"]
    by (intro card_seteq) auto
qed

lemma topo_sort_complete:
  assumes refs: "refs_exist p" and ids: "distinct (node_ids p)"
    and acyc: "acyclic (set (plan_edges p))"
  shows "\<exists>xs. topo_sort p = Inr xs"
proof -
  let ?V = "set (node_ids p)" and ?E = "set (plan_edges p)"
  obtain xs deg where xs: "kahn_order p = Some xs" and inv: "kahn_inv (plan_edges p) ?V [] deg xs"
    using refs by (rule kahn_order_run)
  have "?V - set xs = {}"
  proof (rule ccontr)
    assume "?V - set xs \<noteq> {}"
    moreover have "wf ?E" using acyc by (intro finite_acyclic_wf) auto
    ultimately obtain z where z: "z \<in> ?V - set xs"
      and least: "\<And>y. (y, z) \<in> ?E \<Longrightarrow> y \<notin> ?V - set xs"
      by (metis wfE_min ex_in_conv)
    from z inv have "open_preds (plan_edges p) xs z \<noteq> {}" by (auto simp: kahn_inv_def)
    with least plan_edges_within [OF refs] show False by (auto simp: open_preds_def)
  qed
  moreover have "set xs \<subseteq> ?V" and "distinct xs" using inv by (auto simp: kahn_inv_def)
  ultimately have "length xs = length (p_nodes p)"
    using ids by (metis Diff_eq_empty_iff distinct_card length_map node_ids_def subset_antisym)
  with refs xs show ?thesis
    by (simp add: topo_sort_def check_refs_Inr refs_exist_def)
qed

lemma topo_sort_decides:
  "(\<exists>xs. topo_sort p = Inr xs) \<longleftrightarrow>
     refs_exist p \<and> distinct (node_ids p) \<and> acyclic (set (plan_edges p))"
proof
  assume "\<exists>xs. topo_sort p = Inr xs"
  then obtain xs where xs: "topo_sort p = Inr xs" ..
  note sound = topo_sort_sound [OF xs]
  have "acyclic (set (plan_edges p))"
    using sound plan_edges_within [of p] by (intro dep_ordered_acyclic [of _ xs]) auto
  with sound show "refs_exist p \<and> distinct (node_ids p) \<and> acyclic (set (plan_edges p))"
    by blast
qed (blast intro: topo_sort_complete)

section \<open>Property\<close>

text \<open>C1: \<open>topo_sort\<close> is total and decides exactly the plans whose references all exist, whose ids
  are distinct and whose data and control edges have no cycle; the order it returns lists every
  node id once, each after all its predecessors.\<close>

theorem topo_sort_correct:
  "case topo_sort p of
     Inr ids \<Rightarrow> refs_exist p \<and> distinct (node_ids p) \<and> acyclic (set (plan_edges p)) \<and>
       distinct ids \<and> set ids = set (node_ids p) \<and> dep_ordered (set (plan_edges p)) ids
   | Inl e \<Rightarrow> e \<noteq> DoesNotReturn \<and>
       \<not> (refs_exist p \<and> distinct (node_ids p) \<and> acyclic (set (plan_edges p)))"
proof (cases "topo_sort p")
  case (Inl e)
  then show ?thesis using topo_sort_returns [of p] topo_sort_decides [of p] by auto
next
  case (Inr ids)
  then show ?thesis using topo_sort_sound [OF Inr] topo_sort_decides [of p] by auto
qed

end
