(* ===== verification/SettingsModel.thy ===== *)
theory SettingsModel
  imports PlanCore
begin

text \<open>
  The configuration models of \<open>config/settings.py\<close>: one record per pydantic model, its defaults,
  its validators (\<open>ValueError\<close> as the left of a sum), the tier list and the \<open>--fast\<close> profile.
  Loading from environment variables and TOML files is pydantic's; the prompt texts of
  \<open>config/prompts.py\<close> are a parameter of the defaults.
\<close>

datatype settings_error =
    ScriptedPathMissing
  | BaseUrlMissing
  | ModelMissing
  | RoutingOutOfRange string
  | FastModeNeedsKey

section \<open>Tiers\<close>

record tier_config =
  tc_kind :: string
  tc_base_url :: string
  tc_model :: string
  tc_api_key :: string
  tc_timeout_s :: rat
  tc_prompt_caching :: "bool option"
  tc_scripted_path :: string
  tc_extra_body :: "(string \<times> json) list"

definition default_tier_config :: tier_config where
  "default_tier_config =
     \<lparr>tc_kind = ''openai_compat'', tc_base_url = [], tc_model = [], tc_api_key = [],
      tc_timeout_s = 60, tc_prompt_caching = None, tc_scripted_path = [], tc_extra_body = []\<rparr>"

definition check_required_fields :: "tier_config \<Rightarrow> settings_error + tier_config" where
  "check_required_fields c =
     (if tc_kind c = ''scripted'' then
        (if tc_scripted_path c = [] then Inl ScriptedPathMissing else Inr c)
      else if tc_kind c = ''openai_compat'' then
        (if tc_base_url c = [] then Inl BaseUrlMissing
         else if tc_model c = [] then Inl ModelMissing
         else Inr c)
      else Inr c)"

section \<open>Budgets and prompts\<close>

record node_budgets =
  bu_planner :: int
  bu_think :: int
  bu_summary :: int
  bu_synthesis :: int
  bu_result :: int
  bu_decision :: int
  bu_extract_args :: int
  bu_shape_check :: int

definition default_budgets :: node_budgets where
  "default_budgets =
     \<lparr>bu_planner = 16384, bu_think = 8192, bu_summary = 8192, bu_synthesis = 4096,
      bu_result = 4096, bu_decision = 256, bu_extract_args = 512, bu_shape_check = 128\<rparr>"

record node_prompts =
  pr_planner :: string
  pr_decision :: string
  pr_extract_args :: string
  pr_think :: string
  pr_synthesis :: string
  pr_summary :: string
  pr_summary_concise :: string
  pr_summary_verbose :: string
  pr_result :: string
  pr_shape_check :: string

section \<open>Tools\<close>

record web_tool_config =
  web_fetch_enabled :: bool
  web_search_kind :: string
  web_searxng_url :: string
  web_timeout_s :: rat
  web_max_results :: int
  web_allow_private_hosts :: bool
  web_max_fetch_bytes :: int

definition default_web_tool_config :: web_tool_config where
  "default_web_tool_config =
     \<lparr>web_fetch_enabled = False, web_search_kind = ''none'',
      web_searxng_url = ''http://localhost:8888'', web_timeout_s = 20, web_max_results = 5,
      web_allow_private_hosts = False, web_max_fetch_bytes = 5000000\<rparr>"

record image_tool_config =
  img_enabled :: bool
  img_mflux_bin :: string
  img_model :: string
  img_quantize :: int
  img_default_steps :: int
  img_default_width :: int
  img_default_height :: int
  img_low_ram :: bool
  img_mlx_cache_limit_gb :: int
  img_timeout_s :: rat

definition default_image_tool_config :: image_tool_config where
  "default_image_tool_config =
     \<lparr>img_enabled = False, img_mflux_bin = [], img_model = ''schnell'', img_quantize = 4,
      img_default_steps = 4, img_default_width = 1024, img_default_height = 1024,
      img_low_ram = True, img_mlx_cache_limit_gb = 8, img_timeout_s = 300\<rparr>"

record tools_settings =
  fs_roots :: "string list option"
  tools_web :: web_tool_config
  tools_image :: image_tool_config

definition default_tools :: tools_settings where
  "default_tools =
     \<lparr>fs_roots = None, tools_web = default_web_tool_config,
      tools_image = default_image_tool_config\<rparr>"

datatype approval_policy = ALLOW | ASK | DENY

datatype approval_mode = INTERACTIVE | AUTO

record tool_approval_settings =
  ta_default :: approval_policy
  ta_mode :: approval_mode
  ta_overrides :: "(string \<times> approval_policy) list"

definition default_tool_approval :: tool_approval_settings where
  "default_tool_approval = \<lparr>ta_default = ALLOW, ta_mode = INTERACTIVE, ta_overrides = []\<rparr>"

definition policy_for :: "tool_approval_settings \<Rightarrow> string \<Rightarrow> approval_policy" where
  "policy_for ta tool =
     (case map_of (ta_overrides ta) tool of None \<Rightarrow> ta_default ta | Some p \<Rightarrow> p)"

section \<open>Resilience and routing\<close>

record resilience_config =
  max_llm_node_retries :: int
  escalate_tier_on_retry :: bool

definition default_resilience :: resilience_config where
  "default_resilience = \<lparr>max_llm_node_retries = 1, escalate_tier_on_retry = True\<rparr>"

record routing_config =
  rt_decision :: int
  rt_tool :: int
  rt_synthesis :: int
  rt_think :: int
  rt_summary :: int
  rt_result :: int
  rt_reasoning_required :: int

definition default_routing :: routing_config where
  "default_routing =
     \<lparr>rt_decision = 0, rt_tool = 0, rt_synthesis = 0, rt_think = 2, rt_summary = 0,
      rt_result = 0, rt_reasoning_required = 2\<rparr>"

definition routing_fields :: "routing_config \<Rightarrow> (string \<times> int) list" where
  "routing_fields r =
     [(''decision'', rt_decision r), (''tool'', rt_tool r), (''synthesis'', rt_synthesis r),
      (''think'', rt_think r), (''summary'', rt_summary r), (''result'', rt_result r),
      (''reasoning_required'', rt_reasoning_required r)]"

definition check_tier_range :: "routing_config \<Rightarrow> settings_error + unit" where
  "check_tier_range r =
     check_all (\<lambda>(field, value). raise_if (value < 0 \<or> value > 3) (RoutingOutOfRange field))
       (routing_fields r)"

section \<open>Process-wide settings\<close>

record fast_mode_config =
  fm_base_url :: string
  fm_api_key :: string
  fm_extra_body :: "(string \<times> json) list"
  fm_max_generation_tokens :: int
  fm_tier0_model :: string
  fm_tier1_model :: string
  fm_tier2_model :: string
  fm_tier3_model :: string
  fm_tier0_timeout_s :: rat
  fm_tier1_timeout_s :: rat
  fm_tier2_timeout_s :: rat
  fm_tier3_timeout_s :: rat
  fm_tier0_extra_body :: "(string \<times> json) list option"
  fm_tier1_extra_body :: "(string \<times> json) list option"
  fm_tier2_extra_body :: "(string \<times> json) list option"
  fm_tier3_extra_body :: "(string \<times> json) list option"

definition openrouter_url :: string where
  "openrouter_url = ''https://openrouter.ai/api/v1''"

definition default_fast_mode :: fast_mode_config where
  "default_fast_mode =
     \<lparr>fm_base_url = openrouter_url, fm_api_key = [],
      fm_extra_body =
        [(''reasoning'', JObj [(''effort'', JStr ''none'')]),
         (''provider'', JObj [(''require_parameters'', JBool True)])],
      fm_max_generation_tokens = 32768,
      fm_tier0_model = ''qwen/qwen3-8b'', fm_tier1_model = ''qwen/qwen3.6-35b-a3b'',
      fm_tier2_model = ''qwen/qwen3.6-35b-a3b'', fm_tier3_model = ''qwen/qwen3.6-35b-a3b'',
      fm_tier0_timeout_s = 60, fm_tier1_timeout_s = 90, fm_tier2_timeout_s = 90,
      fm_tier3_timeout_s = 90, fm_tier0_extra_body = None, fm_tier1_extra_body = None,
      fm_tier2_extra_body = None, fm_tier3_extra_body = None\<rparr>"

text \<open>
  The fields the modelled components read; logging, tracing and the state path are only handed to
  libraries.
\<close>

record settings =
  api_key :: "string option"
  tier0 :: tier_config
  tier1 :: tier_config
  tier2 :: tier_config
  tier3 :: tier_config
  max_plan_nodes :: int
  max_decision_nesting_depth :: int
  max_replan_attempts :: int
  max_concurrent_nodes :: int
  resilience :: resilience_config
  routing :: routing_config
  planner_stall_char_multiplier :: int
  planner_min_tier :: int
  planner_initial_timeout_s :: int
  planner_retry_timeout_s :: int
  confidence_threshold :: rat
  max_subplan_nodes :: int
  max_subplans_per_plan :: int
  max_generation_tokens :: int
  budgets :: node_budgets
  prompts :: node_prompts
  tools :: tools_settings
  load_tool_plugins :: bool
  confirm_plans :: bool
  tool_approval :: tool_approval_settings
  fast :: fast_mode_config

definition default_settings :: "node_prompts \<Rightarrow> settings" where
  "default_settings pr =
     \<lparr>api_key = None,
      tier0 = default_tier_config\<lparr>tc_base_url := ''http://localhost:8080/v1'',
                tc_model := ''qwen3.6-35b-moe'', tc_timeout_s := 10\<rparr>,
      tier1 = default_tier_config\<lparr>tc_base_url := openrouter_url,
                tc_model := ''deepseek/deepseek-v4-flash''\<rparr>,
      tier2 = default_tier_config\<lparr>tc_base_url := openrouter_url,
                tc_model := ''deepseek/deepseek-v4-pro''\<rparr>,
      tier3 = default_tier_config\<lparr>tc_base_url := openrouter_url,
                tc_model := ''anthropic/claude-sonnet-4-6''\<rparr>,
      max_plan_nodes = 24, max_decision_nesting_depth = 2, max_replan_attempts = 1,
      max_concurrent_nodes = 4, resilience = default_resilience, routing = default_routing,
      planner_stall_char_multiplier = 4, planner_min_tier = 0, planner_initial_timeout_s = 150,
      planner_retry_timeout_s = 240, confidence_threshold = 3 / 4, max_subplan_nodes = 12,
      max_subplans_per_plan = 2, max_generation_tokens = 20000, budgets = default_budgets,
      prompts = pr, tools = default_tools, load_tool_plugins = False, confirm_plans = False,
      tool_approval = default_tool_approval, fast = default_fast_mode\<rparr>"

definition tiers :: "settings \<Rightarrow> tier_config list" where
  "tiers s = [tier0 s, tier1 s, tier2 s, tier3 s]"

text \<open>
  \<open>with_fast_mode\<close>: \<open>key\<close> is the explicit argument and \<open>env_key\<close> the value of
  \<open>OPENROUTER_API_KEY\<close> (empty when unset).  Building a \<open>TierConfig\<close> runs its validator.
\<close>

definition cloud_tier ::
  "fast_mode_config \<Rightarrow> string \<Rightarrow> string \<Rightarrow> rat \<Rightarrow> (string \<times> json) list option
     \<Rightarrow> settings_error + tier_config"
where
  "cloud_tier fm key m t eb =
     check_required_fields
       (default_tier_config\<lparr>tc_base_url := fm_base_url fm, tc_model := m, tc_api_key := key,
          tc_timeout_s := t,
          tc_extra_body := (case eb of Some e \<Rightarrow> e | None \<Rightarrow> fm_extra_body fm)\<rparr>)"

definition resolved_key :: "settings \<Rightarrow> string \<Rightarrow> string \<Rightarrow> string" where
  "resolved_key s key env_key =
     (if key \<noteq> [] then key else if fm_api_key (fast s) \<noteq> [] then fm_api_key (fast s) else env_key)"

definition with_fast_mode :: "settings \<Rightarrow> string \<Rightarrow> string \<Rightarrow> settings_error + settings" where
  "with_fast_mode s key env_key =
     (let fm = fast s; k = resolved_key s key env_key in
      if k = [] then Inl FastModeNeedsKey
      else
        and_then (cloud_tier fm k (fm_tier0_model fm) (fm_tier0_timeout_s fm) (fm_tier0_extra_body fm))
          (\<lambda>t0. and_then (cloud_tier fm k (fm_tier1_model fm) (fm_tier1_timeout_s fm) (fm_tier1_extra_body fm))
          (\<lambda>t1. and_then (cloud_tier fm k (fm_tier2_model fm) (fm_tier2_timeout_s fm) (fm_tier2_extra_body fm))
          (\<lambda>t2. and_then (cloud_tier fm k (fm_tier3_model fm) (fm_tier3_timeout_s fm) (fm_tier3_extra_body fm))
          (\<lambda>t3. Inr (s\<lparr>tier0 := t0, tier1 := t1, tier2 := t2, tier3 := t3,
                       max_generation_tokens := fm_max_generation_tokens fm\<rparr>))))))"

section \<open>Facts\<close>

lemma length_tiers [simp]: "length (tiers s) = 4"
  by (simp add: tiers_def)

lemma check_tier_range_Inr:
  "check_tier_range r = Inr u \<longleftrightarrow> (\<forall>(f, v) \<in> set (routing_fields r). 0 \<le> v \<and> v \<le> 3)"
  by (force simp: check_tier_range_def)

lemma cloud_tier_Inr:
  "cloud_tier fm k m t eb = Inr c \<Longrightarrow>
     tc_api_key c = k \<and> tc_base_url c = fm_base_url fm \<and> tc_model c = m \<and> m \<noteq> [] \<and>
     tc_kind c = ''openai_compat'' \<and> check_required_fields c = Inr c"
  by (auto simp: cloud_tier_def check_required_fields_def default_tier_config_def split: if_splits)

lemma with_fast_mode_Inr:
  assumes "with_fast_mode s key env_key = Inr s'"
  shows "resolved_key s key env_key \<noteq> []"
    and "\<forall>c \<in> set (tiers s'). tc_api_key c = resolved_key s key env_key \<and>
           tc_base_url c = fm_base_url (fast s) \<and> check_required_fields c = Inr c"
    and "s' = s\<lparr>tier0 := tier0 s', tier1 := tier1 s', tier2 := tier2 s', tier3 := tier3 s',
                max_generation_tokens := fm_max_generation_tokens (fast s)\<rparr>"
  using assms
  by (auto simp: with_fast_mode_def Let_def tiers_def dest!: cloud_tier_Inr split: if_splits)

end
