(* ===== verification/ToolHarness.thy ===== *)
theory ToolHarness
  imports SettingsModel
begin

text \<open>
  The tool registry of \<open>harness/registry.py\<close>, the built-in tools of \<open>harness/builtin.py\<close> and the
  path guard of \<open>harness/pathguard.py\<close>.  A tool function takes keyword arguments and the state of
  the outside world, and returns a value or the text of the exception it raised.
\<close>

section \<open>The registry\<close>

type_synonym tool_args = "(string \<times> json) list"

type_synonym 'w tool_func = "tool_args \<Rightarrow> 'w \<Rightarrow> (string + json) \<times> 'w"

record 'w harness =
  h_funcs :: "(string \<times> 'w tool_func) list"
  h_schemas :: "(string \<times> json) list"
  h_risk :: "(string \<times> tool_risk) list"

datatype tool_error =
    AlreadyRegistered string
  | UnknownTool string
  | ToolRaised string string
  | OutsideRoots string
  | PathError string

fun tool_error_text :: "tool_error \<Rightarrow> string" where
  "tool_error_text (AlreadyRegistered n) = ''Tool '' @ [CHR 0x27] @ n @ [CHR 0x27] @ '' already registered''"
| "tool_error_text (UnknownTool n) = ''Unknown tool: '' @ [CHR 0x27] @ n @ [CHR 0x27]"
| "tool_error_text (ToolRaised n e) = ''Tool '' @ [CHR 0x27] @ n @ [CHR 0x27] @ '' raised: '' @ e"
| "tool_error_text (OutsideRoots p) =
     ''path '' @ [CHR 0x27] @ p @ [CHR 0x27] @ '' is outside the configured tools.fs_roots''"
| "tool_error_text (PathError e) = e"

definition empty_harness :: "'w harness" where
  "empty_harness = \<lparr>h_funcs = [], h_schemas = [], h_risk = []\<rparr>"

fun risk_value :: "tool_risk \<Rightarrow> string" where
  "risk_value RiskRead = ''read''"
| "risk_value RiskNetwork = ''network''"
| "risk_value RiskWrite = ''write''"
| "risk_value RiskExecute = ''execute''"

definition tool_schema :: "string \<Rightarrow> string \<Rightarrow> json \<Rightarrow> tool_risk \<Rightarrow> json" where
  "tool_schema name desc params risk =
     JObj [(''type'', JStr ''function''),
           (''function'', JObj [(''name'', JStr name), (''description'', JStr desc),
                                (''parameters'', params)]),
           (''x_risk'', JStr (risk_value risk))]"

definition register ::
  "string \<Rightarrow> string \<Rightarrow> json \<Rightarrow> tool_risk \<Rightarrow> 'w tool_func \<Rightarrow> 'w harness \<Rightarrow> tool_error + 'w harness"
where
  "register name desc params risk func h =
     (if name \<in> dom (map_of (h_funcs h)) then Inl (AlreadyRegistered name)
      else Inr \<lparr>h_funcs = AList.update name func (h_funcs h),
                h_schemas = AList.update name (tool_schema name desc params risk) (h_schemas h),
                h_risk = AList.update name risk (h_risk h)\<rparr>)"

text \<open>What an advertised entry point loads to: a failure, a non-callable, or a function with its doc.\<close>

datatype 'w entry_object = LoadFails | NotCallable | Callable "string option" "'w tool_func"

definition entry_description :: "string \<Rightarrow> string option \<Rightarrow> string" where
  "entry_description name doc =
     (let d = strip (case doc of None \<Rightarrow> [] | Some t \<Rightarrow> t) in if d = [] then name else d)"

definition object_params :: json where
  "object_params = JObj [(''type'', JStr ''object''), (''properties'', JObj [])]"

fun load_entry_points ::
  "(string \<times> 'w entry_object) list \<Rightarrow> 'w harness \<Rightarrow> nat \<Rightarrow> 'w harness \<times> nat"
where
  "load_entry_points [] h loaded = (h, loaded)"
| "load_entry_points ((name, obj) # eps) h loaded =
     (case obj of
        LoadFails \<Rightarrow> load_entry_points eps h loaded
      | NotCallable \<Rightarrow> load_entry_points eps h loaded
      | Callable doc func \<Rightarrow>
          (case register name (entry_description name doc) object_params RiskRead func h of
             Inl _ \<Rightarrow> load_entry_points eps h loaded
           | Inr h' \<Rightarrow> load_entry_points eps h' (Suc loaded)))"

definition schema_for :: "'w harness \<Rightarrow> string \<Rightarrow> json option" where
  "schema_for h name = map_of (h_schemas h) name"

definition risk_for :: "'w harness \<Rightarrow> string \<Rightarrow> tool_risk" where
  "risk_for h name = (case map_of (h_risk h) name of None \<Rightarrow> RiskRead | Some r \<Rightarrow> r)"

definition all_schemas :: "'w harness \<Rightarrow> json list" where
  "all_schemas h = map snd (h_schemas h)"

definition all_names :: "'w harness \<Rightarrow> string list" where
  "all_names h = map fst (h_funcs h)"

definition unknown_names :: "'w harness \<Rightarrow> string option list \<Rightarrow> string list" where
  "unknown_names h names =
     [n. Some n \<leftarrow> names, n \<notin> set (all_names h)]"

definition harness_execute ::
  "'w harness \<Rightarrow> string \<Rightarrow> tool_args \<Rightarrow> 'w \<Rightarrow> (tool_error + json) \<times> 'w"
where
  "harness_execute h name args w =
     (case map_of (h_funcs h) name of
        None \<Rightarrow> (Inl (UnknownTool name), w)
      | Some f \<Rightarrow>
          (case f args w of
             (Inl e, w') \<Rightarrow> (Inl (ToolRaised name e), w')
           | (Inr v, w') \<Rightarrow> (Inr v, w')))"

text \<open>The three dicts always have the same keys, without duplicates.\<close>

definition harness_wf :: "'w harness \<Rightarrow> bool" where
  "harness_wf h \<longleftrightarrow>
     distinct (map fst (h_funcs h)) \<and> map fst (h_schemas h) = map fst (h_funcs h) \<and>
     map fst (h_risk h) = map fst (h_funcs h)"

section \<open>Path guard\<close>

text \<open>
  \<open>Path(p).expanduser().resolve()\<close> reads the file system: it is the parameter \<open>resolve\<close>, from a
  path text to the components of the absolute path, or to the text of the exception.  The latch of
  the one-time warning is threaded through.
\<close>

definition is_relative_to :: "string list \<Rightarrow> string list \<Rightarrow> bool" where
  "is_relative_to p base \<longleftrightarrow> starts_with base p"

definition ensure_within_roots ::
  "(string \<Rightarrow> string + string list) \<Rightarrow> string \<Rightarrow> string list option \<Rightarrow> bool
     \<Rightarrow> (tool_error + string list) \<times> bool"
where
  "ensure_within_roots resolve path roots warned =
     (case resolve path of
        Inl e \<Rightarrow> (Inl (PathError e), warned)
      | Inr resolved \<Rightarrow>
          (case roots of
             None \<Rightarrow> (Inr resolved, True)
           | Some [] \<Rightarrow> (Inr resolved, True)
           | Some rs \<Rightarrow>
               (case map_all resolve rs of
                  Inl e \<Rightarrow> (Inl (PathError e), warned)
                | Inr resolved_roots \<Rightarrow>
                    (if list_ex (is_relative_to resolved) resolved_roots
                     then (Inr resolved, warned) else (Inl (OutsideRoots path), warned)))))"

section \<open>Facts\<close>

lemma unknown_names_Nil:
  "unknown_names h names = [] \<longleftrightarrow> (\<forall>n. Some n \<in> set names \<longrightarrow> n \<in> set (all_names h))"
  by (auto simp: unknown_names_def split: option.splits)

lemma harness_wf_empty [simp]: "harness_wf empty_harness"
  by (simp add: harness_wf_def empty_harness_def)

lemma map_fst_update:
  "map fst (AList.update k v xs) = (if k \<in> set (map fst xs) then map fst xs else map fst xs @ [k])"
  by (induction xs) auto

lemma register_wf: "harness_wf h \<Longrightarrow> register n d p r f h = Inr h' \<Longrightarrow> harness_wf h'"
  by (auto simp: harness_wf_def register_def map_fst_update dom_map_of_conv_image_fst
      split: if_splits)

lemma load_entry_points_wf: "harness_wf h \<Longrightarrow> harness_wf (fst (load_entry_points eps h k))"
  by (induction eps h k rule: load_entry_points.induct)
    (auto split: entry_object.splits sum.splits dest: register_wf)

lemma register_lookup:
  "register n d p r f h = Inr h' \<Longrightarrow>
     map_of (h_funcs h') = (map_of (h_funcs h))(n \<mapsto> f) \<and>
     schema_for h' = (schema_for h)(n \<mapsto> tool_schema n d p r) \<and>
     risk_for h' = (risk_for h)(n := r)"
  by (auto simp: register_def schema_for_def risk_for_def fun_eq_iff split: if_splits)

end
