(* ===== verification/PlanValidator.thy ===== *)
theory PlanValidator
  imports PlanGraph ToolHarness
begin

text \<open>
  \<open>PlanValidator\<close> of \<open>validator/validator.py\<close>: one definition per check, in the order \<open>validate\<close>
  runs them, with nested subplans validated by recursion.  \<open>validate\<close> returns the plan with every
  \<open>sorted_node_ids\<close> filled in, which the code does by mutation.
\<close>

section \<open>The checks\<close>

definition node_limit :: "settings \<Rightarrow> bool \<Rightarrow> int" where
  "node_limit s is_subplan = (if is_subplan then max_subplan_nodes s else max_plan_nodes s)"

definition check_node_limit :: "settings \<Rightarrow> bool \<Rightarrow> plan \<Rightarrow> plan_error + unit" where
  "check_node_limit s is_subplan p =
     raise_if (int (length (p_nodes p)) > node_limit s is_subplan)
       (TooManyNodes is_subplan (length (p_nodes p)) (node_limit s is_subplan))"

text \<open>\<open>not node.tool\<close>: both \<open>None\<close> and the empty string.\<close>

definition falsy_str :: "string option \<Rightarrow> bool" where
  "falsy_str x = (case x of None \<Rightarrow> True | Some t \<Rightarrow> t = [])"

definition check_decision_contract :: "node \<Rightarrow> plan_error + unit" where
  "check_decision_contract n =
     (if falsy_str (n_condition n) then Inl (ConditionMissing (n_id n))
      else case n_branches n of
        None \<Rightarrow> Inl (BranchesMissing (n_id n))
      | Some bs \<Rightarrow>
          if set (map fst bs) \<noteq> {''yes'', ''no''} then Inl (BranchesNotYesNo (n_id n))
          else case n_default_branch n of
            None \<Rightarrow> Inl (DefaultNotABranch (n_id n))
          | Some d \<Rightarrow> raise_if (d \<notin> set (map fst bs)) (DefaultNotABranch (n_id n)))"

definition check_node_contract :: "node \<Rightarrow> plan_error + unit" where
  "check_node_contract n =
     and_then
       (if n_type n = TOOL then raise_if (falsy_str (n_tool n)) (ToolNotDeclared (n_id n))
        else raise_if (\<not> falsy_str (n_tool n)) (ToolNotAllowed (n_type n) (n_id n)))
       (\<lambda>_. and_then
         (if n_type n = DECISION then check_decision_contract n
          else raise_if (n_condition n \<noteq> None \<or> n_branches n \<noteq> None \<or> \<not> falsy_str (n_default_branch n))
                 (DecisionFieldsNotAllowed (n_type n) (n_id n)))
         (\<lambda>_. if n_type n = SUBPLAN then raise_if (n_subplan n = None) (SubplanMissing (n_id n))
              else raise_if (n_subplan n \<noteq> None) (SubplanNotAllowed (n_type n) (n_id n))))"

definition check_node_contracts :: "plan \<Rightarrow> plan_error + unit" where
  "check_node_contracts p = check_all check_node_contract (p_nodes p)"

definition check_tool_names :: "'w harness \<Rightarrow> plan \<Rightarrow> plan_error + unit" where
  "check_tool_names h p =
     (let unknown = unknown_names h (map n_tool (filter (\<lambda>n. n_type n = TOOL) (p_nodes p)))
      in raise_if (unknown \<noteq> []) (UnknownTools unknown))"

definition check_forced_tiers :: "settings \<Rightarrow> plan \<Rightarrow> plan_error + unit" where
  "check_forced_tiers s p =
     (let max_tier = int (length (tiers s)) - 1
      in check_all
           (\<lambda>n. case n_forced_tier n of
                  None \<Rightarrow> Inr ()
                | Some t \<Rightarrow> raise_if (t < 0 \<or> t > max_tier) (ForcedTierOutside (n_id n) t max_tier))
           (p_nodes p))"

subsection \<open>Decision nesting\<close>

text \<open>
  \<open>_nesting_depth\<close> follows branch targets that are decisions.  It recurses without a guard, so the
  model has fuel; \<open>nesting_depth_returns\<close> shows that one unit per node suffices on a plan that
  \<open>topo_sort\<close> accepted, which \<open>validate\<close> has run before.
\<close>

definition child_branches :: "(node_id \<Rightarrow> node option) \<Rightarrow> node_id list \<Rightarrow> node_id list list" where
  "child_branches nm ids =
     concat (map (\<lambda>i. case nm i of
                        None \<Rightarrow> []
                      | Some n \<Rightarrow> if n_type n = DECISION then map snd (branch_list n) else []) ids)"

fun max_all :: "nat \<Rightarrow> nat option list \<Rightarrow> nat option" where
  "max_all m [] = Some m"
| "max_all m (None # ds) = None"
| "max_all m (Some d # ds) = max_all (max m d) ds"

fun nesting_depth ::
  "nat \<Rightarrow> (node_id \<Rightarrow> node option) \<Rightarrow> node_id list \<Rightarrow> nat \<Rightarrow> nat option"
where
  "nesting_depth 0 nm ids current = None"
| "nesting_depth (Suc fuel) nm ids current =
     max_all current (map (\<lambda>bs. nesting_depth fuel nm bs (Suc current)) (child_branches nm ids))"

definition check_branch_depth :: "settings \<Rightarrow> plan \<Rightarrow> node \<Rightarrow> node_id list \<Rightarrow> plan_error + unit" where
  "check_branch_depth s p n bs =
     (case nesting_depth (Suc (length (p_nodes p))) (node_map p) bs 1 of
        None \<Rightarrow> Inl DoesNotReturn
      | Some d \<Rightarrow>
          raise_if (int d > max_decision_nesting_depth s)
            (NestingTooDeep d (max_decision_nesting_depth s) (n_id n)))"

definition check_decision_nesting :: "settings \<Rightarrow> plan \<Rightarrow> plan_error + unit" where
  "check_decision_nesting s p =
     check_all
       (\<lambda>n. if n_type n \<noteq> DECISION then Inr ()
            else check_all (check_branch_depth s p n) (map snd (branch_list n)))
       (p_nodes p)"

subsection \<open>Subplans\<close>

fun set_sorted :: "plan \<Rightarrow> node_id list \<Rightarrow> plan" where
  "set_sorted (Plan ns ids) ids' = Plan ns ids'"

fun set_subplan :: "node \<Rightarrow> plan \<Rightarrow> node" where
  "set_subplan (Node i t d tool a cn c bs db rr ft sp fm) q =
     Node i t d tool a cn c bs db rr ft (Some q) fm"

lemma option_case_fundef_cong [fundef_cong]:
  assumes "x = x'" and "x' = None \<Longrightarrow> a = a'" and "\<And>y. x' = Some y \<Longrightarrow> f y = f' y"
  shows "(case x of None \<Rightarrow> a | Some y \<Rightarrow> f y) = (case x' of None \<Rightarrow> a' | Some y \<Rightarrow> f' y)"
  using assms by (cases x') auto

function check_subplans :: "'w harness \<Rightarrow> settings \<Rightarrow> plan \<Rightarrow> plan_error + plan" where
  "check_subplans h s p =
     (let count = length (filter (\<lambda>n. n_type n = SUBPLAN) (p_nodes p));
          cap = max_subplans_per_plan s
      in if int count > cap then Inl (TooManySubplans count cap)
         else and_then
           (map_all
             (\<lambda>n. if n_type n \<noteq> SUBPLAN then Inr n
                  else case n_subplan n of
                    None \<Rightarrow> Inl (SubplanMissing (n_id n))
                  | Some q \<Rightarrow>
                      and_then (check_node_limit s True q) (\<lambda>_.
                      and_then (check_node_contracts q) (\<lambda>_.
                      and_then (check_tool_names h q) (\<lambda>_.
                      and_then (check_forced_tiers s q) (\<lambda>_.
                      and_then (topo_sort q) (\<lambda>ids.
                      and_then (check_decision_nesting s q) (\<lambda>_.
                      and_then (check_subplans h s q) (\<lambda>q'.
                        Inr (set_subplan n (set_sorted q' ids))))))))))
             (p_nodes p))
           (\<lambda>ns. Inr (Plan ns (p_sorted_node_ids p))))"
  by pat_completeness auto
termination
  by (relation "measure (\<lambda>(h, s, p). size p)") (auto intro: size_subplan)

declare check_subplans.simps [simp del]

definition validate :: "'w harness \<Rightarrow> settings \<Rightarrow> plan \<Rightarrow> plan_error + plan" where
  "validate h s p =
     and_then (check_node_limit s False p) (\<lambda>_.
     and_then (check_node_contracts p) (\<lambda>_.
     and_then (check_tool_names h p) (\<lambda>_.
     and_then (check_forced_tiers s p) (\<lambda>_.
     and_then (topo_sort p) (\<lambda>ids.
     and_then (check_decision_nesting s p) (\<lambda>_.
     and_then (check_subplans h s p) (\<lambda>p'.
       Inr (set_sorted p' ids))))))))"

section \<open>Termination\<close>

lemma max_all_Some:
  "max_all m ds = Some d \<longleftrightarrow> None \<notin> set ds \<and> d = fold max (map the ds) m"
  by (induction m ds rule: max_all.induct) (auto simp: max.commute)

lemma max_all_None: "max_all m ds = None \<longleftrightarrow> None \<in> set ds"
  by (induction m ds rule: max_all.induct) auto

lemma child_branches_iff:
  "bs \<in> set (child_branches nm ids) \<longleftrightarrow>
     (\<exists>i \<in> set ids. \<exists>n. nm i = Some n \<and> n_type n = DECISION \<and> bs \<in> snd ` set (branch_list n))"
proof -
  have "bs \<in> set (case nm i of None \<Rightarrow> []
            | Some n \<Rightarrow> if n_type n = DECISION then map snd (branch_list n) else []) \<longleftrightarrow>
      (\<exists>n. nm i = Some n \<and> n_type n = DECISION \<and> bs \<in> snd ` set (branch_list n))" for i
    by (cases "nm i") auto
  then show ?thesis by (simp add: child_branches_def)
qed

lemma branch_in_targets:
  "n_type n = DECISION \<Longrightarrow> bs \<in> snd ` set (branch_list n) \<Longrightarrow> set bs \<subseteq> set (control_targets n)"
  by (auto simp: control_targets_def branch_targets_def)

text \<open>In a dependency order, what follows an id by an edge stands after it.\<close>

lemma dep_ordered_after:
  assumes ord: "dep_ordered E (ys @ i # zs)" and d: "distinct (ys @ i # zs)"
    and e: "(i, c) \<in> E" and c: "c \<in> set (ys @ i # zs)"
  shows "c \<in> set zs"
proof (rule ccontr)
  assume "c \<notin> set zs"
  with c obtain us vs where split: "ys @ [i] = us @ c # vs"
    by (metis Un_iff append_Cons append_Nil append_assoc in_set_conv_decomp set_append)
  then have "ys @ i # zs = us @ c # vs @ zs" by (metis append_Cons append_Nil append_assoc)
  with ord e have "i \<in> set us" unfolding dep_ordered_def by blast
  moreover have "distinct (us @ c # vs)" using d split by (metis append_Cons append_Nil append_assoc distinct_append)
  moreover have "i = last (us @ c # vs)" using split by (metis last_snoc)
  ultimately show False by (cases vs rule: rev_cases) auto
qed

lemma nesting_depth_returns:
  assumes ord: "dep_ordered (set (plan_edges p)) xs" "distinct xs" "set xs = set (node_ids p)"
    and refs: "refs_exist p"
    and "xs = ys @ zs" and "set ids \<subseteq> set zs" and "length zs < fuel"
  shows "nesting_depth fuel (node_map p) ids k \<noteq> None"
  using assms(5-7)
proof (induction fuel arbitrary: ids k ys zs)
  case 0
  then show ?case by simp
next
  case (Suc fuel)
  have "nesting_depth fuel (node_map p) bs (Suc k) \<noteq> None"
    if bs: "bs \<in> set (child_branches (node_map p) ids)" for bs
  proof -
    from bs obtain i n where i: "i \<in> set ids" and n: "node_map p i = Some n" "n_type n = DECISION"
      and in_n: "bs \<in> snd ` set (branch_list n)" by (auto simp: child_branches_iff)
    from i Suc.prems(2) obtain as cs where zs: "zs = as @ i # cs" by (metis in_set_conv_decomp subsetD)
    have "c \<in> set cs" if "c \<in> set bs" for c
    proof -
      have node: "n \<in> set (p_nodes p)" "n_id n = i" using node_map_Some [OF n(1)] by auto
      have target: "c \<in> set (control_targets n)"
        using that branch_in_targets [OF n(2) in_n] by blast
      then have "(i, c) \<in> set (plan_edges p)" using node by (auto simp: set_plan_edges)
      moreover have "c \<in> set xs" using refs node(1) target ord(3) by (auto simp: refs_exist_def)
      ultimately show ?thesis
        using dep_ordered_after [of "set (plan_edges p)" "ys @ as" i cs c] ord(1,2) Suc.prems(1) zs by simp
    qed
    then show ?thesis
      using Suc.IH [of "ys @ as @ [i]" cs bs "Suc k"] Suc.prems(1,3) zs by auto
  qed
  then have "None \<notin> set (map (\<lambda>bs. nesting_depth fuel (node_map p) bs (Suc k))
      (child_branches (node_map p) ids))" by (metis (no_types, lifting) imageE set_map)
  then show ?case by (simp add: max_all_None)
qed

lemma nesting_returns_after_sort:
  assumes "topo_sort p = Inr ids" and "n \<in> set (p_nodes p)" and "n_type n = DECISION"
    and "bs \<in> snd ` set (branch_list n)"
  shows "nesting_depth (Suc (length (p_nodes p))) (node_map p) bs k \<noteq> None"
proof (rule nesting_depth_returns [where xs = ids and ys = "[]"])
  note sound = topo_sort_sound [OF assms(1)]
  show "set bs \<subseteq> set ids"
    using sound(1,4) assms(2) branch_in_targets [OF assms(3,4)] unfolding refs_exist_def by blast
  show "length ids < Suc (length (p_nodes p))"
    using sound by (metis distinct_card length_map less_Suc_eq node_ids_def)
qed (use topo_sort_sound [OF assms(1)] in auto)

lemma check_decision_nesting_returns:
  assumes "topo_sort p = Inr ids"
  shows "check_decision_nesting s p \<noteq> Inl DoesNotReturn"
proof
  assume "check_decision_nesting s p = Inl DoesNotReturn"
  then obtain n bs where n: "n \<in> set (p_nodes p)" "n_type n = DECISION" "bs \<in> snd ` set (branch_list n)"
    and "check_branch_depth s p n bs = Inl DoesNotReturn"
    unfolding check_decision_nesting_def
    by (auto dest!: check_all_Inl_mem split: if_splits)
  then show False
    using nesting_returns_after_sort [OF assms n, of 1]
    by (auto simp: check_branch_depth_def simp del: nesting_depth.simps split: option.splits)
qed

lemma simple_checks_return:
  "check_node_limit s b p \<noteq> Inl DoesNotReturn" "check_node_contracts p \<noteq> Inl DoesNotReturn"
  "check_tool_names h p \<noteq> Inl DoesNotReturn" "check_forced_tiers s p \<noteq> Inl DoesNotReturn"
proof -
  have "check_decision_contract n \<noteq> Inl DoesNotReturn" for n
    by (auto simp: check_decision_contract_def split: option.splits)
  then have "check_node_contract n \<noteq> Inl DoesNotReturn" for n
    by (auto simp: check_node_contract_def and_then_Inl_iff)
  then show "check_node_contracts p \<noteq> Inl DoesNotReturn"
    by (auto simp: check_node_contracts_def dest!: check_all_Inl_mem)
  show "check_forced_tiers s p \<noteq> Inl DoesNotReturn"
    by (auto simp: check_forced_tiers_def Let_def dest!: check_all_Inl_mem split: option.splits)
qed (auto simp: check_node_limit_def check_tool_names_def Let_def)

lemma check_subplans_returns: "check_subplans h s p \<noteq> Inl DoesNotReturn"
proof (induction h s p rule: check_subplans.induct)
  case (1 h s p)
  show ?case
    unfolding check_subplans.simps [of h s p]
    by (auto simp: Let_def and_then_Inl_iff simple_checks_return topo_sort_returns
        check_decision_nesting_returns "1.IH" split: if_splits option.splits dest!: map_all_InlD)
qed

lemma validate_returns: "validate h s p \<noteq> Inl DoesNotReturn"
  by (auto simp: validate_def and_then_Inl_iff simple_checks_return topo_sort_returns
      check_decision_nesting_returns check_subplans_returns)

section \<open>What an accepted plan satisfies\<close>

text \<open>
  The abstract contract, without evaluation order or recursion scheme: a well-formed node, a
  chain of nested decisions, and a plan whose every nesting level is well formed.
\<close>

definition node_ok :: "node \<Rightarrow> bool" where
  "node_ok n \<longleftrightarrow>
     (n_type n = TOOL \<longleftrightarrow> \<not> falsy_str (n_tool n)) \<and>
     (if n_type n = DECISION
      then \<not> falsy_str (n_condition n) \<and>
           (\<exists>bs d. n_branches n = Some bs \<and> fst ` set bs = {''yes'', ''no''} \<and>
                   n_default_branch n = Some d \<and> d \<in> {''yes'', ''no''})
      else n_condition n = None \<and> n_branches n = None \<and> falsy_str (n_default_branch n)) \<and>
     (n_type n = SUBPLAN \<longleftrightarrow> n_subplan n \<noteq> None)"

inductive nested_decisions :: "plan \<Rightarrow> node_id list \<Rightarrow> nat \<Rightarrow> bool" for p where
  nested_none: "nested_decisions p ids 0"
| nested_one: "i \<in> set ids \<Longrightarrow> node_map p i = Some n \<Longrightarrow> n_type n = DECISION \<Longrightarrow>
     bs \<in> snd ` set (branch_list n) \<Longrightarrow> nested_decisions p bs k \<Longrightarrow>
     nested_decisions p ids (Suc k)"

inductive_cases nested_SucE: "nested_decisions p ids (Suc k)"

definition level_ok :: "'w harness \<Rightarrow> settings \<Rightarrow> bool \<Rightarrow> plan \<Rightarrow> bool" where
  "level_ok h s is_subplan p \<longleftrightarrow>
     int (length (p_nodes p)) \<le> node_limit s is_subplan \<and>
     (\<forall>n \<in> set (p_nodes p). node_ok n) \<and>
     (\<forall>n \<in> set (p_nodes p). \<forall>t. n_type n = TOOL \<and> n_tool n = Some t \<longrightarrow> t \<in> set (all_names h)) \<and>
     (\<forall>n \<in> set (p_nodes p). \<forall>t. n_forced_tier n = Some t \<longrightarrow> 0 \<le> t \<and> t < int (length (tiers s))) \<and>
     refs_exist p \<and> distinct (node_ids p) \<and> acyclic (set (plan_edges p)) \<and>
     (\<forall>n \<in> set (p_nodes p). \<forall>bs k. n_type n = DECISION \<and> bs \<in> snd ` set (branch_list n) \<and>
        nested_decisions p bs k \<longrightarrow> int (Suc k) \<le> max_decision_nesting_depth s) \<and>
     int (length (filter (\<lambda>n. n_type n = SUBPLAN) (p_nodes p))) \<le> max_subplans_per_plan s"

inductive plan_ok :: "'w harness \<Rightarrow> settings \<Rightarrow> bool \<Rightarrow> plan \<Rightarrow> bool" for h s where
  plan_okI: "level_ok h s b p \<Longrightarrow>
     (\<And>n q. n \<in> set (p_nodes p) \<Longrightarrow> n_subplan n = Some q \<Longrightarrow> plan_ok h s True q) \<Longrightarrow>
     plan_ok h s b p"

inductive_cases plan_okE: "plan_ok h s b p"

subsection \<open>Each check decides its clause\<close>

lemma check_node_limit_Inr:
  "check_node_limit s b p = Inr u \<longleftrightarrow> int (length (p_nodes p)) \<le> node_limit s b"
  by (auto simp: check_node_limit_def)

lemma check_node_contract_Inr: "check_node_contract n = Inr u \<longleftrightarrow> node_ok n"
  by (auto simp: check_node_contract_def node_ok_def check_decision_contract_def
      split: if_splits option.splits)

lemma check_node_contracts_Inr:
  "check_node_contracts p = Inr u \<longleftrightarrow> (\<forall>n \<in> set (p_nodes p). node_ok n)"
  by (simp add: check_node_contracts_def check_node_contract_Inr)

lemma check_tool_names_Inr:
  "check_tool_names h p = Inr u \<longleftrightarrow>
     (\<forall>n \<in> set (p_nodes p). \<forall>t. n_type n = TOOL \<and> n_tool n = Some t \<longrightarrow> t \<in> set (all_names h))"
  by (force simp: check_tool_names_def Let_def unknown_names_Nil)

lemma check_forced_tiers_Inr:
  "check_forced_tiers s p = Inr u \<longleftrightarrow>
     (\<forall>n \<in> set (p_nodes p). \<forall>t. n_forced_tier n = Some t \<longrightarrow> 0 \<le> t \<and> t < int (length (tiers s)))"
  by (auto simp: check_forced_tiers_def Let_def split: option.splits)

lemma nesting_depth_longest:
  "nesting_depth fuel (node_map p) ids k = Some d \<Longrightarrow>
     (\<exists>c. nested_decisions p ids c \<and> d = k + c) \<and> (\<forall>c. nested_decisions p ids c \<longrightarrow> k + c \<le> d)"
proof (induction fuel arbitrary: ids k d)
  case 0
  then show ?case by simp
next
  case (Suc fuel)
  let ?ds = "map (\<lambda>bs. nesting_depth fuel (node_map p) bs (Suc k)) (child_branches (node_map p) ids)"
  have depth: "None \<notin> set ?ds \<and> d = fold max (map the ?ds) k"
    using Suc.prems unfolding nesting_depth.simps max_all_Some .
  note none = depth [THEN conjunct1] and d = depth [THEN conjunct2]
  have "fold max (map the ?ds) k = Max (insert k (set (map the ?ds)))"
    by (simp only: Max.set_eq_fold list.simps(15) [symmetric])
  with d have d_max: "d = Max (insert k (set (map the ?ds)))" by simp
  have child: "\<exists>e. nesting_depth fuel (node_map p) bs (Suc k) = Some e \<and> e \<in> set (map the ?ds)"
    if "bs \<in> set (child_branches (node_map p) ids)" for bs
    using that none by (force simp: image_iff)
  have le: "k + c \<le> d" if c: "nested_decisions p ids c" for c
  proof (cases c)
    case 0
    then show ?thesis using d_max by simp
  next
    case (Suc c')
    with c have "nested_decisions p ids (Suc c')" by simp
    then obtain i n bs where "i \<in> set ids" "node_map p i = Some n" "n_type n = DECISION"
      "bs \<in> snd ` set (branch_list n)" and nested: "nested_decisions p bs c'"
      by (rule nested_SucE)
    then have "bs \<in> set (child_branches (node_map p) ids)" by (auto simp: child_branches_iff)
    with child obtain e where e: "nesting_depth fuel (node_map p) bs (Suc k) = Some e"
      and "e \<in> set (map the ?ds)" by blast
    then have "e \<le> Max (insert k (set (map the ?ds)))" by (intro Max_ge finite.insertI finite_set insertI2)
    then have "e \<le> d" unfolding d_max .
    with Suc.IH [OF e] nested Suc show ?thesis by force
  qed
  have "d \<in> insert k (set (map the ?ds))" using d_max by (metis Max_in finite.insertI finite_set insert_not_empty)
  then consider "d = k" | bs where "bs \<in> set (child_branches (node_map p) ids)"
      "nesting_depth fuel (node_map p) bs (Suc k) = Some d"
    using none by (force simp: image_iff)
  then have "\<exists>c. nested_decisions p ids c \<and> d = k + c"
  proof cases
    case 1
    then show ?thesis by (intro exI [of _ 0]) (simp add: nested_none)
  next
    case 2
    with Suc.IH obtain c where "nested_decisions p bs c" "d = Suc k + c" by blast
    with 2(1) show ?thesis
      by (intro exI [of _ "Suc c"]) (auto simp: child_branches_iff intro: nested_one)
  qed
  with le show ?case by blast
qed

lemma check_branch_depth_Inr:
  assumes "topo_sort p = Inr ids" and "n \<in> set (p_nodes p)" "n_type n = DECISION"
    "bs \<in> snd ` set (branch_list n)"
  shows "check_branch_depth s p n bs = Inr u \<longleftrightarrow>
    (\<forall>k. nested_decisions p bs k \<longrightarrow> int (Suc k) \<le> max_decision_nesting_depth s)"
proof -
  obtain d where d: "nesting_depth (Suc (length (p_nodes p))) (node_map p) bs 1 = Some d"
    using nesting_returns_after_sort [OF assms, of 1] by blast
  have check: "check_branch_depth s p n bs =
      raise_if (int d > max_decision_nesting_depth s)
        (NestingTooDeep d (max_decision_nesting_depth s) (n_id n))"
    by (simp only: check_branch_depth_def d option.case)
  from nesting_depth_longest [OF d] obtain c where c: "nested_decisions p bs c" "d = Suc c"
    and le: "\<And>c. nested_decisions p bs c \<Longrightarrow> Suc c \<le> d" by auto
  have "int d \<le> lim \<longleftrightarrow> (\<forall>k. nested_decisions p bs k \<longrightarrow> int (Suc k) \<le> lim)" for lim
  proof
    assume "int d \<le> lim"
    then show "\<forall>k. nested_decisions p bs k \<longrightarrow> int (Suc k) \<le> lim"
      using le by (meson of_nat_le_iff order_trans)
  qed (use c in blast)
  then show ?thesis by (simp only: check raise_if_Inr_iff not_less)
qed

lemma check_decision_nesting_Inr:
  assumes "topo_sort p = Inr ids"
  shows "check_decision_nesting s p = Inr u \<longleftrightarrow>
    (\<forall>n \<in> set (p_nodes p). \<forall>bs k. n_type n = DECISION \<and> bs \<in> snd ` set (branch_list n) \<and>
        nested_decisions p bs k \<longrightarrow> int (Suc k) \<le> max_decision_nesting_depth s)"
proof -
  have "(if n_type n \<noteq> DECISION then Inr ()
         else check_all (check_branch_depth s p n) (map snd (branch_list n))) = Inr () \<longleftrightarrow>
      (\<forall>bs k. n_type n = DECISION \<and> bs \<in> snd ` set (branch_list n) \<and>
        nested_decisions p bs k \<longrightarrow> int (Suc k) \<le> max_decision_nesting_depth s)"
    if "n \<in> set (p_nodes p)" for n
  proof (cases "n_type n = DECISION")
    case True
    have "check_all (check_branch_depth s p n) (map snd (branch_list n)) = Inr () \<longleftrightarrow>
        (\<forall>bs \<in> snd ` set (branch_list n). check_branch_depth s p n bs = Inr ())"
      by simp
    also have "\<dots> \<longleftrightarrow> (\<forall>bs \<in> snd ` set (branch_list n). \<forall>k. nested_decisions p bs k \<longrightarrow>
        int (Suc k) \<le> max_decision_nesting_depth s)"
      by (intro ball_cong refl check_branch_depth_Inr [OF assms that True])
    finally show ?thesis by (simp only: True simp_thms if_False) blast
  qed simp
  then show ?thesis by (simp add: check_decision_nesting_def)
qed

text \<open>The checks of one nesting level, as \<open>validate\<close> and \<open>_check_subplans\<close> both run them.\<close>

definition check_level :: "'w harness \<Rightarrow> settings \<Rightarrow> bool \<Rightarrow> plan \<Rightarrow> plan_error + node_id list" where
  "check_level h s is_subplan p =
     and_then (check_node_limit s is_subplan p) (\<lambda>_.
     and_then (check_node_contracts p) (\<lambda>_.
     and_then (check_tool_names h p) (\<lambda>_.
     and_then (check_forced_tiers s p) (\<lambda>_.
     and_then (topo_sort p) (\<lambda>ids.
     and_then (check_decision_nesting s p) (\<lambda>_. Inr ids))))))"

lemma check_level_Inr:
  "check_level h s b p = Inr ids \<and>
     int (length (filter (\<lambda>n. n_type n = SUBPLAN) (p_nodes p))) \<le> max_subplans_per_plan s \<longleftrightarrow>
   topo_sort p = Inr ids \<and> level_ok h s b p"
proof (cases "topo_sort p")
  case (Inl e)
  then show ?thesis by (auto simp: check_level_def)
next
  case (Inr xs)
  then have "refs_exist p \<and> distinct (node_ids p) \<and> acyclic (set (plan_edges p))"
    using topo_sort_decides [of p] by blast
  then show ?thesis
    unfolding check_level_def level_ok_def
    by (simp add: check_node_limit_Inr check_node_contracts_Inr check_tool_names_Inr
        check_forced_tiers_Inr Inr check_decision_nesting_Inr [OF Inr]) blast
qed

lemma and_then_assoc [simp]:
  "and_then (and_then m f) g = and_then m (\<lambda>a. and_then (f a) g)"
  by (cases m) auto

lemma validate_level:
  "validate h s p =
     and_then (check_level h s False p) (\<lambda>ids.
       and_then (check_subplans h s p) (\<lambda>p'. Inr (set_sorted p' ids)))"
  by (simp add: validate_def check_level_def)

text \<open>What \<open>_check_subplans\<close> does with one node.\<close>

definition check_subplan_node :: "'w harness \<Rightarrow> settings \<Rightarrow> node \<Rightarrow> plan_error + node" where
  "check_subplan_node h s n =
     (if n_type n \<noteq> SUBPLAN then Inr n
      else case n_subplan n of
        None \<Rightarrow> Inl (SubplanMissing (n_id n))
      | Some q \<Rightarrow>
          and_then (check_level h s True q) (\<lambda>ids.
          and_then (check_subplans h s q) (\<lambda>q'. Inr (set_subplan n (set_sorted q' ids)))))"

lemma check_subplans_nodes:
  "check_subplans h s p =
     (if int (length (filter (\<lambda>n. n_type n = SUBPLAN) (p_nodes p))) > max_subplans_per_plan s
      then Inl (TooManySubplans (length (filter (\<lambda>n. n_type n = SUBPLAN) (p_nodes p)))
             (max_subplans_per_plan s))
      else and_then (map_all (check_subplan_node h s) (p_nodes p))
             (\<lambda>ns. Inr (Plan ns (p_sorted_node_ids p))))"
proof -
  have "(if n_type n \<noteq> SUBPLAN then Inr n
         else case n_subplan n of
           None \<Rightarrow> Inl (SubplanMissing (n_id n))
         | Some q \<Rightarrow>
             and_then (check_node_limit s True q) (\<lambda>_.
             and_then (check_node_contracts q) (\<lambda>_.
             and_then (check_tool_names h q) (\<lambda>_.
             and_then (check_forced_tiers s q) (\<lambda>_.
             and_then (topo_sort q) (\<lambda>ids.
             and_then (check_decision_nesting s q) (\<lambda>_.
             and_then (check_subplans h s q) (\<lambda>q'.
               Inr (set_subplan n (set_sorted q' ids)))))))))) = check_subplan_node h s n" for n
    by (cases "n_subplan n") (simp_all add: check_subplan_node_def check_level_def)
  then show ?thesis by (simp only: check_subplans.simps [of h s p] Let_def)
qed

subsection \<open>Validation decides the contract\<close>

text \<open>Every nesting level carries its own topological order.\<close>

inductive fully_sorted :: "plan \<Rightarrow> bool" where
  fully_sortedI: "topo_sort p = Inr (p_sorted_node_ids p) \<Longrightarrow>
     (\<And>n q. n \<in> set (p_nodes p) \<Longrightarrow> n_subplan n = Some q \<Longrightarrow> fully_sorted q) \<Longrightarrow>
     fully_sorted p"

inductive_cases fully_sortedE: "fully_sorted p"

lemma set_sorted_sel [simp]:
  "p_nodes (set_sorted p ids) = p_nodes p" "p_sorted_node_ids (set_sorted p ids) = ids"
  by (cases p; simp)+

lemma set_subplan_sel [simp]:
  "n_id (set_subplan n q) = n_id n" "n_type (set_subplan n q) = n_type n"
  "n_description (set_subplan n q) = n_description n" "n_tool (set_subplan n q) = n_tool n"
  "n_args_template (set_subplan n q) = n_args_template n"
  "n_context_needed (set_subplan n q) = n_context_needed n"
  "n_condition (set_subplan n q) = n_condition n" "n_branches (set_subplan n q) = n_branches n"
  "n_default_branch (set_subplan n q) = n_default_branch n"
  "n_reasoning_required (set_subplan n q) = n_reasoning_required n"
  "n_forced_tier (set_subplan n q) = n_forced_tier n"
  "n_subplan (set_subplan n q) = Some q" "n_format (set_subplan n q) = n_format n"
  by (cases n; simp)+

text \<open>Two nodes that differ at most in the plan nested in them; two plans of such nodes.\<close>

definition same_but_subplan :: "node \<Rightarrow> node \<Rightarrow> bool" where
  "same_but_subplan n m \<longleftrightarrow>
     m = n \<or> (\<exists>q. m = set_subplan n q)"

lemma same_but_subplan_edges: "same_but_subplan n m \<Longrightarrow> node_edges m = node_edges n \<and> n_id m = n_id n"
  by (auto simp: same_but_subplan_def node_edges_def control_targets_def branch_targets_def
      branch_list_def)

lemma check_refs_same: "same_but_subplan n m \<Longrightarrow> check_refs ids m = check_refs ids n"
  by (auto simp: same_but_subplan_def check_refs_def branch_list_def)

lemma topo_sort_same:
  assumes "list_all2 same_but_subplan (p_nodes p) (p_nodes p')"
  shows "topo_sort p' = topo_sort p"
proof -
  have pw: "map f (p_nodes p') = map f (p_nodes p)"
    if "\<And>n m. same_but_subplan n m \<Longrightarrow> f m = f n" for f :: "node \<Rightarrow> 'x"
    using assms that by (auto simp: list_all2_conv_all_nth intro!: nth_equalityI)
  have ids: "node_ids p' = node_ids p"
    unfolding node_ids_def using same_but_subplan_edges by (intro pw) blast
  have edges: "plan_edges p' = plan_edges p"
    unfolding plan_edges_def using same_but_subplan_edges pw [of node_edges] by simp
  have len: "length (p_nodes p') = length (p_nodes p)"
    using assms by (simp add: list_all2_lengthD)
  have all_map: "check_all f xs = check_all id (map f xs)" for f :: "node \<Rightarrow> plan_error + unit" and xs
    by (induction xs) auto
  have checks: "check_all (check_refs V) (p_nodes p') = check_all (check_refs V) (p_nodes p)" for V
    unfolding all_map [of "check_refs V"] using check_refs_same by (intro arg_cong [of _ _ "check_all id"] pw) blast
  show ?thesis
    unfolding topo_sort_def kahn_order_def initial_queue_def ids edges len checks ..
qed

lemma plan_ok_level: "plan_ok h s b p \<Longrightarrow> level_ok h s b p"
  by (erule plan_okE)

lemma level_ok_nodes: "level_ok h s b p \<Longrightarrow> n \<in> set (p_nodes p) \<Longrightarrow> node_ok n"
  by (simp add: level_ok_def)

lemma level_ok_check: "level_ok h s b p \<Longrightarrow> \<exists>ids. check_level h s b p = Inr ids"
proof -
  assume ok: "level_ok h s b p"
  then obtain ids where "topo_sort p = Inr ids"
    using topo_sort_decides [THEN iffD2, of p] unfolding level_ok_def by metis
  with ok show ?thesis using check_level_Inr [of h s b p ids] by blast
qed

lemma check_level_sound:
  assumes "check_level h s b p = Inr ids" and "check_subplans h s p = Inr p'"
  shows "topo_sort p = Inr ids" and "level_ok h s b p"
proof -
  have "\<not> max_subplans_per_plan s < int (length (filter (\<lambda>n. n_type n = SUBPLAN) (p_nodes p)))"
    using assms(2) unfolding check_subplans_nodes by (metis Inl_Inr_False)
  then show "topo_sort p = Inr ids" and "level_ok h s b p"
    using check_level_Inr [of h s b p ids] assms(1) not_less by blast+
qed

lemma node_ok_subplan: "node_ok n \<Longrightarrow> n_subplan n \<noteq> None \<longleftrightarrow> n_type n = SUBPLAN"
  by (auto simp: node_ok_def)

lemma check_subplans_sound:
  assumes "check_subplans h s p = Inr p'" and "\<forall>n \<in> set (p_nodes p). node_ok n"
  shows "(\<forall>n \<in> set (p_nodes p). \<forall>q. n_subplan n = Some q \<longrightarrow> plan_ok h s True q) \<and>
    list_all2 same_but_subplan (p_nodes p) (p_nodes p') \<and>
    (\<forall>m \<in> set (p_nodes p'). \<forall>q. n_subplan m = Some q \<longrightarrow> fully_sorted q)"
  using assms
proof (induction "size p" arbitrary: p p' rule: less_induct)
  case less
  from less.prems(1) obtain ns where ns: "map_all (check_subplan_node h s) (p_nodes p) = Inr ns"
    and p': "p_nodes p' = ns"
    by (auto simp: check_subplans_nodes split: if_splits)
  have node: "(\<forall>q. n_subplan n = Some q \<longrightarrow> plan_ok h s True q) \<and> same_but_subplan n m \<and>
      (\<forall>q. n_subplan m = Some q \<longrightarrow> fully_sorted q)"
    if n: "n \<in> set (p_nodes p)" and m: "check_subplan_node h s n = Inr m" for n m
  proof (cases "n_subplan n")
    case None
    with n m less.prems(2) node_ok_subplan [of n] show ?thesis
      by (auto simp: check_subplan_node_def same_but_subplan_def)
  next
    case (Some q)
    with n m less.prems(2) node_ok_subplan [of n] obtain ids q' where
      lev: "check_level h s True q = Inr ids" and sub: "check_subplans h s q = Inr q'"
      and m_eq: "m = set_subplan n (set_sorted q' ids)"
      by (auto simp: check_subplan_node_def)
    note ids = check_level_sound(1) [OF lev sub] and ok = check_level_sound(2) [OF lev sub]
    have nodes_ok: "\<forall>n \<in> set (p_nodes q). node_ok n" using level_ok_nodes [OF ok] by blast
    note IH = less.hyps [OF size_subplan [OF n Some] sub nodes_ok]
    have "plan_ok h s True q" using IH [THEN conjunct1] by (blast intro: plan_ok.intros [OF ok])
    moreover have "topo_sort (set_sorted q' ids) = topo_sort q"
      using IH by (intro topo_sort_same) simp
    then have "topo_sort (set_sorted q' ids) = Inr (p_sorted_node_ids (set_sorted q' ids))"
      using ids by simp
    then have "fully_sorted (set_sorted q' ids)"
      by (rule fully_sortedI) (use IH [THEN conjunct2, THEN conjunct2] in simp)
    ultimately show ?thesis using Some m_eq by (auto simp: same_but_subplan_def)
  qed
  have l2: "list_all2 (\<lambda>n m. check_subplan_node h s n = Inr m) (p_nodes p) ns"
    using ns by (simp add: map_all_Inr_iff)
  then have "list_all2 same_but_subplan (p_nodes p) ns"
    using node by (auto simp: list_all2_conv_all_nth)
  moreover have "\<exists>m. check_subplan_node h s n = Inr m" if "n \<in> set (p_nodes p)" for n
    using iffD1 [OF map_all_Inr_ex exI, OF ns] that by blast
  moreover have "\<exists>n \<in> set (p_nodes p). check_subplan_node h s n = Inr m" if "m \<in> set ns" for m
  proof -
    from that obtain i where "i < length ns" "ns ! i = m" by (auto simp: in_set_conv_nth)
    with l2 show ?thesis by (intro bexI [of _ "p_nodes p ! i"]) (auto simp: list_all2_conv_all_nth)
  qed
  ultimately show ?case unfolding p' using node by (intro conjI) blast+
qed

lemma check_subplans_complete:
  "plan_ok h s b p \<Longrightarrow> \<exists>p'. check_subplans h s p = Inr p'"
proof (induction rule: plan_ok.induct)
  case (plan_okI b p)
  have "\<exists>m. check_subplan_node h s n = Inr m" if n: "n \<in> set (p_nodes p)" for n
  proof (cases "n_subplan n")
    case None
    with n plan_okI(1) have "n_type n \<noteq> SUBPLAN"
      using node_ok_subplan [of n] by (auto simp: level_ok_def)
    then show ?thesis by (simp add: check_subplan_node_def)
  next
    case (Some q)
    with plan_okI(2) n have "level_ok h s True q" by (blast intro: plan_ok_level)
    then obtain ids where "check_level h s True q = Inr ids" using level_ok_check by blast
    then show ?thesis using plan_okI(3) [OF n Some] Some by (auto simp: check_subplan_node_def)
  qed
  then have "\<exists>ns. map_all (check_subplan_node h s) (p_nodes p) = Inr ns" by (simp add: map_all_Inr_ex)
  with plan_okI(1) show ?case by (auto simp: check_subplans_nodes level_ok_def)
qed

lemma validate_sound:
  assumes "validate h s p = Inr p'"
  shows "plan_ok h s False p" and "fully_sorted p'"
    and "list_all2 same_but_subplan (p_nodes p) (p_nodes p')"
proof -
  from assms obtain ids q where lev: "check_level h s False p = Inr ids"
    and sub: "check_subplans h s p = Inr q" and p': "p' = set_sorted q ids"
    by (auto simp: validate_level)
  note ids = check_level_sound(1) [OF lev sub] and ok = check_level_sound(2) [OF lev sub]
  have nodes_ok: "\<forall>n \<in> set (p_nodes p). node_ok n" using level_ok_nodes [OF ok] by blast
  note subs = check_subplans_sound [OF sub nodes_ok]
  show "plan_ok h s False p" using subs [THEN conjunct1] by (blast intro: plan_ok.intros [OF ok])
  show l2: "list_all2 same_but_subplan (p_nodes p) (p_nodes p')" using subs p' by simp
  have "topo_sort p' = Inr (p_sorted_node_ids p')" using topo_sort_same [OF l2] ids p' by simp
  then show "fully_sorted p'"
    by (rule fully_sortedI) (use subs [THEN conjunct2, THEN conjunct2] in \<open>simp add: p'\<close>)
qed

lemma validate_complete:
  assumes "plan_ok h s False p"
  shows "\<exists>p'. validate h s p = Inr p'"
proof -
  obtain ids where "check_level h s False p = Inr ids"
    using level_ok_check [OF plan_ok_level [OF assms]] by blast
  with check_subplans_complete [OF assms] show ?thesis by (auto simp: validate_level)
qed

section \<open>Property\<close>

text \<open>C2: \<open>validate\<close> is total and accepts exactly the plans of the abstract contract
  (\<open>plan_ok\<close>: node limit, node-type contracts, known tools, tiers in range, acyclic references,
  bounded decision nesting and subplan count, at every nesting level).  The plan it returns is the
  given one with the topological order of every nesting level filled in.\<close>

theorem validate_correct:
  "case validate h s p of
     Inr p' \<Rightarrow> plan_ok h s False p \<and> fully_sorted p' \<and>
       list_all2 same_but_subplan (p_nodes p) (p_nodes p')
   | Inl e \<Rightarrow> e \<noteq> DoesNotReturn \<and> \<not> plan_ok h s False p"
proof (cases "validate h s p")
  case (Inl e)
  then show ?thesis using validate_returns [of h s p] validate_complete [of h s p] by auto
next
  case (Inr p')
  then show ?thesis using validate_sound [OF Inr] by simp
qed

end
