(* ===== verification/Events.thy ===== *)
theory Events
  imports PlanCore "HOL-Library.Sublist"
begin

text \<open>
  The task events of \<open>events/types.py\<close> and the in-process bus of \<open>events/bus.py\<close>.  \<open>publish\<close> never
  suspends in the code, so it is a function on the bus; a \<open>Subscription\<close> is a queue with a bound
  that evicts its oldest event.  The interface its consumers rely on is the locale
  \<open>event_channel\<close>, interpreted on the subscription model.
\<close>

section \<open>Events\<close>

datatype event_body =
    PlanningStarted
  | PlanReady nat "plan option"
  | PlanFailed string "planning_attempt list" "string option"
  | PlanRejected string
  | AwaitingConfirmation nat
  | NodeStarted node_id node_type int "string option"
  | NodeFinished node_id node_status pyfloat bool "int option" "string option" "string option"
  | NodeOutputChunk node_id node_type string "string option"
  | ToolApprovalRequested string node_id string tool_risk "(string \<times> json) list" string
  | BranchDecided node_id "string option" pyfloat "string option"
  | TaskCompleted "string option"
  | TaskFailed string "planning_attempt list"
  | TaskCancelled

datatype event = Event (e_task: string) (e_body: event_body)

fun is_terminal_body :: "event_body \<Rightarrow> bool" where
  "is_terminal_body (TaskCompleted _) = True"
| "is_terminal_body (TaskFailed _ _) = True"
| "is_terminal_body (PlanFailed _ _ _) = True"
| "is_terminal_body (PlanRejected _) = True"
| "is_terminal_body (AwaitingConfirmation _) = True"
| "is_terminal_body TaskCancelled = True"
| "is_terminal_body _ = False"

text \<open>\<open>event.type in TERMINAL_EVENT_TYPES\<close>.\<close>

definition is_terminal :: "event \<Rightarrow> bool" where
  "is_terminal e = is_terminal_body (e_body e)"

text \<open>\<open>_TaskScopedPublisher\<close>: nested events carry the parent's task id.\<close>

definition rescope :: "string \<Rightarrow> event \<Rightarrow> event" where
  "rescope tid e = Event tid (e_body e)"

section \<open>Subscriptions\<close>

record subscription =
  sub_task :: "string option"
  sub_queue :: "event list"
  sub_max :: nat
  sub_dropped :: nat

text \<open>\<open>asyncio.Queue(maxsize=n)\<close>: zero means unbounded.\<close>

definition queue_full :: "subscription \<Rightarrow> bool" where
  "queue_full s \<longleftrightarrow> 0 < sub_max s \<and> sub_max s \<le> length (sub_queue s)"

definition wants :: "subscription \<Rightarrow> event \<Rightarrow> bool" where
  "wants s e \<longleftrightarrow> (case sub_task s of None \<Rightarrow> True | Some t \<Rightarrow> e_task e = t)"

definition deliver :: "event \<Rightarrow> subscription \<Rightarrow> subscription" where
  "deliver e s =
     (if \<not> wants s e then s
      else if queue_full s
      then s\<lparr>sub_queue := List.tl (sub_queue s) @ [e], sub_dropped := Suc (sub_dropped s)\<rparr>
      else s\<lparr>sub_queue := sub_queue s @ [e]\<rparr>)"

text \<open>\<open>__anext__\<close>: \<open>None\<close> is a consumer that waits.\<close>

definition next_event :: "subscription \<Rightarrow> (event \<times> subscription) option" where
  "next_event s =
     (case sub_queue s of [] \<Rightarrow> None | e # es \<Rightarrow> Some (e, s\<lparr>sub_queue := es\<rparr>))"

section \<open>The bus\<close>

text \<open>The registry is a set of live subscriptions; each has an identity.\<close>

record event_bus =
  bus_registry :: "(nat \<times> subscription) list"
  bus_max_queue :: nat

definition publish :: "event \<Rightarrow> event_bus \<Rightarrow> event_bus" where
  "publish e b = b\<lparr>bus_registry := map (\<lambda>(i, s). (i, deliver e s)) (bus_registry b)\<rparr>"

definition subscribe :: "string option \<Rightarrow> event_bus \<Rightarrow> subscription" where
  "subscribe tid b =
     \<lparr>sub_task = tid, sub_queue = [], sub_max = bus_max_queue b, sub_dropped = 0\<rparr>"

definition enter_subscription :: "nat \<Rightarrow> subscription \<Rightarrow> event_bus \<Rightarrow> event_bus" where
  "enter_subscription i s b = b\<lparr>bus_registry := AList.update i s (bus_registry b)\<rparr>"

definition exit_subscription :: "nat \<Rightarrow> event_bus \<Rightarrow> event_bus" where
  "exit_subscription i b = b\<lparr>bus_registry := filter (\<lambda>(j, _). j \<noteq> i) (bus_registry b)\<rparr>"

definition subscriber_count :: "event_bus \<Rightarrow> nat" where
  "subscriber_count b = length (bus_registry b)"

lemma publish_lookup:
  "map_of (bus_registry (publish e b)) i = map_option (deliver e) (map_of (bus_registry b) i)"
  by (simp add: publish_def map_of_map)

lemma publish_all_lookup:
  "map_of (bus_registry (fold publish es b)) i =
     map_option (fold deliver es) (map_of (bus_registry b) i)"
  by (induction es arbitrary: b)
    (simp_all add: publish_lookup option.map_comp comp_def option.map_ident option.map_id)

section \<open>The channel contract\<close>

text \<open>
  What a consumer of events may rely on: an accepted event is appended; when the channel is full
  exactly the oldest unread event is lost; reading takes the oldest.
\<close>

locale event_channel =
  fixes accepts :: "'q \<Rightarrow> 'e \<Rightarrow> bool"
    and push :: "'e \<Rightarrow> 'q \<Rightarrow> 'q"
    and pull :: "'q \<Rightarrow> ('e \<times> 'q) option"
    and unread :: "'q \<Rightarrow> 'e list"
    and lost :: "'q \<Rightarrow> nat"
    and bound :: "'q \<Rightarrow> nat"
  assumes push_skip: "\<not> accepts q e \<Longrightarrow> push e q = q"
    and push_room: "accepts q e \<Longrightarrow> bound q = 0 \<or> length (unread q) < bound q \<Longrightarrow>
      unread (push e q) = unread q @ [e] \<and> lost (push e q) = lost q"
    and push_full: "accepts q e \<Longrightarrow> 0 < bound q \<Longrightarrow> bound q \<le> length (unread q) \<Longrightarrow>
      unread (push e q) = drop 1 (unread q) @ [e] \<and> lost (push e q) = Suc (lost q)"
    and push_keeps: "accepts (push e q) = accepts q \<and> bound (push e q) = bound q"
    and pull_empty: "pull q = None \<longleftrightarrow> unread q = []"
    and pull_first: "pull q = Some (e, q') \<Longrightarrow>
      unread q = e # unread q' \<and> lost q' = lost q \<and> accepts q' = accepts q \<and> bound q' = bound q"
begin

lemma push_all_keeps: "accepts (fold push es q) = accepts q \<and> bound (fold push es q) = bound q"
  by (induction es arbitrary: q) (simp_all add: push_keeps)

lemma unbounded_keeps_all:
  "bound q = 0 \<Longrightarrow> unread (fold push es q) = unread q @ filter (accepts q) es \<and>
     lost (fold push es q) = lost q"
proof (induction es arbitrary: q)
  case Nil
  then show ?case by simp
next
  case (Cons e es)
  then show ?case
    using push_skip [of q e] push_room [of q e] push_keeps [of e q] by (cases "accepts q e") auto
qed

text \<open>A bounded channel holds the latest accepted events, and counts the ones it lost.\<close>

lemma bounded_keeps_latest:
  assumes "0 < bound q" and "length (unread q) \<le> bound q"
  shows "unread (fold push es q) =
      drop (length (unread q) + length (filter (accepts q) es) - bound q)
        (unread q @ filter (accepts q) es) \<and>
    lost (fold push es q) =
      lost q + (length (unread q) + length (filter (accepts q) es) - bound q)"
  using assms
proof (induction es arbitrary: q)
  case Nil
  then show ?case by simp
next
  case (Cons e es)
  note keeps = push_keeps [of e q]
  show ?case
  proof (cases "accepts q e")
    case False
    with Cons push_skip [OF False] show ?thesis by simp
  next
    case True
    show ?thesis
    proof (cases "length (unread q) < bound q")
      case room: True
      with push_room [OF True] Cons.IH [of "push e q"] Cons.prems True keeps show ?thesis by simp
    next
      case False
      with push_full [OF True] Cons.prems have u:
        "unread (push e q) = drop 1 (unread q) @ [e] \<and> lost (push e q) = Suc (lost q)" by simp
      from False Cons.prems obtain a l where l: "unread q = a # l" and b: "bound q = Suc (length l)"
        by (cases "unread q") auto
      with Cons.IH [of "push e q"] u True keeps show ?thesis by (simp add: b)
    qed
  qed
qed

text \<open>
  Nothing is reordered or invented: what a reader gets, in any interleaving with pushes, followed
  by what is still unread, is a subsequence of the accepted events.
\<close>

inductive session :: "'q \<Rightarrow> 'e list \<Rightarrow> 'e list \<Rightarrow> 'q \<Rightarrow> bool" for q where
  session_start: "session q [] [] q"
| session_push: "session q sent got q' \<Longrightarrow> session q (sent @ [e]) got (push e q')"
| session_pull: "session q sent got q' \<Longrightarrow> pull q' = Some (e, q'') \<Longrightarrow>
    session q sent (got @ [e]) q''"

lemma session_keeps: "session q sent got q' \<Longrightarrow> accepts q' = accepts q \<and> bound q' = bound q"
  by (induction rule: session.induct) (auto simp: push_keeps dest: pull_first)

lemma session_in_order:
  "session q sent got q' \<Longrightarrow>
     subseq (got @ unread q') (unread q @ filter (accepts q) sent)"
proof (induction rule: session.induct)
  case session_start
  then show ?case by simp
next
  case (session_push sent got q' e)
  have "accepts q' = accepts q" using session_keeps [OF session_push.hyps] by simp
  show ?case
  proof (cases "accepts q e")
    case False
    with session_push \<open>accepts q' = accepts q\<close> push_skip [of q' e] show ?thesis by simp
  next
    case True
    have "subseq (got @ unread (push e q')) (got @ unread q' @ [e])"
    proof (cases "bound q' = 0 \<or> length (unread q') < bound q'")
      case room: True
      then show ?thesis using push_room [of q' e] True \<open>accepts q' = accepts q\<close> by simp
    next
      case full: False
      have "subseq (drop 1 (unread q')) (unread q')" by (metis append_take_drop_id list_emb_append2 subseq_order.order_refl)
      then have "subseq (drop 1 (unread q') @ [e]) (unread q' @ [e])" by (simp add: list_emb_append_mono)
      then show ?thesis
        using full push_full [of q' e] True \<open>accepts q' = accepts q\<close> by (simp add: list_emb_append_mono)
    qed
    also have "subseq (got @ unread q' @ [e]) (unread q @ filter (accepts q) sent @ [e])"
      using list_emb_append_mono [OF session_push.IH, of "[e]" "[e]"] by simp
    finally show ?thesis using True by simp
  qed
next
  case (session_pull sent got q' e q'')
  then show ?case using pull_first [of q' e q''] by simp
qed

lemma session_accounts:
  "session q sent got q' \<Longrightarrow>
     length got + length (unread q') + lost q' =
       length (unread q) + length (filter (accepts q) sent) + lost q"
proof (induction rule: session.induct)
  case session_start
  then show ?case by simp
next
  case (session_push sent got q' e)
  have acc: "accepts q' = accepts q" using session_keeps [OF session_push.hyps] by simp
  show ?case
  proof (cases "accepts q e")
    case False
    with session_push acc push_skip [of q' e] show ?thesis by simp
  next
    case True
    show ?thesis
    proof (cases "bound q' = 0 \<or> length (unread q') < bound q'")
      case room: True
      with session_push True acc push_room [of q' e] show ?thesis by auto
    next
      case full: False
      with session_push True acc push_full [of q' e] show ?thesis by (cases "unread q'") auto
    qed
  qed
next
  case (session_pull sent got q' e q'')
  then show ?case using pull_first [of q' e q''] by simp
qed

end

interpretation sub: event_channel wants deliver next_event sub_queue sub_dropped sub_max
proof
  fix q e e' q'
  show "\<not> wants q e \<Longrightarrow> deliver e q = q" by (simp add: deliver_def)
  show "wants q e \<Longrightarrow> sub_max q = 0 \<or> length (sub_queue q) < sub_max q \<Longrightarrow>
      sub_queue (deliver e q) = sub_queue q @ [e] \<and> sub_dropped (deliver e q) = sub_dropped q"
    by (auto simp: deliver_def queue_full_def)
  show "wants q e \<Longrightarrow> 0 < sub_max q \<Longrightarrow> sub_max q \<le> length (sub_queue q) \<Longrightarrow>
      sub_queue (deliver e q) = drop 1 (sub_queue q) @ [e] \<and>
      sub_dropped (deliver e q) = Suc (sub_dropped q)"
    by (auto simp: deliver_def queue_full_def drop_Suc)
  show "wants (deliver e q) = wants q \<and> sub_max (deliver e q) = sub_max q"
    by (auto simp: deliver_def wants_def fun_eq_iff)
  show "next_event q = None \<longleftrightarrow> sub_queue q = []"
    by (auto simp: next_event_def split: list.splits)
  show "next_event q = Some (e', q') \<Longrightarrow>
      sub_queue q = e' # sub_queue q' \<and> sub_dropped q' = sub_dropped q \<and> wants q' = wants q \<and>
      sub_max q' = sub_max q"
    by (auto simp: next_event_def wants_def fun_eq_iff split: list.splits)
qed

section \<open>Properties\<close>

lemma wants_iff: "wants s e \<longleftrightarrow> sub_task s = None \<or> sub_task s = Some (e_task e)"
  by (auto simp: wants_def split: option.splits)

text \<open>C11: A subscriber registered on the bus that does not read while events are published holds
  exactly the latest \<open>max_queue\<close> events of its task, in publication order, and has counted every
  event it lost; other subscribers do not influence it.\<close>

theorem bus_keeps_latest:
  assumes "map_of (bus_registry b) i = Some s" and "s = subscribe (Some t) b"
    and "0 < bus_max_queue b"
  shows "\<exists>s'. map_of (bus_registry (fold publish es b)) i = Some s' \<and>
    sub_queue s' =
      drop (length (filter (\<lambda>e. e_task e = t) es) - bus_max_queue b) (filter (\<lambda>e. e_task e = t) es) \<and>
    sub_dropped s' = length (filter (\<lambda>e. e_task e = t) es) - bus_max_queue b"
proof -
  have w: "wants s = (\<lambda>e. e_task e = t)"
    using assms(2) by (auto simp: wants_iff subscribe_def fun_eq_iff)
  have "map_of (bus_registry (fold publish es b)) i = Some (fold deliver es s)"
    by (simp add: publish_all_lookup assms(1))
  moreover have "0 < sub_max s" "sub_queue s = []" "sub_dropped s = 0" "sub_max s = bus_max_queue b"
    using assms by (simp_all add: subscribe_def)
  ultimately show ?thesis using sub.bounded_keeps_latest [of s es] w by simp
qed

lemma bus_keeps_latest_witness:
  "\<exists>s'. map_of (bus_registry
       (fold publish [Event ''a'' PlanningStarted, Event ''b'' TaskCancelled,
                      Event ''a'' TaskCancelled, Event ''a'' (TaskCompleted None)]
         \<lparr>bus_registry = [(0, \<lparr>sub_task = Some ''a'', sub_queue = [], sub_max = 2, sub_dropped = 0\<rparr>)],
          bus_max_queue = 2\<rparr>)) 0 = Some s' \<and>
     sub_queue s' = [Event ''a'' TaskCancelled, Event ''a'' (TaskCompleted None)] \<and>
     sub_dropped s' = 1"
  using bus_keeps_latest [of
      "\<lparr>bus_registry = [(0, \<lparr>sub_task = Some ''a'', sub_queue = [], sub_max = 2, sub_dropped = 0\<rparr>)],
        bus_max_queue = 2\<rparr>" 0
      "\<lparr>sub_task = Some ''a'', sub_queue = [], sub_max = 2, sub_dropped = 0\<rparr>" "''a''"
      "[Event ''a'' PlanningStarted, Event ''b'' TaskCancelled,
        Event ''a'' TaskCancelled, Event ''a'' (TaskCompleted None)]"]
  by (simp add: subscribe_def)

end
