(* ===== verification/Scheduler.thy ===== *)
theory Scheduler
  imports PlanValidator Events
begin

text \<open>
  \<open>Executor._run\<close> of \<open>executor/executor.py\<close> as a step relation.  The scheduling loop is one
  coroutine that only suspends in \<open>asyncio.wait\<close>: between suspensions it is the function
  \<open>turn\<close>.  Node tasks run while it waits: a task starts, ends with a result (recorded, with the
  branches it excludes, without any suspension) or ends with an exception; when the loop wakes it
  reaps the ended tasks.  What a node computes is the parameter \<open>outcome\<close>: from the state at its
  start and the node to the events it published and its result or exception.
\<close>

section \<open>Static questions about a plan\<close>

definition route_value :: "routing_config \<Rightarrow> node_type \<Rightarrow> int" where
  "route_value r t =
     (case t of
        DECISION \<Rightarrow> rt_decision r | TOOL \<Rightarrow> rt_tool r | SYNTHESIS \<Rightarrow> rt_synthesis r
      | THINK \<Rightarrow> rt_think r | SUMMARY \<Rightarrow> rt_summary r | RESULT \<Rightarrow> rt_result r | SUBPLAN \<Rightarrow> 0)"

definition select_tier :: "settings \<Rightarrow> node \<Rightarrow> int" where
  "select_tier s n =
     (case n_forced_tier n of
        Some t \<Rightarrow> t
      | None \<Rightarrow>
          (let base = route_value (routing s) (n_type n)
           in if n_reasoning_required n then max base (rt_reasoning_required (routing s)) else base))"

definition node_path :: "string \<Rightarrow> node_id \<Rightarrow> string option" where
  "node_path pfx i = (if pfx = [] then None else Some (pfx @ ''/'' @ str_int i))"

definition child_path :: "string \<Rightarrow> node_id \<Rightarrow> string" where
  "child_path pfx i = (if pfx = [] then str_int i else pfx @ ''/'' @ str_int i)"

text \<open>
  \<open>_dependency_map\<close>: the declared context of the last node with the id, and every decision that
  lists the id in a branch; \<open>None\<close> for an id without a node.
\<close>

definition dependency_map :: "plan \<Rightarrow> node_id \<Rightarrow> node_id list option" where
  "dependency_map p i =
     (case node_map p i of
        None \<Rightarrow> None
      | Some n \<Rightarrow>
          Some (n_context_needed n @ map n_id (filter (\<lambda>d. i \<in> set (control_targets d)) (p_nodes p))))"

definition content_dependencies :: "plan \<Rightarrow> node \<Rightarrow> node_id list" where
  "content_dependencies p n =
     filter (\<lambda>d. n_type (case node_map p d of None \<Rightarrow> n | Some m \<Rightarrow> m) \<noteq> DECISION)
       (n_context_needed n)"

definition only_uses_skipped :: "bool \<Rightarrow> plan \<Rightarrow> node \<Rightarrow> (node_id \<times> node_result) list \<Rightarrow> bool" where
  "only_uses_skipped missing_counts p n results =
     (content_dependencies p n \<noteq> [] \<and>
      (\<forall>d \<in> set (content_dependencies p n).
         case map_of results d of
           None \<Rightarrow> missing_counts
         | Some r \<Rightarrow> r_status r = SKIPPED))"

text \<open>\<open>_final_output_result\<close>: the last completed result node, else synthesis, else summary.\<close>

definition final_candidate ::
  "plan \<Rightarrow> (node_id \<times> node_result) list \<Rightarrow> node_type \<Rightarrow> node_id \<Rightarrow> node_result option"
where
  "final_candidate p results target i =
     (case find (\<lambda>n. n_id n = i) (p_nodes p) of
        None \<Rightarrow> None
      | Some n \<Rightarrow>
          if n_type n \<noteq> target \<or> only_uses_skipped True p n results then None
          else (case map_of results i of
                  Some r \<Rightarrow> if r_status r = COMPLETED then Some r else None
                | None \<Rightarrow> None))"

fun first_some :: "'a option list \<Rightarrow> 'a option" where
  "first_some [] = None"
| "first_some (Some x # xs) = Some x"
| "first_some (None # xs) = first_some xs"

definition final_output_result :: "plan \<Rightarrow> (node_id \<times> node_result) list \<Rightarrow> node_result option" where
  "final_output_result p results =
     first_some (concat (map (\<lambda>t. map (final_candidate p results t) (rev (p_sorted_node_ids p)))
       [RESULT, SYNTHESIS, SUMMARY]))"

section \<open>The run's context and state\<close>

text \<open>
  \<open>rc_str\<close> is Python's \<open>str\<close> on a node output; \<open>rc_emit\<close> says whether there is a bus, and
  \<open>rc_scope\<close> the task id that a \<open>_TaskScopedPublisher\<close> puts on the run's events, if it is one.
\<close>

record run_ctx =
  rc_plan :: plan
  rc_settings :: settings
  rc_emit :: bool
  rc_scope :: "string option"
  rc_prefix :: string
  rc_emit_completed :: bool
  rc_str :: "json \<Rightarrow> string"

datatype flight = Queued | Running exec_state | Ended "string option"

record sched =
  v_pending :: "node_id list"
  v_flight :: "(node_id \<times> flight) list"
  v_state :: exec_state
  v_events :: "event list"

datatype run_error =
    NoPlan
  | NoReadyNodes "(node_id \<times> node_id list) list"
  | NodeMissing node_id
  | NodeRaised node_id string

datatype run_state = Waiting sched | Returned sched | Raised run_error sched

definition event_task :: "run_ctx \<Rightarrow> exec_state \<Rightarrow> string" where
  "event_task c st = (case rc_scope c of None \<Rightarrow> s_task_id st | Some t \<Rightarrow> t)"

definition emit :: "run_ctx \<Rightarrow> event_body \<Rightarrow> sched \<Rightarrow> sched" where
  "emit c e v =
     (if rc_emit c then v\<lparr>v_events := v_events v @ [Event (event_task c (v_state v)) e]\<rparr> else v)"

definition finished_event :: "run_ctx \<Rightarrow> node_result \<Rightarrow> event_body" where
  "finished_event c r =
     NodeFinished (r_node_id r) (r_status r) (r_confidence r) (r_flagged r) (r_tier_used r)
       (r_error r) (node_path (rc_prefix c) (r_node_id r))"

definition record_skipped :: "run_ctx \<Rightarrow> node_id \<Rightarrow> sched \<Rightarrow> sched" where
  "record_skipped c i v =
     (let r = mk_result i SKIPPED; st = v_state v;
          st' = st\<lparr>s_results := AList.update i r (s_results st),
                   s_skipped_nodes := (if i \<in> set (s_skipped_nodes st) then s_skipped_nodes st
                                       else s_skipped_nodes st @ [i])\<rparr>
      in emit c (finished_event c r) (v\<lparr>v_state := st'\<rparr>))"

section \<open>Recording a node's result\<close>

text \<open>\<open>value < x\<close> on a float: false for NaN.\<close>

fun float_less :: "pyfloat \<Rightarrow> rat \<Rightarrow> bool" where
  "float_less NaN x = False"
| "float_less PosInf x = False"
| "float_less NegInf x = True"
| "float_less (Fin y) x = (y < x)"

definition finalize_result :: "settings \<Rightarrow> node \<Rightarrow> node_result \<Rightarrow> node_result" where
  "finalize_result s n r =
     (let r1 = (if r_tier_used r = None then r\<lparr>r_tier_used := Some (select_tier s n)\<rparr> else r)
      in if r_status r1 = COMPLETED \<and> float_less (r_confidence r1) (confidence_threshold s)
         then r1\<lparr>r_flagged := True\<rparr> else r1)"

definition excluded_by :: "node \<Rightarrow> string option \<Rightarrow> node_id list" where
  "excluded_by n taken =
     (case taken of
        None \<Rightarrow> []
      | Some t \<Rightarrow>
          if t = [] then []
          else sort (remdups (concat (map snd (filter (\<lambda>(b, _). b \<noteq> t) (branch_list n))))))"

definition branch_log_of :: "node \<Rightarrow> node_result \<Rightarrow> branch_log_entry" where
  "branch_log_of n r =
     \<lparr>b_node_id = n_id n, b_condition = n_condition n, b_branch_taken = r_branch_taken r,
      b_confidence = r_confidence r\<rparr>"

fun skip_each :: "run_ctx \<Rightarrow> node_id list \<Rightarrow> sched \<Rightarrow> sched" where
  "skip_each c [] v = v"
| "skip_each c (i # is) v =
     skip_each c is
       (if i \<in> set (node_ids (rc_plan c)) \<and> i \<notin> has_result (v_state v)
        then record_skipped c i v else v)"

definition record_decision :: "run_ctx \<Rightarrow> node \<Rightarrow> node_result \<Rightarrow> sched \<Rightarrow> sched" where
  "record_decision c n r v =
     (if n_type n = DECISION
      then emit c (BranchDecided (n_id n) (r_branch_taken r) (r_confidence r)
                     (node_path (rc_prefix c) (n_id n)))
             (v\<lparr>v_state := (v_state v)\<lparr>s_branch_log := s_branch_log (v_state v) @ [branch_log_of n r]\<rparr>\<rparr>)
      else v)"

text \<open>
  The part of \<open>_execute_and_record_node\<close> after \<open>_dispatch_node\<close> has returned \<open>r0\<close>.
\<close>

definition record_node :: "run_ctx \<Rightarrow> node \<Rightarrow> node_result \<Rightarrow> sched \<Rightarrow> sched" where
  "record_node c n r0 v =
     (let r = finalize_result (rc_settings c) n r0;
          st = v_state v;
          v1 = v\<lparr>v_state := st\<lparr>s_results := AList.update (n_id n) r (s_results st),
                               s_completed_nodes := s_completed_nodes st @ [n_id n]\<rparr>\<rparr>
      in skip_each c (if n_type n = DECISION then excluded_by n (r_branch_taken r) else [])
           (emit c (finished_event c r) (record_decision c n r v1)))"

section \<open>The scheduling loop\<close>

definition max_concurrent :: "run_ctx \<Rightarrow> nat" where
  "max_concurrent c = nat (max 1 (max_concurrent_nodes (rc_settings c)))"

definition drop_pending :: "node_id \<Rightarrow> sched \<Rightarrow> sched" where
  "drop_pending i v = v\<lparr>v_pending := filter (\<lambda>j. j \<noteq> i) (v_pending v)\<rparr>"

definition launch :: "node_id \<Rightarrow> sched \<Rightarrow> sched" where
  "launch i v = (drop_pending i v)\<lparr>v_flight := v_flight v @ [(i, Queued)]\<rparr>"

text \<open>The \<open>for node_id in plan.sorted_node_ids\<close> pass; the flag is \<open>dispatched\<close>.\<close>

fun dispatch_pass :: "run_ctx \<Rightarrow> node_id list \<Rightarrow> sched \<Rightarrow> bool \<Rightarrow> run_error + sched \<times> bool" where
  "dispatch_pass c [] v dispatched = Inr (v, dispatched)"
| "dispatch_pass c (i # is) v dispatched =
     (if i \<notin> set (v_pending v) then dispatch_pass c is v dispatched
      else case (node_map (rc_plan c) i, dependency_map (rc_plan c) i) of
        (Some n, Some ds) \<Rightarrow>
          if i \<in> has_result (v_state v) then dispatch_pass c is (drop_pending i v) dispatched
          else if \<not> set ds \<subseteq> has_result (v_state v) then dispatch_pass c is v dispatched
          else if only_uses_skipped False (rc_plan c) n (s_results (v_state v))
          then dispatch_pass c is (record_skipped c i (drop_pending i v)) True
          else if max_concurrent c \<le> length (v_flight v) then Inr (v, dispatched)
          else dispatch_pass c is (launch i v) True
      | _ \<Rightarrow> Inl (NodeMissing i))"

text \<open>What follows the loop.\<close>

definition finish_run :: "run_ctx \<Rightarrow> sched \<Rightarrow> sched" where
  "finish_run c v =
     (let st = v_state v;
          out = map_option (\<lambda>r. rc_str c (r_output r)) (final_output_result (rc_plan c) (s_results st));
          v' = v\<lparr>v_state := st\<lparr>s_final_output := out, s_status := TASK_COMPLETED\<rparr>\<rparr>
      in if rc_emit_completed c then emit c (TaskCompleted out) v' else v')"

definition blocked :: "run_ctx \<Rightarrow> sched \<Rightarrow> (node_id \<times> node_id list) list" where
  "blocked c v =
     map (\<lambda>i. (i, sort (filter (\<lambda>d. d \<notin> has_result (v_state v))
                    (remdups (case dependency_map (rc_plan c) i of None \<Rightarrow> [] | Some ds \<Rightarrow> ds)))))
       (sort (v_pending v))"

lemma drop_pending_sel [simp]:
  "v_pending (drop_pending i v) = filter (\<lambda>j. j \<noteq> i) (v_pending v)"
  "v_flight (drop_pending i v) = v_flight v" "v_state (drop_pending i v) = v_state v"
  "v_events (drop_pending i v) = v_events v"
  by (simp_all add: drop_pending_def)

lemma emit_sel [simp]:
  "v_pending (emit c e v) = v_pending v" "v_flight (emit c e v) = v_flight v"
  "v_state (emit c e v) = v_state v"
  by (simp_all add: emit_def)

lemma record_skipped_sel [simp]:
  "v_pending (record_skipped c i v) = v_pending v" "v_flight (record_skipped c i v) = v_flight v"
  by (simp_all add: record_skipped_def Let_def)

lemma launch_sel [simp]:
  "v_pending (launch i v) = filter (\<lambda>j. j \<noteq> i) (v_pending v)"
  "v_flight (launch i v) = v_flight v @ [(i, Queued)]" "v_state (launch i v) = v_state v"
  "v_events (launch i v) = v_events v"
  by (simp_all add: launch_def)

text \<open>The proof rule of a pass: what its three ways of handling a pending node preserve.\<close>

lemma pass_rule [consumes 2, case_names drop skip launch]:
  assumes "dispatch_pass c is v d = Inr (v', d')" and "P v d"
    and "\<And>i v d. P v d \<Longrightarrow> i \<in> set (v_pending v) \<Longrightarrow> i \<in> has_result (v_state v) \<Longrightarrow>
      P (drop_pending i v) d"
    and "\<And>i n ds v d. P v d \<Longrightarrow> i \<in> set (v_pending v) \<Longrightarrow> node_map (rc_plan c) i = Some n \<Longrightarrow>
      dependency_map (rc_plan c) i = Some ds \<Longrightarrow> i \<notin> has_result (v_state v) \<Longrightarrow>
      set ds \<subseteq> has_result (v_state v) \<Longrightarrow>
      only_uses_skipped False (rc_plan c) n (s_results (v_state v)) \<Longrightarrow>
      P (record_skipped c i (drop_pending i v)) True"
    and "\<And>i n ds v d. P v d \<Longrightarrow> i \<in> set (v_pending v) \<Longrightarrow> node_map (rc_plan c) i = Some n \<Longrightarrow>
      dependency_map (rc_plan c) i = Some ds \<Longrightarrow> i \<notin> has_result (v_state v) \<Longrightarrow>
      set ds \<subseteq> has_result (v_state v) \<Longrightarrow>
      \<not> only_uses_skipped False (rc_plan c) n (s_results (v_state v)) \<Longrightarrow>
      length (v_flight v) < max_concurrent c \<Longrightarrow> P (launch i v) True"
  shows "P v' d'"
  using assms(1,2)
proof (induction "is" arbitrary: v d)
  case Nil
  then show ?case by simp
next
  case (Cons i "is")
  show ?case
  proof (cases "i \<in> set (v_pending v)")
    case False
    with Cons show ?thesis by simp
  next
    case True
    obtain n ds where nd: "node_map (rc_plan c) i = Some n" "dependency_map (rc_plan c) i = Some ds"
      using Cons.prems(1) True
      by (cases "node_map (rc_plan c) i"; cases "dependency_map (rc_plan c) i") simp_all
    let ?st = "v_state v"
    consider (res) "i \<in> has_result ?st"
      | (wait) "i \<notin> has_result ?st" "\<not> set ds \<subseteq> has_result ?st"
      | (skip) "i \<notin> has_result ?st" "set ds \<subseteq> has_result ?st"
          "only_uses_skipped False (rc_plan c) n (s_results ?st)"
      | (full) "i \<notin> has_result ?st" "set ds \<subseteq> has_result ?st"
          "\<not> only_uses_skipped False (rc_plan c) n (s_results ?st)"
          "max_concurrent c \<le> length (v_flight v)"
      | (launch) "i \<notin> has_result ?st" "set ds \<subseteq> has_result ?st"
          "\<not> only_uses_skipped False (rc_plan c) n (s_results ?st)"
          "length (v_flight v) < max_concurrent c"
      by fastforce
    then show ?thesis
    proof cases
      case res
      with Cons.prems(1) True nd have "dispatch_pass c is (drop_pending i v) d = Inr (v', d')" by simp
      then show ?thesis using Cons.IH assms(3) Cons.prems(2) True res by blast
    next
      case wait
      with Cons.prems(1) True nd have "dispatch_pass c is v d = Inr (v', d')" by simp
      then show ?thesis using Cons.IH Cons.prems(2) by blast
    next
      case skip
      with Cons.prems(1) True nd
      have "dispatch_pass c is (record_skipped c i (drop_pending i v)) True = Inr (v', d')" by simp
      then show ?thesis using Cons.IH assms(4) Cons.prems(2) True nd skip by blast
    next
      case full
      with Cons.prems True nd show ?thesis by simp
    next
      case launch
      with Cons.prems(1) True nd have "dispatch_pass c is (launch i v) True = Inr (v', d')" by simp
      then show ?thesis using Cons.IH assms(5) Cons.prems(2) True nd launch by blast
    qed
  qed
qed

lemma filter_shrinks: "i \<in> set xs \<Longrightarrow> length (filter (\<lambda>j. j \<noteq> i) xs) < length xs"
  by (rule length_filter_less) auto

lemma pass_shrinks:
  assumes "dispatch_pass c is v d = Inr (v', d')"
  shows "length (v_pending v') \<le> length (v_pending v) \<and>
     (d' \<longrightarrow> d \<or> length (v_pending v') < length (v_pending v))"
proof -
  have "length (v_pending v) \<le> length (v_pending v) \<and> (d \<longrightarrow> d \<or> length (v_pending v) < length (v_pending v))"
    by simp
  with assms show ?thesis
  proof (induction rule: pass_rule)
    case (drop i v1 d1)
    then show ?case using filter_shrinks [of i "v_pending v1"] by auto
  next
    case (skip i n ds v1 d1)
    then show ?case using filter_shrinks [of i "v_pending v1"] by auto
  next
    case (launch i n ds v1 d1)
    then show ?case using filter_shrinks [of i "v_pending v1"] by auto
  qed
qed

lemma pass_nothing_pending:
  "v_pending v = [] \<Longrightarrow> dispatch_pass c is v d = Inr (v, d)"
  by (induction "is") simp_all

text \<open>From one wake-up of the loop to its next suspension, or to the end of the run.\<close>

function turn :: "run_ctx \<Rightarrow> sched \<Rightarrow> run_state" where
  "turn c v =
     (if v_pending v = [] \<and> v_flight v = [] then Returned (finish_run c v)
      else case dispatch_pass c (p_sorted_node_ids (rc_plan c)) v False of
        Inl e \<Rightarrow> Raised e v
      | Inr (v', dispatched) \<Rightarrow>
          if v_flight v' = [] then
            (if v_pending v' \<noteq> [] \<and> \<not> dispatched then Raised (NoReadyNodes (blocked c v')) v'
             else turn c v')
          else if dispatched \<and> length (v_flight v') < max_concurrent c then turn c v'
          else Waiting v')"
  by pat_completeness auto
termination
proof (relation "measure (\<lambda>(c, v). length (v_pending v))", goal_cases)
  case (2 c v x v' dispatched)
  then have pass: "dispatch_pass c (p_sorted_node_ids (rc_plan c)) v False = Inr (v', dispatched)"
    by simp
  have "v_pending v \<noteq> []" using 2 pass pass_nothing_pending [of v c _ False] by auto
  with pass_shrinks [OF pass] 2 show ?case by auto
next
  case (3 c v x v' dispatched)
  then have pass: "dispatch_pass c (p_sorted_node_ids (rc_plan c)) v False = Inr (v', dispatched)"
    by simp
  with pass_shrinks [OF pass] 3 show ?case by auto
qed simp

declare turn.simps [simp del]

definition start_run :: "run_ctx \<Rightarrow> exec_state \<Rightarrow> run_state" where
  "start_run c st =
     (let v = \<lparr>v_pending = remdups (p_sorted_node_ids (rc_plan c)), v_flight = [],
               v_state = st\<lparr>s_status := EXECUTING\<rparr>, v_events = []\<rparr>
      in if s_plan st = None then Raised NoPlan (v\<lparr>v_state := st\<rparr>) else turn c v)"

section \<open>Steps\<close>

type_synonym outcome = "exec_state \<Rightarrow> node \<Rightarrow> event list \<Rightarrow> string + node_result \<Rightarrow> bool"

definition set_flight :: "node_id \<Rightarrow> flight \<Rightarrow> sched \<Rightarrow> sched" where
  "set_flight i f v = v\<lparr>v_flight := AList.update i f (v_flight v)\<rparr>"

text \<open>
  The three things that can happen while the loop waits, and its wake-up once a task has ended.
  When several tasks have ended with an exception, the loop meets them in set order: any may be
  the one raised.  The other tasks are left as they are.
\<close>

inductive step :: "run_ctx \<Rightarrow> outcome \<Rightarrow> run_state \<Rightarrow> run_state \<Rightarrow> bool" for c out where
  task_starts:
    "map_of (v_flight v) i = Some Queued \<Longrightarrow> node_map (rc_plan c) i = Some n \<Longrightarrow>
     step c out (Waiting v)
       (Waiting (set_flight i (Running (v_state v))
          (emit c (NodeStarted i (n_type n) (select_tier (rc_settings c) n)
                     (node_path (rc_prefix c) i)) v)))"
| task_ends:
    "map_of (v_flight v) i = Some (Running st0) \<Longrightarrow> node_map (rc_plan c) i = Some n \<Longrightarrow>
     out st0 n evs (Inr r) \<Longrightarrow>
     step c out (Waiting v)
       (Waiting (set_flight i (Ended None)
          (record_node c n r (v\<lparr>v_events := v_events v @ evs\<rparr>))))"
| task_raises:
    "map_of (v_flight v) i = Some (Running st0) \<Longrightarrow> node_map (rc_plan c) i = Some n \<Longrightarrow>
     out st0 n evs (Inl e) \<Longrightarrow>
     step c out (Waiting v)
       (Waiting (set_flight i (Ended (Some e)) (v\<lparr>v_events := v_events v @ evs\<rparr>)))"
| wakes:
    "\<exists>i. (i, Ended None) \<in> set (v_flight v) \<Longrightarrow>
     \<forall>i e. (i, Ended (Some e)) \<notin> set (v_flight v) \<Longrightarrow>
     step c out (Waiting v)
       (turn c (v\<lparr>v_flight := filter (\<lambda>(i, f). f \<noteq> Ended None) (v_flight v)\<rparr>))"
| wakes_raising:
    "(i, Ended (Some e)) \<in> set (v_flight v) \<Longrightarrow>
     step c out (Waiting v) (Raised (NodeRaised i e) v)"

inductive_cases step_WaitingE: "step c out (Waiting v) r"

inductive_simps step_Returned [simp]: "step c out (Returned v) r"

inductive_simps step_Raised [simp]: "step c out (Raised e v) r"

inductive reachable :: "run_ctx \<Rightarrow> outcome \<Rightarrow> exec_state \<Rightarrow> run_state \<Rightarrow> bool" for c out st where
  reach_start: "reachable c out st (start_run c st)"
| reach_step: "reachable c out st x \<Longrightarrow> step c out x y \<Longrightarrow> reachable c out st y"

section \<open>The plan's dependencies\<close>

text \<open>A plan whose stored order is its topological order: what the validator hands over.\<close>

definition ordered_plan :: "plan \<Rightarrow> bool" where
  "ordered_plan p \<longleftrightarrow> topo_sort p = Inr (p_sorted_node_ids p)"

definition deps :: "plan \<Rightarrow> node_id \<Rightarrow> node_id set" where
  "deps p i = (case dependency_map p i of None \<Rightarrow> {} | Some ds \<Rightarrow> set ds)"

lemma ordered_planD:
  assumes "ordered_plan p"
  shows "distinct (node_ids p)" and "distinct (p_sorted_node_ids p)"
    and "set (p_sorted_node_ids p) = set (node_ids p)"
    and "dep_ordered (set (plan_edges p)) (p_sorted_node_ids p)" and "refs_exist p"
  using topo_sort_sound [OF assms [unfolded ordered_plan_def]] by auto

lemma fully_sorted_ordered: "fully_sorted p \<Longrightarrow> ordered_plan p"
  by (erule fully_sortedE) (simp add: ordered_plan_def)

lemma node_map_iff:
  "ordered_plan p \<Longrightarrow> node_map p i = Some n \<longleftrightarrow> n \<in> set (p_nodes p) \<and> n_id n = i"
  using node_map_distinct [of p n] node_map_Some [of p i n] ordered_planD(1) by blast

lemma node_map_ex: "i \<in> set (node_ids p) \<Longrightarrow> \<exists>n. node_map p i = Some n"
  using node_map_None [of p i] by auto

lemma dependency_map_ex: "i \<in> set (node_ids p) \<Longrightarrow> \<exists>ds. dependency_map p i = Some ds"
  using node_map_ex [of i p] by (auto simp: dependency_map_def)

lemma deps_edges:
  assumes "ordered_plan p"
  shows "u \<in> deps p i \<longleftrightarrow> i \<in> set (node_ids p) \<and> (u, i) \<in> set (plan_edges p)"
proof (cases "node_map p i")
  case None
  then show ?thesis using node_map_None [of p i] by (simp add: deps_def dependency_map_def)
next
  case (Some n)
  then have n: "n \<in> set (p_nodes p)" "n_id n = i" by (auto dest: node_map_Some)
  then have "m = n" if "m \<in> set (p_nodes p)" "n_id m = i" for m
    using that node_map_distinct [OF ordered_planD(1) [OF assms], of m] Some by simp
  then have "(u, i) \<in> set (plan_edges p) \<longleftrightarrow> u \<in> set (n_context_needed n) \<or>
      (\<exists>m \<in> set (p_nodes p). u = n_id m \<and> i \<in> set (control_targets m))"
    unfolding set_plan_edges using n by metis
  moreover have "deps p i = set (n_context_needed n) \<union>
      n_id ` {m \<in> set (p_nodes p). i \<in> set (control_targets m)}"
    using Some by (simp add: deps_def dependency_map_def)
  moreover have "i \<in> set (node_ids p)" using n by (auto simp: node_ids_def)
  ultimately show ?thesis by blast
qed

lemma deps_ids: "ordered_plan p \<Longrightarrow> deps p i \<subseteq> set (node_ids p)"
  using plan_edges_within ordered_planD(5) by (fastforce simp: deps_edges)

lemma deps_before:
  assumes "ordered_plan p" and "p_sorted_node_ids p = ys @ i # zs"
  shows "deps p i \<subseteq> set ys"
  using ordered_planD(4) [OF assms(1)] assms deps_edges [OF assms(1)]
  unfolding dep_ordered_def by blast

lemma deps_irrefl: "ordered_plan p \<Longrightarrow> i \<notin> deps p i"
proof
  assume p: "ordered_plan p" and "i \<in> deps p i"
  then have "i \<in> set (p_sorted_node_ids p)" using deps_edges ordered_planD(3) by blast
  then obtain ys zs where split: "p_sorted_node_ids p = ys @ i # zs" by (meson split_list)
  with deps_before [OF p split] \<open>i \<in> deps p i\<close> ordered_planD(2) [OF p] show False by auto
qed

lemma content_deps:
  "ordered_plan p \<Longrightarrow> node_map p i = Some n \<Longrightarrow> set (content_dependencies p n) \<subseteq> deps p i"
  by (auto simp: content_dependencies_def deps_def dependency_map_def)

lemma context_deps: "node_map p i = Some n \<Longrightarrow> set (n_context_needed n) \<subseteq> deps p i"
  by (simp add: deps_def dependency_map_def)

lemma excluded_target:
  "t \<in> set (excluded_by n b) \<Longrightarrow> t \<in> set (branch_targets n)"
  by (auto simp: excluded_by_def branch_targets_def split: option.splits if_splits)
    (metis snd_conv)

lemma excluded_dep:
  assumes "ordered_plan p" and "node_map p i = Some n" and "n_type n = DECISION"
    and "t \<in> set (excluded_by n b)" and "t \<in> set (node_ids p)"
  shows "i \<in> deps p t"
  using assms excluded_target [OF assms(4)]
  by (auto simp: deps_edges set_plan_edges node_map_iff control_targets_def)

lemma only_uses_skipped_cong:
  assumes "\<And>d. d \<in> set (content_dependencies p n) \<Longrightarrow> map_of rs d = map_of rs' d"
  shows "only_uses_skipped b p n rs = only_uses_skipped b p n rs'"
  using assms by (simp add: only_uses_skipped_def)

section \<open>Effects of the recording functions\<close>

lemma record_skipped_state [simp]:
  "s_results (v_state (record_skipped c i v)) =
     AList.update i (mk_result i SKIPPED) (s_results (v_state v))"
  "s_skipped_nodes (v_state (record_skipped c i v)) =
     (if i \<in> set (s_skipped_nodes (v_state v)) then s_skipped_nodes (v_state v)
      else s_skipped_nodes (v_state v) @ [i])"
  "s_completed_nodes (v_state (record_skipped c i v)) = s_completed_nodes (v_state v)"
  "s_plan (v_state (record_skipped c i v)) = s_plan (v_state v)"
  "s_task_id (v_state (record_skipped c i v)) = s_task_id (v_state v)"
  "s_user_request (v_state (record_skipped c i v)) = s_user_request (v_state v)"
  by (simp_all add: record_skipped_def Let_def)

definition newly_skipped :: "run_ctx \<Rightarrow> node_id list \<Rightarrow> exec_state \<Rightarrow> node_id set" where
  "newly_skipped c ts st = {i \<in> set ts. i \<in> set (node_ids (rc_plan c)) \<and> i \<notin> has_result st}"

lemma skip_each_keeps [simp]:
  "v_pending (skip_each c ts v) = v_pending v" "v_flight (skip_each c ts v) = v_flight v"
  "s_completed_nodes (v_state (skip_each c ts v)) = s_completed_nodes (v_state v)"
  "s_plan (v_state (skip_each c ts v)) = s_plan (v_state v)"
  "s_task_id (v_state (skip_each c ts v)) = s_task_id (v_state v)"
  "s_user_request (v_state (skip_each c ts v)) = s_user_request (v_state v)"
  by (induction c ts v rule: skip_each.induct) simp_all

lemma skip_each_results:
  "map_of (s_results (v_state (skip_each c ts v))) =
     (\<lambda>i. if i \<in> newly_skipped c ts (v_state v) then Some (mk_result i SKIPPED)
          else map_of (s_results (v_state v)) i)"
proof (induction c ts v rule: skip_each.induct)
  case (1 c v)
  then show ?case by (simp add: newly_skipped_def)
next
  case (2 c i "is" v)
  then show ?case by (auto simp: fun_eq_iff newly_skipped_def)
qed

lemma skip_each_skipped:
  assumes "set (s_skipped_nodes (v_state v)) \<subseteq> has_result (v_state v)"
    and "distinct (s_skipped_nodes (v_state v))"
  shows "set (s_skipped_nodes (v_state (skip_each c ts v))) =
      set (s_skipped_nodes (v_state v)) \<union> newly_skipped c ts (v_state v) \<and>
    distinct (s_skipped_nodes (v_state (skip_each c ts v)))"
  using assms
proof (induction c ts v rule: skip_each.induct)
  case (1 c v)
  then show ?case by (simp add: newly_skipped_def)
next
  case (2 c i "is" v)
  show ?case
  proof (cases "i \<in> set (node_ids (rc_plan c)) \<and> i \<notin> has_result (v_state v)")
    case True
    let ?v = "record_skipped c i v"
    have "i \<notin> set (s_skipped_nodes (v_state v))" using True 2(2) by blast
    then have sk: "s_skipped_nodes (v_state ?v) = s_skipped_nodes (v_state v) @ [i]" by simp
    have "newly_skipped c (i # is) (v_state v) = insert i (newly_skipped c is (v_state ?v))"
      using True by (auto simp: newly_skipped_def)
    moreover have sub: "set (s_skipped_nodes (v_state ?v)) \<subseteq> has_result (v_state ?v)"
      and d: "distinct (s_skipped_nodes (v_state ?v))"
      using 2(2,3) \<open>i \<notin> set (s_skipped_nodes (v_state v))\<close> unfolding sk by auto
    have e: "(if i \<in> set (node_ids (rc_plan c)) \<and> i \<notin> has_result (v_state v) then ?v else v) = ?v"
      using True by simp
    note 2(1) [unfolded e, OF sub d]
    ultimately show ?thesis by (simp only: skip_each.simps(2) e sk) simp
  next
    case False
    with 2 show ?thesis by (auto simp: newly_skipped_def)
  qed
qed

lemma record_decision_keeps [simp]:
  "v_pending (record_decision c n r v) = v_pending v" "v_flight (record_decision c n r v) = v_flight v"
  "s_results (v_state (record_decision c n r v)) = s_results (v_state v)"
  "s_completed_nodes (v_state (record_decision c n r v)) = s_completed_nodes (v_state v)"
  "s_skipped_nodes (v_state (record_decision c n r v)) = s_skipped_nodes (v_state v)"
  "s_plan (v_state (record_decision c n r v)) = s_plan (v_state v)"
  "s_task_id (v_state (record_decision c n r v)) = s_task_id (v_state v)"
  "s_user_request (v_state (record_decision c n r v)) = s_user_request (v_state v)"
  by (simp_all add: record_decision_def)

lemma set_flight_sel [simp]:
  "v_pending (set_flight i f v) = v_pending v" "v_state (set_flight i f v) = v_state v"
  "v_events (set_flight i f v) = v_events v"
  "v_flight (set_flight i f v) = AList.update i f (v_flight v)"
  by (simp_all add: set_flight_def)

end
