(* ===== verification/ScheduleInvariants.thy ===== *)
theory ScheduleInvariants
  imports Scheduler
begin

text \<open>
  What holds of every reachable state of the scheduler, whatever the nodes compute: which nodes
  are pending, in flight, completed or skipped; that a node runs only after everything it depends
  on; that an excluded branch never runs; that no result is overwritten.
\<close>

section \<open>The invariant\<close>

definition flights :: "sched \<Rightarrow> node_id set" where
  "flights v = fst ` set (v_flight v)"

definition completed :: "sched \<Rightarrow> node_id set" where
  "completed v = set (s_completed_nodes (v_state v))"

definition skipped :: "sched \<Rightarrow> node_id set" where
  "skipped v = set (s_skipped_nodes (v_state v))"

text \<open>Every node is in exactly the bookkeeping sets it should be in.\<close>

definition inv_sets :: "run_ctx \<Rightarrow> sched \<Rightarrow> bool" where
  "inv_sets c v \<longleftrightarrow>
     distinct (v_pending v) \<and> distinct (map fst (v_flight v)) \<and>
     distinct (s_completed_nodes (v_state v)) \<and> distinct (s_skipped_nodes (v_state v)) \<and>
     set (v_pending v) \<union> flights v \<union> has_result (v_state v) = set (node_ids (rc_plan c)) \<and>
     has_result (v_state v) = completed v \<union> skipped v \<and> completed v \<inter> skipped v = {} \<and>
     set (v_pending v) \<inter> flights v = {} \<and> set (v_pending v) \<inter> completed v = {} \<and>
     (\<forall>(i, f) \<in> set (v_flight v). if f = Ended None then i \<in> completed v else i \<notin> has_result (v_state v)) \<and>
     length (v_flight v) \<le> max_concurrent c"

text \<open>What ran or runs had all its dependencies, and some content that was not skipped.\<close>

definition runnable :: "plan \<Rightarrow> (node_id \<times> node_result) list \<Rightarrow> node_id \<Rightarrow> bool" where
  "runnable p results i \<longleftrightarrow>
     deps p i \<subseteq> dom (map_of results) \<and>
     (\<forall>n. node_map p i = Some n \<longrightarrow> \<not> only_uses_skipped False p n results)"

definition inv_ready :: "run_ctx \<Rightarrow> sched \<Rightarrow> bool" where
  "inv_ready c v \<longleftrightarrow>
     (\<forall>i \<in> completed v \<union> flights v. runnable (rc_plan c) (s_results (v_state v)) i)"

text \<open>A decision with a result excludes the targets of its other branches.\<close>

definition excludes :: "plan \<Rightarrow> (node_id \<times> node_result) list \<Rightarrow> node_id \<Rightarrow> bool" where
  "excludes p results i \<longleftrightarrow>
     (\<exists>d n r. node_map p d = Some n \<and> n_type n = DECISION \<and> map_of results d = Some r \<and>
        i \<in> set (excluded_by n (r_branch_taken r)))"

definition skip_reason :: "plan \<Rightarrow> (node_id \<times> node_result) list \<Rightarrow> node_id \<Rightarrow> bool" where
  "skip_reason p results i \<longleftrightarrow>
     excludes p results i \<or>
     (\<exists>n. node_map p i = Some n \<and> deps p i \<subseteq> dom (map_of results) \<and>
        only_uses_skipped False p n results)"

definition inv_branches :: "run_ctx \<Rightarrow> sched \<Rightarrow> bool" where
  "inv_branches c v \<longleftrightarrow>
     (\<forall>i \<in> set (node_ids (rc_plan c)). excludes (rc_plan c) (s_results (v_state v)) i \<longrightarrow> i \<in> skipped v) \<and>
     (\<forall>i \<in> skipped v. result_of (v_state v) i = Some (mk_result i SKIPPED) \<and>
        skip_reason (rc_plan c) (s_results (v_state v)) i)"

text \<open>A node's result is the outcome computed from a state that agrees on its dependencies.\<close>

definition agrees :: "plan \<Rightarrow> exec_state \<Rightarrow> exec_state \<Rightarrow> node_id \<Rightarrow> bool" where
  "agrees p st0 st i \<longleftrightarrow>
     (\<forall>d \<in> deps p i. result_of st0 d = result_of st d) \<and> s_plan st0 = s_plan st \<and>
     s_task_id st0 = s_task_id st \<and> s_user_request st0 = s_user_request st"

definition computed :: "run_ctx \<Rightarrow> outcome \<Rightarrow> exec_state \<Rightarrow> node_id \<Rightarrow> node_result \<Rightarrow> bool" where
  "computed c out st i r \<longleftrightarrow>
     (\<exists>n st0 evs r0. node_map (rc_plan c) i = Some n \<and> out st0 n evs (Inr r0) \<and>
        r = finalize_result (rc_settings c) n r0 \<and> agrees (rc_plan c) st0 st i)"

definition inv_outcomes :: "run_ctx \<Rightarrow> outcome \<Rightarrow> sched \<Rightarrow> bool" where
  "inv_outcomes c out v \<longleftrightarrow>
     (\<forall>i \<in> completed v. \<exists>r. result_of (v_state v) i = Some r \<and> computed c out (v_state v) i r) \<and>
     (\<forall>(i, f) \<in> set (v_flight v). \<forall>st0. f = Running st0 \<longrightarrow> agrees (rc_plan c) st0 (v_state v) i)"

definition same_task :: "exec_state \<Rightarrow> exec_state \<Rightarrow> bool" where
  "same_task st st' \<longleftrightarrow> s_plan st' = s_plan st \<and> s_task_id st' = s_task_id st \<and>
     s_user_request st' = s_user_request st"

definition sched_inv :: "run_ctx \<Rightarrow> outcome \<Rightarrow> exec_state \<Rightarrow> sched \<Rightarrow> bool" where
  "sched_inv c out st v \<longleftrightarrow>
     inv_sets c v \<and> inv_ready c v \<and> inv_branches c v \<and> inv_outcomes c out v \<and>
     same_task st (v_state v)"

lemma inv_setsD:
  assumes "inv_sets c v"
  shows "distinct (v_pending v)" and "distinct (map fst (v_flight v))"
    and "distinct (s_completed_nodes (v_state v))" and "distinct (s_skipped_nodes (v_state v))"
    and "set (v_pending v) \<union> flights v \<union> has_result (v_state v) = set (node_ids (rc_plan c))"
    and "has_result (v_state v) = completed v \<union> skipped v" and "completed v \<inter> skipped v = {}"
    and "set (v_pending v) \<inter> flights v = {}" and "set (v_pending v) \<inter> completed v = {}"
    and "length (v_flight v) \<le> max_concurrent c"
  using assms unfolding inv_sets_def by blast+

lemma flight_status:
  assumes "inv_sets c v" and "(i, f) \<in> set (v_flight v)"
  shows "if f = Ended None then i \<in> completed v else i \<notin> has_result (v_state v)"
  using assms unfolding inv_sets_def by blast

lemma inv_setsI:
  assumes "distinct (v_pending v)" and "distinct (map fst (v_flight v))"
    and "distinct (s_completed_nodes (v_state v))" and "distinct (s_skipped_nodes (v_state v))"
    and "set (v_pending v) \<union> flights v \<union> has_result (v_state v) = set (node_ids (rc_plan c))"
    and "has_result (v_state v) = completed v \<union> skipped v" and "completed v \<inter> skipped v = {}"
    and "set (v_pending v) \<inter> flights v = {}" and "set (v_pending v) \<inter> completed v = {}"
    and "length (v_flight v) \<le> max_concurrent c"
    and "\<And>i f. (i, f) \<in> set (v_flight v) \<Longrightarrow>
      if f = Ended None then i \<in> completed v else i \<notin> has_result (v_state v)"
  shows "inv_sets c v"
  unfolding inv_sets_def using assms by (intro conjI) blast+

lemma sched_invD:
  assumes "sched_inv c out st v"
  shows "inv_sets c v" and "inv_ready c v" and "inv_branches c v" and "inv_outcomes c out v"
    and "same_task st (v_state v)"
  using assms by (simp_all add: sched_inv_def)

section \<open>Growing results\<close>

text \<open>Results are only ever added: the facts about a node's dependencies are stable.\<close>

definition grows :: "exec_state \<Rightarrow> exec_state \<Rightarrow> bool" where
  "grows st st' \<longleftrightarrow> (\<forall>i \<in> has_result st. result_of st' i = result_of st i) \<and> same_task st st'"

lemma grows_dom: "grows st st' \<Longrightarrow> has_result st \<subseteq> has_result st'"
  unfolding grows_def by (metis domIff subsetI)

lemma only_uses_skipped_grows:
  assumes "ordered_plan p" and "node_map p i = Some n" and "deps p i \<subseteq> has_result st"
    and "grows st st'"
  shows "only_uses_skipped b p n (s_results st') = only_uses_skipped b p n (s_results st)"
  using assms content_deps [OF assms(1,2)]
  by (intro only_uses_skipped_cong) (auto simp: grows_def subset_iff)

lemma runnable_grows:
  "ordered_plan p \<Longrightarrow> runnable p (s_results st) i \<Longrightarrow> grows st st' \<Longrightarrow> runnable p (s_results st') i"
  using grows_dom [of st st'] only_uses_skipped_grows [of p i _ st st' False]
  unfolding runnable_def by (metis subset_trans)

lemma excludes_grows: "excludes p (s_results st) i \<Longrightarrow> grows st st' \<Longrightarrow> excludes p (s_results st') i"
  unfolding excludes_def grows_def by (metis domI)

lemma skip_reason_grows:
  assumes "ordered_plan p" and "skip_reason p (s_results st) i" and "grows st st'"
  shows "skip_reason p (s_results st') i"
  using assms excludes_grows [of p st i st'] grows_dom [of st st']
    only_uses_skipped_grows [of p i _ st st' False]
  unfolding skip_reason_def by (metis subset_trans)

lemma agrees_grows:
  "agrees p st0 st i \<Longrightarrow> deps p i \<subseteq> has_result st \<Longrightarrow> grows st st' \<Longrightarrow> agrees p st0 st' i"
  by (auto simp: agrees_def grows_def same_task_def subset_iff)

lemma computed_grows:
  "computed c out st i r \<Longrightarrow> deps (rc_plan c) i \<subseteq> has_result st \<Longrightarrow> grows st st' \<Longrightarrow>
     computed c out st' i r"
  unfolding computed_def using agrees_grows by blast

lemma same_task_trans: "same_task a b \<Longrightarrow> same_task b d \<Longrightarrow> same_task a d"
  by (simp add: same_task_def)

section \<open>Preservation by one pass\<close>

lemma bookkeeping_sel [simp]:
  "completed (drop_pending i v) = completed v" "skipped (drop_pending i v) = skipped v"
  "flights (drop_pending i v) = flights v"
  "completed (launch i v) = completed v" "skipped (launch i v) = skipped v"
  "flights (launch i v) = insert i (flights v)"
  "completed (emit c e v) = completed v" "skipped (emit c e v) = skipped v"
  "flights (emit c e v) = flights v"
  "completed (record_skipped c i v) = completed v" "flights (record_skipped c i v) = flights v"
  "skipped (record_skipped c i v) = insert i (skipped v)"
  "completed (v\<lparr>v_events := es\<rparr>) = completed v" "skipped (v\<lparr>v_events := es\<rparr>) = skipped v"
  "flights (v\<lparr>v_events := es\<rparr>) = flights v"
  "completed (set_flight i f v) = completed v" "skipped (set_flight i f v) = skipped v"
  by (auto simp: completed_def skipped_def flights_def)

lemma drop_inv:
  assumes "sched_inv c out st v" and "i \<in> has_result (v_state v)"
  shows "sched_inv c out st (drop_pending i v)"
proof -
  have "inv_sets c (drop_pending i v)"
    using assms unfolding sched_inv_def inv_sets_def by (auto simp: completed_def skipped_def)
  with assms show ?thesis
    unfolding sched_inv_def inv_ready_def inv_branches_def inv_outcomes_def
    by (simp only: bookkeeping_sel drop_pending_sel simp_thms) blast
qed

lemma launch_inv:
  assumes inv: "sched_inv c out st v" and i: "i \<in> set (v_pending v)" "i \<notin> has_result (v_state v)"
    and room: "length (v_flight v) < max_concurrent c"
    and ready: "runnable (rc_plan c) (s_results (v_state v)) i"
  shows "sched_inv c out st (launch i v)"
proof -
  have "inv_sets c (launch i v)"
    using inv i room unfolding sched_inv_def inv_sets_def by (auto simp: flights_def)
  moreover have "inv_ready c (launch i v)"
    using inv ready by (auto simp: sched_inv_def inv_ready_def)
  moreover have "inv_branches c (launch i v)"
    using inv unfolding sched_inv_def inv_branches_def
    by (simp only: bookkeeping_sel launch_sel) blast
  moreover have "inv_outcomes c out (launch i v)"
    using inv unfolding sched_inv_def inv_outcomes_def
    by (simp only: bookkeeping_sel launch_sel) auto
  ultimately show ?thesis using inv by (simp add: sched_inv_def)
qed

lemma skip_grows:
  "i \<notin> has_result (v_state v) \<Longrightarrow> grows (v_state v) (v_state (record_skipped c i v))"
  by (auto simp: grows_def same_task_def)

text \<open>
  The parts of the invariant that speak of results are stable under growth; only the new entries
  have to be checked.
\<close>

lemma inv_ready_grows:
  assumes "ordered_plan (rc_plan c)" and "inv_ready c v" and "grows (v_state v) (v_state v')"
    and "completed v' \<union> flights v' \<subseteq> completed v \<union> flights v"
  shows "inv_ready c v'"
  using assms runnable_grows unfolding inv_ready_def by blast

lemma inv_outcomes_grows:
  assumes "inv_ready c v" and "inv_outcomes c out v" and g: "grows (v_state v) (v_state v')"
    and "completed v \<subseteq> has_result (v_state v)"
    and "\<And>i r. i \<in> completed v' \<Longrightarrow> i \<notin> completed v \<Longrightarrow>
      \<exists>r. result_of (v_state v') i = Some r \<and> computed c out (v_state v') i r"
    and "\<And>i st0. (i, Running st0) \<in> set (v_flight v') \<Longrightarrow> (i, Running st0) \<in> set (v_flight v)"
  shows "inv_outcomes c out v'"
proof -
  have deps: "deps (rc_plan c) i \<subseteq> has_result (v_state v)" if "i \<in> completed v \<union> flights v" for i
    using that assms(1) by (auto simp: inv_ready_def runnable_def)
  have "\<exists>r. result_of (v_state v') i = Some r \<and> computed c out (v_state v') i r"
    if "i \<in> completed v'" for i
  proof (cases "i \<in> completed v")
    case True
    with assms(2) obtain r where "result_of (v_state v) i = Some r" "computed c out (v_state v) i r"
      by (auto simp: inv_outcomes_def)
    with True deps [of i] g assms(4) show ?thesis
      using computed_grows by (metis UnCI grows_def subsetD)
  qed (use assms(5) that in blast)
  moreover have "agrees (rc_plan c) st0 (v_state v') i"
    if "(i, Running st0) \<in> set (v_flight v')" for i st0
  proof -
    have mem: "(i, Running st0) \<in> set (v_flight v)" using assms(6) that by blast
    then have "i \<in> flights v" by (force simp: flights_def)
    moreover have "agrees (rc_plan c) st0 (v_state v) i"
      using assms(2) mem unfolding inv_outcomes_def by fastforce
    ultimately show ?thesis using agrees_grows [OF _ deps g] by blast
  qed
  ultimately show ?thesis unfolding inv_outcomes_def by blast
qed

lemma excludes_new:
  assumes "excludes p rs' i" and "\<And>d. map_of rs' d = map_of rs d \<or> d = j"
    and "map_of rs' j = Some (mk_result j SKIPPED)"
  shows "excludes p rs i"
proof -
  from assms(1) obtain d n r where d: "node_map p d = Some n" "n_type n = DECISION"
    "map_of rs' d = Some r" "i \<in> set (excluded_by n (r_branch_taken r))"
    by (auto simp: excludes_def)
  have "d \<noteq> j" using d(3,4) assms(3) by (auto simp: mk_result_def excluded_by_def)
  with d assms(2) [of d] show ?thesis unfolding excludes_def by metis
qed

lemma skip_inv:
  assumes p: "ordered_plan (rc_plan c)" and inv: "sched_inv c out st v"
    and i: "i \<in> set (v_pending v)" "i \<notin> has_result (v_state v)"
    and why: "skip_reason (rc_plan c) (s_results (v_state v)) i"
  shows "sched_inv c out st (record_skipped c i (drop_pending i v))" (is "sched_inv c out st ?v")
proof -
  have g: "grows (v_state v) (v_state ?v)"
    using skip_grows [of i "drop_pending i v" c] i(2) by simp
  have new: "i \<notin> skipped v" "i \<notin> completed v" "i \<notin> flights v"
    using inv i unfolding sched_inv_def inv_sets_def by auto
  then have "(i, f) \<notin> set (v_flight v)" for f by (force simp: flights_def)
  then have "inv_sets c ?v"
    using inv i new unfolding sched_inv_def inv_sets_def
    by (auto simp: completed_def skipped_def flights_def)
  moreover have "inv_ready c ?v"
    by (rule inv_ready_grows [OF p _ g]) (use inv in \<open>auto simp: sched_inv_def\<close>)
  moreover have "inv_outcomes c out ?v"
    by (rule inv_outcomes_grows [OF _ _ g])
      (use inv in \<open>auto simp: sched_inv_def inv_sets_def\<close>)
  moreover have "inv_branches c ?v"
  proof -
    have br: "inv_branches c v" using inv by (simp add: sched_inv_def)
    have "j \<in> skipped ?v"
      if "j \<in> set (node_ids (rc_plan c))" "excludes (rc_plan c) (s_results (v_state ?v)) j" for j
      using br that excludes_new [OF that(2), of "s_results (v_state v)" i]
      by (auto simp: inv_branches_def)
    moreover have "result_of (v_state ?v) j = Some (mk_result j SKIPPED) \<and>
        skip_reason (rc_plan c) (s_results (v_state ?v)) j" if "j \<in> skipped ?v" for j
    proof (cases "j = i")
      case True
      then show ?thesis using skip_reason_grows [OF p why g] by simp
    next
      case False
      with that br have "result_of (v_state v) j = Some (mk_result j SKIPPED)"
        "skip_reason (rc_plan c) (s_results (v_state v)) j" by (auto simp: inv_branches_def)
      with False show ?thesis using skip_reason_grows [OF p _ g] by simp
    qed
    ultimately show ?thesis unfolding inv_branches_def by blast
  qed
  ultimately show ?thesis using inv g by (auto simp: sched_inv_def grows_def same_task_def)
qed

lemma pass_inv:
  assumes "dispatch_pass c is v d = Inr (v', d')" and "ordered_plan (rc_plan c)"
    and "sched_inv c out st v"
  shows "sched_inv c out st v'"
  using assms(1,3)
proof (induction rule: pass_rule)
  case (drop i v d)
  then show ?case by (simp add: drop_inv)
next
  case (skip i n ds v d)
  then have "skip_reason (rc_plan c) (s_results (v_state v)) i"
    by (auto simp: skip_reason_def deps_def)
  with skip assms(2) show ?case by (intro skip_inv)
next
  case (launch i n ds v d)
  then have "runnable (rc_plan c) (s_results (v_state v)) i"
    by (auto simp: runnable_def deps_def)
  with launch show ?case by (intro launch_inv)
qed

section \<open>Preservation by the end of a task\<close>

definition exclusions :: "node \<Rightarrow> node_result \<Rightarrow> node_id list" where
  "exclusions n r = (if n_type n = DECISION then excluded_by n (r_branch_taken r) else [])"

lemma record_node_effects:
  fixes v :: sched
  assumes "r = finalize_result (rc_settings c) n r0"
    and "skipped v \<subseteq> has_result (v_state v)" and "distinct (s_skipped_nodes (v_state v))"
    and "new = {j \<in> set (exclusions n r). j \<in> set (node_ids (rc_plan c)) \<and> j \<noteq> n_id n \<and>
                  j \<notin> has_result (v_state v)}"
  shows "map_of (s_results (v_state (record_node c n r0 v))) =
      (\<lambda>j. if j \<in> new then Some (mk_result j SKIPPED)
           else if j = n_id n then Some r else result_of (v_state v) j)"
    and "s_completed_nodes (v_state (record_node c n r0 v)) = s_completed_nodes (v_state v) @ [n_id n]"
    and "skipped (record_node c n r0 v) = skipped v \<union> new"
    and "distinct (s_skipped_nodes (v_state (record_node c n r0 v)))"
    and "v_pending (record_node c n r0 v) = v_pending v"
    and "v_flight (record_node c n r0 v) = v_flight v"
    and "same_task (v_state v) (v_state (record_node c n r0 v))"
proof -
  let ?st = "v_state v"
  let ?v1 = "v\<lparr>v_state := ?st\<lparr>s_results := AList.update (n_id n) r (s_results ?st),
                               s_completed_nodes := s_completed_nodes ?st @ [n_id n]\<rparr>\<rparr>"
  let ?v2 = "emit c (finished_event c r) (record_decision c n r ?v1)"
  have rec: "record_node c n r0 v = skip_each c (exclusions n r) ?v2"
    by (simp add: record_node_def exclusions_def assms(1) Let_def)
  have new: "newly_skipped c (exclusions n r) (v_state ?v2) = new"
    using assms(4) by (auto simp: newly_skipped_def)
  have "set (s_skipped_nodes (v_state ?v2)) \<subseteq> has_result (v_state ?v2)"
    using assms(2) by (auto simp: skipped_def)
  moreover have "distinct (s_skipped_nodes (v_state ?v2))" using assms(3) by simp
  ultimately have "set (s_skipped_nodes (v_state (record_node c n r0 v))) =
      set (s_skipped_nodes ?st) \<union> new \<and> distinct (s_skipped_nodes (v_state (record_node c n r0 v)))"
    using skip_each_skipped [of ?v2 c "exclusions n r"] unfolding rec new by simp
  then show "skipped (record_node c n r0 v) = skipped v \<union> new"
    and "distinct (s_skipped_nodes (v_state (record_node c n r0 v)))" by (simp_all add: skipped_def)
  show "map_of (s_results (v_state (record_node c n r0 v))) =
      (\<lambda>j. if j \<in> new then Some (mk_result j SKIPPED)
           else if j = n_id n then Some r else result_of ?st j)"
    unfolding rec skip_each_results new by (auto simp: fun_eq_iff)
qed (simp_all add: record_node_def Let_def same_task_def)

lemma flights_update: "i \<in> flights v \<Longrightarrow> flights (set_flight i f v) = flights v"
  by (auto simp: flights_def keys_update [unfolded set_map])

lemma flight_mem: "map_of (v_flight v) i = Some f \<Longrightarrow> i \<in> flights v \<and> (i, f) \<in> set (v_flight v)"
  by (force simp: flights_def dest: map_of_SomeD)

lemma mem_update:
  assumes "distinct (map fst xs)" and "(j, g) \<in> set (AList.update k f xs)"
  shows "j = k \<and> g = f \<or> j \<noteq> k \<and> (j, g) \<in> set xs"
proof -
  have "map_of (AList.update k f xs) j = Some g"
    by (rule map_of_is_SomeI [OF distinct_update [OF assms(1)] assms(2)])
  then show ?thesis by (auto split: if_splits dest: map_of_SomeD)
qed

lemma length_update: "k \<in> fst ` set xs \<Longrightarrow> length (AList.update k f xs) = length xs"
  by (induction xs) auto

text \<open>Changing the flight of a node that stays unfinished.\<close>

lemma set_flight_inv:
  assumes inv: "sched_inv c out st v" and fl: "map_of (v_flight v) i = Some f0" "f0 \<noteq> Ended None"
    and f: "f \<noteq> Ended None" "\<And>st0. f = Running st0 \<Longrightarrow> agrees (rc_plan c) st0 (v_state v) i"
  shows "sched_inv c out st (set_flight i f v)"
proof -
  note mem = flight_mem [OF fl(1)]
  have d: "distinct (map fst (v_flight v))" using inv by (simp add: sched_inv_def inv_sets_def)
  note sets = sched_invD(1) [OF inv]
  have not_res: "i \<notin> has_result (v_state v)"
    using flight_status [OF sets, of i f0] mem fl(2) by metis
  have same: "flights (set_flight i f v) = flights v" using mem by (intro flights_update) blast
  have "inv_sets c (set_flight i f v)"
  proof (rule inv_setsI)
    fix j g assume "(j, g) \<in> set (v_flight (set_flight i f v))"
    then show "if g = Ended None then j \<in> completed (set_flight i f v)
        else j \<notin> has_result (v_state (set_flight i f v))"
      using mem_update [OF d, of j g i f] flight_status [OF sets, of j g] not_res f(1)
      by (auto simp del: map_of_update split: if_splits)
  qed (use inv_setsD [OF sets] same mem distinct_update [OF d, of i f] in
      \<open>simp_all add: length_update flights_def\<close>)
  moreover have "inv_ready c (set_flight i f v)"
    using sched_invD(2) [OF inv] same by (simp add: inv_ready_def)
  moreover have "inv_branches c (set_flight i f v)"
    using sched_invD(3) [OF inv] by (simp add: inv_branches_def)
  moreover have "inv_outcomes c out (set_flight i f v)"
  proof -
    have "agrees (rc_plan c) st0 (v_state v) j"
      if "(j, Running st0) \<in> set (AList.update i f (v_flight v))" for j st0
      using mem_update [OF d that] f(2) sched_invD(4) [OF inv] unfolding inv_outcomes_def by blast
    then show ?thesis using sched_invD(4) [OF inv] unfolding inv_outcomes_def by auto
  qed
  ultimately show ?thesis using sched_invD(5) [OF inv] by (simp add: sched_inv_def)
qed

lemma sched_inv_events:
  assumes "v_pending v' = v_pending v" and "v_flight v' = v_flight v" and "v_state v' = v_state v"
  shows "sched_inv c out st v' \<longleftrightarrow> sched_inv c out st v"
  unfolding sched_inv_def inv_sets_def inv_ready_def inv_branches_def inv_outcomes_def
    completed_def skipped_def flights_def by (simp only: assms)

lemma task_end_inv:
  assumes p: "ordered_plan (rc_plan c)" and inv: "sched_inv c out st v"
    and fl: "map_of (v_flight v) i = Some (Running st0)" and n: "node_map (rc_plan c) i = Some n"
    and out: "out st0 n evs (Inr r0)"
  shows "sched_inv c out st (set_flight i (Ended None) (record_node c n r0 v))"
    (is "sched_inv c out st ?v")
proof -
  let ?R = "has_result (v_state v)"
  define r where "r = finalize_result (rc_settings c) n r0"
  define new where "new = {j \<in> set (exclusions n r). j \<in> set (node_ids (rc_plan c)) \<and> j \<noteq> i \<and> j \<notin> ?R}"
  have id: "n_id n = i" using node_map_Some [OF n] by simp
  note sets = sched_invD(1) [OF inv] and ready = sched_invD(2) [OF inv]
  note D = inv_setsD [OF sets]
  note mem = flight_mem [OF fl]
  have i_new: "i \<notin> ?R" using flight_status [OF sets, of i "Running st0"] mem by simp
  have sub: "skipped v \<subseteq> ?R" using D(6) by blast
  note eff = record_node_effects [OF r_def sub D(4), of new, unfolded id, OF new_def]
  note res = eff(1)
  have new_i: "i \<notin> new" and new_R: "new \<inter> ?R = {}" by (auto simp: new_def)
  have g: "grows (v_state v) (v_state ?v)"
    using eff(7) new_R i_new by (auto simp: grows_def res)
  have R': "has_result (v_state ?v) = ?R \<union> insert i new" by (auto simp: res split: if_splits)
  have comp: "completed ?v = insert i (completed v)" by (simp add: completed_def eff(2))
  have skip: "skipped ?v = skipped v \<union> new" by (simp add: eff(3))
  have flight: "v_flight ?v = AList.update i (Ended None) (v_flight v)" by (simp add: eff(6))
  have same: "flights ?v = flights v"
    using mem flights_update [of i "record_node c n r0 v" "Ended None"] by (simp add: flights_def eff(6))
  have excl: "excludes (rc_plan c) (s_results (v_state ?v)) j"
    if "j \<in> set (exclusions n r)" for j
    using that n new_i unfolding excludes_def set_flight_sel res exclusions_def by (auto split: if_splits)
  have not_flying: "new \<inter> flights v = {}"
  proof (rule ccontr)
    assume "new \<inter> flights v \<noteq> {}"
    then obtain j where j: "j \<in> new" "j \<in> flights v" by blast
    then have "deps (rc_plan c) j \<subseteq> ?R" using ready by (auto simp: inv_ready_def runnable_def)
    moreover have "i \<in> deps (rc_plan c) j"
      using j(1) excluded_dep [OF p n, of j] by (auto simp: new_def exclusions_def split: if_splits)
    ultimately show False using i_new by blast
  qed
  have "inv_sets c ?v"
  proof (rule inv_setsI)
    show "distinct (s_completed_nodes (v_state ?v))" using D(3,6) i_new by (auto simp: eff(2) completed_def)
    show "set (v_pending ?v) \<union> flights ?v \<union> has_result (v_state ?v) = set (node_ids (rc_plan c))"
      using D(5) mem unfolding R' same by (auto simp: eff(5) new_def)
    show "has_result (v_state ?v) = completed ?v \<union> skipped ?v" using D(6) unfolding R' comp skip by auto
    show "completed ?v \<inter> skipped ?v = {}" using D(6,7) i_new new_i new_R unfolding comp skip by auto
    show "set (v_pending ?v) \<inter> completed ?v = {}" using D(8,9) mem unfolding comp by (auto simp: eff(5))
    fix j f assume "(j, f) \<in> set (v_flight ?v)"
    then have "(j, f) \<in> set (AList.update i (Ended None) (v_flight v))" by (simp only: flight)
    then have "j = i \<and> f = Ended None \<or> j \<noteq> i \<and> (j, f) \<in> set (v_flight v)"
      by (rule mem_update [OF D(2)])
    moreover have "j \<notin> new" if "(j, f) \<in> set (v_flight v)"
      using that not_flying by (force simp: flights_def)
    ultimately show "if f = Ended None then j \<in> completed ?v else j \<notin> has_result (v_state ?v)"
      using flight_status [OF sets, of j f] unfolding comp R' by (auto split: if_splits)
  qed (use D mem same distinct_update [OF D(2)] in
      \<open>simp_all add: eff(4,5,6) length_update flights_def\<close>)
  moreover have "inv_ready c ?v"
    by (rule inv_ready_grows [OF p ready g]) (use mem comp same in auto)
  moreover have "inv_outcomes c out ?v"
  proof (rule inv_outcomes_grows [OF ready sched_invD(4) [OF inv] g])
    show "completed v \<subseteq> ?R" using D(6) by blast
    show "(j, Running st1) \<in> set (v_flight v)" if "(j, Running st1) \<in> set (v_flight ?v)" for j st1
      using mem_update [OF D(2) that [unfolded flight]] by auto
    fix j assume "j \<in> completed ?v" "j \<notin> completed v"
    then have j: "j = i" using comp by blast
    have "agrees (rc_plan c) st0 (v_state v) i"
      using sched_invD(4) [OF inv] mem unfolding inv_outcomes_def by blast
    moreover have "deps (rc_plan c) i \<subseteq> ?R" using ready mem by (auto simp: inv_ready_def runnable_def)
    ultimately have "agrees (rc_plan c) st0 (v_state ?v) i" using agrees_grows g by blast
    then have "computed c out (v_state ?v) i r" unfolding computed_def using n out r_def by blast
    then show "\<exists>r. result_of (v_state ?v) j = Some r \<and> computed c out (v_state ?v) j r"
      using new_i unfolding j set_flight_sel res by auto
  qed
  moreover have "inv_branches c ?v"
  proof -
    note br = sched_invD(3) [OF inv]
    have "j \<in> skipped ?v"
      if j: "j \<in> set (node_ids (rc_plan c))" and ex: "excludes (rc_plan c) (s_results (v_state ?v)) j" for j
    proof -
      from ex obtain d m q where d: "node_map (rc_plan c) d = Some m" "n_type m = DECISION"
        "result_of (v_state ?v) d = Some q" "j \<in> set (excluded_by m (r_branch_taken q))"
        by (auto simp: excludes_def)
      have "d \<notin> new"
        using d(3,4) by (auto simp: res mk_result_def excluded_by_def)
      show ?thesis
      proof (cases "d = i")
        case True
        have "q = r" using d(3) \<open>d \<notin> new\<close> True by (simp add: res)
        moreover have "m = n" using d(1) n True by simp
        ultimately have "j \<in> set (exclusions n r)" using d(2,4) by (simp add: exclusions_def)
        moreover have "j \<noteq> i"
          using excluded_dep [OF p d(1,2,4) j] deps_irrefl [OF p] True by blast
        moreover have "j \<notin> completed v"
        proof
          assume "j \<in> completed v"
          then have "deps (rc_plan c) j \<subseteq> ?R" using ready by (auto simp: inv_ready_def runnable_def)
          then show False using excluded_dep [OF p d(1,2,4) j] True i_new by blast
        qed
        ultimately show ?thesis using j D(6) unfolding skip new_def by blast
      next
        case False
        with d \<open>d \<notin> new\<close> have "excludes (rc_plan c) (s_results (v_state v)) j"
          unfolding excludes_def by (auto simp: res)
        with br j show ?thesis unfolding inv_branches_def skip by blast
      qed
    qed
    moreover have "result_of (v_state ?v) j = Some (mk_result j SKIPPED) \<and>
        skip_reason (rc_plan c) (s_results (v_state ?v)) j" if "j \<in> skipped ?v" for j
    proof (cases "j \<in> new")
      case True
      then show ?thesis using excl [of j] by (auto simp: res skip_reason_def new_def)
    next
      case False
      with that have "j \<in> skipped v" unfolding skip by blast
      with br sub have "result_of (v_state v) j = Some (mk_result j SKIPPED)" "j \<in> ?R"
        "skip_reason (rc_plan c) (s_results (v_state v)) j" by (auto simp: inv_branches_def)
      then show ?thesis using skip_reason_grows [OF p _ g] g by (auto simp: grows_def)
    qed
    ultimately show ?thesis unfolding inv_branches_def by blast
  qed
  ultimately show ?thesis
    using sched_invD(5) [OF inv] eff(7) by (auto simp: sched_inv_def intro: same_task_trans)
qed

section \<open>Every reachable state\<close>

text \<open>Reaping: what the loop does with the tasks that have ended, once it wakes.\<close>

lemma reap_inv:
  assumes inv: "sched_inv c out st v"
  shows "sched_inv c out st (v\<lparr>v_flight := filter (\<lambda>(i, f). f \<noteq> Ended None) (v_flight v)\<rparr>)"
    (is "sched_inv c out st ?v")
proof -
  note D = inv_setsD [OF sched_invD(1) [OF inv]]
  have sub: "set (v_flight ?v) \<subseteq> set (v_flight v)" by auto
  have fl: "flights ?v \<subseteq> flights v" by (auto simp: flights_def)
  have gone: "i \<in> completed v" if "i \<in> flights v" "i \<notin> flights ?v" for i
  proof -
    from that(1) obtain f where f: "(i, f) \<in> set (v_flight v)" by (auto simp: flights_def)
    with that(2) have "f = Ended None" by (force simp: flights_def)
    with f flight_status [OF sched_invD(1) [OF inv] f] show ?thesis by simp
  qed
  have [simp]: "completed ?v = completed v" "skipped ?v = skipped v"
    by (simp_all add: completed_def skipped_def)
  have "inv_sets c ?v"
  proof (rule inv_setsI)
    show "distinct (map fst (v_flight ?v))" using D(2) by (simp add: distinct_map_filter)
    show "set (v_pending ?v) \<union> flights ?v \<union> has_result (v_state ?v) = set (node_ids (rc_plan c))"
      using D(5,6) fl gone by auto
    show "length (v_flight ?v) \<le> max_concurrent c"
      using D(10) by (simp add: le_trans [OF length_filter_le])
    show "if f = Ended None then i \<in> completed ?v else i \<notin> has_result (v_state ?v)"
      if "(i, f) \<in> set (v_flight ?v)" for i f
      using flight_status [OF sched_invD(1) [OF inv], of i f] that by simp
  qed (use D fl in auto)
  moreover have "inv_ready c ?v" using sched_invD(2) [OF inv] fl by (auto simp: inv_ready_def)
  moreover have "inv_branches c ?v" using sched_invD(3) [OF inv] by (simp add: inv_branches_def)
  moreover have "inv_outcomes c out ?v"
    using sched_invD(4) [OF inv] unfolding inv_outcomes_def by auto
  ultimately show ?thesis using sched_invD(5) [OF inv] by (simp add: sched_inv_def)
qed

lemma pass_total:
  "set is \<subseteq> set (node_ids (rc_plan c)) \<Longrightarrow> \<exists>r. dispatch_pass c is v d = Inr r"
proof (induction "is" arbitrary: v d)
  case Nil
  then show ?case by simp
next
  case (Cons i "is")
  then obtain n ds where "node_map (rc_plan c) i = Some n" "dependency_map (rc_plan c) i = Some ds"
    using node_map_ex dependency_map_ex by (metis insert_subset list.simps(15))
  with Cons show ?case by simp
qed

text \<open>A pass that dispatches nothing leaves the state alone and has found no ready node.\<close>

lemma pass_flag: "dispatch_pass c is v True = Inr (v', d') \<Longrightarrow> d'"
  using pass_rule [where P = "\<lambda>_ d. d", of c "is" v True v' d'] by simp

lemma pass_idle:
  assumes "dispatch_pass c is v False = Inr (v', False)" and "v_flight v = []"
  shows "v_state v' = v_state v \<and> v_flight v' = [] \<and> set (v_pending v') \<subseteq> set (v_pending v) \<and>
    (\<forall>i \<in> set is \<inter> set (v_pending v'). \<not> deps (rc_plan c) i \<subseteq> has_result (v_state v))"
  using assms
proof (induction "is" arbitrary: v)
  case Nil
  then show ?case by simp
next
  case (Cons i "is")
  show ?case
  proof (cases "i \<in> set (v_pending v)")
    case False
    with Cons.prems Cons.IH [of v] show ?thesis by auto
  next
    case True
    obtain n ds where nd: "node_map (rc_plan c) i = Some n" "dependency_map (rc_plan c) i = Some ds"
      using Cons.prems(1) True
      by (cases "node_map (rc_plan c) i"; cases "dependency_map (rc_plan c) i") simp_all
    show ?thesis
    proof (cases "i \<in> has_result (v_state v)")
      case res: True
      with Cons.prems True nd Cons.IH [of "drop_pending i v"] show ?thesis by auto
    next
      case no_res: False
      have "\<not> set ds \<subseteq> has_result (v_state v)"
      proof
        assume ready: "set ds \<subseteq> has_result (v_state v)"
        show False
        proof (cases "only_uses_skipped False (rc_plan c) n (s_results (v_state v))")
          case only: True
          with Cons.prems(1) True nd no_res ready
          have "dispatch_pass c is (record_skipped c i (drop_pending i v)) True = Inr (v', False)" by simp
          then show False using pass_flag by blast
        next
          case False
          have "0 < max_concurrent c" by (simp add: max_concurrent_def)
          with Cons.prems True nd no_res ready False
          have "dispatch_pass c is (launch i v) True = Inr (v', False)" by simp
          then show False using pass_flag by blast
        qed
      qed
      with Cons.prems True nd no_res Cons.IH [of v] show ?thesis by (auto simp: deps_def)
    qed
  qed
qed

text \<open>
  The run as a whole: while it waits some task is in flight; when it returns every node has a
  result; the only error it can raise is the exception of a node.
\<close>

definition run_inv :: "run_ctx \<Rightarrow> outcome \<Rightarrow> exec_state \<Rightarrow> run_state \<Rightarrow> bool" where
  "run_inv c out st x =
     (case x of
        Waiting v \<Rightarrow> sched_inv c out st v \<and> v_flight v \<noteq> []
      | Returned v \<Rightarrow>
          sched_inv c out st v \<and> has_result (v_state v) = set (node_ids (rc_plan c)) \<and>
          v_pending v = [] \<and> v_flight v = [] \<and> s_status (v_state v) = TASK_COMPLETED \<and>
          s_final_output (v_state v) =
            map_option (\<lambda>r. rc_str c (r_output r)) (final_output_result (rc_plan c) (s_results (v_state v)))
      | Raised e v \<Rightarrow> sched_inv c out st v \<and> (\<exists>i m. e = NodeRaised i m))"

lemma finish_run_sel [simp]:
  "v_pending (finish_run c v) = v_pending v" "v_flight (finish_run c v) = v_flight v"
  "s_results (v_state (finish_run c v)) = s_results (v_state v)"
  "s_completed_nodes (v_state (finish_run c v)) = s_completed_nodes (v_state v)"
  "s_skipped_nodes (v_state (finish_run c v)) = s_skipped_nodes (v_state v)"
  "s_plan (v_state (finish_run c v)) = s_plan (v_state v)"
  "s_task_id (v_state (finish_run c v)) = s_task_id (v_state v)"
  "s_user_request (v_state (finish_run c v)) = s_user_request (v_state v)"
  "s_status (v_state (finish_run c v)) = TASK_COMPLETED"
  "s_final_output (v_state (finish_run c v)) =
     map_option (\<lambda>r. rc_str c (r_output r)) (final_output_result (rc_plan c) (s_results (v_state v)))"
  by (simp_all add: finish_run_def Let_def)

lemma finish_run_inv: "sched_inv c out st (finish_run c v) = sched_inv c out st v"
  unfolding sched_inv_def inv_sets_def inv_ready_def inv_branches_def inv_outcomes_def
    completed_def skipped_def flights_def computed_def agrees_def same_task_def
  by (simp only: finish_run_sel)

lemma ready_exists:
  assumes p: "ordered_plan (rc_plan c)" and inv: "sched_inv c out st v"
    and "v_flight v = []" and "v_pending v \<noteq> []"
  shows "\<exists>i \<in> set (v_pending v). i \<in> set (p_sorted_node_ids (rc_plan c)) \<and>
    deps (rc_plan c) i \<subseteq> has_result (v_state v)"
proof -
  note D = inv_setsD [OF sched_invD(1) [OF inv]]
  let ?ids = "p_sorted_node_ids (rc_plan c)"
  have ids: "set ?ids = set (node_ids (rc_plan c))" using ordered_planD(3) [OF p] .
  have all: "set (v_pending v) \<union> has_result (v_state v) = set ?ids"
    using D(5) assms(3) ids by (simp add: flights_def)
  obtain j where "j \<in> set (v_pending v)" using assms(4) by (meson last_in_set)
  with all have "\<exists>i \<in> set ?ids. i \<in> set (v_pending v)" by blast
  then obtain ys i zs where split: "?ids = ys @ i # zs" and i: "i \<in> set (v_pending v)"
    and first: "\<forall>y \<in> set ys. y \<notin> set (v_pending v)"
    using split_list_first_prop [of ?ids "\<lambda>i. i \<in> set (v_pending v)"] by blast
  have "deps (rc_plan c) i \<subseteq> set ys" by (rule deps_before [OF p split])
  also have "set ys \<subseteq> has_result (v_state v)" using all first split by (auto simp: subset_iff)
  finally show ?thesis using i split by auto
qed

lemma pass_flight_grows:
  assumes "dispatch_pass c is v d = Inr (v', d')"
  shows "length (v_flight v) \<le> length (v_flight v')"
  using pass_rule [where P = "\<lambda>u _. length (v_flight v) \<le> length (v_flight u)", OF assms] by simp

lemma turn_inv:
  assumes "ordered_plan (rc_plan c)" and "sched_inv c out st v"
  shows "run_inv c out st (turn c v)"
  using assms
proof (induction c v rule: turn.induct)
  case (1 c v)
  note p = "1.prems"(1) and inv = "1.prems"(2)
  let ?ids = "p_sorted_node_ids (rc_plan c)"
  show ?case
  proof (cases "v_pending v = [] \<and> v_flight v = []")
    case True
    then have "has_result (v_state v) = set (node_ids (rc_plan c))"
      using inv_setsD(5) [OF sched_invD(1) [OF inv]] by (simp add: flights_def)
    with True inv show ?thesis
      by (simp add: turn.simps [of c v] run_inv_def finish_run_inv)
  next
    case False
    obtain v' d where pass: "dispatch_pass c ?ids v False = Inr (v', d)"
      using pass_total [of ?ids c v False] ordered_planD(3) [OF p] by auto
    have inv': "sched_inv c out st v'" by (rule pass_inv [OF pass p inv])
    show ?thesis
    proof (cases "v_flight v' = []")
      case idle: True
      have moves: "\<not> (v_pending v' \<noteq> [] \<and> \<not> d)"
      proof
        assume stuck: "v_pending v' \<noteq> [] \<and> \<not> d"
        have "v_flight v = []" using pass_flight_grows [OF pass] idle by simp
        then have "v_state v' = v_state v"
          "\<forall>i \<in> set ?ids \<inter> set (v_pending v'). \<not> deps (rc_plan c) i \<subseteq> has_result (v_state v)"
          using pass_idle [of c ?ids v v'] pass stuck by auto
        with ready_exists [OF p inv' idle] stuck show False by auto
      qed
      have "turn c v = turn c v'" using False pass idle moves by (subst turn.simps) auto
      with "1.IH"(1) [OF False pass refl idle moves p inv'] show ?thesis by simp
    next
      case busy: False
      show ?thesis
      proof (cases "d \<and> length (v_flight v') < max_concurrent c")
        case True
        have "turn c v = turn c v'" using False pass busy True by (subst turn.simps) auto
        with "1.IH"(2) [OF False pass refl busy True p inv'] show ?thesis by simp
      next
        case wait: False
        have "turn c v = Waiting v'" using False pass busy wait by (subst turn.simps) auto
        with inv' busy show ?thesis by (simp add: run_inv_def)
      qed
    qed
  qed
qed

definition fresh_task :: "plan \<Rightarrow> exec_state \<Rightarrow> bool" where
  "fresh_task p st \<longleftrightarrow> s_plan st = Some p \<and> s_results st = [] \<and> s_completed_nodes st = [] \<and>
     s_skipped_nodes st = []"

lemma start_inv:
  assumes "ordered_plan (rc_plan c)" and "fresh_task (rc_plan c) st"
  shows "run_inv c out st (start_run c st)"
proof -
  let ?v = "\<lparr>v_pending = remdups (p_sorted_node_ids (rc_plan c)), v_flight = [],
              v_state = st\<lparr>s_status := EXECUTING\<rparr>, v_events = []\<rparr>"
  have "sched_inv c out st ?v"
    using assms ordered_planD(3) [OF assms(1)]
    by (auto simp: sched_inv_def inv_sets_def inv_ready_def inv_branches_def inv_outcomes_def
        fresh_task_def completed_def skipped_def flights_def same_task_def excludes_def)
  then show ?thesis
    using turn_inv [OF assms(1)] assms(2) by (simp add: start_run_def fresh_task_def Let_def)
qed

lemma step_inv:
  assumes "ordered_plan (rc_plan c)" and "step c out x y" and "run_inv c out st x"
  shows "run_inv c out st y"
  using assms(2,3)
proof (cases rule: step.cases)
  case (task_starts v i n)
  let ?v = "emit c (NodeStarted i (n_type n) (select_tier (rc_settings c) n) (node_path (rc_prefix c) i)) v"
  from task_starts assms(3) have "sched_inv c out st ?v" "map_of (v_flight ?v) i = Some Queued"
    by (simp_all add: run_inv_def sched_inv_events [of ?v v])
  then have "sched_inv c out st (set_flight i (Running (v_state v)) ?v)"
    by (intro set_flight_inv) (auto simp: agrees_def)
  then show ?thesis using task_starts by (auto simp: run_inv_def)
next
  case (task_ends v i st0 n evs r)
  let ?v = "v\<lparr>v_events := v_events v @ evs\<rparr>"
  from task_ends assms(3) have "sched_inv c out st ?v" by (simp add: run_inv_def sched_inv_events [of ?v v])
  then have "sched_inv c out st (set_flight i (Ended None) (record_node c n r ?v))"
    by (rule task_end_inv [OF assms(1)]) (use task_ends in simp_all)
  then show ?thesis using task_ends by (simp add: run_inv_def update_nonempty)
next
  case (task_raises v i st0 n evs e)
  let ?v = "v\<lparr>v_events := v_events v @ evs\<rparr>"
  from task_raises assms(3) have "sched_inv c out st ?v" by (simp add: run_inv_def sched_inv_events [of ?v v])
  then have "sched_inv c out st (set_flight i (Ended (Some e)) ?v)"
    by (rule set_flight_inv) (use task_raises in auto)
  then show ?thesis using task_raises by (auto simp: run_inv_def)
next
  case (wakes v)
  from wakes assms(3) have "sched_inv c out st v" by (simp add: run_inv_def)
  then show ?thesis using wakes(2) turn_inv [OF assms(1) reap_inv] by simp
next
  case (wakes_raising i e v)
  then show ?thesis using assms(3) by (simp add: run_inv_def)
qed

lemma reachable_inv:
  assumes "ordered_plan (rc_plan c)" and "fresh_task (rc_plan c) st" and "reachable c out st x"
  shows "run_inv c out st x"
  using assms(3) by (induction rule: reachable.induct) (simp_all add: start_inv step_inv assms)

section \<open>Progress and termination\<close>

text \<open>How much a waiting run still has to do.\<close>

fun flight_weight :: "flight \<Rightarrow> nat" where
  "flight_weight Queued = 3"
| "flight_weight (Running _) = 2"
| "flight_weight (Ended _) = 1"

definition load :: "sched \<Rightarrow> nat" where
  "load v = 4 * length (v_pending v) + sum_list (map (flight_weight \<circ> snd) (v_flight v))"

fun remaining :: "run_state \<Rightarrow> nat" where
  "remaining (Waiting v) = Suc (load v)"
| "remaining _ = 0"

lemma load_drop: "i \<in> set (v_pending v) \<Longrightarrow> load (drop_pending i v) + 4 \<le> load v"
  using filter_shrinks [of i "v_pending v"] by (simp add: load_def)

lemma pass_load:
  assumes "dispatch_pass c is v d = Inr (v', d')"
  shows "load v' \<le> load v"
proof (rule pass_rule [where P = "\<lambda>u _. load u \<le> load v", OF assms])
  fix i n ds and u :: sched and e :: bool
  assume le: "load u \<le> load v" and mem: "i \<in> set (v_pending u)"
  note less = load_drop [OF mem]
  show "load (drop_pending i u) \<le> load v" using le less by simp
  have "load (record_skipped c i (drop_pending i u)) = load (drop_pending i u)" by (simp add: load_def)
  then show "load (record_skipped c i (drop_pending i u)) \<le> load v" using le less by simp
  have "load (launch i u) = load (drop_pending i u) + 3" by (simp add: load_def)
  then show "load (launch i u) \<le> load v" using le less by simp
qed simp

lemma turn_load: "remaining (turn c v) \<le> Suc (load v)"
proof (induction c v rule: turn.induct)
  case (1 c v)
  let ?pass = "dispatch_pass c (p_sorted_node_ids (rc_plan c)) v False"
  show ?case
  proof (cases "v_pending v = [] \<and> v_flight v = []")
    case True
    then show ?thesis by (simp add: turn.simps [of c v])
  next
    case False
    show ?thesis
    proof (cases ?pass)
      case (Inl e)
      with False show ?thesis by (subst turn.simps) auto
    next
      case (Inr r)
      obtain v' d where r: "r = (v', d)" by (cases r)
      note pass = Inr [unfolded r]
      consider (stuck) "v_flight v' = []" "v_pending v' \<noteq> [] \<and> \<not> d"
        | (idle) "v_flight v' = []" "\<not> (v_pending v' \<noteq> [] \<and> \<not> d)"
        | (busy) "v_flight v' \<noteq> []" "d \<and> length (v_flight v') < max_concurrent c"
        | (wait) "v_flight v' \<noteq> []" "\<not> (d \<and> length (v_flight v') < max_concurrent c)"
        by blast
      then show ?thesis
      proof cases
        case stuck
        with False pass show ?thesis by (subst turn.simps) auto
      next
        case idle
        then have "turn c v = turn c v'" using False pass by (subst turn.simps) auto
        with "1.IH"(1) [OF False pass refl idle] pass_load [OF pass] show ?thesis by simp
      next
        case busy
        then have "turn c v = turn c v'" using False pass by (subst turn.simps) auto
        with "1.IH"(2) [OF False pass refl busy] pass_load [OF pass] show ?thesis by simp
      next
        case wait
        then have "turn c v = Waiting v'" using False pass by (subst turn.simps) auto
        with pass_load [OF pass] show ?thesis by simp
      qed
    qed
  qed
qed

lemma weight_update:
  "map_of xs k = Some f0 \<Longrightarrow>
     sum_list (map (flight_weight \<circ> snd) (AList.update k f xs)) + flight_weight f0 =
     sum_list (map (flight_weight \<circ> snd) xs) + flight_weight f"
  by (induction xs) (auto split: if_splits)

lemma load_set_flight:
  "map_of (v_flight v) i = Some f0 \<Longrightarrow>
     load (set_flight i f v) + flight_weight f0 = load v + flight_weight f"
  using weight_update [of "v_flight v" i f0 f] by (simp add: load_def)

lemma record_node_queues [simp]:
  "v_pending (record_node c n r0 v) = v_pending v" "v_flight (record_node c n r0 v) = v_flight v"
  by (simp_all add: record_node_def Let_def)

lemma load_cong: "v_pending v' = v_pending v \<Longrightarrow> v_flight v' = v_flight v \<Longrightarrow> load v' = load v"
  by (simp add: load_def)

lemma weight_reap:
  "(i, Ended None) \<in> set xs \<Longrightarrow>
     sum_list (map (flight_weight \<circ> snd) (filter (\<lambda>(i, f). f \<noteq> Ended None) xs)) <
     sum_list (map (flight_weight \<circ> snd) xs)"
proof (induction xs)
  case (Cons x xs)
  note le = sum_list_filter_le_nat [of "\<lambda>a. flight_weight (snd a)" "\<lambda>(i, f). f \<noteq> Ended None" xs]
  with Cons show ?case by (cases x) (auto simp: le_imp_less_Suc)
qed simp

lemma step_decreases:
  assumes "step c out x y"
  shows "remaining y < remaining x"
  using assms
proof (cases rule: step.cases)
  case (task_starts v i n)
  let ?v = "emit c (NodeStarted i (n_type n) (select_tier (rc_settings c) n) (node_path (rc_prefix c) i)) v"
  have "load ?v = load v" by (rule load_cong) simp_all
  with task_starts load_set_flight [of ?v i Queued "Running (v_state v)"] show ?thesis by simp
next
  case (task_ends v i st0 n evs r)
  let ?v = "record_node c n r (v\<lparr>v_events := v_events v @ evs\<rparr>)"
  have "load ?v = load v" by (rule load_cong) simp_all
  with task_ends load_set_flight [of ?v i "Running st0" "Ended None"] show ?thesis by simp
next
  case (task_raises v i st0 n evs e)
  let ?v = "v\<lparr>v_events := v_events v @ evs\<rparr>"
  have "load ?v = load v" by (rule load_cong) simp_all
  with task_raises load_set_flight [of ?v i "Running st0" "Ended (Some e)"] show ?thesis by simp
next
  case (wakes v)
  let ?v = "v\<lparr>v_flight := filter (\<lambda>(i, f). f \<noteq> Ended None) (v_flight v)\<rparr>"
  from wakes(3) weight_reap have "load ?v < load v" by (auto simp: load_def)
  with wakes turn_load [of c ?v] show ?thesis by simp
qed simp_all

lemma steps_bounded: "(step c out ^^ k) x y \<Longrightarrow> k + remaining y \<le> remaining x"
proof (induction k arbitrary: y)
  case (Suc k)
  then obtain z where "(step c out ^^ k) x z" "step c out z y" by auto
  with Suc.IH [of z] step_decreases [of c out z y] show ?case by simp
qed simp

lemma waiting_steps:
  assumes "run_inv c out st (Waiting v)"
    and total: "\<And>st0 n. n \<in> set (p_nodes (rc_plan c)) \<Longrightarrow> \<exists>evs r. out st0 n evs r"
  shows "\<exists>y. step c out (Waiting v) y"
proof -
  from assms(1) have inv: "sched_inv c out st v" and "v_flight v \<noteq> []" by (auto simp: run_inv_def)
  note D = inv_setsD [OF sched_invD(1) [OF inv]]
  obtain i f where mem: "(i, f) \<in> set (v_flight v)" using \<open>v_flight v \<noteq> []\<close> by (cases "v_flight v") auto
  then have look: "map_of (v_flight v) i = Some f" using D(2) by simp
  have "i \<in> set (node_ids (rc_plan c))" using D(5) mem by (force simp: flights_def)
  then obtain n where n: "node_map (rc_plan c) i = Some n" using node_map_ex by blast
  show ?thesis
  proof (cases f)
    case Queued
    with look n show ?thesis using task_starts by blast
  next
    case (Running st0)
    obtain evs r where "out st0 n evs r" using total node_map_Some [OF n] by blast
    with look n Running show ?thesis by (cases r) (blast intro: task_raises task_ends)+
  next
    case (Ended e)
    with mem show ?thesis by (cases e) (metis wakes wakes_raising)+
  qed
qed

end
