(* ===== verification/ScheduleProperties.thy ===== *)
theory ScheduleProperties
  imports ScheduleInvariants
begin

text \<open>
  The properties of the scheduler: branch exclusion, dependency order, progress and a bound on the
  number of steps, the shape of a finished run, and independence of the results from the order in
  which tasks happen to finish and from the concurrency limit.
\<close>

section \<open>Determinism\<close>

text \<open>
  A node's outcome is contextual when it depends only on the results the node declares, the plan
  and the request: what \<open>assemble_context\<close> shows the node.
\<close>

definition contextual :: "outcome \<Rightarrow> bool" where
  "contextual out \<longleftrightarrow>
     (\<forall>st0 st1 n evs evs' r r'. out st0 n evs r \<and> out st1 n evs' r' \<and> same_task st0 st1 \<and>
        (\<forall>d \<in> set (n_context_needed n). result_of st0 d = result_of st1 d) \<longrightarrow> r = r')"

lemma contextualD:
  assumes "contextual out" and "out st0 n evs r" and "out st1 n evs' r'" and "same_task st0 st1"
    and "\<And>d. d \<in> set (n_context_needed n) \<Longrightarrow> result_of st0 d = result_of st1 d"
  shows "r = r'"
  using assms unfolding contextual_def by blast

lemma skip_reason_cong:
  assumes p: "ordered_plan p" and i: "i \<in> set (node_ids p)"
    and same: "\<And>d. d \<in> deps p i \<Longrightarrow> map_of rs d = map_of rs' d"
  shows "skip_reason p rs i = skip_reason p rs' i"
proof -
  have excl: "excludes p qs' i" if "excludes p qs i" and "\<And>d. d \<in> deps p i \<Longrightarrow> map_of qs d = map_of qs' d"
    for qs qs'
    using that excluded_dep [OF p] i unfolding excludes_def by metis
  have dom: "deps p i \<subseteq> dom (map_of rs) \<longleftrightarrow> deps p i \<subseteq> dom (map_of rs')"
    using same by (auto simp: subset_iff domIff)
  have only: "only_uses_skipped False p n rs = only_uses_skipped False p n rs'"
    if "node_map p i = Some n" for n
    using same content_deps [OF p that] by (intro only_uses_skipped_cong) blast
  show ?thesis
    using excl [of rs rs'] excl [of rs' rs] same dom only unfolding skip_reason_def by metis
qed

lemma completed_no_reason:
  assumes "sched_inv c out st v" and "i \<in> completed v" and "i \<in> set (node_ids (rc_plan c))"
  shows "\<not> skip_reason (rc_plan c) (s_results (v_state v)) i"
proof -
  have "i \<notin> skipped v" using inv_setsD(7) [OF sched_invD(1) [OF assms(1)]] assms(2) by blast
  then have "\<not> excludes (rc_plan c) (s_results (v_state v)) i"
    using sched_invD(3) [OF assms(1)] assms(3) unfolding inv_branches_def by blast
  moreover have "runnable (rc_plan c) (s_results (v_state v)) i"
    using sched_invD(2) [OF assms(1)] assms(2) unfolding inv_ready_def by blast
  ultimately show ?thesis unfolding skip_reason_def runnable_def by blast
qed

lemma returned_results_unique:
  assumes p: "ordered_plan (rc_plan c)"
    and ctx: "contextual out" and plan: "rc_plan c' = rc_plan c"
    and fin: "\<And>n r. finalize_result (rc_settings c') n r = finalize_result (rc_settings c) n r"
    and inv: "run_inv c out st (Returned v)" and inv': "run_inv c' out st (Returned v')"
  shows "result_of (v_state v) = result_of (v_state v')"
proof -
  let ?p = "rc_plan c" and ?R = "result_of (v_state v)" and ?R' = "result_of (v_state v')"
  from inv have I: "sched_inv c out st v" and all: "has_result (v_state v) = set (node_ids ?p)"
    by (auto simp: run_inv_def)
  from inv' plan have I': "sched_inv c' out st v'" and all': "has_result (v_state v') = set (node_ids ?p)"
    by (auto simp: run_inv_def)
  have step: "?R i = ?R' i" if i: "i \<in> set (node_ids ?p)" and deps: "\<And>d. d \<in> deps ?p i \<Longrightarrow> ?R d = ?R' d" for i
  proof -
    have reason: "skip_reason ?p (s_results (v_state v)) i = skip_reason ?p (s_results (v_state v')) i"
      by (rule skip_reason_cong [OF p i deps])
    have split: "i \<in> completed v \<or> i \<in> skipped v" "i \<in> completed v' \<or> i \<in> skipped v'"
      using i all all' inv_setsD(6) [OF sched_invD(1) [OF I]] inv_setsD(6) [OF sched_invD(1) [OF I']] by auto
    have skip: "i \<in> skipped v \<Longrightarrow> ?R i = Some (mk_result i SKIPPED) \<and> skip_reason ?p (s_results (v_state v)) i"
      "i \<in> skipped v' \<Longrightarrow> ?R' i = Some (mk_result i SKIPPED) \<and> skip_reason ?p (s_results (v_state v')) i"
      using sched_invD(3) [OF I] sched_invD(3) [OF I'] plan by (auto simp: inv_branches_def)
    have no: "i \<in> completed v \<Longrightarrow> \<not> skip_reason ?p (s_results (v_state v)) i"
      "i \<in> completed v' \<Longrightarrow> \<not> skip_reason ?p (s_results (v_state v')) i"
      using completed_no_reason [OF I _ i] completed_no_reason [OF I', of i] i plan by auto
    show ?thesis
    proof (cases "i \<in> completed v")
      case False
      with split skip no reason show ?thesis by metis
    next
      case True
      with split skip no reason have "i \<in> completed v'" by blast
      with True I I' obtain r r' where r: "?R i = Some r" "computed c out (v_state v) i r"
        and r': "?R' i = Some r'" "computed c' out (v_state v') i r'"
        unfolding sched_inv_def inv_outcomes_def by meson
      obtain n st0 evs r0 where n: "node_map ?p i = Some n" and o0: "out st0 n evs (Inr r0)"
        and r_eq: "r = finalize_result (rc_settings c) n r0" and a0: "agrees ?p st0 (v_state v) i"
        using r(2) unfolding computed_def by blast
      obtain n' st1 evs' r1 where n': "node_map ?p i = Some n'" and o1: "out st1 n' evs' (Inr r1)"
        and r'_eq: "r' = finalize_result (rc_settings c') n' r1" and a1: "agrees ?p st1 (v_state v') i"
        using r'(2) unfolding computed_def plan by blast
      have [simp]: "n' = n" using n n' by simp
      have "result_of st0 d = result_of st1 d" if "d \<in> set (n_context_needed n)" for d
        using that context_deps [OF n] a0 a1 deps unfolding agrees_def by (metis subsetD)
      moreover have "same_task st0 st1"
        using a0 a1 sched_invD(5) [OF I] sched_invD(5) [OF I'] by (simp add: agrees_def same_task_def)
      ultimately have "(Inr r0 :: string + node_result) = Inr r1"
        using contextualD [OF ctx o0 o1 [unfolded \<open>n' = n\<close>]] by blast
      then show ?thesis using r r' r_eq r'_eq fin by simp
    qed
  qed
  have "\<forall>i \<in> set ys. ?R i = ?R' i" if "p_sorted_node_ids ?p = ys @ zs" for ys zs
    using that
  proof (induction ys arbitrary: zs rule: rev_induct)
    case (snoc i ys)
    then have "\<forall>d \<in> set ys. ?R d = ?R' d" by simp
    moreover have "deps ?p i \<subseteq> set ys" using deps_before [OF p, of ys i zs] snoc.prems by simp
    moreover have "i \<in> set (node_ids ?p)" using snoc.prems ordered_planD(3) [OF p] by (metis UnCI append.assoc in_set_conv_decomp set_append)
    ultimately have "?R i = ?R' i" using step by blast
    with \<open>\<forall>d \<in> set ys. ?R d = ?R' d\<close> show ?case by simp
  qed simp
  then have "?R i = ?R' i" if "i \<in> set (node_ids ?p)" for i
    using that ordered_planD(3) [OF p] by (metis append_Nil2)
  moreover have "?R i = ?R' i" if "i \<notin> set (node_ids ?p)" for i
    using that all all' by (metis domIff)
  ultimately show ?thesis by blast
qed

lemma final_output_cong:
  "map_of rs = map_of rs' \<Longrightarrow> final_output_result p rs = final_output_result p rs'"
proof -
  assume same: "map_of rs = map_of rs'"
  have only: "only_uses_skipped True p n rs = only_uses_skipped True p n rs'" for n
    using same by (intro only_uses_skipped_cong) simp
  have "final_candidate p rs t i = final_candidate p rs' t i" for t i
    unfolding final_candidate_def only same ..
  then have "final_candidate p rs = final_candidate p rs'" by (intro ext)
  then show ?thesis by (simp add: final_output_result_def)
qed

section \<open>Reading a run state\<close>

fun sched_of :: "run_state \<Rightarrow> sched" where
  "sched_of (Waiting v) = v"
| "sched_of (Returned v) = v"
| "sched_of (Raised e v) = v"

lemma reachable_sched:
  "ordered_plan (rc_plan c) \<Longrightarrow> fresh_task (rc_plan c) st \<Longrightarrow> reachable c out st x \<Longrightarrow>
     sched_inv c out st (sched_of x)"
  using reachable_inv [of c st out x] by (cases x) (auto simp: run_inv_def)

lemma reachable_rtrancl: "reachable c out st x \<longleftrightarrow> (step c out)\<^sup>*\<^sup>* (start_run c st) x"
proof
  show "reachable c out st x \<Longrightarrow> (step c out)\<^sup>*\<^sup>* (start_run c st) x"
    by (induction rule: reachable.induct) (auto intro: rtranclp.rtrancl_into_rtrancl)
  show "(step c out)\<^sup>*\<^sup>* (start_run c st) x \<Longrightarrow> reachable c out st x"
    by (induction rule: rtranclp_induct) (auto intro: reach_start reach_step)
qed

lemma runs_to_the_end:
  assumes "ordered_plan (rc_plan c)" and "fresh_task (rc_plan c) st"
    and total: "\<And>st0 n. n \<in> set (p_nodes (rc_plan c)) \<Longrightarrow> \<exists>evs r. out st0 n evs r"
  shows "reachable c out st x \<Longrightarrow> \<exists>y. (step c out)\<^sup>*\<^sup>* x y \<and> (\<forall>v. y \<noteq> Waiting v)"
proof (induction "remaining x" arbitrary: x rule: less_induct)
  case less
  show ?case
  proof (cases x)
    case (Waiting v)
    then have "run_inv c out st (Waiting v)" using reachable_inv [OF assms(1,2)] less.prems by blast
    then obtain y where y: "step c out x y" using waiting_steps [of c out st v] total Waiting by blast
    with less.hyps [OF step_decreases [OF y] reach_step [OF less.prems y]] show ?thesis
      by (meson converse_rtranclp_into_rtranclp)
  qed auto
qed

lemma run_finishes:
  assumes "ordered_plan (rc_plan c)" and "fresh_task (rc_plan c) st"
    and "\<And>st0 n. n \<in> set (p_nodes (rc_plan c)) \<Longrightarrow> \<exists>evs r. out st0 n evs r"
    and x: "reachable c out st x"
  shows "\<exists>y. (step c out)\<^sup>*\<^sup>* x y \<and> reachable c out st y \<and>
    ((\<exists>v. y = Returned v) \<or> (\<exists>i m v. y = Raised (NodeRaised i m) v))"
proof -
  obtain y where y: "(step c out)\<^sup>*\<^sup>* x y" "\<forall>v. y \<noteq> Waiting v"
    using runs_to_the_end [OF assms(1,2), of out x] assms(3) x by blast
  then have r: "reachable c out st y" using x unfolding reachable_rtrancl by (meson rtranclp_trans)
  then have "run_inv c out st y" by (rule reachable_inv [OF assms(1,2)])
  with y(2) have "(\<exists>v. y = Returned v) \<or> (\<exists>i m v. y = Raised (NodeRaised i m) v)"
    by (cases y) (auto simp: run_inv_def)
  with y(1) r show ?thesis by blast
qed

lemma start_remaining: "remaining (start_run c st) \<le> Suc (4 * length (p_sorted_node_ids (rc_plan c)))"
proof -
  let ?v = "\<lparr>v_pending = remdups (p_sorted_node_ids (rc_plan c)), v_flight = [],
              v_state = st\<lparr>s_status := EXECUTING\<rparr>, v_events = []\<rparr>"
  have "load ?v \<le> 4 * length (p_sorted_node_ids (rc_plan c))" by (simp add: load_def)
  with turn_load [of c ?v] show ?thesis by (simp add: start_run_def Let_def)
qed

section \<open>A sample run\<close>

declare dom_map_of_conv_image_fst [code_unfold]

text \<open>A decision with two branches and a result that joins them, driven one task at a time.\<close>

definition sample_plan :: plan where
  "sample_plan =
     Plan [Node 1 DECISION ''d'' None None [] (Some ''c'') (Some [(''yes'', [2]), (''no'', [3])])
             (Some ''no'') False None None None,
           mk_node 2 SYNTHESIS ''a'' [1], mk_node 3 SYNTHESIS ''b'' [1], mk_node 4 RESULT ''r'' [2, 3]]
       [1, 2, 3, 4]"

definition sample_settings :: settings where
  "sample_settings =
     default_settings
       \<lparr>pr_planner = [], pr_decision = [], pr_extract_args = [], pr_think = [], pr_synthesis = [],
        pr_summary = [], pr_summary_concise = [], pr_summary_verbose = [], pr_result = [],
        pr_shape_check = []\<rparr>"

definition sample_ctx :: run_ctx where
  "sample_ctx =
     \<lparr>rc_plan = sample_plan, rc_settings = sample_settings, rc_emit = False, rc_scope = None, rc_prefix = [],
      rc_emit_completed = True, rc_str = (\<lambda>v. case v of JStr t \<Rightarrow> t | _ \<Rightarrow> [])\<rparr>"

definition sample_state :: exec_state where
  "sample_state = new_state ''t'' ''q'' (Some sample_plan)"

lemma sample_ordered: "ordered_plan sample_plan"
  by (simp add: ordered_plan_def sample_plan_def topo_sort_def check_refs_def kahn_order_def
      initial_queue_def plan_edges_def node_edges_def mk_node_def node_ids_def control_targets_def
      branch_targets_def branch_list_def in_degree_def successors_def)

lemma sample_fresh: "fresh_task (rc_plan sample_ctx) sample_state"
  by (simp add: fresh_task_def sample_ctx_def sample_state_def new_state_def)

lemmas sample_defs =
  sample_ctx_def sample_settings_def default_settings_def sample_plan_def mk_node_def
  max_concurrent_def node_map_def dependency_map_def control_targets_def branch_targets_def
  branch_list_def only_uses_skipped_def content_dependencies_def

text \<open>
  A driver that starts and ends the first unfinished task, and wakes the loop when all in flight
  have ended: one of the runs the step relation allows.
\<close>

definition unfinished :: "node_id \<times> flight \<Rightarrow> bool" where
  "unfinished x = (case snd x of Ended _ \<Rightarrow> False | _ \<Rightarrow> True)"

definition raised :: "node_id \<times> flight \<Rightarrow> bool" where
  "raised x = (case snd x of Ended (Some _) \<Rightarrow> True | _ \<Rightarrow> False)"

definition one_step :: "run_ctx \<Rightarrow> (exec_state \<Rightarrow> node \<Rightarrow> string + node_result) \<Rightarrow> sched \<Rightarrow> run_state" where
  "one_step c f v =
     (case find unfinished (v_flight v) of
        Some (i, Running st0) \<Rightarrow>
          (let n = the (node_map (rc_plan c) i)
           in case f st0 n of
                Inr r \<Rightarrow>
                  Waiting (set_flight i (Ended None)
                    (record_node c n r (v\<lparr>v_events := v_events v @ []\<rparr>)))
              | Inl e \<Rightarrow>
                  Waiting (set_flight i (Ended (Some e)) (v\<lparr>v_events := v_events v @ []\<rparr>)))
      | Some (i, _) \<Rightarrow>
          (let n = the (node_map (rc_plan c) i)
           in Waiting (set_flight i (Running (v_state v))
                (emit c (NodeStarted i (n_type n) (select_tier (rc_settings c) n)
                   (node_path (rc_prefix c) i)) v)))
      | None \<Rightarrow>
          (case find raised (v_flight v) of
             Some (i, Ended (Some e)) \<Rightarrow> Raised (NodeRaised i e) v
           | _ \<Rightarrow> turn c (v\<lparr>v_flight := filter (\<lambda>(i, g). g \<noteq> Ended None) (v_flight v)\<rparr>)))"

fun drive ::
  "run_ctx \<Rightarrow> (exec_state \<Rightarrow> node \<Rightarrow> string + node_result) \<Rightarrow> nat \<Rightarrow> run_state \<Rightarrow> run_state"
where
  "drive c f (Suc k) (Waiting v) = drive c f k (one_step c f v)"
| "drive c f k x = x"

definition out_of :: "(exec_state \<Rightarrow> node \<Rightarrow> string + node_result) \<Rightarrow> outcome" where
  "out_of f st n evs r \<longleftrightarrow> evs = [] \<and> r = f st n"

lemma find_flight:
  "find P xs = Some x \<Longrightarrow> x \<in> set xs \<and> P x" "find P xs = None \<Longrightarrow> \<forall>x \<in> set xs. \<not> P x"
  by (auto simp: find_Some_iff find_None_iff)

lemma one_step_allowed:
  assumes "run_inv c out st (Waiting v)"
  shows "step c (out_of f) (Waiting v) (one_step c f v)"
proof -
  from assms have inv: "sched_inv c out st v" and ne: "v_flight v \<noteq> []" by (auto simp: run_inv_def)
  note D = inv_setsD [OF sched_invD(1) [OF inv]]
  show ?thesis
  proof (cases "find unfinished (v_flight v)")
    case None
    then have ended: "\<exists>e. f = Ended e" if "(i, f) \<in> set (v_flight v)" for i f
      using that find_flight(2) [OF None] by (cases f) (auto simp: unfinished_def)
    show ?thesis
    proof (cases "find raised (v_flight v)")
      case (Some x)
      then obtain i e where "x = (i, Ended (Some e))" "x \<in> set (v_flight v)"
        using find_flight(1) [OF Some] by (cases x) (auto simp: raised_def split: flight.splits option.splits)
      with None Some show ?thesis by (simp add: one_step_def wakes_raising)
    next
      case noraise: None
      then have "\<forall>i e. (i, Ended (Some e)) \<notin> set (v_flight v)"
        using find_flight(2) [OF noraise] by (fastforce simp: raised_def)
      moreover obtain i g where "(i, g) \<in> set (v_flight v)" using ne by (cases "v_flight v") auto
      then obtain e where "(i, Ended e) \<in> set (v_flight v)" using ended by blast
      ultimately have "(i, Ended None) \<in> set (v_flight v)" by (cases e) auto
      with \<open>\<forall>i e. (i, Ended (Some e)) \<notin> set (v_flight v)\<close> None noraise show ?thesis
        by (auto simp: one_step_def intro: wakes)
    qed
  next
    case (Some x)
    obtain i g where x: "x = (i, g)" by (cases x)
    have mem: "(i, g) \<in> set (v_flight v)" and un: "unfinished (i, g)" using find_flight(1) [OF Some] x by auto
    have look: "map_of (v_flight v) i = Some g" using mem D(2) by simp
    have "i \<in> set (node_ids (rc_plan c))" using D(5) mem by (force simp: flights_def)
    then obtain n where n: "node_map (rc_plan c) i = Some n" using node_map_ex by blast
    show ?thesis
    proof (cases g)
      case Queued
      with Some x n look task_starts [OF _ n, of v "out_of f"] show ?thesis by (simp add: one_step_def)
    next
      case (Running st0)
      show ?thesis
      proof (cases "f st0 n")
        case (Inl e)
        with Some x n look Running task_raises [OF _ n, of v st0 "out_of f" "[]" e]
        show ?thesis by (simp add: one_step_def out_of_def)
      next
        case (Inr r)
        with Some x n look Running task_ends [OF _ n, of v st0 "out_of f" "[]" r]
        show ?thesis by (simp add: one_step_def out_of_def)
      qed
    next
      case (Ended e)
      with un show ?thesis by (simp add: unfinished_def)
    qed
  qed
qed

lemma drive_reachable:
  assumes "ordered_plan (rc_plan c)" and "fresh_task (rc_plan c) st"
    and "reachable c (out_of f) st x"
  shows "reachable c (out_of f) st (drive c f k x)"
  using assms
proof (induction c f k x rule: drive.induct)
  case (1 c f k v)
  have "run_inv c (out_of f) st (Waiting v)" using reachable_inv 1 by blast
  then have "step c (out_of f) (Waiting v) (one_step c f v)" by (rule one_step_allowed)
  with 1 show ?case by (simp add: reach_step)
qed simp_all

definition sample_result :: "exec_state \<Rightarrow> node \<Rightarrow> string + node_result" where
  "sample_result st n =
     Inr ((mk_result (n_id n) COMPLETED)\<lparr>r_branch_taken :=
       (if n_type n = DECISION then Some ''yes'' else None), r_output := JStr (n_description n)\<rparr>)"

definition sample_end :: run_state where
  "sample_end = drive sample_ctx sample_result 20 (start_run sample_ctx sample_state)"

definition serial_ctx :: run_ctx where
  "serial_ctx = sample_ctx\<lparr>rc_settings := (rc_settings sample_ctx)\<lparr>max_concurrent_nodes := 1\<rparr>\<rparr>"

definition serial_end :: run_state where
  "serial_end = drive serial_ctx sample_result 20 (start_run serial_ctx sample_state)"

lemma sample_ctx_plan [simp]: "rc_plan sample_ctx = sample_plan" "rc_plan serial_ctx = sample_plan"
  by (simp_all add: sample_ctx_def serial_ctx_def)

lemma sample_reachable: "reachable sample_ctx (out_of sample_result) sample_state sample_end"
  unfolding sample_end_def
  by (rule drive_reachable) (simp_all add: sample_ordered sample_fresh [simplified] reach_start)

lemma serial_reachable: "reachable serial_ctx (out_of sample_result) sample_state serial_end"
  unfolding serial_end_def
  by (rule drive_reachable) (simp_all add: sample_ordered sample_fresh [simplified] reach_start)

lemma sample_end_results:
  "(case sample_end of Returned v \<Rightarrow>
     map (\<lambda>(i, r). (i, r_status r, r_branch_taken r)) (s_results (v_state v)) =
       [(1, COMPLETED, Some ''yes''), (3, SKIPPED, None), (2, COMPLETED, None), (4, COMPLETED, None)] \<and>
     s_final_output (v_state v) = Some ''r'' | _ \<Rightarrow> False)"
  by code_simp

lemma serial_end_returned: "case serial_end of Returned v \<Rightarrow> True | _ \<Rightarrow> False"
  by code_simp

lemma sample_returned:
  obtains v where "sample_end = Returned v" and
    "map (\<lambda>(i, r). (i, r_status r, r_branch_taken r)) (s_results (v_state v)) =
       [(1, COMPLETED, Some ''yes''), (3, SKIPPED, None), (2, COMPLETED, None), (4, COMPLETED, None)]"
  using sample_end_results by (auto split: run_state.splits)

lemma sample_contextual: "contextual (out_of sample_result)"
  by (simp add: contextual_def out_of_def sample_result_def)

lemma sample_total: "\<exists>evs r. out_of f st0 n evs r"
  by (simp add: out_of_def)

section \<open>Properties\<close>

text \<open>C3: A node listed in a branch that a decision did not take is never started, in flight or
  completed in any reachable state, whatever the nodes compute and however their tasks interleave:
  its only result is the skipped one.\<close>

theorem untaken_branch_never_runs:
  assumes "ordered_plan (rc_plan c)" and "fresh_task (rc_plan c) st" and "reachable c out st x"
    and "node_map (rc_plan c) d = Some n" and "n_type n = DECISION"
    and "result_of (v_state (sched_of x)) d = Some r" and "r_branch_taken r = Some taken" and "taken \<noteq> []"
    and "(b, ts) \<in> set (branch_list n)" and "b \<noteq> taken" and "t \<in> set ts"
  shows "t \<notin> completed (sched_of x) \<and> t \<notin> flights (sched_of x) \<and>
    result_of (v_state (sched_of x)) t = Some (mk_result t SKIPPED)"
proof -
  note inv = reachable_sched [OF assms(1-3)]
  note sets = sched_invD(1) [OF inv]
  have t: "t \<in> set (excluded_by n (r_branch_taken r))"
    using assms(7-11) by (force simp: excluded_by_def)
  moreover have "t \<in> set (node_ids (rc_plan c))"
    using ordered_planD(5) [OF assms(1)] node_map_Some [OF assms(4)] assms(5) excluded_target [OF t]
    by (auto simp: refs_exist_def control_targets_def)
  ultimately have sk: "t \<in> skipped (sched_of x)"
    using sched_invD(3) [OF inv] assms(4-6) unfolding inv_branches_def excludes_def by blast
  then have no: "t \<notin> completed (sched_of x)" using inv_setsD(7) [OF sets] by blast
  have "t \<in> has_result (v_state (sched_of x))" using sk inv_setsD(6) [OF sets] by blast
  then have "t \<notin> flights (sched_of x)"
    using no flight_status [OF sets] by (fastforce simp: flights_def split: if_splits)
  with no sk sched_invD(3) [OF inv] show ?thesis unfolding inv_branches_def by blast
qed

lemma untaken_branch_never_runs_witness:
  "3 \<notin> completed (sched_of sample_end) \<and> 3 \<notin> flights (sched_of sample_end) \<and>
     result_of (v_state (sched_of sample_end)) 3 = Some (mk_result 3 SKIPPED)"
proof -
  obtain v where v: "sample_end = Returned v" and
    m: "map (\<lambda>(i, r). (i, r_status r, r_branch_taken r)) (s_results (v_state v)) =
       [(1, COMPLETED, Some ''yes''), (3, SKIPPED, None), (2, COMPLETED, None), (4, COMPLETED, None)]"
    by (rule sample_returned)
  from m obtain r where r: "result_of (v_state v) 1 = Some r" "r_branch_taken r = Some ''yes''"
    by (cases "s_results (v_state v)") (auto split: prod.splits)
  have r': "result_of (v_state (sched_of sample_end)) 1 = Some r" unfolding v using r(1) by simp
  have n: "node_map (rc_plan sample_ctx) 1 = Some (p_nodes sample_plan ! 0)"
    "n_type (p_nodes sample_plan ! 0) = DECISION" "(''no'', [3]) \<in> set (branch_list (p_nodes sample_plan ! 0))"
    by (simp_all add: sample_plan_def node_map_def mk_node_def branch_list_def)
  show ?thesis
    using untaken_branch_never_runs [OF _ sample_fresh sample_reachable n(1,2) r' r(2) _ n(3), of 3]
      sample_ordered by simp
qed

text \<open>C4: In every reachable state the completed and skipped nodes are recorded once each, no node
  that is still running has a result, at most \<open>max_concurrent_nodes\<close> tasks (but at least one)
  are in flight, and every node that has been started had a result for the source of each of its
  data and control edges.\<close>

theorem scheduling_order:
  assumes "ordered_plan (rc_plan c)" and "fresh_task (rc_plan c) st" and "reachable c out st x"
    and "v = sched_of x"
  shows "distinct (s_completed_nodes (v_state v) @ s_skipped_nodes (v_state v)) \<and>
    has_result (v_state v) = set (s_completed_nodes (v_state v) @ s_skipped_nodes (v_state v)) \<and>
    (\<forall>(i, f) \<in> set (v_flight v). f \<noteq> Ended None \<longrightarrow> i \<notin> has_result (v_state v)) \<and>
    int (length (v_flight v)) \<le> max 1 (max_concurrent_nodes (rc_settings c)) \<and>
    (\<forall>(u, i) \<in> set (plan_edges (rc_plan c)).
       i \<in> set (s_completed_nodes (v_state v)) \<or> i \<in> fst ` set (v_flight v) \<longrightarrow>
       u \<in> has_result (v_state v))"
proof -
  have inv: "sched_inv c out st v" using reachable_sched [OF assms(1-3)] assms(4) by simp
  note sets = sched_invD(1) [OF inv]
  note D = inv_setsD [OF sets]
  have "u \<in> has_result (v_state v)"
    if e: "(u, i) \<in> set (plan_edges (rc_plan c))" and i: "i \<in> completed v \<or> i \<in> flights v" for u i
  proof -
    have "i \<in> set (node_ids (rc_plan c))" using e plan_edges_within [OF ordered_planD(5) [OF assms(1)]] by auto
    then have "u \<in> deps (rc_plan c) i" using e deps_edges [OF assms(1)] by blast
    then show ?thesis using i sched_invD(2) [OF inv] unfolding inv_ready_def runnable_def by blast
  qed
  then have edges: "\<forall>(u, i) \<in> set (plan_edges (rc_plan c)).
       i \<in> set (s_completed_nodes (v_state v)) \<or> i \<in> fst ` set (v_flight v) \<longrightarrow>
       u \<in> has_result (v_state v)"
    unfolding completed_def flights_def by blast
  have running: "\<forall>(i, f) \<in> set (v_flight v). f \<noteq> Ended None \<longrightarrow> i \<notin> has_result (v_state v)"
    using flight_status [OF sets] by fastforce
  have limit: "int (length (v_flight v)) \<le> max 1 (max_concurrent_nodes (rc_settings c))"
    using D(10) unfolding max_concurrent_def by linarith
  have once: "distinct (s_completed_nodes (v_state v) @ s_skipped_nodes (v_state v))"
    "has_result (v_state v) = set (s_completed_nodes (v_state v) @ s_skipped_nodes (v_state v))"
    using D(3,4,6,7) by (simp_all add: completed_def skipped_def)
  show ?thesis by (intro conjI once running limit edges)
qed

lemma scheduling_order_witness:
  "distinct (s_completed_nodes (v_state (sched_of sample_end)) @ s_skipped_nodes (v_state (sched_of sample_end)))"
  using scheduling_order [OF _ _ sample_reachable refl] sample_ordered sample_fresh by simp

text \<open>C5: When a run returns, every node of the plan has exactly one result; a node was skipped
  exactly when a decision's other branch listed it or all its content inputs were skipped; and the
  final output is that of the last completed result node in the order, or failing that synthesis,
  or summary node.\<close>

theorem finished_run_accounts_for_every_node:
  assumes "ordered_plan (rc_plan c)" and "fresh_task (rc_plan c) st"
    and "reachable c out st (Returned v)"
  shows "completed v \<union> skipped v = set (node_ids (rc_plan c)) \<and> completed v \<inter> skipped v = {} \<and>
    (\<forall>i \<in> set (node_ids (rc_plan c)).
       i \<in> skipped v \<longleftrightarrow> skip_reason (rc_plan c) (s_results (v_state v)) i) \<and>
    s_status (v_state v) = TASK_COMPLETED \<and>
    s_final_output (v_state v) =
      map_option (\<lambda>r. rc_str c (r_output r)) (final_output_result (rc_plan c) (s_results (v_state v)))"
proof -
  have run: "run_inv c out st (Returned v)" using reachable_inv assms by blast
  then have inv: "sched_inv c out st v" and all: "has_result (v_state v) = set (node_ids (rc_plan c))"
    by (auto simp: run_inv_def)
  note D = inv_setsD [OF sched_invD(1) [OF inv]]
  have "i \<in> skipped v \<longleftrightarrow> skip_reason (rc_plan c) (s_results (v_state v)) i"
    if "i \<in> set (node_ids (rc_plan c))" for i
    using completed_no_reason [OF inv _ that] sched_invD(3) [OF inv] that all D(6)
    unfolding inv_branches_def by blast
  with all D(6,7) run show ?thesis by (simp add: run_inv_def)
qed

lemma finished_run_accounts_for_every_node_witness:
  "completed (sched_of sample_end) \<union> skipped (sched_of sample_end) = {1, 2, 3, 4}"
proof -
  obtain v where v: "sample_end = Returned v" by (rule sample_returned)
  have "reachable sample_ctx (out_of sample_result) sample_state (Returned v)"
    using sample_reachable unfolding v .
  from finished_run_accounts_for_every_node [OF _ sample_fresh this] show ?thesis
    using sample_ordered by (simp add: v) (simp add: sample_plan_def node_ids_def mk_node_def)
qed



text \<open>C7: The results of a finished run do not depend on the order in which its tasks happened to
  start and end, nor on the concurrency limit: when a node's outcome depends only on the results it
  declares, two finished runs of the same task agree on every result and on the final output.\<close>

theorem results_independent_of_schedule:
  assumes "ordered_plan (rc_plan c)" and "fresh_task (rc_plan c) st" and "contextual out"
    and "reachable c out st (Returned v)"
    and "c' = c\<lparr>rc_settings := (rc_settings c)\<lparr>max_concurrent_nodes := m\<rparr>\<rparr>"
    and "reachable c' out st (Returned v')"
  shows "result_of (v_state v') = result_of (v_state v) \<and>
    s_final_output (v_state v') = s_final_output (v_state v)"
proof -
  have plan: "rc_plan c' = rc_plan c" using assms(5) by simp
  have fin: "finalize_result (rc_settings c') n r = finalize_result (rc_settings c) n r" for n r
  proof -
    have "select_tier (rc_settings c') n = select_tier (rc_settings c) n"
      using assms(5) by (cases "n_forced_tier n") (simp_all add: select_tier_def Let_def)
    then show ?thesis using assms(5) by (simp add: finalize_result_def)
  qed
  have run: "run_inv c out st (Returned v)" using reachable_inv assms(1,2,4) by blast
  have run': "run_inv c' out st (Returned v')"
    using reachable_inv [of c'] assms(1,2,6) plan by simp
  have same: "result_of (v_state v) = result_of (v_state v')"
    by (rule returned_results_unique [OF assms(1,3) plan fin run run'])
  moreover have "final_output_result (rc_plan c) (s_results (v_state v)) =
      final_output_result (rc_plan c) (s_results (v_state v'))"
    by (rule final_output_cong [OF same])
  ultimately show ?thesis using run run' plan assms(5) by (simp add: run_inv_def)
qed

lemma results_independent_of_schedule_witness:
  "result_of (v_state (sched_of serial_end)) = result_of (v_state (sched_of sample_end))"
proof -
  obtain v where v: "sample_end = Returned v" by (rule sample_returned)
  obtain v' where v': "serial_end = Returned v'"
    using serial_end_returned by (auto split: run_state.splits)
  have "reachable sample_ctx (out_of sample_result) sample_state (Returned v)"
    "reachable serial_ctx (out_of sample_result) sample_state (Returned v')"
    using sample_reachable serial_reachable unfolding v v' by simp_all
  from results_independent_of_schedule [OF _ sample_fresh sample_contextual this(1) serial_ctx_def this(2)]
  show ?thesis using sample_ordered by (simp add: v v')
qed

end
