(* ===== verification/NodeContext.thy ===== *)
theory NodeContext
  imports PlanCore
begin

text \<open>
  Prompt context of one node: \<open>executor/context.py\<close>.  \<open>dumps\<close> stands for \<open>json.dumps\<close> and is a
  parameter.  The facts show that a node sees the results it declares and nothing else, and how
  long what it sees can get.
\<close>

section \<open>Definitions\<close>

definition truncation_mark :: string where
  "truncation_mark = newline @ ''... [truncated] ...'' @ newline"

text \<open>\<open>text[-k:]\<close>; \<open>text[-0:]\<close> is the whole text.\<close>

definition from_end :: "nat \<Rightarrow> 'a list \<Rightarrow> 'a list" where
  "from_end k xs = (if k = 0 then xs else drop (length xs - k) xs)"

definition truncate_middle :: "string \<Rightarrow> nat \<Rightarrow> string" where
  "truncate_middle txt max_chars =
     (if length txt \<le> max_chars then txt
      else let half = max_chars div 2
           in take half txt @ truncation_mark @ from_end half txt)"

definition str_opt :: "string option \<Rightarrow> string" where
  "str_opt x = (case x of None \<Rightarrow> ''None'' | Some t \<Rightarrow> t)"

definition dep_header :: "node_id \<Rightarrow> string" where
  "dep_header d = ''[Node '' @ str_int d @ '' output''"

text \<open>The part of one declared dependency.\<close>

definition dep_part :: "(json \<Rightarrow> string) \<Rightarrow> nat \<Rightarrow> node_id \<Rightarrow> node_result option \<Rightarrow> string" where
  "dep_part dumps max_chars d res =
     (case res of
        None \<Rightarrow> dep_header d @ '': not available (node was skipped)]''
      | Some r \<Rightarrow>
          if r_status r = SKIPPED then dep_header d @ '': not available (node was skipped)]''
          else if r_status r = EMPTY
          then dep_header d @ '': empty '' @ em_dash @ '' tool returned no results]''
          else if r_status r = FAILED
          then dep_header d @ '': FAILED '' @ em_dash @ '' '' @ str_opt (r_error r) @ '']''
          else dep_header d @ '']:'' @ newline @
               truncate_middle (case r_output r of JStr t \<Rightarrow> t | v \<Rightarrow> dumps v) max_chars)"

definition consumer_line :: "node \<Rightarrow> string" where
  "consumer_line d =
     ''  - Node '' @ str_int (n_id d) @ '' ('' @ node_type_value (n_type d) @ ''): '' @ n_description d"

definition assemble_context ::
  "(json \<Rightarrow> string) \<Rightarrow> node \<Rightarrow> (node_id \<times> node_result) list \<Rightarrow> node list \<Rightarrow> nat \<Rightarrow> string"
where
  "assemble_context dumps n results dependents max_chars =
     join (newline @ newline)
       (map (\<lambda>d. dep_part dumps max_chars d (map_of results d)) (n_context_needed n) @
        (if dependents = [] then []
         else [''Your output will be consumed by:'' @ newline @
               join newline (map consumer_line dependents)]))"

definition default_max_chars :: nat where
  "default_max_chars = 4000"

section \<open>Facts\<close>

lemma truncate_middle_short [simp]: "length txt \<le> m \<Longrightarrow> truncate_middle txt m = txt"
  by (simp add: truncate_middle_def)

lemma length_truncation_mark [simp]: "length truncation_mark = 21"
  by (simp add: truncation_mark_def)

text \<open>From two characters on, the cut text has the bound plus the mark, and keeps both ends.\<close>

lemma truncate_middle_long:
  assumes "m < length txt" and "2 \<le> m"
  shows "truncate_middle txt m =
      take (m div 2) txt @ truncation_mark @ drop (length txt - m div 2) txt"
    and "length (truncate_middle txt m) = 2 * (m div 2) + 21"
proof -
  have "0 < m div 2" using assms(2) by simp
  then have "from_end (m div 2) txt = drop (length txt - m div 2) txt" by (metis from_end_def nat_less_le)
  with assms show "truncate_middle txt m =
      take (m div 2) txt @ truncation_mark @ drop (length txt - m div 2) txt"
    and "length (truncate_middle txt m) = 2 * (m div 2) + 21"
    by (simp_all add: truncate_middle_def Let_def)
qed

lemma truncate_middle_bound: "2 \<le> m \<Longrightarrow> length (truncate_middle txt m) \<le> m + 21"
  by (cases "length txt \<le> m") (auto simp: truncate_middle_long not_le)

lemma assemble_context_cong:
  assumes "\<And>d. d \<in> set (n_context_needed n) \<Longrightarrow> map_of rs d = map_of rs' d"
  shows "assemble_context dumps n rs ds m = assemble_context dumps n rs' ds m"
proof -
  have "map (\<lambda>d. dep_part dumps m d (map_of rs d)) (n_context_needed n) =
      map (\<lambda>d. dep_part dumps m d (map_of rs' d)) (n_context_needed n)"
    using assms by simp
  then show ?thesis by (simp only: assemble_context_def)
qed

end
