(* ===== verification/Providers.thy ===== *)
theory Providers
  imports SettingsModel
begin

text \<open>
  The provider layer: messages, chunks and \<open>collect\<close> (\<open>providers/base.py\<close>), the tier router
  (\<open>providers/router.py\<close>), the scripted provider, the output post-processing and the factory.  A
  provider acts on the state \<open>'w\<close> of the outside world; the stream it returns is the list of its
  chunks and the exception that ended it, if any.  Tracing and logging are left out.
\<close>

section \<open>Messages and chunks\<close>

datatype provider_exc = Unavailable string | ProviderFault string | OtherFault string

fun exc_text :: "provider_exc \<Rightarrow> string" where
  "exc_text (Unavailable t) = t"
| "exc_text (ProviderFault t) = t"
| "exc_text (OtherFault t) = t"

record message =
  m_role :: string
  m_content :: string
  m_cache_prefix :: "int option"

definition plain_message :: "string \<Rightarrow> string \<Rightarrow> message" where
  "plain_message role content = \<lparr>m_role = role, m_content = content, m_cache_prefix = None\<rparr>"

text \<open>\<open>cacheable_message\<close>; the left is its \<open>ValueError\<close>.\<close>

definition cacheable_message :: "string \<Rightarrow> string \<Rightarrow> int option \<Rightarrow> string + message" where
  "cacheable_message role content prefix_chars =
     (if content = [] then Inr (plain_message role content)
      else
        let bp = (case prefix_chars of None \<Rightarrow> int (length content) | Some k \<Rightarrow> k)
        in if bp \<le> 0 \<or> int (length content) < bp
           then Inl ''cache prefix must end within non-empty message content''
           else Inr ((plain_message role content)\<lparr>m_cache_prefix := Some bp\<rparr>))"

text \<open>With the default prefix, as every node executor calls it, there is no error.\<close>

definition system_message :: "string \<Rightarrow> message" where
  "system_message content =
     (if content = [] then plain_message ''system'' content
      else (plain_message ''system'' content)\<lparr>m_cache_prefix := Some (int (length content))\<rparr>)"

lemma cacheable_message_default: "cacheable_message ''system'' content None = Inr (system_message content)"
  by (simp add: cacheable_message_def system_message_def Let_def)

record chunk =
  c_text :: string
  c_finish :: "string option"
  c_tokens :: "int option"
  c_cache_read :: "int option"
  c_cache_write :: "int option"

definition text_chunk :: "string \<Rightarrow> chunk" where
  "text_chunk t = \<lparr>c_text = t, c_finish = None, c_tokens = None, c_cache_read = None, c_cache_write = None\<rparr>"

type_synonym stream = "chunk list \<times> provider_exc option"

text \<open>\<open>collect\<close>: the joined text and the last reported token count.\<close>

fun collect_chunks :: "chunk list \<Rightarrow> string \<times> int \<Rightarrow> string \<times> int" where
  "collect_chunks [] acc = acc"
| "collect_chunks (c # cs) (t, k) =
     collect_chunks cs (t @ c_text c, case c_tokens c of None \<Rightarrow> k | Some j \<Rightarrow> j)"

definition collect :: "stream \<Rightarrow> provider_exc + string \<times> int" where
  "collect s = (case snd s of Some e \<Rightarrow> Inl e | None \<Rightarrow> Inr (collect_chunks (fst s) ([], 0)))"

lemma collect_chunks_text: "fst (collect_chunks cs (t, k)) = t @ concat (map c_text cs)"
  by (induction cs "(t, k)" arbitrary: t k rule: collect_chunks.induct) simp_all

lemma collect_chunks_append:
  "collect_chunks (cs @ ds) acc = collect_chunks ds (collect_chunks cs acc)"
  by (induction cs acc rule: collect_chunks.induct) simp_all

section \<open>Providers and the router\<close>

text \<open>
  \<open>pv_healthy\<close> is the optional \<open>is_healthy\<close>; \<open>pv_complete\<close> takes the messages, \<open>json_mode\<close> and
  \<open>max_tokens\<close>.
\<close>

record 'w provider =
  pv_name :: string
  pv_tier :: int
  pv_healthy :: "('w \<Rightarrow> (provider_exc + bool) \<times> 'w) option"
  pv_complete :: "message list \<Rightarrow> bool \<Rightarrow> int \<Rightarrow> 'w \<Rightarrow> stream \<times> 'w"

record 'w router =
  ro_providers :: "'w provider list"
  ro_max_generation :: "int option"

definition make_router :: "'w provider list \<Rightarrow> int option \<Rightarrow> string + 'w router" where
  "make_router ps cap =
     (if ps = [] then Inl ''TierRouter requires at least one provider''
      else Inr \<lparr>ro_providers = ps, ro_max_generation = cap\<rparr>)"

definition eligible :: "'w router \<Rightarrow> int \<Rightarrow> int option \<Rightarrow> 'w provider list" where
  "eligible r min_tier max_tier =
     filter (\<lambda>p. min_tier \<le> pv_tier p \<and> (case max_tier of None \<Rightarrow> True | Some m \<Rightarrow> pv_tier p \<le> m))
       (ro_providers r)"

definition clamp_tokens :: "'w router \<Rightarrow> int \<Rightarrow> int" where
  "clamp_tokens r max_tokens =
     (case ro_max_generation r of None \<Rightarrow> max_tokens | Some g \<Rightarrow> if g < max_tokens then g else max_tokens)"

definition health_failed :: "'w provider \<Rightarrow> string" where
  "health_failed p =
     pv_name p @ '' (tier '' @ str_int (pv_tier p) @ ''): health check failed''"

definition exhausted :: "string option \<Rightarrow> string" where
  "exhausted last_error =
     ''All providers exhausted; last error: '' @ (case last_error of None \<Rightarrow> ''None'' | Some e \<Rightarrow> e)"

definition check_health :: "'w provider \<Rightarrow> 'w \<Rightarrow> (provider_exc + bool) \<times> 'w" where
  "check_health p w = (case pv_healthy p of None \<Rightarrow> (Inr True, w) | Some h \<Rightarrow> h w)"

fun try_providers ::
  "message list \<Rightarrow> bool \<Rightarrow> int \<Rightarrow> string option \<Rightarrow> 'w provider list \<Rightarrow> 'w \<Rightarrow> stream \<times> 'w"
where
  "try_providers msgs json_mode mt last_error [] w = (([], Some (Unavailable (exhausted last_error))), w)"
| "try_providers msgs json_mode mt last_error (p # ps) w =
     (case check_health p w of
        (Inl e, w1) \<Rightarrow> (([], Some e), w1)
      | (Inr healthy, w1) \<Rightarrow>
          if \<not> healthy then try_providers msgs json_mode mt (Some (health_failed p)) ps w1
          else case pv_complete p msgs json_mode mt w1 of
            ((c # cs, ended), w2) \<Rightarrow> ((c # cs, ended), w2)
          | (([], None), w2) \<Rightarrow> try_providers msgs json_mode mt last_error ps w2
          | (([], Some (Unavailable e)), w2) \<Rightarrow> try_providers msgs json_mode mt (Some e) ps w2
          | (([], Some e), w2) \<Rightarrow> (([], Some e), w2))"

definition no_providers :: "int \<Rightarrow> int option \<Rightarrow> string" where
  "no_providers min_tier max_tier =
     ''No providers configured for tier range ['' @ str_int min_tier @ '', '' @
     (case max_tier of None \<Rightarrow> ''None'' | Some m \<Rightarrow> str_int m) @ '']''"

definition router_complete ::
  "'w router \<Rightarrow> message list \<Rightarrow> int \<Rightarrow> int option \<Rightarrow> bool \<Rightarrow> int \<Rightarrow> 'w \<Rightarrow> stream \<times> 'w"
where
  "router_complete r msgs min_tier max_tier json_mode max_tokens w =
     (let ps = eligible r min_tier max_tier
      in if ps = [] then (([], Some (ProviderFault (no_providers min_tier max_tier))), w)
         else try_providers msgs json_mode (clamp_tokens r max_tokens) None ps w)"

definition highest_tier :: "'w router \<Rightarrow> int" where
  "highest_tier r = Max (set (map pv_tier (ro_providers r)))"

subsection \<open>What the router promises\<close>

text \<open>A provider passed over: unhealthy, or ended before its first chunk for lack of availability.\<close>

inductive passed_over :: "message list \<Rightarrow> bool \<Rightarrow> int \<Rightarrow> 'w provider \<Rightarrow> 'w \<Rightarrow> 'w \<Rightarrow> bool"
  for msgs json_mode mt where
  unhealthy: "check_health p w = (Inr False, w') \<Longrightarrow> passed_over msgs json_mode mt p w w'"
| empty_stream: "check_health p w = (Inr True, w1) \<Longrightarrow>
     pv_complete p msgs json_mode mt w1 = (([], None), w') \<Longrightarrow> passed_over msgs json_mode mt p w w'"
| unavailable: "check_health p w = (Inr True, w1) \<Longrightarrow>
     pv_complete p msgs json_mode mt w1 = (([], Some (Unavailable e)), w') \<Longrightarrow>
     passed_over msgs json_mode mt p w w'"

inductive all_passed :: "message list \<Rightarrow> bool \<Rightarrow> int \<Rightarrow> 'w provider list \<Rightarrow> 'w \<Rightarrow> 'w \<Rightarrow> bool"
  for msgs json_mode mt where
  none_left: "all_passed msgs json_mode mt [] w w"
| one_more: "passed_over msgs json_mode mt p w w1 \<Longrightarrow> all_passed msgs json_mode mt ps w1 w2 \<Longrightarrow>
     all_passed msgs json_mode mt (p # ps) w w2"

text \<open>The first provider that is not passed over answers: with a stream, or with its exception.\<close>

inductive answers :: "message list \<Rightarrow> bool \<Rightarrow> int \<Rightarrow> 'w provider \<Rightarrow> 'w \<Rightarrow> stream \<Rightarrow> 'w \<Rightarrow> bool"
  for msgs json_mode mt where
  health_raises: "check_health p w = (Inl e, w') \<Longrightarrow> answers msgs json_mode mt p w ([], Some e) w'"
| serves: "check_health p w = (Inr True, w1) \<Longrightarrow>
     pv_complete p msgs json_mode mt w1 = ((c # cs, ended), w') \<Longrightarrow>
     answers msgs json_mode mt p w (c # cs, ended) w'"
| faults: "check_health p w = (Inr True, w1) \<Longrightarrow>
     pv_complete p msgs json_mode mt w1 = (([], Some e), w') \<Longrightarrow> (\<forall>t. e \<noteq> Unavailable t) \<Longrightarrow>
     answers msgs json_mode mt p w ([], Some e) w'"

lemma provider_cases:
  obtains (passed) w' where "passed_over msgs json_mode mt p w w'"
      "\<And>le ps. \<exists>le'. try_providers msgs json_mode mt le (p # ps) w =
         try_providers msgs json_mode mt le' ps w'"
    | (answered) s w' where "answers msgs json_mode mt p w s w'"
      "\<And>le ps. try_providers msgs json_mode mt le (p # ps) w = (s, w')"
proof -
  obtain hres w1 where h: "check_health p w = (hres, w1)" by fastforce
  show thesis
  proof (cases hres)
    case (Inl e)
    with h show ?thesis using answered [OF health_raises] by simp
  next
    case (Inr ok)
    show ?thesis
    proof (cases ok)
      case False
      with h Inr show ?thesis by (intro passed [OF unhealthy]) auto
    next
      case True
      obtain cs ended w2 where c: "pv_complete p msgs json_mode mt w1 = ((cs, ended), w2)"
        by (metis prod.exhaust)
      show ?thesis
      proof (cases cs)
        case (Cons c cs')
        with h Inr True c show ?thesis by (intro answered [OF serves]) auto
      next
        case Nil
        show ?thesis
        proof (cases ended)
          case None
          with h Inr True c Nil show ?thesis by (intro passed [OF empty_stream]) auto
        next
          case (Some e)
          show ?thesis
          proof (cases e)
            case (Unavailable t)
            with h Inr True c Nil Some show ?thesis by (intro passed [OF unavailable]) auto
          qed (use h Inr True c Nil Some in \<open>intro answered [OF faults], auto\<close>)+
        qed
      qed
    qed
  qed
qed

lemma try_providers_spec:
  "(\<exists>ps1 p ps2 w1. ps = ps1 @ p # ps2 \<and> all_passed msgs json_mode mt ps1 w w1 \<and>
      answers msgs json_mode mt p w1 s w') \<or>
   (all_passed msgs json_mode mt ps w w' \<and> (\<exists>le'. s = ([], Some (Unavailable (exhausted le')))))"
  if "try_providers msgs json_mode mt le ps w = (s, w')"
  using that
proof (induction ps arbitrary: le w)
  case Nil
  then show ?case by (auto intro: none_left)
next
  case (Cons p ps)
  show ?case
  proof (cases rule: provider_cases [of msgs json_mode mt p w])
    case (answered s1 w1)
    with Cons.prems have "answers msgs json_mode mt p w s w'" by simp
    then show ?thesis by (blast intro: none_left)
  next
    case (passed w1)
    then obtain le' where "try_providers msgs json_mode mt le' ps w1 = (s, w')"
      using Cons.prems by metis
    from Cons.IH [OF this] show ?thesis
    proof (elim disjE exE conjE)
      fix ps1 q ps2 w2
      assume "ps = ps1 @ q # ps2" "all_passed msgs json_mode mt ps1 w1 w2" "answers msgs json_mode mt q w2 s w'"
      then show ?thesis
        using one_more [OF passed(1)] by (intro disjI1) (metis append_Cons)
    qed (use one_more [OF passed(1)] in blast)
  qed
qed

lemma eligible_iff:
  "p \<in> set (eligible r lo hi) \<longleftrightarrow> p \<in> set (ro_providers r) \<and> lo \<le> pv_tier p \<and> (\<forall>m. hi = Some m \<longrightarrow> pv_tier p \<le> m)"
  by (auto simp: eligible_def split: option.splits)

lemma clamp_tokens_le:
  "clamp_tokens r k \<le> k" "ro_max_generation r = Some g \<Longrightarrow> clamp_tokens r k \<le> g"
  by (auto simp: clamp_tokens_def split: option.splits)

section \<open>Post-processing of model output\<close>

definition think_open :: string where "think_open = ''<think>''"

definition think_close :: string where "think_close = ''</think>''"

text \<open>\<open>re.sub(r"<think>.*?</think>\s*", "", text, flags=DOTALL)\<close>.\<close>

function drop_thinking :: "string \<Rightarrow> string" where
  "drop_thinking [] = []"
| "drop_thinking (c # cs) =
     (if starts_with think_open (c # cs) then
        (case find_sub think_close (drop (length think_open) (c # cs)) of
           Some k \<Rightarrow>
             drop_thinking
               (dropWhile py_space
                  (drop (k + length think_close) (drop (length think_open) (c # cs))))
         | None \<Rightarrow> c # drop_thinking cs)
      else c # drop_thinking cs)"
  by pat_completeness auto
termination
  by (relation "measure length")
    (auto simp: think_open_def less_Suc_eq_le intro: le_trans [OF length_dropWhile_le])

declare drop_thinking.simps [simp del]

definition fence :: string where "fence = ''```''"

text \<open>
  \<open>_FENCE_RE.match\<close> on stripped text: after the opening fence and an optional \<open>json\<close>, white space
  with a newline in it, a body, and a newline before the closing fence at the very end.  The
  expression may put several newlines of the white space before the body or in it; the caller strips
  the body, so the model takes the first.
\<close>

definition after_open :: "string \<Rightarrow> string option" where
  "after_open txt =
     (if starts_with fence txt then
        (let r = drop (length fence) txt
         in Some (if starts_with ''json'' r then drop 4 r else r))
      else None)"

definition skip_to_newline :: "string \<Rightarrow> string option" where
  "skip_to_newline r =
     (case dropWhile (\<lambda>c. py_space c \<and> c \<noteq> CHR 0x0A) r of
        [] \<Rightarrow> None
      | c # cs \<Rightarrow> if c = CHR 0x0A then Some cs else None)"

definition fenced_body :: "string \<Rightarrow> string option" where
  "fenced_body txt =
     (case after_open txt of
        None \<Rightarrow> None
      | Some r \<Rightarrow>
          (case skip_to_newline r of
             None \<Rightarrow> None
           | Some b \<Rightarrow>
               if ends_with (newline @ fence) b then Some (take (length b - 4) b) else None))"

definition strip_model_output :: "string \<Rightarrow> string" where
  "strip_model_output raw =
     (let txt = strip (drop_thinking (strip raw))
      in case fenced_body txt of None \<Rightarrow> txt | Some b \<Rightarrow> strip b)"

subsection \<open>Round trip\<close>

text \<open>Text that the wrappers are transparent to: stripped, and without a thinking block.\<close>

definition clean :: "string \<Rightarrow> bool" where
  "clean t \<longleftrightarrow> t \<noteq> [] \<and> \<not> py_space (hd t) \<and> \<not> py_space (last t) \<and> \<not> contains think_open t"

lemma strip_ends:
  assumes "t \<noteq> []" and "\<not> py_space (hd t)" and "\<not> py_space (last t)"
  shows "strip t = t"
proof -
  have "lstrip t = t" using assms by (cases t) (auto simp: lstrip_def)
  moreover have "rstrip t = t"
    using assms by (cases t rule: rev_cases) (auto simp: rstrip_def)
  ultimately show ?thesis by (simp add: strip_def)
qed

lemma dropWhile_space_append:
  "\<forall>c \<in> set ws. P c \<Longrightarrow> dropWhile P (ws @ t) = dropWhile P t"
  by (induction ws) auto

lemma strip_padded:
  assumes "\<forall>c \<in> set ws. py_space c" and "\<forall>c \<in> set ws'. py_space c"
  shows "strip (ws @ t @ ws') = strip t"
proof -
  have r: "rstrip (u @ ws') = rstrip u" for u
    using assms(2) dropWhile_space_append [of "rev ws'" py_space "rev u"] by (simp add: rstrip_def)
  have l: "lstrip (ws @ u) = lstrip u" for u
    using assms(1) by (simp add: lstrip_def dropWhile_space_append)
  show ?thesis
  proof (cases "\<forall>c \<in> set t. py_space c")
    case True
    then have "lstrip (ws @ t @ ws') = []" "lstrip t = []"
      using assms by (auto simp: lstrip_def dropWhile_eq_Nil_conv)
    then show ?thesis by (simp add: strip_def rstrip_def)
  next
    case False
    then have "lstrip (t @ ws') = lstrip t @ ws'" by (auto simp: lstrip_def dropWhile_append1)
    then show ?thesis by (simp add: strip_def l r)
  qed
qed

lemma drop_thinking_clean: "\<not> contains think_open t \<Longrightarrow> drop_thinking t = t"
proof (induction t rule: drop_thinking.induct)
  case (2 c cs)
  then have "\<not> starts_with think_open (c # cs)" and "\<not> contains think_open cs"
    by (auto simp: contains_def split: if_splits)
  then show ?case using 2 by (simp add: drop_thinking.simps)
qed (simp add: drop_thinking.simps)

lemma contains_split:
  assumes "contains p (x @ n # y)" and "n \<notin> set p"
  shows "contains p x \<or> contains p y"
proof -
  from assms(1) obtain u v where eq: "x @ n # y = u @ p @ v" by (auto simp: contains_iff)
  then consider us where "x = u @ us" "us @ n # y = p @ v"
    | us where "u = x @ us" "us @ p @ v = n # y"
    by (auto simp: append_eq_append_conv2)
  then show ?thesis
  proof cases
    case 1
    from 1(2) consider vs where "us = p @ vs" | vs where "p = us @ vs" "vs @ v = n # y"
      by (auto simp: append_eq_append_conv2)
    then show ?thesis
    proof cases
      case (2 vs)
      show ?thesis
      proof (cases vs)
        case Nil
        with 2 1(1) have "x = u @ p @ []" by simp
        then show ?thesis unfolding contains_iff by blast
      next
        case (Cons w ws)
        with 2 assms(2) show ?thesis by auto
      qed
    qed (use 1(1) in \<open>auto simp: contains_iff\<close>)
  next
    case 2
    show ?thesis
    proof (cases us)
      case Nil
      with 2(2) assms(2) show ?thesis by (cases p) (auto simp: contains_iff)
    next
      case (Cons w ws)
      with 2(2) show ?thesis by (auto simp: contains_iff)
    qed
  qed
qed

lemma find_close: "CHR ''<'' \<notin> set th \<Longrightarrow> find_sub think_close (th @ think_close @ v) = Some (length th)"
  by (induction th) (auto simp: think_close_def)

lemma drop_thinking_block:
  assumes "CHR ''<'' \<notin> set th"
  shows "drop_thinking (think_open @ th @ think_close @ rest) = drop_thinking (dropWhile py_space rest)"
proof -
  have "starts_with think_open (think_open @ th @ think_close @ rest)" by (auto simp: starts_with_iff)
  moreover obtain c cs where c: "think_open @ th @ think_close @ rest = c # cs"
    by (cases "think_open @ th @ think_close @ rest") (auto simp: think_open_def)
  moreover have "drop (length think_open) (c # cs) = th @ think_close @ rest" by (simp flip: c)
  ultimately show ?thesis
    using find_close [OF assms, of rest] by (simp add: drop_thinking.simps)
qed

datatype wrapper = Bare | Fenced | JsonFenced

fun wrap :: "wrapper \<Rightarrow> string \<Rightarrow> string" where
  "wrap Bare t = t"
| "wrap Fenced t = fence @ newline @ t @ newline @ fence"
| "wrap JsonFenced t = fence @ ''json'' @ newline @ t @ newline @ fence"

definition thought :: "string option \<Rightarrow> string" where
  "thought th = (case th of None \<Rightarrow> [] | Some x \<Rightarrow> think_open @ x @ think_close)"

lemma newline_not_open: "CHR 0x0A \<notin> set think_open"
  by (simp add: think_open_def)

lemma wrap_no_thinking: "\<not> contains think_open t \<Longrightarrow> \<not> contains think_open (wrap k t)"
proof -
  assume t: "\<not> contains think_open t"
  have f: "\<not> contains think_open fence" "\<not> contains think_open (fence @ ''json'')"
    by (simp_all add: contains_def fence_def think_open_def)
  have tail: "\<not> contains think_open (t @ CHR 0x0A # fence)"
    using contains_split [of think_open t "CHR 0x0A" fence] t f newline_not_open by blast
  have "\<not> contains think_open (fence @ CHR 0x0A # t @ CHR 0x0A # fence)"
    using contains_split [OF _ newline_not_open] f(1) tail by blast
  moreover have "\<not> contains think_open ((fence @ ''json'') @ CHR 0x0A # t @ CHR 0x0A # fence)"
    using contains_split [OF _ newline_not_open] f(2) tail by blast
  ultimately show ?thesis using t by (cases k) simp_all
qed

lemma wrap_ends:
  assumes "clean t"
  shows "wrap k t \<noteq> [] \<and> \<not> py_space (hd (wrap k t)) \<and> \<not> py_space (last (wrap k t))"
  using assms by (cases k) (auto simp: clean_def fence_def py_space_def Let_def)

lemma unwrap:
  assumes "clean t" and "\<not> starts_with fence t"
  shows "(case fenced_body (wrap k t) of None \<Rightarrow> wrap k t | Some b \<Rightarrow> strip b) = t"
proof -
  have st: "strip t = t" using assms(1) by (simp add: clean_def strip_ends)
  have e: "ends_with (newline @ fence) (t @ newline @ fence)" by (auto simp: ends_with_iff)
  have ne: "length (t @ newline @ fence) - 4 = length t" by (simp add: fence_def)
  have body: "skip_to_newline (CHR 0x0A # t @ CHR 0x0A # fence) = Some (t @ CHR 0x0A # fence)"
    by (simp add: skip_to_newline_def)
  show ?thesis
  proof (cases k)
    case Bare
    with assms(2) show ?thesis by (simp add: fenced_body_def after_open_def)
  next
    case Fenced
    have "after_open (wrap Fenced t) = Some (CHR 0x0A # t @ CHR 0x0A # fence)"
      by (simp add: after_open_def fence_def Let_def)
    with body e ne Fenced st show ?thesis by (simp add: fenced_body_def)
  next
    case JsonFenced
    have "after_open (wrap JsonFenced t) = Some (CHR 0x0A # t @ CHR 0x0A # fence)"
      by (simp add: after_open_def fence_def Let_def)
    with body e ne JsonFenced st show ?thesis by (simp add: fenced_body_def)
  qed
qed

lemma strip_wrapped:
  assumes t: "clean t" "\<not> starts_with fence t"
    and th: "\<And>x. th = Some x \<Longrightarrow> CHR ''<'' \<notin> set x"
    and ws: "\<forall>c \<in> set ws. py_space c" "\<forall>c \<in> set pre. py_space c" "\<forall>c \<in> set post. py_space c"
    and none: "th = None \<Longrightarrow> ws = []"
  shows "strip_model_output (pre @ thought th @ ws @ wrap k t @ post) = t"
proof -
  note ends = wrap_ends [OF t(1), of k]
  let ?core = "wrap k t"
  let ?x = "thought th @ ws @ ?core"
  have x_ends: "?x \<noteq> [] \<and> \<not> py_space (hd ?x) \<and> \<not> py_space (last ?x)"
    using ends none by (cases th) (auto simp: thought_def think_open_def py_space_def Let_def)
  have "strip (pre @ thought th @ ws @ ?core @ post) = strip ?x"
    using strip_padded [OF ws(2,3), of ?x] by simp
  also have "\<dots> = ?x" using x_ends by (simp add: strip_ends)
  finally have "strip_model_output (pre @ thought th @ ws @ ?core @ post) =
      (let txt = strip (drop_thinking ?x) in case fenced_body txt of None \<Rightarrow> txt | Some b \<Rightarrow> strip b)"
    by (simp only: strip_model_output_def)
  moreover have "drop_thinking ?x = ?core"
  proof -
    have c: "drop_thinking ?core = ?core"
      using t(1) by (intro drop_thinking_clean wrap_no_thinking) (simp add: clean_def)
    have d: "dropWhile py_space (ws @ ?core) = ?core"
      using ends ws(1) by (cases ?core) (simp_all add: dropWhile_space_append)
    show ?thesis
      using c d none th drop_thinking_block [of _ "ws @ ?core"] by (cases th) (auto simp: thought_def)
  qed
  moreover have "strip ?core = ?core" using ends by (simp add: strip_ends)
  ultimately show ?thesis using unwrap [OF t] by (simp add: Let_def)
qed

section \<open>The scripted provider\<close>

text \<open>\<open>str.splitlines\<close> on code points below 256; a carriage return and line feed are one boundary.\<close>

definition line_break :: "char \<Rightarrow> bool" where
  "line_break c \<longleftrightarrow>
     (let n = of_char c :: nat in (10 \<le> n \<and> n \<le> 13) \<or> (28 \<le> n \<and> n \<le> 30) \<or> n = 133)"

fun splitlines :: "string \<Rightarrow> string \<Rightarrow> string list" where
  "splitlines cur [] = (if cur = [] then [] else [rev cur])"
| "splitlines cur (c # cs) =
     (if c = CHR 0x0D then
        (case cs of
           d # ds \<Rightarrow> rev cur # (if d = CHR 0x0A then splitlines [] ds else splitlines [] cs)
         | [] \<Rightarrow> [rev cur])
      else if line_break c then rev cur # splitlines [] cs
      else splitlines (c # cur) cs)"

record scripted =
  sp_name :: string
  sp_tier :: int
  sp_responses :: "string list"

definition load_script :: "string \<Rightarrow> int \<Rightarrow> string \<Rightarrow> scripted" where
  "load_script name t raw =
     \<lparr>sp_name = name, sp_tier = t,
      sp_responses = filter (\<lambda>l. strip l \<noteq> []) (splitlines [] raw)\<rparr>"

text \<open>\<open>json.loads\<close> is a parameter here and below: \<open>None\<close> is its decode error.\<close>

definition error_directive :: "(string \<Rightarrow> json option) \<Rightarrow> string \<Rightarrow> string option" where
  "error_directive loads txt =
     (case loads txt of
        Some (JObj kvs) \<Rightarrow>
          (case jget kvs ''__error__'' of
             JStr d \<Rightarrow> if d \<in> {''provider_unavailable'', ''provider''} then Some d else None
           | _ \<Rightarrow> None)
      | _ \<Rightarrow> None)"

definition scripted_exhausted :: "scripted \<Rightarrow> string" where
  "scripted_exhausted sp =
     ''ScriptedProvider '' @ [CHR 0x27] @ sp_name sp @ [CHR 0x27] @ '' exhausted: '' @
     ''more LLM calls were made than there are lines in the JSONL fixture''"

definition scripted_complete :: "(string \<Rightarrow> json option) \<Rightarrow> scripted \<Rightarrow> stream \<times> scripted" where
  "scripted_complete loads sp =
     (case sp_responses sp of
        [] \<Rightarrow> (([], Some (ProviderFault (scripted_exhausted sp))), sp)
      | txt # rest \<Rightarrow>
          let sp' = sp\<lparr>sp_responses := rest\<rparr>
          in if error_directive loads txt = Some ''provider_unavailable''
             then (([], Some (Unavailable (sp_name sp @ '': scripted provider unavailable''))), sp')
             else if error_directive loads txt = Some ''provider''
             then (([], Some (ProviderFault (sp_name sp @ '': scripted provider error''))), sp')
             else (([(text_chunk txt)\<lparr>c_finish := Some ''stop'', c_tokens := Some 0\<rparr>], None), sp'))"

section \<open>The factory\<close>

datatype provider_spec =
    ScriptedSpec string int string
  | HttpSpec string int string string string rat "bool option" "(string \<times> json) list"

definition provider_from_tier :: "nat \<Rightarrow> tier_config \<Rightarrow> string + provider_spec" where
  "provider_from_tier i cfg =
     (let name = ''tier'' @ str_nat i
      in if tc_kind cfg = ''scripted'' then
           (if tc_scripted_path cfg = []
            then Inl (name @ '': kind=scripted requires scripted_path to be set '' @
                      ''(e.g. GLASSRAIL_TIER0__SCRIPTED_PATH=/path/to/responses.jsonl)'')
            else Inr (ScriptedSpec (name @ ''-scripted'') (int i) (tc_scripted_path cfg)))
         else Inr (HttpSpec name (int i) (tc_base_url cfg) (tc_model cfg) (tc_api_key cfg)
                     (tc_timeout_s cfg) (tc_prompt_caching cfg) (tc_extra_body cfg)))"

fun spec_tier :: "provider_spec \<Rightarrow> int" where
  "spec_tier (ScriptedSpec _ t _) = t"
| "spec_tier (HttpSpec _ t _ _ _ _ _ _) = t"

definition router_specs :: "settings \<Rightarrow> string + provider_spec list \<times> int option" where
  "router_specs s =
     and_then (map_all (\<lambda>(i, cfg). provider_from_tier i cfg) (enumerate 0 (tiers s)))
       (\<lambda>specs. Inr (specs, Some (max_generation_tokens s)))"

lemma provider_from_tier_tier: "provider_from_tier i cfg = Inr sp \<Longrightarrow> spec_tier sp = int i"
  by (auto simp: provider_from_tier_def Let_def split: if_splits)

text \<open>The factory builds one provider per tier, in tier order; a validated configuration builds.\<close>

lemma router_specs_tiers:
  "router_specs s = Inr (specs, cap) \<Longrightarrow> map spec_tier specs = [0, 1, 2, 3]"
  by (auto simp: router_specs_def tiers_def dest!: provider_from_tier_tier)

lemma router_specs_valid:
  assumes "\<forall>c \<in> set (tiers s). check_required_fields c = Inr c"
  shows "\<exists>specs. router_specs s = Inr (specs, Some (max_generation_tokens s))"
proof -
  have "\<exists>sp. provider_from_tier i c = Inr sp" if "c \<in> set (tiers s)" for i c
    using assms that by (auto simp: provider_from_tier_def check_required_fields_def Let_def split: if_splits)
  then have "\<exists>specs. map_all (\<lambda>(i, cfg). provider_from_tier i cfg) (enumerate 0 (tiers s)) = Inr specs"
    unfolding map_all_Inr_ex by (auto simp: in_set_enumerate_eq)
  then show ?thesis by (auto simp: router_specs_def)
qed

section \<open>Properties\<close>


text \<open>\<open>strip_model_output\<close> undoes the wrappers it knows: surrounding white space, a thinking
  block and a plain or \<open>json\<close> code fence around a payload leave exactly the payload.\<close>

theorem strip_model_output_unwraps:
  assumes "clean t" and "\<not> starts_with fence t"
    and "\<And>x. th = Some x \<Longrightarrow> CHR ''<'' \<notin> set x" and "th = None \<Longrightarrow> ws = []"
    and "\<forall>c \<in> set (pre @ ws @ post). py_space c"
  shows "strip_model_output (pre @ thought th @ ws @ wrap k t @ post) = t"
  using assms by (intro strip_wrapped) auto

lemma strip_model_output_unwraps_witness:
  "strip_model_output
     ('' '' @ thought (Some ''hm'') @ newline @ wrap JsonFenced ''{}'' @ newline) = ''{}''"
  by (rule strip_model_output_unwraps)
    (auto simp: clean_def py_space_def contains_def think_open_def fence_def)

end
