(* ===== verification/OpenAICompat.thy ===== *)
theory OpenAICompat
  imports Providers
begin

text \<open>
  The OpenAI-compatible provider, \<open>providers/openai_compat.py\<close>: request bodies and wire messages,
  the server-sent-event parser, the stream accumulator, the classification of HTTP statuses and the
  one retry without disabled reasoning.  The HTTP client is a parameter: what one POST gives is a
  status, a text and the lines of the stream with the exception that ended it, or no connection.
\<close>

section \<open>Access to untyped JSON\<close>

text \<open>\<open>v.get(key)\<close>: an attribute error on anything but an object.\<close>

fun obj_get :: "json \<Rightarrow> string \<Rightarrow> provider_exc + json" where
  "obj_get (JObj kvs) k = Inr (jget kvs k)"
| "obj_get _ k = Inl (OtherFault ''AttributeError'')"

text \<open>\<open>v[0]\<close> on a value known to be truthy.\<close>

fun item0 :: "json \<Rightarrow> provider_exc + json" where
  "item0 (JList (x # xs)) = Inr x"
| "item0 (JStr (c # cs)) = Inr (JStr [c])"
| "item0 (JObj kvs) = Inl (OtherFault ''KeyError'')"
| "item0 _ = Inl (OtherFault ''TypeError'')"

text \<open>The values \<open>for x in v\<close> runs through.\<close>

fun items_of :: "json \<Rightarrow> provider_exc + json list" where
  "items_of (JList xs) = Inr xs"
| "items_of (JObj kvs) = Inr (map (JStr \<circ> fst) kvs)"
| "items_of (JStr s) = Inr (map (\<lambda>c. JStr [c]) s)"
| "items_of _ = Inl (OtherFault ''TypeError'')"

text \<open>\<open>v or default\<close>.\<close>

definition or_else :: "json \<Rightarrow> json \<Rightarrow> json" where
  "or_else v d = (if truthy v then v else d)"

text \<open>\<open>isinstance(v, int)\<close>, which a bool satisfies.\<close>

fun as_int :: "json \<Rightarrow> int option" where
  "as_int (JInt i) = Some i"
| "as_int (JBool b) = Some (if b then 1 else 0)"
| "as_int _ = None"

fun as_str :: "json \<Rightarrow> string option" where
  "as_str (JStr s) = Some s"
| "as_str _ = None"

definition nonempty_str :: "json \<Rightarrow> string option" where
  "nonempty_str v = (case as_str v of Some (c # cs) \<Rightarrow> Some (c # cs) | _ \<Rightarrow> None)"

section \<open>Parsing events\<close>

record event_fields =
  ef_content :: "string option"
  ef_reasoning :: "string option"
  ef_finish :: "string option"
  ef_tool_name :: "string option"
  ef_tool_args :: string
  ef_tokens :: "int option"
  ef_cache_read :: "int option"
  ef_cache_write :: "int option"

definition no_fields :: event_fields where
  "no_fields =
     \<lparr>ef_content = None, ef_reasoning = None, ef_finish = None, ef_tool_name = None,
      ef_tool_args = [], ef_tokens = None, ef_cache_read = None, ef_cache_write = None\<rparr>"

definition decode_sse_line :: "(string \<Rightarrow> json option) \<Rightarrow> string \<Rightarrow> json option" where
  "decode_sse_line loads line =
     (if \<not> starts_with ''data:'' line then None
      else
        let payload = strip (drop 5 line)
        in if payload = [] \<or> payload = ''[DONE]'' then None
           else (case loads payload of Some JNull \<Rightarrow> None | r \<Rightarrow> r))"

fun parse_calls :: "json list \<Rightarrow> event_fields \<Rightarrow> provider_exc + event_fields" where
  "parse_calls [] f = Inr f"
| "parse_calls (call # calls) f =
     and_then (obj_get call ''function'') (\<lambda>fn0.
     let fn = or_else fn0 (JObj []) in
     and_then (obj_get fn ''name'') (\<lambda>name.
     and_then (obj_get fn ''arguments'') (\<lambda>fragment.
       parse_calls calls
         (f\<lparr>ef_tool_name := (case as_str name of Some s \<Rightarrow> Some s | None \<Rightarrow> ef_tool_name f),
            ef_tool_args := ef_tool_args f @ (case as_str fragment of Some s \<Rightarrow> s | None \<Rightarrow> [])\<rparr>))))"

definition parse_choices :: "json \<Rightarrow> provider_exc + event_fields" where
  "parse_choices choices =
     (if \<not> truthy choices then Inr no_fields
      else
        and_then (item0 choices) (\<lambda>choice0.
        and_then (obj_get choice0 ''delta'') (\<lambda>delta0.
        let delta = or_else delta0 (JObj []) in
        and_then (obj_get delta ''content'') (\<lambda>content.
        and_then (obj_get delta ''reasoning'') (\<lambda>reasoning.
        and_then (obj_get choice0 ''finish_reason'') (\<lambda>reason.
        and_then (obj_get delta ''tool_calls'') (\<lambda>calls.
        and_then (items_of (or_else calls (JList []))) (\<lambda>cs.
          parse_calls cs
            (no_fields\<lparr>ef_content := nonempty_str content, ef_reasoning := nonempty_str reasoning,
                       ef_finish := as_str reason\<rparr>)))))))))"

definition parse_usage :: "json \<Rightarrow> event_fields \<Rightarrow> provider_exc + event_fields" where
  "parse_usage usage f =
     (if \<not> truthy usage then Inr f
      else
        and_then (obj_get usage ''total_tokens'') (\<lambda>total.
        and_then (obj_get usage ''prompt_tokens_details'') (\<lambda>details.
          Inr (case details of
                 JObj kvs \<Rightarrow>
                   f\<lparr>ef_tokens := as_int total, ef_cache_read := as_int (jget kvs ''cached_tokens''),
                     ef_cache_write := as_int (jget kvs ''cache_write_tokens'')\<rparr>
               | _ \<Rightarrow> f\<lparr>ef_tokens := as_int total\<rparr>))))"

definition parse_event :: "json \<Rightarrow> provider_exc + event_fields" where
  "parse_event event =
     and_then (obj_get event ''choices'') (\<lambda>choices.
     and_then (parse_choices (or_else choices (JList []))) (\<lambda>f.
     and_then (obj_get event ''usage'') (\<lambda>usage. parse_usage usage f)))"

section \<open>The stream accumulator\<close>

record stream_state =
  ss_emitted :: bool
  ss_reasoning :: bool
  ss_tool_name :: "string option"
  ss_tool_args :: string
  ss_finish :: "string option"
  ss_tokens :: "int option"
  ss_cache_read :: "int option"
  ss_cache_write :: "int option"

definition initial_stream_state :: stream_state where
  "initial_stream_state =
     \<lparr>ss_emitted = False, ss_reasoning = False, ss_tool_name = None, ss_tool_args = [],
      ss_finish = None, ss_tokens = None, ss_cache_read = None, ss_cache_write = None\<rparr>"

definition newer :: "'a option \<Rightarrow> 'a option \<Rightarrow> 'a option" where
  "newer x old = (case x of None \<Rightarrow> old | Some v \<Rightarrow> Some v)"

definition apply_fields :: "event_fields \<Rightarrow> stream_state \<Rightarrow> chunk option \<times> stream_state" where
  "apply_fields f s =
     (let s' = s\<lparr>ss_finish := newer (ef_finish f) (ss_finish s),
                ss_reasoning := (ss_reasoning s \<or> ef_reasoning f \<noteq> None \<and> ef_reasoning f \<noteq> Some []),
                ss_tool_name := newer (ef_tool_name f) (ss_tool_name s),
                ss_tool_args := ss_tool_args s @ ef_tool_args f,
                ss_tokens := newer (ef_tokens f) (ss_tokens s),
                ss_cache_read := newer (ef_cache_read f) (ss_cache_read s),
                ss_cache_write := newer (ef_cache_write f) (ss_cache_write s)\<rparr>
      in case ef_content f of
           Some (c # cs) \<Rightarrow> (Some (text_chunk (c # cs)), s'\<lparr>ss_emitted := True\<rparr>)
         | _ \<Rightarrow> (None, s'))"

text \<open>The lines of one response: the chunks they give, and the state or the exception.\<close>

fun read_lines ::
  "(string \<Rightarrow> json option) \<Rightarrow> string list \<Rightarrow> stream_state \<Rightarrow> chunk list \<times> (provider_exc + stream_state)"
where
  "read_lines loads [] s = ([], Inr s)"
| "read_lines loads (l # ls) s =
     (case decode_sse_line loads l of
        None \<Rightarrow> read_lines loads ls s
      | Some event \<Rightarrow>
          (case parse_event event of
             Inl e \<Rightarrow> ([], Inl e)
           | Inr f \<Rightarrow>
               (case apply_fields f s of
                  (None, s') \<Rightarrow> read_lines loads ls s'
                | (Some c, s') \<Rightarrow>
                    (case read_lines loads ls s' of (cs, r) \<Rightarrow> (c # cs, r)))))"

section \<open>Requests\<close>

record http_provider =
  hp_name :: string
  hp_base_url :: string
  hp_model :: string
  hp_api_key :: string
  hp_timeout :: rat
  hp_caching :: bool
  hp_extra_body :: "(string \<times> json) list"

text \<open>\<open>_is_openrouter_url\<close>; the host name of a URL is \<open>urllib\<close>'s.\<close>

definition is_openrouter_url :: "(string \<Rightarrow> string option) \<Rightarrow> string \<Rightarrow> bool" where
  "is_openrouter_url hostname url =
     (let h = lower (case hostname url of None \<Rightarrow> [] | Some x \<Rightarrow> x)
      in h = ''openrouter.ai'' \<or> ends_with ''.openrouter.ai'' h)"

definition rstrip_slash :: "string \<Rightarrow> string" where
  "rstrip_slash s = rev (dropWhile (\<lambda>c. c = CHR ''/'') (rev s))"

definition make_http_provider :: "(string \<Rightarrow> string option) \<Rightarrow> provider_spec \<Rightarrow> http_provider option" where
  "make_http_provider hostname sp =
     (case sp of
        HttpSpec name t url model key timeout caching extra \<Rightarrow>
          let base = rstrip_slash url
          in Some \<lparr>hp_name = name, hp_base_url = base, hp_model = model, hp_api_key = key,
                   hp_timeout = timeout,
                   hp_caching = (case caching of None \<Rightarrow> is_openrouter_url hostname base | Some b \<Rightarrow> b),
                   hp_extra_body = extra\<rparr>
      | ScriptedSpec _ _ _ \<Rightarrow> None)"

definition text_block :: "string \<Rightarrow> json" where
  "text_block t = JObj [(''type'', JStr ''text''), (''text'', JStr t)]"

definition cached_block :: "string \<Rightarrow> json" where
  "cached_block t =
     JObj [(''type'', JStr ''text''), (''text'', JStr t),
           (''cache_control'', JObj [(''type'', JStr ''ephemeral'')])]"

definition wire_message :: "bool \<Rightarrow> message \<Rightarrow> string + json" where
  "wire_message caching m =
     (let content = m_content m in
      case m_cache_prefix m of
        Some bp \<Rightarrow>
          if \<not> caching then Inr (JObj [(''role'', JStr (m_role m)), (''content'', JStr content)])
          else if bp \<le> 0 \<or> int (length content) < bp
          then Inl ''cache prefix must end within non-empty message content''
          else Inr (JObj [(''role'', JStr (m_role m)),
                 (''content'', JList (cached_block (take (nat bp) content) #
                    (if bp < int (length content) then [text_block (drop (nat bp) content)] else [])))])
      | None \<Rightarrow> Inr (JObj [(''role'', JStr (m_role m)), (''content'', JStr content)]))"

definition wire_messages :: "bool \<Rightarrow> message list \<Rightarrow> string + json list" where
  "wire_messages caching msgs = map_all (wire_message caching) msgs"

text \<open>\<open>d.update(e)\<close>.\<close>

definition dict_update :: "(string \<times> json) list \<Rightarrow> (string \<times> json) list \<Rightarrow> (string \<times> json) list" where
  "dict_update d e = fold (\<lambda>(k, v). AList.update k v) e d"

definition build_body ::
  "http_provider \<Rightarrow> message list \<Rightarrow> bool \<Rightarrow> int \<Rightarrow> string + (string \<times> json) list"
where
  "build_body p msgs json_mode max_tokens =
     and_then (wire_messages (hp_caching p) msgs) (\<lambda>wire.
       let body = [(''model'', JStr (hp_model p)), (''messages'', JList wire),
                   (''max_tokens'', JInt max_tokens), (''stream'', JBool True),
                   (''stream_options'', JObj [(''include_usage'', JBool True)])];
           body' = (if json_mode
                    then body @ [(''response_format'', JObj [(''type'', JStr ''json_object'')])]
                    else body)
       in Inr (dict_update body' (hp_extra_body p)))"

definition requires_reasoning :: "string \<Rightarrow> bool" where
  "requires_reasoning resp_text =
     (let body = lower resp_text
      in contains ''reasoning is mandatory'' body \<and> contains ''cannot be disabled'' body)"

definition without_disabled_reasoning :: "(string \<times> json) list \<Rightarrow> (string \<times> json) list option" where
  "without_disabled_reasoning body =
     (case jget body ''reasoning'' of
        JObj r \<Rightarrow>
          if jget r ''effort'' = JStr ''none'' \<or> jget r ''enabled'' = JBool False
          then Some (filter (\<lambda>(k, _). k \<noteq> ''reasoning'') body) else None
      | _ \<Rightarrow> None)"

definition reasoning_retry_body ::
  "string \<Rightarrow> (string \<times> json) list \<Rightarrow> bool \<Rightarrow> (string \<times> json) list option"
where
  "reasoning_retry_body resp_text body already_retried =
     (if already_retried \<or> \<not> requires_reasoning resp_text then None
      else without_disabled_reasoning body)"

text \<open>\<open>_raise_for_status\<close> on an error status: always an exception.\<close>

definition status_exception :: "http_provider \<Rightarrow> nat \<Rightarrow> string \<Rightarrow> provider_exc" where
  "status_exception p code resp_text =
     (let short = hp_name p @ '': HTTP '' @ str_nat code
      in if code \<in> {401, 403, 404, 429} then Unavailable short
         else if code \<in> {400, 422} then ProviderFault (short @ '': '' @ resp_text)
         else if 500 \<le> code then Unavailable short
         else OtherFault ''HTTPStatusError'')"

section \<open>Completion\<close>

text \<open>
  What one POST gives: no connection or a timeout (with its description), a response with an error
  status and its text, or a stream of lines ended by nothing, by a timeout, or by another error.
\<close>

datatype http_end = Drained | TimedOut string | Broken string

datatype http_result =
    NoConnection string
  | ErrorStatus nat string
  | Lines "string list" http_end

definition synthesise_tool_content ::
  "(string \<Rightarrow> json option) \<Rightarrow> (json \<Rightarrow> string) \<Rightarrow> string \<Rightarrow> string \<Rightarrow> string"
where
  "synthesise_tool_content loads dumps name raw_args =
     dumps (JObj [(''tool_call'', JStr name),
        (''arguments'', if raw_args = [] then JObj []
                      else case loads raw_args of Some v \<Rightarrow> v | None \<Rightarrow> JStr raw_args)])"

definition reasoning_only :: "http_provider \<Rightarrow> string" where
  "reasoning_only p =
     hp_name p @ '': model returned only reasoning tokens with no content. '' @
     ''Reasoning is not disabled on this provider. '' @
     ''Set reasoning.effort=none with provider.require_parameters=true '' @
     ''in extra_body to ensure OpenRouter routes only to compliant providers.''"

text \<open>What follows the stream: the reasoning-only error, or the closing chunk.\<close>

definition close_stream ::
  "(string \<Rightarrow> json option) \<Rightarrow> (json \<Rightarrow> string) \<Rightarrow> http_provider \<Rightarrow> stream_state \<Rightarrow> stream"
where
  "close_stream loads dumps p s =
     (if \<not> ss_emitted s \<and> ss_reasoning s \<and> ss_tool_name s = None
      then ([], Some (ProviderFault (reasoning_only p)))
      else
        let tool_content =
              (case ss_tool_name s of
                 Some name \<Rightarrow>
                   if ss_emitted s then []
                   else synthesise_tool_content loads dumps name (ss_tool_args s)
               | None \<Rightarrow> [])
        in if tool_content \<noteq> [] \<or> ss_finish s \<noteq> None \<or> ss_tokens s \<noteq> None
           then ([\<lparr>c_text = tool_content, c_finish = ss_finish s, c_tokens = ss_tokens s,
                   c_cache_read = ss_cache_read s, c_cache_write = ss_cache_write s\<rparr>], None)
           else ([], None))"

fun http_complete ::
  "(string \<Rightarrow> json option) \<Rightarrow> (json \<Rightarrow> string) \<Rightarrow> http_provider
     \<Rightarrow> ((string \<times> json) list \<Rightarrow> 'w \<Rightarrow> http_result \<times> 'w)
     \<Rightarrow> nat \<Rightarrow> (string \<times> json) list \<Rightarrow> bool \<Rightarrow> 'w \<Rightarrow> stream \<times> 'w"
where
  "http_complete loads dumps p post 0 body retried w = (([], Some (OtherFault ''no attempt left'')), w)"
| "http_complete loads dumps p post (Suc k) body retried w =
     (case post body w of
        (NoConnection e, w') \<Rightarrow> (([], Some (Unavailable (hp_name p @ '': '' @ e))), w')
      | (ErrorStatus code resp_text, w') \<Rightarrow>
          (case reasoning_retry_body resp_text body retried of
             Some body' \<Rightarrow> http_complete loads dumps p post k body' True w'
           | None \<Rightarrow> (([], Some (status_exception p code resp_text)), w'))
      | (Lines ls ended, w') \<Rightarrow>
          (case read_lines loads ls initial_stream_state of
             (cs, Inl e) \<Rightarrow> ((cs, Some e), w')
           | (cs, Inr s) \<Rightarrow>
               (case ended of
                  TimedOut e \<Rightarrow> ((cs, Some (Unavailable (hp_name p @ '': '' @ e))), w')
                | Broken e \<Rightarrow> ((cs, Some (OtherFault e)), w')
                | Drained \<Rightarrow>
                    (case close_stream loads dumps p s of (ds, r) \<Rightarrow> ((cs @ ds, r), w')))))"

text \<open>The loop makes at most one retry: two attempts are fuel enough.\<close>

definition provider_complete ::
  "(string \<Rightarrow> json option) \<Rightarrow> (json \<Rightarrow> string) \<Rightarrow> http_provider
     \<Rightarrow> ((string \<times> json) list \<Rightarrow> 'w \<Rightarrow> http_result \<times> 'w)
     \<Rightarrow> message list \<Rightarrow> bool \<Rightarrow> int \<Rightarrow> 'w \<Rightarrow> stream \<times> 'w"
where
  "provider_complete loads dumps p post msgs json_mode max_tokens w =
     (case build_body p msgs json_mode max_tokens of
        Inl e \<Rightarrow> (([], Some (OtherFault e)), w)
      | Inr body \<Rightarrow> http_complete loads dumps p post 2 body False w)"

text \<open>\<open>is_healthy\<close> from what the GET gives.\<close>

datatype health_reply = HealthNoConnection | HealthReply nat string

definition health_url :: "http_provider \<Rightarrow> string" where
  "health_url p =
     (let root_url = hp_base_url p
      in (if ends_with ''/v1'' root_url then take (length root_url - 3) root_url else root_url) @ ''/health'')"

definition healthy_reply :: "(string \<Rightarrow> json option) \<Rightarrow> health_reply \<Rightarrow> bool" where
  "healthy_reply loads r =
     (case r of
        HealthNoConnection \<Rightarrow> False
      | HealthReply code body \<Rightarrow>
          if code = 200 then
            (case loads body of
               Some (JObj kvs) \<Rightarrow> jget kvs ''status'' = JStr ''healthy''
             | _ \<Rightarrow> True)
          else code = 404)"

section \<open>Facts\<close>

text \<open>The text a line contributes to the answer.\<close>

definition delta_text :: "(string \<Rightarrow> json option) \<Rightarrow> string \<Rightarrow> string" where
  "delta_text loads l =
     (case decode_sse_line loads l of
        None \<Rightarrow> []
      | Some event \<Rightarrow>
          (case parse_event event of
             Inl _ \<Rightarrow> []
           | Inr f \<Rightarrow> (case ef_content f of None \<Rightarrow> [] | Some t \<Rightarrow> t)))"

lemma apply_fields_text:
  "apply_fields f s = (c, s') \<Longrightarrow>
     (case c of None \<Rightarrow> [] | Some x \<Rightarrow> c_text x) = (case ef_content f of None \<Rightarrow> [] | Some t \<Rightarrow> t) \<and>
     (ss_emitted s' \<longleftrightarrow> ss_emitted s \<or> c \<noteq> None) \<and>
     (c \<noteq> None \<longleftrightarrow> ef_content f \<noteq> None \<and> ef_content f \<noteq> Some []) \<and>
     (\<forall>x. c = Some x \<longrightarrow> c_text x \<noteq> [] \<and> c_tokens x = None)"
  by (auto simp: apply_fields_def Let_def text_chunk_def split: option.splits list.splits)

text \<open>The lines that are events, parsed.\<close>

lemma read_lines_Cons:
  assumes "read_lines loads (l # ls) s = (cs, r)"
  shows "(decode_sse_line loads l = None \<and> read_lines loads ls s = (cs, r)) \<or>
    (\<exists>ev e. decode_sse_line loads l = Some ev \<and> parse_event ev = Inl e \<and> cs = [] \<and> r = Inl e) \<or>
    (\<exists>ev f c s1 cs1. decode_sse_line loads l = Some ev \<and> parse_event ev = Inr f \<and>
       apply_fields f s = (c, s1) \<and> read_lines loads ls s1 = (cs1, r) \<and>
       cs = (case c of None \<Rightarrow> cs1 | Some x \<Rightarrow> x # cs1))"
  using assms by (auto split: option.splits sum.splits prod.splits)

lemma read_lines_text:
  "read_lines loads ls s = (cs, Inr s') \<Longrightarrow>
     concat (map c_text cs) = concat (map (delta_text loads) ls) \<and>
     (ss_emitted s' \<longleftrightarrow> ss_emitted s \<or> cs \<noteq> []) \<and>
     (\<forall>c \<in> set cs. c_text c \<noteq> [] \<and> c_tokens c = None)"
proof (induction ls arbitrary: s cs)
  case Nil
  then show ?case by auto
next
  case (Cons l ls)
  from read_lines_Cons [OF Cons.prems] show ?case
  proof (elim disjE exE conjE)
    assume "decode_sse_line loads l = None" "read_lines loads ls s = (cs, Inr s')"
    with Cons.IH show ?thesis by (simp add: delta_text_def)
  next
    fix ev f c s1 cs1
    assume l: "decode_sse_line loads l = Some ev" "parse_event ev = Inr f"
      and a: "apply_fields f s = (c, s1)" and r: "read_lines loads ls s1 = (cs1, Inr s')"
      and cs: "cs = (case c of None \<Rightarrow> cs1 | Some x \<Rightarrow> x # cs1)"
    have "delta_text loads l = (case c of None \<Rightarrow> [] | Some x \<Rightarrow> c_text x)"
      using l apply_fields_text [OF a] by (simp add: delta_text_def)
    with Cons.IH [OF r] apply_fields_text [OF a] cs show ?thesis by (cases c) auto
  qed simp
qed

lemma http_complete_fuel:
  "http_complete loads dumps p post (Suc k) body True w = http_complete loads dumps p post 1 body True w"
  by (auto simp: reasoning_retry_body_def split: prod.splits http_result.splits option.splits)

text \<open>A client that counts its requests.\<close>

definition counted ::
  "((string \<times> json) list \<Rightarrow> 'w \<Rightarrow> http_result \<times> 'w)
     \<Rightarrow> (string \<times> json) list \<Rightarrow> 'w \<times> nat \<Rightarrow> http_result \<times> ('w \<times> nat)"
where
  "counted post body wn =
     (case wn of (w, n) \<Rightarrow> (case post body w of (r, w') \<Rightarrow> (r, (w', Suc n))))"

lemma http_complete_posts:
  "snd (snd (http_complete loads dumps p (counted post) k body retried (w, n))) \<le> n + k"
proof (induction k arbitrary: body retried w n)
  case (Suc k)
  obtain r w1 where "post body w = (r, w1)" by fastforce
  with Suc [of _ True w1 "Suc n"] show ?case
    by (auto simp: counted_def split: http_result.splits option.splits prod.splits sum.splits http_end.splits)
qed simp

lemma wire_message_total: "wire_message False m = Inr (JObj [(''role'', JStr (m_role m)), (''content'', JStr (m_content m))])"
  by (auto simp: wire_message_def Let_def split: option.splits)

text \<open>Reading a wire message back: the role and the joined text.\<close>

fun block_text :: "json \<Rightarrow> string" where
  "block_text (JObj kvs) = (case jget kvs ''text'' of JStr t \<Rightarrow> t | _ \<Rightarrow> [])"
| "block_text _ = []"

fun wire_content :: "json \<Rightarrow> string" where
  "wire_content (JStr t) = t"
| "wire_content (JList blocks) = concat (map block_text blocks)"
| "wire_content _ = []"

definition read_wire :: "json \<Rightarrow> json \<times> string" where
  "read_wire v = (case v of JObj kvs \<Rightarrow> (jget kvs ''role'', wire_content (jget kvs ''content'')) | _ \<Rightarrow> (JNull, []))"

lemma wire_message_lossless:
  "wire_message caching m = Inr v \<Longrightarrow> read_wire v = (JStr (m_role m), m_content m)"
  by (auto simp: wire_message_def Let_def read_wire_def jget_def text_block_def cached_block_def
      split: option.splits if_splits)

lemma wire_message_cacheable:
  "cacheable_message role content k = Inr m \<Longrightarrow> \<exists>v. wire_message caching m = Inr v"
  by (auto simp: cacheable_message_def plain_message_def wire_message_def Let_def split: if_splits)

section \<open>Properties\<close>

text \<open>C10: When a completion ends without an exception, its text is exactly the concatenation of the
  content deltas of the response in order; only when there was none can a tool call or nothing
  stand in its place, and a response of reasoning alone is an error.\<close>

theorem completion_text:
  assumes "read_lines loads ls initial_stream_state = (cs, Inr s)"
    and "post body w = (Lines ls Drained, w')"
  shows "case http_complete loads dumps p post (Suc k) body retried w of
      ((chunks, ended), w'') \<Rightarrow>
        w'' = w' \<and>
        (if concat (map (delta_text loads) ls) \<noteq> []
         then ended = None \<and> concat (map c_text chunks) = concat (map (delta_text loads) ls)
         else if ss_tool_name s = None
         then concat (map c_text chunks) = [] \<and>
              ended = (if ss_reasoning s then Some (ProviderFault (reasoning_only p)) else None)
         else ended = None \<and>
              concat (map c_text chunks) =
                synthesise_tool_content loads dumps (the (ss_tool_name s)) (ss_tool_args s))"
proof -
  note r = read_lines_text [OF assms(1)]
  have em: "ss_emitted s \<longleftrightarrow> concat (map (delta_text loads) ls) \<noteq> []"
  proof -
    have "concat (map c_text cs) \<noteq> [] \<longleftrightarrow> cs \<noteq> []"
      using r [THEN conjunct2, THEN conjunct2] by (cases cs) auto
    moreover have "ss_emitted s \<longleftrightarrow> cs \<noteq> []" using r by (simp add: initial_stream_state_def)
    ultimately show ?thesis by (simp only: r [THEN conjunct1])
  qed
  obtain ds e where close: "close_stream loads dumps p s = (ds, e)" by fastforce
  have "http_complete loads dumps p post (Suc k) body retried w = ((cs @ ds, e), w')"
    using assms close by simp
  moreover have "concat (map c_text ds) =
      (if ss_emitted s \<or> ss_tool_name s = None then []
       else synthesise_tool_content loads dumps (the (ss_tool_name s)) (ss_tool_args s)) \<and>
    e = (if \<not> ss_emitted s \<and> ss_reasoning s \<and> ss_tool_name s = None
         then Some (ProviderFault (reasoning_only p)) else None)"
    using close by (auto simp: close_stream_def Let_def split: if_splits option.splits)
  moreover have "ss_emitted s \<or> cs = []" using r by (auto simp: initial_stream_state_def)
  ultimately show ?thesis using r em by (auto split: if_splits)
qed

lemma completion_text_witness:
  "case http_complete (\<lambda>t. Some (JObj [(''choices'', JList [JObj [(''delta'', JObj [(''content'', JStr t)])]])]))
      (\<lambda>v. []) \<lparr>hp_name = ''t'', hp_base_url = [], hp_model = [], hp_api_key = [], hp_timeout = 1,
                 hp_caching = False, hp_extra_body = []\<rparr>
      (\<lambda>body w. (Lines [''data: ab'', '': ping'', ''data:c''] Drained, w)) 2 [] False () of
     ((chunks, ended), _) \<Rightarrow> ended = None \<and> concat (map c_text chunks) = ''abc''"
proof -
  let ?loads = "\<lambda>t. Some (JObj [(''choices'', JList [JObj [(''delta'', JObj [(''content'', JStr t)])]])])"
  let ?ls = "[''data: ab'', '': ping'', ''data:c'']"
  obtain cs s where r: "read_lines ?loads ?ls initial_stream_state = (cs, Inr s)"
    by (simp add: decode_sse_line_def py_defs parse_event_def parse_choices_def parse_usage_def
        or_else_def nonempty_str_def apply_fields_def newer_def no_fields_def initial_stream_state_def)
  have t: "concat (map (delta_text ?loads) ?ls) = ''abc''"
    by (simp add: delta_text_def decode_sse_line_def py_defs parse_event_def parse_choices_def
        parse_usage_def or_else_def nonempty_str_def no_fields_def)
  let ?p = "\<lparr>hp_name = ''t'', hp_base_url = [], hp_model = [], hp_api_key = [], hp_timeout = 1,
             hp_caching = False, hp_extra_body = []\<rparr>"
  have "case http_complete ?loads (\<lambda>v. []) ?p (\<lambda>body w. (Lines ?ls Drained, w)) (Suc 1) [] False () of
     ((chunks, ended), _) \<Rightarrow> ended = None \<and> concat (map c_text chunks) = ''abc''"
    using completion_text [OF r, where post = "\<lambda>body w. (Lines ?ls Drained, w)" and w = "()" and k = 1
        and dumps = "\<lambda>v. []" and p = ?p and body = "[]" and retried = False, unfolded t]
    by (auto simp del: http_complete.simps split: prod.splits)
  then show ?thesis by (simp only: Suc_1)
qed

text \<open>The wire form of the messages loses nothing: reading back the role and the joined text
  blocks gives every message unchanged, whether or not it is split for caching; it only fails on a
  cache prefix outside the content, which \<open>cacheable_message\<close> never makes.\<close>

theorem wire_messages_lossless:
  "(case wire_messages caching msgs of
      Inr ws \<Rightarrow> map read_wire ws = map (\<lambda>m. (JStr (m_role m), m_content m)) msgs
    | Inl e \<Rightarrow> caching \<and> (\<exists>m \<in> set msgs. \<forall>role content k. cacheable_message role content k \<noteq> Inr m))"
proof (cases "wire_messages caching msgs")
  case (Inr ws)
  then have "list_all2 (\<lambda>m v. wire_message caching m = Inr v) msgs ws"
    by (simp add: wire_messages_def map_all_Inr_iff)
  then have "map read_wire ws = map (\<lambda>m. (JStr (m_role m), m_content m)) msgs"
    by (induction rule: list_all2_induct) (simp_all add: wire_message_lossless)
  with Inr show ?thesis by simp
next
  case (Inl e)
  obtain m where m: "m \<in> set msgs" "wire_message caching m = Inl e"
    using map_all_InlD [OF Inl [unfolded wire_messages_def]] by blast
  then have "caching" by (cases caching) (simp_all add: wire_message_total)
  moreover have "cacheable_message role content k \<noteq> Inr m" for role content k
    using wire_message_cacheable [of role content k m caching] m(2) by auto
  ultimately show ?thesis using Inl m(1) by auto
qed

text \<open>A completion posts at most twice, and the retry loop needs no more than the two attempts
  of the model: more fuel gives the same result.\<close>

theorem at_most_one_retry:
  "snd (snd (provider_complete loads dumps p (counted post) msgs json_mode mt (w, 0))) \<le> 2 \<and>
   http_complete loads dumps p post' (k + 2) body False w' = http_complete loads dumps p post' 2 body False w'"
proof
  show "snd (snd (provider_complete loads dumps p (counted post) msgs json_mode mt (w, 0))) \<le> 2"
  proof (cases "build_body p msgs json_mode mt")
    case (Inl e)
    then show ?thesis by (simp add: provider_complete_def)
  next
    case (Inr body)
    show ?thesis
      using http_complete_posts [of loads dumps p post 2 body False w 0]
      by (simp only: provider_complete_def Inr sum.case add_0)
  qed
  have "http_complete loads dumps p post' (Suc (Suc k)) body False w' =
      http_complete loads dumps p post' (Suc (Suc 0)) body False w'"
    unfolding http_complete.simps(2) [of loads dumps p post' "Suc k"]
      http_complete.simps(2) [of loads dumps p post' "Suc 0" body False]
      http_complete_fuel by simp
  then show "http_complete loads dumps p post' (k + 2) body False w' =
      http_complete loads dumps p post' 2 body False w'"
    by (simp only: numeral_2_eq_2 add_Suc_right add_0_right)
qed

end
