(* ===== verification/FieldStreamer.thy ===== *)
theory FieldStreamer
  imports Prelude
begin

text \<open>
  \<open>JsonFieldStreamer\<close> of \<open>executor/executor.py\<close>: the incremental extraction of one string field
  from JSON text that arrives in chunks.  A text is a list of characters below 256; \<open>chr\<close>, the
  text of a code point (Python's \<open>chr\<close>), is a parameter, so that nothing depends on how the others
  are represented.
\<close>

section \<open>Hexadecimal digits\<close>

definition hex_digit :: "char \<Rightarrow> nat option" where
  "hex_digit c =
     (let n = of_char c :: nat
      in if 48 \<le> n \<and> n \<le> 57 then Some (n - 48)
         else if 97 \<le> n \<and> n \<le> 102 then Some (n - 87)
         else if 65 \<le> n \<and> n \<le> 70 then Some (n - 55)
         else None)"

text \<open>\<open>int(s, 16)\<close>: white space, a sign, a \<open>0x\<close> prefix and single underscores are allowed.\<close>

fun hex_digits :: "nat \<Rightarrow> string \<Rightarrow> nat option" where
  "hex_digits acc [] = Some acc"
| "hex_digits acc [c] = (case hex_digit c of Some v \<Rightarrow> Some (16 * acc + v) | None \<Rightarrow> None)"
| "hex_digits acc (c # d # cs) =
     (case hex_digit c of
        Some v \<Rightarrow> hex_digits (16 * acc + v) (d # cs)
      | None \<Rightarrow>
          if c = CHR ''_'' then
            (case hex_digit d of Some v \<Rightarrow> hex_digits (16 * acc + v) cs | None \<Rightarrow> None)
          else None)"

definition hex_body :: "string \<Rightarrow> nat option" where
  "hex_body s =
     (case s of
        [] \<Rightarrow> None
      | c # cs \<Rightarrow> (case hex_digit c of Some v \<Rightarrow> hex_digits v cs | None \<Rightarrow> None))"

definition hex_unsigned :: "string \<Rightarrow> nat option" where
  "hex_unsigned s =
     (if starts_with ''0x'' s \<or> starts_with ''0X'' s
      then (let r = drop 2 s in hex_body (if starts_with ''_'' r then drop 1 r else r))
      else hex_body s)"

definition int16 :: "string \<Rightarrow> int option" where
  "int16 s =
     (case strip s of
        CHR ''-'' # r \<Rightarrow> map_option (\<lambda>v. - int v) (hex_unsigned r)
      | CHR ''+'' # r \<Rightarrow> map_option int (hex_unsigned r)
      | r \<Rightarrow> map_option int (hex_unsigned r))"

section \<open>The streamer\<close>

record streamer =
  fs_marker :: string
  fs_alt_marker :: string
  fs_buf :: string
  fs_pos :: nat
  fs_found :: bool
  fs_done :: bool
  fs_escape :: bool
  fs_unicode :: "string option"

definition quote :: char where "quote = CHR 0x22"

definition backslash :: char where "backslash = CHR 0x5C"

definition new_streamer :: "string \<Rightarrow> streamer" where
  "new_streamer field =
     \<lparr>fs_marker = [quote] @ field @ [quote] @ '': '' @ [quote],
      fs_alt_marker = [quote] @ field @ [quote] @ '':'' @ [quote],
      fs_buf = [], fs_pos = 0, fs_found = False, fs_done = False, fs_escape = False,
      fs_unicode = None\<rparr>"

text \<open>\<open>_ESCAPES.get(c, c)\<close>.\<close>

definition escape_text :: "char \<Rightarrow> char" where
  "escape_text c =
     (if c = CHR ''n'' then CHR 0x0A else if c = CHR ''t'' then CHR 0x09
      else if c = CHR ''r'' then CHR 0x0D else c)"

text \<open>\<open>_feed_unicode_digit\<close>: the decoded text and the digits still being collected.\<close>

definition unicode_digit :: "(nat \<Rightarrow> string) \<Rightarrow> string \<Rightarrow> char \<Rightarrow> string \<times> string option" where
  "unicode_digit chr u c =
     (let u' = u @ [c]
      in if length u' < 4 then ([], Some u')
         else (case int16 u' of
                 Some v \<Rightarrow> if v < 0 then ([backslash] @ ''u'' @ u', None) else (chr (nat v), None)
               | None \<Rightarrow> ([backslash] @ ''u'' @ u', None)))"

text \<open>One turn of the \<open>while self._pos < len(self._buf)\<close> loop: what it appends to the result.\<close>

definition read_char :: "(nat \<Rightarrow> string) \<Rightarrow> char \<Rightarrow> streamer \<Rightarrow> string \<times> streamer" where
  "read_char chr c s =
     (let s1 = s\<lparr>fs_pos := Suc (fs_pos s)\<rparr>
      in case fs_unicode s of
           Some u \<Rightarrow>
             (case unicode_digit chr u c of (out, u') \<Rightarrow> (out, s1\<lparr>fs_unicode := u'\<rparr>))
         | None \<Rightarrow>
             if fs_escape s then
               (if c = CHR ''u'' then ([], s1\<lparr>fs_unicode := Some [], fs_escape := False\<rparr>)
                else ([escape_text c], s1\<lparr>fs_escape := False\<rparr>))
             else if c = backslash then ([], s1\<lparr>fs_escape := True\<rparr>)
             else if c = quote then ([], s1\<lparr>fs_done := True\<rparr>)
             else ([c], s1))"

text \<open>The loop on the unread buffer; the closing quote breaks it.\<close>

fun consume :: "(nat \<Rightarrow> string) \<Rightarrow> string \<Rightarrow> streamer \<Rightarrow> string \<times> streamer" where
  "consume chr [] s = ([], s)"
| "consume chr (c # cs) s =
     (case read_char chr c s of
        (out, s1) \<Rightarrow>
          if fs_done s1 then (out, s1)
          else (case consume chr cs s1 of (r, s2) \<Rightarrow> (out @ r, s2)))"

text \<open>\<open>_scan_for_marker\<close>.\<close>

definition scan_for_marker :: "streamer \<Rightarrow> bool \<times> streamer" where
  "scan_for_marker s =
     (case find_sub (fs_marker s) (fs_buf s) of
        Some i \<Rightarrow> (True, s\<lparr>fs_pos := i + length (fs_marker s), fs_found := True\<rparr>)
      | None \<Rightarrow>
          (case find_sub (fs_alt_marker s) (fs_buf s) of
             Some i \<Rightarrow> (True, s\<lparr>fs_pos := i + length (fs_alt_marker s), fs_found := True\<rparr>)
           | None \<Rightarrow>
               let keep = length (fs_marker s) + 5
               in (False,
                   if keep < length (fs_buf s)
                   then s\<lparr>fs_buf := drop (length (fs_buf s) - keep) (fs_buf s), fs_pos := 0\<rparr> else s)))"

definition feed :: "(nat \<Rightarrow> string) \<Rightarrow> string \<Rightarrow> streamer \<Rightarrow> string \<times> streamer" where
  "feed chr chunk s =
     (if fs_done s \<or> chunk = [] then ([], s)
      else
        let s1 = s\<lparr>fs_buf := fs_buf s @ chunk\<rparr>
        in if fs_found s1 then consume chr (drop (fs_pos s1) (fs_buf s1)) s1
           else (case scan_for_marker s1 of
                   (False, s2) \<Rightarrow> ([], s2)
                 | (True, s2) \<Rightarrow> consume chr (drop (fs_pos s2) (fs_buf s2)) s2))"

text \<open>The text a caller emits for a sequence of chunks.\<close>

fun feed_all :: "(nat \<Rightarrow> string) \<Rightarrow> string list \<Rightarrow> streamer \<Rightarrow> string \<times> streamer" where
  "feed_all chr [] s = ([], s)"
| "feed_all chr (c # cs) s =
     (case feed chr c s of (out, s1) \<Rightarrow> (case feed_all chr cs s1 of (r, s2) \<Rightarrow> (out @ r, s2)))"

section \<open>Decoding is independent of the chunks\<close>

lemma read_char_keeps [simp]:
  "fs_marker (snd (read_char chr c s)) = fs_marker s"
  "fs_alt_marker (snd (read_char chr c s)) = fs_alt_marker s"
  "fs_buf (snd (read_char chr c s)) = fs_buf s" "fs_found (snd (read_char chr c s)) = fs_found s"
  "fs_pos (snd (read_char chr c s)) = Suc (fs_pos s)"
  by (auto simp: read_char_def Let_def split: option.splits prod.splits)

lemma read_char_buf:
  "read_char chr c (s\<lparr>fs_buf := b, fs_pos := p\<rparr>) =
     (fst (read_char chr c s), (snd (read_char chr c s))\<lparr>fs_buf := b, fs_pos := Suc p\<rparr>)"
  by (auto simp: read_char_def Let_def split: option.splits prod.splits)

lemma consume_keeps:
  "fs_marker (snd (consume chr cs s)) = fs_marker s \<and>
   fs_alt_marker (snd (consume chr cs s)) = fs_alt_marker s \<and>
   fs_buf (snd (consume chr cs s)) = fs_buf s \<and> fs_found (snd (consume chr cs s)) = fs_found s \<and>
   (\<not> fs_done (snd (consume chr cs s)) \<longrightarrow> fs_pos (snd (consume chr cs s)) = fs_pos s + length cs)"
proof (induction cs arbitrary: s)
  case (Cons c cs)
  obtain out s1 where r: "read_char chr c s = (out, s1)" by fastforce
  obtain out2 s2 where c: "consume chr cs s1 = (out2, s2)" by fastforce
  from r c read_char_keeps [of chr c s] Cons [of s1] show ?case by simp
qed simp

lemma consume_append:
  "consume chr (cs @ ds) s =
     (case consume chr cs s of
        (out, s1) \<Rightarrow>
          if fs_done s1 then (out, s1)
          else (case consume chr ds s1 of (r, s2) \<Rightarrow> (out @ r, s2)))"
  if "\<not> fs_done s"
  using that
proof (induction cs arbitrary: s)
  case Nil
  then show ?case by (simp split: prod.split)
next
  case (Cons c cs)
  obtain out s1 where r: "read_char chr c s = (out, s1)" by fastforce
  obtain out2 s2 where c: "consume chr cs s1 = (out2, s2)" by fastforce
  obtain out3 s3 where d: "consume chr ds s2 = (out3, s3)" by fastforce
  from r c d Cons.IH [of s1] show ?case by (cases "fs_done s1") simp_all
qed

text \<open>The buffer does not influence what the loop makes of the text it is given.\<close>

lemma consume_buf:
  "consume chr cs (s\<lparr>fs_buf := b, fs_pos := p\<rparr>) =
     (fst (consume chr cs s),
      (snd (consume chr cs s))\<lparr>fs_buf := b, fs_pos := p + fs_pos (snd (consume chr cs s)) - fs_pos s\<rparr>) \<and>
   fs_pos s \<le> fs_pos (snd (consume chr cs s))"
proof (induction cs arbitrary: s p)
  case (Cons c cs)
  obtain out s1 where r: "read_char chr c s = (out, s1)" by fastforce
  have pos: "fs_pos s1 = Suc (fs_pos s)" using read_char_keeps(5) [of chr c s] r by simp
  have r': "read_char chr c (s\<lparr>fs_buf := b, fs_pos := p\<rparr>) = (out, s1\<lparr>fs_buf := b, fs_pos := Suc p\<rparr>)"
    using read_char_buf [where chr = chr and c = c and s = s and b = b and p = p] r by simp
  show ?case
  proof (cases "fs_done s1")
    case True
    with r r' pos show ?thesis by simp
  next
    case False
    obtain out2 s2 where c: "consume chr cs s1 = (out2, s2)" by fastforce
    with Cons [of "Suc p" s1] pos False r r' show ?thesis by simp
  qed
qed simp

text \<open>What the loop emits depends only on what it has decoded so far.\<close>

definition reading :: "streamer \<Rightarrow> bool \<times> bool \<times> string option" where
  "reading s = (fs_done s, fs_escape s, fs_unicode s)"

lemma read_char_reading:
  "reading s = reading t \<Longrightarrow>
     fst (read_char chr c s) = fst (read_char chr c t) \<and>
     reading (snd (read_char chr c s)) = reading (snd (read_char chr c t))"
  by (auto simp: reading_def read_char_def Let_def split: option.splits prod.splits)

lemma consume_reading:
  "reading s = reading t \<Longrightarrow>
     fst (consume chr cs s) = fst (consume chr cs t) \<and>
     reading (snd (consume chr cs s)) = reading (snd (consume chr cs t))"
proof (induction cs arbitrary: s t)
  case (Cons c cs)
  obtain out s1 where r: "read_char chr c s = (out, s1)" by fastforce
  obtain out' t1 where r': "read_char chr c t = (out', t1)" by fastforce
  have eq: "out = out'" "reading s1 = reading t1" using read_char_reading [OF Cons.prems, of chr c] r r' by simp_all
  then have d: "fs_done s1 = fs_done t1" by (simp add: reading_def)
  obtain out2 s2 where c: "consume chr cs s1 = (out2, s2)" by fastforce
  obtain out2' t2 where c': "consume chr cs t1 = (out2', t2)" by fastforce
  from Cons.IH [OF eq(2)] c c' eq d r r' show ?case by (cases "fs_done s1") simp_all
qed simp

lemma consume_same:
  assumes "s' = s\<lparr>fs_buf := b, fs_pos := p\<rparr>"
  shows "fst (consume chr cs s') = fst (consume chr cs s)"
    and "fs_done (snd (consume chr cs s')) = fs_done (snd (consume chr cs s))"
  using consume_buf [where chr = chr and cs = cs and s = s and b = b and p = p] assms by simp_all

subsection \<open>Inside the field\<close>

definition drained :: "streamer \<Rightarrow> bool" where
  "drained s \<longleftrightarrow> fs_found s \<and> (fs_done s \<or> fs_pos s = length (fs_buf s))"

lemma feed_all_done: "fs_done s \<Longrightarrow> feed_all chr cs s = ([], s)"
  by (induction cs) (simp_all add: feed_def)

lemma feed_drained:
  assumes "drained s" and "\<not> fs_done s"
  shows "fst (feed chr c s) = fst (consume chr c s)"
    and "fs_done (snd (feed chr c s)) = fs_done (snd (consume chr c s))"
    and "drained (snd (feed chr c s))"
    and "\<exists>b p. snd (feed chr c s) = (snd (consume chr c s))\<lparr>fs_buf := b, fs_pos := p\<rparr>"
proof -
  let ?s = "s\<lparr>fs_buf := fs_buf s @ c, fs_pos := fs_pos s\<rparr>"
  have same: "s\<lparr>fs_buf := u\<rparr> = s\<lparr>fs_buf := u, fs_pos := fs_pos s\<rparr>" for u by (cases s) simp
  have f: "feed chr c s = consume chr c ?s"
  proof (cases "c = []")
    case True
    then show ?thesis by (simp add: feed_def)
  next
    case False
    then have "feed chr c s = consume chr c (s\<lparr>fs_buf := fs_buf s @ c\<rparr>)"
      using assms by (simp add: feed_def drained_def)
    then show ?thesis by (simp only: same [symmetric])
  qed
  note b = consume_buf [where chr = chr and cs = c and s = s and b = "fs_buf s @ c" and p = "fs_pos s"]
  note b1 = b [THEN conjunct1]
  show "fst (feed chr c s) = fst (consume chr c s)" by (simp only: f b1 fst_conv)
  have snd_eq: "snd (feed chr c s) = (snd (consume chr c s))\<lparr>fs_buf := fs_buf s @ c,
      fs_pos := fs_pos s + fs_pos (snd (consume chr c s)) - fs_pos s\<rparr>" by (simp only: f b1 snd_conv)
  then show "\<exists>b p. snd (feed chr c s) = (snd (consume chr c s))\<lparr>fs_buf := b, fs_pos := p\<rparr>" by blast
  show "fs_done (snd (feed chr c s)) = fs_done (snd (consume chr c s))" by (simp add: snd_eq)
  show "drained (snd (feed chr c s))"
  proof -
    obtain t where t: "feed chr c s = consume chr c t" and sel: "fs_found t = fs_found s"
      "fs_pos t = fs_pos s" "fs_buf t = fs_buf s @ c" using f by fastforce
    show ?thesis
      unfolding t using consume_keeps [of chr c t] sel assms by (auto simp: drained_def)
  qed
qed

lemma feed_all_drained:
  "drained s \<Longrightarrow> \<not> fs_done s \<Longrightarrow>
     fst (feed_all chr cs s) = fst (consume chr (concat cs) s) \<and>
     fs_done (snd (feed_all chr cs s)) = fs_done (snd (consume chr (concat cs) s))"
proof (induction cs arbitrary: s)
  case (Cons c cs)
  note f = feed_drained [OF Cons.prems, of chr c]
  obtain out s1 where fc: "feed chr c s = (out, s1)" by fastforce
  obtain out0 s0 where cc: "consume chr c s = (out0, s0)" by fastforce
  from f fc cc obtain b p where eq: "out = out0" "fs_done s1 = fs_done s0" "drained s1"
    "s1 = s0\<lparr>fs_buf := b, fs_pos := p\<rparr>" by auto
  note app = consume_append [OF Cons.prems(2), of chr c "concat cs"]
  show ?case
  proof (cases "fs_done s0")
    case True
    with fc cc eq app show ?thesis by (simp add: feed_all_done)
  next
    case False
    obtain out4 s4 where fa: "feed_all chr cs s1 = (out4, s4)" by fastforce
    obtain out5 s5 where cs: "consume chr (concat cs) s0 = (out5, s5)" by fastforce
    have "out4 = out5" "fs_done s4 = fs_done s5"
      using Cons.IH [of s1] eq(2,3) False consume_same [OF eq(4), of chr "concat cs"] fa cs by simp_all
    with fa cs False fc cc app eq(1) show ?thesis by simp
  qed
qed simp

subsection \<open>Finding the field\<close>

lemma find_sub_first_at:
  assumes "starts_with p (drop i s)" and "i \<le> length s"
    and "\<And>j. j < i \<Longrightarrow> \<not> starts_with p (drop j s)"
  shows "find_sub p s = Some i"
  using assms
proof (induction p s arbitrary: i rule: find_sub.induct)
  case (1 p)
  then show ?case by (cases p) auto
next
  case (2 p c cs)
  show ?case
  proof (cases i)
    case 0
    with "2.prems"(1) show ?thesis by simp
  next
    case (Suc k)
    have "\<not> starts_with p (c # cs)" using "2.prems"(3) [of 0] Suc by simp
    moreover have "\<not> starts_with p (drop j cs)" if "j < k" for j
      using "2.prems"(3) [of "Suc j"] Suc that by simp
    ultimately show ?thesis using 2 Suc by simp
  qed
qed

lemma find_sub_none_iff: "find_sub p s = None \<longleftrightarrow> (\<forall>j \<le> length s. \<not> starts_with p (drop j s))"
proof
  show "find_sub p s = None \<Longrightarrow> \<forall>j \<le> length s. \<not> starts_with p (drop j s)"
    unfolding find_sub_None starts_with_iff by (metis append_take_drop_id)
  assume none: "\<forall>j \<le> length s. \<not> starts_with p (drop j s)"
  show "find_sub p s = None"
    using none find_sub_Some [of p s] by (cases "find_sub p s") auto
qed

lemma starts_with_append: "starts_with p s \<Longrightarrow> starts_with p (s @ t)"
  by (auto simp: starts_with_iff)

lemma starts_with_length: "starts_with p s \<Longrightarrow> length p \<le> length s"
  by (auto simp: starts_with_iff)

lemma starts_with_take: "starts_with p s \<longleftrightarrow> take (length p) s = p"
  unfolding starts_with_iff by (metis append_eq_conv_conj append_take_drop_id)

lemma starts_with_prefix:
  "starts_with p (drop j (s @ t)) \<Longrightarrow> j + length p \<le> length s \<Longrightarrow> starts_with p (drop j s)"
  by (simp add: starts_with_take)

text \<open>
  The text holds its first field marker, of either form, right after \<open>pre\<close>; when that is the short
  form, the long one occurs nowhere.
\<close>

definition marks :: "streamer \<Rightarrow> string \<Rightarrow> string \<Rightarrow> string \<Rightarrow> bool" where
  "marks s m pre txt \<longleftrightarrow>
     starts_with m (drop (length pre) txt) \<and> take (length pre) txt = pre \<and>
     (m = fs_marker s \<or> m = fs_alt_marker s \<and> \<not> contains (fs_marker s) txt) \<and>
     (\<forall>j < length pre. \<not> starts_with (fs_marker s) (drop j txt) \<and>
        \<not> starts_with (fs_alt_marker s) (drop j txt))"

definition fresh_streamer :: "streamer \<Rightarrow> bool" where
  "fresh_streamer s \<longleftrightarrow> \<not> fs_found s \<and> \<not> fs_done s \<and> \<not> fs_escape s \<and> fs_unicode s = None \<and>
     (\<exists>field. fs_marker s = fs_marker (new_streamer field) \<and>
        fs_alt_marker s = fs_alt_marker (new_streamer field))"

lemma marker_lengths:
  "fresh_streamer s \<Longrightarrow> length (fs_marker s) = Suc (length (fs_alt_marker s)) \<and> fs_alt_marker s \<noteq> []"
  by (auto simp: fresh_streamer_def new_streamer_def)

lemma markers_differ:
  "fresh_streamer s \<Longrightarrow> starts_with (fs_marker s) t \<Longrightarrow> \<not> starts_with (fs_alt_marker s) t"
  by (auto simp: fresh_streamer_def new_streamer_def starts_with_iff quote_def)

text \<open>While the marker has not come through, the buffer holds enough of the text's tail.\<close>

definition seeking :: "streamer \<Rightarrow> string \<Rightarrow> bool" where
  "seeking s seen \<longleftrightarrow> fresh_streamer s \<and>
     (\<exists>k \<le> length seen. fs_buf s = drop k seen \<and>
        (k = 0 \<or> length (fs_marker s) + 5 \<le> length seen - k))"

lemma no_marker_yet:
  assumes f: "fresh_streamer s" and m: "marks s m pre (seen @ rest)"
    and short: "length seen < length pre + length m" and p: "p \<in> {fs_marker s, fs_alt_marker s}"
    and j: "j \<le> length seen"
  shows "\<not> starts_with p (drop j seen)"
proof
  assume occ: "starts_with p (drop j seen)"
  then have whole: "starts_with p (drop j (seen @ rest))"
    using starts_with_append [OF occ, of "drop (j - length seen) rest"] j by simp
  have fits: "j + length p \<le> length seen" using starts_with_length [OF occ] j by simp
  have ge: "length pre \<le> j"
  proof (rule ccontr)
    assume "\<not> length pre \<le> j"
    with m whole p show False by (auto simp: marks_def)
  qed
  have at: "starts_with m (drop (length pre) (seen @ rest))" using m by (simp add: marks_def)
  from m consider "m = fs_marker s" | "m = fs_alt_marker s" "\<not> contains (fs_marker s) (seen @ rest)"
    by (auto simp: marks_def)
  then show False
  proof cases
    case 1
    with fits short ge p marker_lengths [OF f] have "p = fs_alt_marker s" "j = length pre" by auto
    with at whole 1 markers_differ [OF f] show False by blast
  next
    case 2
    with fits short ge p marker_lengths [OF f] have "p = fs_marker s" by auto
    with 2 whole show False
      unfolding contains_iff starts_with_iff by (metis append_take_drop_id)
  qed
qed

text \<open>One more chunk: either the buffer still seeks, or the field starts right after the marker.\<close>

lemma seeking_feed:
  assumes sk: "seeking s seen" and m: "marks s m pre (seen @ c @ rest)"
    and short: "length (seen @ c) < length pre + length m"
  shows "fst (feed chr c s) = [] \<and> seeking (snd (feed chr c s)) (seen @ c) \<and>
    fs_marker (snd (feed chr c s)) = fs_marker s \<and>
    fs_alt_marker (snd (feed chr c s)) = fs_alt_marker s"
proof (cases "c = []")
  case True
  with sk show ?thesis by (simp add: feed_def)
next
  case False
  from sk obtain k where f: "fresh_streamer s" and k: "k \<le> length seen" "fs_buf s = drop k seen"
    "k = 0 \<or> length (fs_marker s) + 5 \<le> length seen - k" by (auto simp: seeking_def)
  have buf: "fs_buf s @ c = drop k (seen @ c)" using k by simp
  have none: "find_sub p (fs_buf s @ c) = None" if p: "p \<in> {fs_marker s, fs_alt_marker s}" for p
    unfolding buf find_sub_none_iff
    using no_marker_yet [of s m pre "seen @ c" rest p] f m short p k(1) by (auto simp: drop_drop)
  let ?s = "s\<lparr>fs_buf := fs_buf s @ c\<rparr>"
  let ?keep = "length (fs_marker s) + 5"
  have scan: "scan_for_marker ?s = (False,
      if ?keep < length (fs_buf s @ c)
      then ?s\<lparr>fs_buf := drop (length (fs_buf s @ c) - ?keep) (fs_buf s @ c), fs_pos := 0\<rparr> else ?s)"
    using none by (simp add: scan_for_marker_def Let_def)
  have fed: "feed chr c s = ([], snd (scan_for_marker ?s))"
    using f False scan by (simp add: feed_def fresh_streamer_def)
  show ?thesis
  proof (cases "?keep < length (fs_buf s @ c)")
    case True
    define k' where "k' = length (seen @ c) - ?keep"
    have "drop (length (fs_buf s @ c) - ?keep) (fs_buf s @ c) = drop k' (seen @ c)"
      using True k(1) unfolding buf k'_def by (simp add: drop_drop)
    moreover have "k' \<le> length (seen @ c)" "?keep \<le> length (seen @ c) - k'"
      using True k(1) unfolding buf k'_def by simp_all
    ultimately show ?thesis
      using True f unfolding fed scan by (auto simp: seeking_def fresh_streamer_def)
  next
    case False
    have "k \<le> length (seen @ c) \<and> (k = 0 \<or> ?keep \<le> length (seen @ c) - k)" using k(1,3) by auto
    then have "\<exists>k \<le> length (seen @ c). fs_buf ?s = drop k (seen @ c) \<and>
        (k = 0 \<or> ?keep \<le> length (seen @ c) - k)"
      using buf by (intro exI [of _ k]) simp
    moreover have "fresh_streamer ?s" using f by (simp add: fresh_streamer_def)
    ultimately have "seeking ?s (seen @ c)" unfolding seeking_def by simp
    then show ?thesis using False unfolding fed scan by simp
  qed
qed

lemma found_feed:
  assumes sk: "seeking s seen" and m: "marks s m pre (seen @ c @ rest)"
    and before: "length seen < length pre + length m" and after: "length pre + length m \<le> length (seen @ c)"
  shows "\<exists>t b p. feed chr c s = consume chr (drop (length pre + length m) (seen @ c)) t \<and>
    t = s\<lparr>fs_found := True, fs_buf := b, fs_pos := p\<rparr> \<and>
    length b = p + length (drop (length pre + length m) (seen @ c))"
proof -
  from sk obtain k where f: "fresh_streamer s" and k: "k \<le> length seen" "fs_buf s = drop k seen"
    "k = 0 \<or> length (fs_marker s) + 5 \<le> length seen - k" by (auto simp: seeking_def)
  have lens: "length m \<le> length (fs_marker s)"
    using m marker_lengths [OF f] by (auto simp: marks_def)
  have kpre: "k \<le> length pre" using k(3) before lens by auto
  have buf: "fs_buf s @ c = drop k (seen @ c)" using k by simp
  have whole: "starts_with p (drop j (seen @ c @ rest))" if "starts_with p (drop j (seen @ c))" "j \<le> length (seen @ c)" for p j
    using starts_with_append [OF that(1), of "rest"] that(2) by simp
  have at: "starts_with m (drop (length pre - k) (fs_buf s @ c))"
  proof -
    have "starts_with m (drop (length pre) ((seen @ c) @ rest))" using m by (simp add: marks_def)
    then have "starts_with m (drop (length pre) (seen @ c))" using after by (rule starts_with_prefix)
    then show ?thesis unfolding buf drop_drop using kpre by (simp only: le_add_diff_inverse2)
  qed
  have before_at: "\<not> starts_with q (drop j (fs_buf s @ c))"
    if "q \<in> {fs_marker s, fs_alt_marker s}" "j < length pre - k" for q j
  proof
    assume "starts_with q (drop j (fs_buf s @ c))"
    then have "starts_with q (drop (j + k) (seen @ c))" by (simp only: buf drop_drop)
    moreover have "j + k \<le> length (seen @ c)" using that(2) after by linarith
    ultimately have "starts_with q (drop (j + k) (seen @ c @ rest))" by (rule whole)
    moreover have "j + k < length pre" using that(2) by linarith
    ultimately show False using m that(1) by (auto simp: marks_def)
  qed
  have first: "find_sub m (fs_buf s @ c) = Some (length pre - k)"
  proof (rule find_sub_first_at [OF at])
    show "length pre - k \<le> length (fs_buf s @ c)" unfolding buf using after by simp
    show "\<not> starts_with m (drop j (fs_buf s @ c))" if "j < length pre - k" for j
      using before_at [OF _ that] m by (auto simp: marks_def)
  qed
  let ?s = "s\<lparr>fs_buf := fs_buf s @ c\<rparr>"
  have scan: "scan_for_marker ?s = (True, ?s\<lparr>fs_pos := length pre - k + length m, fs_found := True\<rparr>)"
  proof (cases "m = fs_marker s")
    case True
    with first show ?thesis by (simp add: scan_for_marker_def)
  next
    case False
    with m have alt: "m = fs_alt_marker s" "\<not> contains (fs_marker s) (seen @ c @ rest)"
      by (auto simp: marks_def)
    have "find_sub (fs_marker s) (fs_buf s @ c) = None"
    proof (rule ccontr)
      assume "find_sub (fs_marker s) (fs_buf s @ c) \<noteq> None"
      then obtain u v where "fs_buf s @ c = u @ fs_marker s @ v" unfolding find_sub_None by blast
      then have "seen @ c @ rest = (take k seen @ u) @ fs_marker s @ v @ rest"
        using k(2) by (metis append.assoc append_take_drop_id)
      with alt(2) show False unfolding contains_iff by blast
    qed
    with first alt(1) show ?thesis by (simp add: scan_for_marker_def)
  qed
  have "c \<noteq> []" using before after by auto
  let ?t = "s\<lparr>fs_found := True, fs_buf := fs_buf s @ c, fs_pos := length pre - k + length m\<rparr>"
  have t: "?s\<lparr>fs_pos := length pre - k + length m, fs_found := True\<rparr> = ?t" by (cases s) simp
  have "feed chr c s = consume chr (drop (length pre - k + length m) (fs_buf s @ c)) ?t"
    using f \<open>c \<noteq> []\<close> scan [unfolded t] by (simp add: feed_def fresh_streamer_def)
  moreover have "drop (length pre - k + length m) (fs_buf s @ c) = drop (length pre + length m) (seen @ c)"
  proof -
    have "length pre - k + length m + k = length pre + length m" using kpre by simp
    then show ?thesis unfolding buf drop_drop by (simp only:)
  qed
  moreover have "length (fs_buf s @ c) =
      (length pre - k + length m) + length (drop (length pre + length m) (seen @ c))"
    unfolding buf using after kpre k(1) by simp
  ultimately show ?thesis by (intro exI conjI) (simp, rule refl, assumption)
qed

text \<open>
  However the text is cut into chunks, what is emitted is the decoding of what follows the marker.
\<close>

lemma feed_all_seeking:
  assumes "seeking s seen" and "marks s m pre (seen @ concat cs)"
    and "length seen < length pre + length m"
    and "length pre + length m \<le> length (seen @ concat cs)"
  shows "fst (feed_all chr cs s) = fst (consume chr (drop (length pre + length m) (seen @ concat cs)) s) \<and>
    fs_done (snd (feed_all chr cs s)) =
      fs_done (snd (consume chr (drop (length pre + length m) (seen @ concat cs)) s))"
  using assms
proof (induction cs arbitrary: s seen)
  case Nil
  then show ?case by simp
next
  case (Cons c cs)
  let ?n = "length pre + length m"
  have fs: "fresh_streamer s" using Cons.prems(1) by (simp add: seeking_def)
  have m: "marks s m pre (seen @ c @ concat cs)" using Cons.prems(2) by simp
  show ?case
  proof (cases "length (seen @ c) < ?n")
    case True
    obtain s1 where fc: "feed chr c s = ([], s1)" and sk: "seeking s1 (seen @ c)"
      and mk: "fs_marker s1 = fs_marker s" "fs_alt_marker s1 = fs_alt_marker s"
      using seeking_feed [OF Cons.prems(1) m True, of chr] by (metis prod.collapse)
    have m1: "marks s1 m pre ((seen @ c) @ concat cs)" using m mk by (simp add: marks_def)
    have "fresh_streamer s1" using sk by (simp add: seeking_def)
    with fs have rd: "reading s1 = reading s" by (auto simp: reading_def fresh_streamer_def)
    have dn: "fs_done (snd (consume chr x s1)) = fs_done (snd (consume chr x s))" for x
      using consume_reading [OF rd, of chr x] by (simp add: reading_def)
    have fa: "feed_all chr (c # cs) s = feed_all chr cs s1" by (simp add: fc split: prod.split)
    show ?thesis
      using Cons.IH [OF sk m1 True] Cons.prems(4) consume_reading [OF rd, of chr] dn
      unfolding fa by simp
  next
    case False
    then have after: "?n \<le> length (seen @ c)" by simp
    obtain t b p where fc: "feed chr c s = consume chr (drop ?n (seen @ c)) t"
      and t: "t = s\<lparr>fs_found := True, fs_buf := b, fs_pos := p\<rparr>"
      and len: "length b = p + length (drop ?n (seen @ c))"
      using found_feed [OF Cons.prems(1) m Cons.prems(3) after, of chr] by blast
    have rd: "reading t = reading s" by (simp add: t reading_def)
    have nd: "\<not> fs_done t" using fs t by (simp add: fresh_streamer_def)
    have sel: "fs_found t" "fs_pos t = p" "fs_buf t = b" by (simp_all add: t)
    obtain out u where cu: "consume chr (drop ?n (seen @ c)) t = (out, u)" by fastforce
    have "drained u"
      using consume_keeps [of chr "drop ?n (seen @ c)" t] cu sel len by (auto simp: drained_def)
    have split: "drop ?n (seen @ concat (c # cs)) = drop ?n (seen @ c) @ concat cs"
      using after by simp
    have "fst (feed_all chr (c # cs) s) = fst (consume chr (drop ?n (seen @ concat (c # cs))) t) \<and>
      fs_done (snd (feed_all chr (c # cs) s)) =
        fs_done (snd (consume chr (drop ?n (seen @ concat (c # cs))) t))"
    proof (cases "fs_done u")
      case True
      then show ?thesis unfolding split consume_append [OF nd] by (simp add: fc cu feed_all_done del: drop_append)
    next
      case False
      from feed_all_drained [OF \<open>drained u\<close> False, of chr cs] False show ?thesis
        unfolding split consume_append [OF nd] by (auto simp: fc cu simp del: drop_append split: prod.split)
    qed
    with consume_reading [OF rd, of chr "drop ?n (seen @ concat (c # cs))"] show ?thesis
      by (simp add: reading_def)
  qed
qed

section \<open>Properties\<close>

text \<open>
  The specification of the encoder: \<open>json.dumps\<close> of a text of code points below 256, without the
  surrounding quotes.
\<close>

definition hex_char :: "nat \<Rightarrow> char" where
  "hex_char n = (if n < 10 then char_of (48 + n) else char_of (87 + n))"

definition json_escape :: "char \<Rightarrow> string" where
  "json_escape c =
     (if c = quote then [backslash, quote] else if c = backslash then [backslash, backslash]
      else if c = CHR 0x08 then [backslash] @ ''b'' else if c = CHR 0x0C then [backslash] @ ''f''
      else if c = CHR 0x0A then [backslash] @ ''n'' else if c = CHR 0x0D then [backslash] @ ''r''
      else if c = CHR 0x09 then [backslash] @ ''t''
      else let n = of_char c :: nat in
           if 32 \<le> n \<and> n < 127 then [c]
           else [backslash] @ ''u00'' @ [hex_char (n div 16), hex_char (n mod 16)])"

definition json_text :: "string \<Rightarrow> string" where
  "json_text cs = concat (map json_escape cs)"

lemma hex_char_digit: "n < 16 \<Longrightarrow> hex_digit (hex_char n) = Some n"
  by (auto simp: hex_digit_def hex_char_def Let_def of_char_of take_bit_eq_mod)

lemma hex_digit_not_space: "hex_digit c = Some v \<Longrightarrow> \<not> py_space c"
  by (auto simp: hex_digit_def py_space_def Let_def split: if_splits)

lemma int16_two_digits:
  assumes "h < 16" and "l < 16"
  shows "int16 (''00'' @ [hex_char h, hex_char l]) = Some (int (16 * h + l))"
proof -
  have strip: "strip (''00'' @ [hex_char h, hex_char l]) = ''00'' @ [hex_char h, hex_char l]"
    using hex_digit_not_space [OF hex_char_digit [OF assms(2)]] by (simp add: strip_def lstrip_def rstrip_def py_space_def)
  have neq: "hex_char h \<noteq> CHR ''x''" "hex_char h \<noteq> CHR ''X''"
    using hex_char_digit [OF assms(1)] by (auto simp: hex_digit_def)
  have zero: "hex_digit (CHR ''0'') = Some 0" by (simp add: hex_digit_def)
  show ?thesis
    unfolding int16_def strip
    using assms zero by (simp add: hex_unsigned_def hex_body_def hex_char_digit)
qed

text \<open>One encoded character is decoded to itself, except that \<open>\b\<close> and \<open>\f\<close> become letters.\<close>

lemma consume_escape:
  assumes chr: "\<And>x. chr (of_char (x :: char)) = [x]" and c: "c \<noteq> CHR 0x08" "c \<noteq> CHR 0x0C"
    and s: "reading s = (False, False, None)"
  shows "\<exists>t. consume chr (json_escape c) s = ([c], t) \<and> reading t = (False, False, None)"
proof -
  have s': "\<not> fs_done s" "\<not> fs_escape s" "fs_unicode s = None" using s by (simp_all add: reading_def)
  define n where "n = (of_char c :: nat)"
  have n: "n < 256" unfolding n_def by simp
  have split: "16 * (n div 16) + n mod 16 = n" by simp
  have code: "int16 (''00'' @ [hex_char (n div 16), hex_char (n mod 16)]) = Some (int n)"
    using int16_two_digits [of "n div 16" "n mod 16"] n by (simp only: split)
  have distinct: "backslash \<noteq> quote" by (simp add: backslash_def quote_def)
  show ?thesis
  proof (cases "c \<in> {quote, backslash, CHR 0x0A, CHR 0x0D, CHR 0x09}")
    case True
    with s' distinct show ?thesis
      by (auto simp: json_escape_def read_char_def reading_def escape_text_def quote_def backslash_def)
  next
    case False
    show ?thesis
    proof (cases "32 \<le> n \<and> n < 127")
      case True
      with False c s' show ?thesis
        by (auto simp: json_escape_def read_char_def reading_def n_def [symmetric] Let_def)
    next
      case False': False
      have "json_escape c = [backslash] @ ''u00'' @ [hex_char (n div 16), hex_char (n mod 16)]"
        using False False' c by (auto simp: json_escape_def n_def [symmetric] Let_def)
      with s' code chr [of c] show ?thesis
        by (simp add: read_char_def reading_def unicode_digit_def n_def [symmetric] Let_def distinct)
    qed
  qed
qed

lemma consume_json_text:
  assumes chr: "\<And>x. chr (of_char (x :: char)) = [x]"
  shows "reading s = (False, False, None) \<Longrightarrow> CHR 0x08 \<notin> set v \<Longrightarrow> CHR 0x0C \<notin> set v \<Longrightarrow>
    \<exists>t. consume chr (json_text v @ quote # rest) s = (v, t) \<and> fs_done t"
proof (induction v arbitrary: s)
  case Nil
  then show ?case
    by (auto simp: json_text_def read_char_def reading_def quote_def backslash_def)
next
  case (Cons c v)
  from Cons.prems have ne: "c \<noteq> CHR 0x08" "c \<noteq> CHR 0x0C" by auto
  obtain t where t: "consume chr (json_escape c) s = ([c], t)" "reading t = (False, False, None)"
    using consume_escape [OF chr ne Cons.prems(1)] by blast
  obtain u where "consume chr (json_text v @ quote # rest) t = (v, u)" "fs_done u"
    using Cons.IH [OF t(2)] Cons.prems by auto
  moreover have "\<not> fs_done s" "\<not> fs_done t" using Cons.prems(1) t(2) by (simp_all add: reading_def)
  ultimately show ?case
    using consume_append [of s chr "json_escape c" "json_text v @ quote # rest"] t(1)
    by (simp add: json_text_def)
qed

lemma new_streamer_start:
  "seeking (new_streamer field) []" "fresh_streamer (new_streamer field)"
  "reading (new_streamer field) = (False, False, None)"
  by (auto simp: seeking_def fresh_streamer_def new_streamer_def reading_def)

lemma marks_length: "marks s m pre txt \<Longrightarrow> length pre + length m \<le> length txt"
  using starts_with_length [of m "drop (length pre) txt"] by (cases "length pre \<le> length txt") (auto simp: marks_def dest: arg_cong [of _ _ length])

text \<open>
  However a text is cut into chunks, \<open>JsonFieldStreamer\<close> emits in total what its decoding loop
  makes of everything behind the first field marker, and has closed the field exactly when that text
  contains the closing quote.  The marker may straddle chunks and the retained window of the buffer.
\<close>

theorem chunking_is_invisible:
  assumes "marks (new_streamer field) m pre (concat chunks)"
  shows "fst (feed_all chr chunks (new_streamer field)) =
      fst (consume chr (drop (length pre + length m) (concat chunks)) (new_streamer field)) \<and>
    fs_done (snd (feed_all chr chunks (new_streamer field))) =
      fs_done (snd (consume chr (drop (length pre + length m) (concat chunks)) (new_streamer field)))"
proof -
  have "seeking (new_streamer field) []" "length ([] :: string) < length pre + length m"
    using assms new_streamer_start by (auto simp: marks_def new_streamer_def)
  from feed_all_seeking [of "new_streamer field" "[]" m pre chunks chr] this assms marks_length [OF assms]
  show ?thesis by simp
qed

lemma feed_all_json_text:
  assumes "\<And>x. chr (of_char (x :: char)) = [x]"
    and "marks (new_streamer field) m pre (pre @ m @ json_text v @ quote # rest)"
    and "CHR 0x08 \<notin> set v" and "CHR 0x0C \<notin> set v"
    and "concat chunks = pre @ m @ json_text v @ quote # rest"
  shows "fst (feed_all chr chunks (new_streamer field)) = v \<and>
    fs_done (snd (feed_all chr chunks (new_streamer field)))"
proof -
  have seek: "seeking (new_streamer field) []" "length ([] :: string) < length pre + length m"
    using assms(2) new_streamer_start by (auto simp: marks_def new_streamer_def)
  have "drop (length pre + length m) (concat chunks) = json_text v @ quote # rest" using assms(5) by simp
  moreover obtain t where "consume chr (json_text v @ quote # rest) (new_streamer field) = (v, t)" "fs_done t"
    using consume_json_text [OF assms(1) new_streamer_start(3) assms(3,4)] by blast
  ultimately show ?thesis
    using feed_all_seeking [of "new_streamer field" "[]" m pre chunks chr] seek assms(2,5)
      marks_length [OF assms(2)] by simp
qed


subsection \<open>On a concrete document\<close>

definition sample_chunks :: "string list" where
  "sample_chunks =
     [[CHR ''{'', quote] @ ''id'' @ [quote] @ '': 1, '' @ [quote] @ ''res'',
      ''ult'' @ [quote] @ '': '', [quote] @ ''a'' @ [backslash], [quote] @ ''b'',
      [quote] @ '', '' @ [quote] @ ''x'' @ [quote, CHR ''}'']]"

definition sample_pre :: string where
  "sample_pre = [CHR ''{'', quote] @ ''id'' @ [quote] @ '': 1, ''"

definition latin1_chr :: "nat \<Rightarrow> string" where
  "latin1_chr n = [char_of n]"

lemma sample_marks:
  "marks (new_streamer ''result'') (fs_marker (new_streamer ''result'')) sample_pre (concat sample_chunks)"
  by (simp add: marks_def sample_pre_def sample_chunks_def new_streamer_def quote_def backslash_def
      All_less_Suc)

lemma sample_document:
  "concat sample_chunks =
     sample_pre @ fs_marker (new_streamer ''result'') @ json_text [CHR ''a'', quote, CHR ''b''] @
     quote # '', '' @ [quote] @ ''x'' @ [quote, CHR ''}'']"
  by (simp add: sample_chunks_def sample_pre_def new_streamer_def json_text_def json_escape_def
      quote_def backslash_def)

theorem chunking_is_invisible_witness:
  "fst (feed_all latin1_chr sample_chunks (new_streamer ''result'')) = [CHR ''a'', quote, CHR ''b''] \<and>
   fs_done (snd (feed_all latin1_chr sample_chunks (new_streamer ''result'')))"
  unfolding chunking_is_invisible [OF sample_marks, THEN conjunct1]
    chunking_is_invisible [OF sample_marks, THEN conjunct2]
  by (simp add: sample_chunks_def sample_pre_def new_streamer_def quote_def backslash_def read_char_def escape_text_def)


text \<open>The short escape of a backspace is decoded to the letter.\<close>

lemma backspace_becomes_letter:
  "reading s = (False, False, None) \<Longrightarrow> fst (consume chr (json_escape (CHR 0x08)) s) = ''b''"
  by (simp add: reading_def json_escape_def read_char_def escape_text_def quote_def backslash_def)

end
