(* ===== verification/NodeExec.thy ===== *)
theory NodeExec
  imports Scheduler NodeContext Providers FieldStreamer ToolHarness
begin

text \<open>
  What the nodes compute: \<open>_execute_tool\<close>, \<open>_execute_decision\<close>, \<open>_execute_llm_node\<close> and the helpers
  they call, of \<open>executor/executor.py\<close>.  Each is a function of the execution state when it starts
  and of the outside world, which the calls it makes change; a node reads only results that are
  recorded before it starts and never change, so the state may be taken at its start.  Since the
  world is of any type, the replies of a call may depend on anything, the interleaved calls of
  other tasks included.
\<close>

section \<open>The environment\<close>

text \<open>
  The collaborators of an \<open>Executor\<close>, and the functions of the standard library it uses:
  \<open>json.loads\<close> (a value or the text of its error), \<open>json.dumps\<close>, \<open>str\<close>, \<open>float\<close> on a text, and
  \<open>chr\<close>.  \<open>ne_request\<close> is the approval broker's \<open>request\<close>, absent without a broker, and
  \<open>ne_always\<close> its \<open>is_always_allowed\<close>.
\<close>

record 'w node_env =
  ne_settings :: settings
  ne_router :: "'w router"
  ne_harness :: "'w harness"
  ne_bus :: bool
  ne_always :: "string \<Rightarrow> 'w \<Rightarrow> bool"
  ne_request :: "(node_id \<Rightarrow> string \<Rightarrow> tool_risk \<Rightarrow> tool_args \<Rightarrow> string \<Rightarrow> 'w \<Rightarrow> bool \<times> 'w) option"
  ne_loads :: "string \<Rightarrow> string + json"
  ne_dumps :: "json \<Rightarrow> string"
  ne_str :: "json \<Rightarrow> string"
  ne_float :: "string \<Rightarrow> pyfloat option"
  ne_chr :: "nat \<Rightarrow> string"

section \<open>Values\<close>

definition attribute_error :: "json \<Rightarrow> string" where
  "attribute_error v =
     apostrophe @ type_name v @ apostrophe @ '' object has no attribute '' @ apostrophe @ ''get'' @ apostrophe"

text \<open>\<open>float(v)\<close>; an int beyond the range of floats overflows.\<close>

fun to_float :: "'w node_env \<Rightarrow> json \<Rightarrow> string + pyfloat" where
  "to_float en (JBool b) = Inr (Fin (if b then 1 else 0))"
| "to_float en (JInt i) =
     (if 2 ^ 1024 - 2 ^ 970 \<le> abs i then Inl ''int too large to convert to float''
      else Inr (Fin (of_int i)))"
| "to_float en (JFloat f) = Inr f"
| "to_float en (JStr s) =
     (case ne_float en s of
        Some f \<Rightarrow> Inr f
      | None \<Rightarrow> Inl (''could not convert string to float: '' @ apostrophe @ s @ apostrophe))"
| "to_float en v =
     Inl (''float() argument must be a string or a real number, not '' @ apostrophe @ type_name v @ apostrophe)"

fun clamp_confidence :: "pyfloat \<Rightarrow> rat \<Rightarrow> pyfloat" where
  "clamp_confidence (Fin x) d = Fin (max 0 (min 1 x))"
| "clamp_confidence _ d = Fin d"

section \<open>Prompts, budgets, tiers\<close>

definition direct_dependents :: "node \<Rightarrow> exec_state \<Rightarrow> node list" where
  "direct_dependents n st =
     (case s_plan st of
        None \<Rightarrow> []
      | Some p \<Rightarrow> filter (\<lambda>m. n_id n \<in> set (n_context_needed m) \<and> n_id m \<noteq> n_id n) (p_nodes p))"

definition node_context :: "'w node_env \<Rightarrow> exec_state \<Rightarrow> node \<Rightarrow> string" where
  "node_context en st n =
     assemble_context (ne_dumps en) n (s_results st) (direct_dependents n st) default_max_chars"

fun node_output_budget :: "settings \<Rightarrow> node_type \<Rightarrow> int" where
  "node_output_budget s THINK = bu_think (budgets s)"
| "node_output_budget s SUMMARY = bu_summary (budgets s)"
| "node_output_budget s SYNTHESIS = bu_synthesis (budgets s)"
| "node_output_budget s t = bu_result (budgets s)"

definition node_system_prompt :: "settings \<Rightarrow> node \<Rightarrow> string" where
  "node_system_prompt s n =
     (case n_type n of
        SUMMARY \<Rightarrow>
          (case n_format n of
             Some CONCISE \<Rightarrow> pr_summary_concise (prompts s)
           | Some VERBOSE \<Rightarrow> pr_summary_verbose (prompts s)
           | _ \<Rightarrow> pr_summary (prompts s))
      | THINK \<Rightarrow> pr_think (prompts s)
      | SYNTHESIS \<Rightarrow> pr_synthesis (prompts s)
      | _ \<Rightarrow> pr_result (prompts s))"

definition max_node_retries :: "settings \<Rightarrow> nat" where
  "max_node_retries s = nat (max 0 (max_llm_node_retries (resilience s)))"

definition retry_tier :: "'w node_env \<Rightarrow> int \<Rightarrow> int" where
  "retry_tier en previous =
     (if escalate_tier_on_retry (resilience (ne_settings en))
      then min (previous + 1) (highest_tier (ne_router en)) else previous)"

section \<open>Collecting model output\<close>

text \<open>The exceptions that are worth another attempt, and the others.\<close>

datatype retryable = EmptyOutput int | NoProvider string

fun retry_text :: "retryable \<Rightarrow> string" where
  "retry_text (EmptyOutput k) = ''empty model output''"
| "retry_text (NoProvider e) = e"

fun retry_tokens :: "retryable \<Rightarrow> int" where
  "retry_tokens (EmptyOutput k) = k"
| "retry_tokens (NoProvider e) = 0"

datatype llm_exc = Retryable retryable | Fatal string

fun classify :: "provider_exc \<Rightarrow> llm_exc" where
  "classify (Unavailable e) = Retryable (NoProvider e)"
| "classify (ProviderFault e) = Fatal e"
| "classify (OtherFault e) = Fatal e"

text \<open>\<open>_collect_retryable_output\<close>.\<close>

definition collect_retryable :: "stream \<Rightarrow> llm_exc + string \<times> int" where
  "collect_retryable s =
     (case collect s of
        Inl e \<Rightarrow> Inl (classify e)
      | Inr (raw, tokens) \<Rightarrow>
          if strip raw = [] then Inl (Retryable (EmptyOutput tokens)) else Inr (raw, tokens))"

text \<open>
  \<open>_stream_llm_node\<close>: the loop over the chunks, with the events it publishes; empty texts are not
  fed to the field streamer.
\<close>

fun stream_chunks ::
  "(nat \<Rightarrow> string) \<Rightarrow> (string \<Rightarrow> event_body) \<Rightarrow> chunk list \<Rightarrow> streamer \<Rightarrow> string \<times> int
     \<Rightarrow> event_body list \<times> string \<times> int"
where
  "stream_chunks chr ev [] fs acc = ([], acc)"
| "stream_chunks chr ev (c # cs) fs (parts, tokens) =
     (let (txt, fs') = (if c_text c = [] then ([], fs) else feed chr (c_text c) fs);
          tokens' = (case c_tokens c of None \<Rightarrow> tokens | Some k \<Rightarrow> k);
          (evs, acc) = stream_chunks chr ev cs fs' (parts @ c_text c, tokens')
      in ((if txt = [] then [] else [ev txt]) @ evs, acc))"

definition stream_llm_node ::
  "(nat \<Rightarrow> string) \<Rightarrow> (string \<Rightarrow> event_body) \<Rightarrow> string \<Rightarrow> stream
     \<Rightarrow> event_body list \<times> (llm_exc + string \<times> int)"
where
  "stream_llm_node chr ev key s =
     (let (evs, acc) = stream_chunks chr ev (fst s) (new_streamer key) ([], 0)
      in (evs, case snd s of Some e \<Rightarrow> Inl (classify e) | None \<Rightarrow> Inr acc))"

section \<open>Content nodes\<close>

text \<open>\<open>_LLM_NODE_SPECS\<close>: the label of the context, the key of the output, the default confidence.\<close>

fun llm_node_spec :: "node_type \<Rightarrow> (string \<times> string \<times> rat) option" where
  "llm_node_spec SYNTHESIS = Some (''Context from prior nodes:'', ''output'', 9 / 10)"
| "llm_node_spec THINK = Some (''Context from prior nodes:'', ''reasoning'', 7 / 10)"
| "llm_node_spec SUMMARY = Some (''Context to summarise:'', ''summary'', 9 / 10)"
| "llm_node_spec RESULT = Some (''Context from prior nodes:'', ''output'', 9 / 10)"
| "llm_node_spec _ = None"

definition streaming_type :: "node_type \<Rightarrow> bool" where
  "streaming_type t \<longleftrightarrow> t = THINK \<or> t = SYNTHESIS \<or> t = SUMMARY"

definition failed_result :: "node_id \<Rightarrow> string \<Rightarrow> node_result" where
  "failed_result i e = (mk_result i FAILED)\<lparr>r_error := Some e\<rparr>"

definition llm_messages :: "'w node_env \<Rightarrow> exec_state \<Rightarrow> node \<Rightarrow> string \<Rightarrow> message list" where
  "llm_messages en st n label =
     [system_message (node_system_prompt (ne_settings en) n),
      plain_message ''user''
        ((if n_type n = RESULT
          then ''Original user request: '' @ s_user_request st @ newline @ newline else []) @
         ''Task: '' @ n_description n @ newline @ newline @ label @ newline @ node_context en st n)]"

text \<open>Reading the output field and the confidence out of the parsed response.\<close>

definition read_response ::
  "'w node_env \<Rightarrow> node \<Rightarrow> string \<Rightarrow> rat \<Rightarrow> string \<Rightarrow> int \<Rightarrow> json \<Rightarrow> node_result"
where
  "read_response en n key dflt raw tokens data =
     (case data of
        JObj kvs \<Rightarrow>
          (case to_float en (jget_default kvs ''confidence'' (JFloat (Fin dflt))) of
             Inl e \<Rightarrow> failed_result (n_id n) e
           | Inr f \<Rightarrow>
               (mk_result (n_id n) COMPLETED)
                 \<lparr>r_output := (if jget kvs key = JNull then JStr raw else jget kvs key),
                  r_confidence := clamp_confidence f dflt, r_tokens_used := tokens\<rparr>)
      | _ \<Rightarrow> failed_result (n_id n) (attribute_error data))"

text \<open>Text that does not parse may still hold the output field.\<close>

definition parse_response ::
  "'w node_env \<Rightarrow> node \<Rightarrow> string \<Rightarrow> rat \<Rightarrow> string \<Rightarrow> int \<Rightarrow> node_result"
where
  "parse_response en n key dflt raw tokens =
     (case ne_loads en (strip_model_output raw) of
        Inr data \<Rightarrow> read_response en n key dflt raw tokens data
      | Inl e \<Rightarrow>
          (case feed (ne_chr en) raw (new_streamer key) of
             (salvaged, fs) \<Rightarrow>
               if fs_done fs \<or> salvaged \<noteq> []
               then read_response en n key dflt raw tokens (JObj [(key, JStr salvaged)])
               else failed_result (n_id n) e))"

text \<open>\<open>_execute_llm_node_once\<close>: only the retryable exceptions leave it.\<close>

definition llm_once ::
  "'w node_env \<Rightarrow> exec_state \<Rightarrow> node \<Rightarrow> string option \<Rightarrow> string \<times> string \<times> rat \<Rightarrow> int \<Rightarrow> 'w
     \<Rightarrow> event_body list \<times> (retryable + node_result) \<times> 'w"
where
  "llm_once en st n path spec tier w =
     (case spec of (label, key, dflt) \<Rightarrow>
       (case router_complete (ne_router en) (llm_messages en st n label) tier None True
               (node_output_budget (ne_settings en) (n_type n)) w of
          (s, w') \<Rightarrow>
            let (evs, got) =
                  (if streaming_type (n_type n) \<and> ne_bus en
                   then stream_llm_node (ne_chr en) (\<lambda>t. NodeOutputChunk (n_id n) (n_type n) t path) key s
                   else ([], collect_retryable s))
            in (evs,
                case got of
                  Inl (Retryable x) \<Rightarrow> Inl x
                | Inl (Fatal e) \<Rightarrow> Inr (failed_result (n_id n) e)
                | Inr (raw, tokens) \<Rightarrow>
                    if strip raw = [] then Inl (EmptyOutput tokens)
                    else Inr (parse_response en n key dflt raw tokens),
                w')))"

text \<open>
  The \<open>for attempt in range(max_retries + 1)\<close> loop of \<open>_execute_llm_node\<close>: \<open>left\<close> counts the
  attempts after this one, \<open>attempt\<close> the ones before it.
\<close>

fun llm_attempts ::
  "(int \<Rightarrow> 'w \<Rightarrow> event_body list \<times> (retryable + node_result) \<times> 'w) \<Rightarrow> (int \<Rightarrow> int) \<Rightarrow> node_id
     \<Rightarrow> nat \<Rightarrow> nat \<Rightarrow> int \<Rightarrow> int \<Rightarrow> 'w \<Rightarrow> event_body list \<times> node_result \<times> 'w"
where
  "llm_attempts once next i left attempt tier tokens w =
     (case once tier w of
        (evs, Inr r, w') \<Rightarrow>
          (evs, r\<lparr>r_tokens_used := r_tokens_used r + tokens, r_retries := attempt,
                  r_tier_used := Some tier\<rparr>, w')
      | (evs, Inl x, w') \<Rightarrow>
          (let tokens' = tokens + retry_tokens x in
           case left of
             0 \<Rightarrow> (evs, (failed_result i (retry_text x))
                      \<lparr>r_tokens_used := tokens', r_retries := attempt, r_tier_used := Some tier\<rparr>, w')
           | Suc k \<Rightarrow>
               (case llm_attempts once next i k (Suc attempt) (next tier) tokens' w' of
                  (evs', r, w'') \<Rightarrow> (evs @ evs', r, w''))))"

declare llm_attempts.simps [simp del]

definition execute_llm_node ::
  "'w node_env \<Rightarrow> exec_state \<Rightarrow> node \<Rightarrow> string option \<Rightarrow> string \<times> string \<times> rat \<Rightarrow> int \<Rightarrow> 'w
     \<Rightarrow> event_body list \<times> node_result \<times> 'w"
where
  "execute_llm_node en st n path spec tier w =
     llm_attempts (llm_once en st n path spec) (retry_tier en) (n_id n)
       (max_node_retries (ne_settings en)) 0 tier 0 w"

section \<open>Decision nodes\<close>

text \<open>\<open>node.branches and ...\<close> is \<open>branch_list\<close>; the fallback branch of a node.\<close>

definition nonempty :: "string option \<Rightarrow> string option" where
  "nonempty x = (if x = Some [] then None else x)"

definition fallback_branch :: "node \<Rightarrow> string" where
  "fallback_branch n =
     (case nonempty (n_default_branch n) of
        Some b \<Rightarrow> b
      | None \<Rightarrow> (case branch_list n of [] \<Rightarrow> ''yes'' | (b, ts) # bs \<Rightarrow> b))"

definition allowed_branches :: "node \<Rightarrow> string list" where
  "allowed_branches n =
     (if branch_list n = [] then [''yes'', ''no''] else map fst (branch_list n))"

definition decision_messages :: "'w node_env \<Rightarrow> exec_state \<Rightarrow> node \<Rightarrow> message list" where
  "decision_messages en st n =
     [system_message (pr_decision (prompts (ne_settings en))),
      plain_message ''user''
        (''Condition to evaluate: '' @ str_opt (n_condition n) @ newline @
         ''Allowed branches: '' @ ne_str en (JList (map JStr (allowed_branches n))) @ newline @ newline @
         ''Available context:'' @ newline @ node_context en st n)]"

text \<open>
  The branch and confidence of a parsed response; \<open>None\<close> is any exception, an unhashable branch
  or one that is not a text included.
\<close>

fun is_unhashable :: "json \<Rightarrow> bool" where
  "is_unhashable (JList xs) = True"
| "is_unhashable (JObj kvs) = True"
| "is_unhashable v = False"

definition read_branch :: "node \<Rightarrow> json \<Rightarrow> string option option" where
  "read_branch n branch =
     (if branch_list n = [] then
        (case branch of JStr b \<Rightarrow> Some (Some b) | JNull \<Rightarrow> Some None | _ \<Rightarrow> None)
      else if is_unhashable branch then None
      else case branch of
             JStr b \<Rightarrow> Some (Some (if b \<in> fst ` set (branch_list n) then b else fallback_branch n))
           | _ \<Rightarrow> Some (Some (fallback_branch n)))"

definition read_decision :: "'w node_env \<Rightarrow> node \<Rightarrow> json \<Rightarrow> (string option \<times> pyfloat) option" where
  "read_decision en n data =
     (case data of
        JObj kvs \<Rightarrow>
          (case to_float en (jget_default kvs ''confidence'' (JFloat (Fin (1 / 2)))) of
             Inl e \<Rightarrow> None
           | Inr f \<Rightarrow>
               map_option (\<lambda>b. (b, clamp_confidence f (1 / 2)))
                 (read_branch n
                    (jget_default kvs ''branch''
                       (JStr (case nonempty (n_default_branch n) of Some b \<Rightarrow> b | None \<Rightarrow> ''yes'')))))
      | _ \<Rightarrow> None)"

datatype decision_end = Again retryable | GiveUp int | Chosen int "string option" pyfloat

definition decision_once :: "'w node_env \<Rightarrow> exec_state \<Rightarrow> node \<Rightarrow> int \<Rightarrow> 'w \<Rightarrow> decision_end \<times> 'w" where
  "decision_once en st n tier w =
     (case router_complete (ne_router en) (decision_messages en st n) tier None True
             (bu_decision (budgets (ne_settings en))) w of
        (s, w') \<Rightarrow>
          (case collect_retryable s of
             Inl (Retryable x) \<Rightarrow> Again x
           | Inl (Fatal e) \<Rightarrow> GiveUp 0
           | Inr (raw, tokens) \<Rightarrow>
               (case ne_loads en (strip_model_output raw) of
                  Inl e \<Rightarrow> GiveUp tokens
                | Inr data \<Rightarrow>
                    (case read_decision en n data of
                       None \<Rightarrow> GiveUp tokens
                     | Some (b, f) \<Rightarrow> Chosen tokens b f)),
           w'))"

definition decision_result :: "node \<Rightarrow> string option \<Rightarrow> pyfloat \<Rightarrow> int \<Rightarrow> nat \<Rightarrow> int \<Rightarrow> node_result" where
  "decision_result n b f tokens attempt tier =
     (mk_result (n_id n) COMPLETED)
       \<lparr>r_branch_taken := b, r_confidence := f, r_tokens_used := tokens, r_retries := attempt,
        r_tier_used := Some tier\<rparr>"

fun decision_attempts ::
  "(int \<Rightarrow> 'w \<Rightarrow> decision_end \<times> 'w) \<Rightarrow> (int \<Rightarrow> int) \<Rightarrow> node \<Rightarrow> nat \<Rightarrow> nat \<Rightarrow> int \<Rightarrow> int \<Rightarrow> 'w
     \<Rightarrow> node_result \<times> 'w"
where
  "decision_attempts once next n left attempt tier tokens w =
     (case once tier w of
        (Chosen k b f, w') \<Rightarrow> (decision_result n b f (tokens + k) attempt tier, w')
      | (GiveUp k, w') \<Rightarrow>
          (decision_result n (Some (fallback_branch n)) (Fin 0) (tokens + k) attempt tier, w')
      | (Again x, w') \<Rightarrow>
          (let tokens' = tokens + retry_tokens x in
           case left of
             0 \<Rightarrow> (decision_result n (Some (fallback_branch n)) (Fin 0) tokens' attempt tier, w')
           | Suc k \<Rightarrow> decision_attempts once next n k (Suc attempt) (next tier) tokens' w'))"

declare decision_attempts.simps [simp del]

definition execute_decision :: "'w node_env \<Rightarrow> exec_state \<Rightarrow> node \<Rightarrow> int \<Rightarrow> 'w \<Rightarrow> node_result \<times> 'w" where
  "execute_decision en st n tier w =
     decision_attempts (decision_once en st n) (retry_tier en) n
       (max_node_retries (ne_settings en)) 0 tier 0 w"

section \<open>Tool nodes\<close>

text \<open>\<open>_extract_args\<close>: any exception, and any value but an object, gives no arguments.\<close>

definition extract_messages :: "'w node_env \<Rightarrow> string \<Rightarrow> string \<Rightarrow> message list" where
  "extract_messages en tool ctx =
     [system_message (pr_extract_args (prompts (ne_settings en))),
      plain_message ''user''
        (''Tool: '' @ tool @ newline @ ''Tool schema: '' @
         ne_dumps en (case schema_for (ne_harness en) tool of None \<Rightarrow> JNull | Some v \<Rightarrow> v) @
         newline @ newline @ ''Context:'' @ newline @ ctx)]"

definition extract_args :: "'w node_env \<Rightarrow> string \<Rightarrow> string \<Rightarrow> int \<Rightarrow> 'w \<Rightarrow> tool_args \<times> 'w" where
  "extract_args en tool ctx tier w =
     (case router_complete (ne_router en) (extract_messages en tool ctx) tier None True
             (bu_extract_args (budgets (ne_settings en))) w of
        (s, w') \<Rightarrow>
          (case collect s of
             Inl e \<Rightarrow> []
           | Inr (raw, tokens) \<Rightarrow>
               (case ne_loads en (strip_model_output raw) of Inr (JObj kvs) \<Rightarrow> kvs | _ \<Rightarrow> []), w'))"

text \<open>\<open>_effective_tool_policy\<close> and \<open>_approve_tool_call\<close>.\<close>

definition effective_tool_policy :: "settings \<Rightarrow> 'w harness \<Rightarrow> string \<Rightarrow> approval_policy" where
  "effective_tool_policy s h tool =
     (case map_of (ta_overrides (tool_approval s)) tool of
        Some p \<Rightarrow> p
      | None \<Rightarrow>
          if risk_for h tool = RiskWrite \<or> risk_for h tool = RiskExecute then ASK
          else ta_default (tool_approval s))"

definition approve_tool_call ::
  "'w node_env \<Rightarrow> node \<Rightarrow> string \<Rightarrow> tool_args \<Rightarrow> 'w \<Rightarrow> bool \<times> 'w"
where
  "approve_tool_call en n tool args w =
     (case effective_tool_policy (ne_settings en) (ne_harness en) tool of
        DENY \<Rightarrow> (False, w)
      | ALLOW \<Rightarrow> (True, w)
      | ASK \<Rightarrow>
          if ta_mode (tool_approval (ne_settings en)) = AUTO then (True, w)
          else (case ne_request en of
                  None \<Rightarrow> (False, w)
                | Some req \<Rightarrow>
                    if ne_always en tool w then (True, w)
                    else req (n_id n) tool (risk_for (ne_harness en) tool) args (n_description n) w))"

text \<open>\<open>_check_output_shape\<close>: when the gate itself fails the output passes.\<close>

definition shape_messages :: "'w node_env \<Rightarrow> node \<Rightarrow> string \<Rightarrow> json \<Rightarrow> message list" where
  "shape_messages en n tool out =
     [system_message (pr_shape_check (prompts (ne_settings en))),
      plain_message ''user''
        (''Tool: '' @ tool @ newline @ ''Description: '' @ n_description n @ newline @
         ''Output received:'' @ newline @ take 1000 (ne_dumps en out))]"

definition check_output_shape ::
  "'w node_env \<Rightarrow> node \<Rightarrow> string \<Rightarrow> json \<Rightarrow> int \<Rightarrow> 'w \<Rightarrow> (bool \<times> string option) \<times> 'w"
where
  "check_output_shape en n tool out tier w =
     (case router_complete (ne_router en) (shape_messages en n tool out) tier None True
             (bu_shape_check (budgets (ne_settings en))) w of
        (s, w') \<Rightarrow>
          (case collect s of
             Inl e \<Rightarrow> (True, None)
           | Inr (raw, tokens) \<Rightarrow>
               (case ne_loads en (strip_model_output raw) of
                  Inr (JObj kvs) \<Rightarrow>
                    (truthy (jget_default kvs ''matches_expectation'' (JBool True)),
                     case jget kvs ''issue'' of JStr t \<Rightarrow> Some t | _ \<Rightarrow> None)
                | _ \<Rightarrow> (True, None)), w'))"

definition denied_text :: "string \<Rightarrow> string" where
  "denied_text tool = ''user_denied: tool '' @ apostrophe @ tool @ apostrophe @ '' was not approved''"

text \<open>The call itself, and what becomes of its output.\<close>

definition call_tool ::
  "'w node_env \<Rightarrow> node \<Rightarrow> string \<Rightarrow> tool_args \<Rightarrow> int \<Rightarrow> 'w \<Rightarrow> node_result \<times> 'w"
where
  "call_tool en n tool args tier w =
     (case harness_execute (ne_harness en) tool args w of
        (Inl e, w1) \<Rightarrow> (failed_result (n_id n) (tool_error_text e), w1)
      | (Inr out, w1) \<Rightarrow>
          if out = JNull \<or> out = JObj [] \<or> out = JList []
          then ((mk_result (n_id n) EMPTY)\<lparr>r_output := out, r_args_used := Some args\<rparr>, w1)
          else case check_output_shape en n tool out tier w1 of
            ((ok, issue), w2) \<Rightarrow>
              (let r = (mk_result (n_id n) COMPLETED)\<lparr>r_output := out, r_args_used := Some args\<rparr>
               in if ok then r
                  else r\<lparr>r_confidence := Fin (1 / 2), r_flagged := True,
                         r_error := Some (''Unexpected shape: '' @ str_opt issue)\<rparr>, w2))"

definition tool_arguments :: "'w node_env \<Rightarrow> exec_state \<Rightarrow> node \<Rightarrow> string \<Rightarrow> int \<Rightarrow> 'w \<Rightarrow> tool_args \<times> 'w" where
  "tool_arguments en st n tool tier w =
     (let ctx = node_context en st n;
          args = (case n_args_template n of None \<Rightarrow> [] | Some a \<Rightarrow> a)
      in if ctx \<noteq> [] \<and> args = [] then extract_args en tool ctx tier w else (args, w))"

definition execute_tool :: "'w node_env \<Rightarrow> exec_state \<Rightarrow> node \<Rightarrow> int \<Rightarrow> 'w \<Rightarrow> node_result \<times> 'w" where
  "execute_tool en st n tier w =
     (case n_tool n of
        None \<Rightarrow> (failed_result (n_id n) ''TOOL node has no tool name'', w)
      | Some tool \<Rightarrow>
          (case tool_arguments en st n tool tier w of
             (args, w1) \<Rightarrow>
               (case approve_tool_call en n tool args w1 of
                  (False, w2) \<Rightarrow> (failed_result (n_id n) (denied_text tool), w2)
                | (True, w2) \<Rightarrow> call_tool en n tool args tier w2)))"

section \<open>Dispatch\<close>

text \<open>\<open>_dispatch_node\<close> on every node but a subplan.\<close>

definition dispatch_leaf ::
  "'w node_env \<Rightarrow> exec_state \<Rightarrow> node \<Rightarrow> string option \<Rightarrow> 'w \<Rightarrow> event_body list \<times> node_result \<times> 'w"
where
  "dispatch_leaf en st n path w =
     (let tier = select_tier (ne_settings en) n in
      if n_type n = TOOL then ([], execute_tool en st n tier w)
      else if n_type n = DECISION then ([], execute_decision en st n tier w)
      else case llm_node_spec (n_type n) of
             Some spec \<Rightarrow> execute_llm_node en st n path spec tier w
           | None \<Rightarrow> ([], failed_result (n_id n) (''Unknown node type: '' @ node_type_value (n_type n)), w))"

end
