(* ===== verification/NodeProperties.thy ===== *)
theory NodeProperties
  imports NodeExec PlanValidator
begin

text \<open>
  Facts on what the nodes compute: the retry loops, the range of confidences, the branch of a
  decision, the approval gate, and that streaming only adds events.
\<close>

section \<open>Well-formed results\<close>

text \<open>A confidence is a number between zero and one: in particular never NaN.\<close>

definition unit_float :: "pyfloat \<Rightarrow> bool" where
  "unit_float f \<longleftrightarrow> (\<exists>x. f = Fin x \<and> 0 \<le> x \<and> x \<le> 1)"

lemma unit_float_Fin [simp]: "unit_float (Fin x) \<longleftrightarrow> 0 \<le> x \<and> x \<le> 1"
  by (simp add: unit_float_def)

lemma clamp_unit: "0 \<le> d \<Longrightarrow> d \<le> 1 \<Longrightarrow> unit_float (clamp_confidence f d)"
  by (cases f) simp_all

definition result_ok :: "node_id \<Rightarrow> node_result \<Rightarrow> bool" where
  "result_ok i r \<longleftrightarrow> r_node_id r = i \<and> unit_float (r_confidence r) \<and>
     r_status r \<in> {COMPLETED, FAILED, EMPTY} \<and> (r_status r = FAILED \<longrightarrow> r_error r \<noteq> None)"

lemma result_ok_mk:
  "st \<in> {COMPLETED, EMPTY} \<Longrightarrow> result_ok i (mk_result i st)" "result_ok i (failed_result i e)"
  by (auto simp: result_ok_def mk_result_def failed_result_def)

lemma result_ok_update [simp]:
  "result_ok i (r\<lparr>r_tokens_used := a\<rparr>) = result_ok i r"
  "result_ok i (r\<lparr>r_retries := b\<rparr>) = result_ok i r"
  "result_ok i (r\<lparr>r_tier_used := c\<rparr>) = result_ok i r"
  "result_ok i (r\<lparr>r_output := v\<rparr>) = result_ok i r"
  "result_ok i (r\<lparr>r_args_used := u\<rparr>) = result_ok i r"
  by (simp_all add: result_ok_def)

section \<open>The retry loops\<close>

text \<open>
  \<open>k\<close> attempts that all ended retryably, from a tier and a world to the nxt attempt's tier and
  world, with the events they published and the tokens they report.
\<close>

inductive retried ::
  "(int \<Rightarrow> 'w \<Rightarrow> 'e list \<times> (retryable + 'r) \<times> 'w) \<Rightarrow> (int \<Rightarrow> int) \<Rightarrow> nat \<Rightarrow> int \<Rightarrow> 'w \<Rightarrow> 'e list \<Rightarrow> int
     \<Rightarrow> int \<Rightarrow> 'w \<Rightarrow> bool"
  for once :: "int \<Rightarrow> 'w \<Rightarrow> 'e list \<times> (retryable + 'r) \<times> 'w" and nxt :: "int \<Rightarrow> int"
where
  retried_0: "retried once nxt 0 tier w [] 0 tier w"
| retried_Suc: "once tier w = (evs, Inl x, w1) \<Longrightarrow> retried once nxt k (nxt tier) w1 evs' tokens tier' w' \<Longrightarrow>
     retried once nxt (Suc k) tier w (evs @ evs') (retry_tokens x + tokens) tier' w'"

lemma retried_tier: "retried once nxt k tier w evs tokens tier' w' \<Longrightarrow> tier' = (nxt ^^ k) tier"
  by (induction rule: retried.induct) (simp_all add: funpow_swap1)

text \<open>
  What the loop computes: some retryable attempts, then one more that either gives the result or
  was the last one allowed.
\<close>

fun last_attempt :: "node_id \<Rightarrow> nat \<Rightarrow> int \<Rightarrow> int \<Rightarrow> retryable + node_result \<Rightarrow> node_result" where
  "last_attempt i attempt tier tokens (Inr r) =
     r\<lparr>r_tokens_used := r_tokens_used r + tokens, r_retries := attempt, r_tier_used := Some tier\<rparr>"
| "last_attempt i attempt tier tokens (Inl x) =
     (failed_result i (retry_text x))
       \<lparr>r_tokens_used := tokens + retry_tokens x, r_retries := attempt, r_tier_used := Some tier\<rparr>"

lemma llm_attempts_spec:
  assumes "llm_attempts once nxt i left attempt tier tokens w = (evs, r, w')"
  shows "\<exists>k evs1 tok tier' w1 evs2 out.
    k \<le> left \<and> retried once nxt k tier w evs1 tok tier' w1 \<and> once tier' w1 = (evs2, out, w') \<and>
    evs = evs1 @ evs2 \<and> r = last_attempt i (attempt + k) tier' (tokens + tok) out \<and>
    (k < left \<longrightarrow> \<not> isl out)"
  using assms
proof (induction left arbitrary: attempt tier tokens w evs)
  case (0 attempt tier tokens w evs)
  obtain evs2 out w1 where o: "once tier w = (evs2, out, w1)" by (metis prod_cases3)
  with 0 have "evs = evs2 \<and> w1 = w' \<and> r = last_attempt i attempt tier tokens out"
    by (cases out) (simp_all add: llm_attempts.simps [of once nxt i 0] Let_def)
  with o retried_0 [of once nxt tier w] show ?case by fastforce
next
  case (Suc left attempt tier tokens w evs)
  obtain evs0 out w0 where o: "once tier w = (evs0, out, w0)" by (metis prod_cases3)
  show ?case
  proof (cases out)
    case (Inr r0)
    with Suc.prems o have "evs = evs0 \<and> w0 = w' \<and> r = last_attempt i attempt tier tokens out"
      by (simp add: llm_attempts.simps [of once nxt i "Suc left"])
    with o Inr retried_0 [of once nxt tier w] show ?thesis by fastforce
  next
    case (Inl x)
    obtain evs1 r1 w1 where rec:
      "llm_attempts once nxt i left (Suc attempt) (nxt tier) (tokens + retry_tokens x) w0 = (evs1, r1, w1)"
      by (metis prod_cases3)
    with Suc.prems o Inl have eq: "evs = evs0 @ evs1" "r1 = r" "w1 = w'"
      by (simp_all add: llm_attempts.simps [of once nxt i "Suc left"] Let_def)
    obtain k evs' tok tier' w2 evs2 out2 where
      k: "k \<le> left" "retried once nxt k (nxt tier) w0 evs' tok tier' w2" "once tier' w2 = (evs2, out2, w')"
        "evs1 = evs' @ evs2" "r = last_attempt i (Suc attempt + k) tier' (tokens + retry_tokens x + tok) out2"
        "k < left \<longrightarrow> \<not> isl out2"
      using Suc.IH [OF rec [unfolded eq(2,3)]] by blast
    have "retried once nxt (Suc k) tier w (evs0 @ evs') (retry_tokens x + tok) tier' w2"
      using o Inl k(2) by (auto intro: retried_Suc)
    moreover have "r = last_attempt i (attempt + Suc k) tier' (tokens + (retry_tokens x + tok)) out2"
      using k(5) by (simp only: add.assoc add_Suc_right add_Suc)
    moreover have "evs = (evs0 @ evs') @ evs2" using k(4) eq(1) by simp
    moreover have "Suc k \<le> Suc left" "Suc k < Suc left \<longrightarrow> \<not> isl out2" using k(1,6) by simp_all
    ultimately show ?thesis using k(3) by blast
  qed
qed

lemma retry_tier_le: "(retry_tier en ^^ k) tier \<le> max tier (highest_tier (ne_router en))"
proof (induction k)
  case (Suc k)
  then show ?case by (auto simp: retry_tier_def)
qed simp

lemma decision_attempts_spec:
  assumes once: "\<And>t v. case once t v of (Chosen k b f, v') \<Rightarrow> P b f | _ \<Rightarrow> True"
    and dflt: "P (Some (fallback_branch n)) (Fin 0)"
  shows "case decision_attempts once nxt n left attempt tier tokens w of
    (r, w') \<Rightarrow> r_node_id r = n_id n \<and> r_status r = COMPLETED \<and> r_retries r \<le> attempt + left \<and>
      P (r_branch_taken r) (r_confidence r)"
proof (induction left arbitrary: attempt tier tokens w)
  case (0 attempt tier tokens w)
  obtain d w1 where o: "once tier w = (d, w1)" by fastforce
  with once [of tier w] dflt show ?case
    by (cases d) (simp_all add: decision_attempts.simps [of once nxt n 0] decision_result_def mk_result_def Let_def)
next
  case (Suc left attempt tier tokens w)
  obtain d w1 where o: "once tier w = (d, w1)" by fastforce
  show ?case
  proof (cases d)
    case (Again x)
    with o Suc [of "Suc attempt" "nxt tier" "tokens + retry_tokens x" w1] show ?thesis
      by (simp add: decision_attempts.simps [of once nxt n "Suc left"] Let_def)
  qed (use o once [of tier w] dflt in
      \<open>simp_all add: decision_attempts.simps [of once nxt n "Suc left"] decision_result_def mk_result_def\<close>)
qed

lemma fallback_is_branch:
  assumes "branch_list n \<noteq> []" and "\<And>b. n_default_branch n = Some b \<Longrightarrow> b \<in> fst ` set (branch_list n)"
  shows "fallback_branch n \<in> fst ` set (branch_list n)"
  using assms
  by (cases "branch_list n") (auto simp: fallback_branch_def nonempty_def split: option.splits)

lemma read_decision_unit: "read_decision en n data = Some (b, f) \<Longrightarrow> unit_float f"
  using clamp_unit [of "1 / 2"]
  by (auto simp: read_decision_def split: json.splits sum.splits)

lemma read_decision_branch:
  assumes "read_decision en n data = Some (b, f)" and "branch_list n \<noteq> []"
    and "fallback_branch n \<in> fst ` set (branch_list n)"
  shows "\<exists>x \<in> fst ` set (branch_list n). b = Some x"
  using assms by (auto simp: read_decision_def read_branch_def split: json.splits sum.splits if_splits)

lemma decision_once_chosen:
  "decision_once en st n tier w = (Chosen k b f, w') \<Longrightarrow> \<exists>data. read_decision en n data = Some (b, f)"
  by (auto simp: decision_once_def split: prod.splits sum.splits llm_exc.splits option.splits)

lemma execute_decision_spec:
  assumes "P (Some (fallback_branch n)) (Fin 0)"
    and "\<And>data b f. read_decision en n data = Some (b, f) \<Longrightarrow> P b f"
  shows "case execute_decision en st n tier w of
    (r, w') \<Rightarrow> r_node_id r = n_id n \<and> r_status r = COMPLETED \<and>
      r_retries r \<le> max_node_retries (ne_settings en) \<and> P (r_branch_taken r) (r_confidence r)"
proof -
  have "case decision_once en st n t v of (Chosen k b f, v') \<Rightarrow> P b f | _ \<Rightarrow> True" for t v
    using decision_once_chosen [of en st n t v] assms(2) by (auto split: prod.splits decision_end.splits)
  from decision_attempts_spec [where once = "decision_once en st n" and P = P, OF this assms(1),
      where nxt = "retry_tier en" and left = "max_node_retries (ne_settings en)" and attempt = 0
        and tier = tier and tokens = 0 and w = w]
  show ?thesis by (simp add: execute_decision_def)
qed

text \<open>The contract the validator enforces on decisions gives both conditions.\<close>

lemma decision_contract:
  assumes "check_node_contract n = Inr ()" and "n_type n = DECISION"
  shows "branch_list n \<noteq> []" and "fallback_branch n \<in> fst ` set (branch_list n)"
proof -
  from assms obtain bs d where b: "n_branches n = Some bs" "set (map fst bs) = {''yes'', ''no''}"
    "n_default_branch n = Some d" "d \<in> set (map fst bs)"
    by (auto simp: check_node_contract_def check_decision_contract_def split: if_splits option.splits)
  then have bl: "branch_list n = bs" by (simp add: branch_list_def)
  have "bs \<noteq> []" using b(2) by (cases bs) simp_all
  with bl show "branch_list n \<noteq> []" by simp
  with bl b(3,4) show "fallback_branch n \<in> fst ` set (branch_list n)"
    by (intro fallback_is_branch) (simp_all add: b(3))
qed

section \<open>Every result is well formed\<close>

lemma unit_specs: "llm_node_spec t = Some (label, key, d) \<Longrightarrow> 0 \<le> d \<and> d \<le> 1"
  by (cases t) auto

lemma read_response_ok:
  "0 \<le> d \<Longrightarrow> d \<le> 1 \<Longrightarrow> result_ok (n_id n) (read_response en n key d raw tokens data)"
  using clamp_unit [of d]
  by (auto simp: read_response_def result_ok_def failed_result_def mk_result_def split: json.splits sum.splits)

lemma parse_response_ok:
  "0 \<le> d \<Longrightarrow> d \<le> 1 \<Longrightarrow> result_ok (n_id n) (parse_response en n key d raw tokens)"
  by (auto simp: parse_response_def read_response_ok result_ok_mk split: sum.splits prod.splits)

lemma llm_once_ok:
  assumes "llm_node_spec t = Some spec" and "llm_once en st n path spec tier w = (evs, Inr r, w')"
  shows "result_ok (n_id n) r"
proof -
  obtain label key d where spec: "spec = (label, key, d)" by (metis prod_cases3)
  with unit_specs [of t label key d] assms(1) have d: "0 \<le> d" "d \<le> 1" by auto
  obtain s v where rc: "router_complete (ne_router en) (llm_messages en st n label) tier None True
      (node_output_budget (ne_settings en) (n_type n)) w = (s, v)" by fastforce
  show ?thesis
    using assms(2) result_ok_mk(2) parse_response_ok [OF d]
    by (auto simp: llm_once_def spec rc Let_def split: prod.splits sum.splits llm_exc.splits if_splits)
qed

lemma execute_llm_node_ok:
  assumes "llm_node_spec t = Some spec" and "execute_llm_node en st n path spec tier w = (evs, r, w')"
  shows "result_ok (n_id n) r"
proof -
  obtain k evs1 tok tier' w1 evs2 out where
    o: "llm_once en st n path spec tier' w1 = (evs2, out, w')" "r = last_attempt (n_id n) k tier' tok out"
    using llm_attempts_spec [OF assms(2) [unfolded execute_llm_node_def]] by fastforce
  then show ?thesis
    using llm_once_ok [OF assms(1)] by (cases out) (auto simp: result_ok_mk)
qed

lemma execute_decision_ok: "result_ok (n_id n) (fst (execute_decision en st n tier w))"
  using execute_decision_spec [where P = "\<lambda>b f. unit_float f" and n = n and en = en and st = st
      and tier = tier and w = w] read_decision_unit [of en n]
  by (auto simp: result_ok_def split: prod.splits)

lemma execute_tool_ok: "result_ok (n_id n) (fst (execute_tool en st n tier w))"
  by (auto simp: execute_tool_def call_tool_def result_ok_def failed_result_def mk_result_def Let_def
      split: option.splits prod.splits sum.splits bool.splits)

theorem dispatch_leaf_ok: "dispatch_leaf en st n path w = (evs, r, w') \<Longrightarrow> result_ok (n_id n) r"
  using execute_tool_ok [of n en st "select_tier (ne_settings en) n" w]
    execute_decision_ok [of n en st "select_tier (ne_settings en) n" w] execute_llm_node_ok result_ok_mk(2)
  by (auto simp: dispatch_leaf_def Let_def split: if_splits option.splits)

section \<open>Streaming\<close>

lemma stream_chunks_collects: "snd (stream_chunks chr ev cs fs acc) = collect_chunks cs acc"
proof (induction cs arbitrary: fs acc)
  case (Cons c cs)
  obtain parts tokens where acc: "acc = (parts, tokens)" by fastforce
  show ?case by (simp add: acc Let_def Cons split: prod.split) (metis Cons snd_conv)
qed simp

lemma feed_Nil [simp]: "feed chr [] fs = ([], fs)"
  by (simp add: feed_def)

text \<open>The published texts are what the field streamer makes of the chunk texts.\<close>

lemma stream_chunks_texts:
  assumes "\<And>t. sel (ev t) = t"
  shows "concat (map sel (fst (stream_chunks chr ev cs fs acc))) = fst (feed_all chr (map c_text cs) fs)"
proof (induction cs arbitrary: fs acc)
  case (Cons c cs)
  obtain parts tokens where acc: "acc = (parts, tokens)" by fastforce
  obtain t fs' where f: "feed chr (c_text c) fs = (t, fs')" by fastforce
  then have f': "(if c_text c = [] then ([], fs) else feed chr (c_text c) fs) = (t, fs')" by auto
  obtain evs acc' where r: "stream_chunks chr ev cs fs' (parts @ c_text c,
      case c_tokens c of None \<Rightarrow> tokens | Some k \<Rightarrow> k) = (evs, acc')" by (metis surj_pair)
  obtain u fs'' where g: "feed_all chr (map c_text cs) fs' = (u, fs'')" by fastforce
  have "concat (map sel evs) = u" using Cons [of fs'] r g by (metis fst_conv)
  then show ?case by (simp add: acc f' f r g Let_def assms)
qed simp

lemma stream_chunks_events: "set (fst (stream_chunks chr ev cs fs acc)) \<subseteq> range ev"
proof (induction cs arbitrary: fs acc)
  case (Cons c cs)
  obtain parts tokens where acc: "acc = (parts, tokens)" by fastforce
  obtain t fs' where f: "(if c_text c = [] then ([], fs) else feed chr (c_text c) fs) = (t, fs')" by fastforce
  obtain evs acc' where r: "stream_chunks chr ev cs fs' (parts @ c_text c,
      case c_tokens c of None \<Rightarrow> tokens | Some k \<Rightarrow> k) = (evs, acc')" by (metis surj_pair)
  from Cons [of fs' "(parts @ c_text c, case c_tokens c of None \<Rightarrow> tokens | Some k \<Rightarrow> k)"] r
  have "set evs \<subseteq> range ev" by simp
  then show ?case by (simp add: acc f r Let_def)
qed simp

text \<open>The environment with the bus switched on or off.\<close>

lemma bus_irrelevant:
  "node_context (en\<lparr>ne_bus := b\<rparr>) = node_context en" "retry_tier (en\<lparr>ne_bus := b\<rparr>) = retry_tier en"
  "to_float (en\<lparr>ne_bus := b\<rparr>) v = to_float en v"
  by (simp_all add: node_context_def retry_tier_def fun_eq_iff) (cases v; simp)

lemma bus_irrelevant_steps:
  "llm_messages (en\<lparr>ne_bus := b\<rparr>) = llm_messages en"
  "decision_messages (en\<lparr>ne_bus := b\<rparr>) = decision_messages en"
  "read_response (en\<lparr>ne_bus := b\<rparr>) = read_response en"
  "read_decision (en\<lparr>ne_bus := b\<rparr>) = read_decision en"
  "extract_args (en\<lparr>ne_bus := b\<rparr>) = extract_args en"
  "approve_tool_call (en\<lparr>ne_bus := b\<rparr>) = approve_tool_call en"
  "check_output_shape (en\<lparr>ne_bus := b\<rparr>) = check_output_shape en"
  by (simp_all add: fun_eq_iff bus_irrelevant llm_messages_def decision_messages_def read_response_def
      read_decision_def extract_args_def extract_messages_def approve_tool_call_def
      check_output_shape_def shape_messages_def
      cong: if_cong sum.case_cong prod.case_cong option.case_cong json.case_cong approval_policy.case_cong)

lemma bus_irrelevant_calls:
  "decision_once (en\<lparr>ne_bus := b\<rparr>) = decision_once en"
  "tool_arguments (en\<lparr>ne_bus := b\<rparr>) = tool_arguments en"
  "call_tool (en\<lparr>ne_bus := b\<rparr>) = call_tool en"
  by (simp_all add: fun_eq_iff bus_irrelevant bus_irrelevant_steps decision_once_def tool_arguments_def
      call_tool_def Let_def
      cong: if_cong sum.case_cong prod.case_cong llm_exc.case_cong option.case_cong)

lemma bus_irrelevant_nodes:
  "parse_response (en\<lparr>ne_bus := b\<rparr>) = parse_response en"
  "execute_decision (en\<lparr>ne_bus := b\<rparr>) = execute_decision en"
  "execute_tool (en\<lparr>ne_bus := b\<rparr>) = execute_tool en"
  by (simp_all add: fun_eq_iff bus_irrelevant bus_irrelevant_steps bus_irrelevant_calls
      parse_response_def execute_decision_def execute_tool_def
      cong: if_cong sum.case_cong prod.case_cong option.case_cong bool.case_cong)

lemma llm_once_bus:
  "snd (llm_once (en\<lparr>ne_bus := b\<rparr>) st n path spec tier w) =
     snd (llm_once (en\<lparr>ne_bus := False\<rparr>) st n path spec tier w)"
proof -
  obtain label key d where spec: "spec = (label, key, d)" by (metis prod_cases3)
  obtain s v where rc: "router_complete (ne_router en) (llm_messages en st n label) tier None True
      (node_output_budget (ne_settings en) (n_type n)) w = (s, v)" by fastforce
  let ?ev = "\<lambda>t. NodeOutputChunk (n_id n) (n_type n) t path"
  obtain evs acc where sc: "stream_chunks (ne_chr en) ?ev (fst s) (new_streamer key) ([], 0) = (evs, acc)" by (metis surj_pair)
  then have acc: "collect_chunks (fst s) ([], 0) = acc" using stream_chunks_collects by (metis snd_conv)
  obtain raw tokens where rt: "acc = (raw, tokens)" by fastforce
  show ?thesis
    by (cases "snd s")
      (simp_all add: llm_once_def spec rc bus_irrelevant_steps bus_irrelevant_nodes stream_llm_node_def sc acc rt
        collect_retryable_def collect_def Let_def split: llm_exc.split)
qed

lemma llm_attempts_same:
  assumes "\<And>t v. snd (once t v) = snd (once' t v)"
  shows "snd (llm_attempts once nxt i left attempt tier tokens w) =
    snd (llm_attempts once' nxt i left attempt tier tokens w)"
proof (induction left arbitrary: attempt tier tokens w)
  case (0 attempt tier tokens w)
  with assms [of tier w] show ?case
    by (cases "once tier w"; cases "once' tier w")
      (simp add: llm_attempts.simps [of _ nxt i 0] Let_def split: sum.split prod.split)
next
  case (Suc left attempt tier tokens w)
  obtain evs out w1 where o: "once tier w = (evs, out, w1)" by (metis prod_cases3)
  with assms [of tier w] obtain evs' where o': "once' tier w = (evs', out, w1)" by (metis prod.collapse snd_conv)
  show ?case
  proof (cases out)
    case (Inl x)
    from Suc.IH [of "Suc attempt" "nxt tier" "tokens + retry_tokens x" w1] show ?thesis
      by (auto simp: llm_attempts.simps [of _ nxt i "Suc left"] o o' Inl Let_def split: prod.split)
  qed (simp add: llm_attempts.simps [of _ nxt i "Suc left"] o o')
qed

lemma llm_attempts_events:
  assumes "\<And>t v. set (fst (once t v)) \<subseteq> E"
  shows "set (fst (llm_attempts once nxt i left attempt tier tokens w)) \<subseteq> E"
proof (induction left arbitrary: attempt tier tokens w)
  case (0 attempt tier tokens w)
  with assms [of tier w] show ?case
    by (auto simp: llm_attempts.simps [of _ nxt i 0] Let_def split: sum.split prod.split)
next
  case (Suc left attempt tier tokens w)
  obtain evs out w1 where o: "once tier w = (evs, out, w1)" by (metis prod_cases3)
  with assms [of tier w] have E: "set evs \<subseteq> E" by simp
  show ?case
  proof (cases out)
    case (Inl x)
    obtain evs' r w2 where
      r: "llm_attempts once nxt i left (Suc attempt) (nxt tier) (tokens + retry_tokens x) w1 = (evs', r, w2)"
      by (metis prod_cases3)
    with Suc.IH [of "Suc attempt" "nxt tier" "tokens + retry_tokens x" w1] E show ?thesis
      by (simp add: llm_attempts.simps [of _ nxt i "Suc left"] o Inl Let_def)
  qed (simp add: llm_attempts.simps [of _ nxt i "Suc left"] o E)
qed

lemma llm_once_events:
  "set (fst (llm_once en st n path spec tier w)) \<subseteq> range (\<lambda>t. NodeOutputChunk (n_id n) (n_type n) t path)"
proof -
  obtain label key d where spec: "spec = (label, key, d)" by (metis prod_cases3)
  obtain s v where rc: "router_complete (ne_router en) (llm_messages en st n label) tier None True
      (node_output_budget (ne_settings en) (n_type n)) w = (s, v)" by fastforce
  let ?ev = "\<lambda>t. NodeOutputChunk (n_id n) (n_type n) t path"
  obtain evs acc where sc: "stream_chunks (ne_chr en) ?ev (fst s) (new_streamer key) ([], 0) = (evs, acc)" by (metis surj_pair)
  with stream_chunks_events [of "ne_chr en" ?ev "fst s" "new_streamer key" "([], 0)"]
  have "set evs \<subseteq> range ?ev" by simp
  then show ?thesis by (simp add: llm_once_def spec rc stream_llm_node_def sc Let_def)
qed

lemma execute_llm_node_bus:
  "snd (execute_llm_node (en\<lparr>ne_bus := b\<rparr>) st n path spec tier w) =
     snd (execute_llm_node (en\<lparr>ne_bus := False\<rparr>) st n path spec tier w)"
  using llm_attempts_same [where once = "llm_once (en\<lparr>ne_bus := b\<rparr>) st n path spec"
      and once' = "llm_once (en\<lparr>ne_bus := False\<rparr>) st n path spec", OF llm_once_bus]
  by (simp add: execute_llm_node_def bus_irrelevant)

lemma execute_llm_node_events:
  "set (fst (execute_llm_node en st n path spec tier w)) \<subseteq> range (\<lambda>t. NodeOutputChunk (n_id n) (n_type n) t path)"
  unfolding execute_llm_node_def by (rule llm_attempts_events) (rule llm_once_events)

section \<open>Properties\<close>

text \<open>A content node makes at most \<open>max_llm_node_retries\<close> more attempts, each only after an
  unavailable provider or an empty output, at the tier escalated once per retry and never beyond
  the highest configured one; its result is that of the last attempt, with the tokens of the failed
  ones added, and it only reports a retryable failure when every attempt ended in one.\<close>

theorem retry_discipline:
  "case execute_llm_node en st n path spec tier w of
     (evs, r, w') \<Rightarrow>
       \<exists>evs1 tok tier' w1 evs2 out.
         retried (llm_once en st n path spec) (retry_tier en) (r_retries r) tier w evs1 tok tier' w1 \<and>
         llm_once en st n path spec tier' w1 = (evs2, out, w') \<and> evs = evs1 @ evs2 \<and>
         r = last_attempt (n_id n) (r_retries r) tier' tok out \<and>
         r_retries r \<le> max_node_retries (ne_settings en) \<and>
         (isl out = (isl out \<and> r_retries r = max_node_retries (ne_settings en))) \<and>
         r_tier_used r = Some ((retry_tier en ^^ r_retries r) tier) \<and>
         (retry_tier en ^^ r_retries r) tier \<le> max tier (highest_tier (ne_router en))"
proof -
  obtain evs r w' where e: "execute_llm_node en st n path spec tier w = (evs, r, w')" by (metis prod_cases3)
  obtain k evs1 tok tier' w1 evs2 out where
    o: "k \<le> max_node_retries (ne_settings en)"
      "retried (llm_once en st n path spec) (retry_tier en) k tier w evs1 tok tier' w1"
      "llm_once en st n path spec tier' w1 = (evs2, out, w')" "evs = evs1 @ evs2"
      "r = last_attempt (n_id n) k tier' tok out"
      "k < max_node_retries (ne_settings en) \<longrightarrow> \<not> isl out"
    using llm_attempts_spec [OF e [unfolded execute_llm_node_def]] unfolding add_0 by blast
  have k: "r_retries r = k" and "r_tier_used r = Some tier'" unfolding o(5) by (cases out; simp)+
  then have tier: "r_tier_used r = Some ((retry_tier en ^^ k) tier)" using retried_tier [OF o(2)] by simp
  have isl: "isl out = (isl out \<and> k = max_node_retries (ne_settings en))" using o(1,6) by auto
  show ?thesis
    unfolding e prod.case k using o(1-5) isl tier retry_tier_le [where en = en and k = k and tier = tier] by blast
qed

text \<open>C14: A decision that satisfies the validator's contract always completes, whatever the model
  replies and however the providers fail: it takes one of its own branches, with a confidence
  between zero and one, within the allowed number of retries.\<close>

theorem decision_takes_a_branch:
  assumes "check_node_contract n = Inr ()" and "n_type n = DECISION"
  shows "case execute_decision en st n tier w of
    (r, w') \<Rightarrow> r_status r = COMPLETED \<and> (\<exists>b \<in> fst ` set (branch_list n). r_branch_taken r = Some b) \<and>
      unit_float (r_confidence r) \<and> r_retries r \<le> max_node_retries (ne_settings en)"
proof -
  note c = decision_contract [OF assms]
  let ?P = "\<lambda>b f. (\<exists>x \<in> fst ` set (branch_list n). b = Some x) \<and> unit_float f"
  have "?P (Some (fallback_branch n)) (Fin 0)" using c(2) by simp
  moreover have "\<And>data b f. read_decision en n data = Some (b, f) \<Longrightarrow> ?P b f"
    using read_decision_branch [OF _ c] read_decision_unit by blast
  ultimately show ?thesis
    using execute_decision_spec [where P = ?P and n = n and en = en and st = st and tier = tier and w = w]
    by (simp split: prod.splits)
qed

text \<open>C16: Whether somebody listens on the event bus does not change what a node computes, nor what it
  asks of the world: the stream of a content node only adds its output chunks as events.\<close>

theorem streaming_only_adds_events:
  "snd (dispatch_leaf (en\<lparr>ne_bus := b\<rparr>) st n path w) = snd (dispatch_leaf (en\<lparr>ne_bus := False\<rparr>) st n path w) \<and>
   set (fst (dispatch_leaf en st n path w)) \<subseteq> range (\<lambda>t. NodeOutputChunk (n_id n) (n_type n) t path)"
proof
  show "snd (dispatch_leaf (en\<lparr>ne_bus := b\<rparr>) st n path w) = snd (dispatch_leaf (en\<lparr>ne_bus := False\<rparr>) st n path w)"
  proof (cases "llm_node_spec (n_type n)")
    case (Some spec)
    with execute_llm_node_bus [where en = en and b = b and st = st and n = n and path = path and spec = spec
        and tier = "select_tier (ne_settings en) n" and w = w] show ?thesis
      by (simp add: dispatch_leaf_def Let_def bus_irrelevant_nodes)
  qed (simp add: dispatch_leaf_def Let_def bus_irrelevant_nodes)
  show "set (fst (dispatch_leaf en st n path w)) \<subseteq> range (\<lambda>t. NodeOutputChunk (n_id n) (n_type n) t path)"
    by (simp add: dispatch_leaf_def Let_def execute_llm_node_events split: option.split)
qed

subsection \<open>The approval gate\<close>

lemma functions_irrelevant:
  fixes en :: "'w node_env" and fs :: "(string \<times> 'w tool_func) list"
  defines "en' \<equiv> en\<lparr>ne_harness := (ne_harness en)\<lparr>h_funcs := fs\<rparr>\<rparr>"
  shows "tool_arguments en' st n tool tier w = tool_arguments en st n tool tier w"
    and "approve_tool_call en' n tool args w = approve_tool_call en n tool args w"
  by (simp_all add: en'_def tool_arguments_def node_context_def extract_args_def extract_messages_def
      schema_for_def approve_tool_call_def effective_tool_policy_def risk_for_def Let_def
      cong: if_cong sum.case_cong prod.case_cong approval_policy.case_cong option.case_cong)

text \<open>C15: A tool that writes or executes, without an override that allows it, is never called in
  interactive mode unless the approval channel says yes: the node fails as denied, and its effect
  on the world is the same whatever functions the tools are bound to.\<close>

theorem dangerous_tool_needs_approval:
  assumes "n_tool n = Some tool" and "risk_for (ne_harness en) tool \<in> {RiskWrite, RiskExecute}"
    and "map_of (ta_overrides (tool_approval (ne_settings en))) tool \<noteq> Some ALLOW"
    and "ta_mode (tool_approval (ne_settings en)) = INTERACTIVE"
    and "\<And>v. \<not> ne_always en tool v"
    and "\<And>req i r args d v. ne_request en = Some req \<Longrightarrow> \<not> fst (req i tool r args d v)"
  shows "fst (execute_tool (en\<lparr>ne_harness := (ne_harness en)\<lparr>h_funcs := fs\<rparr>\<rparr>) st n tier w) =
      failed_result (n_id n) (denied_text tool) \<and>
    snd (execute_tool (en\<lparr>ne_harness := (ne_harness en)\<lparr>h_funcs := fs\<rparr>\<rparr>) st n tier w) =
      snd (execute_tool en st n tier w)"
proof -
  obtain args w1 where a: "tool_arguments en st n tool tier w = (args, w1)" by fastforce
  have "effective_tool_policy (ne_settings en) (ne_harness en) tool \<noteq> ALLOW"
    using assms(2,3) by (auto simp: effective_tool_policy_def split: option.splits)
  then have "\<not> fst (approve_tool_call en n tool args w1)"
    using assms(4-6) by (auto simp: approve_tool_call_def split: approval_policy.splits option.splits)
  then obtain w2 where d: "approve_tool_call en n tool args w1 = (False, w2)"
    by (metis (full_types) prod.collapse)
  show ?thesis by (simp add: execute_tool_def assms(1) functions_irrelevant a d)
qed

subsection \<open>What subscribers see of a stream\<close>

fun chunk_text :: "event_body \<Rightarrow> string" where
  "chunk_text (NodeOutputChunk i t x path) = x"
| "chunk_text _ = []"

lemma strip_has_quote:
  assumes "quote \<in> set s"
  shows "strip s \<noteq> []"
proof -
  have q: "\<not> py_space quote" by (simp add: py_space_def quote_def)
  have "quote \<in> set (dropWhile py_space xs)" if "quote \<in> set xs" for xs
    using that q by (induction xs) auto
  then have "quote \<in> set (lstrip s)" using assms by (simp add: lstrip_def)
  then have "quote \<in> set (dropWhile py_space (rev (lstrip s)))"
    using \<open>\<And>xs. quote \<in> set xs \<Longrightarrow> quote \<in> set (dropWhile py_space xs)\<close> by simp
  then show ?thesis unfolding strip_def rstrip_def by (metis empty_iff empty_set rev_is_Nil_conv)
qed

text \<open>When the response of a streamed node is a JSON object whose output field was written by an
  ASCII-only encoder, the texts of the published chunks add up to exactly that field, and it is the
  output that the node's result records, however the response was cut into chunks.\<close>

theorem streamed_output_is_recorded:
  assumes "streaming_type (n_type n)" and "ne_bus en"
    and "router_complete (ne_router en) (llm_messages en st n label) tier None True
      (node_output_budget (ne_settings en) (n_type n)) w = ((cs, None), w')"
    and "concat (map c_text cs) = pre @ m @ json_text v @ quote # rest"
    and "marks (new_streamer key) m pre (concat (map c_text cs))"
    and "CHR 0x08 \<notin> set v" and "CHR 0x0C \<notin> set v"
    and "\<And>x. ne_chr en (of_char (x :: char)) = [x]"
    and "ne_loads en (strip_model_output (concat (map c_text cs))) = Inr (JObj kvs)"
    and "jget kvs key = JStr v"
    and "to_float en (jget_default kvs ''confidence'' (JFloat (Fin d))) = Inr f"
  shows "case llm_once en st n path (label, key, d) tier w of
    (evs, r, w'') \<Rightarrow> concat (map chunk_text evs) = v \<and> map_sum id r_output r = Inr (JStr v) \<and> w'' = w'"
proof -
  let ?ev = "\<lambda>t. NodeOutputChunk (n_id n) (n_type n) t path"
  obtain evs raw tokens where sc: "stream_chunks (ne_chr en) ?ev cs (new_streamer key) ([], 0) = (evs, raw, tokens)"
    by (metis prod_cases3)
  have "collect_chunks cs ([], 0) = (raw, tokens)"
    using stream_chunks_collects [of "ne_chr en" ?ev cs "new_streamer key" "([], 0)"] sc by simp
  then have raw: "raw = concat (map c_text cs)"
    using collect_chunks_text [of cs "[]" 0] by simp
  have "concat (map chunk_text evs) = fst (feed_all (ne_chr en) (map c_text cs) (new_streamer key))"
    using stream_chunks_texts [where sel = chunk_text and ev = ?ev and chr = "ne_chr en" and cs = cs
        and fs = "new_streamer key" and acc = "([], 0)"] sc by simp
  also have "\<dots> = v"
    using feed_all_json_text [OF assms(8) assms(5) [unfolded assms(4)] assms(6,7,4)] by simp
  finally have shown: "concat (map chunk_text evs) = v" .
  have "strip raw \<noteq> []" by (rule strip_has_quote) (simp add: raw assms(4))
  then show ?thesis
    using assms(1-3,9-11) sc shown
    by (simp add: llm_once_def stream_llm_node_def parse_response_def read_response_def raw Let_def mk_result_def)
qed

section \<open>On concrete nodes\<close>

definition sample_env :: "unit node_env" where
  "sample_env =
     \<lparr>ne_settings = default_settings \<lparr>pr_planner = [], pr_decision = [], pr_extract_args = [], pr_think = [],
        pr_synthesis = [], pr_summary = [], pr_summary_concise = [], pr_summary_verbose = [],
        pr_result = [], pr_shape_check = []\<rparr>,
      ne_router = \<lparr>ro_providers = [\<lparr>pv_name = ''p'', pv_tier = 0, pv_healthy = None,
          pv_complete = (\<lambda>msgs js mt w. ((map text_chunk sample_chunks, None), w))\<rparr>],
        ro_max_generation = None\<rparr>,
      ne_harness = \<lparr>h_funcs = [(''rm'', \<lambda>args w. (Inr JNull, w))], h_schemas = [(''rm'', JNull)],
        h_risk = [(''rm'', RiskExecute)]\<rparr>,
      ne_bus = True, ne_always = (\<lambda>tool w. False), ne_request = None,
      ne_loads = (\<lambda>t. Inr (JObj [(''result'', JStr [CHR ''a'', quote, CHR ''b''])])),
      ne_dumps = (\<lambda>v. []), ne_str = (\<lambda>v. []), ne_float = (\<lambda>t. None), ne_chr = latin1_chr\<rparr>"

definition sample_decision :: node where
  "sample_decision =
     Node 1 DECISION [] None None [] (Some ''c'') (Some [(''yes'', [2]), (''no'', [3])]) (Some ''no'')
       False None None None"

definition sample_tool :: node where
  "sample_tool = Node 1 TOOL [] (Some ''rm'') None [] None None None False None None None"

lemma decision_takes_a_branch_witness:
  "case execute_decision sample_env (new_state [] [] None) sample_decision 0 () of
    (r, w') \<Rightarrow> r_status r = COMPLETED \<and> (\<exists>b \<in> fst ` set (branch_list sample_decision). r_branch_taken r = Some b) \<and>
      unit_float (r_confidence r) \<and> r_retries r \<le> max_node_retries (ne_settings sample_env)"
  by (rule decision_takes_a_branch)
    (auto simp: sample_decision_def check_node_contract_def check_decision_contract_def falsy_str_def)

lemma dangerous_tool_needs_approval_witness:
  "fst (execute_tool (sample_env\<lparr>ne_harness := (ne_harness sample_env)\<lparr>h_funcs := []\<rparr>\<rparr>)
     (new_state [] [] None) sample_tool 0 ()) = failed_result 1 (denied_text ''rm'')"
  using dangerous_tool_needs_approval [of sample_tool "''rm''" sample_env "[]" "new_state [] [] None" 0 "()"]
  by (simp add: sample_tool_def sample_env_def risk_for_def default_settings_def default_tool_approval_def)

lemma streamed_output_is_recorded_witness:
  "concat (map chunk_text (fst (llm_once sample_env (new_state [] [] None) (mk_node 1 THINK [] []) None
     ([], ''result'', 1) 0 ()))) = [CHR ''a'', quote, CHR ''b'']"
proof -
  have cs: "concat (map c_text (map text_chunk sample_chunks)) = concat sample_chunks"
    by (simp add: text_chunk_def comp_def)
  have "case llm_once sample_env (new_state [] [] None) (mk_node 1 THINK [] []) None ([], ''result'', 1) 0 () of
    (evs, r, w'') \<Rightarrow> concat (map chunk_text evs) = [CHR ''a'', quote, CHR ''b''] \<and>
      map_sum id r_output r = Inr (JStr [CHR ''a'', quote, CHR ''b'']) \<and> w'' = ()"
  proof (rule streamed_output_is_recorded [where cs = "map text_chunk sample_chunks" and pre = sample_pre
        and kvs = "[(''result'', JStr [CHR ''a'', quote, CHR ''b''])]" and f = "Fin 1"])
    show "concat (map c_text (map text_chunk sample_chunks)) =
        sample_pre @ fs_marker (new_streamer ''result'') @ json_text [CHR ''a'', quote, CHR ''b''] @
        quote # '', '' @ [quote] @ ''x'' @ [quote, CHR ''}'']"
      unfolding cs by (rule sample_document)
    show "marks (new_streamer ''result'') (fs_marker (new_streamer ''result'')) sample_pre
        (concat (map c_text (map text_chunk sample_chunks)))"
      unfolding cs by (rule sample_marks)
  qed (simp_all add: streaming_type_def mk_node_def sample_env_def router_complete_def eligible_def
      check_health_def sample_chunks_def latin1_chr_def jget_def jget_default_def quote_def)
  then show ?thesis by (auto split: prod.splits)
qed

end
