(* ===== verification/NodeRun.thy ===== *)
theory NodeRun
  imports ScheduleProperties NodeProperties
begin

text \<open>
  The executor as a whole: the scheduler of \<open>Scheduler\<close> driving the nodes of \<open>NodeExec\<close>.  A subplan
  node runs its nested plan through the same scheduler in a state of its own
  (\<open>_execute_subplan\<close>), so what a node may compute is defined by induction over nested runs.
\<close>

section \<open>Subplan nodes\<close>

definition subplan_request :: "'w node_env \<Rightarrow> exec_state \<Rightarrow> node \<Rightarrow> string" where
  "subplan_request en st n =
     ''Subplan task: '' @ n_description n @ newline @ newline @ ''Parent task:'' @ newline @ s_user_request st @
     (let ctx = node_context en st n
      in if ctx = [] then [] else newline @ newline @ ''Context from parent plan:'' @ newline @ ctx)"

definition subplan_state :: "'w node_env \<Rightarrow> exec_state \<Rightarrow> node \<Rightarrow> plan \<Rightarrow> exec_state" where
  "subplan_state en st n q =
     new_state (s_task_id st @ ''-sub'' @ str_int (n_id n)) (subplan_request en st n) (Some q)"

text \<open>The nested run publishes under the id of the state it was started from.\<close>

definition subplan_ctx :: "run_ctx \<Rightarrow> exec_state \<Rightarrow> node \<Rightarrow> plan \<Rightarrow> run_ctx" where
  "subplan_ctx c st n q =
     c\<lparr>rc_plan := q, rc_scope := Some (s_task_id st), rc_prefix := child_path (rc_prefix c) (n_id n),
       rc_emit_completed := False\<rparr>"

definition str_ids :: "node_id list \<Rightarrow> string" where
  "str_ids is = ''['' @ join '', '' (map str_int is) @ '']''"

fun run_error_text :: "run_error \<Rightarrow> string" where
  "run_error_text NoPlan = ''Cannot execute: state has no plan''"
| "run_error_text (NoReadyNodes bl) =
     ''Cannot execute plan: no ready nodes remain: {'' @
     join '', '' (map (\<lambda>(i, ds). str_int i @ '': '' @ str_ids ds) bl) @ ''}''"
| "run_error_text (NodeMissing i) = str_int i"
| "run_error_text (NodeRaised i e) = e"

definition no_final_output :: string where
  "no_final_output = ''Subplan produced no final output''"

definition subplan_result :: "node \<Rightarrow> plan \<Rightarrow> run_state \<Rightarrow> node_result" where
  "subplan_result n q x =
     (case x of
        Returned v \<Rightarrow>
          (case s_final_output (v_state v) of
             None \<Rightarrow> (mk_result (n_id n) EMPTY)\<lparr>r_error := Some no_final_output\<rparr>
           | Some out \<Rightarrow>
               (mk_result (n_id n) COMPLETED)
                 \<lparr>r_output := JStr out,
                  r_confidence := (case final_output_result q (s_results (v_state v)) of
                                     None \<Rightarrow> Fin 1 | Some r \<Rightarrow> r_confidence r)\<rparr>)
      | Raised e v \<Rightarrow> failed_result (n_id n) (run_error_text e)
      | Waiting v \<Rightarrow> failed_result (n_id n) [])"

definition ended :: "run_state \<Rightarrow> bool" where
  "ended x \<longleftrightarrow> (\<forall>v. x \<noteq> Waiting v)"

lemma ended_iff: "ended x \<longleftrightarrow> (case x of Waiting v \<Rightarrow> False | _ \<Rightarrow> True)"
  by (cases x) (simp_all add: ended_def)

section \<open>What a node may compute\<close>

lemma step_mono:
  "step c out x y \<Longrightarrow>
     (\<And>st n evs r. n \<in> set (p_nodes (rc_plan c)) \<Longrightarrow> out st n evs r \<Longrightarrow> out' st n evs r) \<Longrightarrow> step c out' x y"
  by (induction rule: step.induct) (blast intro: step.intros dest: node_map_Some)+

lemma reachable_mono_on:
  assumes "\<And>st n evs r. n \<in> set (p_nodes (rc_plan c)) \<Longrightarrow> out st n evs r \<Longrightarrow> out' st n evs r"
  shows "reachable c out st x \<Longrightarrow> reachable c out' st x"
  by (induction rule: reachable.induct) (use assms step_mono [of c out _ _ out'] in \<open>blast intro: reachable.intros\<close>)+

lemma reachable_mono [mono]:
  "(\<And>st n evs r. out st n evs r \<longrightarrow> out' st n evs r) \<Longrightarrow> reachable c out st x \<longrightarrow> reachable c out' st x"
  using reachable_mono_on [of c out out' st x] by blast

text \<open>
  \<open>_dispatch_node\<close>: the events a node publishes, and its result.  The world at its start is any.
\<close>

inductive node_outcome :: "'w node_env \<Rightarrow> run_ctx \<Rightarrow> outcome" for en where
  leaf_node:
    "n_type n \<noteq> SUBPLAN \<Longrightarrow>
     dispatch_leaf (en\<lparr>ne_bus := rc_emit c\<rparr>) st n (node_path (rc_prefix c) (n_id n)) w = (evs, r, w') \<Longrightarrow>
     node_outcome en c st n (map (Event (event_task c st)) evs) (Inr r)"
| no_subplan:
    "n_type n = SUBPLAN \<Longrightarrow> n_subplan n = None \<Longrightarrow>
     node_outcome en c st n [] (Inr (failed_result (n_id n) ''SUBPLAN node has no nested plan''))"
| nested_plan:
    "n_type n = SUBPLAN \<Longrightarrow> n_subplan n = Some q \<Longrightarrow>
     reachable (subplan_ctx c st n q) (node_outcome en (subplan_ctx c st n q)) (subplan_state en st n q) x \<Longrightarrow>
     ended x \<Longrightarrow>
     node_outcome en c st n (v_events (sched_of x)) (Inr (subplan_result n q x))"

section \<open>Invariants of a run\<close>

text \<open>
  What every way of handling a pending node and every event of a task preserves holds in every
  reachable state; in a returned state it held before the run was finished.
\<close>

definition until_finished :: "(sched \<Rightarrow> bool) \<Rightarrow> run_ctx \<Rightarrow> run_state \<Rightarrow> bool" where
  "until_finished P c x \<longleftrightarrow>
     (case x of Returned v \<Rightarrow> \<exists>v'. v = finish_run c v' \<and> P v' | _ \<Rightarrow> P (sched_of x))"

lemma until_finished_simps [simp]:
  "until_finished P c (Waiting v) \<longleftrightarrow> P v" "until_finished P c (Raised e v) \<longleftrightarrow> P v"
  "until_finished P c (Returned v) \<longleftrightarrow> (\<exists>v'. v = finish_run c v' \<and> P v')"
  by (simp_all add: until_finished_def)

lemma turn_until_finished:
  assumes "\<And>i v. P v \<Longrightarrow> P (drop_pending i v)" and "\<And>i v. P v \<Longrightarrow> P (record_skipped c i (drop_pending i v))"
    and "\<And>i v. P v \<Longrightarrow> P (launch i v)"
  shows "P v \<Longrightarrow> until_finished P c (turn c v)"
proof (induction "length (v_pending v)" arbitrary: v rule: less_induct)
  case less
  show ?case
  proof (cases "v_pending v = [] \<and> v_flight v = []")
    case True
    with less.prems show ?thesis by (auto simp: turn.simps [of c v])
  next
    case busy: False
    show ?thesis
    proof (cases "dispatch_pass c (p_sorted_node_ids (rc_plan c)) v False")
      case (Inl e)
      with busy less.prems show ?thesis by (auto simp: turn.simps [of c v])
    next
      case (Inr a)
      obtain v' d where pass: "dispatch_pass c (p_sorted_node_ids (rc_plan c)) v False = Inr (v', d)"
        using Inr by (cases a) simp
      have v': "P v'"
        using pass less.prems by (rule pass_rule [where P = "\<lambda>v d. P v"]) (simp_all add: assms)
      consider "turn c v = Waiting v'" | e where "turn c v = Raised e v'" | "turn c v = turn c v'" "d"
        | "turn c v = turn c v'" "v_flight v' = []" "v_pending v' = []"
        using busy pass
        by (cases "v_flight v' = []"; cases "v_pending v' = []"; cases d;
            cases "length (v_flight v') < max_concurrent c")
          (auto simp: turn.simps [of c v])
      then show ?thesis
      proof cases
        case 3
        with pass_shrinks [OF pass] less.hyps [OF _ v'] show ?thesis by simp
      next
        case 4
        then have "turn c v' = Returned (finish_run c v')" by (simp add: turn.simps [of c v'])
        with 4 v' show ?thesis by auto
      qed (use v' in simp_all)
    qed
  qed
qed

lemma reachable_until_finished:
  assumes "\<And>i v. P v \<Longrightarrow> P (drop_pending i v)" and "\<And>i v. P v \<Longrightarrow> P (record_skipped c i (drop_pending i v))"
    and "\<And>i v. P v \<Longrightarrow> P (launch i v)"
    and init: "\<And>pend st'. same_task st st' \<Longrightarrow>
      P \<lparr>v_pending = pend, v_flight = [], v_state = st', v_events = []\<rparr>"
    and starts: "\<And>i n v. P v \<Longrightarrow> map_of (v_flight v) i = Some Queued \<Longrightarrow>
      P (set_flight i (Running (v_state v)) (emit c (NodeStarted i (n_type n) (select_tier (rc_settings c) n)
           (node_path (rc_prefix c) i)) v))"
    and ends: "\<And>i n v st0 evs r. P v \<Longrightarrow> map_of (v_flight v) i = Some (Running st0) \<Longrightarrow>
      node_map (rc_plan c) i = Some n \<Longrightarrow> out st0 n evs (Inr r) \<Longrightarrow>
      P (set_flight i (Ended None) (record_node c n r (v\<lparr>v_events := v_events v @ evs\<rparr>)))"
    and raises: "\<And>i n v st0 evs e. P v \<Longrightarrow> map_of (v_flight v) i = Some (Running st0) \<Longrightarrow>
      node_map (rc_plan c) i = Some n \<Longrightarrow> out st0 n evs (Inl e) \<Longrightarrow>
      P (set_flight i (Ended (Some e)) (v\<lparr>v_events := v_events v @ evs\<rparr>))"
    and wakes: "\<And>v. P v \<Longrightarrow> P (v\<lparr>v_flight := filter (\<lambda>(i, f). f \<noteq> Ended None) (v_flight v)\<rparr>)"
    and reach: "reachable c out st x"
  shows "until_finished P c x"
  using reach
proof (induction rule: reachable.induct)
  case reach_start
  have "until_finished P c (turn c \<lparr>v_pending = remdups (p_sorted_node_ids (rc_plan c)), v_flight = [],
      v_state = st\<lparr>s_status := EXECUTING\<rparr>, v_events = []\<rparr>)"
    by (rule turn_until_finished) (simp_all add: assms(1-3) init same_task_def)
  then show ?case by (simp add: start_run_def Let_def init same_task_def)
next
  case (reach_step x y)
  from reach_step(2,3) show ?case
  proof (cases rule: step.cases)
    case (wakes v)
    with reach_step(3) show ?thesis by (auto intro: turn_until_finished [of P c] assms(1-3) wakes assms(8))
  qed (use reach_step(3) starts ends raises in auto)
qed

lemma reachable_preserves:
  assumes "\<And>i v. P v \<Longrightarrow> P (drop_pending i v)" and "\<And>i v. P v \<Longrightarrow> P (record_skipped c i (drop_pending i v))"
    and "\<And>i v. P v \<Longrightarrow> P (launch i v)" and fin: "\<And>v. P v \<Longrightarrow> P (finish_run c v)"
    and init: "\<And>pend st'. same_task st st' \<Longrightarrow>
      P \<lparr>v_pending = pend, v_flight = [], v_state = st', v_events = []\<rparr>"
    and starts: "\<And>i n v. P v \<Longrightarrow> map_of (v_flight v) i = Some Queued \<Longrightarrow>
      P (set_flight i (Running (v_state v)) (emit c (NodeStarted i (n_type n) (select_tier (rc_settings c) n)
           (node_path (rc_prefix c) i)) v))"
    and ends: "\<And>i n v st0 evs r. P v \<Longrightarrow> map_of (v_flight v) i = Some (Running st0) \<Longrightarrow>
      node_map (rc_plan c) i = Some n \<Longrightarrow> out st0 n evs (Inr r) \<Longrightarrow>
      P (set_flight i (Ended None) (record_node c n r (v\<lparr>v_events := v_events v @ evs\<rparr>)))"
    and raises: "\<And>i n v st0 evs e. P v \<Longrightarrow> map_of (v_flight v) i = Some (Running st0) \<Longrightarrow>
      node_map (rc_plan c) i = Some n \<Longrightarrow> out st0 n evs (Inl e) \<Longrightarrow>
      P (set_flight i (Ended (Some e)) (v\<lparr>v_events := v_events v @ evs\<rparr>))"
    and wakes: "\<And>v. P v \<Longrightarrow> P (v\<lparr>v_flight := filter (\<lambda>(i, f). f \<noteq> Ended None) (v_flight v)\<rparr>)"
    and reach: "reachable c out st x"
  shows "P (sched_of x)"
proof -
  have "until_finished P c x" by (rule reachable_until_finished [OF assms(1-3) init starts ends raises wakes reach])
  then show ?thesis by (cases x) (auto intro: fin)
qed

section \<open>No node raises\<close>

lemma node_outcome_result: "node_outcome en c st n evs r \<Longrightarrow> \<exists>r0. r = Inr r0"
  by (cases rule: node_outcome.cases) auto

definition quiet :: "sched \<Rightarrow> bool" where
  "quiet v \<longleftrightarrow> (\<forall>i e. (i, Ended (Some e)) \<notin> set (v_flight v))"

lemma mem_update_cases: "(j, g) \<in> set (AList.update k f xs) \<Longrightarrow> (j, g) = (k, f) \<or> (j, g) \<in> set xs"
  by (induction xs) (auto split: if_splits)

lemma reachable_quiet:
  assumes "\<And>st0 n evs e. \<not> out st0 n evs (Inl e)" and "reachable c out st x"
  shows "quiet (sched_of x)"
  using assms(2)
  by (rule reachable_preserves [rotated -1])
    (use assms(1) in \<open>auto simp: quiet_def set_flight_def dest!: mem_update_cases\<close>)

lemma pass_error: "dispatch_pass c is v d = Inl e \<Longrightarrow> \<exists>i. e = NodeMissing i"
  by (induction c "is" v d rule: dispatch_pass.induct) (auto split: option.splits if_splits)

lemma turn_error: "turn c v \<noteq> Raised (NodeRaised i m) v'"
proof (induction "length (v_pending v)" arbitrary: v rule: less_induct)
  case less
  show ?case
  proof (cases "dispatch_pass c (p_sorted_node_ids (rc_plan c)) v False")
    case (Inl e)
    with pass_error [OF Inl] show ?thesis by (subst turn.simps) auto
  next
    case (Inr a)
    obtain u d where pass: "dispatch_pass c (p_sorted_node_ids (rc_plan c)) v False = Inr (u, d)"
      using Inr by (cases a) simp
    show ?thesis
    proof (cases "length (v_pending u) < length (v_pending v)")
      case True
      with less [of u] pass show ?thesis by (subst turn.simps) simp
    next
      case False
      with pass_shrinks [OF pass] have d: "\<not> d" by auto
      have "turn c u \<noteq> Raised (NodeRaised i m) v'" if "v_flight u = []" "v_pending u = []"
        using that by (simp add: turn.simps [of c u])
      with pass d show ?thesis by (subst turn.simps) simp
    qed
  qed
qed

lemma never_raised:
  assumes "ordered_plan (rc_plan c)" and "fresh_task (rc_plan c) st"
    and "\<And>st0 n evs e. \<not> out st0 n evs (Inl e)" and "reachable c out st x"
  shows "x \<noteq> Raised e v"
proof
  assume x: "x = Raised e v"
  obtain i m where e: "e = NodeRaised i m"
    using reachable_inv [OF assms(1,2,4)] x by (auto simp: run_inv_def)
  from assms(4) show False
  proof (cases rule: reachable.cases)
    case reach_start
    with x e turn_error assms(2) show ?thesis by (auto simp: start_run_def Let_def fresh_task_def)
  next
    case (reach_step y)
    have "quiet (sched_of y)" by (rule reachable_quiet [OF assms(3) reach_step(1)])
    from reach_step(2) x e turn_error show ?thesis
      by (cases rule: step.cases) (use \<open>quiet (sched_of y)\<close> in \<open>auto simp: quiet_def\<close>)
  qed
qed

section \<open>Every node computes something\<close>

lemma fully_sorted_subplan: "fully_sorted p \<Longrightarrow> n \<in> set (p_nodes p) \<Longrightarrow> n_subplan n = Some q \<Longrightarrow> fully_sorted q"
  by (auto elim: fully_sortedE)

lemma subplan_fresh [simp]: "fresh_task q (subplan_state en st n q)"
  by (simp add: fresh_task_def subplan_state_def new_state_def)

lemma subplan_ctx_plan [simp]: "rc_plan (subplan_ctx c st n q) = q"
  by (simp add: subplan_ctx_def)

lemma node_outcome_total_if:
  assumes "\<And>q c' st'. n_type n = SUBPLAN \<Longrightarrow> n_subplan n = Some q \<Longrightarrow> rc_plan c' = q \<Longrightarrow>
    fresh_task q st' \<Longrightarrow> \<exists>x. reachable c' (node_outcome en c') st' x \<and> ended x"
  shows "\<exists>evs r. node_outcome en c st n evs r"
proof (cases "n_type n = SUBPLAN")
  case False
  obtain evs r w' where "dispatch_leaf (en\<lparr>ne_bus := rc_emit c\<rparr>) st n (node_path (rc_prefix c) (n_id n)) undefined = (evs, r, w')"
    by (metis prod_cases3)
  with False show ?thesis by (blast intro: leaf_node)
next
  case sub: True
  show ?thesis
  proof (cases "n_subplan n")
    case None
    with sub show ?thesis by (blast intro: no_subplan)
  next
    case (Some q)
    then obtain x where "reachable (subplan_ctx c st n q) (node_outcome en (subplan_ctx c st n q)) (subplan_state en st n q) x"
      "ended x" using assms sub by (metis subplan_ctx_plan subplan_fresh)
    with sub Some show ?thesis by (blast intro: nested_plan)
  qed
qed

lemma sorted_run_ends:
  "fully_sorted p \<Longrightarrow> rc_plan c = p \<Longrightarrow> fresh_task p st \<Longrightarrow>
     \<exists>x. reachable c (node_outcome en c) st x \<and> ended x"
proof (induction p arbitrary: c st rule: fully_sorted.induct)
  case (fully_sortedI p)
  have "ordered_plan (rc_plan c)" using fully_sortedI.hyps(1) fully_sortedI.prems(1) by (simp add: ordered_plan_def)
  moreover have "\<exists>evs r. node_outcome en c st0 n evs r" if "n \<in> set (p_nodes (rc_plan c))" for st0 n
    using that fully_sortedI.IH fully_sortedI.prems(1) by (intro node_outcome_total_if) auto
  ultimately show ?case
    using run_finishes [OF _ _ _ reach_start, of c st "node_outcome en c"] fully_sortedI.prems
    by (auto simp: ended_def)
qed

lemma node_outcome_total:
  "fully_sorted p \<Longrightarrow> n \<in> set (p_nodes p) \<Longrightarrow> \<exists>evs r. node_outcome en c st n evs r"
  by (rule node_outcome_total_if) (auto intro: sorted_run_ends fully_sorted_subplan)

section \<open>Every recorded result is well formed\<close>

definition recorded_ok :: "settings \<Rightarrow> node_id \<Rightarrow> node_result \<Rightarrow> bool" where
  "recorded_ok s i r \<longleftrightarrow>
     r = mk_result i SKIPPED \<or>
     result_ok i r \<and> r_tier_used r \<noteq> None \<and>
     (r_status r = COMPLETED \<and> float_less (r_confidence r) (confidence_threshold s) \<longrightarrow> r_flagged r)"

lemma finalize_ok: "result_ok i r \<Longrightarrow> recorded_ok s i (finalize_result s n r)"
  by (auto simp: recorded_ok_def finalize_result_def result_ok_def Let_def)

lemma recorded_unit: "recorded_ok s i r \<Longrightarrow> unit_float (r_confidence r)"
  by (auto simp: recorded_ok_def result_ok_def mk_result_def)

lemma run_records_ok:
  assumes "ordered_plan (rc_plan c)" and "fresh_task (rc_plan c) st" and "reachable c out st x"
    and out: "\<And>st0 n evs r. n \<in> set (p_nodes (rc_plan c)) \<Longrightarrow> out st0 n evs (Inr r) \<Longrightarrow> result_ok (n_id n) r"
    and i: "result_of (v_state (sched_of x)) i = Some r"
  shows "recorded_ok (rc_settings c) i r"
proof -
  note inv = reachable_sched [OF assms(1-3)]
  note D = inv_setsD [OF sched_invD(1) [OF inv]]
  have "i \<in> completed (sched_of x) \<or> i \<in> skipped (sched_of x)" using D(6) i by blast
  then show ?thesis
  proof
    assume "i \<in> completed (sched_of x)"
    with sched_invD(4) [OF inv] i obtain n st0 evs r0 where
      "node_map (rc_plan c) i = Some n" "out st0 n evs (Inr r0)" "r = finalize_result (rc_settings c) n r0"
      unfolding inv_outcomes_def computed_def by fastforce
    with node_map_Some out finalize_ok show ?thesis by metis
  next
    assume "i \<in> skipped (sched_of x)"
    with sched_invD(3) [OF inv] i show ?thesis by (auto simp: inv_branches_def recorded_ok_def)
  qed
qed

lemma final_output_recorded:
  assumes "final_output_result p results = Some r"
  shows "\<exists>i. map_of results i = Some r"
proof -
  have mem: "first_some xs = Some y \<Longrightarrow> Some y \<in> set xs" for xs and y :: node_result
    by (induction xs rule: first_some.induct) auto
  have "final_candidate p results t i = Some r \<Longrightarrow> map_of results i = Some r" for t i
    by (auto simp: final_candidate_def split: option.splits if_splits)
  with mem [OF assms [unfolded final_output_result_def]] show ?thesis by fastforce
qed

lemma node_outcome_ok:
  "node_outcome en c st n evs r \<Longrightarrow> (\<And>q. n_subplan n = Some q \<Longrightarrow> fully_sorted q) \<Longrightarrow>
     case r of Inl e \<Rightarrow> False | Inr r0 \<Rightarrow> result_ok (n_id n) r0"
proof (induction rule: node_outcome.induct)
  case (leaf_node n c st w evs r w')
  from dispatch_leaf_ok [OF leaf_node(2)] show ?case by simp
next
  case (no_subplan n c st)
  show ?case by (simp add: result_ok_mk)
next
  case (nested_plan n q c st x)
  let ?out = "\<lambda>st0 m evs r. node_outcome en (subplan_ctx c st n q) st0 m evs r \<and>
    ((\<forall>q. n_subplan m = Some q \<longrightarrow> fully_sorted q) \<longrightarrow> (case r of Inl e \<Rightarrow> False | Inr r0 \<Rightarrow> result_ok (n_id m) r0))"
  have q: "fully_sorted q" using nested_plan by blast
  have reach: "reachable (subplan_ctx c st n q) ?out (subplan_state en st n q) x"
    by (rule reachable_mono [THEN mp, OF _ nested_plan.IH]) blast
  have rec: "result_of (v_state (sched_of x)) i = Some r \<Longrightarrow> recorded_ok (rc_settings (subplan_ctx c st n q)) i r" for i r
    by (rule run_records_ok [OF _ _ reach])
      (use q fully_sorted_ordered fully_sorted_subplan in \<open>auto split: sum.splits\<close>)
  show ?case
  proof (cases x)
    case (Returned v)
    have "final_output_result q (s_results (v_state v)) = Some r \<Longrightarrow> unit_float (r_confidence r)" for r
      using final_output_recorded recorded_unit rec Returned by (metis sched_of.simps(2))
    then show ?thesis
      by (auto simp: subplan_result_def Returned result_ok_def mk_result_def split: option.splits)
  qed (simp_all add: subplan_result_def result_ok_mk)
qed

lemma executor_records_ok:
  assumes "fully_sorted (rc_plan c)" and "fresh_task (rc_plan c) st"
    and "reachable c (node_outcome en c) st x" and "result_of (v_state (sched_of x)) i = Some r"
  shows "recorded_ok (rc_settings c) i r"
  using assms node_outcome_ok [of en c] fully_sorted_subplan [OF assms(1)]
  by (intro run_records_ok [OF fully_sorted_ordered [OF assms(1)] assms(2,3) _ assms(4)]) fastforce

section \<open>The task an event belongs to\<close>

definition scoped :: "(event \<Rightarrow> bool) \<Rightarrow> string \<Rightarrow> sched \<Rightarrow> bool" where
  "scoped Q t v \<longleftrightarrow> s_task_id (v_state v) = t \<and> (\<forall>e \<in> set (v_events v). Q e) \<and>
     (\<forall>i st0. (i, Running st0) \<in> set (v_flight v) \<longrightarrow> s_task_id st0 = t)"

lemma event_task_cong: "s_task_id st = s_task_id st' \<Longrightarrow> event_task c st = event_task c st'"
  by (cases "rc_scope c") (simp_all add: event_task_def)

definition owns :: "(event \<Rightarrow> bool) \<Rightarrow> run_ctx \<Rightarrow> exec_state \<Rightarrow> bool" where
  "owns Q c st \<longleftrightarrow> (\<forall>body. Q (Event (event_task c st) body))"

lemma scoped_emit:
  assumes "owns Q c st" and "scoped Q (s_task_id st) v"
  shows "scoped Q (s_task_id st) (emit c b v)"
  using assms event_task_cong [of "v_state v" st c] by (auto simp: scoped_def emit_def owns_def)

lemma scoped_record_skipped:
  assumes "owns Q c st" and "scoped Q (s_task_id st) v"
  shows "scoped Q (s_task_id st) (record_skipped c i v)"
  unfolding record_skipped_def Let_def by (rule scoped_emit [OF assms(1)]) (use assms(2) in \<open>simp add: scoped_def\<close>)

lemma scoped_skip_each:
  assumes "owns Q c st"
  shows "scoped Q (s_task_id st) v \<Longrightarrow> scoped Q (s_task_id st) (skip_each c is v)"
  by (induction "is" arbitrary: v) (simp_all add: scoped_record_skipped [OF assms])

lemma scoped_record_node:
  assumes "owns Q c st" and "scoped Q (s_task_id st) v"
  shows "scoped Q (s_task_id st) (record_node c n r v)"
proof -
  let ?v = "v\<lparr>v_state := (v_state v)\<lparr>s_results := AList.update (n_id n) (finalize_result (rc_settings c) n r)
      (s_results (v_state v)), s_completed_nodes := s_completed_nodes (v_state v) @ [n_id n]\<rparr>\<rparr>"
  have v: "scoped Q (s_task_id st) ?v" using assms(2) by (simp add: scoped_def)
  have "scoped Q (s_task_id st) (record_decision c n r' ?v)" for r'
    unfolding record_decision_def using v
    by (auto intro!: scoped_emit [OF assms(1)]) (simp add: scoped_def)
  then show ?thesis
    unfolding record_node_def Let_def by (intro scoped_skip_each scoped_emit assms(1))
qed

text \<open>
  All events of a run satisfy what its own events do and what the events of its nodes do, when they
  start in a state of the same task.
\<close>

lemma reachable_scoped:
  assumes own: "owns Q c st"
    and nodes: "\<And>st0 n evs r e. n \<in> set (p_nodes (rc_plan c)) \<Longrightarrow> s_task_id st0 = s_task_id st \<Longrightarrow>
      out st0 n evs r \<Longrightarrow> e \<in> set evs \<Longrightarrow> Q e"
    and reach: "reachable c out st x"
  shows "scoped Q (s_task_id st) (sched_of x)"
proof (rule reachable_preserves [OF _ _ _ _ _ _ _ _ _ reach])
  fix i v assume v: "scoped Q (s_task_id st) v"
  then show "scoped Q (s_task_id st) (drop_pending i v)" by (simp add: scoped_def)
  then show "scoped Q (s_task_id st) (record_skipped c i (drop_pending i v))"
    by (rule scoped_record_skipped [OF own])
  from v show "scoped Q (s_task_id st) (launch i v)" by (auto simp: scoped_def)
next
  fix v assume v: "scoped Q (s_task_id st) v"
  then show "scoped Q (s_task_id st) (finish_run c v)"
    unfolding finish_run_def Let_def by (auto intro!: scoped_emit [OF own]) (simp_all add: scoped_def)
  from v show "scoped Q (s_task_id st) (v\<lparr>v_flight := filter (\<lambda>(i, f). f \<noteq> Ended None) (v_flight v)\<rparr>)"
    by (auto simp: scoped_def)
next
  fix pend st' assume "same_task st st'"
  then show "scoped Q (s_task_id st) \<lparr>v_pending = pend, v_flight = [], v_state = st', v_events = []\<rparr>"
    by (simp add: scoped_def same_task_def)
next
  fix i n v assume v: "scoped Q (s_task_id st) v"
  have "scoped Q (s_task_id st) (emit c (NodeStarted i (n_type n) (select_tier (rc_settings c) n)
      (node_path (rc_prefix c) i)) v)" using own v by (rule scoped_emit)
  then show "scoped Q (s_task_id st) (set_flight i (Running (v_state v)) (emit c (NodeStarted i (n_type n)
      (select_tier (rc_settings c) n) (node_path (rc_prefix c) i)) v))"
    using v by (auto simp: scoped_def set_flight_def dest!: mem_update_cases)
next
  fix i n v st0 evs r
  assume v: "scoped Q (s_task_id st) v" and fl: "map_of (v_flight v) i = Some (Running st0)"
    and n: "node_map (rc_plan c) i = Some n" and o: "out st0 n evs (Inr r)"
  have "s_task_id st0 = s_task_id st" using v map_of_SomeD [OF fl] by (auto simp: scoped_def)
  with nodes o node_map_Some [OF n] v have "scoped Q (s_task_id st) (v\<lparr>v_events := v_events v @ evs\<rparr>)"
    by (auto simp: scoped_def)
  then have "scoped Q (s_task_id st) (record_node c n r (v\<lparr>v_events := v_events v @ evs\<rparr>))"
    by (rule scoped_record_node [OF own])
  then show "scoped Q (s_task_id st) (set_flight i (Ended None) (record_node c n r (v\<lparr>v_events := v_events v @ evs\<rparr>)))"
    by (auto simp: scoped_def set_flight_def dest!: mem_update_cases)
next
  fix i n v st0 evs e
  assume v: "scoped Q (s_task_id st) v" and fl: "map_of (v_flight v) i = Some (Running st0)"
    and n: "node_map (rc_plan c) i = Some n" and o: "out st0 n evs (Inl e)"
  have "s_task_id st0 = s_task_id st" using v map_of_SomeD [OF fl] by (auto simp: scoped_def)
  with nodes o node_map_Some [OF n] v
  show "scoped Q (s_task_id st) (set_flight i (Ended (Some e)) (v\<lparr>v_events := v_events v @ evs\<rparr>))"
    by (auto simp: scoped_def set_flight_def dest!: mem_update_cases)
qed

text \<open>A plan whose nodes have no subplan.\<close>

definition flat :: "plan \<Rightarrow> bool" where
  "flat q \<longleftrightarrow> (\<forall>n \<in> set (p_nodes q). n_subplan n = None)"

lemma leaf_events:
  "node_outcome en c st n evs r \<Longrightarrow> n_subplan n = None \<Longrightarrow> e \<in> set evs \<Longrightarrow> e_task e = event_task c st"
  by (cases rule: node_outcome.cases) auto

lemma flat_run_events:
  assumes "flat (rc_plan c)" and "reachable c (node_outcome en c) st x" and "e \<in> set (v_events (sched_of x))"
  shows "e_task e = event_task c st"
proof -
  have "scoped (\<lambda>e. e_task e = event_task c st) (s_task_id st) (sched_of x)"
  proof (rule reachable_scoped [OF _ _ assms(2)])
    fix st0 n evs r e
    assume "n \<in> set (p_nodes (rc_plan c))" "s_task_id st0 = s_task_id st" "node_outcome en c st0 n evs r" "e \<in> set evs"
    with leaf_events [of en c st0 n evs r e] event_task_cong [of st0 st c] assms(1)
    show "e_task e = event_task c st" by (simp add: flat_def)
  qed (simp add: owns_def)
  with assms(3) show ?thesis by (simp add: scoped_def)
qed

lemma nested_events:
  assumes "node_outcome en c st n evs r" and "n_subplan n = Some q" and "flat q" and "e \<in> set evs"
  shows "e_task e = (if n_type n = SUBPLAN then s_task_id st else event_task c st)"
  using assms
proof (cases rule: node_outcome.cases)
  case (nested_plan q' x)
  then have "e_task e = event_task (subplan_ctx c st n q) (subplan_state en st n q)"
    using flat_run_events [of "subplan_ctx c st n q" en "subplan_state en st n q" x e] assms by simp
  with nested_plan show ?thesis by (simp add: event_task_def subplan_ctx_def)
qed auto

text \<open>A run of a validated plan on real nodes.\<close>

lemma validated_run_ends:
  assumes "validate h s p = Inr (rc_plan c)" and "fresh_task (rc_plan c) st"
    and "reachable c (node_outcome en c) st x"
  shows "(\<exists>v. (step c (node_outcome en c))\<^sup>*\<^sup>* x (Returned v)) \<and> (\<forall>e v. x \<noteq> Raised e v)"
proof -
  have sorted: "fully_sorted (rc_plan c)" using validate_sound(2) [OF assms(1)] .
  note ordered = fully_sorted_ordered [OF sorted]
  have noraise: "\<not> node_outcome en c st0 n evs (Inl e)" for st0 n evs e
    using node_outcome_result [of en c st0 n evs "Inl e"] by auto
  obtain y where y: "(step c (node_outcome en c))\<^sup>*\<^sup>* x y" "reachable c (node_outcome en c) st y"
    "(\<exists>v. y = Returned v) \<or> (\<exists>i m v. y = Raised (NodeRaised i m) v)"
    using run_finishes [OF ordered assms(2) _ assms(3)] node_outcome_total [OF sorted] by blast
  have "z \<noteq> Raised e v" if "reachable c (node_outcome en c) st z" for z e v
    by (rule never_raised [where out = "node_outcome en c", OF ordered assms(2) noraise that])
  with y assms(3) show ?thesis by blast
qed

section \<open>Properties\<close>


text \<open>C13: Every result in every reachable state of such a run is well formed: it is the skipped result
  or belongs to its node, has a confidence between zero and one (never NaN), one of the three
  terminal statuses, an error when it failed, the tier that was used, and the flag when it
  completed below the confidence threshold.\<close>

theorem recorded_results_well_formed:
  assumes "validate h s p = Inr (rc_plan c)" and "fresh_task (rc_plan c) st"
    and "reachable c (node_outcome en c) st x" and "result_of (v_state (sched_of x)) i = Some r"
  shows "recorded_ok (rc_settings c) i r"
  using executor_records_ok [OF validate_sound(2) [OF assms(1)] assms(2-4)] .

text \<open>The events of a run whose subplans contain no further subplans all carry the id of the
  run's task: a subscriber of the task sees the nested nodes.\<close>

theorem nested_events_reach_the_task:
  assumes "rc_scope c = None" and "reachable c (node_outcome en c) st x"
    and "\<And>n q. n \<in> set (p_nodes (rc_plan c)) \<Longrightarrow> n_subplan n = Some q \<Longrightarrow> flat q"
    and "e \<in> set (v_events (sched_of x))"
  shows "e_task e = s_task_id st"
proof -
  have "e_task e = s_task_id st" if "n \<in> set (p_nodes (rc_plan c))" "s_task_id st0 = s_task_id st"
    "node_outcome en c st0 n evs r" "e \<in> set evs" for st0 n evs r e
    using that assms(1) leaf_events [OF that(3) _ that(4)] nested_events [OF that(3) _ assms(3) that(4)]
    by (cases "n_subplan n") (auto simp: event_task_def split: if_splits)
  moreover have "owns (\<lambda>e. e_task e = s_task_id st) c st" using assms(1) by (simp add: owns_def event_task_def)
  ultimately have "scoped (\<lambda>e. e_task e = s_task_id st) (s_task_id st) (sched_of x)"
    by (intro reachable_scoped [OF _ _ assms(2)])
  with assms(4) show ?thesis by (simp add: scoped_def)
qed

text \<open>One level deeper they do not: the events of a subplan inside a subplan are published under
  the inner run's id, which is not the id of the task.\<close>

theorem deep_events_leave_the_task:
  assumes "node_outcome en (subplan_ctx c st n q) st' m evs r" and "same_task (subplan_state en st n q) st'"
    and "n_type m = SUBPLAN" and "n_subplan m = Some q'" and "flat q'" and "e \<in> set evs"
  shows "e_task e = s_task_id st @ ''-sub'' @ str_int (n_id n) \<and> e_task e \<noteq> s_task_id st"
  using nested_events [OF assms(1,4,5,6)] assms(2,3)
  by (simp add: same_task_def subplan_state_def new_state_def)

section \<open>On concrete plans\<close>

definition result_plan :: plan where
  "result_plan = Plan [mk_node 1 RESULT [] []] [1]"

definition result_ctx :: run_ctx where
  "result_ctx =
     \<lparr>rc_plan = result_plan, rc_settings = ne_settings sample_env, rc_emit = True, rc_scope = None, rc_prefix = [],
      rc_emit_completed = True, rc_str = ne_str sample_env\<rparr>"

definition result_start :: exec_state where
  "result_start = new_state ''t'' [] (Some result_plan)"

lemma result_valid:
  "validate (ne_harness sample_env) (ne_settings sample_env) (Plan [mk_node 1 RESULT [] []] []) = Inr (rc_plan result_ctx)"
  unfolding result_ctx_def result_plan_def by code_simp

lemma result_fresh: "fresh_task (rc_plan result_ctx) result_start"
  by (simp add: fresh_task_def result_start_def result_ctx_def new_state_def)


text \<open>A tool node that names no tool, run alone.\<close>

definition tool_plan :: plan where
  "tool_plan = Plan [mk_node 1 TOOL [] []] [1]"

definition tool_outcome :: "exec_state \<Rightarrow> node \<Rightarrow> string + node_result" where
  "tool_outcome st n = Inr (failed_result 1 ''TOOL node has no tool name'')"

definition tool_ctx :: run_ctx where
  "tool_ctx = result_ctx\<lparr>rc_plan := tool_plan\<rparr>"

definition tool_start :: exec_state where
  "tool_start = new_state ''t'' [] (Some tool_plan)"

definition tool_end :: run_state where
  "tool_end = drive tool_ctx tool_outcome 20 (start_run tool_ctx tool_start)"

lemma tool_outcomes:
  assumes "rc_plan c = tool_plan" and "n \<in> set (p_nodes (rc_plan c))" and "out_of tool_outcome st n evs r"
  shows "node_outcome en c st n evs r"
proof -
  from assms have n: "n = mk_node 1 TOOL [] []" and "evs = []" "r = Inr (failed_result 1 ''TOOL node has no tool name'')"
    by (simp_all add: tool_plan_def out_of_def tool_outcome_def)
  moreover have "dispatch_leaf (en\<lparr>ne_bus := rc_emit c\<rparr>) st n (node_path (rc_prefix c) (n_id n)) undefined =
      ([], failed_result 1 ''TOOL node has no tool name'', undefined)"
    by (simp add: n mk_node_def dispatch_leaf_def execute_tool_def)
  ultimately show ?thesis using leaf_node [where n = n and en = en and c = c and st = st and w = undefined and evs = "[]"] by (simp add: mk_node_def)
qed

lemma tool_ordered: "ordered_plan tool_plan"
  unfolding ordered_plan_def tool_plan_def by code_simp

lemma tool_run:
  assumes "rc_plan c = tool_plan" and "fresh_task tool_plan st"
  shows "reachable c (node_outcome en c) st (drive c tool_outcome k (start_run c st))"
  by (rule reachable_mono_on [OF tool_outcomes [OF assms(1)] drive_reachable])
    (simp_all add: assms tool_ordered reach_start)

lemma recorded_results_well_formed_witness:
  "\<exists>x r. result_of (v_state (sched_of x)) 1 = Some r \<and> recorded_ok (rc_settings result_ctx) 1 r"
proof -
  obtain v where v: "(step result_ctx (node_outcome sample_env result_ctx))\<^sup>*\<^sup>* (start_run result_ctx result_start) (Returned v)"
    using sorted_run_ends [OF validate_sound(2) [OF result_valid] refl result_fresh, of sample_env]
      node_outcome_result never_raised [OF fully_sorted_ordered [OF validate_sound(2) [OF result_valid]] result_fresh,
        of "node_outcome sample_env result_ctx"]
    by (metis ended_def run_state.exhaust reachable_rtrancl sum.distinct(1))
  then have reach: "reachable result_ctx (node_outcome sample_env result_ctx) result_start (Returned v)"
    by (simp add: reachable_rtrancl)
  then have "1 \<in> has_result (v_state v)"
    using reachable_inv [OF fully_sorted_ordered [OF validate_sound(2) [OF result_valid]] result_fresh reach]
    by (simp add: run_inv_def) (simp add: result_ctx_def result_plan_def node_ids_def mk_node_def)
  then obtain r where "result_of (v_state (sched_of (Returned v))) 1 = Some r" by auto
  with recorded_results_well_formed [OF result_valid result_fresh reach this] show ?thesis by blast
qed

lemma nested_events_reach_the_task_witness:
  "v_events (sched_of tool_end) \<noteq> [] \<and> e_task (hd (v_events (sched_of tool_end))) = ''t''"
proof -
  have ne: "v_events (sched_of tool_end) \<noteq> []"
    unfolding tool_end_def tool_ctx_def tool_start_def tool_plan_def by code_simp
  have "reachable tool_ctx (node_outcome sample_env tool_ctx) tool_start tool_end"
    unfolding tool_end_def
    by (rule tool_run) (simp_all add: tool_ctx_def tool_start_def fresh_task_def new_state_def)
  from nested_events_reach_the_task [OF _ this _ list.set_sel(1) [OF ne]] ne show ?thesis
    by (simp add: tool_ctx_def result_ctx_def tool_start_def new_state_def) (simp add: tool_plan_def mk_node_def)
qed

text \<open>A subplan node whose plan is \<open>tool_plan\<close>, inside the subplan of node 7.\<close>

definition outer_node :: node where
  "outer_node = mk_node 7 SUBPLAN [] []"

definition inner_node :: node where
  "inner_node = Node 1 SUBPLAN [] None None [] None None None False None (Some tool_plan) None"

definition inner_ctx :: run_ctx where
  "inner_ctx = subplan_ctx tool_ctx tool_start outer_node (Plan [inner_node] [1])"

definition inner_state :: exec_state where
  "inner_state = subplan_state sample_env tool_start outer_node (Plan [inner_node] [1])"

definition deep_end :: run_state where
  "deep_end = drive (subplan_ctx inner_ctx inner_state inner_node tool_plan) tool_outcome 20
     (start_run (subplan_ctx inner_ctx inner_state inner_node tool_plan)
        (subplan_state sample_env inner_state inner_node tool_plan))"

lemma deep_events_leave_the_task_witness:
  "e_task (hd (v_events (sched_of deep_end))) = ''t-sub'' @ str_int 7 \<and>
   e_task (hd (v_events (sched_of deep_end))) \<noteq> s_task_id tool_start"
proof -
  have ne: "v_events (sched_of deep_end) \<noteq> []" by code_simp
  have fin: "ended deep_end" unfolding ended_iff by code_simp
  have "node_outcome sample_env inner_ctx inner_state inner_node (v_events (sched_of deep_end))
      (Inr (subplan_result inner_node tool_plan deep_end))"
    by (rule nested_plan) (use fin in \<open>simp_all add: inner_node_def deep_end_def tool_run\<close>)
  from deep_events_leave_the_task [OF this [unfolded inner_ctx_def] _ _ _ _ list.set_sel(1) [OF ne]] show ?thesis
    by (simp add: inner_state_def same_task_def inner_node_def flat_def tool_plan_def mk_node_def outer_node_def
        tool_start_def new_state_def)
qed

end
