(* ===== verification/ToolApproval.thy ===== *)
theory ToolApproval
  imports Events
begin

text \<open>
  The broker of \<open>executor/tool_approval.py\<close>.  A request is a coroutine with a suspension point, so
  its two halves are separate operations: \<open>open_request\<close> up to \<open>await future\<close>, and
  \<open>return_request\<close> or \<open>abandon_request\<close> after it, the \<open>finally\<close> clause included.  A run of the
  broker interleaves the operations of any number of requests and gateways.
\<close>

section \<open>State and operations\<close>

text \<open>An \<open>asyncio.Future\<close>; cancelling the task that awaits it cancels the future.\<close>

datatype future_state = Unset | Resolved bool | Stopped

record broker =
  br_pending :: "(string \<times> future_state) list"
  br_always :: "string set"

record approval_request =
  ar_id :: string
  ar_task :: string
  ar_node :: node_id
  ar_tool :: string
  ar_risk :: tool_risk
  ar_args :: "(string \<times> json) list"
  ar_description :: string

definition new_broker :: broker where
  "new_broker = \<lparr>br_pending = [], br_always = {}\<rparr>"

definition is_always_allowed :: "string \<Rightarrow> broker \<Rightarrow> bool" where
  "is_always_allowed tool b \<longleftrightarrow> tool \<in> br_always b"

definition remember_allow :: "string \<Rightarrow> broker \<Rightarrow> broker" where
  "remember_allow tool b = b\<lparr>br_always := insert tool (br_always b)\<rparr>"

definition request_event :: "approval_request \<Rightarrow> event" where
  "request_event r = Event (ar_task r)
     (ToolApprovalRequested (ar_id r) (ar_node r) (ar_tool r) (ar_risk r) (ar_args r) (ar_description r))"

definition open_request :: "approval_request \<Rightarrow> broker \<Rightarrow> event_bus \<Rightarrow> broker \<times> event_bus" where
  "open_request r b bus =
     (b\<lparr>br_pending := AList.update (ar_id r) Unset (br_pending b)\<rparr>, publish (request_event r) bus)"

definition resolve :: "string \<Rightarrow> bool \<Rightarrow> broker \<Rightarrow> broker" where
  "resolve aid approved b =
     (case map_of (br_pending b) aid of
        Some Unset \<Rightarrow> b\<lparr>br_pending := AList.update aid (Resolved approved) (br_pending b)\<rparr>
      | _ \<Rightarrow> b)"

definition cancel :: "string \<Rightarrow> broker \<Rightarrow> broker" where
  "cancel aid b = resolve aid False b"

text \<open>The awaiting task is cancelled: its future is no longer open to an answer.\<close>

definition interrupt :: "string \<Rightarrow> broker \<Rightarrow> broker" where
  "interrupt aid b =
     (case map_of (br_pending b) aid of
        Some Unset \<Rightarrow> b\<lparr>br_pending := AList.update aid Stopped (br_pending b)\<rparr>
      | _ \<Rightarrow> b)"

definition abandon_request :: "string \<Rightarrow> broker \<Rightarrow> broker" where
  "abandon_request aid b = b\<lparr>br_pending := AList.delete aid (br_pending b)\<rparr>"

text \<open>\<open>return await future\<close>: \<open>None\<close> while the future has no result.\<close>

definition return_request :: "string \<Rightarrow> broker \<Rightarrow> (bool \<times> broker) option" where
  "return_request aid b =
     (case map_of (br_pending b) aid of
        Some (Resolved v) \<Rightarrow> Some (v, abandon_request aid b)
      | _ \<Rightarrow> None)"

section \<open>Runs\<close>

datatype action =
    Open approval_request
  | Resolve string bool
  | Cancel string
  | Interrupt string
  | Return string bool
  | Abandon string
  | Remember string

fun opens :: "string \<Rightarrow> action \<Rightarrow> bool" where
  "opens a (Open r) = (ar_id r = a)"
| "opens a _ = False"

fun closes :: "string \<Rightarrow> action \<Rightarrow> bool" where
  "closes a (Return i v) = (i = a)"
| "closes a (Abandon i) = (i = a)"
| "closes a _ = False"

text \<open>
  The actions of a run, the latest last.  \<open>uuid4\<close> gives a new id to every request; a request
  returns or is abandoned once, since it is one coroutine.
\<close>

inductive broker_run :: "action list \<Rightarrow> broker \<Rightarrow> event_bus \<Rightarrow> bool" where
  start: "broker_run [] new_broker bus"
| requesting: "broker_run acts b bus \<Longrightarrow> \<forall>x \<in> set acts. \<not> opens (ar_id r) x \<Longrightarrow>
    open_request r b bus = (b', bus') \<Longrightarrow> broker_run (acts @ [Open r]) b' bus'"
| resolving: "broker_run acts b bus \<Longrightarrow> broker_run (acts @ [Resolve a v]) (resolve a v b) bus"
| cancelling: "broker_run acts b bus \<Longrightarrow> broker_run (acts @ [Cancel a]) (cancel a b) bus"
| interrupting: "broker_run acts b bus \<Longrightarrow> broker_run (acts @ [Interrupt a]) (interrupt a b) bus"
| returning: "broker_run acts b bus \<Longrightarrow> return_request a b = Some (v, b') \<Longrightarrow>
    broker_run (acts @ [Return a v]) b' bus"
| abandoning: "broker_run acts b bus \<Longrightarrow> map_of (br_pending b) a \<noteq> None \<Longrightarrow>
    broker_run (acts @ [Abandon a]) (abandon_request a b) bus"
| remembering: "broker_run acts b bus \<Longrightarrow> broker_run (acts @ [Remember t]) (remember_allow t b) bus"

text \<open>The specification: the first answer given to a request after it was opened.\<close>

fun first_answer :: "string \<Rightarrow> action list \<Rightarrow> future_state" where
  "first_answer a [] = Unset"
| "first_answer a (Resolve i v # xs) = (if i = a then Resolved v else first_answer a xs)"
| "first_answer a (Cancel i # xs) = (if i = a then Resolved False else first_answer a xs)"
| "first_answer a (Interrupt i # xs) = (if i = a then Stopped else first_answer a xs)"
| "first_answer a (x # xs) = first_answer a xs"

definition verdict :: "string \<Rightarrow> action list \<Rightarrow> future_state" where
  "verdict a acts = first_answer a (dropWhile (\<lambda>x. \<not> opens a x) acts)"

definition opened :: "string \<Rightarrow> action list \<Rightarrow> bool" where
  "opened a acts \<longleftrightarrow> (\<exists>x \<in> set acts. opens a x)"

definition closings :: "string \<Rightarrow> action list \<Rightarrow> nat" where
  "closings a acts = length (filter (closes a) acts)"

lemma opened_snoc [simp]: "opened a (acts @ [x]) \<longleftrightarrow> opened a acts \<or> opens a x"
  by (auto simp: opened_def)

lemma closings_snoc [simp]: "closings a (acts @ [x]) = closings a acts + (if closes a x then 1 else 0)"
  by (simp add: closings_def)

lemma first_answer_append:
  "first_answer a (xs @ ys) = (if first_answer a xs = Unset then first_answer a ys else first_answer a xs)"
  by (induction a xs rule: first_answer.induct) auto

lemma verdict_opened:
  assumes "opened a acts"
  shows "verdict a (acts @ [x]) = (if verdict a acts = Unset then first_answer a [x] else verdict a acts)"
proof -
  from assms obtain y where "y \<in> set acts" "\<not> \<not> opens a y" by (auto simp: opened_def)
  then have "dropWhile (\<lambda>x. \<not> opens a x) (acts @ [x]) = dropWhile (\<lambda>x. \<not> opens a x) acts @ [x]"
    by (rule dropWhile_append1)
  then show ?thesis by (simp add: verdict_def first_answer_append)
qed

lemma verdict_unopened:
  assumes "\<not> opened a acts"
  shows "verdict a (acts @ [x]) = (if opens a x then first_answer a [x] else Unset)"
proof -
  have "dropWhile (\<lambda>x. \<not> opens a x) acts = []" using assms by (auto simp: opened_def)
  then show ?thesis using assms by (auto simp: verdict_def opened_def dropWhile_append)
qed

lemmas pending_simps =
  open_request_def resolve_def cancel_def interrupt_def abandon_request_def return_request_def
  remember_allow_def new_broker_def update_conv' delete_conv'

text \<open>The table holds the open requests, each with its verdict so far.\<close>

lemma broker_table:
  "broker_run acts b bus \<Longrightarrow>
     closings a acts \<le> 1 \<and> (closings a acts = 1 \<longrightarrow> opened a acts) \<and>
     map_of (br_pending b) a = (if opened a acts \<and> closings a acts = 0 then Some (verdict a acts) else None)"
proof (induction rule: broker_run.induct)
  case (start bus)
  then show ?case by (simp add: pending_simps opened_def closings_def)
next
  case (requesting acts b bus r b' bus')
  then have "ar_id r = a \<Longrightarrow> \<not> opened a acts" by (auto simp: opened_def)
  with requesting show ?case
    by (cases "ar_id r = a"; cases "opened a acts")
       (auto simp: pending_simps verdict_opened verdict_unopened)
next
  case (resolving acts b bus i v)
  then show ?case
    by (cases "opened a acts")
       (auto simp: pending_simps verdict_opened verdict_unopened split: option.splits future_state.splits)
next
  case (cancelling acts b bus i)
  then show ?case
    by (cases "opened a acts")
       (auto simp: pending_simps verdict_opened verdict_unopened split: option.splits future_state.splits)
next
  case (interrupting acts b bus i)
  then show ?case
    by (cases "opened a acts")
       (auto simp: pending_simps verdict_opened verdict_unopened split: option.splits future_state.splits)
next
  case (returning acts b bus i v b')
  then show ?case
    by (cases "opened a acts")
       (auto simp: pending_simps verdict_opened verdict_unopened split: option.splits future_state.splits if_splits)
next
  case (abandoning acts b bus i)
  then show ?case
    by (cases "opened a acts")
       (auto simp: pending_simps verdict_opened verdict_unopened split: if_splits)
next
  case (remembering acts b bus t)
  then show ?case
    by (cases "opened a acts") (auto simp: pending_simps verdict_opened verdict_unopened)
qed

lemma verdict_kept:
  assumes "broker_run acts b bus" and "Return a v \<in> set acts" and "verdict a acts = Resolved v"
  shows "verdict a (acts @ [x]) = Resolved v"
proof -
  have "filter (closes a) acts \<noteq> []" using assms(2) by (auto simp: filter_empty_conv intro!: bexI [of _ "Return a v"])
  then have "closings a acts \<noteq> 0" by (simp add: closings_def)
  with broker_table [OF assms(1), of a] have "opened a acts" by linarith
  with assms(3) show ?thesis by (simp add: verdict_opened)
qed

lemma return_verdict:
  "broker_run acts b bus \<Longrightarrow> Return a v \<in> set acts \<Longrightarrow> verdict a acts = Resolved v"
proof (induction rule: broker_run.induct)
  case (returning acts b bus i w b')
  note table = broker_table [OF returning(1), of a]
  show ?case
  proof (cases "Return a v \<in> set acts")
    case True
    with returning.IH show ?thesis by (intro verdict_kept [OF returning(1)])
  next
    case False
    with returning table show ?thesis
      by (auto simp: return_request_def verdict_opened split: option.splits future_state.splits if_splits)
  qed
qed (auto intro: verdict_kept)

text \<open>An answered request is never stuck: it can return, with that answer.\<close>

lemma resolved_can_return:
  assumes "broker_run acts b bus" and "opened a acts" and "closings a acts = 0" and "verdict a acts = Resolved v"
  shows "\<exists>b'. return_request a b = Some (v, b') \<and> broker_run (acts @ [Return a v]) b' bus"
proof -
  have "map_of (br_pending b) a = Some (Resolved v)"
    using broker_table [OF assms(1), of a] assms(2,3,4) by simp
  then have r: "return_request a b = Some (v, abandon_request a b)" by (simp add: return_request_def)
  with returning [OF assms(1) r] show ?thesis by blast
qed

text \<open>
  C18: the approval broker answers every request with the first resolution given to it after it was
  opened (a cancellation counts as a refusal), whatever other requests, late resolutions and task
  cancellations are interleaved; no request is answered twice, and the table of pending futures
  holds exactly the requests that have neither returned nor been abandoned.
\<close>

theorem first_resolution_decides:
  assumes "broker_run acts b bus"
  shows "(Return a v \<in> set acts \<longrightarrow> verdict a acts = Resolved v) \<and> closings a acts \<le> 1 \<and>
    map_of (br_pending b) a = (if opened a acts \<and> closings a acts = 0 then Some (verdict a acts) else None)"
  using broker_table [OF assms] return_verdict [OF assms] by blast

definition sample_request :: approval_request where
  "sample_request = \<lparr>ar_id = ''q'', ar_task = ''t'', ar_node = 1, ar_tool = ''write_file'', ar_risk = RiskWrite,
     ar_args = [], ar_description = ''d''\<rparr>"

definition sample_bus :: event_bus where
  "sample_bus = \<lparr>bus_registry = [], bus_max_queue = 0\<rparr>"

theorem first_resolution_decides_witness:
  "\<exists>b. broker_run [Open sample_request, Cancel ''q'', Resolve ''q'' True, Return ''q'' False] b sample_bus \<and>
     verdict ''q'' [Open sample_request, Cancel ''q'', Resolve ''q'' True, Return ''q'' False] = Resolved False \<and>
     map_of (br_pending b) ''q'' = None"
proof -
  let ?b1 = "new_broker\<lparr>br_pending := [(''q'', Unset)]\<rparr>"
    and ?b2 = "new_broker\<lparr>br_pending := [(''q'', Resolved False)]\<rparr>"
  have "broker_run ([] @ [Open sample_request]) ?b1 sample_bus"
    by (rule requesting [OF start [of sample_bus]])
       (simp_all add: open_request_def new_broker_def sample_request_def sample_bus_def publish_def)
  from cancelling [OF this, of "''q''"] have "broker_run [Open sample_request, Cancel ''q''] ?b2 sample_bus"
    by (simp add: cancel_def resolve_def)
  from resolving [OF this, of "''q''" True]
  have "broker_run [Open sample_request, Cancel ''q'', Resolve ''q'' True] ?b2 sample_bus"
    by (simp add: resolve_def)
  from returning [OF this, of "''q''" False new_broker]
  have run: "broker_run [Open sample_request, Cancel ''q'', Resolve ''q'' True, Return ''q'' False] new_broker sample_bus"
    by (simp add: return_request_def abandon_request_def new_broker_def)
  with first_resolution_decides [OF run, of "''q''" False] show ?thesis
    by (auto simp: new_broker_def)
qed

end
