(* ===== verification/PlanPayload.thy ===== *)
theory PlanPayload
  imports Prelude
begin

text \<open>
  The repair of the planner's JSON in \<open>planner/planner.py\<close> before it is validated: duplicate keys,
  missing descriptions, a missing final result node.  The code mutates the parsed dicts in place;
  no object is shared, so each function here returns the changed object.
\<close>

section \<open>Duplicate keys\<close>

text \<open>\<open>_prefer_non_null_duplicate_object\<close>: the loop over the pairs of one JSON object.\<close>

fun prefer_non_null :: "(string \<times> json) list \<Rightarrow> (string \<times> json) list \<Rightarrow> (string \<times> json) list" where
  "prefer_non_null result [] = result"
| "prefer_non_null result ((k, v) # kvs) =
     (if v = JNull \<and> (case map_of result k of None \<Rightarrow> False | Some old \<Rightarrow> old \<noteq> JNull)
      then prefer_non_null result kvs
      else prefer_non_null (AList.update k v result) kvs)"

text \<open>\<open>json.loads\<close> calls the hook on every object, innermost first.\<close>

fun decode_object :: "json \<Rightarrow> json" where
  "decode_object (JObj kvs) = JObj (prefer_non_null [] (map (\<lambda>(k, v). (k, decode_object v)) kvs))"
| "decode_object (JList xs) = JList (map decode_object xs)"
| "decode_object v = v"

text \<open>The last value of a key that is not null, if any value is not; null when all are.\<close>

definition last_non_null :: "(string \<times> json) list \<Rightarrow> string \<Rightarrow> json option" where
  "last_non_null kvs k =
     (let vs = map snd (filter (\<lambda>(i, v). i = k) kvs)
      in if vs = [] then None
         else Some (let ws = filter (\<lambda>v. v \<noteq> JNull) vs in if ws = [] then JNull else List.last ws))"

lemma last_non_null_snoc:
  "last_non_null (kvs @ [(i, v)]) k =
     (if i \<noteq> k then last_non_null kvs k
      else if v \<noteq> JNull then Some v
      else Some (case last_non_null kvs k of None \<Rightarrow> JNull | Some w \<Rightarrow> w))"
  by (simp add: last_non_null_def Let_def)

lemma prefer_non_null_append:
  "prefer_non_null acc (kvs @ kvs') = prefer_non_null (prefer_non_null acc kvs) kvs'"
  by (induction acc kvs rule: prefer_non_null.induct) auto

lemma prefer_non_null_lookup: "map_of (prefer_non_null [] kvs) k = last_non_null kvs k"
proof (induction kvs rule: rev_induct)
  case Nil
  then show ?case by (simp add: last_non_null_def)
next
  case (snoc kv kvs)
  obtain i v where "kv = (i, v)" by (cases kv)
  with snoc show ?case
    by (auto simp: prefer_non_null_append last_non_null_snoc split: option.splits)
qed

lemma prefer_non_null_keys:
  "distinct (map fst acc) \<Longrightarrow> distinct (map fst (prefer_non_null acc kvs)) \<and>
     set (map fst (prefer_non_null acc kvs)) = set (map fst acc) \<union> set (map fst kvs)"
proof (induction acc kvs rule: prefer_non_null.induct)
  case (2 result k v kvs)
  show ?case
  proof (cases "v = JNull \<and> (case map_of result k of None \<Rightarrow> False | Some old \<Rightarrow> old \<noteq> JNull)")
    case True
    then have "map_of result k \<noteq> None" by (cases "map_of result k") auto
    then have "k \<in> set (map fst result)" by (simp add: map_of_eq_None_iff)
    with 2(1) [OF True 2(3)] True show ?thesis by auto
  next
    case False
    then have step: "prefer_non_null result ((k, v) # kvs) = prefer_non_null (AList.update k v result) kvs"
      by (simp only: prefer_non_null.simps if_False)
    have "distinct (map fst (AList.update k v result))" using 2(3) by (rule distinct_update)
    from 2(2) [OF False this] show ?thesis unfolding step keys_update by simp
  qed
qed simp

section \<open>Descriptions\<close>

text \<open>\<open>isinstance(v, int)\<close>, which a bool satisfies too.\<close>

fun int_value :: "json \<Rightarrow> int option" where
  "int_value (JInt i) = Some i"
| "int_value (JBool b) = Some (if b then 1 else 0)"
| "int_value _ = None"

text \<open>\<open>isinstance(v, str) and v.strip()\<close>.\<close>

fun stripped :: "json \<Rightarrow> string option" where
  "stripped (JStr s) = (if strip s = [] then None else Some (strip s))"
| "stripped _ = None"

definition fallback_description :: "(json \<Rightarrow> string) \<Rightarrow> (string \<times> json) list \<Rightarrow> string" where
  "fallback_description str node =
     (let node_type = (if truthy (jget node ''type'') then str (jget node ''type'') else ''node'');
          suffix = (if int_value (jget node ''id'') \<noteq> None then '' '' @ str (jget node ''id'') else [])
      in if node_type = ''decision'' then
           (case stripped (jget node ''condition'') of
              Some c \<Rightarrow> ''Decide whether: '' @ c
            | None \<Rightarrow> strip ''Choose the correct yes/no branch'')
         else if node_type = ''tool'' then
           (case stripped (jget node ''tool'') of
              Some t \<Rightarrow> ''Run the '' @ t @ '' tool''
            | None \<Rightarrow> strip (''Execute node'' @ suffix))
         else strip
           ((if node_type = ''subplan'' then ''Execute subplan''
             else if node_type = ''summary'' then ''Summarize upstream context''
             else if node_type = ''synthesis'' then ''Synthesize upstream context''
             else if node_type = ''think'' then ''Reason through node''
             else if node_type = ''result'' then ''Produce the final answer''
             else ''Execute node'') @ suffix))"

text \<open>Nested objects are smaller: what the recursion through \<open>subplan\<close> and \<open>nodes\<close> needs.\<close>

lemma size_jget: "jget kvs k = v \<Longrightarrow> v \<noteq> JNull \<Longrightarrow> size v < size (JObj kvs)"
proof -
  assume "jget kvs k = v" "v \<noteq> JNull"
  then have "(k, v) \<in> set kvs" by (auto simp: jget_def dest: map_of_SomeD split: option.splits)
  then have "size_prod (\<lambda>_. 0) size (k, v) < Suc (size_list (size_prod (\<lambda>_. 0) size) kvs)"
    using size_list_estimation' [of "(k, v)" kvs _ "size_prod (\<lambda>_. 0) size"] by (metis le_imp_less_Suc le_refl)
  then show "size v < size (JObj kvs)" by simp
qed

lemma size_member: "x \<in> set xs \<Longrightarrow> size x < size (JList xs)"
  using size_list_estimation' [of x xs "size x" size] by simp

declare json.case_cong [fundef_cong]

text \<open>\<open>_repair_plan_descriptions\<close> and \<open>_repair_node_descriptions\<close>.\<close>

definition describe :: "(json \<Rightarrow> string) \<Rightarrow> (string \<times> json) list \<Rightarrow> (string \<times> json) list" where
  "describe str node =
     (if stripped (jget node ''description'') = None
      then AList.update ''description'' (JStr (fallback_description str node)) node else node)"

lemma nested_smaller:
  assumes "jget payload ''nodes'' = JList ns" and "JObj node \<in> set ns" and "jget node ''subplan'' = JObj sub"
  shows "size (JObj sub) < size (JObj payload)"
  using size_jget [OF assms(1)] size_jget [OF assms(3)] size_member [OF assms(2)] by simp

function repair_descriptions :: "(json \<Rightarrow> string) \<Rightarrow> (string \<times> json) list \<Rightarrow> (string \<times> json) list" where
  "repair_descriptions str payload =
     (case jget payload ''nodes'' of
        JList ns \<Rightarrow> AList.update ''nodes'' (JList (map (\<lambda>raw.
          case raw of
            JObj node \<Rightarrow>
              (case jget node ''subplan'' of
                 JObj sub \<Rightarrow> JObj (AList.update ''subplan'' (JObj (repair_descriptions str sub)) (describe str node))
               | _ \<Rightarrow> JObj (describe str node))
          | _ \<Rightarrow> raw) ns)) payload
      | _ \<Rightarrow> payload)"
  by pat_completeness auto

termination
  by (relation "measure (\<lambda>(str, payload). size (JObj payload))") (simp, use nested_smaller in force)

declare repair_descriptions.simps [simp del]

section \<open>The final result node\<close>

text \<open>\<open>for x in v or []\<close>; the left is the \<open>TypeError\<close> of a truthy value that cannot be iterated.\<close>

fun iterate :: "json \<Rightarrow> string + json list" where
  "iterate (JList xs) = Inr xs"
| "iterate (JStr s) = Inr (map (\<lambda>c. JStr [c]) s)"
| "iterate (JObj kvs) = Inr (map (\<lambda>(k, v). JStr k) kvs)"
| "iterate v =
     (if truthy v then Inl (apostrophe @ type_name v @ apostrophe @ '' object is not iterable'') else Inr [])"

definition ints_of :: "json list \<Rightarrow> int list" where
  "ints_of vs = concat (map (\<lambda>v. case int_value v of None \<Rightarrow> [] | Some i \<Rightarrow> [i]) vs)"

definition branch_ints :: "json \<Rightarrow> int list" where
  "branch_ints v =
     (case v of
        JObj bs \<Rightarrow> concat (map (\<lambda>(k, ys). case ys of JList xs \<Rightarrow> ints_of xs | _ \<Rightarrow> []) bs)
      | _ \<Rightarrow> [])"

definition referenced_ids :: "(string \<times> json) list list \<Rightarrow> string + int list" where
  "referenced_ids nodes =
     and_then (map_all (\<lambda>node. and_then (iterate (jget node ''context_needed'')) (\<lambda>ds.
                 Inr (ints_of ds @ branch_ints (jget node ''branches'')))) nodes)
       (\<lambda>iss. Inr (concat iss))"

definition is_sink :: "int list \<Rightarrow> (string \<times> json) list \<Rightarrow> bool" where
  "is_sink referenced node \<longleftrightarrow>
     jget node ''type'' = JStr ''synthesis'' \<and>
     (case int_value (jget node ''id'') of None \<Rightarrow> False | Some i \<Rightarrow> i \<notin> set referenced)"

definition single_terminal_synthesis :: "(string \<times> json) list list \<Rightarrow> string + json option" where
  "single_terminal_synthesis nodes =
     and_then (referenced_ids nodes) (\<lambda>referenced.
       case filter (is_sink referenced) nodes of
         [node] \<Rightarrow> Inr (Some (jget node ''id''))
       | _ \<Rightarrow> Inr None)"

definition objects :: "json list \<Rightarrow> (string \<times> json) list list" where
  "objects vs = concat (map (\<lambda>v. case v of JObj kvs \<Rightarrow> [kvs] | _ \<Rightarrow> []) vs)"

definition is_result_node :: "(string \<times> json) list \<Rightarrow> bool" where
  "is_result_node node \<longleftrightarrow> jget node ''type'' = JStr ''result''"

definition next_id :: "(string \<times> json) list list \<Rightarrow> int" where
  "next_id nodes =
     (let ids = ints_of (map (\<lambda>node. jget node ''id'') nodes)
      in if ids = [] then 1 else Max (set ids) + 1)"

definition result_node :: "int \<Rightarrow> json \<Rightarrow> json" where
  "result_node i sink =
     JObj [(''id'', JInt i), (''type'', JStr ''result''),
           (''description'', JStr ''Return the synthesized answer as the final user-facing response''),
           (''context_needed'', JList [sink])]"

text \<open>What is appended to the nodes of one level.\<close>

definition missing_result :: "json list \<Rightarrow> string + json list" where
  "missing_result ns =
     (if list_ex is_result_node (objects ns) then Inr []
      else and_then (single_terminal_synthesis (objects ns)) (\<lambda>sink.
        Inr (case sink of None \<Rightarrow> [] | Some i \<Rightarrow> [result_node (next_id (objects ns)) i])))"

function ensure_terminal_result :: "(string \<times> json) list \<Rightarrow> string + (string \<times> json) list" where
  "ensure_terminal_result payload =
     (case jget payload ''nodes'' of
        JList ns \<Rightarrow>
          and_then (map_all (\<lambda>raw.
            case raw of
              JObj node \<Rightarrow>
                (case jget node ''subplan'' of
                   JObj sub \<Rightarrow> and_then (ensure_terminal_result sub)
                     (\<lambda>sub'. Inr (JObj (AList.update ''subplan'' (JObj sub') node)))
                 | _ \<Rightarrow> Inr raw)
            | _ \<Rightarrow> Inr raw) ns)
          (\<lambda>ns'. and_then (missing_result ns') (\<lambda>extra.
             Inr (AList.update ''nodes'' (JList (ns' @ extra)) payload)))
      | _ \<Rightarrow> Inr payload)"
  by pat_completeness auto
termination
  by (relation "measure (\<lambda>payload. size (JObj payload))") (simp, use nested_smaller in force)

declare ensure_terminal_result.simps [simp del]

definition repair_plan_payload :: "(json \<Rightarrow> string) \<Rightarrow> (string \<times> json) list \<Rightarrow> string + (string \<times> json) list" where
  "repair_plan_payload str payload = ensure_terminal_result (repair_descriptions str payload)"

section \<open>What the repair achieves\<close>

text \<open>Every node object, at every depth, has a description that is not blank.\<close>

function described :: "(string \<times> json) list \<Rightarrow> bool" where
  "described payload \<longleftrightarrow>
     (case jget payload ''nodes'' of
        JList ns \<Rightarrow> list_all (\<lambda>raw.
          case raw of
            JObj node \<Rightarrow> stripped (jget node ''description'') \<noteq> None \<and>
              (case jget node ''subplan'' of JObj sub \<Rightarrow> described sub | _ \<Rightarrow> True)
          | _ \<Rightarrow> True) ns
      | _ \<Rightarrow> True)"
  by pat_completeness auto
termination
  by (relation "measure (\<lambda>payload. size (JObj payload))") (simp, use nested_smaller in force)

declare described.simps [simp del]

text \<open>The test of one node.\<close>

definition good_node :: "json \<Rightarrow> bool" where
  "good_node raw \<longleftrightarrow> (case raw of
     JObj node \<Rightarrow> stripped (jget node ''description'') \<noteq> None \<and>
       (case jget node ''subplan'' of JObj sub \<Rightarrow> described sub | _ \<Rightarrow> True)
   | _ \<Rightarrow> True)"

lemma described_iff:
  "described payload \<longleftrightarrow> (case jget payload ''nodes'' of JList ns \<Rightarrow> list_all good_node ns | _ \<Rightarrow> True)"
  unfolding described.simps [of payload] good_node_def [abs_def] ..

lemma good_node_JObj:
  "good_node (JObj node) \<longleftrightarrow> stripped (jget node ''description'') \<noteq> None \<and>
     (\<forall>sub. jget node ''subplan'' = JObj sub \<longrightarrow> described sub)"
  by (cases "jget node ''subplan''") (simp_all add: good_node_def)

lemma jget_update: "jget (AList.update k v kvs) i = (if i = k then v else jget kvs i)"
  by (simp add: jget_def)

lemma update_jget: "jget kvs k = v \<Longrightarrow> v \<noteq> JNull \<Longrightarrow> AList.update k v kvs = kvs"
  by (auto simp: jget_def update_triv split: option.splits)

text \<open>A text with a character that is no space is not blank, stripped or not.\<close>

definition inked :: "string \<Rightarrow> bool" where
  "inked s \<longleftrightarrow> list_ex (\<lambda>c. \<not> py_space c) s"

lemma inked_dropWhile: "inked s \<Longrightarrow> inked (dropWhile py_space s)"
  by (induction s) (auto simp: inked_def)

lemma inked_strip: "inked s \<Longrightarrow> inked (strip s)"
  using inked_dropWhile [of "rev (dropWhile py_space s)"] inked_dropWhile [of s]
  by (simp add: strip_def lstrip_def rstrip_def inked_def)

lemma inked_stripped: "inked s \<Longrightarrow> stripped (JStr s) \<noteq> None"
  using inked_strip [of s] by (auto simp: inked_def)

lemma inked_letter: "\<not> py_space c \<Longrightarrow> inked (c # s)"
  by (simp add: inked_def)

lemma fallback_not_blank: "stripped (JStr (fallback_description str node)) \<noteq> None"
proof (rule inked_stripped)
  note ink = inked_strip inked_letter
  show "inked (fallback_description str node)"
    unfolding fallback_description_def Let_def
    by (simp del: list.inject split: option.split add: ink py_space_def)
qed

lemma describe_stripped [simp]: "stripped (jget (describe str node) ''description'') \<noteq> None"
  using fallback_not_blank by (simp add: describe_def jget_update)

lemma describe_subplan [simp]: "jget (describe str node) ''subplan'' = jget node ''subplan''"
  by (simp add: describe_def jget_update)

lemma repaired_described: "described (repair_descriptions str payload)"
proof (induction str payload rule: repair_descriptions.induct)
  case (1 str payload)
  show ?case
  proof (cases "jget payload ''nodes''")
    case (JList ns)
    have IH: "described (repair_descriptions str sub)"
      if "JObj node \<in> set ns" "jget node ''subplan'' = JObj sub" for node sub
      using 1 [OF JList that(1) refl that(2)] .
    have "good_node (case raw of
            JObj node \<Rightarrow>
              (case jget node ''subplan'' of
                 JObj sub \<Rightarrow> JObj (AList.update ''subplan'' (JObj (repair_descriptions str sub)) (describe str node))
               | _ \<Rightarrow> JObj (describe str node))
          | _ \<Rightarrow> raw)" if "raw \<in> set ns" for raw
    proof (cases raw)
      case (JObj node)
      with that IH [of node] show ?thesis
        by (cases "jget node ''subplan''") (simp_all add: good_node_JObj jget_update del: not_None_eq)
    qed (simp_all add: good_node_def)
    then show ?thesis
      by (simp add: repair_descriptions.simps [of str payload] JList described_iff jget_update list_all_iff)
  qed (simp_all add: repair_descriptions.simps [of str payload] described_iff)
qed

lemma described_fixed: "described payload \<Longrightarrow> repair_descriptions str payload = payload"
proof (induction str payload rule: repair_descriptions.induct)
  case (1 str payload)
  show ?case
  proof (cases "jget payload ''nodes''")
    case (JList ns)
    have node: "raw = JObj node \<Longrightarrow> raw \<in> set ns \<Longrightarrow> describe str node = node \<and>
        (\<forall>sub. jget node ''subplan'' = JObj sub \<longrightarrow> repair_descriptions str sub = sub)" for raw node
      using 1(1) [OF JList] 1(2)
      by (auto simp: described_iff [of payload] JList list_all_iff describe_def good_node_JObj)
    have "map (\<lambda>raw. case raw of
            JObj node \<Rightarrow>
              (case jget node ''subplan'' of
                 JObj sub \<Rightarrow> JObj (AList.update ''subplan'' (JObj (repair_descriptions str sub)) (describe str node))
               | _ \<Rightarrow> JObj (describe str node))
          | _ \<Rightarrow> raw) ns = ns"
      by (rule map_idI) (auto simp: node update_jget split: json.splits)
    then show ?thesis by (simp add: repair_descriptions.simps [of str payload] JList update_jget)
  qed (simp_all add: repair_descriptions.simps [of str payload])
qed

text \<open>Appending result nodes keeps the descriptions, and is done once.\<close>

lemma result_node_described:
  "raw = result_node i v \<Longrightarrow> (\<exists>node. raw = JObj node \<and> stripped (jget node ''description'') \<noteq> None \<and>
     jget node ''subplan'' = JNull \<and> is_result_node node)"
  using inked_stripped [OF inked_letter, of "CHR ''R''" "''eturn the synthesized answer as the final user-facing response''"]
  by (simp add: result_node_def jget_def is_result_node_def py_space_def)

lemma missing_result_nodes:
  "missing_result ns = Inr extra \<Longrightarrow>
     extra = [] \<or> (\<exists>v. extra = [result_node (next_id (objects ns)) v] \<and> \<not> list_ex is_result_node (objects ns))"
  by (auto simp: missing_result_def split: if_splits option.splits)

lemma objects_append: "objects (xs @ ys) = objects xs @ objects ys"
  by (simp add: objects_def)

lemma missing_result_once: "missing_result ns = Inr extra \<Longrightarrow> missing_result (ns @ extra) = Inr []"
proof (cases "extra = []")
  case False
  assume "missing_result ns = Inr extra"
  with False missing_result_nodes obtain v where "extra = [result_node (next_id (objects ns)) v]" by blast
  then have "list_ex is_result_node (objects (ns @ extra))"
    using result_node_described [OF refl, of "next_id (objects ns)" v] by (auto simp: objects_append) (auto simp: objects_def)
  then show ?thesis by (simp add: missing_result_def)
qed simp

text \<open>One step of the loop over the nodes.\<close>

definition ensured :: "json \<Rightarrow> json \<Rightarrow> bool" where
  "ensured raw raw' \<longleftrightarrow>
     (\<exists>node sub sub'. raw = JObj node \<and> jget node ''subplan'' = JObj sub \<and> ensure_terminal_result sub = Inr sub' \<and>
        raw' = JObj (AList.update ''subplan'' (JObj sub') node)) \<or>
     ((\<forall>node sub. raw = JObj node \<longrightarrow> jget node ''subplan'' \<noteq> JObj sub) \<and> raw' = raw)"

lemma ensure_nodes:
  assumes "jget payload ''nodes'' = JList ns" and "ensure_terminal_result payload = Inr q"
  obtains ns' extra where "list_all2 ensured ns ns'" and "missing_result ns' = Inr extra"
    and "q = AList.update ''nodes'' (JList (ns' @ extra)) payload"
proof -
  from assms obtain ns' extra where a: "map_all (\<lambda>raw.
            case raw of
              JObj node \<Rightarrow>
                (case jget node ''subplan'' of
                   JObj sub \<Rightarrow> and_then (ensure_terminal_result sub)
                     (\<lambda>sub'. Inr (JObj (AList.update ''subplan'' (JObj sub') node)))
                 | _ \<Rightarrow> Inr raw)
            | _ \<Rightarrow> Inr raw) ns = Inr ns'" and b: "missing_result ns' = Inr extra"
    "q = AList.update ''nodes'' (JList (ns' @ extra)) payload"
    by (subst (asm) ensure_terminal_result.simps) auto
  have "list_all2 ensured ns ns'"
    using a unfolding map_all_Inr_iff by (rule list_all2_mono) (auto simp: ensured_def split: json.splits)
  with b show ?thesis using that by blast
qed

lemma ensure_no_nodes:
  "(\<And>ns. jget payload ''nodes'' \<noteq> JList ns) \<Longrightarrow> ensure_terminal_result payload = Inr payload"
  by (subst ensure_terminal_result.simps) (auto split: json.splits)

lemma list_all2_all: "list_all2 P xs ys \<Longrightarrow> (\<And>x y. x \<in> set xs \<Longrightarrow> P x y \<Longrightarrow> Q y) \<Longrightarrow> \<forall>y \<in> set ys. Q y"
  by (induction rule: list_all2_induct) auto

lemma ensure_described:
  "ensure_terminal_result payload = Inr q \<Longrightarrow> described payload \<Longrightarrow> described q"
proof (induction payload arbitrary: q rule: ensure_terminal_result.induct)
  case (1 payload)
  show ?case
  proof (cases "jget payload ''nodes''")
    case (JList ns)
    obtain ns' extra where e: "list_all2 ensured ns ns'" "missing_result ns' = Inr extra"
      "q = AList.update ''nodes'' (JList (ns' @ extra)) payload"
      using ensure_nodes [OF JList 1(2)] .
    have good_ns: "raw \<in> set ns \<Longrightarrow> good_node raw" for raw
      using 1(3) by (simp add: described_iff JList list_all_iff)
    have good: "good_node raw'" if "raw \<in> set ns" "ensured raw raw'" for raw raw'
      using that(2) good_ns [OF that(1)] 1(1) [OF JList] that(1)
      by (auto simp: ensured_def good_node_JObj jget_update)
    have "\<forall>raw' \<in> set ns'. good_node raw'" using good by (rule list_all2_all [OF e(1)])
    moreover have "good_node (result_node i v)" for i v
      using result_node_described [OF refl, of i v] by (auto simp: good_node_JObj)
    then have "\<forall>raw' \<in> set extra. good_node raw'"
      using missing_result_nodes [OF e(2)] by auto
    ultimately show ?thesis
      by (simp add: e(3) described_iff jget_update list_all_iff ball_Un)
  qed (use 1(2,3) ensure_no_nodes [of payload] in \<open>simp_all\<close>)
qed

lemma ensure_again:
  "ensure_terminal_result payload = Inr q \<Longrightarrow> ensure_terminal_result q = Inr q"
proof (induction payload arbitrary: q rule: ensure_terminal_result.induct)
  case (1 payload)
  show ?case
  proof (cases "jget payload ''nodes''")
    case (JList ns)
    obtain ns' extra where e: "list_all2 ensured ns ns'" "missing_result ns' = Inr extra"
      "q = AList.update ''nodes'' (JList (ns' @ extra)) payload"
      using ensure_nodes [OF JList 1(2)] .
    let ?f = "\<lambda>raw. case raw of
              JObj node \<Rightarrow>
                (case jget node ''subplan'' of
                   JObj sub \<Rightarrow> and_then (ensure_terminal_result sub)
                     (\<lambda>sub'. Inr (JObj (AList.update ''subplan'' (JObj sub') node)))
                 | _ \<Rightarrow> Inr raw)
            | _ \<Rightarrow> Inr raw"
    have same: "?f raw' = Inr raw'" if "raw \<in> set ns" "ensured raw raw'" for raw raw'
      using that(2) unfolding ensured_def
    proof (elim disjE exE conjE)
      fix node sub sub'
      assume n: "raw = JObj node" "jget node ''subplan'' = JObj sub" "ensure_terminal_result sub = Inr sub'"
        "raw' = JObj (AList.update ''subplan'' (JObj sub') node)"
      have "ensure_terminal_result sub' = Inr sub'"
        using 1(1) [OF JList _ refl n(2,3)] that(1) n(1) by simp
      then show ?thesis by (simp add: n(4) jget_update)
    next
      assume "\<forall>node sub. raw = JObj node \<longrightarrow> jget node ''subplan'' \<noteq> JObj sub" "raw' = raw"
      then show ?thesis by (auto split: json.splits)
    qed
    have "\<forall>raw' \<in> set ns'. ?f raw' = Inr raw'" using same by (rule list_all2_all [OF e(1)])
    moreover have "?f (result_node i v) = Inr (result_node i v)" for i v
      using result_node_described [OF refl, of i v] by auto
    then have "\<forall>raw' \<in> set extra. ?f raw' = Inr raw'"
      using missing_result_nodes [OF e(2)] by auto
    ultimately have "map_all ?f (ns' @ extra) = Inr (ns' @ extra)"
      by (simp add: map_all_Inr_iff list_all2_same ball_Un)
    moreover have "jget q ''nodes'' = JList (ns' @ extra)" by (simp add: e(3) jget_update)
    ultimately show ?thesis
      using missing_result_once [OF e(2)] by (subst ensure_terminal_result.simps) (simp add: update_jget)
  qed (use 1(2) ensure_no_nodes [of payload] in \<open>simp_all\<close>)
qed

text \<open>The appended node has an id of its own and reads the one synthesis nobody else reads.\<close>

lemma next_id_fresh: "m \<in> set nodes \<Longrightarrow> int_value (jget m ''id'') \<noteq> Some (next_id nodes)"
proof
  assume m: "m \<in> set nodes" "int_value (jget m ''id'') = Some (next_id nodes)"
  let ?ids = "ints_of (map (\<lambda>node. jget node ''id'') nodes)"
  have "next_id nodes \<in> set ?ids" using m by (force simp: ints_of_def)
  moreover from this have "?ids \<noteq> []" by auto
  then have "i < next_id nodes" if "i \<in> set ?ids" for i
    using that by (simp add: next_id_def Let_def less_Suc_eq_le zle_add1_eq_le)
  ultimately show False by blast
qed

lemma single_sink:
  assumes "single_terminal_synthesis nodes = Inr (Some v)"
  shows "\<exists>node \<in> set nodes. jget node ''type'' = JStr ''synthesis'' \<and> v = jget node ''id''"
proof -
  obtain referenced where r: "(case filter (is_sink referenced) nodes of
      [node] \<Rightarrow> Inr (Some (jget node ''id'')) | _ \<Rightarrow> Inr None) = (Inr (Some v) :: string + json option)"
    using assms unfolding single_terminal_synthesis_def and_then_Inr_iff by blast
  then obtain node where n: "filter (is_sink referenced) nodes = [node]" and v: "v = jget node ''id''"
    by (cases "filter (is_sink referenced) nodes"; cases "List.tl (filter (is_sink referenced) nodes)") auto
  from n have "node \<in> set (filter (is_sink referenced) nodes)" by simp
  with v show ?thesis by (auto simp: is_sink_def)
qed

lemma appended_result:
  assumes "missing_result ns = Inr extra" and "extra \<noteq> []"
  shows "\<exists>node \<in> set (objects ns). jget node ''type'' = JStr ''synthesis'' \<and>
    extra = [result_node (next_id (objects ns)) (jget node ''id'')]"
proof -
  obtain sink where s: "single_terminal_synthesis (objects ns) = Inr sink"
    "extra = (case sink of None \<Rightarrow> [] | Some i \<Rightarrow> [result_node (next_id (objects ns)) i])"
    using assms by (auto simp: missing_result_def split: if_splits)
  then obtain v where "sink = Some v" using assms(2) by (cases sink) auto
  with s single_sink [of "objects ns" v] show ?thesis by auto
qed

section \<open>Properties\<close>

text \<open>
  The object a JSON text with repeated keys decodes to has every key once, and the value of a
  key is its last value that is not null; only a key all of whose values are null is null.
\<close>

lemma duplicate_keys_resolved:
  "\<exists>kvs'. decode_object (JObj kvs) = JObj kvs' \<and> distinct (map fst kvs') \<and>
     map_of kvs' = last_non_null (map (\<lambda>(k, v). (k, decode_object v)) kvs)"
  using prefer_non_null_keys [of "[]" "map (\<lambda>(k, v). (k, decode_object v)) kvs"]
  by (auto simp: prefer_non_null_lookup)

text \<open>
  C22: when the repair of a payload succeeds, every node of the result, at every nesting depth, has a
  description that is not blank, and repairing it again changes nothing: no second result node is
  appended and no description replaced.
\<close>

theorem repair_idempotent:
  assumes "repair_plan_payload str payload = Inr q"
  shows "described q \<and> repair_plan_payload str q = Inr q"
proof -
  have e: "ensure_terminal_result (repair_descriptions str payload) = Inr q"
    using assms by (simp add: repair_plan_payload_def)
  have d: "described q" by (rule ensure_described [OF e repaired_described])
  then have "repair_descriptions str q = q" by (rule described_fixed)
  with d ensure_again [OF e] show ?thesis by (simp add: repair_plan_payload_def)
qed

definition sample_payload :: "(string \<times> json) list" where
  "sample_payload =
     [(''nodes'', JList [JObj [(''id'', JInt 1), (''type'', JStr ''tool''), (''tool'', JStr ''web'')],
                       JObj [(''id'', JInt 4), (''type'', JStr ''synthesis''), (''description'', JStr '' ''),
                             (''context_needed'', JList [JInt 1])]])]"

definition sample_repaired :: "(string \<times> json) list" where
  "sample_repaired =
     [(''nodes'', JList [JObj [(''id'', JInt 1), (''type'', JStr ''tool''), (''tool'', JStr ''web''),
                             (''description'', JStr ''Run the web tool'')],
                       JObj [(''id'', JInt 4), (''type'', JStr ''synthesis''),
                             (''description'', JStr ''Synthesize upstream context 4''),
                             (''context_needed'', JList [JInt 1])],
                       result_node 5 (JInt 4)])]"

definition sample_str :: "json \<Rightarrow> string" where
  "sample_str v = (case v of JStr s \<Rightarrow> s | JInt i \<Rightarrow> str_int i | _ \<Rightarrow> [])"

lemma sample_repair: "repair_plan_payload sample_str sample_payload = Inr sample_repaired"
  by code_simp

theorem repair_idempotent_witness:
  "described sample_repaired \<and> repair_plan_payload sample_str sample_repaired = Inr sample_repaired"
  using repair_idempotent [OF sample_repair] .

text \<open>A payload the repair cannot read: a \<open>context_needed\<close> that is a number.\<close>

lemma scalar_context_raises:
  "repair_plan_payload str
     [(''nodes'', JList [JObj [(''id'', JInt 1), (''type'', JStr ''think''), (''description'', JStr ''t''),
                             (''context_needed'', JInt 3)]])]
   = Inl (apostrophe @ ''int'' @ apostrophe @ '' object is not iterable'')"
  by (simp add: repair_plan_payload_def repair_descriptions.simps ensure_terminal_result.simps jget_def describe_def
      missing_result_def objects_def is_result_node_def single_terminal_synthesis_def referenced_ids_def py_defs)

end
