(* ===== verification/TextSearch.thy ===== *)
theory TextSearch
  imports Prelude "HOL-Library.List_Lexorder" "HOL-Library.Char_ord"
begin

text \<open>
  The string primitives of the planner and the orchestrator: the fragment of \<open>re\<close> their patterns
  use, as a matcher that returns every way a pattern can match at a position, and the comparison of
  strings by code points (the lexicographic order of the library) that \<open>sorted\<close> uses.
\<close>

section \<open>Regular expressions\<close>

text \<open>
  A pattern is a sequence of items: \<open>\b\<close>, a group of literal alternatives, or a character class
  repeated between two bounds.  \<open>re.search\<close> only asks whether a match exists, so that greedy and
  lazy repetitions are the same.
\<close>

datatype rx_item = Boundary | Literals "string list" | Class nat "nat option" "char \<Rightarrow> bool"

text \<open>\<open>\w\<close> on code points below 256: what \<open>str.isalnum\<close> accepts, and the underscore.\<close>

definition word_char :: "char \<Rightarrow> bool" where
  "word_char c \<longleftrightarrow>
     (let n = of_char c :: nat
      in (48 \<le> n \<and> n \<le> 57) \<or> (65 \<le> n \<and> n \<le> 90) \<or> n = 95 \<or> (97 \<le> n \<and> n \<le> 122) \<or>
         n \<in> {170, 178, 179, 181, 185, 186, 188, 189, 190} \<or> (192 \<le> n \<and> n \<noteq> 215 \<and> n \<noteq> 247))"

text \<open>A position: the text before it, reversed, and the text after it.\<close>

type_synonym text_pos = "string \<times> string"

fun at_word :: "string \<Rightarrow> bool" where
  "at_word [] = False"
| "at_word (c # cs) = word_char c"

definition forward :: "nat \<Rightarrow> text_pos \<Rightarrow> text_pos" where
  "forward k p = (rev (take k (snd p)) @ fst p, drop k (snd p))"

text \<open>\<open>fld\<close> (case folding) is \<open>lower\<close> under \<open>re.IGNORECASE\<close> (the patterns are lower case) and the identity without.\<close>

fun rx_item_match :: "(string \<Rightarrow> string) \<Rightarrow> rx_item \<Rightarrow> text_pos \<Rightarrow> text_pos list" where
  "rx_item_match fld Boundary p = (if at_word (fst p) \<noteq> at_word (snd p) then [p] else [])"
| "rx_item_match fld (Literals ws) p =
     map (\<lambda>w. forward (length w) p) (filter (\<lambda>w. starts_with w (fld (snd p))) ws)"
| "rx_item_match fld (Class lo hi P) p =
     (let n = length (takeWhile P (snd p));
          top = (case hi of None \<Rightarrow> n | Some h \<Rightarrow> min h n)
      in map (\<lambda>k. forward k p) [lo ..< Suc top])"

fun rx_match :: "(string \<Rightarrow> string) \<Rightarrow> rx_item list \<Rightarrow> text_pos \<Rightarrow> text_pos list" where
  "rx_match fld [] p = [p]"
| "rx_match fld (r # rs) p = concat (map (rx_match fld rs) (rx_item_match fld r p))"

text \<open>\<open>re.search\<close> as a test, and the positions of the matches of \<open>re.finditer\<close>, each with the rest
  of the text.\<close>

fun rx_find :: "(string \<Rightarrow> string) \<Rightarrow> rx_item list \<Rightarrow> string \<Rightarrow> string \<Rightarrow> string list" where
  "rx_find fld rs u [] = (if rx_match fld rs (u, []) \<noteq> [] then [[]] else [])"
| "rx_find fld rs u (c # cs) =
     (if rx_match fld rs (u, c # cs) \<noteq> [] then [c # cs] else []) @ rx_find fld rs (c # u) cs"

definition rx_search :: "(string \<Rightarrow> string) \<Rightarrow> rx_item list \<Rightarrow> string \<Rightarrow> bool" where
  "rx_search fld rs s \<longleftrightarrow> rx_find fld rs [] s \<noteq> []"

text \<open>A match only moves the position forward through the text.\<close>

lemma forward_text: "rev (fst (forward k p)) @ snd (forward k p) = rev (fst p) @ snd p"
  by (simp add: forward_def)

lemma rx_item_match_text:
  "q \<in> set (rx_item_match fld r p) \<Longrightarrow> rev (fst q) @ snd q = rev (fst p) @ snd p"
  by (cases r) (auto simp: forward_text Let_def split: if_splits option.splits)

lemma rx_match_text: "q \<in> set (rx_match fld rs p) \<Longrightarrow> rev (fst q) @ snd q = rev (fst p) @ snd p"
proof (induction fld rs p rule: rx_match.induct)
  case (2 fld r rs p)
  then obtain x where x: "x \<in> set (rx_item_match fld r p)" "q \<in> set (rx_match fld rs x)" by auto
  with 2(1) rx_item_match_text [OF x(1)] show ?case by simp
qed simp

text \<open>The matches of a pattern are suffixes of the text at which it matches.\<close>

lemma rx_find_iff:
  "v \<in> set (rx_find fld rs u s) \<longleftrightarrow> (\<exists>m. s = m @ v \<and> rx_match fld rs (rev m @ u, v) \<noteq> [])"
proof (induction s arbitrary: u)
  case Nil
  then show ?case by auto
next
  case (Cons c cs)
  have "(\<exists>m. c # cs = m @ v \<and> rx_match fld rs (rev m @ u, v) \<noteq> []) \<longleftrightarrow>
      (v = c # cs \<and> rx_match fld rs (u, v) \<noteq> []) \<or>
      (\<exists>m. cs = m @ v \<and> rx_match fld rs (rev m @ c # u, v) \<noteq> [])"
    by (auto simp: Cons_eq_append_conv)
  then show ?case using Cons.IH [of "c # u"] by auto
qed

section \<open>Words and lists\<close>

text \<open>\<open>s.split(c)\<close> for a single character.\<close>

fun split_at :: "char \<Rightarrow> string \<Rightarrow> string \<Rightarrow> string list" where
  "split_at d acc [] = [rev acc]"
| "split_at d acc (c # cs) = (if c = d then rev acc # split_at d [] cs else split_at d (c # acc) cs)"

definition split_char :: "char \<Rightarrow> string \<Rightarrow> string list" where
  "split_char d s = split_at d [] s"

lemma split_at_join: "join [d] (split_at d acc s) = rev acc @ s"
proof (induction d acc s rule: split_at.induct)
  case (2 d acc c cs)
  have "split_at d a s \<noteq> []" for a s by (induction d a s rule: split_at.induct) auto
  then obtain y ys where "split_at d [] cs = y # ys" by (cases "split_at d [] cs") auto
  with 2 show ?case by auto
qed simp

text \<open>\<open>any(marker in text for marker in markers)\<close>.\<close>

definition mentions :: "string list \<Rightarrow> string \<Rightarrow> bool" where
  "mentions markers s \<longleftrightarrow> list_ex (\<lambda>m. contains m s) markers"

text \<open>\<open>sorted(xs, key=f, reverse=True)\<close>, which keeps the order of equal keys.\<close>

definition sort_desc :: "('a \<Rightarrow> 'k :: linorder) \<Rightarrow> 'a list \<Rightarrow> 'a list" where
  "sort_desc f xs = rev (sort_key f (rev xs))"

lemma sort_desc_set [simp]: "set (sort_desc f xs) = set xs"
  by (simp add: sort_desc_def)

lemma sort_desc_length [simp]: "length (sort_desc f xs) = length xs"
  by (simp add: sort_desc_def)

lemma sort_desc_sorted: "sorted_wrt (\<lambda>x y. f y \<le> f x) (sort_desc f xs)"
proof -
  have "sorted_wrt (\<lambda>x y. f x \<le> f y) (sort_key f (rev xs))"
    using sorted_sort_key [of f "rev xs"] by (simp only: sorted_map)
  then show ?thesis by (simp only: sort_desc_def sorted_wrt_rev)
qed

text \<open>What a cut of the ranking leaves out ranks no higher than what it keeps.\<close>

lemma sort_desc_take:
  assumes "x \<in> set (take k (sort_desc f xs))" and "y \<in> set (drop k (sort_desc f xs))"
  shows "f y \<le> f x"
proof -
  have "sorted_wrt (\<lambda>x y. f y \<le> f x) (take k (sort_desc f xs) @ drop k (sort_desc f xs))"
    using sort_desc_sorted by simp
  with assms show ?thesis unfolding sorted_wrt_append by blast
qed

end
