(* ===== verification/PlannerPrompt.thy ===== *)
theory PlannerPrompt
  imports TextSearch ToolHarness "HOL-Library.Product_Lexorder" "HOL-Library.Multiset"
begin

text \<open>
  What the planner is told besides the request: the digest of the registered tools
  (\<open>planner/tool_digest.py\<close>), the cookbook of recipes (\<open>planner/cookbook.py\<close>), and the limits and
  tier blocks of \<open>planner/planner.py\<close>.  \<open>str\<close> of a JSON value and \<open>repr\<close> of a string are
  parameters; sets of names are lists, whose order does not matter to the code.
\<close>

section \<open>The tool digest\<close>

record tool_info =
  ti_name :: string
  ti_description :: string
  ti_required :: "string list"
  ti_risk :: string

record capability_group =
  cg_id :: string
  cg_title :: string
  cg_keywords :: "string list"

definition capability_groups :: "capability_group list" where
  "capability_groups =
     [\<lparr>cg_id = ''web_information'', cg_title = ''Web / current information'',
       cg_keywords = [''web'', ''search'', ''fetch'', ''url'', ''rss'', ''page'']\<rparr>,
      \<lparr>cg_id = ''filesystem'', cg_title = ''Filesystem / local files'',
       cg_keywords = [''file'', ''path'', ''read'', ''write'', ''glob'', ''tree'']\<rparr>,
      \<lparr>cg_id = ''calendar_time'', cg_title = ''Calendar / time'',
       cg_keywords = [''calendar'', ''event'', ''schedule'', ''date'', ''reminder'', ''time'']\<rparr>,
      \<lparr>cg_id = ''memory_knowledge'', cg_title = ''Memory / knowledge base'',
       cg_keywords = [''memory'', ''note'', ''obsidian'', ''knowledge'', ''bookmark'']\<rparr>,
      \<lparr>cg_id = ''communication'', cg_title = ''Communication'',
       cg_keywords = [''email'', ''message'', ''sms'', ''slack'', ''discord'', ''send'']\<rparr>,
      \<lparr>cg_id = ''coding_system'', cg_title = ''Coding / system operations'',
       cg_keywords = [''git'', ''shell'', ''test'', ''lint'', ''code'', ''diff'', ''command'']\<rparr>,
      \<lparr>cg_id = ''data_documents'', cg_title = ''Data / documents'',
       cg_keywords = [''csv'', ''json'', ''sql'', ''spreadsheet'', ''pdf'', ''document'']\<rparr>]"

definition prefix_groups :: "(string \<times> string) list" where
  "prefix_groups =
     [(''web_'', ''web_information''), (''file_'', ''filesystem''), (''calendar_'', ''calendar_time''),
      (''memory_'', ''memory_knowledge''), (''note_'', ''memory_knowledge''), (''email_'', ''communication''),
      (''sms_'', ''communication''), (''git_'', ''coding_system'')]"

definition unknown_tool :: string where
  "unknown_tool = ''<unknown>''"

text \<open>\<open>_tool_info\<close>; a schema is a dict.\<close>

definition required_names :: "(json \<Rightarrow> string) \<Rightarrow> json \<Rightarrow> string list" where
  "required_names str params =
     (case params of
        JObj ps \<Rightarrow> (case jget ps ''required'' of JList xs \<Rightarrow> map str xs | _ \<Rightarrow> [])
      | _ \<Rightarrow> [])"

definition tool_info :: "(json \<Rightarrow> string) \<Rightarrow> (string \<times> json) list \<Rightarrow> tool_info" where
  "tool_info str schema =
     (case jget schema ''function'' of
        JObj f \<Rightarrow>
          \<lparr>ti_name = str (jget_default f ''name'' (JStr unknown_tool)),
           ti_description = str (jget_default f ''description'' (JStr [])),
           ti_required = required_names str (jget f ''parameters''),
           ti_risk = str (jget_default schema ''x_risk'' (JStr ''read''))\<rparr>
      | _ \<Rightarrow> \<lparr>ti_name = unknown_tool, ti_description = [], ti_required = [], ti_risk = ''read''\<rparr>)"

definition group_by_id :: "string \<Rightarrow> string + capability_group" where
  "group_by_id i =
     (case find (\<lambda>g. cg_id g = i) capability_groups of
        Some g \<Rightarrow> Inr g
      | None \<Rightarrow> Inl (''Unknown capability group: '' @ i))"

text \<open>The first matching prefix decides, else the first group with a keyword in the text.\<close>

definition classify_tool :: "tool_info \<Rightarrow> string + capability_group option" where
  "classify_tool t =
     (case find (\<lambda>(p, i). starts_with p (ti_name t)) prefix_groups of
        Some (p, i) \<Rightarrow> and_then (group_by_id i) (\<lambda>g. Inr (Some g))
      | None \<Rightarrow>
          (let text = lower (ti_name t @ '' '' @ ti_description t)
           in Inr (find (\<lambda>g. mentions (cg_keywords g) text) capability_groups)))"

definition format_tool :: "(string \<Rightarrow> string) \<Rightarrow> tool_info \<Rightarrow> string" where
  "format_tool repr t =
     ti_name t @ ''['' @ ti_risk t @ '']'' @
     (if ti_required t = [] then [] else '' required=['' @ join '', '' (map repr (ti_required t)) @ '']'') @
     (if ti_description t = [] then [] else '' '' @ em_dash @ '' '' @ ti_description t)"

definition format_tools :: "(string \<Rightarrow> string) \<Rightarrow> tool_info list \<Rightarrow> string" where
  "format_tools repr ts = join ''; '' (map (format_tool repr) (sort_key ti_name ts))"

text \<open>The loop that fills \<open>grouped\<close> and \<open>other\<close>: each tool is appended to one list.\<close>

definition in_group :: "capability_group option \<Rightarrow> tool_info list \<Rightarrow> string + tool_info list" where
  "in_group g ts =
     and_then (map_all (\<lambda>t. and_then (classify_tool t) (\<lambda>k. Inr (t, k))) ts)
       (\<lambda>tks. Inr (map fst (filter (\<lambda>(t, k). map_option cg_id k = map_option cg_id g) tks)))"

definition digest_intro :: "string list" where
  "digest_intro =
     [''Tool capability digest:'',
      ''- Use this as a quick capability map; the full JSON schemas below are '' @
      ''authoritative for exact tool names and arguments.'',
      ''- If a needed capability is absent, emit a rejection instead of inventing a tool.'',
      ''- Risk levels: [read] no side effects; [network] reads external sources; '' @
      ''[write] modifies local state; [execute] runs code '' @ em_dash @ '' plan accordingly.'']"

definition render_tool_capability_digest ::
  "(json \<Rightarrow> string) \<Rightarrow> (string \<Rightarrow> string) \<Rightarrow> (string \<times> json) list list \<Rightarrow> string + string"
where
  "render_tool_capability_digest str repr schemas =
     (let ts = map (tool_info str) schemas
      in and_then (map_all (\<lambda>g. and_then (in_group (Some g) ts) (\<lambda>es. Inr (g, es))) capability_groups)
        (\<lambda>grouped. and_then (in_group None ts)
        (\<lambda>other. Inr (join newline
           (digest_intro @
            map (\<lambda>(g, es). ''- '' @ cg_title g @ '': '' @ format_tools repr es)
              (filter (\<lambda>(g, es). es \<noteq> []) grouped) @
            (if other = [] then [] else [''- Other registered tools: '' @ format_tools repr other]) @
            (if ts = [] then [''- No tools are registered.''] else []))))))"

text \<open>The error of \<open>_group_by_id\<close> never occurs: every prefix leads to a group.\<close>

lemma prefix_groups_known: "(p, i) \<in> set prefix_groups \<Longrightarrow> \<exists>g. group_by_id i = Inr g \<and> g \<in> set capability_groups"
  by (auto simp: prefix_groups_def group_by_id_def capability_groups_def)

lemma classify_tool_total: "\<exists>k. classify_tool t = Inr k \<and> (\<forall>g. k = Some g \<longrightarrow> g \<in> set capability_groups)"
proof (cases "find (\<lambda>(p, i). starts_with p (ti_name t)) prefix_groups")
  case None
  then show ?thesis by (auto simp: classify_tool_def Let_def find_Some_iff)
next
  case (Some pi)
  then have "pi \<in> set prefix_groups" by (metis find_Some_iff nth_mem)
  with Some prefix_groups_known [of "fst pi" "snd pi"] show ?thesis
    by (auto simp: classify_tool_def split: prod.splits)
qed

definition tool_group :: "tool_info \<Rightarrow> capability_group option" where
  "tool_group t = (case classify_tool t of Inr k \<Rightarrow> k | Inl _ \<Rightarrow> None)"

lemma classify_tool_group: "classify_tool t = Inr (tool_group t)"
  using classify_tool_total [of t] by (auto simp: tool_group_def)

lemma in_group_eq:
  "in_group g ts = Inr (filter (\<lambda>t. map_option cg_id (tool_group t) = map_option cg_id g) ts)"
proof -
  have "map_all (\<lambda>t. and_then (classify_tool t) (\<lambda>k. Inr (t, k))) ts = Inr (map (\<lambda>t. (t, tool_group t)) ts)"
    by (induction ts) (simp_all add: classify_tool_group)
  then show ?thesis by (simp add: in_group_def filter_map comp_def)
qed

lemma digest_total: "\<exists>d. render_tool_capability_digest str repr schemas = Inr d"
proof -
  have "map_all (\<lambda>g. and_then (in_group (Some g) ts) (\<lambda>es. Inr (g, es))) gs =
      Inr (map (\<lambda>g. (g, filter (\<lambda>t. map_option cg_id (tool_group t) = Some (cg_id g)) ts)) gs)" for gs ts
    by (induction gs) (simp_all add: in_group_eq)
  then show ?thesis by (simp add: render_tool_capability_digest_def Let_def in_group_eq)
qed

text \<open>Every tool lands in exactly one line of the digest.\<close>

lemma groups_partition:
  "mset (concat (map (\<lambda>g. filter (\<lambda>t. map_option cg_id (tool_group t) = Some (cg_id g)) ts) capability_groups)) +
   mset (filter (\<lambda>t. tool_group t = None) ts) = mset ts"
proof (induction ts)
  case (Cons t ts)
  show ?case
  proof (cases "tool_group t")
    case (Some g)
    then have "g \<in> set capability_groups"
      using classify_tool_total [of t] classify_tool_group [of t] by auto
    with Some Cons show ?thesis by (auto simp: capability_groups_def)
  qed (use Cons in \<open>simp add: capability_groups_def\<close>)
qed (simp add: capability_groups_def)

text \<open>
  The capability digest given to the planner never fails, and lists every registered tool
  exactly once, in the group its name prefix or the first matching keyword selects, or among the
  other tools; within a line tools are ordered by name.
\<close>

lemma digest_lists_every_tool:
  "\<exists>grouped other. render_tool_capability_digest str repr schemas = Inr (join newline (digest_intro @
       map (\<lambda>(g, es). ''- '' @ cg_title g @ '': '' @ join ''; '' (map (format_tool repr) es))
         (filter (\<lambda>(g, es). es \<noteq> []) grouped) @
       (if other = [] then [] else [''- Other registered tools: '' @ join ''; '' (map (format_tool repr) other)]) @
       (if schemas = [] then [''- No tools are registered.''] else []))) \<and>
     map fst grouped = capability_groups \<and>
     mset (concat (map snd grouped)) + mset other = mset (map (tool_info str) schemas) \<and>
     list_all (\<lambda>(g, es). sorted (map ti_name es) \<and>
        list_all (\<lambda>t. \<exists>k. classify_tool t = Inr (Some k) \<and> cg_id k = cg_id g) es) grouped \<and>
     sorted (map ti_name other) \<and> list_all (\<lambda>t. classify_tool t = Inr None) other"
proof -
  define ts where "ts = map (tool_info str) schemas"
  define pick where "pick (g :: capability_group) = filter (\<lambda>t. map_option cg_id (tool_group t) = Some (cg_id g)) ts" for g
  define rest where "rest = filter (\<lambda>t. tool_group t = None) ts"
  let ?grouped = "map (\<lambda>g. (g, sort_key ti_name (pick g))) capability_groups"
  have pick: "in_group (Some g) ts = Inr (pick g)" for g by (simp add: in_group_eq pick_def)
  have rest: "in_group None ts = Inr rest" by (simp add: in_group_eq rest_def)
  have all: "map_all (\<lambda>g. and_then (in_group (Some g) ts) (\<lambda>es. Inr (g, es))) gs = Inr (map (\<lambda>g. (g, pick g)) gs)" for gs
    by (induction gs) (simp_all add: pick)
  have nil: "sort_key ti_name es = [] \<longleftrightarrow> es = []" for es
    by (metis length_0_conv length_sort)
  have "filter (\<lambda>(g, es). es \<noteq> []) ?grouped =
      map (\<lambda>(g, es). (g, sort_key ti_name es)) (filter (\<lambda>(g, es). es \<noteq> []) (map (\<lambda>g. (g, pick g)) gs))"
    if "gs = capability_groups" for gs
    unfolding that [symmetric] by (induction gs) (simp_all add: nil)
  then have lines: "render_tool_capability_digest str repr schemas = Inr (join newline (digest_intro @
       map (\<lambda>(g, es). ''- '' @ cg_title g @ '': '' @ join ''; '' (map (format_tool repr) es))
         (filter (\<lambda>(g, es). es \<noteq> []) ?grouped) @
       (if sort_key ti_name rest = [] then []
        else [''- Other registered tools: '' @ join ''; '' (map (format_tool repr) (sort_key ti_name rest))]) @
       (if schemas = [] then [''- No tools are registered.''] else [])))"
    unfolding render_tool_capability_digest_def ts_def [symmetric] Let_def all rest
    by (simp add: format_tools_def nil ts_def case_prod_beta' comp_def)
  have "mset (concat (map snd ?grouped)) = mset (concat (map pick gs))" if "gs = capability_groups" for gs
    unfolding that [symmetric] by (induction gs) simp_all
  then have parts: "mset (concat (map snd ?grouped)) + mset (sort_key ti_name rest) = mset ts"
    using groups_partition [of ts] unfolding pick_def rest_def by simp
  have "list_all (\<lambda>(g, es). sorted (map ti_name es) \<and>
      list_all (\<lambda>t. \<exists>k. classify_tool t = Inr (Some k) \<and> cg_id k = cg_id g) es) ?grouped"
    by (auto simp: pick_def classify_tool_group list_all_iff)
  moreover have "sorted (map ti_name (sort_key ti_name rest)) \<and>
      list_all (\<lambda>t. classify_tool t = Inr None) (sort_key ti_name rest)"
    by (simp add: rest_def classify_tool_group list_all_iff)
  moreover have "map fst ?grouped = capability_groups" by (simp add: comp_def)
  ultimately show ?thesis
    using lines parts unfolding ts_def
    by (intro exI [of _ ?grouped] exI [of _ "sort_key ti_name rest"]) (simp add: ts_def)
qed

section \<open>Limits and tiers\<close>

definition limits_block :: "settings \<Rightarrow> string" where
  "limits_block s =
     ''Plan limits (a plan exceeding these is rejected):'' @ newline @
     ''- At most '' @ str_int (max_plan_nodes s) @ '' nodes in this plan.'' @ newline @
     ''- At most '' @ str_int (max_subplans_per_plan s) @ '' subplan node(s), '' @
     ''each with at most '' @ str_int (max_subplan_nodes s) @ '' nodes.'' @ newline @
     ''Stay within the node budget: if the task is large, consolidate '' @
     ''related steps into one node rather than exceeding the limit.''"

definition local_tier_hosts :: "string list" where
  "local_tier_hosts = [''localhost'', ''127.0.0.1'', ''0.0.0.0'', ''::1'']"

text \<open>\<open>hostname\<close> is \<open>urlparse(url).hostname or ""\<close>.\<close>

definition tier_status :: "(string \<Rightarrow> string) \<Rightarrow> int \<Rightarrow> int \<Rightarrow> tier_config \<Rightarrow> string" where
  "tier_status hostname min_tier index tier =
     (if index < min_tier
      then ''ineligible for this call (below min_tier='' @ str_int min_tier @ '')''
      else if tc_api_key tier \<noteq> [] then ''configured''
      else if hostname (tc_base_url tier) \<in> set local_tier_hosts then ''configured local endpoint''
      else ''not configured (missing API key)'')"

definition tier_line :: "(string \<Rightarrow> string) \<Rightarrow> int \<Rightarrow> int \<times> tier_config \<Rightarrow> string" where
  "tier_line hostname min_tier it =
     (case it of (index, tier) \<Rightarrow>
        ''- tier '' @ str_int index @ '': model='' @ tc_model tier @ '', endpoint='' @ tc_base_url tier @ '', '' @
        tier_status hostname min_tier index tier)"

definition tier_block :: "settings \<Rightarrow> (string \<Rightarrow> string) \<Rightarrow> int \<Rightarrow> string" where
  "tier_block s hostname min_tier =
     join newline
       ([''Tier routing context:'',
         ''- The executor chooses tiers deterministically; do not use node '' @
         ''types as a way to pick a model.'',
         ''- Leave forced_tier null unless the user explicitly asks for a '' @
         ''specific tier or a node truly cannot run on the default route.''] @
        map (tier_line hostname min_tier) (zip (map int [0 ..< length (tiers s)]) (tiers s)) @
        (let r = routing s in
         [''- Node routing table: '' @
          ''tool='' @ str_int (rt_tool r) @ '', decision='' @ str_int (rt_decision r) @
          '', summary='' @ str_int (rt_summary r) @ '', synthesis='' @ str_int (rt_synthesis r) @
          '', think='' @ str_int (rt_think r) @ '', result='' @ str_int (rt_result r) @ ''.'',
          ''- Nodes with reasoning_required=true start at least at '' @
          ''tier '' @ str_int (rt_reasoning_required r) @ ''. '' @
          ''Use them only for real multi-step reasoning, and prefer ordinary '' @
          ''summary/synthesis/result nodes when higher tiers are not configured.'',
          ''- If you set forced_tier, choose only an eligible configured tier '' @
          ''from the list above.'']))"

section \<open>The cookbook\<close>

record recipe =
  re_id :: string
  re_title :: string
  re_description :: string
  re_keywords :: "string list"
  re_when_to_use :: "string list"
  re_skeleton :: "string list"
  re_adaptation_notes :: "string list"

text \<open>\<open>_string_tuple\<close>: of the JSON values only an array is a sequence that is no string.\<close>

definition string_tuple :: "(json \<Rightarrow> string) \<Rightarrow> json \<Rightarrow> string list" where
  "string_tuple str v = (case v of JList xs \<Rightarrow> map str xs | _ \<Rightarrow> [])"

text \<open>\<open>raw[key]\<close>; the left is the missing key.\<close>

definition required_key :: "(string \<times> json) list \<Rightarrow> string \<Rightarrow> string + json" where
  "required_key raw k = (case map_of raw k of None \<Rightarrow> Inl k | Some v \<Rightarrow> Inr v)"

definition recipe_from_mapping :: "(json \<Rightarrow> string) \<Rightarrow> (string \<times> json) list \<Rightarrow> string + recipe" where
  "recipe_from_mapping str raw =
     and_then (required_key raw ''id'') (\<lambda>i.
     and_then (required_key raw ''title'') (\<lambda>t.
     and_then (required_key raw ''description'') (\<lambda>d.
       Inr \<lparr>re_id = str i, re_title = str t, re_description = str d,
            re_keywords = string_tuple str (jget_default raw ''keywords'' (JList [])),
            re_when_to_use = string_tuple str (jget_default raw ''when_to_use'' (JList [])),
            re_skeleton = string_tuple str (jget_default raw ''skeleton'' (JList [])),
            re_adaptation_notes = string_tuple str (jget_default raw ''adaptation_notes'' (JList []))\<rparr>)))"

definition bullets :: "string list \<Rightarrow> string list" where
  "bullets xs = map (\<lambda>x. ''- '' @ x) xs"

definition recipe_prompt :: "string \<Rightarrow> recipe \<Rightarrow> string" where
  "recipe_prompt heading r =
     join newline
       ([heading @ '': '' @ re_id r @ '' '' @ em_dash @ '' '' @ re_title r,
         ''Description: '' @ re_description r,
         ''When to use:''] @ bullets (re_when_to_use r) @
        [''Adaptable skeleton:''] @ bullets (re_skeleton r) @
        [''Adaptation notes:''] @ bullets (re_adaptation_notes r))"

type_synonym cookbook = "recipe list"

definition make_cookbook :: "recipe list \<Rightarrow> string + cookbook" where
  "make_cookbook rs =
     (if rs = [] then Inl ''PlannerCookbook requires at least one recipe'' else Inr (sort_key re_id rs))"

text \<open>\<open>load_default\<close>: the files of the recipe directory, with \<open>json.loads\<close> as a parameter.\<close>

definition load_cookbook ::
  "(string \<Rightarrow> string + (string \<times> json) list) \<Rightarrow> (json \<Rightarrow> string) \<Rightarrow> (string \<times> string) list \<Rightarrow> string + cookbook"
where
  "load_cookbook loads str files =
     and_then
       (map_all (\<lambda>(name, body). and_then (loads body) (recipe_from_mapping str))
          (filter (\<lambda>(name, body). ends_with ''.json'' name) (sort_key fst files)))
       make_cookbook"

definition mentions_tool_capability :: "string \<Rightarrow> string list \<Rightarrow> bool" where
  "mentions_tool_capability request_lower tool_names \<longleftrightarrow>
     list_ex (\<lambda>name.
       contains name request_lower \<or>
       mentions (filter (\<lambda>w. 2 < length w) (split_char (CHR ''_'') (lower name))) request_lower) tool_names"

definition recipe_score :: "string \<Rightarrow> string list \<Rightarrow> recipe \<Rightarrow> int" where
  "recipe_score request_lower tool_names r =
     3 * int (length (filter (\<lambda>k. contains (lower k) request_lower) (re_keywords r))) +
     (if re_id r = ''web_research'' \<and> list_ex (\<lambda>n. contains ''web'' n \<or> contains ''search'' n) tool_names
      then 1 else 0) +
     (if re_id r = ''single_tool'' \<and> mentions_tool_capability request_lower tool_names then 4 else 0) +
     (if re_id r = ''direct_answer'' then 1 else 0)"

definition recipe_rank :: "string \<Rightarrow> string list \<Rightarrow> recipe \<Rightarrow> int \<times> string" where
  "recipe_rank request_lower tool_names r = (recipe_score request_lower tool_names r, re_id r)"

definition select_many :: "cookbook \<Rightarrow> string \<Rightarrow> string list \<Rightarrow> int \<Rightarrow> string + recipe list" where
  "select_many cb request tool_names k =
     (if k < 1 then Inl ''k must be at least 1''
      else let ranked = sort_desc (recipe_rank (lower request) tool_names) cb
           in Inr (take (nat (min k (int (length ranked)))) ranked))"

text \<open>\<open>select\<close>; the cookbook is not empty, so the first element exists.\<close>

definition select_recipe :: "cookbook \<Rightarrow> string \<Rightarrow> string list \<Rightarrow> string + recipe" where
  "select_recipe cb request tool_names =
     and_then (select_many cb request tool_names 1)
       (\<lambda>rs. case rs of [] \<Rightarrow> Inl ''tuple index out of range'' | r # _ \<Rightarrow> Inr r)"

definition cookbook_intro :: string where
  "cookbook_intro =
     ''Planning cookbook:'' @ newline @
     ''- The ranked candidate recipes below are selected by a best-effort '' @
     ''heuristic; they are scaffolds, not templates. Compare nearby shapes, '' @
     ''then adapt, combine, or ignore them when the user'' @ [CHR 0x27] @ ''s request, '' @
     ''available tools, or validator constraints require a different DAG.'' @ newline @
     ''- Never copy the skeleton verbatim unless it exactly fits the request. '' @
     ''Make the plan right-sized: include every node needed for correctness, '' @
     ''but avoid redundant or decorative nodes.'' @ newline"

definition cookbook_prompt :: "cookbook \<Rightarrow> string \<Rightarrow> string list \<Rightarrow> int \<Rightarrow> string + string" where
  "cookbook_prompt cb request tool_names k =
     and_then (select_many cb request tool_names k) (\<lambda>selected.
       Inr (cookbook_intro @ ''- Available recipes: '' @
            join '', '' (map (\<lambda>r. re_id r @ '': '' @ re_description r) cb) @ newline @ newline @
            ''Top candidate recipes:'' @ newline @
            join (newline @ newline)
              (map (\<lambda>(i, r). recipe_prompt (''Candidate '' @ str_nat i) r) (zip [1 ..< Suc (length selected)] selected))))"

text \<open>
  With at least one recipe and \<open>k \<ge> 1\<close>, \<open>select_many\<close> returns the \<open>k\<close> best recipes (all of them
  when there are fewer), best first by score and then id, and leaves out none that ranks above one it
  returns; the choice does not depend on the order of the recipe files, once ids are unique.
\<close>

theorem cookbook_selects_best:
  assumes "make_cookbook rs = Inr cb" and "1 \<le> k"
  shows "\<exists>best. select_many cb request tool_names k = Inr best \<and> best \<noteq> [] \<and>
      length best = min (nat k) (length rs) \<and> set best \<subseteq> set rs \<and>
      sorted_wrt (\<lambda>x y. recipe_rank (lower request) tool_names y \<le> recipe_rank (lower request) tool_names x) best \<and>
      (\<forall>x y. x \<in> set best \<longrightarrow> y \<in># mset rs - mset best \<longrightarrow>
         recipe_rank (lower request) tool_names y \<le> recipe_rank (lower request) tool_names x) \<and>
      (distinct (map re_id rs) \<longrightarrow> (\<forall>rs'. mset rs' = mset rs \<longrightarrow> make_cookbook rs' = Inr cb))"
proof -
  let ?f = "recipe_rank (lower request) tool_names"
  define best where "best = take (min (nat k) (length rs)) (sort_desc ?f cb)"
  define rest where "rest = drop (min (nat k) (length rs)) (sort_desc ?f cb)"
  have rs: "rs \<noteq> []" and cb: "cb = sort_key re_id rs" using assms(1) by (auto simp: make_cookbook_def split: if_splits)
  have sel: "select_many cb request tool_names k = Inr best"
    using assms(2) by (simp add: select_many_def Let_def cb best_def min_def nat_le_iff split: if_splits)
  have len: "length best = min (nat k) (length rs)" by (simp add: best_def cb)
  then have "length best \<noteq> 0" using rs assms(2) by simp
  then have nonempty: "best \<noteq> []" by auto
  have m: "mset best + mset rest = mset rs"
    by (simp add: best_def rest_def cb sort_desc_def flip: mset_append)
  then have rest: "mset rs - mset best = mset rest" and sub: "set best \<subseteq> set rs"
    by (metis add_diff_cancel_left', metis Un_upper1 mset_append set_append set_mset_mset)
  have sorted: "sorted_wrt (\<lambda>x y. ?f y \<le> ?f x) best"
    unfolding best_def by (rule sorted_wrt_take [OF sort_desc_sorted])
  have above: "?f y \<le> ?f x" if "x \<in> set best" "y \<in># mset rs - mset best" for x y
    using that sort_desc_take [of x "min (nat k) (length rs)" ?f cb y] unfolding rest by (simp add: best_def rest_def)
  have stable: "make_cookbook rs' = Inr cb" if d: "distinct (map re_id rs)" and p: "mset rs' = mset rs" for rs'
  proof -
    have "inj_on re_id (set rs)" using d by (simp add: distinct_map)
    moreover have same: "set rs' = set rs" using p by (rule mset_eq_setD)
    moreover have "distinct rs'" using d p by (metis distinct_map mset_eq_imp_distinct_iff)
    ultimately have "sort_key re_id rs' = sort_key re_id rs"
      using d by (intro map_sorted_distinct_set_unique [where f = re_id]) (simp_all add: distinct_map)
    with p rs show ?thesis by (auto simp: make_cookbook_def cb)
  qed
  show ?thesis
    by (rule exI [of _ best]) (intro conjI sel nonempty len sub sorted allI impI above stable)
qed

definition sample_recipe :: "string \<Rightarrow> string list \<Rightarrow> recipe" where
  "sample_recipe i ks =
     \<lparr>re_id = i, re_title = i, re_description = i, re_keywords = ks, re_when_to_use = [], re_skeleton = [],
      re_adaptation_notes = []\<rparr>"

theorem cookbook_selects_best_witness:
  "\<exists>best. select_many [sample_recipe ''a'' [], sample_recipe ''b'' [''Sum'']] ''a sum'' [] 1 = Inr best \<and>
     best \<noteq> [] \<and> length best = 1 \<and> best = [sample_recipe ''b'' [''Sum'']]"
proof -
  let ?cb = "[sample_recipe ''a'' [], sample_recipe ''b'' [''Sum'']]"
  have cb: "make_cookbook ?cb = Inr ?cb"
    by (simp add: make_cookbook_def sample_recipe_def sort_key_def insort_key_def less_eq_char_def)
  have "select_many ?cb ''a sum'' [] 1 = Inr [sample_recipe ''b'' [''Sum'']]" by code_simp
  with cookbook_selects_best [OF cb, of 1 "''a sum''" "[]"] show ?thesis by auto
qed

end
