(* ===== verification/PlannerModel.thy ===== *)
theory PlannerModel
  imports PlanPayload PlannerPrompt PlanValidator Providers
begin

text \<open>
  \<open>Planner.plan_attempt\<close> of \<open>planner/planner.py\<close>: the messages of one attempt, the call through the
  router under a timeout, and the reading of the reply up to the validated plan, with the errors it
  reports in the attempt and those it raises.
\<close>

section \<open>The environment\<close>

text \<open>How \<open>asyncio.wait_for\<close> ends: in time, at the timeout, or because the task is cancelled.\<close>

datatype wait_end = InTime | TooLate | WaitCancelled

text \<open>
  What an attempt raises: a \<open>CancelledError\<close>, a \<open>ValueError\<close> or \<open>PlanValidationError\<close> (which the
  orchestrator retries after), or any other exception.
\<close>

datatype plan_exc = PlanCancelled | PlanValueError string | PlanError string

text \<open>
  Parameters: \<open>json.dumps\<close> with an indent, the JSON parser before its object hook (a tree whose
  objects keep repeated keys), \<open>str\<close>, \<open>repr\<close>, \<open>urlparse(u).hostname or ""\<close>, pydantic's
  \<open>Plan.model_validate\<close> (whose error is a \<open>ValueError\<close>), the clock, the failed-plan file (\<open>None\<close> when it
  cannot be written), and whether an unexpected exception of a provider is a \<open>ValueError\<close>.
\<close>

record 'w planner_env =
  pe_settings :: settings
  pe_harness :: "'w harness"
  pe_router :: "'w router"
  pe_cookbook :: cookbook
  pe_dumps :: "json \<Rightarrow> string"
  pe_parse :: "string \<Rightarrow> string + json"
  pe_str :: "json \<Rightarrow> string"
  pe_repr :: "string \<Rightarrow> string"
  pe_hostname :: "string \<Rightarrow> string"
  pe_model :: "(string \<times> json) list \<Rightarrow> string + plan"
  pe_wait :: "int \<Rightarrow> 'w \<Rightarrow> wait_end \<times> 'w"
  pe_write :: "planning_attempt \<Rightarrow> 'w \<Rightarrow> string option \<times> 'w"
  pe_value_error :: "string \<Rightarrow> bool"

text \<open>The keyword arguments of \<open>plan_attempt\<close>.\<close>

record plan_request =
  pq_request :: string
  pq_attempt :: nat
  pq_min_tier :: int
  pq_feedback :: "string option"
  pq_prior_reasoning :: "string option"
  pq_validation_feedback :: "string option"
  pq_rejection_feedback :: "string option"
  pq_thinking :: bool

section \<open>The messages\<close>

definition schema_fields :: "json \<Rightarrow> (string \<times> json) list" where
  "schema_fields v = (case v of JObj kvs \<Rightarrow> kvs | _ \<Rightarrow> [])"

definition cacheable_prefix :: "'w planner_env \<Rightarrow> int \<Rightarrow> string + string" where
  "cacheable_prefix en min_tier =
     (let schemas = all_schemas (pe_harness en)
      in and_then (render_tool_capability_digest (pe_str en) (pe_repr en) (map schema_fields schemas))
        (\<lambda>digest. Inr
          (limits_block (pe_settings en) @ newline @ newline @
           tier_block (pe_settings en) (pe_hostname en) min_tier @ newline @ newline @
           digest @ newline @ newline @
           ''Available tools:'' @ newline @ pe_dumps en (JList schemas) @ newline @ newline)))"

text \<open>\<open>if x: user_content += ...\<close>\<close>

definition section_if :: "string option \<Rightarrow> (string \<Rightarrow> string) \<Rightarrow> string" where
  "section_if x f = (case x of None \<Rightarrow> [] | Some t \<Rightarrow> if t = [] then [] else f t)"

definition retry_sections :: "plan_request \<Rightarrow> string" where
  "retry_sections q =
     section_if (pq_feedback q) (\<lambda>t.
       newline @ newline @ ''A previous plan for this request was rejected. Produce a '' @
       ''revised plan that addresses this feedback:'' @ newline @ t) @
     section_if (pq_prior_reasoning q) (\<lambda>t.
       newline @ newline @ ''A previous planning attempt produced output that could not '' @
       ''be parsed as a valid plan. The raw output was:'' @ newline @
       ''<previous_attempt>'' @ newline @ take 2000 t @ newline @ ''</previous_attempt>'' @ newline @ newline @
       ''Do not repeat this output. Emit only a valid JSON plan or a '' @
       ''rejection object.'') @
     section_if (pq_validation_feedback q) (\<lambda>t.
       newline @ newline @ ''A previous planning attempt failed schema or structural '' @
       ''validation. Produce a corrected plan that fixes this exact '' @
       ''problem while preserving the user'' @ apostrophe @ ''s intent:'' @ newline @
       ''<validation_feedback>'' @ newline @ t @ newline @ ''</validation_feedback>'') @
     section_if (pq_rejection_feedback q) (\<lambda>t.
       newline @ newline @ ''A previous planning attempt rejected an answerable request. '' @
       ''Produce a valid plan, not a rejection, that preserves the '' @
       ''user'' @ apostrophe @ ''s intent and answers through an ordinary result node:'' @ newline @
       ''<rejection_feedback>'' @ newline @ t @ newline @ ''</rejection_feedback>'')"

text \<open>\<open>s.removesuffix(p)\<close>.\<close>

definition remove_suffix :: "string \<Rightarrow> string \<Rightarrow> string" where
  "remove_suffix p s = (if ends_with p s then take (length s - length p) s else s)"

definition planner_system_prompt :: "'w planner_env \<Rightarrow> bool \<Rightarrow> string" where
  "planner_system_prompt en thinking =
     (let p = pr_planner (prompts (pe_settings en))
      in if thinking then remove_suffix (newline @ ''/no_think'') p else p)"

text \<open>The left is a \<open>ValueError\<close>.\<close>

definition plan_messages :: "'w planner_env \<Rightarrow> plan_request \<Rightarrow> string + message list" where
  "plan_messages en q =
     and_then (cookbook_prompt (pe_cookbook en) (pq_request q) (all_names (pe_harness en)) 3) (\<lambda>cookbook.
     and_then (cacheable_prefix en (pq_min_tier q)) (\<lambda>pre.
       let user_content = pre @ cookbook @ newline @ newline @ ''User request: '' @ pq_request q @ retry_sections q
       in and_then (cacheable_message ''system'' (planner_system_prompt en (pq_thinking q)) None) (\<lambda>m1.
          and_then (cacheable_message ''user'' user_content (Some (int (length pre)))) (\<lambda>m2.
            Inr [m1, m2]))))"

section \<open>The reply\<close>

definition new_attempt :: "nat \<Rightarrow> string \<Rightarrow> int \<Rightarrow> planning_attempt" where
  "new_attempt n raw tokens =
     \<lparr>a_attempt = n, a_raw_output = raw, a_parsed = None, a_plan = None, a_error = None, a_error_type = None,
      a_error_detail = None, a_tokens_used = tokens, a_filepath = None\<rparr>"

definition failed_attempt :: "'w planner_env \<Rightarrow> planning_attempt \<Rightarrow> 'w \<Rightarrow> planning_attempt \<times> 'w" where
  "failed_attempt en a w =
     (case pe_write en a w of
        (None, w') \<Rightarrow> (a, w')
      | (Some fp, w') \<Rightarrow> (a\<lparr>a_filepath := Some fp\<rparr>, w'))"

definition return_failed ::
  "'w planner_env \<Rightarrow> planning_attempt \<Rightarrow> 'w \<Rightarrow> (plan_exc + planning_attempt) \<times> 'w"
where
  "return_failed en a w = (case failed_attempt en a w of (a', w') \<Rightarrow> (Inr a', w'))"

fun node_type_upper :: "node_type \<Rightarrow> string" where
  "node_type_upper TOOL = ''TOOL''"
| "node_type_upper DECISION = ''DECISION''"
| "node_type_upper SYNTHESIS = ''SYNTHESIS''"
| "node_type_upper THINK = ''THINK''"
| "node_type_upper SUMMARY = ''SUMMARY''"
| "node_type_upper RESULT = ''RESULT''"
| "node_type_upper SUBPLAN = ''SUBPLAN''"

text \<open>The texts of \<open>PlanValidationError\<close>; the last constructor stands for a check that does not return.\<close>

fun plan_error_text :: "(string \<Rightarrow> string) \<Rightarrow> plan_error \<Rightarrow> string" where
  "plan_error_text repr (MissingContext i d) =
     ''Node '' @ str_int i @ '' declares context_needed='' @ str_int d @ '' which doesn'' @ apostrophe @ ''t exist''"
| "plan_error_text repr (MissingBranchTarget i b t) =
     ''Decision node '' @ str_int i @ '' branch '' @ apostrophe @ b @ apostrophe @
     '' references non-existent node '' @ str_int t"
| "plan_error_text repr DependencyCycle = ''Plan contains a dependency cycle''"
| "plan_error_text repr (TooManyNodes sub n limit) =
     (if sub then ''Subplan'' else ''Plan'') @ '' has '' @ str_nat n @ '' nodes; max is '' @ str_int limit"
| "plan_error_text repr (ToolNotDeclared i) = ''TOOL node '' @ str_int i @ '' must declare a tool''"
| "plan_error_text repr (ToolNotAllowed t i) =
     node_type_upper t @ '' node '' @ str_int i @ '' must not declare a tool''"
| "plan_error_text repr (DecisionFieldsNotAllowed t i) =
     node_type_upper t @ '' node '' @ str_int i @ '' must not declare decision fields''"
| "plan_error_text repr (SubplanMissing i) = ''SUBPLAN node '' @ str_int i @ '' has no nested plan attached''"
| "plan_error_text repr (SubplanNotAllowed t i) =
     node_type_upper t @ '' node '' @ str_int i @ '' must not declare a nested plan''"
| "plan_error_text repr (ConditionMissing i) = ''DECISION node '' @ str_int i @ '' must declare a condition''"
| "plan_error_text repr (BranchesMissing i) = ''DECISION node '' @ str_int i @ '' must declare branches''"
| "plan_error_text repr (BranchesNotYesNo i) =
     ''DECISION node '' @ str_int i @ '' branches must be exactly ['' @ repr ''yes'' @ '', '' @ repr ''no'' @ '']''"
| "plan_error_text repr (DefaultNotABranch i) =
     ''DECISION node '' @ str_int i @ '' default_branch must be one of its branches''"
| "plan_error_text repr (UnknownTools ts) =
     ''Plan references unknown tools: ['' @ join '', '' (map repr ts) @ '']''"
| "plan_error_text repr (ForcedTierOutside i t m) =
     ''Node '' @ str_int i @ '' forced_tier='' @ str_int t @ '' is outside configured tier range 0..'' @ str_int m"
| "plan_error_text repr (NestingTooDeep d limit i) =
     ''Decision nesting depth '' @ str_nat d @ '' exceeds max '' @ str_int limit @ '' at node '' @ str_int i"
| "plan_error_text repr (TooManySubplans n cap) =
     ''Plan has '' @ str_nat n @ '' subplan nodes; max is '' @ str_int cap"
| "plan_error_text repr DoesNotReturn = []"

text \<open>The label \<open>_classify_rejection\<close> gives to a rejection in the log.\<close>

definition classify_rejection :: "string \<Rightarrow> string \<Rightarrow> string" where
  "classify_rejection request reason =
     (if mentions [''predict'', ''prediction'', ''forecast'', ''recommend'', ''recommendation'', ''judge'', ''opinion'',
                   ''factual'', ''general knowledge'', ''clarifying'', ''vague'', ''unknown'', ''unknowable'']
           (lower (request @ '' '' @ reason))
      then ''suspected_mistaken'' else ''legitimate'')"

definition stall_limit :: "settings \<Rightarrow> int" where
  "stall_limit s = bu_planner (budgets s) * planner_stall_char_multiplier s"

text \<open>From the parsed JSON object to the plan.\<close>

definition read_plan ::
  "'w planner_env \<Rightarrow> planning_attempt \<Rightarrow> (string \<times> json) list \<Rightarrow> 'w \<Rightarrow> (plan_exc + planning_attempt) \<times> 'w"
where
  "read_plan en a parsed w =
     (case map_of parsed ''rejection'' of
        Some v \<Rightarrow>
          (let a' = a\<lparr>a_parsed := Some parsed, a_error := Some (pe_str en v), a_error_type := Some ''rejection''\<rparr>
           in return_failed en a' w)
      | None \<Rightarrow>
          (case repair_plan_payload (pe_str en) parsed of
             Inl e \<Rightarrow> (Inl (PlanError e), w)
           | Inr repaired \<Rightarrow>
               (let a' = a\<lparr>a_parsed := Some repaired\<rparr>
                in case pe_model en repaired of
                     Inl e \<Rightarrow> (return_failed en (a'\<lparr>a_error := Some e, a_error_type := Some ''schema''\<rparr>) w)
                   | Inr p \<Rightarrow>
                       (case validate (pe_harness en) (pe_settings en) p of
                          Inl e \<Rightarrow> (return_failed en (a'\<lparr>a_error := Some (plan_error_text (pe_repr en) e),
                                                   a_error_type := Some ''validation''\<rparr>) w)
                        | Inr p' \<Rightarrow> (Inr (a'\<lparr>a_plan := Some p'\<rparr>), w)))))"

definition read_reply ::
  "'w planner_env \<Rightarrow> nat \<Rightarrow> string \<Rightarrow> int \<Rightarrow> 'w \<Rightarrow> (plan_exc + planning_attempt) \<times> 'w"
where
  "read_reply en n raw tokens w =
     (let a = new_attempt n raw tokens
      in case pe_parse en (strip_model_output raw) of
        Inl e \<Rightarrow>
          (let stall = stall_limit (pe_settings en) < int (length raw)
           in (return_failed en
                (a\<lparr>a_error := Some (''Planner returned invalid JSON: '' @ e),
                   a_error_type := Some (if stall then ''stall'' else ''json''),
                   a_error_detail := (if stall then Some raw else None)\<rparr>) w))
      | Inr tree \<Rightarrow>
          (case decode_object tree of
             JObj parsed \<Rightarrow> read_plan en a parsed w
           | v \<Rightarrow> (return_failed en
                (a\<lparr>a_error := Some (''Planner returned '' @ type_name v @ '', expected JSON object''),
                   a_error_type := Some ''schema''\<rparr>) w)))"

definition provider_failure :: "'w planner_env \<Rightarrow> provider_exc \<Rightarrow> plan_exc" where
  "provider_failure en e =
     (case e of
        OtherFault t \<Rightarrow> if pe_value_error en t then PlanValueError t else PlanError t
      | _ \<Rightarrow> PlanError (exc_text e))"

definition planner_timeout :: "settings \<Rightarrow> bool \<Rightarrow> int" where
  "planner_timeout s thinking = (if thinking then planner_retry_timeout_s s else planner_initial_timeout_s s)"

definition plan_attempt ::
  "'w planner_env \<Rightarrow> plan_request \<Rightarrow> 'w \<Rightarrow> (plan_exc + planning_attempt) \<times> 'w"
where
  "plan_attempt en q w =
     (case plan_messages en q of
        Inl e \<Rightarrow> (Inl (PlanValueError e), w)
      | Inr msgs \<Rightarrow>
          (case router_complete (pe_router en) msgs (pq_min_tier q) None True
                  (bu_planner (budgets (pe_settings en))) w of
             (s, w1) \<Rightarrow>
               (let timeout = planner_timeout (pe_settings en) (pq_thinking q)
                in case pe_wait en timeout w1 of
                     (WaitCancelled, w2) \<Rightarrow> (Inl PlanCancelled, w2)
                   | (TooLate, w2) \<Rightarrow> (return_failed en
                        ((new_attempt (pq_attempt q) [] 0)
                           \<lparr>a_error := Some (''Planner timed out after '' @ str_int timeout @ ''s''),
                            a_error_type := Some ''timeout''\<rparr>) w2)
                   | (InTime, w2) \<Rightarrow>
                       (case collect s of
                          Inl e \<Rightarrow> (Inl (provider_failure en e), w2)
                        | Inr (raw, tokens) \<Rightarrow> read_reply en (pq_attempt q) raw tokens w2))))"

section \<open>Retry guidance after a rejection\<close>

definition missing_capability :: "string \<Rightarrow> bool" where
  "missing_capability t \<longleftrightarrow>
     mentions [''send_email'', ''registered tool'', ''tool is not registered'', ''not registered'', ''required tool'',
               ''no suitable tools'', ''available tools''] t \<and>
     \<not> mentions [''calibrated uncertainty'', ''clarifying'', ''too vague'', ''vague'', ''unknown'', ''unknowable''] t"

definition vague_guidance :: string where
  "vague_guidance =
     ''The request is vague or underspecified, but that is answerable. '' @
     ''Emit a result node whose description asks one focused clarifying '' @
     ''question or offers safe next steps. Do not emit a rejection.''"

definition unknown_guidance :: string where
  "unknown_guidance =
     ''The exact value may be unknown or unknowable, but that is '' @
     ''answerable. Emit a result node whose description says the exact '' @
     ''value is unknown or unknowable, explains why, and avoids '' @
     ''fabrication. Do not emit a rejection.''"

definition rejection_retry_feedback :: "string option \<Rightarrow> string option" where
  "rejection_retry_feedback reason =
     (case reason of
        None \<Rightarrow> None
      | Some r \<Rightarrow>
          if r = [] then None
          else let t = lower r in
            if missing_capability t then None
            else if mentions [''too vague'', ''vague'', ''underspecified'', ''clarifying'', ''please specify'',
                              ''safe next steps''] t
            then Some vague_guidance
            else if mentions [''unknown'', ''unknowable'', ''future'', ''private'', ''random'', ''cannot be predicted'',
                              ''cannot predict'', ''uncertainty'', ''calibrated'', ''do not fabricate'', ''not knowable'',
                              ''unverifiable''] t
            then Some unknown_guidance
            else None)"

section \<open>Properties\<close>

text \<open>What the orchestrator relies on when it reads an attempt.\<close>

definition planned :: "'w planner_env \<Rightarrow> planning_attempt \<Rightarrow> bool" where
  "planned en a \<longleftrightarrow> attempt_valid a \<and> a_error_type a = None \<and>
     (\<exists>p. validate (pe_harness en) (pe_settings en) p = Inr (the (a_plan a)))"

definition failure_types :: "string list" where
  "failure_types = [''timeout'', ''stall'', ''json'', ''schema'', ''rejection'', ''validation'']"

definition failure_reported :: "planning_attempt \<Rightarrow> bool" where
  "failure_reported a \<longleftrightarrow> a_plan a = None \<and> a_error a \<noteq> None \<and> a_error_type a \<in> Some ` set failure_types"

definition attempt_ok :: "'w planner_env \<Rightarrow> nat \<Rightarrow> planning_attempt \<Rightarrow> bool" where
  "attempt_ok en n a \<longleftrightarrow> a_attempt a = n \<and> (planned en a \<or> failure_reported a)"

lemma failed_attempt_ok:
  "failed_attempt en a w = (a', w') \<Longrightarrow> failure_reported a \<Longrightarrow> a_attempt a = n \<Longrightarrow> attempt_ok en n a'"
  by (auto simp: failed_attempt_def attempt_ok_def failure_reported_def split: prod.splits option.splits)

lemma failed_attempt_Inr:
  assumes "(return_failed en a w) = (Inr a', w')" and "failure_reported a" and "a_attempt a = n"
  shows "attempt_ok en n a'"
  using assms failed_attempt_ok [of en a w a' w'] by (cases "failed_attempt en a w") (simp add: return_failed_def)

lemma read_plan_ok:
  assumes "read_plan en a parsed w = (Inr a', w')" and "a_attempt a = n" and "a_plan a = None"
    and "a_error a = None" and "a_error_type a = None"
  shows "attempt_ok en n a'"
proof (cases "map_of parsed ''rejection''")
  case (Some v)
  then have "(return_failed en (a\<lparr>a_parsed := Some parsed, a_error := Some (pe_str en v),
      a_error_type := Some ''rejection''\<rparr>) w) = (Inr a', w')"
    using assms(1) by (simp add: read_plan_def Let_def)
  then show ?thesis
    by (rule failed_attempt_Inr) (simp_all add: failure_reported_def failure_types_def assms(2,3))
next
  case None
  then obtain q where q: "repair_plan_payload (pe_str en) parsed = Inr q"
    using assms(1) by (cases "repair_plan_payload (pe_str en) parsed") (auto simp: read_plan_def)
  let ?a = "a\<lparr>a_parsed := Some q\<rparr>"
  show ?thesis
  proof (cases "pe_model en q")
    case (Inl e)
    then have "(return_failed en (?a\<lparr>a_error := Some e, a_error_type := Some ''schema''\<rparr>) w) = (Inr a', w')"
      using assms(1) None q by (simp add: read_plan_def Let_def)
    then show ?thesis
      by (rule failed_attempt_Inr) (simp_all add: failure_reported_def failure_types_def assms(2,3))
  next
    case (Inr p)
    show ?thesis
    proof (cases "validate (pe_harness en) (pe_settings en) p")
      case (Inl e)
      then have "(return_failed en (?a\<lparr>a_error := Some (plan_error_text (pe_repr en) e),
          a_error_type := Some ''validation''\<rparr>) w) = (Inr a', w')"
        using assms(1) None q Inr by (simp add: read_plan_def Let_def)
      then show ?thesis
        by (rule failed_attempt_Inr) (simp_all add: failure_reported_def failure_types_def assms(2,3))
    next
      case valid: (Inr p')
      then have "a' = ?a\<lparr>a_plan := Some p'\<rparr>" using assms(1) None q Inr by (simp add: read_plan_def Let_def)
      with valid assms show ?thesis by (auto simp: attempt_ok_def planned_def attempt_valid_def)
    qed
  qed
qed

lemma read_reply_ok:
  assumes "read_reply en n raw tokens w = (Inr a', w')"
  shows "attempt_ok en n a'"
proof (cases "pe_parse en (strip_model_output raw)")
  case (Inl e)
  with assms show ?thesis
    unfolding read_reply_def Let_def
    by (auto elim!: failed_attempt_Inr simp: failure_reported_def failure_types_def new_attempt_def)
next
  case (Inr tree)
  show ?thesis
  proof (cases "decode_object tree")
    case (JObj parsed)
    with assms Inr have "read_plan en (new_attempt n raw tokens) parsed w = (Inr a', w')" by (simp add: read_reply_def)
    then show ?thesis by (rule read_plan_ok) (simp_all add: new_attempt_def)
  qed (use assms Inr in \<open>auto simp: read_reply_def elim!: failed_attempt_Inr
         simp: failure_reported_def failure_types_def new_attempt_def\<close>)
qed

lemma plan_attempt_ok:
  assumes "plan_attempt en q w = (Inr a, w')"
  shows "attempt_ok en (pq_attempt q) a"
proof -
  obtain msgs where m: "plan_messages en q = Inr msgs" using assms by (cases "plan_messages en q") (auto simp: plan_attempt_def)
  obtain s w1 where s: "router_complete (pe_router en) msgs (pq_min_tier q) None True
      (bu_planner (budgets (pe_settings en))) w = (s, w1)" by (metis surj_pair)
  obtain k w2 where k: "pe_wait en (planner_timeout (pe_settings en) (pq_thinking q)) w1 = (k, w2)" by (metis surj_pair)
  show ?thesis
  proof (cases k)
    case InTime
    then obtain raw tokens where "collect s = Inr (raw, tokens)"
      using assms m s k by (cases "collect s") (auto simp: plan_attempt_def Let_def)
    with InTime assms m s k show ?thesis by (auto simp: plan_attempt_def Let_def elim: read_reply_ok)
  next
    case TooLate
    with assms m s k have "(return_failed en ((new_attempt (pq_attempt q) [] 0)
        \<lparr>a_error := Some (''Planner timed out after '' @ str_int (planner_timeout (pe_settings en) (pq_thinking q)) @ ''s''),
         a_error_type := Some ''timeout''\<rparr>) w2) = (Inr a, w')"
      by (simp add: plan_attempt_def Let_def)
    then show ?thesis
      by (rule failed_attempt_Inr) (simp_all add: failure_reported_def failure_types_def new_attempt_def)
  next
    case WaitCancelled
    with assms m s k show ?thesis by (simp add: plan_attempt_def Let_def)
  qed
qed

text \<open>
  An attempt the planner returns either carries a plan, and then it is one the validator has
  accepted and there is no error, or carries no plan, an error text and one of the six error types;
  it keeps the number of the attempt.
\<close>

theorem planner_attempt_well_formed:
  "case fst (plan_attempt en q w) of Inl e \<Rightarrow> True | Inr a \<Rightarrow> attempt_ok en (pq_attempt q) a"
  using plan_attempt_ok [of en q w] by (cases "plan_attempt en q w") (auto split: sum.split)

text \<open>
  The prompt of an attempt can always be built; its user message starts with the block marked
  for the provider's cache, which depends on the settings, the tools and the minimal tier only, so
  that every retry of a task, with whatever feedback, sends the same cached prefix.
\<close>

theorem retries_share_cached_prefix:
  "\<exists>pre m1 m2. plan_messages en q = Inr [m1, m2] \<and> cacheable_prefix en (pq_min_tier q) = Inr pre \<and>
     m_role m1 = ''system'' \<and> m_role m2 = ''user'' \<and> pre \<noteq> [] \<and> m_cache_prefix m2 = Some (int (length pre)) \<and>
     starts_with pre (m_content m2)"
proof -
  obtain digest where digest: "render_tool_capability_digest (pe_str en) (pe_repr en)
      (map schema_fields (all_schemas (pe_harness en))) = Inr digest"
    using digest_total by blast
  obtain pre where pre: "cacheable_prefix en (pq_min_tier q) = Inr pre" "pre \<noteq> []"
    unfolding cacheable_prefix_def Let_def digest and_then.simps by (simp add: limits_block_def)
  obtain best where "select_many (pe_cookbook en) (pq_request q) (all_names (pe_harness en)) 3 = Inr best"
    by (simp add: select_many_def)
  then obtain cb where cb: "cookbook_prompt (pe_cookbook en) (pq_request q) (all_names (pe_harness en)) 3 = Inr cb"
    by (simp add: cookbook_prompt_def)
  let ?rest = "cb @ newline @ newline @ ''User request: '' @ pq_request q @ retry_sections q"
    and ?m1 = "system_message (planner_system_prompt en (pq_thinking q))"
  let ?m2 = "(plain_message ''user'' (pre @ ?rest))\<lparr>m_cache_prefix := Some (int (length pre))\<rparr>"
  have m2: "cacheable_message ''user'' (pre @ ?rest) (Some (int (length pre))) = Inr ?m2"
    using pre(2) unfolding cacheable_message_def Let_def by (simp del: list.size)
  have "plan_messages en q = Inr [?m1, ?m2]"
    unfolding plan_messages_def cb pre(1) and_then.simps Let_def m2 cacheable_message_default ..
  moreover have "m_role ?m1 = ''system''" by (simp add: system_message_def plain_message_def)
  ultimately show ?thesis
    using pre by (intro exI [of _ pre] exI [of _ ?m1] exI [of _ ?m2])
      (simp only: starts_with_iff, auto simp: plain_message_def)
qed

end
