(* ===== verification/Orchestrator.thy ===== *)
theory Orchestrator
  imports PlannerModel Events
begin

text \<open>
  \<open>Orchestrator\<close> of \<open>executor/orchestrator.py\<close>: planning with retries, the confirmation gate, execution,
  and the persistence around them.  The planner is \<open>PlannerModel\<close>; the executor and the state store
  are functions of the environment.  What the orchestrator does is kept as a trace of effects, in
  order; logging and tracing are left out, and the store is taken not to raise.  A cancellation
  arrives while the planner or the executor is awaited.
\<close>

section \<open>Which requests look conditional\<close>

definition binary_question :: "rx_item list" where
  "binary_question =
     (let plain = (\<lambda>c. c \<notin> set ''.?!'')
      in [Boundary,
          Literals [''is'', ''are'', ''was'', ''were'', ''does'', ''do'', ''did'', ''will'', ''would'', ''should'',
                    ''has'', ''have'', ''can'', ''could''],
          Boundary, Class 0 (Some 80) plain, Class 1 None py_space, Literals [''or''], Class 1 None py_space,
          Class 1 (Some 40) plain, Literals [''?'']])"

definition comparison_markers :: "string list" where
  "comparison_markers = [''recommend'', ''compare'', '' vs '', '' vs.'', ''versus'', ''trade-off'', ''tradeoff'']"

definition optional_if_prefixes :: "string list" where
  "optional_if_prefixes =
     [''if present'', ''if available'', ''if any'', ''if applicable'', ''if found'', ''if included'', ''if known'',
      ''if mentioned'', ''if possible'', ''if provided'', ''if stated'']"

definition branch_verbs :: "string list" where
  "branch_verbs =
     [''calculate'', ''choose'', ''compute'', ''give'', ''read'', ''recommend'', ''report'', ''return'', ''say'',
      ''tell'', ''use'', ''write'']"

text \<open>The loop over the matches of \<open>\bif\b\<close>, each with the 120 characters from it on.\<close>

fun scan_ifs :: "string list \<Rightarrow> nat \<Rightarrow> bool" where
  "scan_ifs [] k = (2 \<le> k)"
| "scan_ifs (s # ss) k =
     (if list_ex (\<lambda>p. starts_with p s) optional_if_prefixes then scan_ifs ss k
      else if rx_search id [Boundary, Literals [''then''], Boundary] s \<or>
              rx_search id [Literals ['',''], Class 0 None py_space, Literals branch_verbs, Boundary] s
      then True else scan_ifs ss (Suc k))"

definition looks_conditional :: "string \<Rightarrow> bool" where
  "looks_conditional request \<longleftrightarrow>
     (let t = '' '' @ lower request @ '' ''
      in mentions ['' otherwise '', '' else '', '' whether ''] t \<or>
         (rx_search lower binary_question request \<and> \<not> mentions comparison_markers t) \<or>
         scan_ifs (map (take 120) (rx_find id [Boundary, Literals [''if''], Boundary] [] t)) 0)"

definition structural_feedback :: string where
  "structural_feedback =
     ''The request contains conditional if/otherwise or binary branch '' @
     ''logic, but the plan has no decision node. Re-plan with an explicit '' @
     ''decision node whose yes/no branches perform the conditional work.''"

definition structural_retry_feedback :: "string \<Rightarrow> plan \<Rightarrow> string option" where
  "structural_retry_feedback request p =
     (if looks_conditional request \<and> \<not> list_ex (\<lambda>n. n_type n = DECISION) (p_nodes p)
      then Some structural_feedback else None)"

section \<open>State and effects\<close>

datatype effect =
    Attempted plan_request
  | Stored exec_state
  | Emitted event_body
  | Executed exec_state

record 'w orch =
  oc_world :: 'w
  oc_trace :: "effect list"

text \<open>
  \<open>oe_execute\<close> is \<open>Executor.execute\<close>: the bodies of the events it publishes, the exception it raises,
  and the state, which it mutates also when it raises.
\<close>

record 'w orch_env =
  oe_settings :: settings
  oe_bus :: bool
  oe_planner :: "'w planner_env"
  oe_execute :: "exec_state \<Rightarrow> 'w \<Rightarrow> event_body list \<times> plan_exc option \<times> exec_state \<times> 'w"
  oe_load :: "string \<Rightarrow> 'w \<Rightarrow> exec_state option"
  oe_save :: "exec_state \<Rightarrow> 'w \<Rightarrow> 'w"
  oe_transition :: "string \<Rightarrow> task_status list \<Rightarrow> task_status \<Rightarrow> 'w \<Rightarrow> exec_state option \<times> 'w"

definition note_effect :: "effect \<Rightarrow> 'w orch \<Rightarrow> 'w orch" where
  "note_effect e oc = oc\<lparr>oc_trace := oc_trace oc @ [e]\<rparr>"

definition emit_event :: "'w orch_env \<Rightarrow> event_body \<Rightarrow> 'w orch \<Rightarrow> 'w orch" where
  "emit_event en b oc = (if oe_bus en then note_effect (Emitted b) oc else oc)"

definition save_task :: "'w orch_env \<Rightarrow> exec_state \<Rightarrow> 'w orch \<Rightarrow> 'w orch" where
  "save_task en st oc = note_effect (Stored st) (oc\<lparr>oc_world := oe_save en st (oc_world oc)\<rparr>)"

definition run_executor :: "'w orch_env \<Rightarrow> exec_state \<Rightarrow> 'w orch \<Rightarrow> plan_exc option \<times> exec_state \<times> 'w orch" where
  "run_executor en st oc =
     (case oe_execute en st (oc_world oc) of
        (evs, e, st', w') \<Rightarrow>
          (e, st', oc\<lparr>oc_world := w',
                    oc_trace := oc_trace oc @ Executed st # (if oe_bus en then map Emitted evs else [])\<rparr>))"

fun exc_message :: "plan_exc \<Rightarrow> string" where
  "exc_message PlanCancelled = []"
| "exc_message (PlanValueError t) = t"
| "exc_message (PlanError t) = t"

section \<open>Planning\<close>

text \<open>What one attempt hands to the next.\<close>

record retry_ctx =
  rt_prior :: "string option"
  rt_validation :: "string option"
  rt_rejection :: "string option"
  rt_error :: "string option"
  rt_error_type :: "string option"

definition no_retry :: retry_ctx where
  "no_retry = \<lparr>rt_prior = None, rt_validation = None, rt_rejection = None, rt_error = None, rt_error_type = None\<rparr>"

datatype plan_end = Planned plan | NoPlanFound | PlanningRaised plan_exc

text \<open>\<open>a or b\<close> for optional texts.\<close>

definition text_or :: "string option \<Rightarrow> string option \<Rightarrow> string option" where
  "text_or a b = (case a of Some t \<Rightarrow> if t = [] then b else a | None \<Rightarrow> b)"

definition planning_retry_context :: "planning_attempt \<Rightarrow> string option \<times> string option" where
  "planning_retry_context a =
     ((if a_error_type a = Some ''stall'' then text_or (a_error_detail a) (Some (a_raw_output a)) else None),
      (if a_error_type a = Some ''schema'' \<or> a_error_type a = Some ''validation'' then a_error a else None))"

definition attempts_allowed :: "settings \<Rightarrow> nat" where
  "attempts_allowed s = nat (max_replan_attempts s + 1)"

definition plan_request_of :: "'w orch_env \<Rightarrow> string option \<Rightarrow> nat \<Rightarrow> retry_ctx \<Rightarrow> exec_state \<Rightarrow> plan_request" where
  "plan_request_of en feedback n c st =
     \<lparr>pq_request = s_user_request st, pq_attempt = n, pq_min_tier = planner_min_tier (oe_settings en),
      pq_feedback = feedback, pq_prior_reasoning = rt_prior c, pq_validation_feedback = rt_validation c,
      pq_rejection_feedback = rt_rejection c, pq_thinking = (0 < n \<and> rt_error_type c \<noteq> Some ''timeout'')\<rparr>"

definition save_planning_attempt ::
  "'w orch_env \<Rightarrow> exec_state \<Rightarrow> planning_attempt \<Rightarrow> 'w orch \<Rightarrow> exec_state \<times> 'w orch"
where
  "save_planning_attempt en st a oc =
     (let st' = st\<lparr>s_planning_attempts := s_planning_attempts st @ [a]\<rparr> in (st', save_task en st' oc))"

text \<open>\<open>None\<close>: the rejection stands, because it is deliberate or because no attempt is left.\<close>

definition answerable_rejection :: "settings \<Rightarrow> nat \<Rightarrow> planning_attempt \<Rightarrow> string option" where
  "answerable_rejection s n a =
     (case rejection_retry_feedback (a_error a) of
        None \<Rightarrow> None
      | Some g \<Rightarrow> if attempts_allowed s - 1 \<le> n then None else Some g)"

definition str_none :: "string option \<Rightarrow> string" where
  "str_none x = (case x of None \<Rightarrow> ''None'' | Some t \<Rightarrow> t)"

definition planning_failed :: "settings \<Rightarrow> retry_ctx \<Rightarrow> exec_state \<Rightarrow> exec_state" where
  "planning_failed s c st =
     st\<lparr>s_status := TASK_FAILED,
        s_error := Some (''Planning failed after '' @ str_int (max_replan_attempts s + 1) @ '' attempts: '' @
                         str_none (rt_error c))\<rparr>"

text \<open>
  One iteration of the loop over the attempts: it ends the planning, or goes on with a new context.
\<close>

datatype ('a, 'b) loop = Stop 'a | Continue 'b

definition plan_once ::
  "'w orch_env \<Rightarrow> string option \<Rightarrow> nat \<Rightarrow> retry_ctx \<Rightarrow> exec_state \<Rightarrow> 'w orch
     \<Rightarrow> (plan_end, retry_ctx) loop \<times> exec_state \<times> 'w orch"
where
  "plan_once en feedback n c st oc =
     (let q = plan_request_of en feedback n c st
      in case plan_attempt (oe_planner en) q (oc_world oc) of (r, w') \<Rightarrow>
        (let oc1 = note_effect (Attempted q) (oc\<lparr>oc_world := w'\<rparr>)
         in case r of
              Inl (PlanValueError t) \<Rightarrow>
                (Continue (c\<lparr>rt_prior := None, rt_validation := Some t, rt_error := Some t,
                             rt_error_type := Some ''validation''\<rparr>), st, oc1)
            | Inl e \<Rightarrow> (Stop (PlanningRaised e), st, oc1)
            | Inr a \<Rightarrow>
                (let st1 = st\<lparr>s_replan_count := n\<rparr>
                 in case a_plan a of
                      Some p \<Rightarrow>
                        (case structural_retry_feedback (s_user_request st) p of
                           Some t \<Rightarrow>
                             if n < attempts_allowed (oe_settings en) - 1 then
                               (case save_planning_attempt en st1
                                       (a\<lparr>a_plan := None, a_error := Some t, a_error_type := Some ''validation''\<rparr>) oc1 of
                                  (st2, oc2) \<Rightarrow>
                                    (Continue (c\<lparr>rt_prior := None, rt_validation := Some t, rt_error := Some t,
                                                 rt_error_type := Some ''validation''\<rparr>), st2, oc2))
                             else (case save_planning_attempt en st1 a oc1 of
                                     (st2, oc2) \<Rightarrow> (Stop (Planned p), st2, oc2))
                         | None \<Rightarrow>
                             (case save_planning_attempt en st1 a oc1 of
                                (st2, oc2) \<Rightarrow> (Stop (Planned p), st2, oc2)))
                    | None \<Rightarrow>
                        (case save_planning_attempt en st1 a oc1 of
                           (st2, oc2) \<Rightarrow>
                             if a_error_type a = Some ''rejection'' then
                               (case answerable_rejection (oe_settings en) n a of
                                  Some g \<Rightarrow>
                                    (Continue \<lparr>rt_prior = None, rt_validation = None, rt_rejection = Some g,
                                               rt_error = a_error a, rt_error_type = Some ''rejection''\<rparr>, st2, oc2)
                                | None \<Rightarrow>
                                    (Stop NoPlanFound, st2\<lparr>s_status := REJECTED, s_error := a_error a\<rparr>, oc2))
                             else
                               (case planning_retry_context a of
                                  (prior, validation) \<Rightarrow>
                                    (Continue \<lparr>rt_prior = prior, rt_validation = validation, rt_rejection = None,
                                               rt_error = a_error a, rt_error_type = a_error_type a\<rparr>, st2, oc2))))))"

fun plan_loop ::
  "'w orch_env \<Rightarrow> string option \<Rightarrow> nat list \<Rightarrow> retry_ctx \<Rightarrow> exec_state \<Rightarrow> 'w orch
     \<Rightarrow> plan_end \<times> exec_state \<times> 'w orch"
where
  "plan_loop en feedback [] c st oc = (NoPlanFound, planning_failed (oe_settings en) c st, oc)"
| "plan_loop en feedback (n # ns) c st oc =
     (case plan_once en feedback n c st oc of
        (Stop r, st', oc') \<Rightarrow> (r, st', oc')
      | (Continue c', st', oc') \<Rightarrow> plan_loop en feedback ns c' st' oc')"

definition plan_with_retry ::
  "'w orch_env \<Rightarrow> string option \<Rightarrow> exec_state \<Rightarrow> 'w orch \<Rightarrow> plan_end \<times> exec_state \<times> 'w orch"
where
  "plan_with_retry en feedback st oc =
     plan_loop en feedback [0 ..< attempts_allowed (oe_settings en)] no_retry (st\<lparr>s_status := PLANNING\<rparr>) oc"

section \<open>The gate, execution, and how a task ends\<close>

definition present_or_execute :: "'w orch_env \<Rightarrow> exec_state \<Rightarrow> 'w orch \<Rightarrow> plan_exc option \<times> exec_state \<times> 'w orch" where
  "present_or_execute en st oc =
     (case s_plan st of
        None \<Rightarrow> (Some (PlanError []), st, oc)
      | Some p \<Rightarrow>
          (let k = length (p_nodes p);
               oc1 = emit_event en (PlanReady k (Some p)) oc
           in if confirm_plans (oe_settings en)
              then let st' = st\<lparr>s_status := AWAITING_CONFIRMATION\<rparr>
                   in (None, st', emit_event en (AwaitingConfirmation k) (save_task en st' oc1))
              else run_executor en st oc1))"

definition error_or :: "exec_state \<Rightarrow> string \<Rightarrow> string" where
  "error_or st d = the (text_or (s_error st) (Some d))"

definition last_filepath :: "planning_attempt list \<Rightarrow> string option" where
  "last_filepath as =
     (case find (\<lambda>a. a_filepath a \<noteq> None \<and> a_filepath a \<noteq> Some []) (rev as) of
        None \<Rightarrow> None | Some a \<Rightarrow> a_filepath a)"

definition emit_plan_terminal :: "'w orch_env \<Rightarrow> exec_state \<Rightarrow> 'w orch \<Rightarrow> 'w orch" where
  "emit_plan_terminal en st oc =
     (if s_status st = REJECTED then emit_event en (PlanRejected (error_or st ''rejected'')) oc
      else emit_event en (PlanFailed (error_or st ''planning failed'') (s_planning_attempts st)
                            (last_filepath (s_planning_attempts st))) oc)"

definition mark_cancelled :: "exec_state \<Rightarrow> exec_state" where
  "mark_cancelled st =
     st\<lparr>s_status := CANCELLED, s_error := (if s_error st = None then Some ''cancelled'' else s_error st)\<rparr>"

text \<open>
  How a call ends: with the state it last saved, the same with the cancellation raised again, or
  without having done anything.
\<close>

datatype orch_end = TaskEnded exec_state | TaskEndedCancelled exec_state | TaskNotFound | NotAllowed | AssertionFailed

text \<open>The \<open>except\<close> clauses and the \<open>finally\<close>; \<open>report\<close> says which attempts \<open>TaskFailed\<close> carries.\<close>

definition close_task ::
  "'w orch_env \<Rightarrow> (exec_state \<Rightarrow> planning_attempt list) \<Rightarrow> plan_exc option \<times> exec_state \<times> 'w orch \<Rightarrow> orch_end \<times> 'w orch"
where
  "close_task en report r =
     (case r of
        (None, st, oc) \<Rightarrow> (TaskEnded st, save_task en st oc)
      | (Some PlanCancelled, st, oc) \<Rightarrow>
          (let st' = mark_cancelled st
           in (TaskEndedCancelled st', save_task en st' (emit_event en TaskCancelled oc)))
      | (Some e, st, oc) \<Rightarrow>
          (let st' = st\<lparr>s_status := TASK_FAILED, s_error := Some (exc_message e)\<rparr>
           in (TaskEnded st', save_task en st' (emit_event en (TaskFailed (exc_message e) (report st')) oc))))"

text \<open>What \<open>run\<close> and \<open>revise\<close> share from \<open>PlanningStarted\<close> on.\<close>

definition plan_and_go ::
  "'w orch_env \<Rightarrow> (exec_state \<Rightarrow> planning_attempt list) \<Rightarrow> string option \<Rightarrow> exec_state \<Rightarrow> 'w orch \<Rightarrow> orch_end \<times> 'w orch"
where
  "plan_and_go en report feedback st oc =
     (case plan_with_retry en feedback st (emit_event en PlanningStarted oc) of
        (PlanningRaised e, st1, oc1) \<Rightarrow> close_task en report (Some e, st1, oc1)
      | (NoPlanFound, st1, oc1) \<Rightarrow>
          close_task en report (None, st1, save_task en st1 (emit_plan_terminal en st1 oc1))
      | (Planned p, st1, oc1) \<Rightarrow>
          close_task en report (present_or_execute en (st1\<lparr>s_plan := Some p\<rparr>) oc1))"

definition run_task :: "'w orch_env \<Rightarrow> string \<Rightarrow> 'w orch \<Rightarrow> orch_end \<times> 'w orch" where
  "run_task en tid oc =
     (case oe_load en tid (oc_world oc) of
        None \<Rightarrow> (TaskNotFound, oc)
      | Some st \<Rightarrow> plan_and_go en s_planning_attempts None st oc)"

definition revise_task :: "'w orch_env \<Rightarrow> string \<Rightarrow> string \<Rightarrow> 'w orch \<Rightarrow> orch_end \<times> 'w orch" where
  "revise_task en tid feedback oc =
     (case oe_load en tid (oc_world oc) of
        None \<Rightarrow> (TaskNotFound, oc)
      | Some st \<Rightarrow>
          if s_status st \<noteq> AWAITING_CONFIRMATION \<and> s_status st \<noteq> PAUSED then (NotAllowed, oc)
          else plan_and_go en (\<lambda>_. []) (Some feedback) st oc)"

definition resume_task :: "'w orch_env \<Rightarrow> string \<Rightarrow> 'w orch \<Rightarrow> orch_end \<times> 'w orch" where
  "resume_task en tid oc =
     (case oe_transition en tid [AWAITING_CONFIRMATION, PAUSED, RESUMING] EXECUTING (oc_world oc) of
        (None, w') \<Rightarrow>
          (let oc1 = oc\<lparr>oc_world := w'\<rparr>
           in case oe_load en tid w' of None \<Rightarrow> (TaskNotFound, oc1) | Some _ \<Rightarrow> (NotAllowed, oc1))
      | (Some st, w') \<Rightarrow> close_task en s_planning_attempts (run_executor en st (oc\<lparr>oc_world := w'\<rparr>)))"

text \<open>\<open>execute_plan\<close> has no clause for a cancellation: it saves the state as it is and passes it on.\<close>

definition execute_plan :: "'w orch_env \<Rightarrow> exec_state \<Rightarrow> 'w orch \<Rightarrow> orch_end \<times> 'w orch" where
  "execute_plan en st oc =
     (if s_plan st = None then (AssertionFailed, oc)
      else case run_executor en st oc of
        (None, st', oc') \<Rightarrow> (TaskEnded st', save_task en st' oc')
      | (Some PlanCancelled, st', oc') \<Rightarrow> (TaskEndedCancelled st', save_task en st' oc')
      | (Some e, st', oc') \<Rightarrow>
          (let st'' = st'\<lparr>s_status := TASK_FAILED, s_error := Some (exc_message e)\<rparr>
           in (TaskEnded st'', save_task en st'' oc')))"

section \<open>What planning does\<close>

text \<open>The attempts of a trace, and the effects planning has.\<close>

definition attempted :: "effect list \<Rightarrow> plan_request list" where
  "attempted tr = concat (map (\<lambda>e. case e of Attempted q \<Rightarrow> [q] | _ \<Rightarrow> []) tr)"

definition published :: "effect list \<Rightarrow> event_body list" where
  "published tr = concat (map (\<lambda>e. case e of Emitted b \<Rightarrow> [b] | _ \<Rightarrow> []) tr)"

definition executed :: "effect list \<Rightarrow> exec_state list" where
  "executed tr = concat (map (\<lambda>e. case e of Executed st \<Rightarrow> [st] | _ \<Rightarrow> []) tr)"

lemma trace_simps [simp]:
  "attempted [] = []" "published [] = []" "executed [] = []"
  "attempted (e # tr) = (case e of Attempted q \<Rightarrow> [q] | _ \<Rightarrow> []) @ attempted tr"
  "published (e # tr) = (case e of Emitted b \<Rightarrow> [b] | _ \<Rightarrow> []) @ published tr"
  "executed (e # tr) = (case e of Executed st \<Rightarrow> [st] | _ \<Rightarrow> []) @ executed tr"
  "attempted (tr @ tr') = attempted tr @ attempted tr'"
  "published (tr @ tr') = published tr @ published tr'"
  "executed (tr @ tr') = executed tr @ executed tr'"
  by (simp_all add: attempted_def published_def executed_def)

lemma stored_only [simp]:
  "attempted (map Stored xs) = []" "published (map Stored xs) = []" "executed (map Stored xs) = []"
  "attempted (map Emitted bs) = []" "published (map Emitted bs) = bs" "executed (map Emitted bs) = []"
  by (induction xs, simp_all) (induction bs, simp_all)+

lemma effects_trace [simp]:
  "oc_trace (note_effect e oc) = oc_trace oc @ [e]"
  "oc_trace (save_task en st oc) = oc_trace oc @ [Stored st]"
  "oc_trace (emit_event en b oc) = oc_trace oc @ (if oe_bus en then [Emitted b] else [])"
  by (simp_all add: note_effect_def save_task_def emit_event_def)

text \<open>The fields planning never changes.\<close>

definition same_task_plan :: "exec_state \<Rightarrow> exec_state \<Rightarrow> bool" where
  "same_task_plan st st' \<longleftrightarrow>
     s_task_id st' = s_task_id st \<and> s_user_request st' = s_user_request st \<and> s_plan st' = s_plan st"

lemma same_task_plan_trans: "same_task_plan a b \<Longrightarrow> same_task_plan b c \<Longrightarrow> same_task_plan a c"
  by (simp add: same_task_plan_def)

definition accepted :: "'w orch_env \<Rightarrow> plan \<Rightarrow> bool" where
  "accepted en p \<longleftrightarrow> (\<exists>p0. validate (pe_harness (oe_planner en)) (pe_settings (oe_planner en)) p0 = Inr p)"

text \<open>What one attempt leaves behind.\<close>

definition attempt_effect ::
  "'w orch_env \<Rightarrow> exec_state \<Rightarrow> (plan_end, retry_ctx) loop \<Rightarrow> exec_state \<Rightarrow> bool"
where
  "attempt_effect en st r st' \<longleftrightarrow> same_task_plan st st' \<and>
     (case r of
        Stop (Planned p) \<Rightarrow> accepted en p \<and> s_status st' = s_status st
      | Stop NoPlanFound \<Rightarrow> s_status st' = REJECTED
      | Stop (PlanningRaised e) \<Rightarrow> st' = st \<and> (\<forall>t. e \<noteq> PlanValueError t)
      | Continue c \<Rightarrow> s_status st' = s_status st)"

lemma save_attempt_eq:
  "save_planning_attempt en st a oc =
     (st\<lparr>s_planning_attempts := s_planning_attempts st @ [a]\<rparr>,
      save_task en (st\<lparr>s_planning_attempts := s_planning_attempts st @ [a]\<rparr>) oc)"
  by (simp add: save_planning_attempt_def Let_def)

lemma plan_once_spec:
  assumes "plan_once en feedback n c st oc = (r, st', oc')"
  shows "\<exists>xs. oc_trace oc' = oc_trace oc @ Attempted (plan_request_of en feedback n c st) # map Stored xs \<and>
    attempt_effect en st r st'"
proof -
  let ?q = "plan_request_of en feedback n c st"
  obtain a w' where a: "plan_attempt (oe_planner en) ?q (oc_world oc) = (a, w')" by (metis surj_pair)
  show ?thesis
  proof (cases a)
    case (Inl e)
    with assms a show ?thesis
      by (intro exI [of _ "[]"])
        (cases e; auto simp: plan_once_def Let_def attempt_effect_def same_task_plan_def)
  next
    case (Inr b)
    have ok: "attempt_ok (oe_planner en) n b"
      using plan_attempt_ok [of "oe_planner en" ?q "oc_world oc" b w'] a Inr by (simp add: plan_request_of_def)
    show ?thesis
    proof (cases "a_plan b")
      case (Some p)
      then have "accepted en p"
        using ok by (auto simp: attempt_ok_def planned_def failure_reported_def accepted_def)
      with assms a Inr Some show ?thesis
        by (auto simp: plan_once_def Let_def save_attempt_eq attempt_effect_def same_task_plan_def
              split: option.splits if_splits intro!: exI [of _ "[_]"])
    next
      case None
      with assms a Inr show ?thesis
        by (auto simp: plan_once_def Let_def save_attempt_eq attempt_effect_def same_task_plan_def
              split: option.splits if_splits prod.splits intro!: exI [of _ "[_]"])
    qed
  qed
qed

text \<open>The whole loop.\<close>

definition planning_effect :: "'w orch_env \<Rightarrow> exec_state \<Rightarrow> plan_end \<Rightarrow> exec_state \<Rightarrow> bool" where
  "planning_effect en st r st' \<longleftrightarrow> same_task_plan st st' \<and>
     (case r of
        Planned p \<Rightarrow> accepted en p
      | NoPlanFound \<Rightarrow> s_status st' = REJECTED \<or> s_status st' = TASK_FAILED
      | PlanningRaised e \<Rightarrow> (\<forall>t. e \<noteq> PlanValueError t))"

lemma plan_loop_spec:
  "plan_loop en feedback ns c st oc = (r, st', oc') \<Longrightarrow>
     \<exists>tr k. oc_trace oc' = oc_trace oc @ tr \<and> k \<le> length ns \<and> map pq_attempt (attempted tr) = take k ns \<and>
       published tr = [] \<and> executed tr = [] \<and> planning_effect en st r st'"
proof (induction en feedback ns c st oc rule: plan_loop.induct)
  case (1 en feedback c st oc)
  then show ?case
    by (intro exI [of _ "[]"]) (auto simp: planning_effect_def planning_failed_def same_task_plan_def)
next
  case (2 en feedback n ns c st oc)
  obtain x st1 oc1 where once: "plan_once en feedback n c st oc = (x, st1, oc1)" by (metis prod_cases3)
  obtain xs where xs: "oc_trace oc1 = oc_trace oc @ Attempted (plan_request_of en feedback n c st) # map Stored xs"
    "attempt_effect en st x st1" using plan_once_spec [OF once] by blast
  show ?case
  proof (cases x)
    case (Stop y)
    then have "r = y" "st' = st1" "oc' = oc1" using 2(2) once by simp_all
    moreover have "planning_effect en st y st1"
      using xs(2) Stop by (cases y) (auto simp: attempt_effect_def planning_effect_def)
    ultimately show ?thesis
      using xs(1)
      by (intro exI [of _ "Attempted (plan_request_of en feedback n c st) # map Stored xs"] exI [of _ 1])
        (simp add: plan_request_of_def)
  next
    case (Continue c')
    with 2(2) once have rest: "plan_loop en feedback ns c' st1 oc1 = (r, st', oc')" by simp
    obtain tr k where tr: "oc_trace oc' = oc_trace oc1 @ tr" "k \<le> length ns" "map pq_attempt (attempted tr) = take k ns"
      "published tr = []" "executed tr = []" "planning_effect en st1 r st'"
      using 2(1) [OF once [symmetric] Continue refl rest] by blast
    have "planning_effect en st r st'"
      using tr(6) xs(2) Continue same_task_plan_trans [of st st1 st']
      by (auto simp: planning_effect_def attempt_effect_def)
    with tr xs(1) show ?thesis
      by (intro exI [of _ "Attempted (plan_request_of en feedback n c st) # map Stored xs @ tr"] exI [of _ "Suc k"])
        (simp add: plan_request_of_def)
  qed
qed

lemma plan_with_retry_spec:
  assumes "plan_with_retry en feedback st oc = (r, st', oc')"
  shows "\<exists>tr k. oc_trace oc' = oc_trace oc @ tr \<and> k \<le> attempts_allowed (oe_settings en) \<and>
    map pq_attempt (attempted tr) = [0 ..< k] \<and> published tr = [] \<and> executed tr = [] \<and> planning_effect en st r st'"
proof -
  obtain tr k where "oc_trace oc' = oc_trace oc @ tr" "k \<le> attempts_allowed (oe_settings en)"
    "map pq_attempt (attempted tr) = take k [0 ..< attempts_allowed (oe_settings en)]" "published tr = []" "executed tr = []"
    "planning_effect en (st\<lparr>s_status := PLANNING\<rparr>) r st'"
    using plan_loop_spec [OF assms [unfolded plan_with_retry_def]] by auto
  then show ?thesis by (auto simp: planning_effect_def same_task_plan_def take_upt intro!: exI [of _ tr] exI [of _ k])
qed

section \<open>The executor as the orchestrator sees it\<close>

text \<open>
  A run that returns has completed the task and published this as its only terminal event; a run
  that raises has published none.
\<close>

locale task_executor =
  fixes execute :: "exec_state \<Rightarrow> 'w \<Rightarrow> event_body list \<times> plan_exc option \<times> exec_state \<times> 'w"
  assumes returns: "execute st w = (evs, None, st', w') \<Longrightarrow>
      s_status st' = TASK_COMPLETED \<and> filter is_terminal_body evs = [TaskCompleted (s_final_output st')]"
    and raises: "execute st w = (evs, Some e, st', w') \<Longrightarrow> filter is_terminal_body evs = []"
    and same_task: "execute st w = (evs, x, st', w') \<Longrightarrow> same_task_plan st st'"

text \<open>The event that tells how a task has ended.\<close>

definition tells :: "exec_state \<Rightarrow> event_body \<Rightarrow> bool" where
  "tells st b \<longleftrightarrow>
     (case b of
        AwaitingConfirmation k \<Rightarrow> s_status st = AWAITING_CONFIRMATION
      | TaskCompleted out \<Rightarrow> s_status st = TASK_COMPLETED \<and> out = s_final_output st
      | TaskFailed e as \<Rightarrow> s_status st = TASK_FAILED \<and> s_error st = Some e
      | PlanFailed e as fp \<Rightarrow>
          s_status st = TASK_FAILED \<and> e = error_or st ''planning failed'' \<and> as = s_planning_attempts st
      | PlanRejected e \<Rightarrow> s_status st = REJECTED \<and> e = error_or st ''rejected''
      | TaskCancelled \<Rightarrow> s_status st = CANCELLED
      | _ \<Rightarrow> False)"

text \<open>
  The state a call ended with is the last thing it saved, and exactly one terminal event was
  published, which tells that state.
\<close>

definition told_once :: "exec_state \<Rightarrow> effect list \<Rightarrow> bool" where
  "told_once st tr \<longleftrightarrow>
     (\<exists>b. filter is_terminal_body (published tr) = [b] \<and> tells st b) \<and> (\<exists>tr'. tr = tr' @ [Stored st])"

definition told :: "orch_end \<Rightarrow> effect list \<Rightarrow> bool" where
  "told r tr \<longleftrightarrow>
     (case r of
        TaskEnded st \<Rightarrow> told_once st tr
      | TaskEndedCancelled st \<Rightarrow> told_once st tr \<and> s_status st = CANCELLED
      | _ \<Rightarrow> tr = [])"

text \<open>
  The clauses after the \<open>try\<close>: an exception is told by its own event, a normal end must have been
  told before.
\<close>

lemma close_told:
  assumes "close_task en report (x, st, oc) = (r, oc')" and "oe_bus en" and "oc_trace oc = pre @ tr"
    and "x \<noteq> None \<Longrightarrow> filter is_terminal_body (published tr) = []"
    and "x = None \<Longrightarrow> \<exists>b. filter is_terminal_body (published tr) = [b] \<and> tells st b"
  shows "\<exists>tr'. oc_trace oc' = pre @ tr @ tr' \<and> told r (tr @ tr') \<and> attempted tr' = [] \<and> executed tr' = []"
proof (cases x)
  case None
  then have "r = TaskEnded st" "oc_trace oc' = pre @ tr @ [Stored st]" using assms(1,3) by (auto simp: close_task_def)
  with None assms(5) show ?thesis by (intro exI [of _ "[Stored st]"]) (simp add: told_def told_once_def)
next
  case (Some e)
  show ?thesis
  proof (cases "e = PlanCancelled")
    case True
    let ?st = "mark_cancelled st"
    have "r = TaskEndedCancelled ?st" "oc_trace oc' = pre @ tr @ [Emitted TaskCancelled, Stored ?st]"
      using assms(1-3) Some True by (auto simp: close_task_def Let_def)
    with Some assms(4) show ?thesis
      by (intro exI [of _ "[Emitted TaskCancelled, Stored ?st]"])
        (auto simp: told_def told_once_def tells_def mark_cancelled_def)
  next
    case False
    let ?st = "st\<lparr>s_status := TASK_FAILED, s_error := Some (exc_message e)\<rparr>"
      and ?b = "TaskFailed (exc_message e) (report (st\<lparr>s_status := TASK_FAILED, s_error := Some (exc_message e)\<rparr>))"
    have "r = TaskEnded ?st" "oc_trace oc' = pre @ tr @ [Emitted ?b, Stored ?st]"
      using assms(1-3) Some False by (cases e; auto simp: close_task_def Let_def)+
    with Some assms(4) show ?thesis
      by (intro exI [of _ "[Emitted ?b, Stored ?st]"]) (auto simp: told_def told_once_def tells_def)
  qed
qed

context task_executor
begin

lemma run_executor_told:
  assumes "run_executor en st oc = (x, st', oc')" and "oe_execute en = execute" and "oe_bus en"
  shows "\<exists>tr. oc_trace oc' = oc_trace oc @ tr \<and> attempted tr = [] \<and> executed tr = [st] \<and>
    (case x of None \<Rightarrow> \<exists>b. filter is_terminal_body (published tr) = [b] \<and> tells st' b
             | Some e \<Rightarrow> filter is_terminal_body (published tr) = [])"
proof -
  obtain evs w' where e: "execute st (oc_world oc) = (evs, x, st', w')"
    "oc_trace oc' = oc_trace oc @ Executed st # map Emitted evs"
    using assms by (auto simp: run_executor_def split: prod.splits)
  with returns raises show ?thesis
    by (intro exI [of _ "Executed st # map Emitted evs"]) (auto simp: tells_def split: option.splits)
qed

lemma closed_run_told:
  assumes "close_task en report (run_executor en st oc) = (r, oc')" and "oe_execute en = execute" and "oe_bus en"
    and "oc_trace oc = pre @ tr" and "filter is_terminal_body (published tr) = []"
  shows "\<exists>tr'. oc_trace oc' = pre @ tr @ tr' \<and> told r (tr @ tr') \<and> attempted tr' = [] \<and> executed tr' = [st]"
proof -
  obtain x st' oc1 where x: "run_executor en st oc = (x, st', oc1)" by (metis prod_cases3)
  obtain tr1 where tr1: "oc_trace oc1 = pre @ tr @ tr1" "attempted tr1 = []" "executed tr1 = [st]"
    "case x of None \<Rightarrow> \<exists>b. filter is_terminal_body (published tr1) = [b] \<and> tells st' b
             | Some e \<Rightarrow> filter is_terminal_body (published tr1) = []"
    using run_executor_told [OF x assms(2,3)] assms(4) by auto
  have "\<exists>tr'. oc_trace oc' = pre @ (tr @ tr1) @ tr' \<and> told r ((tr @ tr1) @ tr') \<and> attempted tr' = [] \<and> executed tr' = []"
    using assms(1) unfolding x
    by (rule close_told [where pre = pre]) (use assms(3,5) tr1 in \<open>auto split: option.splits\<close>)
  then obtain tr2 where "oc_trace oc' = pre @ tr @ tr1 @ tr2" "told r (tr @ tr1 @ tr2)" "attempted tr2 = []" "executed tr2 = []"
    by auto
  with tr1 show ?thesis by (intro exI [of _ "tr1 @ tr2"]) simp
qed

lemma presented_told:
  assumes "close_task en report (present_or_execute en st oc) = (r, oc')" and "oe_execute en = execute" and "oe_bus en"
    and plan: "s_plan st = Some p" and "oc_trace oc = pre @ tr" and "filter is_terminal_body (published tr) = []"
  shows "\<exists>tr'. oc_trace oc' = pre @ tr @ tr' \<and> told r (tr @ tr') \<and> attempted tr' = [] \<and>
    executed tr' = (if confirm_plans (oe_settings en) then [] else [st])"
proof -
  let ?k = "length (p_nodes p)"
  let ?ready = "tr @ [Emitted (PlanReady ?k (Some p))]"
  have quiet: "filter is_terminal_body (published ?ready) = []" using assms(6) by simp
  show ?thesis
  proof (cases "confirm_plans (oe_settings en)")
    case True
    let ?st = "st\<lparr>s_status := AWAITING_CONFIRMATION\<rparr>"
    let ?tr = "?ready @ [Stored ?st, Emitted (AwaitingConfirmation ?k)]"
    obtain oc1 where oc1: "present_or_execute en st oc = (None, ?st, oc1)" "oc_trace oc1 = pre @ ?tr"
      using True plan assms(3,5) by (simp add: present_or_execute_def Let_def)
    have "\<exists>tr'. oc_trace oc' = pre @ ?tr @ tr' \<and> told r (?tr @ tr') \<and> attempted tr' = [] \<and> executed tr' = []"
      using assms(1) unfolding oc1(1)
      by (rule close_told [where pre = pre]) (use assms(3,6) oc1 in \<open>auto simp: tells_def\<close>)
    with True show ?thesis by fastforce
  next
    case False
    let ?oc = "emit_event en (PlanReady ?k (Some p)) oc"
    have "present_or_execute en st oc = run_executor en st ?oc"
      using False plan by (simp add: present_or_execute_def Let_def)
    then have "close_task en report (run_executor en st ?oc) = (r, oc')" using assms(1) by simp
    then have "\<exists>tr'. oc_trace oc' = pre @ ?ready @ tr' \<and> told r (?ready @ tr') \<and> attempted tr' = [] \<and> executed tr' = [st]"
      by (rule closed_run_told [OF _ assms(2,3) _ quiet]) (simp add: assms(3,5))
    with False show ?thesis by fastforce
  qed
qed

text \<open>From the start of planning to the end of the call.\<close>

lemma plan_and_go_told:
  assumes "plan_and_go en report feedback st oc = (r, oc')" and "oe_execute en = execute" and "oe_bus en"
    and "oc_trace oc = []"
  shows "told r (oc_trace oc')"
proof -
  let ?oc = "emit_event en PlanningStarted oc"
  obtain x st1 oc1 where x: "plan_with_retry en feedback st ?oc = (x, st1, oc1)" by (metis prod_cases3)
  obtain tr where tr: "oc_trace oc1 = Emitted PlanningStarted # tr" "published tr = []" "planning_effect en st x st1"
    using plan_with_retry_spec [OF x] assms(3,4) by auto
  let ?tr = "Emitted PlanningStarted # tr"
  have quiet: "filter is_terminal_body (published ?tr) = []" using tr(2) by simp
  show ?thesis
  proof (cases x)
    case (Planned p)
    then have "close_task en report (present_or_execute en (st1\<lparr>s_plan := Some p\<rparr>) oc1) = (r, oc')"
      using assms(1) x by (simp add: plan_and_go_def)
    from presented_told [OF this assms(2,3), of p "[]" ?tr] tr(1) quiet show ?thesis by auto
  next
    case NoPlanFound
    let ?b = "if s_status st1 = REJECTED then PlanRejected (error_or st1 ''rejected'')
      else PlanFailed (error_or st1 ''planning failed'') (s_planning_attempts st1) (last_filepath (s_planning_attempts st1))"
    let ?oc1 = "save_task en st1 (emit_plan_terminal en st1 oc1)"
    have close: "close_task en report (None, st1, ?oc1) = (r, oc')"
      using assms(1) x NoPlanFound by (simp add: plan_and_go_def)
    have trace: "oc_trace ?oc1 = [] @ ?tr @ [Emitted ?b, Stored st1]"
      using tr(1) assms(3) by (simp add: emit_plan_terminal_def)
    have "filter is_terminal_body (published (?tr @ [Emitted ?b, Stored st1])) = [?b] \<and> tells st1 ?b"
      using tr(2,3) NoPlanFound by (auto simp: tells_def planning_effect_def)
    with close_told [OF close assms(3) trace] show ?thesis by auto
  next
    case (PlanningRaised e)
    then have "close_task en report (Some e, st1, oc1) = (r, oc')" using assms(1) x by (simp add: plan_and_go_def)
    from close_told [OF this assms(3), of "[]" ?tr] tr(1) quiet show ?thesis by auto
  qed
qed

lemma resume_told:
  assumes "resume_task en tid oc = (r, oc')" and "oe_execute en = execute" and "oe_bus en" and "oc_trace oc = []"
  shows "told r (oc_trace oc')"
proof -
  obtain x w' where x: "oe_transition en tid [AWAITING_CONFIRMATION, PAUSED, RESUMING] EXECUTING (oc_world oc) = (x, w')"
    by (metis surj_pair)
  show ?thesis
  proof (cases x)
    case None
    with assms(1,4) x show ?thesis by (auto simp: resume_task_def Let_def told_def split: option.splits)
  next
    case (Some st)
    then have "close_task en s_planning_attempts (run_executor en st (oc\<lparr>oc_world := w'\<rparr>)) = (r, oc')"
      using assms(1) x by (simp add: resume_task_def)
    from closed_run_told [OF this assms(2,3), of "[]" "[]"] assms(4) show ?thesis by auto
  qed
qed

end

text \<open>Whether and on what the executor is run, whatever it does.\<close>

lemma close_executed:
  "close_task en report (x, st, oc) = (r, oc') \<Longrightarrow> executed (oc_trace oc') = executed (oc_trace oc) \<and>
     attempted (oc_trace oc') = attempted (oc_trace oc)"
  by (auto simp: close_task_def Let_def split: option.splits plan_exc.splits)

lemma plan_and_go_executed:
  assumes "plan_and_go en report feedback st oc = (r, oc')" and "oc_trace oc = []"
  shows "(executed (oc_trace oc') = [] \<or> (\<exists>st' p. executed (oc_trace oc') = [st'] \<and> s_plan st' = Some p \<and>
       accepted en p \<and> \<not> confirm_plans (oe_settings en) \<and> s_task_id st' = s_task_id st)) \<and>
    (\<exists>k \<le> attempts_allowed (oe_settings en). map pq_attempt (attempted (oc_trace oc')) = [0 ..< k])"
proof -
  let ?oc = "emit_event en PlanningStarted oc"
  obtain x st1 oc1 where x: "plan_with_retry en feedback st ?oc = (x, st1, oc1)" by (metis prod_cases3)
  obtain tr k where "oc_trace oc1 = oc_trace ?oc @ tr" and k: "k \<le> attempts_allowed (oe_settings en)"
    "map pq_attempt (attempted tr) = [0 ..< k]" "executed tr = []" "planning_effect en st x st1"
    using plan_with_retry_spec [OF x] by blast
  then have t1: "executed (oc_trace oc1) = []" "map pq_attempt (attempted (oc_trace oc1)) = [0 ..< k]"
    using assms(2) by auto
  show ?thesis
  proof (cases x)
    case (Planned p)
    let ?st = "st1\<lparr>s_plan := Some p\<rparr>"
    obtain y st2 oc2 where y: "present_or_execute en ?st oc1 = (y, st2, oc2)" by (metis prod_cases3)
    then have "close_task en report (y, st2, oc2) = (r, oc')" using assms(1) x Planned by (simp add: plan_and_go_def)
    note close = close_executed [OF this]
    have "attempted (oc_trace oc2) = attempted (oc_trace oc1)" and
      "executed (oc_trace oc2) = (if confirm_plans (oe_settings en) then [] else [?st])"
      using y t1(1) by (auto simp: present_or_execute_def run_executor_def Let_def split: if_splits prod.splits)
    with close t1 k Planned show ?thesis
      by (auto simp: planning_effect_def same_task_plan_def)
  next
    case NoPlanFound
    then have "close_task en report (None, st1, save_task en st1 (emit_plan_terminal en st1 oc1)) = (r, oc')"
      using assms(1) x by (simp add: plan_and_go_def)
    from close_executed [OF this] t1 k show ?thesis by (auto simp: emit_plan_terminal_def)
  next
    case (PlanningRaised e)
    then have "close_task en report (Some e, st1, oc1) = (r, oc')" using assms(1) x by (simp add: plan_and_go_def)
    from close_executed [OF this] t1 k show ?thesis by auto
  qed
qed

end
