(* ===== verification/StateStore.thy ===== *)
theory StateStore
  imports PlanCore "HOL-Library.Multiset"
begin

text \<open>
  The persistence interface of \<open>state/base.py\<close> as the locale \<open>state_store\<close>, and its two
  implementations: \<open>InMemoryStateStore\<close> (\<open>state/memory.py\<close>), a dict of deep copies, and
  \<open>SqliteStateStore\<close> (\<open>state/sqlite.py\<close>), a table of rows.  States are values here, so a copy is the
  state itself.  The \<open>touch\<close> of a transition only moves a time stamp, which is left out.
\<close>

section \<open>The in-memory store\<close>

type_synonym memory_store = "(string \<times> exec_state) list"

definition mem_save :: "exec_state \<Rightarrow> memory_store \<Rightarrow> memory_store" where
  "mem_save st s = AList.update (s_task_id st) st s"

definition mem_load :: "string \<Rightarrow> memory_store \<Rightarrow> exec_state option" where
  "mem_load tid s = map_of s tid"

definition mem_transition ::
  "string \<Rightarrow> task_status list \<Rightarrow> task_status \<Rightarrow> memory_store \<Rightarrow> exec_state option \<times> memory_store"
where
  "mem_transition tid froms new s =
     (case map_of s tid of
        None \<Rightarrow> (None, s)
      | Some st \<Rightarrow>
          if s_status st \<notin> set froms then (None, s)
          else let st' = st\<lparr>s_status := new\<rparr> in (Some st', AList.update tid st' s))"

definition mem_list :: "task_status option \<Rightarrow> memory_store \<Rightarrow> exec_state list" where
  "mem_list status s =
     (case status of
        None \<Rightarrow> map snd s
      | Some x \<Rightarrow> filter (\<lambda>st. s_status st = x) (map snd s))"

definition mem_delete :: "string \<Rightarrow> memory_store \<Rightarrow> bool \<times> memory_store" where
  "mem_delete tid s = (map_of s tid \<noteq> None, AList.delete tid s)"

section \<open>The SQLite store\<close>

text \<open>
  A row has the task id, the status text and the serialised state.  \<open>dump\<close> is
  \<open>model_dump_json\<close> and \<open>parse\<close> is \<open>model_validate_json\<close>, whose failure raises.
\<close>

fun status_value :: "task_status \<Rightarrow> string" where
  "status_value PLANNING = ''planning''"
| "status_value AWAITING_CONFIRMATION = ''awaiting_confirmation''"
| "status_value RESUMING = ''resuming''"
| "status_value EXECUTING = ''executing''"
| "status_value TASK_COMPLETED = ''completed''"
| "status_value TASK_FAILED = ''failed''"
| "status_value PAUSED = ''paused''"
| "status_value CANCELLED = ''cancelled''"
| "status_value REJECTED = ''rejected''"

lemma status_value_inj [simp]: "status_value a = status_value b \<longleftrightarrow> a = b"
  by (cases a; cases b) simp_all

record 'd row =
  row_task :: string
  row_status :: string
  row_data :: 'd

definition state_row :: "(exec_state \<Rightarrow> 'd) \<Rightarrow> exec_state \<Rightarrow> 'd row" where
  "state_row dump st = \<lparr>row_task = s_task_id st, row_status = status_value (s_status st), row_data = dump st\<rparr>"

lemma row_task_state_row [simp]: "row_task (state_row dump st) = s_task_id st"
  by (simp add: state_row_def)

text \<open>\<open>INSERT OR REPLACE\<close>: the old row of the key is removed, the new one goes to the end.\<close>

definition sql_save :: "(exec_state \<Rightarrow> 'd) \<Rightarrow> exec_state \<Rightarrow> 'd row list \<Rightarrow> 'd row list" where
  "sql_save dump st rows = filter (\<lambda>r. row_task r \<noteq> s_task_id st) rows @ [state_row dump st]"

definition sql_load :: "('d \<Rightarrow> string + exec_state) \<Rightarrow> string \<Rightarrow> 'd row list \<Rightarrow> string + exec_state option" where
  "sql_load parse tid rows =
     (case find (\<lambda>r. row_task r = tid) rows of
        None \<Rightarrow> Inr None
      | Some r \<Rightarrow> (case parse (row_data r) of Inl e \<Rightarrow> Inl e | Inr st \<Rightarrow> Inr (Some st)))"

text \<open>The \<open>UPDATE\<close>, with the number of rows it changed.\<close>

definition sql_update ::
  "string \<Rightarrow> 'd \<Rightarrow> string \<Rightarrow> string list \<Rightarrow> 'd row list \<Rightarrow> nat \<times> 'd row list"
where
  "sql_update status data tid allowed rows =
     (let hit = (\<lambda>r. row_task r = tid \<and> row_status r \<in> set allowed)
      in (length (filter hit rows),
          map (\<lambda>r. if hit r then r\<lparr>row_status := status, row_data := data\<rparr> else r) rows))"

definition sql_transition ::
  "(exec_state \<Rightarrow> 'd) \<Rightarrow> ('d \<Rightarrow> string + exec_state) \<Rightarrow> string \<Rightarrow> task_status list \<Rightarrow> task_status
     \<Rightarrow> 'd row list \<Rightarrow> (string + exec_state option) \<times> 'd row list"
where
  "sql_transition dump parse tid froms new rows =
     (if froms = [] then (Inr None, rows)
      else case sql_load parse tid rows of
        Inl e \<Rightarrow> (Inl e, rows)
      | Inr None \<Rightarrow> (Inr None, rows)
      | Inr (Some st) \<Rightarrow>
          if s_status st \<notin> set froms then (Inr None, rows)
          else let st' = st\<lparr>s_status := new\<rparr>;
                   (n, rows') = sql_update (status_value new) (dump st') tid (map status_value froms) rows
               in (Inr (if 0 < n then Some st' else None), rows'))"

definition sql_list ::
  "('d \<Rightarrow> string + exec_state) \<Rightarrow> task_status option \<Rightarrow> 'd row list \<Rightarrow> string + exec_state list"
where
  "sql_list parse status rows =
     map_all (parse \<circ> row_data)
       (case status of None \<Rightarrow> rows | Some x \<Rightarrow> filter (\<lambda>r. row_status r = status_value x) rows)"

definition sql_delete :: "string \<Rightarrow> 'd row list \<Rightarrow> bool \<times> 'd row list" where
  "sql_delete tid rows =
     (let rows' = filter (\<lambda>r. row_task r \<noteq> tid) rows in (length rows' < length rows, rows'))"

section \<open>The contract\<close>

text \<open>
  What the orchestrator and the gateways rely on: \<open>view\<close> is the mapping a store stands for.  Every
  operation that may fail returns the left of a sum then; on a valid store none does.
\<close>

locale state_store =
  fixes valid :: "'s \<Rightarrow> bool"
    and view :: "'s \<Rightarrow> string \<Rightarrow> exec_state option"
    and save :: "exec_state \<Rightarrow> 's \<Rightarrow> 's"
    and load :: "string \<Rightarrow> 's \<Rightarrow> string + exec_state option"
    and transition :: "string \<Rightarrow> task_status list \<Rightarrow> task_status \<Rightarrow> 's \<Rightarrow> (string + exec_state option) \<times> 's"
    and list_tasks :: "task_status option \<Rightarrow> 's \<Rightarrow> string + exec_state list"
    and delete :: "string \<Rightarrow> 's \<Rightarrow> bool \<times> 's"
  assumes view_id: "valid s \<Longrightarrow> view s t = Some st \<Longrightarrow> s_task_id st = t"
    and save_valid: "valid s \<Longrightarrow> valid (save st s)"
    and view_save: "valid s \<Longrightarrow> view (save st s) = (view s)(s_task_id st \<mapsto> st)"
    and load_view: "valid s \<Longrightarrow> load t s = Inr (view s t)"
    and transition_view: "valid s \<Longrightarrow> transition t froms new s = (r, s') \<Longrightarrow>
      valid s' \<and>
      (case view s t of
         Some st \<Rightarrow>
           if s_status st \<in> set froms
           then r = Inr (Some (st\<lparr>s_status := new\<rparr>)) \<and> view s' = (view s)(t \<mapsto> st\<lparr>s_status := new\<rparr>)
           else r = Inr None \<and> view s' = view s
       | None \<Rightarrow> r = Inr None \<and> view s' = view s)"
    and list_view: "valid s \<Longrightarrow> \<exists>xs. list_tasks status s = Inr xs \<and> distinct (map s_task_id xs) \<and>
      (\<forall>st. st \<in> set xs \<longleftrightarrow> view s (s_task_id st) = Some st \<and> (\<forall>x. status = Some x \<longrightarrow> s_status st = x))"
    and delete_view: "valid s \<Longrightarrow> delete t s = (b, s') \<Longrightarrow>
      valid s' \<and> b = (view s t \<noteq> None) \<and> view s' = (view s)(t := None)"
begin

text \<open>A saved state is loaded back, and saving one task does not touch another.\<close>

lemma load_save: "valid s \<Longrightarrow> load t (save st s) = Inr (if t = s_task_id st then Some st else view s t)"
  by (simp add: load_view save_valid view_save)

text \<open>
  A transition is claimed once: of two callers with the same allowed statuses, none of which is the
  new one, at most one gets the state.
\<close>

lemma transition_once:
  assumes "valid s" and "transition t froms new s = (r1, s1)" and "transition t froms' new' s1 = (r2, s2)"
    and "new \<notin> set froms'" and "r1 \<noteq> Inr None"
  shows "r2 = Inr None \<and> view s2 = view s1"
proof -
  note t1 = transition_view [OF assms(1,2)]
  then obtain st where "view s t = Some st" "s_status st \<in> set froms"
    using assms(5) by (cases "view s t") (auto split: if_splits)
  with t1 have "view s1 t = Some (st\<lparr>s_status := new\<rparr>)" by simp
  with transition_view [of s1 t froms' new' r2 s2] t1 assms(3,4) show ?thesis by simp
qed

end

section \<open>The in-memory store keeps the contract\<close>

definition mem_valid :: "memory_store \<Rightarrow> bool" where
  "mem_valid s \<longleftrightarrow> distinct (map fst s) \<and> (\<forall>t st. map_of s t = Some st \<longrightarrow> s_task_id st = t)"

lemma mem_valid_update:
  "mem_valid s \<Longrightarrow> s_task_id st = t \<Longrightarrow> mem_valid (AList.update t st s)"
  by (auto simp: mem_valid_def distinct_update)

lemma mem_values:
  assumes "mem_valid s"
  shows "distinct (map s_task_id (map snd s))"
    and "st \<in> set (map snd s) \<longleftrightarrow> map_of s (s_task_id st) = Some st"
proof -
  have id: "s_task_id st = t" if "(t, st) \<in> set s" for t st
    using assms that by (simp add: mem_valid_def)
  then have ids: "map s_task_id (map snd s) = map fst s"
    unfolding map_map by (intro map_cong) auto
  show "distinct (map s_task_id (map snd s))" unfolding ids using assms by (simp add: mem_valid_def)
  have "st \<in> set (map snd s) \<longleftrightarrow> (s_task_id st, st) \<in> set s" using id by (metis (no_types, lifting) image_iff list.set_map prod.collapse snd_conv)
  then show "st \<in> set (map snd s) \<longleftrightarrow> map_of s (s_task_id st) = Some st"
    using assms by (simp add: mem_valid_def)
qed

lemma map_of_alist_delete: "map_of (AList.delete t s) = (map_of s)(t := None)"
  by (rule delete_conv')

lemma distinct_map_filter_keys: "distinct (map f xs) \<Longrightarrow> distinct (map f (filter P xs))"
  by (rule distinct_map_filter)

interpretation memory: state_store mem_valid map_of mem_save
    "\<lambda>t s. Inr (mem_load t s)" "\<lambda>t froms new s. case mem_transition t froms new s of (r, s') \<Rightarrow> (Inr r, s')"
    "\<lambda>status s. Inr (mem_list status s)" mem_delete
proof
  fix s t st froms new r s' status b
  assume v: "mem_valid s"
  show "map_of s t = Some st \<Longrightarrow> s_task_id st = t" using v by (auto simp: mem_valid_def dest: map_of_SomeD)
  show "mem_valid (mem_save st s)" using v by (simp add: mem_save_def mem_valid_update)
  show "map_of (mem_save st s) = (map_of s)(s_task_id st \<mapsto> st)" by (simp add: mem_save_def)
  show "(Inr (mem_load t s) :: string + exec_state option) = Inr (map_of s t)" by (simp add: mem_load_def)
  have upd: "map_of s t = Some st \<Longrightarrow> mem_valid (AList.update t (st\<lparr>s_status := new\<rparr>) s)" for st
    using v by (intro mem_valid_update) (auto simp: mem_valid_def)
  show "(case mem_transition t froms new s of (r, s') \<Rightarrow> (Inr r, s')) = (r, s') \<Longrightarrow>
      mem_valid s' \<and>
      (case map_of s t of
         Some st \<Rightarrow>
           if s_status st \<in> set froms
           then r = Inr (Some (st\<lparr>s_status := new\<rparr>)) \<and> map_of s' = (map_of s)(t \<mapsto> st\<lparr>s_status := new\<rparr>)
           else r = Inr None \<and> map_of s' = map_of s
       | None \<Rightarrow> r = Inr None \<and> map_of s' = map_of s)"
    using v upd by (auto simp: mem_transition_def Let_def split: option.splits if_splits)
  show "\<exists>xs. (Inr (mem_list status s) :: string + exec_state list) = Inr xs \<and> distinct (map s_task_id xs) \<and>
      (\<forall>st. (st \<in> set xs) = (map_of s (s_task_id st) = Some st \<and> (\<forall>x. status = Some x \<longrightarrow> s_status st = x)))"
    using mem_values [OF v] by (cases status) (auto simp: mem_list_def intro: distinct_map_filter_keys)
  show "mem_delete t s = (b, s') \<Longrightarrow> mem_valid s' \<and> b = (map_of s t \<noteq> None) \<and> map_of s' = (map_of s)(t := None)"
    using v by (auto simp: mem_delete_def mem_valid_def map_of_alist_delete distinct_delete split: if_splits)
qed

section \<open>So does the SQLite store\<close>

definition sql_valid :: "(exec_state \<Rightarrow> 'd) \<Rightarrow> ('d \<Rightarrow> string + exec_state) \<Rightarrow> 'd row list \<Rightarrow> bool" where
  "sql_valid dump parse rows \<longleftrightarrow> distinct (map row_task rows) \<and>
     (\<forall>r \<in> set rows. \<exists>st. r = state_row dump st)"

text \<open>What the store relies on: a serialised state is read back as it was.\<close>

definition serialises :: "(exec_state \<Rightarrow> 'd) \<Rightarrow> ('d \<Rightarrow> string + exec_state) \<Rightarrow> bool" where
  "serialises dump parse \<longleftrightarrow> (\<forall>st. parse (dump st) = Inr st)"

lemma parse_dump [simp]: "serialises dump parse \<Longrightarrow> parse (dump st) = Inr st"
  by (simp add: serialises_def)

lemma state_row_eq: "serialises dump parse \<Longrightarrow> state_row dump x = state_row dump y \<longleftrightarrow> x = y"
  by (metis parse_dump row.select_convs(3) state_row_def sum.inject(2))

definition sql_view :: "('d \<Rightarrow> string + exec_state) \<Rightarrow> 'd row list \<Rightarrow> string \<Rightarrow> exec_state option" where
  "sql_view parse rows t =
     (case find (\<lambda>r. row_task r = t) rows of
        None \<Rightarrow> None
      | Some r \<Rightarrow> (case parse (row_data r) of Inl e \<Rightarrow> None | Inr st \<Rightarrow> Some st))"

lemma find_key:
  "distinct (map row_task rows) \<Longrightarrow> find (\<lambda>r. row_task r = t) rows = Some r \<longleftrightarrow> r \<in> set rows \<and> row_task r = t"
  by (induction rows) force+

lemma find_key_None: "find (\<lambda>r. row_task r = t) rows = None \<longleftrightarrow> t \<notin> row_task ` set rows"
  by (auto simp: find_None_iff)

lemma sql_view_Some:
  assumes "serialises dump parse" and "sql_valid dump parse rows"
  shows "sql_view parse rows t = Some st \<longleftrightarrow> state_row dump st \<in> set rows \<and> s_task_id st = t"
proof (cases "find (\<lambda>r. row_task r = t) rows")
  case None
  then have "sql_view parse rows t = None" by (simp add: sql_view_def)
  moreover have "state_row dump st \<in> set rows \<Longrightarrow> s_task_id st \<noteq> t"
    using None unfolding find_key_None by (force simp: state_row_def image_iff)
  ultimately show ?thesis by auto
next
  case (Some r)
  then have r: "r \<in> set rows" "row_task r = t" using assms(2) find_key by (auto simp: sql_valid_def)
  then obtain st0 where st0: "r = state_row dump st0" using assms(2) by (auto simp: sql_valid_def)
  have parsed: "parse (row_data r) = Inr st0" using assms(1) by (simp add: st0 state_row_def)
  then have v: "sql_view parse rows t = Some st0" using Some by (simp add: sql_view_def)
  show ?thesis
  proof
    assume "sql_view parse rows t = Some st"
    with v have "st = st0" by simp
    with r st0 show "state_row dump st \<in> set rows \<and> s_task_id st = t" by (simp add: state_row_def)
  next
    assume st: "state_row dump st \<in> set rows \<and> s_task_id st = t"
    then have "find (\<lambda>r. row_task r = t) rows = Some (state_row dump st)"
      using find_key [of rows t "state_row dump st"] assms(2) by (auto simp: sql_valid_def)
    with Some have "r = state_row dump st" by simp
    then have "parse (row_data r) = Inr st" using assms(1) by (simp add: state_row_def)
    with parsed v show "sql_view parse rows t = Some st" by simp
  qed
qed

lemma sql_load_view:
  assumes "serialises dump parse" and "sql_valid dump parse rows"
  shows "sql_load parse t rows = Inr (sql_view parse rows t)"
proof (cases "find (\<lambda>r. row_task r = t) rows")
  case (Some r)
  then have "r \<in> set rows" using assms(2) find_key by (auto simp: sql_valid_def)
  then obtain st0 where "r = state_row dump st0" using assms(2) by (auto simp: sql_valid_def)
  with Some assms(1) show ?thesis by (simp add: sql_load_def sql_view_def state_row_def)
qed (simp add: sql_load_def sql_view_def)

lemma sql_save_valid:
  assumes "sql_valid dump parse rows"
  shows "sql_valid dump parse (sql_save dump st rows)"
  using assms by (auto simp: sql_valid_def sql_save_def distinct_map_filter state_row_def)

lemma map_all_states:
  assumes "serialises dump parse"
  shows "map_all (parse \<circ> row_data) (map (state_row dump) xs) = Inr xs"
  using assms by (induction xs) (simp_all add: state_row_def)

lemma states_of_rows:
  "\<forall>r \<in> set rows. \<exists>st. r = state_row dump st \<Longrightarrow> \<exists>xs. rows = map (state_row dump) xs"
  by (simp add: ex_map_conv eq_commute)

text \<open>The claim of a transition: the row found by its key is the only one the update can change.\<close>

lemma sql_transition_view:
  assumes rt: "serialises dump parse" and v: "sql_valid dump parse rows"
    and t: "sql_transition dump parse t froms new rows = (r, rows')"
  shows "sql_valid dump parse rows' \<and>
    (case sql_view parse rows t of
       Some st \<Rightarrow>
         if s_status st \<in> set froms
         then r = Inr (Some (st\<lparr>s_status := new\<rparr>)) \<and>
              sql_view parse rows' = (sql_view parse rows)(t \<mapsto> st\<lparr>s_status := new\<rparr>)
         else r = Inr None \<and> sql_view parse rows' = sql_view parse rows
     | None \<Rightarrow> r = Inr None \<and> sql_view parse rows' = sql_view parse rows)"
proof (cases "\<exists>st. sql_view parse rows t = Some st \<and> s_status st \<in> set froms")
  case False
  have "r = Inr None \<and> rows' = rows"
    using t False by (auto simp: sql_transition_def sql_load_view [OF rt v] Let_def split: option.splits if_splits)
  with False v show ?thesis by (auto split: option.splits)
next
  case True
  then obtain st where st: "sql_view parse rows t = Some st" "s_status st \<in> set froms" by blast
  let ?st = "st\<lparr>s_status := new\<rparr>"
  have mem: "state_row dump st \<in> set rows" "s_task_id st = t" using st(1) sql_view_Some [OF rt v] by auto
  let ?hit = "\<lambda>r. row_task r = t \<and> row_status r \<in> set (map status_value froms)"
  have hit: "?hit (state_row dump st)" using mem(2) st(2) by (simp add: state_row_def)
  have only: "r = state_row dump st" if "r \<in> set rows" "row_task r = t" for r
    using v that mem by (auto simp: sql_valid_def distinct_map inj_on_def state_row_def)
  have up: "rows' = map (\<lambda>r. if ?hit r then r\<lparr>row_status := status_value new, row_data := dump ?st\<rparr> else r) rows"
    and r: "r = Inr (Some ?st)"
    using t st hit mem(1)
    by (auto simp: sql_transition_def sql_load_view [OF rt v] sql_update_def Let_def filter_empty_conv split: if_splits)
  have row: "(if ?hit x then x\<lparr>row_status := status_value new, row_data := dump ?st\<rparr> else x) =
      (if row_task x = t then state_row dump ?st else x)" if x: "x \<in> set rows" for x
  proof (cases "row_task x = t")
    case True
    have "x = state_row dump st" by (rule only [OF x True])
    with hit mem(2) show ?thesis by (simp add: state_row_def)
  qed simp
  have rows': "rows' = map (\<lambda>x. if row_task x = t then state_row dump ?st else x) rows"
    unfolding up by (rule map_cong) (rule refl, rule row)
  have keys: "map row_task rows' = map row_task rows"
    using mem(2) by (simp add: rows' state_row_def)
  have v': "sql_valid dump parse rows'"
    using v unfolding sql_valid_def keys by (auto simp: rows')
  have new: "state_row dump x \<in> set rows' \<longleftrightarrow> x = ?st" if "s_task_id x = t" for x
  proof
    assume "state_row dump x \<in> set rows'"
    then obtain y where y: "y \<in> set rows"
      "state_row dump x = (if row_task y = t then state_row dump ?st else y)" unfolding rows' by auto
    have "row_task y = t" using y(2) that by (cases "row_task y = t") (auto simp: state_row_def)
    with y(2) have "dump x = dump ?st" by (simp add: state_row_def)
    then show "x = ?st" by (metis rt parse_dump sum.inject(2))
  next
    assume "x = ?st"
    moreover have "row_task (state_row dump st) = t" using mem(2) by (simp add: state_row_def)
    ultimately show "state_row dump x \<in> set rows'"
      unfolding rows' set_map using mem(1) by (intro image_eqI [of _ _ "state_row dump st"]) simp_all
  qed
  have old: "state_row dump x \<in> set rows' \<longleftrightarrow> state_row dump x \<in> set rows" if "s_task_id x \<noteq> t" for x
  proof
    assume "state_row dump x \<in> set rows'"
    then obtain y where y: "y \<in> set rows"
      "state_row dump x = (if row_task y = t then state_row dump ?st else y)" unfolding rows' by auto
    have "row_task y \<noteq> t"
    proof
      assume "row_task y = t"
      with y(2) have "row_task (state_row dump x) = row_task (state_row dump ?st)" by simp
      with that mem(2) show False by (simp add: state_row_def)
    qed
    with y show "state_row dump x \<in> set rows" by simp
  next
    assume x: "state_row dump x \<in> set rows"
    have "row_task (state_row dump x) \<noteq> t" using that by (simp add: state_row_def)
    then show "state_row dump x \<in> set rows'"
      unfolding rows' set_map using x by (intro image_eqI [of _ _ "state_row dump x"]) simp_all
  qed
  have view: "sql_view parse rows' u = Some x \<longleftrightarrow> ((sql_view parse rows)(t \<mapsto> ?st)) u = Some x" for u x
  proof (cases "u = t")
    case True
    have "s_task_id ?st = t" using mem(2) by simp
    with True new [of x] show ?thesis unfolding sql_view_Some [OF rt v'] by auto
  next
    case False
    then show ?thesis using old [of x]
      unfolding sql_view_Some [OF rt v'] fun_upd_other [OF False] sql_view_Some [OF rt v] by auto
  qed
  have "sql_view parse rows' = (sql_view parse rows)(t \<mapsto> ?st)"
    by (rule ext) (metis (no_types, lifting) not_None_eq view)
  with v' r st show ?thesis by simp
qed

lemma distinct_rows_filter:
  "distinct (map row_task rows) \<Longrightarrow> length (filter (\<lambda>r. row_task r \<noteq> t) rows) < length rows \<longleftrightarrow> t \<in> row_task ` set rows"
proof (cases "t \<in> row_task ` set rows")
  case True
  then obtain r where "r \<in> set rows" "\<not> row_task r \<noteq> t" by auto
  then have "length (filter (\<lambda>r. row_task r \<noteq> t) rows) < length rows" by (rule length_filter_less)
  with True show ?thesis by simp
next
  case False
  then have "filter (\<lambda>r. row_task r \<noteq> t) rows = rows" by (intro filter_True) auto
  with False show ?thesis by simp
qed

lemma sql_view_eqI:
  assumes "serialises dump parse" and "sql_valid dump parse rows"
    and "\<And>u st. state_row dump st \<in> set rows \<and> s_task_id st = u \<longleftrightarrow> g u = Some st"
  shows "sql_view parse rows = g"
proof
  fix u
  have "sql_view parse rows u = Some st \<longleftrightarrow> g u = Some st" for st
    using sql_view_Some [OF assms(1,2)] assms(3) by simp
  then show "sql_view parse rows u = g u" by (cases "g u"; cases "sql_view parse rows u") auto
qed

lemma sql_view_save:
  assumes "serialises dump parse" and "sql_valid dump parse rows"
  shows "sql_view parse (sql_save dump st rows) = (sql_view parse rows)(s_task_id st \<mapsto> st)"
proof (rule sql_view_eqI [OF assms(1) sql_save_valid [OF assms(2)]])
  fix u x
  note inj = state_row_eq [OF assms(1)]
  then show "state_row dump x \<in> set (sql_save dump st rows) \<and> s_task_id x = u \<longleftrightarrow>
      ((sql_view parse rows)(s_task_id st \<mapsto> st)) u = Some x"
    using sql_view_Some [OF assms, of u x] by (auto simp: sql_save_def inj)
qed

lemma sql_view_delete:
  assumes "serialises dump parse" and v: "sql_valid dump parse rows" and d: "sql_delete t rows = (b, rows')"
  shows "sql_valid dump parse rows' \<and> b = (sql_view parse rows t \<noteq> None) \<and>
    sql_view parse rows' = (sql_view parse rows)(t := None)"
proof -
  have rows': "rows' = filter (\<lambda>r. row_task r \<noteq> t) rows" and b: "b = (t \<in> row_task ` set rows)"
    using d v distinct_rows_filter [of rows t] by (auto simp: sql_delete_def sql_valid_def Let_def)
  have v': "sql_valid dump parse rows'" using v by (auto simp: rows' sql_valid_def distinct_map_filter)
  have "sql_view parse rows' = (sql_view parse rows)(t := None)"
  proof (rule sql_view_eqI [OF assms(1) v'])
    fix u x
    show "state_row dump x \<in> set rows' \<and> s_task_id x = u \<longleftrightarrow> ((sql_view parse rows)(t := None)) u = Some x"
      using sql_view_Some [OF assms(1) v, of u x] by (auto simp: rows')
  qed
  moreover have "b \<longleftrightarrow> (\<exists>st. sql_view parse rows t = Some st)"
    using v by (force simp: b sql_view_Some [OF assms(1) v] sql_valid_def image_iff)
  ultimately show ?thesis using v' by auto
qed

lemma sql_list_view:
  assumes rt: "serialises dump parse" and v: "sql_valid dump parse rows"
  shows "\<exists>xs. sql_list parse status rows = Inr xs \<and> distinct (map s_task_id xs) \<and>
      (\<forall>st. st \<in> set xs \<longleftrightarrow> sql_view parse rows (s_task_id st) = Some st \<and> (\<forall>x. status = Some x \<longrightarrow> s_status st = x))"
proof -
  obtain xs where xs: "rows = map (state_row dump) xs"
    using v states_of_rows [of rows dump] by (auto simp: sql_valid_def)
  note inj = state_row_eq [OF rt]
  have "distinct (map s_task_id xs)" using v by (simp add: sql_valid_def xs comp_def)
  moreover have "sql_list parse status rows =
      Inr (case status of None \<Rightarrow> xs | Some x \<Rightarrow> filter (\<lambda>st. s_status st = x) xs)"
  proof (cases status)
    case None
    then show ?thesis using map_all_states [OF rt, of xs] by (simp add: sql_list_def xs)
  next
    case (Some x)
    have "filter (\<lambda>r. row_status r = status_value x) rows =
        map (state_row dump) (filter (\<lambda>st. s_status st = x) xs)"
      by (simp add: xs filter_map comp_def state_row_def)
    with Some show ?thesis using map_all_states [OF rt, of "filter (\<lambda>st. s_status st = x) xs"]
      by (simp add: sql_list_def)
  qed
  moreover have "st \<in> set xs \<longleftrightarrow> sql_view parse rows (s_task_id st) = Some st" for st
    unfolding sql_view_Some [OF rt v] by (auto simp: xs inj)
  ultimately show ?thesis
    by (cases status) (auto intro: distinct_map_filter)
qed

lemma sqlite_state_store:
  assumes rt: "serialises dump parse"
  shows "state_store (sql_valid dump parse) (sql_view parse) (sql_save dump) (sql_load parse)
    (sql_transition dump parse) (sql_list parse) sql_delete"
proof
  show "sql_valid dump parse s \<Longrightarrow> sql_view parse s t = Some st \<Longrightarrow> s_task_id st = t" for s t st
    using sql_view_Some [OF rt] by blast
  show "sql_valid dump parse (sql_save dump st s)" if "sql_valid dump parse s" for s st
    by (rule sql_save_valid [OF that])
  show "sql_view parse (sql_save dump st s) = (sql_view parse s)(s_task_id st \<mapsto> st)"
    if "sql_valid dump parse s" for s st
    by (rule sql_view_save [OF rt that])
  show "sql_load parse t s = Inr (sql_view parse s t)" if "sql_valid dump parse s" for s t
    by (rule sql_load_view [OF rt that])
qed (rule sql_transition_view [OF rt] sql_list_view [OF rt] sql_view_delete [OF rt]; assumption)+

section \<open>Either store behind the interface\<close>

text \<open>Calls of the \<open>StateStore\<close> protocol, and what they return.\<close>

datatype store_call =
    SaveTask exec_state
  | LoadTask string
  | TransitionTask string "task_status list" task_status
  | ListTasks "task_status option"
  | DeleteTask string

datatype store_reply =
    Saved
  | Loaded "string + exec_state option"
  | Claimed "string + exec_state option"
  | Listed "string + exec_state list"
  | Deleted bool

fun mem_call :: "store_call \<Rightarrow> memory_store \<Rightarrow> store_reply \<times> memory_store" where
  "mem_call (SaveTask st) s = (Saved, mem_save st s)"
| "mem_call (LoadTask t) s = (Loaded (Inr (mem_load t s)), s)"
| "mem_call (TransitionTask t froms new) s =
     (case mem_transition t froms new s of (r, s') \<Rightarrow> (Claimed (Inr r), s'))"
| "mem_call (ListTasks status) s = (Listed (Inr (mem_list status s)), s)"
| "mem_call (DeleteTask t) s = (case mem_delete t s of (b, s') \<Rightarrow> (Deleted b, s'))"

fun sql_call ::
  "(exec_state \<Rightarrow> 'd) \<Rightarrow> ('d \<Rightarrow> string + exec_state) \<Rightarrow> store_call \<Rightarrow> 'd row list \<Rightarrow> store_reply \<times> 'd row list"
where
  "sql_call dump parse (SaveTask st) s = (Saved, sql_save dump st s)"
| "sql_call dump parse (LoadTask t) s = (Loaded (sql_load parse t s), s)"
| "sql_call dump parse (TransitionTask t froms new) s =
     (case sql_transition dump parse t froms new s of (r, s') \<Rightarrow> (Claimed r, s'))"
| "sql_call dump parse (ListTasks status) s = (Listed (sql_list parse status s), s)"
| "sql_call dump parse (DeleteTask t) s = (case sql_delete t s of (b, s') \<Rightarrow> (Deleted b, s'))"

text \<open>A sequence of calls, with the replies in order.\<close>

fun replies :: "('c \<Rightarrow> 's \<Rightarrow> 'r \<times> 's) \<Rightarrow> 'c list \<Rightarrow> 's \<Rightarrow> 'r list" where
  "replies call [] s = []"
| "replies call (c # cs) s = (case call c s of (r, s') \<Rightarrow> r # replies call cs s')"

text \<open>The interface promises no order for the tasks of a listing.\<close>

fun same_reply :: "store_reply \<Rightarrow> store_reply \<Rightarrow> bool" where
  "same_reply (Listed (Inr xs)) (Listed (Inr ys)) \<longleftrightarrow> mset xs = mset ys"
| "same_reply r r' \<longleftrightarrow> r = r'"

lemma same_listing:
  assumes "distinct (map f xs)" and "distinct (map f ys)" and "\<And>x. x \<in> set xs \<longleftrightarrow> x \<in> set ys"
  shows "mset xs = mset ys"
  using assms by (metis distinct_map set_eq_iff set_eq_iff_mset_eq_distinct)

lemma call_agrees:
  assumes a: "state_store valid1 view1 save1 load1 transition1 list1 delete1"
    and b: "state_store valid2 view2 save2 load2 transition2 list2 delete2"
    and v: "valid1 s1" "valid2 s2" "view1 s1 = view2 s2"
  shows "load1 t s1 = load2 t s2"
    and "transition1 t froms new s1 = (r1, s1') \<Longrightarrow> transition2 t froms new s2 = (r2, s2') \<Longrightarrow>
      r1 = r2 \<and> valid1 s1' \<and> valid2 s2' \<and> view1 s1' = view2 s2'"
    and "same_reply (Listed (list1 status s1)) (Listed (list2 status s2))"
    and "delete1 t s1 = (b1, s1') \<Longrightarrow> delete2 t s2 = (b2, s2') \<Longrightarrow>
      b1 = b2 \<and> valid1 s1' \<and> valid2 s2' \<and> view1 s1' = view2 s2'"
    and "valid1 (save1 st s1) \<and> valid2 (save2 st s2) \<and> view1 (save1 st s1) = view2 (save2 st s2)"
proof -
  show "load1 t s1 = load2 t s2"
    using state_store.load_view [OF a v(1)] state_store.load_view [OF b v(2)] v(3) by simp
  show "r1 = r2 \<and> valid1 s1' \<and> valid2 s2' \<and> view1 s1' = view2 s2'"
    if "transition1 t froms new s1 = (r1, s1')" "transition2 t froms new s2 = (r2, s2')"
    using state_store.transition_view [OF a v(1) that(1)] state_store.transition_view [OF b v(2) that(2)] v(3)
    by (cases "view2 s2 t") (simp_all split: if_splits)
  obtain xs ys where xs: "list1 status s1 = Inr xs" "distinct (map s_task_id xs)"
      "\<And>st. st \<in> set xs \<longleftrightarrow> view1 s1 (s_task_id st) = Some st \<and> (\<forall>x. status = Some x \<longrightarrow> s_status st = x)"
    and ys: "list2 status s2 = Inr ys" "distinct (map s_task_id ys)"
      "\<And>st. st \<in> set ys \<longleftrightarrow> view2 s2 (s_task_id st) = Some st \<and> (\<forall>x. status = Some x \<longrightarrow> s_status st = x)"
    using state_store.list_view [OF a v(1), of status] state_store.list_view [OF b v(2), of status] by blast
  have "mset xs = mset ys" by (rule same_listing [OF xs(2) ys(2)]) (simp add: xs(3) ys(3) v(3))
  with xs(1) ys(1) show "same_reply (Listed (list1 status s1)) (Listed (list2 status s2))" by simp
  show "b1 = b2 \<and> valid1 s1' \<and> valid2 s2' \<and> view1 s1' = view2 s2'"
    if "delete1 t s1 = (b1, s1')" "delete2 t s2 = (b2, s2')"
    using state_store.delete_view [OF a v(1) that(1)] state_store.delete_view [OF b v(2) that(2)] v(3) by simp
  show "valid1 (save1 st s1) \<and> valid2 (save2 st s2) \<and> view1 (save1 st s1) = view2 (save2 st s2)"
    using state_store.save_valid [OF a v(1)] state_store.save_valid [OF b v(2)]
      state_store.view_save [OF a v(1)] state_store.view_save [OF b v(2)] v(3) by simp
qed

lemma replies_agree:
  assumes "serialises dump parse"
  shows "mem_valid s \<Longrightarrow> sql_valid dump parse rows \<Longrightarrow> map_of s = sql_view parse rows \<Longrightarrow>
    list_all2 same_reply (replies mem_call cs s) (replies (sql_call dump parse) cs rows)"
proof (induction cs arbitrary: s rows)
  case (Cons c cs)
  note agree = call_agrees [OF memory.state_store_axioms sqlite_state_store [OF assms] Cons.prems]
  show ?case
  proof (cases c)
    case (SaveTask st)
    show ?thesis using agree(5) [of st] Cons.IH by (simp add: SaveTask)
  next
    case (LoadTask t)
    show ?thesis using agree(1) [of t] Cons.IH Cons.prems by (simp add: LoadTask)
  next
    case (TransitionTask t froms new)
    obtain r1 s1 r2 s2 where p: "mem_transition t froms new s = (r1, s1)"
        "sql_transition dump parse t froms new rows = (r2, s2)" by (metis surj_pair)
    have "Inr r1 = r2 \<and> mem_valid s1 \<and> sql_valid dump parse s2 \<and> map_of s1 = sql_view parse s2"
      by (rule agree(2) [of t froms new]) (simp_all add: p)
    then show ?thesis using Cons.IH by (auto simp: TransitionTask p)
  next
    case (ListTasks status)
    show ?thesis using agree(3) [of status] Cons.IH Cons.prems by (simp add: ListTasks)
  next
    case (DeleteTask t)
    obtain r1 s1 r2 s2 where p: "mem_delete t s = (r1, s1)" "sql_delete t rows = (r2, s2)" by (metis surj_pair)
    have "r1 = r2 \<and> mem_valid s1 \<and> sql_valid dump parse s2 \<and> map_of s1 = sql_view parse s2"
      by (rule agree(4) [of t]) (simp_all add: p)
    then show ?thesis using Cons.IH by (auto simp: DeleteTask p)
  qed
qed simp



text \<open>
  A transition is a claim that only one caller gets: after a caller moved a task of the
  SQLite store out of its allowed statuses, a second call that does not allow the new status gets
  nothing and changes no task, so a task at the gate is resumed at most once.
\<close>

theorem task_claimed_once:
  assumes "serialises dump parse" and "sql_valid dump parse rows"
    and "sql_transition dump parse t froms new rows = (Inr (Some st), rows1)"
    and "sql_transition dump parse t froms' new' rows1 = (r, rows2)" and "new \<notin> set froms'"
  shows "s_status st = new \<and> sql_view parse rows1 t = Some st \<and> r = Inr None \<and>
    sql_view parse rows2 = sql_view parse rows1"
proof -
  note s = sqlite_state_store [OF assms(1)]
  have "r = Inr None \<and> sql_view parse rows2 = sql_view parse rows1"
    using state_store.transition_once [OF s assms(2,3,4,5)] by simp
  then show ?thesis
    using state_store.transition_view [OF s assms(2,3)] by (cases "sql_view parse rows t") (auto split: if_splits)
qed

theorem task_claimed_once_witness:
  "\<exists>st rows1 rows2. sql_transition id Inr ''a'' [PLANNING] EXECUTING [state_row id (new_state ''a'' ''q'' None)]
      = (Inr (Some st), rows1) \<and>
    sql_transition id Inr ''a'' [PLANNING] EXECUTING rows1 = (Inr None, rows2) \<and>
    sql_view Inr rows2 = sql_view Inr rows1"
proof -
  let ?st = "new_state ''a'' ''q'' None" and ?ex = "(new_state ''a'' ''q'' None)\<lparr>s_status := EXECUTING\<rparr>"
  obtain r rows2 where r: "sql_transition id Inr ''a'' [PLANNING] EXECUTING [state_row id ?ex] = (r, rows2)"
    by (metis surj_pair)
  have first: "sql_transition id Inr ''a'' [PLANNING] EXECUTING [state_row id ?st] =
      (Inr (Some ?ex), [state_row id ?ex])"
    by (simp add: sql_transition_def sql_load_def sql_update_def state_row_def new_state_def Let_def)
  have "serialises id Inr" by (simp add: serialises_def)
  moreover have "sql_valid id Inr [state_row id ?st]" by (auto simp: sql_valid_def)
  ultimately have "r = Inr None \<and> sql_view Inr rows2 = sql_view Inr [state_row id ?ex]"
    using task_claimed_once [OF _ _ first r] by simp
  with first r show ?thesis by blast
qed

end
