(* ===== verification/OrchestratorRun.thy ===== *)
theory OrchestratorRun
  imports Orchestrator NodeRun StateStore
begin

text \<open>
  The orchestrator on the executor's own model: what a run of the scheduler publishes about the end
  of the task, the interpretation of the orchestrator's executor by it, and the properties of a
  task from its request to its last saved state.
\<close>

section \<open>The terminal events of a run\<close>

definition terminal_bodies :: "event list \<Rightarrow> event_body list" where
  "terminal_bodies es = filter is_terminal_body (map e_body es)"

lemma terminal_bodies_simps [simp]:
  "terminal_bodies [] = []" "terminal_bodies (es @ fs) = terminal_bodies es @ terminal_bodies fs"
  "terminal_bodies (e # es) = (if is_terminal_body (e_body e) then [e_body e] else []) @ terminal_bodies es"
  by (simp_all add: terminal_bodies_def)

definition unended :: "exec_state \<Rightarrow> sched \<Rightarrow> bool" where
  "unended st v \<longleftrightarrow> terminal_bodies (v_events v) = [] \<and> same_task_plan st (v_state v)"

lemma unended_emit [simp]: "\<not> is_terminal_body b \<Longrightarrow> unended st (emit c b v) \<longleftrightarrow> unended st v"
  by (simp add: unended_def emit_def)

lemma unended_record_skipped [simp]: "unended st (record_skipped c i v) \<longleftrightarrow> unended st v"
proof -
  have "unended st (v\<lparr>v_state := s\<rparr>) \<longleftrightarrow> unended st v" if "same_task_plan (v_state v) s" for s
    using that by (simp add: unended_def same_task_plan_def)
  then show ?thesis by (simp add: record_skipped_def Let_def finished_event_def same_task_plan_def)
qed

lemma unended_skip_each [simp]: "unended st (skip_each c is v) \<longleftrightarrow> unended st v"
  by (induction "is" arbitrary: v) simp_all

lemma unended_record_node [simp]: "unended st (record_node c n r v) \<longleftrightarrow> unended st v"
proof -
  have "unended st (v\<lparr>v_state := s\<rparr>) \<longleftrightarrow> unended st v" if "same_task_plan (v_state v) s" for s v
    using that by (simp add: unended_def same_task_plan_def)
  then show ?thesis
    by (simp add: record_node_def record_decision_def Let_def finished_event_def same_task_plan_def)
qed

lemma unended_flight [simp]:
  "unended st (set_flight i f v) \<longleftrightarrow> unended st v" "unended st (v\<lparr>v_flight := fl\<rparr>) \<longleftrightarrow> unended st v"
  "unended st (drop_pending i v) \<longleftrightarrow> unended st v" "unended st (launch i v) \<longleftrightarrow> unended st v"
  by (simp_all add: unended_def set_flight_def)

lemma unended_events: "terminal_bodies evs = [] \<Longrightarrow> unended st (v\<lparr>v_events := v_events v @ evs\<rparr>) \<longleftrightarrow> unended st v"
  by (simp add: unended_def)

lemma run_unended:
  assumes "\<And>st0 n evs r. out st0 n evs r \<Longrightarrow> terminal_bodies evs = []" and "reachable c out st x"
  shows "until_finished (unended st) c x"
proof (rule reachable_until_finished [OF _ _ _ _ _ _ _ _ assms(2)])
  fix pend st' assume "same_task st st'"
  then show "unended st \<lparr>v_pending = pend, v_flight = [], v_state = st', v_events = []\<rparr>"
    by (simp add: unended_def same_task_def same_task_plan_def)
next
  fix i n v st0 evs r
  assume "unended st v" "out st0 n evs (Inr r)"
  with assms(1) show "unended st (set_flight i (Ended None) (record_node c n r (v\<lparr>v_events := v_events v @ evs\<rparr>)))"
    by (simp add: unended_events)
next
  fix i n v st0 evs e
  assume "unended st v" "out st0 n evs (Inl e)"
  with assms(1) show "unended st (set_flight i (Ended (Some e)) (v\<lparr>v_events := v_events v @ evs\<rparr>))"
    by (simp add: unended_events)
qed simp_all

text \<open>How a run that published nothing terminal before its end has ended.\<close>

lemma finished_told:
  assumes "until_finished (unended st) c (Returned v)" and "rc_emit c" and "rc_emit_completed c"
  shows "terminal_bodies (v_events v) = [TaskCompleted (s_final_output (v_state v))] \<and>
    s_status (v_state v) = TASK_COMPLETED \<and> same_task_plan st (v_state v)"
  using assms by (auto simp: finish_run_def Let_def unended_def emit_def same_task_plan_def)

lemma nested_untold:
  assumes "until_finished (unended st) c x" and "\<not> rc_emit_completed c"
  shows "terminal_bodies (v_events (sched_of x)) = []"
  using assms by (cases x) (auto simp: finish_run_def Let_def unended_def)

lemma unfinished_untold:
  assumes "until_finished (unended st) c x" and "\<And>v. x \<noteq> Returned v"
  shows "unended st (sched_of x)"
  using assms by (cases x) auto

text \<open>A node publishes nothing terminal, a nested run included.\<close>

lemma leaf_untold:
  assumes "dispatch_leaf en st n path w = (evs, r, w')"
  shows "filter is_terminal_body evs = []"
proof -
  have "set (fst (dispatch_leaf en st n path w)) \<subseteq> range (\<lambda>t. NodeOutputChunk (n_id n) (n_type n) t path)"
  proof (cases "n_type n = TOOL \<or> n_type n = DECISION")
    case False
    then show ?thesis
      using execute_llm_node_events [of en st n path]
      by (cases "llm_node_spec (n_type n)") (simp_all add: dispatch_leaf_def Let_def)
  qed (auto simp: dispatch_leaf_def Let_def)
  then have "set evs \<subseteq> range (\<lambda>t. NodeOutputChunk (n_id n) (n_type n) t path)" by (simp add: assms)
  then show ?thesis by (force simp: filter_empty_conv)
qed

lemma node_untold: "node_outcome en c st n evs r \<Longrightarrow> terminal_bodies evs = []"
proof (induction rule: node_outcome.induct)
  case (leaf_node n c st w evs r w')
  from leaf_untold [OF leaf_node(2)] show ?case by (simp add: terminal_bodies_def comp_def)
next
  case (nested_plan n q c st x)
  have "until_finished (unended (subplan_state en st n q)) (subplan_ctx c st n q) x"
    by (rule run_unended [OF _ nested_plan.IH]) blast
  then show ?case by (rule nested_untold) (simp add: subplan_ctx_def)
qed simp

section \<open>The scheduler is an executor\<close>

text \<open>\<open>Executor.execute\<close>: a run of the task's plan that publishes its events.\<close>

definition task_ctx :: "settings \<Rightarrow> (json \<Rightarrow> string) \<Rightarrow> exec_state \<Rightarrow> run_ctx" where
  "task_ctx s str st =
     \<lparr>rc_plan = (case s_plan st of None \<Rightarrow> Plan [] [] | Some p \<Rightarrow> p), rc_settings = s, rc_emit = True, rc_scope = None,
      rc_prefix = [], rc_emit_completed = True, rc_str = str\<rparr>"

text \<open>What a caller of \<open>execute\<close> sees of a run; one that still waits is one whose task was cancelled.\<close>

definition run_outcome :: "run_state \<Rightarrow> event_body list \<times> plan_exc option \<times> exec_state" where
  "run_outcome x =
     (map e_body (v_events (sched_of x)),
      (case x of Returned v \<Rightarrow> None | Raised e v \<Rightarrow> Some (PlanError (run_error_text e)) | Waiting v \<Rightarrow> Some PlanCancelled),
      v_state (sched_of x))"

lemma run_outcome_contract:
  assumes "until_finished (unended st) (task_ctx s str st) x" and "run_outcome x = (evs, e, st')"
  shows "(case e of
       None \<Rightarrow> s_status st' = TASK_COMPLETED \<and> filter is_terminal_body evs = [TaskCompleted (s_final_output st')]
     | Some _ \<Rightarrow> filter is_terminal_body evs = []) \<and> same_task_plan st st'"
proof (cases x)
  case (Returned v)
  with finished_told [of st "task_ctx s str st" v] assms show ?thesis
    by (auto simp: run_outcome_def terminal_bodies_def task_ctx_def)
qed (use unfinished_untold [OF assms(1)] assms(2) in \<open>auto simp: run_outcome_def terminal_bodies_def unended_def\<close>)

text \<open>Any implementation that ends in a reachable state of the run on real nodes keeps the contract.\<close>

definition follows_scheduler ::
  "'v node_env \<Rightarrow> (exec_state \<Rightarrow> 'w \<Rightarrow> event_body list \<times> plan_exc option \<times> exec_state \<times> 'w) \<Rightarrow> bool"
where
  "follows_scheduler en execute \<longleftrightarrow>
     (\<forall>st w evs e st' w'. execute st w = (evs, e, st', w') \<longrightarrow>
        (\<exists>x. reachable (task_ctx (ne_settings en) (ne_str en) st)
                (node_outcome en (task_ctx (ne_settings en) (ne_str en) st)) st x \<and>
             run_outcome x = (evs, e, st')))"

lemma scheduler_executes:
  assumes "follows_scheduler en execute"
  shows "task_executor execute"
proof -
  have key: "(case e of
       None \<Rightarrow> s_status st' = TASK_COMPLETED \<and> filter is_terminal_body evs = [TaskCompleted (s_final_output st')]
     | Some _ \<Rightarrow> filter is_terminal_body evs = []) \<and> same_task_plan st st'"
    if ex: "execute st w = (evs, e, st', w')" for st w evs e st' w'
  proof -
    obtain x where x: "reachable (task_ctx (ne_settings en) (ne_str en) st)
        (node_outcome en (task_ctx (ne_settings en) (ne_str en) st)) st x" "run_outcome x = (evs, e, st')"
      using assms ex unfolding follows_scheduler_def by blast
    show ?thesis by (rule run_outcome_contract [OF run_unended [OF _ x(1)] x(2)]) (rule node_untold)
  qed
  show ?thesis by unfold_locales (use key in fastforce)+
qed

text \<open>The deterministic driver of the scheduler is one; the fuel is the time of a cancellation.\<close>

definition execute_driven ::
  "settings \<Rightarrow> (json \<Rightarrow> string) \<Rightarrow> (exec_state \<Rightarrow> node \<Rightarrow> string + node_result) \<Rightarrow> nat \<Rightarrow> exec_state \<Rightarrow> 'w
     \<Rightarrow> event_body list \<times> plan_exc option \<times> exec_state \<times> 'w"
where
  "execute_driven s str f k st w =
     (case run_outcome (drive (task_ctx s str st) f k (start_run (task_ctx s str st) st)) of
        (evs, e, st') \<Rightarrow> (evs, e, st', w))"

lemma turn_unended: "unended st v \<Longrightarrow> until_finished (unended st) c (turn c v)"
  by (rule turn_until_finished) simp_all

lemma one_step_unended: "unended st v \<Longrightarrow> until_finished (unended st) c (one_step c f v)"
  by (auto simp: one_step_def Let_def turn_unended split: option.splits prod.splits flight.splits sum.splits)

lemma drive_unended: "until_finished (unended st) c x \<Longrightarrow> until_finished (unended st) c (drive c f k x)"
  by (induction c f k x rule: drive.induct) (simp_all add: one_step_unended)

lemma start_unended: "until_finished (unended st) c (start_run c st)"
proof -
  have "unended st \<lparr>v_pending = p, v_flight = [], v_state = st\<lparr>s_status := b\<rparr>, v_events = []\<rparr>"
    "unended st \<lparr>v_pending = p, v_flight = [], v_state = st, v_events = []\<rparr>" for p b
    by (simp_all add: unended_def same_task_plan_def)
  then show ?thesis by (simp add: start_run_def Let_def turn_unended)
qed

interpretation driven: task_executor "execute_driven s str f k"
proof -
  have key: "(case e of
       None \<Rightarrow> s_status st' = TASK_COMPLETED \<and> filter is_terminal_body evs = [TaskCompleted (s_final_output st')]
     | Some _ \<Rightarrow> filter is_terminal_body evs = []) \<and> same_task_plan st st'"
    if ex: "execute_driven s str f k st w = (evs, e, st', w')" for st w evs e st' w'
  proof -
    let ?c = "task_ctx s str st"
    have "until_finished (unended st) ?c (drive ?c f k (start_run ?c st))" by (rule drive_unended [OF start_unended])
    then show ?thesis
      by (rule run_outcome_contract) (use ex in \<open>auto simp: execute_driven_def split: prod.splits\<close>)
  qed
  show "task_executor (execute_driven s str f k)" by unfold_locales (use key in fastforce)+
qed

section \<open>A sample orchestrator\<close>

text \<open>The in-memory store, and a provider whose one reply is a plan with a malformed node.\<close>

definition sample_reply_tree :: json where
  "sample_reply_tree =
     JObj [(''nodes'', JList [JObj [(''id'', JInt 1), (''type'', JStr ''think''), (''description'', JStr ''t''),
                                  (''context_needed'', JInt 3)]])]"

definition sample_planner :: "memory_store planner_env" where
  "sample_planner =
     \<lparr>pe_settings = ne_settings sample_env, pe_harness = empty_harness,
      pe_router = \<lparr>ro_providers = [\<lparr>pv_name = ''p'', pv_tier = 0, pv_healthy = None,
          pv_complete = (\<lambda>msgs j mt w. (([text_chunk ''{}''], None), w))\<rparr>], ro_max_generation = None\<rparr>,
      pe_cookbook = [], pe_dumps = (\<lambda>v. ''[]''), pe_parse = (\<lambda>t. Inr sample_reply_tree), pe_str = sample_str,
      pe_repr = id, pe_hostname = id, pe_model = (\<lambda>kvs. Inl ''unused''), pe_wait = (\<lambda>t w. (InTime, w)),
      pe_write = (\<lambda>a w. (None, w)), pe_value_error = (\<lambda>t. False)\<rparr>"

definition sample_node_result :: "exec_state \<Rightarrow> node \<Rightarrow> string + node_result" where
  "sample_node_result st n = Inr ((mk_result (n_id n) COMPLETED)\<lparr>r_output := JStr ''done''\<rparr>)"

definition sample_orch :: "memory_store orch_env" where
  "sample_orch =
     \<lparr>oe_settings = ne_settings sample_env, oe_bus = True, oe_planner = sample_planner,
      oe_execute = execute_driven (ne_settings sample_env) sample_str sample_node_result 20,
      oe_load = mem_load, oe_save = mem_save, oe_transition = mem_transition\<rparr>"

section \<open>How the calls end\<close>

lemma calls_told:
  assumes "task_executor (oe_execute en)" and "oe_bus en" and "oc_trace oc = []"
    and "(r, oc') \<in> {run_task en tid oc, revise_task en tid feedback oc, resume_task en tid oc}"
  shows "told r (oc_trace oc')"
proof -
  note go = task_executor.plan_and_go_told [OF assms(1) _ refl assms(2,3)]
  from assms(4) consider "run_task en tid oc = (r, oc')" | "revise_task en tid feedback oc = (r, oc')"
    | "resume_task en tid oc = (r, oc')" by auto
  then show ?thesis
  proof cases
    case 1
    then show ?thesis
      using assms(3) go by (auto simp: run_task_def told_def split: option.splits)
  next
    case 2
    then show ?thesis
      using assms(3) go by (auto simp: revise_task_def told_def split: option.splits if_splits)
  next
    case 3
    then show ?thesis by (rule task_executor.resume_told [OF assms(1) _ refl assms(2,3)])
  qed
qed

section \<open>Properties\<close>


text \<open>
  C20: a run or a revision of a task makes at most \<open>max_replan_attempts + 1\<close> planning attempts,
  numbered from zero, and calls the executor at most once: only when no confirmation is asked
  for, and only on a plan the validator has accepted.
\<close>

theorem planning_and_execution_bounded:
  "(let tr = oc_trace (snd (run_task en tid \<lparr>oc_world = w, oc_trace = []\<rparr>));
        tr' = oc_trace (snd (revise_task en tid feedback \<lparr>oc_world = w, oc_trace = []\<rparr>))
    in list_all (\<lambda>t.
         (\<exists>k. k \<le> attempts_allowed (oe_settings en) \<and> map pq_attempt (attempted t) = [0 ..< k]) \<and>
         (executed t = [] \<or>
          (\<exists>st p. executed t = [st] \<and> s_plan st = Some p \<and> accepted en p \<and> \<not> confirm_plans (oe_settings en)))) [tr, tr'])"
proof -
  have bounded: "(\<exists>k. k \<le> attempts_allowed (oe_settings en) \<and> map pq_attempt (attempted t) = [0 ..< k]) \<and>
      (executed t = [] \<or>
       (\<exists>st p. executed t = [st] \<and> s_plan st = Some p \<and> accepted en p \<and> \<not> confirm_plans (oe_settings en)))"
    if "t = [] \<or> (\<exists>report fb st. t = oc_trace (snd (plan_and_go en report fb st \<lparr>oc_world = w, oc_trace = []\<rparr>)))" for t
    using that
  proof
    assume "\<exists>report fb st. t = oc_trace (snd (plan_and_go en report fb st \<lparr>oc_world = w, oc_trace = []\<rparr>))"
    then obtain report fb st r oc' where go: "plan_and_go en report fb st \<lparr>oc_world = w, oc_trace = []\<rparr> = (r, oc')"
      "t = oc_trace oc'" by (metis prod.collapse)
    from plan_and_go_executed [OF go(1)] go(2) show ?thesis by auto
  qed auto
  show ?thesis
    unfolding Let_def list.pred_inject
    by (intro conjI bounded [THEN conjunct1] bounded [THEN conjunct2] TrueI)
      (auto simp: run_task_def revise_task_def split: option.splits)
qed

text \<open>An exception of an attempt that is neither a \<open>ValueError\<close> nor a cancellation ends the task at
  once as failed with the text of the exception: the attempts that are left are not made, and the
  attempt is not among the recorded ones.
\<close>

theorem unexpected_error_ends_task:
  assumes "oe_load en tid w = Some st" and "0 \<le> max_replan_attempts (oe_settings en)"
    and "plan_attempt (oe_planner en) (plan_request_of en None 0 no_retry (st\<lparr>s_status := PLANNING\<rparr>)) w = (Inl (PlanError e), w')"
  shows "\<exists>st' oc'. run_task en tid \<lparr>oc_world = w, oc_trace = []\<rparr> = (TaskEnded st', oc') \<and> s_status st' = TASK_FAILED \<and>
    s_error st' = Some e \<and> length (attempted (oc_trace oc')) = 1 \<and> s_planning_attempts st' = s_planning_attempts st"
proof -
  have "[0 ..< attempts_allowed (oe_settings en)] = 0 # [1 ..< attempts_allowed (oe_settings en)]"
    using assms(2) by (simp add: attempts_allowed_def upt_conv_Cons)
  with assms show ?thesis
    by (simp add: run_task_def plan_and_go_def plan_with_retry_def plan_once_def emit_event_def note_effect_def
        close_task_def save_task_def Let_def)
qed

section \<open>On the sample orchestrator\<close>

definition gated_task :: exec_state where
  "gated_task = (new_state ''t'' ''q'' (Some result_plan))\<lparr>s_status := AWAITING_CONFIRMATION\<rparr>"

definition gated_world :: "memory_store orch" where
  "gated_world = \<lparr>oc_world = [(''t'', gated_task)], oc_trace = []\<rparr>"

lemma sample_resumed:
  "case fst (resume_task sample_orch ''t'' gated_world) of
     TaskEnded st \<Rightarrow> s_status st = TASK_COMPLETED \<and> s_final_output st = Some ''done''
   | _ \<Rightarrow> False"
  by code_simp


definition fresh_task_world :: memory_store where
  "fresh_task_world = [(''t'', new_state ''t'' ''q'' None)]"

lemma sample_attempt:
  "plan_attempt sample_planner (plan_request_of sample_orch None 0 no_retry ((new_state ''t'' ''q'' None)\<lparr>s_status := PLANNING\<rparr>))
     fresh_task_world
   = (Inl (PlanError (apostrophe @ ''int'' @ apostrophe @ '' object is not iterable'')), fresh_task_world)"
  by code_simp

theorem unexpected_error_ends_task_witness:
  "\<exists>st' oc'. run_task sample_orch ''t'' \<lparr>oc_world = fresh_task_world, oc_trace = []\<rparr> = (TaskEnded st', oc') \<and>
     s_status st' = TASK_FAILED \<and> s_planning_attempts st' = [] \<and> length (attempted (oc_trace oc')) = 1 \<and>
     attempts_allowed (oe_settings sample_orch) = 2"
proof -
  have "oe_load sample_orch ''t'' fresh_task_world = Some (new_state ''t'' ''q'' None)"
    by (simp add: sample_orch_def mem_load_def fresh_task_world_def)
  moreover have "0 \<le> max_replan_attempts (oe_settings sample_orch)" "attempts_allowed (oe_settings sample_orch) = 2"
    by (simp_all add: sample_orch_def sample_env_def default_settings_def attempts_allowed_def)
  moreover have "oe_planner sample_orch = sample_planner" by (simp add: sample_orch_def)
  ultimately show ?thesis
    using unexpected_error_ends_task [of sample_orch "''t''" fresh_task_world "new_state ''t'' ''q'' None"] sample_attempt
    by (fastforce simp: new_state_def)
qed

end
