(* ===== verification/StoredTrace.thy ===== *)
theory StoredTrace
  imports OrchestratorRun
begin

text \<open>
  What the state store holds while the orchestrator works on a task: the states a trace saves
  before its end still have the results the call started with, whatever the executor has recorded
  in the meantime.  The gateways read the store during a run.
\<close>

section \<open>The states a trace saves\<close>

definition stored :: "effect list \<Rightarrow> exec_state list" where
  "stored tr = concat (map (\<lambda>e. case e of Stored st \<Rightarrow> [st] | _ \<Rightarrow> []) tr)"

lemma stored_simps [simp]:
  "stored [] = []" "stored (e # tr) = (case e of Stored st \<Rightarrow> [st] | _ \<Rightarrow> []) @ stored tr"
  "stored (tr @ tr') = stored tr @ stored tr'"
  "stored (map Stored xs) = xs" "stored (map Emitted bs) = []"
  by (simp_all add: stored_def) (induction xs; simp)+

text \<open>What a reader finds after a part of the trace, when the call started from \<open>st0\<close>.\<close>

definition stored_at :: "exec_state \<Rightarrow> effect list \<Rightarrow> exec_state" where
  "stored_at st0 tr = (if stored tr = [] then st0 else last (stored tr))"

text \<open>A state saved during planning.\<close>

definition planning_state :: "exec_state \<Rightarrow> exec_state \<Rightarrow> bool" where
  "planning_state st0 st \<longleftrightarrow> s_results st = s_results st0 \<and> s_status st = PLANNING"

lemma plan_once_stored:
  assumes "plan_once en feedback n c st oc = (r, st', oc')"
  shows "\<exists>xs. stored (oc_trace oc') = stored (oc_trace oc) @ xs \<and>
      (\<forall>x \<in> set xs. s_results x = s_results st \<and> s_status x = s_status st) \<and> s_results st' = s_results st"
proof -
  let ?q = "plan_request_of en feedback n c st"
  obtain a w' where a: "plan_attempt (oe_planner en) ?q (oc_world oc) = (a, w')" by (metis surj_pair)
  show ?thesis
  proof (cases a)
    case (Inl e)
    with assms a show ?thesis by (cases e) (auto simp: plan_once_def Let_def)
  next
    case (Inr b)
    show ?thesis
    proof (cases "a_plan b")
      case (Some p)
      with assms a Inr show ?thesis
        by (auto simp: plan_once_def Let_def save_attempt_eq split: option.splits if_splits)
    next
      case None
      with assms a Inr show ?thesis
        by (auto simp: plan_once_def Let_def save_attempt_eq split: option.splits if_splits prod.splits)
    qed
  qed
qed

lemma plan_loop_stored:
  "plan_loop en feedback ns c st oc = (r, st', oc') \<Longrightarrow> s_status st = PLANNING \<Longrightarrow>
     \<exists>xs. stored (oc_trace oc') = stored (oc_trace oc) @ xs \<and> (\<forall>x \<in> set xs. planning_state st x) \<and>
       s_results st' = s_results st"
proof (induction en feedback ns c st oc rule: plan_loop.induct)
  case (1 en feedback c st oc)
  then show ?case by (auto simp: planning_failed_def)
next
  case (2 en feedback n ns c st oc)
  obtain x st1 oc1 where once: "plan_once en feedback n c st oc = (x, st1, oc1)" by (metis prod_cases3)
  obtain xs where xs: "stored (oc_trace oc1) = stored (oc_trace oc) @ xs"
    "\<forall>x \<in> set xs. s_results x = s_results st \<and> s_status x = s_status st" "s_results st1 = s_results st"
    using plan_once_stored [OF once] by blast
  show ?case
  proof (cases x)
    case (Stop y)
    then have "st' = st1" "oc' = oc1" using 2(2) once by simp_all
    with xs 2(3) show ?thesis by (auto simp: planning_state_def)
  next
    case (Continue c')
    have "s_status st1 = PLANNING"
      using plan_once_spec [OF once] Continue 2(3) by (auto simp: attempt_effect_def)
    moreover have "plan_loop en feedback ns c' st1 oc1 = (r, st', oc')" using 2(2) once Continue by simp
    ultimately obtain ys where "stored (oc_trace oc') = stored (oc_trace oc1) @ ys"
      "\<forall>y \<in> set ys. planning_state st1 y" "s_results st' = s_results st1"
      using 2(1) [OF once [symmetric] Continue refl] by blast
    with xs 2(3) show ?thesis by (intro exI [of _ "xs @ ys"]) (auto simp: planning_state_def)
  qed
qed

text \<open>
  What a call has saved when it ends in \<open>st\<close>: states of the planning, perhaps \<open>st\<close> itself with
  the results the call started from, and at last \<open>st\<close>.
\<close>

definition saved_until :: "exec_state \<Rightarrow> exec_state \<Rightarrow> exec_state list \<Rightarrow> bool" where
  "saved_until st0 st xs \<longleftrightarrow>
     (\<exists>ps ys. xs = ps @ ys @ [st] \<and> (\<forall>x \<in> set ps. planning_state st0 x) \<and>
        (\<forall>y \<in> set ys. y = st \<and> s_results st = s_results st0))"

lemma saved_untilI:
  "\<forall>x \<in> set ps. planning_state st0 x \<Longrightarrow> xs = ps @ [st] \<Longrightarrow> saved_until st0 st xs"
  unfolding saved_until_def by (intro exI [of _ ps] exI [of _ "[]"]) simp

definition ended_in :: "orch_end \<Rightarrow> exec_state \<Rightarrow> bool" where
  "ended_in r st \<longleftrightarrow> r = TaskEnded st \<or> r = TaskEndedCancelled st"

lemma close_stored:
  assumes "close_task en report (x, st, oc) = (r, oc')" and "ended_in r st'"
  shows "stored (oc_trace oc') = stored (oc_trace oc) @ [st']" and "x = None \<Longrightarrow> st' = st"
  using assms by (auto simp: close_task_def Let_def ended_in_def split: option.splits plan_exc.splits)

lemma run_executor_stored:
  "run_executor en st oc = (x, st', oc') \<Longrightarrow> stored (oc_trace oc') = stored (oc_trace oc)"
  by (auto simp: run_executor_def split: prod.splits)

lemma plan_and_go_stored:
  assumes "plan_and_go en report feedback st0 oc = (r, oc')" and "oc_trace oc = []" and "ended_in r st"
  shows "saved_until st0 st (stored (oc_trace oc'))"
proof -
  let ?oc = "emit_event en PlanningStarted oc"
  obtain x st1 oc1 where x: "plan_with_retry en feedback st0 ?oc = (x, st1, oc1)" by (metis prod_cases3)
  obtain ps where ps: "stored (oc_trace oc1) = ps" "\<forall>p \<in> set ps. planning_state st0 p" "s_results st1 = s_results st0"
    using plan_loop_stored [OF x [unfolded plan_with_retry_def]] assms(2) by (auto simp: planning_state_def)
  show ?thesis
  proof (cases x)
    case (Planned p)
    let ?st = "st1\<lparr>s_plan := Some p\<rparr>"
    obtain y st2 oc2 where y: "present_or_execute en ?st oc1 = (y, st2, oc2)" by (metis prod_cases3)
    then have close: "close_task en report (y, st2, oc2) = (r, oc')"
      using assms(1) x Planned by (simp add: plan_and_go_def)
    show ?thesis
    proof (cases "confirm_plans (oe_settings en)")
      case True
      let ?gate = "?st\<lparr>s_status := AWAITING_CONFIRMATION\<rparr>"
      have "y = None" "st2 = ?gate" "stored (oc_trace oc2) = ps @ [?gate]"
        using y True ps(1) by (auto simp: present_or_execute_def Let_def)
      with close_stored [OF close assms(3)] ps show ?thesis
        unfolding saved_until_def by (intro exI [of _ ps] exI [of _ "[?gate]"]) simp
    next
      case False
      then have "stored (oc_trace oc2) = ps"
        using y ps(1) run_executor_stored [of en ?st _ y st2 oc2] by (auto simp: present_or_execute_def Let_def)
      with close_stored(1) [OF close assms(3)] ps(2) show ?thesis by (intro saved_untilI) simp_all
    qed
  next
    case NoPlanFound
    then have close: "close_task en report (None, st1, save_task en st1 (emit_plan_terminal en st1 oc1)) = (r, oc')"
      using assms(1) x by (simp add: plan_and_go_def)
    from close_stored [OF this assms(3)] ps show ?thesis
      unfolding saved_until_def
      by (intro exI [of _ ps] exI [of _ "[st1]"]) (simp add: emit_plan_terminal_def)
  next
    case (PlanningRaised e)
    then have "close_task en report (Some e, st1, oc1) = (r, oc')" using assms(1) x by (simp add: plan_and_go_def)
    from close_stored(1) [OF this assms(3)] ps show ?thesis by (intro saved_untilI) simp_all
  qed
qed

lemma run_stored:
  assumes "run_task en tid oc = (r, oc')" and "oc_trace oc = []" and "ended_in r st"
    and "oe_load en tid (oc_world oc) = Some st0"
  shows "saved_until st0 st (stored (oc_trace oc'))"
  using assms plan_and_go_stored by (simp add: run_task_def)

lemma resume_stored:
  assumes "resume_task en tid oc = (r, oc')" and "oc_trace oc = []" and "ended_in r st"
  shows "stored (oc_trace oc') = [st]"
proof -
  obtain x w' where x: "oe_transition en tid [AWAITING_CONFIRMATION, PAUSED, RESUMING] EXECUTING (oc_world oc) = (x, w')"
    by (metis surj_pair)
  show ?thesis
  proof (cases x)
    case None
    with assms x show ?thesis by (auto simp: resume_task_def Let_def ended_in_def split: option.splits)
  next
    case (Some st1)
    obtain y st2 oc2 where y: "run_executor en st1 (oc\<lparr>oc_world := w'\<rparr>) = (y, st2, oc2)" by (metis prod_cases3)
    then have "close_task en s_planning_attempts (y, st2, oc2) = (r, oc')"
      using assms(1) x Some by (simp add: resume_task_def)
    from close_stored(1) [OF this assms(3)] run_executor_stored [OF y] assms(2) show ?thesis by simp
  qed
qed

text \<open>A run that ends has saved a state last.\<close>

lemma close_saves_last: "close_task en report y = (r, oc') \<Longrightarrow> \<exists>x. last (oc_trace oc') = Stored x"
  by (auto simp: close_task_def save_task_def note_effect_def Let_def split: prod.splits option.splits plan_exc.splits)

lemma close_ends: "close_task en report y = (r, oc') \<Longrightarrow> \<exists>st. ended_in r st"
  by (auto simp: close_task_def ended_in_def Let_def split: prod.splits option.splits plan_exc.splits)

lemma known_task_ends:
  assumes "run_task en tid oc = (r, oc')" and "oe_load en tid (oc_world oc) \<noteq> None"
  shows "\<exists>st. ended_in r st"
  using assms by (auto simp: run_task_def plan_and_go_def close_ends split: prod.splits plan_end.splits)

lemma run_saves_last:
  assumes "run_task en tid oc = (r, oc')" and "ended_in r st"
  shows "\<exists>x. last (oc_trace oc') = Stored x"
proof (cases "oe_load en tid (oc_world oc)")
  case None
  with assms show ?thesis by (auto simp: run_task_def ended_in_def)
next
  case (Some st0)
  with assms(1) obtain report feedback st1 oc1 where "plan_and_go en report feedback st1 oc1 = (r, oc')"
    by (auto simp: run_task_def)
  then show ?thesis
    by (auto simp: plan_and_go_def close_saves_last split: prod.splits plan_end.splits)
qed

text \<open>Before the last effect the store still has the old results.\<close>

lemma stored_at_results:
  assumes "saved_until st0 st (stored tr)" and "tr = pre @ e # post" and "\<exists>x. last tr = Stored x"
  shows "s_results (stored_at st0 pre) = s_results st0"
proof -
  obtain ps ys where s: "stored tr = ps @ ys @ [st]" "\<forall>x \<in> set ps. planning_state st0 x"
    "\<forall>y \<in> set ys. y = st \<and> s_results st = s_results st0"
    using assms(1) unfolding saved_until_def by blast
  have "stored (e # post) \<noteq> []"
  proof -
    obtain x where "last (e # post) = Stored x" using assms(2,3) by auto
    then have "Stored x \<in> set (e # post)" by (metis last_in_set list.distinct(1))
    then show ?thesis by (force simp: stored_def)
  qed
  then obtain zs z where z: "stored (e # post) = zs @ [z]" by (metis rev_exhaust)
  have "stored pre @ zs @ [z] = (ps @ ys) @ [st]" using s(1) assms(2) z by simp
  then have "stored pre @ zs = ps @ ys" by (metis append.assoc append1_eq_conv)
  then have "set (stored pre) \<subseteq> set ps \<union> set ys" by (metis Un_upper1 set_append)
  then have "\<forall>x \<in> set (stored pre). s_results x = s_results st0"
    using s(2,3) by (auto simp: planning_state_def)
  then show ?thesis by (simp add: stored_at_def)
qed

text \<open>What a reader may find: the state the call started from, one of its planning, or the last one.\<close>

lemma stored_at_cases:
  assumes "saved_until st0 st (stored tr)" and "tr = pre @ post"
  shows "stored_at st0 pre = st0 \<or> planning_state st0 (stored_at st0 pre) \<or> stored_at st0 pre = st"
    and "post = [] \<Longrightarrow> stored_at st0 pre = st"
proof -
  obtain ps ys where s: "stored tr = ps @ ys @ [st]" "\<forall>x \<in> set ps. planning_state st0 x"
    "\<forall>y \<in> set ys. y = st \<and> s_results st = s_results st0"
    using assms(1) unfolding saved_until_def by blast
  show "post = [] \<Longrightarrow> stored_at st0 pre = st" using s(1) assms(2) by (simp add: stored_at_def)
  have "set (stored pre) \<subseteq> set (stored tr)" using assms(2) by simp
  then have "x = st \<or> planning_state st0 x" if "x \<in> set (stored pre)" for x using s that by auto
  then show "stored_at st0 pre = st0 \<or> planning_state st0 (stored_at st0 pre) \<or> stored_at st0 pre = st"
    unfolding stored_at_def by (metis last_in_set)
qed

end
