(* ===== verification/Wire.thy ===== *)
theory Wire
  imports Events ToolHarness PlanPayload
begin

text \<open>
  The JSON form of plans, planning attempts and events: \<open>model_dump(mode="json")\<close> of the pydantic
  models of \<open>core/plan.py\<close>, \<open>core/execution.py\<close> and \<open>events/types.py\<close>, one entry per field in
  declaration order.  Time stamps are left out.
\<close>

section \<open>Plans\<close>

definition json_of_option :: "('a \<Rightarrow> json) \<Rightarrow> 'a option \<Rightarrow> json" where
  "json_of_option f x = (case x of None \<Rightarrow> JNull | Some v \<Rightarrow> f v)"

definition json_ints :: "int list \<Rightarrow> json" where
  "json_ints is = JList (map JInt is)"

fun summary_format_value :: "summary_format \<Rightarrow> string" where
  "summary_format_value CONCISE = ''concise''"
| "summary_format_value MEDIUM = ''medium''"
| "summary_format_value VERBOSE = ''verbose''"

fun node_status_value :: "node_status \<Rightarrow> string" where
  "node_status_value PENDING = ''pending''"
| "node_status_value COMPLETED = ''completed''"
| "node_status_value SKIPPED = ''skipped''"
| "node_status_value FAILED = ''failed''"
| "node_status_value EMPTY = ''empty''"

fun node_dump :: "node \<Rightarrow> (string \<times> json) list"
  and plan_dump :: "plan \<Rightarrow> (string \<times> json) list" where
  "node_dump (Node i t desc tool args ctx cond brs dflt reasoning tier sub fmt) =
     [(''id'', JInt i), (''type'', JStr (node_type_value t)), (''description'', JStr desc),
      (''tool'', json_of_option JStr tool), (''args_template'', json_of_option JObj args),
      (''context_needed'', json_ints ctx), (''condition'', json_of_option JStr cond),
      (''branches'', json_of_option (\<lambda>bs. JObj (map (\<lambda>(b, ts). (b, json_ints ts)) bs)) brs),
      (''default_branch'', json_of_option JStr dflt), (''reasoning_required'', JBool reasoning),
      (''forced_tier'', json_of_option JInt tier),
      (''subplan'', (case sub of None \<Rightarrow> JNull | Some q \<Rightarrow> JObj (plan_dump q))),
      (''format'', json_of_option (\<lambda>f. JStr (summary_format_value f)) fmt)]"
| "plan_dump (Plan ns ids) =
     [(''nodes'', JList (map (\<lambda>n. JObj (node_dump n)) ns)), (''sorted_node_ids'', json_ints ids)]"

section \<open>Attempts and events\<close>

definition attempt_dump :: "planning_attempt \<Rightarrow> (string \<times> json) list" where
  "attempt_dump a =
     [(''attempt'', JInt (int (a_attempt a))), (''raw_output'', JStr (a_raw_output a)),
      (''parsed'', json_of_option JObj (a_parsed a)),
      (''plan'', json_of_option (\<lambda>p. JObj (plan_dump p)) (a_plan a)),
      (''error'', json_of_option JStr (a_error a)), (''error_type'', json_of_option JStr (a_error_type a)),
      (''error_detail'', json_of_option JStr (a_error_detail a)), (''tokens_used'', JInt (a_tokens_used a)),
      (''filepath'', json_of_option JStr (a_filepath a))]"

definition json_attempts :: "planning_attempt list \<Rightarrow> json" where
  "json_attempts as = JList (map (\<lambda>a. JObj (attempt_dump a)) as)"

fun event_type :: "event_body \<Rightarrow> string" where
  "event_type PlanningStarted = ''planning_started''"
| "event_type (PlanReady k p) = ''plan_ready''"
| "event_type (PlanFailed e as fp) = ''plan_failed''"
| "event_type (PlanRejected r) = ''plan_rejected''"
| "event_type (AwaitingConfirmation k) = ''awaiting_confirmation''"
| "event_type (NodeStarted i t tier path) = ''node_started''"
| "event_type (NodeFinished i s c f tier e path) = ''node_finished''"
| "event_type (NodeOutputChunk i t txt path) = ''node_output_chunk''"
| "event_type (ToolApprovalRequested a i tool risk args desc) = ''tool_approval_requested''"
| "event_type (BranchDecided i b c path) = ''branch_decided''"
| "event_type (TaskCompleted out) = ''task_completed''"
| "event_type (TaskFailed e as) = ''task_failed''"
| "event_type TaskCancelled = ''task_cancelled''"

fun body_fields :: "event_body \<Rightarrow> (string \<times> json) list" where
  "body_fields PlanningStarted = []"
| "body_fields (PlanReady k p) =
     [(''node_count'', JInt (int k)), (''plan'', json_of_option (\<lambda>q. JObj (plan_dump q)) p)]"
| "body_fields (PlanFailed e as fp) =
     [(''error'', JStr e), (''attempts'', json_attempts as), (''filepath'', json_of_option JStr fp)]"
| "body_fields (PlanRejected r) = [(''reason'', JStr r)]"
| "body_fields (AwaitingConfirmation k) = [(''node_count'', JInt (int k))]"
| "body_fields (NodeStarted i t tier path) =
     [(''node_id'', JInt i), (''node_type'', JStr (node_type_value t)), (''tier'', JInt tier),
      (''node_path'', json_of_option JStr path)]"
| "body_fields (NodeFinished i s c f tier e path) =
     [(''node_id'', JInt i), (''status'', JStr (node_status_value s)), (''confidence'', JFloat c),
      (''flagged'', JBool f), (''tier_used'', json_of_option JInt tier), (''error'', json_of_option JStr e),
      (''node_path'', json_of_option JStr path)]"
| "body_fields (NodeOutputChunk i t txt path) =
     [(''node_id'', JInt i), (''node_type'', JStr (node_type_value t)), (''text'', JStr txt),
      (''node_path'', json_of_option JStr path)]"
| "body_fields (ToolApprovalRequested a i tool risk args desc) =
     [(''approval_id'', JStr a), (''node_id'', JInt i), (''tool_name'', JStr tool), (''risk'', JStr (risk_value risk)),
      (''args'', JObj args), (''description'', JStr desc)]"
| "body_fields (BranchDecided i b c path) =
     [(''node_id'', JInt i), (''branch_taken'', json_of_option JStr b), (''confidence'', JFloat c),
      (''node_path'', json_of_option JStr path)]"
| "body_fields (TaskCompleted out) = [(''final_output'', json_of_option JStr out)]"
| "body_fields (TaskFailed e as) = [(''error'', JStr e), (''attempts'', json_attempts as)]"
| "body_fields TaskCancelled = []"

definition event_dump :: "event \<Rightarrow> (string \<times> json) list" where
  "event_dump e = [(''task_id'', JStr (e_task e)), (''type'', JStr (event_type (e_body e)))] @ body_fields (e_body e)"

text \<open>\<open>getattr(event, "node_path", None)\<close>.\<close>

fun event_path :: "event_body \<Rightarrow> string option" where
  "event_path (NodeStarted i t tier path) = path"
| "event_path (NodeFinished i s c f tier e path) = path"
| "event_path (NodeOutputChunk i t txt path) = path"
| "event_path (BranchDecided i b c path) = path"
| "event_path _ = None"

section \<open>Reading a dump\<close>

lemma jget_Nil [simp]: "jget [] k = JNull"
  by (simp add: jget_def)

lemma jget_Cons [simp]: "jget ((k', v) # kvs) k = (if k = k' then v else jget kvs k)"
  by (simp add: jget_def)

lemma plan_dump_fields [simp]:
  "jget (plan_dump p) ''nodes'' = JList (map (\<lambda>n. JObj (node_dump n)) (p_nodes p))"
  "jget (plan_dump p) ''sorted_node_ids'' = json_ints (p_sorted_node_ids p)"
  by (cases p; simp)+

lemma node_dump_fields [simp]:
  "jget (node_dump n) ''id'' = JInt (n_id n)"
  "jget (node_dump n) ''type'' = JStr (node_type_value (n_type n))"
  "jget (node_dump n) ''description'' = JStr (n_description n)"
  "jget (node_dump n) ''tool'' = json_of_option JStr (n_tool n)"
  "jget (node_dump n) ''args_template'' = json_of_option JObj (n_args_template n)"
  "jget (node_dump n) ''context_needed'' = json_ints (n_context_needed n)"
  "jget (node_dump n) ''branches'' =
     json_of_option (\<lambda>bs. JObj (map (\<lambda>(b, ts). (b, json_ints ts)) bs)) (n_branches n)"
  by (cases n; simp)+

end
