(* ===== verification/RestGateway.thy ===== *)
theory RestGateway
  imports StoredTrace StateStore Wire
begin

text \<open>
  The HTTP surface (\<open>gateways/rest/app.py\<close>): authorisation, the routes as functions of the store
  and the background jobs they leave behind, and the event streams.  FastAPI's routing and the
  validation of request bodies are left out; a response is a status with its JSON body.
\<close>

section \<open>Authorisation\<close>

text \<open>\<open>secrets.compare_digest\<close> on strings: a \<open>TypeError\<close> unless both are ASCII.\<close>

definition is_ascii :: "string \<Rightarrow> bool" where
  "is_ascii s = list_all (\<lambda>c. (of_char c :: nat) < 128) s"

definition compare_digest :: "string \<Rightarrow> string \<Rightarrow> string + bool" where
  "compare_digest a b =
     (if is_ascii a \<and> is_ascii b then Inr (a = b)
      else Inl ''comparing strings with non-ASCII characters is not supported'')"

definition bearer :: string where
  "bearer = ''Bearer ''"

definition authorized_header :: "string option \<Rightarrow> string option \<Rightarrow> string + bool" where
  "authorized_header val key =
     (case key of
        None \<Rightarrow> Inr True
      | Some k \<Rightarrow>
          (case val of
             None \<Rightarrow> Inr False
           | Some v \<Rightarrow>
               if \<not> starts_with bearer v then Inr False
               else compare_digest (strip (drop (length bearer) v)) k))"

text \<open>The last argument is the \<open>api_key\<close> of the query.\<close>

definition authorized_ws :: "string option \<Rightarrow> string option \<Rightarrow> string option \<Rightarrow> string + bool" where
  "authorized_ws val query key =
     (case key of
        None \<Rightarrow> Inr True
      | Some k \<Rightarrow>
          (case authorized_header val key of
             Inl e \<Rightarrow> Inl e
           | Inr True \<Rightarrow> Inr True
           | Inr False \<Rightarrow> (case query of None \<Rightarrow> Inr False | Some q \<Rightarrow> compare_digest q k)))"

section \<open>Responses\<close>

datatype rest_response = Response nat json | EventStream

datatype job = RunJob string | ResumeJob string

definition http_error :: "nat \<Rightarrow> string \<Rightarrow> rest_response" where
  "http_error code t = Response code (JObj [(''detail'', JStr t)])"

text \<open>Starlette's answer to an exception nobody handled.\<close>

definition server_error :: rest_response where
  "server_error = Response 500 (JStr ''Internal Server Error'')"

definition require_bearer :: "string \<Rightarrow> string option \<Rightarrow> string option \<Rightarrow> rest_response \<Rightarrow> rest_response" where
  "require_bearer url header key handled =
     (if url = ''/health'' then handled
      else case authorized_header header key of
        Inl e \<Rightarrow> server_error
      | Inr True \<Rightarrow> handled
      | Inr False \<Rightarrow> http_error 401 ''Unauthorized'')"

section \<open>The routes\<close>

record 'w rest_env =
  re_load :: "string \<Rightarrow> 'w \<Rightarrow> string + exec_state option"
  re_save :: "exec_state \<Rightarrow> 'w \<Rightarrow> 'w"
  re_transition :: "string \<Rightarrow> task_status list \<Rightarrow> task_status \<Rightarrow> 'w \<Rightarrow> (string + exec_state option) \<times> 'w"
  re_bus :: bool

definition submit_task :: "'w rest_env \<Rightarrow> string \<Rightarrow> string \<Rightarrow> 'w \<Rightarrow> rest_response \<times> job list \<times> 'w" where
  "submit_task en tid req w =
     (let st = new_state tid req None
      in (Response 202 (JObj [(''task_id'', JStr tid), (''status'', JStr (status_value (s_status st)))]),
          [RunJob tid], re_save en st w))"

text \<open>The JSON form of a state; the keys of \<open>results\<close> become strings.\<close>

definition result_dump :: "node_result \<Rightarrow> (string \<times> json) list" where
  "result_dump r =
     [(''node_id'', JInt (r_node_id r)), (''status'', JStr (node_status_value (r_status r))), (''output'', r_output r),
      (''branch_taken'', json_of_option JStr (r_branch_taken r)), (''args_used'', json_of_option JObj (r_args_used r)),
      (''confidence'', JFloat (r_confidence r)), (''flagged'', JBool (r_flagged r)),
      (''tokens_used'', JInt (r_tokens_used r)), (''retries'', JInt (int (r_retries r))),
      (''error'', json_of_option JStr (r_error r)), (''tier_used'', json_of_option JInt (r_tier_used r))]"

definition branch_dump :: "branch_log_entry \<Rightarrow> (string \<times> json) list" where
  "branch_dump b =
     [(''node_id'', JInt (b_node_id b)), (''condition'', json_of_option JStr (b_condition b)),
      (''branch_taken'', json_of_option JStr (b_branch_taken b)), (''confidence'', JFloat (b_confidence b))]"

definition state_dump :: "exec_state \<Rightarrow> (string \<times> json) list" where
  "state_dump st =
     [(''task_id'', JStr (s_task_id st)), (''user_request'', JStr (s_user_request st)),
      (''plan'', json_of_option (\<lambda>p. JObj (plan_dump p)) (s_plan st)),
      (''results'', JObj (map (\<lambda>(i, r). (str_int i, JObj (result_dump r))) (s_results st))),
      (''completed_nodes'', json_ints (s_completed_nodes st)), (''skipped_nodes'', json_ints (s_skipped_nodes st)),
      (''branch_log'', JList (map (\<lambda>b. JObj (branch_dump b)) (s_branch_log st))),
      (''planning_attempts'', json_attempts (s_planning_attempts st)),
      (''status'', JStr (status_value (s_status st))), (''replan_count'', JInt (int (s_replan_count st))),
      (''final_output'', json_of_option JStr (s_final_output st)), (''error'', json_of_option JStr (s_error st))]"

definition with_task :: "'w rest_env \<Rightarrow> string \<Rightarrow> 'w \<Rightarrow> (exec_state \<Rightarrow> rest_response) \<Rightarrow> rest_response" where
  "with_task en tid w f =
     (case re_load en tid w of
        Inl e \<Rightarrow> server_error
      | Inr None \<Rightarrow> http_error 404 ''Task not found''
      | Inr (Some st) \<Rightarrow> f st)"

definition get_task :: "'w rest_env \<Rightarrow> string \<Rightarrow> 'w \<Rightarrow> rest_response" where
  "get_task en tid w = with_task en tid w (\<lambda>st. Response 200 (JObj (state_dump st)))"

definition flagged_node :: "node_result \<Rightarrow> json" where
  "flagged_node r = JObj
     [(''node_id'', JInt (r_node_id r)), (''confidence'', JFloat (r_confidence r)), (''error'', json_of_option JStr (r_error r))]"

definition get_branch_log :: "'w rest_env \<Rightarrow> string \<Rightarrow> 'w \<Rightarrow> rest_response" where
  "get_branch_log en tid w = with_task en tid w (\<lambda>st. Response 200
     (JObj [(''task_id'', JStr tid), (''branch_log'', JList (map (\<lambda>b. JObj (branch_dump b)) (s_branch_log st))),
            (''flagged_nodes'', JList (map flagged_node (filter r_flagged (map snd (s_results st)))))]))"

definition task_events :: "'w rest_env \<Rightarrow> string \<Rightarrow> 'w \<Rightarrow> rest_response" where
  "task_events en tid w =
     (if \<not> re_bus en then http_error 503 ''Event stream not configured''
      else with_task en tid w (\<lambda>st. EventStream))"

definition list_tools_route :: "'v harness \<Rightarrow> rest_response" where
  "list_tools_route h = Response 200 (JObj [(''tools'', JList (all_schemas h))])"

definition health :: rest_response where
  "health = Response 200 (JObj [(''status'', JStr ''ok'')])"

text \<open>
  \<open>resume_task\<close> suspends between its load and its claim, so a handler is a value that other
  handlers can overtake.
\<close>

datatype resume_at = ToLoad | ToClaim string | Answered rest_response "job list"

definition resumable :: "task_status list" where
  "resumable = [AWAITING_CONFIRMATION, PAUSED]"

definition resume_step :: "'w rest_env \<Rightarrow> string \<Rightarrow> resume_at \<Rightarrow> 'w \<Rightarrow> resume_at \<times> 'w" where
  "resume_step en tid h w =
     (case h of
        ToLoad \<Rightarrow>
          (case re_load en tid w of
             Inl e \<Rightarrow> (Answered server_error [], w)
           | Inr None \<Rightarrow> (Answered (http_error 404 ''Task not found'') [], w)
           | Inr (Some st) \<Rightarrow>
               if s_status st \<notin> set resumable
               then (Answered (http_error 400 (''Task is in status '' @ apostrophe @ status_value (s_status st) @
                       apostrophe @ '', not resumable'')) [], w)
               else (ToClaim (s_task_id st), w))
      | ToClaim t \<Rightarrow>
          (case re_transition en t resumable RESUMING w of
             (Inl e, w') \<Rightarrow> (Answered server_error [], w')
           | (Inr None, w') \<Rightarrow> (Answered (http_error 409 ''Task resume was already claimed'') [], w')
           | (Inr (Some st), w') \<Rightarrow>
               (Answered (Response 200 (JObj [(''task_id'', JStr tid), (''status'', JStr ''resuming'')])) [ResumeJob tid], w'))
      | Answered r js \<Rightarrow> (h, w))"

text \<open>Handlers of several requests for one task; the schedule says who goes on.\<close>

fun run_resumes :: "'w rest_env \<Rightarrow> string \<Rightarrow> nat list \<Rightarrow> resume_at list \<Rightarrow> 'w \<Rightarrow> resume_at list \<times> 'w" where
  "run_resumes en tid [] hs w = (hs, w)"
| "run_resumes en tid (i # is) hs w =
     (if i < length hs
      then (case resume_step en tid (hs ! i) w of (h, w') \<Rightarrow> run_resumes en tid is (hs[i := h]) w')
      else run_resumes en tid is hs w)"

definition jobs_of :: "resume_at \<Rightarrow> job list" where
  "jobs_of h = (case h of Answered r js \<Rightarrow> js | _ \<Rightarrow> [])"

section \<open>Event streams\<close>

definition terminal_snapshot :: "exec_state \<Rightarrow> event_body option" where
  "terminal_snapshot st =
     (let err = (case s_error st of None \<Rightarrow> ''task failed'' | Some e \<Rightarrow> if e = [] then ''task failed'' else e)
      in case s_status st of
           TASK_COMPLETED \<Rightarrow> Some (TaskCompleted (s_final_output st))
         | TASK_FAILED \<Rightarrow>
             Some (TaskFailed err (if s_plan st = None \<and> s_planning_attempts st \<noteq> [] then s_planning_attempts st else []))
         | AWAITING_CONFIRMATION \<Rightarrow>
             Some (AwaitingConfirmation (case s_plan st of None \<Rightarrow> 0 | Some p \<Rightarrow> length (p_nodes p)))
         | CANCELLED \<Rightarrow> Some TaskCancelled
         | _ \<Rightarrow> None)"

datatype frame = Data event | Keepalive

definition frame_text :: "(json \<Rightarrow> string) \<Rightarrow> frame \<Rightarrow> string" where
  "frame_text dumps f =
     (case f of
        Data e \<Rightarrow> ''data: '' @ dumps (JObj (event_dump e)) @ newline @ newline
      | Keepalive \<Rightarrow> '': keepalive'' @ newline @ newline)"

text \<open>What a subscriber waits for: an event in time, or the timeout.\<close>

datatype wait = Arrives event | TimesOut

datatype stream_end = StreamWaits | StreamClosed | StreamAsserts

fun live_stream :: "string \<Rightarrow> wait list \<Rightarrow> frame list \<times> stream_end" where
  "live_stream tid [] = ([], StreamWaits)"
| "live_stream tid (TimesOut # ws) = (case live_stream tid ws of (fs, x) \<Rightarrow> (Keepalive # fs, x))"
| "live_stream tid (Arrives e # ws) =
     (if e_task e \<noteq> tid then ([], StreamAsserts)
      else if is_terminal e then ([Data e], StreamClosed)
      else (case live_stream tid ws of (fs, x) \<Rightarrow> (Data e # fs, x)))"

text \<open>\<open>found\<close> is what the store holds when it is read, after the subscription.\<close>

definition event_stream :: "string \<Rightarrow> exec_state option \<Rightarrow> wait list \<Rightarrow> frame list \<times> stream_end" where
  "event_stream tid found ws =
     (case Option.bind found terminal_snapshot of
        Some b \<Rightarrow> ([Data (Event (s_task_id (the found)) b)], StreamClosed)
      | None \<Rightarrow> live_stream tid ws)"

text \<open>\<open>_event_source\<close>, which the websocket sends as texts.\<close>

fun live_source :: "string \<Rightarrow> event list \<Rightarrow> event list \<times> stream_end" where
  "live_source tid [] = ([], StreamWaits)"
| "live_source tid (e # es) =
     (if e_task e \<noteq> tid then ([], StreamAsserts)
      else if is_terminal e then ([e], StreamClosed)
      else (case live_source tid es of (fs, x) \<Rightarrow> (e # fs, x)))"

definition event_source :: "string \<Rightarrow> exec_state option \<Rightarrow> event list \<Rightarrow> event list \<times> stream_end" where
  "event_source tid found es =
     (case Option.bind found terminal_snapshot of
        Some b \<Rightarrow> ([Event (s_task_id (the found)) b], StreamClosed)
      | None \<Rightarrow> live_source tid es)"

datatype socket = Refused nat string | SocketStream | SocketFails

definition task_events_ws :: "'w rest_env \<Rightarrow> string option \<Rightarrow> string option \<Rightarrow> string option \<Rightarrow> string \<Rightarrow> 'w \<Rightarrow> socket" where
  "task_events_ws en header query key tid w =
     (case authorized_ws header query key of
        Inl e \<Rightarrow> SocketFails
      | Inr False \<Rightarrow> Refused 1008 ''Unauthorized''
      | Inr True \<Rightarrow>
          if \<not> re_bus en then Refused 1011 ''Event stream not configured''
          else (case re_load en tid w of
                  Inl e \<Rightarrow> SocketFails
                | Inr None \<Rightarrow> Refused 1008 ''Task not found''
                | Inr (Some st) \<Rightarrow> SocketStream))"

section \<open>Building the application\<close>

text \<open>Which collaborators were given; the key of the runtime, or \<open>None\<close> when the wiring waits for the lifespan.\<close>

definition explicit_runtime :: "bool \<Rightarrow> bool \<Rightarrow> bool \<Rightarrow> string option \<Rightarrow> string option \<Rightarrow> string + string option option" where
  "explicit_runtime orchestrator store harness key settings_key =
     (if orchestrator \<or> store \<or> harness then
        if \<not> orchestrator \<or> \<not> store \<or> \<not> harness
        then Inl ''orchestrator, store, and harness must be provided together''
        else Inr (Some (case key of Some k \<Rightarrow> Some k | None \<Rightarrow> settings_key))
      else Inr None)"

section \<open>When a stream ends\<close>

definition arrivals :: "wait list \<Rightarrow> event list" where
  "arrivals ws = concat (map (\<lambda>x. case x of Arrives e \<Rightarrow> [e] | TimesOut \<Rightarrow> []) ws)"

lemma arrivals_simps [simp]:
  "arrivals [] = []" "arrivals (TimesOut # ws) = arrivals ws" "arrivals (Arrives e # ws) = e # arrivals ws"
  by (simp_all add: arrivals_def)

lemma live_stream_end:
  assumes "list_all (\<lambda>e. e_task e = tid) (arrivals ws)"
  shows "case filter is_terminal (arrivals ws) of
      [] \<Rightarrow> snd (live_stream tid ws) = StreamWaits
    | e # es \<Rightarrow> snd (live_stream tid ws) = StreamClosed \<and> fst (live_stream tid ws) \<noteq> [] \<and> last (fst (live_stream tid ws)) = Data e"
  using assms
proof (induction tid ws rule: live_stream.induct)
  case (2 tid ws)
  then show ?case by (auto split: list.splits prod.splits)
next
  case (3 tid e ws)
  then show ?case by (cases "is_terminal e") (auto split: list.splits prod.splits)
qed simp

text \<open>Both transports send the same events.\<close>

lemma live_source_frames:
  "live_source tid (arrivals ws) = (case live_stream tid ws of (fs, x) \<Rightarrow>
     (concat (map (\<lambda>f. case f of Data e \<Rightarrow> [e] | Keepalive \<Rightarrow> []) fs), x))"
  by (induction tid ws rule: live_stream.induct) (auto split: prod.splits)

lemma sockets_send_the_frames:
  "event_source tid found (arrivals ws) = (case event_stream tid found ws of (fs, x) \<Rightarrow>
     (concat (map (\<lambda>f. case f of Data e \<Rightarrow> [e] | Keepalive \<Rightarrow> []) fs), x))"
  by (auto simp: event_source_def event_stream_def live_source_frames split: option.split)

text \<open>An event that shows how a task has ended: the one the run published, or the snapshot.\<close>

definition shows_end :: "exec_state \<Rightarrow> event_body \<Rightarrow> bool" where
  "shows_end st b \<longleftrightarrow> tells st b \<or> terminal_snapshot st = Some b"

lemma told_snapshot: "tells st b \<Longrightarrow> terminal_snapshot st = None \<longleftrightarrow> s_status st = REJECTED"
  by (cases b) (auto simp: tells_def terminal_snapshot_def Let_def)



section \<open>A resume is claimed once\<close>

definition resume_count :: "resume_at list \<Rightarrow> nat" where
  "resume_count hs = length (concat (map jobs_of hs))"

lemma resume_count_update:
  "i < length hs \<Longrightarrow> jobs_of (hs ! i) = [] \<Longrightarrow> resume_count (hs[i := h]) = resume_count hs + length (jobs_of h)"
proof (induction hs arbitrary: i)
  case (Cons x hs)
  then show ?case by (cases i) (simp_all add: resume_count_def)
qed simp

text \<open>
  The invariant: at most one job has been left, and after it the task is not resumable any more; a
  handler that is to claim has read the id of its own task.
\<close>

definition claims_ok :: "('w \<Rightarrow> string \<Rightarrow> exec_state option) \<Rightarrow> string \<Rightarrow> resume_at list \<Rightarrow> 'w \<Rightarrow> bool" where
  "claims_ok view tid hs w \<longleftrightarrow>
     (\<forall>t. ToClaim t \<in> set hs \<longrightarrow> t = tid) \<and>
     (resume_count hs = 0 \<or>
      resume_count hs = 1 \<and> (\<exists>st. view w tid = Some st \<and> s_status st \<notin> set resumable))"

context state_store
begin

lemma resume_step_ok:
  assumes "valid w" and "i < length hs" and "claims_ok view tid hs w"
    and "re_load en = load" and "re_transition en = transition"
    and "resume_step en tid (hs ! i) w = (h, w')"
  shows "valid w' \<and> claims_ok view tid (hs[i := h]) w'"
proof -
  have mem: "t = tid" if "ToClaim t \<in> set (hs[i := h'])" "\<And>u. h' = ToClaim u \<Longrightarrow> u = tid" for t h'
    using that assms(3) set_update_subset_insert [of hs i h'] unfolding claims_ok_def by blast
  show ?thesis
  proof (cases "hs ! i")
    case ToLoad
    have same: "w' = w" and h: "jobs_of h = []" "\<And>u. h = ToClaim u \<Longrightarrow> u = tid"
      using assms(4,6) ToLoad load_view [OF assms(1), of tid] view_id [OF assms(1)]
      by (auto simp: resume_step_def jobs_of_def split: option.splits if_splits)
    have "resume_count (hs[i := h]) = resume_count hs"
      using resume_count_update [OF assms(2), of h] ToLoad h(1) by (simp add: jobs_of_def)
    with assms(1,3) same mem [of _ h] h(2) show ?thesis by (auto simp: claims_ok_def)
  next
    case (ToClaim t)
    then have "t = tid" using assms(2,3) nth_mem [of i hs] unfolding claims_ok_def by fastforce
    obtain r w1 where tr: "transition tid resumable RESUMING w = (r, w1)" by fastforce
    note step = transition_view [OF assms(1) tr]
    have count: "resume_count (hs[i := h]) = resume_count hs + length (jobs_of h)"
      using resume_count_update [OF assms(2), of h] ToClaim by (simp add: jobs_of_def)
    have no_claim: "\<And>u. h \<noteq> ToClaim u" and w': "w' = w1"
      using assms(5,6) ToClaim \<open>t = tid\<close> tr by (auto simp: resume_step_def split: sum.splits option.splits)
    have res: "RESUMING \<notin> set resumable" by (simp add: resumable_def)
    show ?thesis
    proof (cases "\<exists>st. r = Inr (Some st)")
      case True
      then obtain st where st: "r = Inr (Some st)" by blast
      then obtain st0 where "view w tid = Some st0" "s_status st0 \<in> set resumable"
        "view w1 = (view w)(tid \<mapsto> st0\<lparr>s_status := RESUMING\<rparr>)" "valid w1"
        using step by (auto split: option.splits if_splits)
      moreover have "length (jobs_of h) = 1"
        using assms(5,6) ToClaim \<open>t = tid\<close> tr st by (auto simp: resume_step_def jobs_of_def)
      moreover have "resume_count hs = 0" using assms(3) calculation(1,2) by (auto simp: claims_ok_def)
      ultimately show ?thesis using count w' res mem [of _ h] no_claim by (auto simp: claims_ok_def)
    next
      case False
      then have "view w1 = view w" "valid w1" using step by (auto split: option.splits if_splits)
      moreover have "jobs_of h = []"
        using assms(5,6) ToClaim \<open>t = tid\<close> tr False by (auto simp: resume_step_def jobs_of_def split: sum.splits option.splits)
      ultimately show ?thesis using count w' assms(3) mem [of _ h] no_claim by (auto simp: claims_ok_def)
    qed
  next
    case (Answered r js)
    with assms show ?thesis by (simp add: resume_step_def) (metis list_update_id)
  qed
qed

lemma resumes_claimed_once:
  assumes "re_load en = load" and "re_transition en = transition"
  shows "valid w \<Longrightarrow> claims_ok view tid hs w \<Longrightarrow> run_resumes en tid is hs w = (hs', w') \<Longrightarrow>
    valid w' \<and> claims_ok view tid hs' w'"
proof (induction "is" arbitrary: hs w)
  case (Cons i "is")
  show ?case
  proof (cases "i < length hs")
    case True
    obtain h w1 where s: "resume_step en tid (hs ! i) w = (h, w1)" by fastforce
    from resume_step_ok [OF Cons.prems(1) True Cons.prems(2) assms s] Cons.IH [of w1 "hs[i := h]"] Cons.prems(3) True s
    show ?thesis by simp
  qed (use Cons in simp)
qed simp

end

text \<open>The gateway on the in-memory store.\<close>

definition memory_rest :: "memory_store rest_env" where
  "memory_rest =
     \<lparr>re_load = \<lambda>t s. Inr (mem_load t s), re_save = mem_save,
      re_transition = \<lambda>t froms new s. case mem_transition t froms new s of (r, s') \<Rightarrow> (Inr r, s'), re_bus = True\<rparr>"

text \<open>C28: However the handlers of any number of resume requests for one task overtake each other between
  their load and their claim, at most one of them answers with success and leaves a resume job behind.\<close>

theorem resume_claimed_once:
  assumes "mem_valid w" and "run_resumes memory_rest tid is (replicate n ToLoad) w = (hs, w')"
  shows "length (concat (map jobs_of hs)) \<le> 1"
proof -
  have "claims_ok map_of tid (replicate n ToLoad) w"
    by (simp add: claims_ok_def resume_count_def jobs_of_def)
  from memory.resumes_claimed_once [OF _ _ assms(1) this assms(2)]
  have "resume_count hs \<le> 1" by (auto simp: memory_rest_def claims_ok_def)
  then show ?thesis by (simp add: resume_count_def)
qed

text \<open>Two handlers that both read the task before either claims it.\<close>

theorem resume_claimed_once_witness:
  "\<exists>hs w'. run_resumes memory_rest ''t'' [0, 1, 1, 0] (replicate 2 ToLoad) [(''t'', gated_task)] = (hs, w') \<and>
     length (concat (map jobs_of hs)) \<le> 1 \<and> jobs_of (hs ! 1) = [ResumeJob ''t''] \<and>
     hs ! 0 = Answered (http_error 409 ''Task resume was already claimed'') []"
proof -
  obtain hs w' where r: "run_resumes memory_rest ''t'' [0, 1, 1, 0] (replicate 2 ToLoad) [(''t'', gated_task)] = (hs, w')"
    by fastforce
  have "mem_valid [(''t'', gated_task)]" by (auto simp: mem_valid_def gated_task_def new_state_def split: if_splits)
  from resume_claimed_once [OF this r] have "length (concat (map jobs_of hs)) \<le> 1" .
  moreover have "jobs_of (hs ! 1) = [ResumeJob ''t''] \<and>
     hs ! 0 = Answered (http_error 409 ''Task resume was already claimed'') []"
    using r
    by (auto simp: memory_rest_def resume_step_def mem_load_def mem_transition_def gated_task_def new_state_def
        resumable_def jobs_of_def numeral_2_eq_2 Let_def)
  ultimately show ?thesis using r by blast
qed

end
