(* ===== verification/TuiDag.thy ===== *)
theory TuiDag
  imports Prelude
begin

text \<open>
  The plan diagram of \<open>gateways/tui/dag.py\<close>, first part: reading a serialised plan and grouping its
  nodes into layers.  Texts of the diagram are lists of code points, since the code measures them
  in characters.  \<open>str\<close> of a JSON value is a parameter, and so is \<open>enum\<close>, the order in which Python
  iterates over a set of ints.
\<close>

section \<open>Texts\<close>

type_synonym utext = "nat list"

definition utf :: "string \<Rightarrow> utext" where
  "utf s = map of_char s"

text \<open>White space among the code points below 256; none of the symbols the diagram adds is space.\<close>

definition uspace :: "nat \<Rightarrow> bool" where
  "uspace n \<longleftrightarrow> n < 256 \<and> py_space (char_of n)"

definition urstrip :: "utext \<Rightarrow> utext" where
  "urstrip t = rev (dropWhile uspace (rev t))"

definition ustrip :: "utext \<Rightarrow> utext" where
  "ustrip t = urstrip (dropWhile uspace t)"

text \<open>\<open>_truncate\<close>.\<close>

definition truncate_text :: "utext \<Rightarrow> nat \<Rightarrow> utext" where
  "truncate_text txt limit =
     (let t = ustrip txt
      in if length t \<le> limit then t else urstrip (take (limit - 1) t) @ [0x2026])"

section \<open>Reading a plan\<close>

record row_like =
  rw_status :: string
  rw_branch_taken :: "string option"
  rw_flagged :: bool

record dag_node =
  dn_id :: int
  dn_type :: string
  dn_description :: string
  dn_tool :: "string option"
  dn_context_needed :: "int list"
  dn_condition :: "string option"
  dn_branch_targets :: "int list"
  dn_subplan_size :: "nat option"

text \<open>\<open>str(v)\<close>; \<open>str\<close> of a string is the string.\<close>

definition str_of :: "(json \<Rightarrow> string) \<Rightarrow> json \<Rightarrow> string" where
  "str_of str v = (case v of JStr s \<Rightarrow> s | _ \<Rightarrow> str v)"

fun opt_str :: "json \<Rightarrow> string option" where
  "opt_str (JStr s) = Some s"
| "opt_str _ = None"

fun opt_int :: "json \<Rightarrow> int option" where
  "opt_int (JInt i) = Some i"
| "opt_int _ = None"

fun int_tuple :: "json \<Rightarrow> int list" where
  "int_tuple (JList vs) = List.map_filter opt_int vs"
| "int_tuple _ = []"

fun dag_branch_targets :: "json \<Rightarrow> int list" where
  "dag_branch_targets (JObj kvs) = concat (map (\<lambda>(k, v). int_tuple v) kvs)"
| "dag_branch_targets _ = []"

fun subplan_size :: "json \<Rightarrow> nat option" where
  "subplan_size (JObj kvs) = (case jget kvs ''nodes'' of JList ns \<Rightarrow> Some (length ns) | _ \<Rightarrow> None)"
| "subplan_size _ = None"

fun parse_node :: "(json \<Rightarrow> string) \<Rightarrow> json \<Rightarrow> dag_node option" where
  "parse_node str (JObj item) =
     (case jget item ''id'' of
        JInt nid \<Rightarrow> Some
          \<lparr>dn_id = nid,
           dn_type = str_of str (jget_default item ''type'' (JStr [])),
           dn_description = str_of str (jget_default item ''description'' (JStr [])),
           dn_tool = opt_str (jget item ''tool''),
           dn_context_needed = int_tuple (jget item ''context_needed''),
           dn_condition = opt_str (jget item ''condition''),
           dn_branch_targets = dag_branch_targets (jget item ''branches''),
           dn_subplan_size = subplan_size (jget item ''subplan'')\<rparr>
      | _ \<Rightarrow> None)"
| "parse_node str _ = None"

definition parse_nodes :: "(json \<Rightarrow> string) \<Rightarrow> (string \<times> json) list \<Rightarrow> dag_node list" where
  "parse_nodes str plan =
     (case jget plan ''nodes'' of JList raw \<Rightarrow> List.map_filter (parse_node str) raw | _ \<Rightarrow> [])"

section \<open>Layers\<close>

type_synonym parents = "(int \<times> int list) list"
type_synonym depths = "(int \<times> int) list"

definition add_parent :: "int \<Rightarrow> int \<Rightarrow> parents \<Rightarrow> parents" where
  "add_parent child p par =
     (case map_of par child of None \<Rightarrow> par | Some ps \<Rightarrow> AList.update child (List.insert p ps) par)"

definition add_parents :: "int list \<Rightarrow> dag_node \<Rightarrow> parents \<Rightarrow> parents" where
  "add_parents ids n par =
     fold (\<lambda>target. add_parent target (dn_id n)) (filter (\<lambda>t. t \<in> set ids) (dn_branch_targets n))
       (fold (\<lambda>dep. add_parent (dn_id n) dep) (filter (\<lambda>d. d \<in> set ids) (dn_context_needed n)) par)"

definition parents_of :: "dag_node list \<Rightarrow> parents" where
  "parents_of nodes =
     fold (add_parents (map dn_id nodes)) nodes (fold (\<lambda>n. AList.update (dn_id n) []) nodes [])"

text \<open>
  \<open>resolve\<close> and the generator inside it.  A call restores \<open>visiting\<close> before it returns, so that the
  set is an argument; \<open>depth\<close> is threaded through.  \<open>parents[nid]\<close> is never missing, and depths are
  never negative, so that \<open>max(\<dots>, default=-1)\<close> is a maximum that starts at -1.
\<close>

function resolve_depth :: "parents \<Rightarrow> int list \<Rightarrow> depths \<Rightarrow> int \<Rightarrow> int \<times> depths"
  and resolve_max :: "parents \<Rightarrow> int list \<Rightarrow> depths \<Rightarrow> int \<Rightarrow> int list \<Rightarrow> int \<times> depths" where
  "resolve_depth par visiting depth nid =
     (case map_of depth nid of
        Some d \<Rightarrow> (d, depth)
      | None \<Rightarrow>
          if nid \<in> set visiting then (0, depth)
          else (case map_of par nid of
                  None \<Rightarrow> (0, depth)
                | Some ps \<Rightarrow>
                    (case resolve_max par (nid # visiting) depth (-1) ps of
                       (m, depth') \<Rightarrow> (1 + m, AList.update nid (1 + m) depth'))))"
| "resolve_max par visiting depth best [] = (best, depth)"
| "resolve_max par visiting depth best (p # ps) =
     (case resolve_depth par visiting depth p of
        (d, depth') \<Rightarrow> resolve_max par visiting depth' (max best d) ps)"
  by pat_completeness auto

termination
proof (relation "measures [\<lambda>x. case x of
        Inl (par, visiting, depth, nid) \<Rightarrow> card (set (map fst par) - set visiting)
      | Inr (par, visiting, depth, best, ps) \<Rightarrow> card (set (map fst par) - set visiting),
    \<lambda>x. case x of Inl _ \<Rightarrow> 0 | Inr (par, visiting, depth, best, ps) \<Rightarrow> Suc (length ps)]", goal_cases)
  case 1
  show ?case by simp
next
  case (2 par visiting depth nid ps)
  then have "nid \<in> set (map fst par) - set visiting" by (force dest: map_of_SomeD)
  then have "card (set (map fst par) - set visiting - {nid}) < card (set (map fst par) - set visiting)"
    by (intro card_Diff1_less) simp_all
  moreover have "set (map fst par) - set visiting - {nid} = set (map fst par) - set (nid # visiting)" by auto
  ultimately show ?case by simp
qed simp_all

declare resolve_depth.simps [simp del]

definition place_in_layer :: "depths \<Rightarrow> int \<Rightarrow> int list list \<Rightarrow> int list list" where
  "place_in_layer depth nid layers =
     (let d = nat (the (map_of depth nid)) in layers[d := layers ! d @ [nid]])"

text \<open>\<open>_layers\<close>, first the loop that resolves every depth.\<close>

definition depths_of :: "(int list \<Rightarrow> int list) \<Rightarrow> dag_node list \<Rightarrow> depths" where
  "depths_of enum nodes =
     (let par = map (\<lambda>(c, ps). (c, enum ps)) (parents_of nodes)
      in fold (\<lambda>n depth. snd (resolve_depth par [] depth (dn_id n))) nodes [])"

definition layers_of :: "(int list \<Rightarrow> int list) \<Rightarrow> dag_node list \<Rightarrow> int list list" where
  "layers_of enum nodes =
     (if nodes = [] then []
      else let depth = depths_of enum nodes
           in fold (place_in_layer depth) (sort (map fst depth))
                (replicate (nat (fold max (map snd depth) 0) + 1) []))"

definition plan_layers ::
  "(json \<Rightarrow> string) \<Rightarrow> (int list \<Rightarrow> int list) \<Rightarrow> (string \<times> json) list \<Rightarrow> int list list" where
  "plan_layers str enum plan = layers_of enum (parse_nodes str plan)"

section \<open>The layers are the longest paths\<close>

definition dag_edges :: "dag_node list \<Rightarrow> (int \<times> int) set" where
  "dag_edges nodes =
     {(u, v). u \<in> dn_id ` set nodes \<and> v \<in> dn_id ` set nodes \<and>
        (\<exists>n \<in> set nodes. (v = dn_id n \<and> u \<in> set (dn_context_needed n)) \<or>
                        (u = dn_id n \<and> v \<in> set (dn_branch_targets n)))}"

definition enumerates :: "(int list \<Rightarrow> int list) \<Rightarrow> bool" where
  "enumerates enum \<longleftrightarrow> (\<forall>xs. set (enum xs) = set xs)"

definition par_edges :: "parents \<Rightarrow> (int \<times> int) set" where
  "par_edges par = {(p, c). \<exists>ps. map_of par c = Some ps \<and> p \<in> set ps}"

lemma par_edges_add_parent:
  "par_edges (add_parent c p par) = par_edges par \<union> (if c \<in> dom (map_of par) then {(p, c)} else {})"
  by (cases "map_of par c") (auto simp: par_edges_def add_parent_def)

lemma dom_add_parent [simp]: "dom (map_of (add_parent c p par)) = dom (map_of par)"
  by (auto simp: add_parent_def split: option.splits)

lemma par_edges_fold_context:
  "par_edges (fold (\<lambda>d. add_parent c d) ds par) =
     par_edges par \<union> (if c \<in> dom (map_of par) then set ds \<times> {c} else {}) \<and>
   dom (map_of (fold (\<lambda>d. add_parent c d) ds par)) = dom (map_of par)"
  by (induction ds arbitrary: par) (auto simp: par_edges_add_parent)

lemma par_edges_fold_targets:
  "par_edges (fold (\<lambda>t. add_parent t p) ts par) = par_edges par \<union> {p} \<times> (set ts \<inter> dom (map_of par)) \<and>
   dom (map_of (fold (\<lambda>t. add_parent t p) ts par)) = dom (map_of par)"
  by (induction ts arbitrary: par) (auto simp: par_edges_add_parent)

definition edges_of_node :: "int set \<Rightarrow> dag_node \<Rightarrow> (int \<times> int) set" where
  "edges_of_node ids n =
     (set (dn_context_needed n) \<inter> ids) \<times> {dn_id n} \<union> {dn_id n} \<times> (set (dn_branch_targets n) \<inter> ids)"

lemma par_edges_add_parents:
  assumes "dom (map_of par) = set ids" and "dn_id n \<in> set ids"
  shows "par_edges (add_parents ids n par) = par_edges par \<union> edges_of_node (set ids) n"
    and "dom (map_of (add_parents ids n par)) = set ids"
  using assms
  by (auto simp: add_parents_def par_edges_fold_targets par_edges_fold_context edges_of_node_def)

lemma par_edges_nodes:
  "dom (map_of par) = set ids \<Longrightarrow> dn_id ` set ns \<subseteq> set ids \<Longrightarrow>
     par_edges (fold (add_parents ids) ns par) = par_edges par \<union> (\<Union>n \<in> set ns. edges_of_node (set ids) n) \<and>
     dom (map_of (fold (add_parents ids) ns par)) = set ids"
proof (induction ns arbitrary: par)
  case (Cons n ns)
  with par_edges_add_parents [of par ids n] show ?case by auto
qed simp

lemma no_parents:
  "map_of (fold (\<lambda>n. AList.update (dn_id n) []) ns par) c =
     (if c \<in> dn_id ` set ns then Some [] else map_of par c)"
  by (induction ns arbitrary: par) auto

lemma parents_of_edges:
  "par_edges (parents_of nodes) = dag_edges nodes" "dom (map_of (parents_of nodes)) = dn_id ` set nodes"
proof -
  let ?par = "fold (\<lambda>n. AList.update (dn_id n) ([] :: int list)) nodes []"
  have d: "dom (map_of ?par) = set (map dn_id nodes)" by (auto simp: no_parents split: if_splits)
  have e: "par_edges ?par = {}" by (auto simp: par_edges_def no_parents split: if_splits)
  have u: "(\<Union>n \<in> set nodes. edges_of_node (dn_id ` set nodes) n) = dag_edges nodes"
    unfolding edges_of_node_def dag_edges_def by blast
  show "par_edges (parents_of nodes) = dag_edges nodes" "dom (map_of (parents_of nodes)) = dn_id ` set nodes"
    using par_edges_nodes [OF d, of nodes] e u by (simp_all add: parents_of_def)
qed

lemma parents_enumerated:
  assumes "enumerates enum"
  shows "par_edges (map (\<lambda>(c, ps). (c, enum ps)) par) = par_edges par"
    and "dom (map_of (map (\<lambda>(c, ps). (c, enum ps)) par)) = dom (map_of par)"
  using assms by (force simp: par_edges_def enumerates_def map_of_map)+

text \<open>Whatever the plan, a depth is a natural number of a known node, and every node gets one.\<close>

definition plausible :: "parents \<Rightarrow> depths \<Rightarrow> bool" where
  "plausible par depth \<longleftrightarrow> (\<forall>i d. map_of depth i = Some d \<longrightarrow> 0 \<le> d \<and> i \<in> dom (map_of par))"

lemma resolve_plausible:
  "plausible par depth \<Longrightarrow> case resolve_depth par visiting depth nid of (d, depth') \<Rightarrow>
     0 \<le> d \<and> plausible par depth' \<and> dom (map_of depth) \<subseteq> dom (map_of depth') \<and>
     (nid \<in> dom (map_of par) - set visiting \<longrightarrow> nid \<in> dom (map_of depth'))"
  "plausible par depth \<Longrightarrow> -1 \<le> best \<Longrightarrow> case resolve_max par visiting depth best ps of (m, depth') \<Rightarrow>
     -1 \<le> m \<and> plausible par depth' \<and> dom (map_of depth) \<subseteq> dom (map_of depth')"
proof (induction par visiting depth nid and par visiting depth best ps rule: resolve_depth_resolve_max.induct)
  case (1 par visiting depth nid)
  show ?case
  proof (cases "map_of depth nid")
    case (Some d)
    with 1 show ?thesis by (auto simp: resolve_depth.simps [of par visiting] plausible_def)
  next
    case None
    show ?thesis
    proof (cases "nid \<in> set visiting \<or> map_of par nid = None")
      case True
      with None 1 show ?thesis by (auto simp: resolve_depth.simps [of par visiting] split: option.split)
    next
      case False
      then obtain ps where ps: "nid \<notin> set visiting" "map_of par nid = Some ps" by auto
      obtain m depth' where m: "resolve_max par (nid # visiting) depth (-1) ps = (m, depth')" by fastforce
      with 1 None ps have "-1 \<le> m" "plausible par depth'" "dom (map_of depth) \<subseteq> dom (map_of depth')"
        by fastforce+
      with m None ps show ?thesis
        by (auto simp: resolve_depth.simps [of par visiting] plausible_def)
    qed
  qed
next
  case (2 par visiting depth best)
  then show ?case by simp
next
  case (3 par visiting depth best p ps)
  obtain d depth' where d: "resolve_depth par visiting depth p = (d, depth')" by fastforce
  from "3.IH"(1) "3.prems"(1) d
  have "0 \<le> d" "plausible par depth'" "dom (map_of depth) \<subseteq> dom (map_of depth')" by auto
  with "3.IH"(2) [OF d [symmetric]] "3.prems" d show ?case by fastforce
qed

text \<open>Settled depths satisfy the equation of longest paths.\<close>

definition height_over :: "depths \<Rightarrow> int list \<Rightarrow> int" where
  "height_over depth ps = fold (\<lambda>p m. max m (the (map_of depth p))) ps (-1)"

definition settled :: "parents \<Rightarrow> depths \<Rightarrow> bool" where
  "settled par depth \<longleftrightarrow>
     (\<forall>i d. map_of depth i = Some d \<longrightarrow>
        (\<exists>ps. map_of par i = Some ps \<and> set ps \<subseteq> dom (map_of depth) \<and> d = 1 + height_over depth ps))"

lemma fold_max_cong:
  "(\<And>p. p \<in> set ps \<Longrightarrow> f p = g p) \<Longrightarrow> fold (\<lambda>p m. max m (f p)) ps b = fold (\<lambda>p m. max m (g p)) ps (b :: int)"
  by (rule fold_cong) simp_all

lemma height_over_extend:
  "map_of depth \<subseteq>\<^sub>m map_of depth' \<Longrightarrow> set ps \<subseteq> dom (map_of depth) \<Longrightarrow> height_over depth' ps = height_over depth ps"
  unfolding height_over_def by (rule fold_max_cong) (metis in_mono map_le_def)

lemma settled_update:
  assumes "settled par depth" and "map_of par i = Some ps" and "set ps \<subseteq> dom (map_of depth)"
    and d: "d = 1 + height_over depth ps"
  shows "settled par (AList.update i d depth)" and "map_of depth \<subseteq>\<^sub>m map_of (AList.update i d depth)"
proof -
  have same: "map_of depth i = None \<or> map_of depth i = Some d"
    using assms unfolding settled_def by (cases "map_of depth i") force+
  then show le: "map_of depth \<subseteq>\<^sub>m map_of (AList.update i d depth)" by (auto simp: map_le_def)
  have sub: "dom (map_of depth) \<subseteq> dom (map_of (AList.update i d depth))" by auto
  show "settled par (AList.update i d depth)"
    unfolding settled_def
  proof (intro allI impI)
    fix j e
    assume j: "map_of (AList.update i d depth) j = Some e"
    show "\<exists>ps. map_of par j = Some ps \<and> set ps \<subseteq> dom (map_of (AList.update i d depth)) \<and>
               e = 1 + height_over (AList.update i d depth) ps"
    proof (cases "j = i")
      case True
      with j have "e = d" by simp
      with True assms(2-3) d sub height_over_extend [OF le] show ?thesis by auto
    next
      case False
      with j have "map_of depth j = Some e" by simp
      with assms(1) obtain qs where "map_of par j = Some qs" "set qs \<subseteq> dom (map_of depth)"
        "e = 1 + height_over depth qs" unfolding settled_def by blast
      with sub height_over_extend [OF le] show ?thesis by auto
    qed
  qed
qed

lemma resolve_settled:
  "acyclic (par_edges par) \<Longrightarrow> par_edges par \<subseteq> dom (map_of par) \<times> dom (map_of par) \<Longrightarrow>
   settled par depth \<Longrightarrow> nid \<in> dom (map_of par) \<Longrightarrow> \<forall>v \<in> set visiting. (nid, v) \<in> (par_edges par)\<^sup>+ \<Longrightarrow>
   case resolve_depth par visiting depth nid of (d, depth') \<Rightarrow>
     settled par depth' \<and> map_of depth \<subseteq>\<^sub>m map_of depth' \<and> map_of depth' nid = Some d"
  "acyclic (par_edges par) \<Longrightarrow> par_edges par \<subseteq> dom (map_of par) \<times> dom (map_of par) \<Longrightarrow>
   settled par depth \<Longrightarrow> set ps \<subseteq> dom (map_of par) \<Longrightarrow>
   \<forall>p \<in> set ps. \<forall>v \<in> set visiting. (p, v) \<in> (par_edges par)\<^sup>+ \<Longrightarrow>
   case resolve_max par visiting depth best ps of (m, depth') \<Rightarrow>
     settled par depth' \<and> map_of depth \<subseteq>\<^sub>m map_of depth' \<and> set ps \<subseteq> dom (map_of depth') \<and>
     m = fold (\<lambda>p m. max m (the (map_of depth' p))) ps best"
proof (induction par visiting depth nid and par visiting depth best ps rule: resolve_depth_resolve_max.induct)
  case (1 par visiting depth nid)
  show ?case
  proof (cases "map_of depth nid")
    case (Some d)
    with 1 show ?thesis by (simp add: resolve_depth.simps [of par visiting])
  next
    case None
    have new: "nid \<notin> set visiting" using "1.prems" by (auto simp: acyclic_def)
    obtain ps where ps: "map_of par nid = Some ps" using "1.prems" by auto
    obtain m depth' where m: "resolve_max par (nid # visiting) depth (-1) ps = (m, depth')" by fastforce
    have edge: "(p, nid) \<in> par_edges par" if "p \<in> set ps" for p using that ps by (auto simp: par_edges_def)
    have "set ps \<subseteq> dom (map_of par)" using edge "1.prems"(2) by auto
    moreover have "\<forall>p \<in> set ps. \<forall>v \<in> set (nid # visiting). (p, v) \<in> (par_edges par)\<^sup>+"
      using edge "1.prems"(5) by (auto intro: trancl_into_trancl2)
    ultimately have r: "settled par depth'" "map_of depth \<subseteq>\<^sub>m map_of depth'" "set ps \<subseteq> dom (map_of depth')"
      "m = height_over depth' ps"
      using "1.IH" [OF None new ps] "1.prems" m unfolding height_over_def by auto
    with settled_update [OF r(1) ps r(3)] None new ps m show ?thesis
      by (auto simp: resolve_depth.simps [of par visiting] intro: map_le_trans)
  qed
next
  case (2 par visiting depth best)
  then show ?case by simp
next
  case (3 par visiting depth best p ps)
  obtain d depth' where d: "resolve_depth par visiting depth p = (d, depth')" by fastforce
  with "3.IH"(1) "3.prems"
  have 1: "settled par depth'" "map_of depth \<subseteq>\<^sub>m map_of depth'" "map_of depth' p = Some d" by auto
  obtain m depth'' where m: "resolve_max par visiting depth' (max best d) ps = (m, depth'')" by fastforce
  with "3.IH"(2) [OF d [symmetric]] "3.prems" 1
  have 2: "settled par depth''" "map_of depth' \<subseteq>\<^sub>m map_of depth''" "set ps \<subseteq> dom (map_of depth'')"
    "m = fold (\<lambda>p m. max m (the (map_of depth'' p))) ps (max best d)" by auto
  from 1(3) 2(2) have "map_of depth'' p = Some d" by (metis domI map_le_def)
  with d m 1 2 show ?case by (auto intro: map_le_trans)
qed

lemma fold_max_ge: "x \<in> set xs \<Longrightarrow> f x \<le> fold (\<lambda>p m. max m (f p)) xs b" "b \<le> fold (\<lambda>p m. max m (f p)) xs (b :: int)"
proof (induction xs arbitrary: b)
  case (Cons a xs)
  { case 1
    from Cons.IH(2) [of "max b (f a)"] Cons.IH(1) [of "max b (f a)"] 1 show ?case by auto }
  { case 2
    from Cons.IH(2) [of "max b (f a)"] show ?case by simp }
qed simp_all

lemma fold_max_member: "x \<in> set xs \<Longrightarrow> x \<le> fold max xs (b :: int)"
proof -
  have "fold max xs b = fold (\<lambda>p m. max m p) xs b" by (rule fold_cong) (auto simp: max.commute)
  then show "x \<in> set xs \<Longrightarrow> x \<le> fold max xs b" using fold_max_ge(1) [of x xs "\<lambda>p. p" b] by simp
qed

lemma fold_max_attained:
  "fold (\<lambda>p m. max m (f p)) xs (b :: int) = b \<or> (\<exists>x \<in> set xs. f x = fold (\<lambda>p m. max m (f p)) xs b)"
proof (induction xs arbitrary: b)
  case (Cons a xs)
  from Cons.IH [of "max b (f a)"] show ?case by (auto simp: max_def split: if_splits)
qed simp

text \<open>All the depths, once every node is resolved.\<close>

definition resolve_all :: "parents \<Rightarrow> dag_node list \<Rightarrow> depths \<Rightarrow> depths" where
  "resolve_all par = fold (\<lambda>n depth. snd (resolve_depth par [] depth (dn_id n)))"

lemma resolve_all_simps [simp]:
  "resolve_all par [] depth = depth"
  "resolve_all par (n # ns) depth = resolve_all par ns (snd (resolve_depth par [] depth (dn_id n)))"
  by (simp_all add: resolve_all_def)

lemma resolve_all_plausible:
  "plausible par depth \<Longrightarrow> dn_id ` set ns \<subseteq> dom (map_of par) \<Longrightarrow>
     plausible par (resolve_all par ns depth) \<and>
     dom (map_of depth) \<union> dn_id ` set ns \<subseteq> dom (map_of (resolve_all par ns depth))"
proof (induction ns arbitrary: depth)
  case (Cons n ns)
  obtain d depth' where d: "resolve_depth par [] depth (dn_id n) = (d, depth')" by fastforce
  with resolve_plausible(1) [OF Cons.prems(1), where visiting = "[]" and nid = "dn_id n"] Cons.prems(2)
  have "plausible par depth'" "dom (map_of depth) \<union> {dn_id n} \<subseteq> dom (map_of depth')" by auto
  with Cons.IH [of depth'] Cons.prems(2) d show ?case by simp blast
qed simp

lemma resolve_all_settled:
  "acyclic (par_edges par) \<Longrightarrow> par_edges par \<subseteq> dom (map_of par) \<times> dom (map_of par) \<Longrightarrow>
   settled par depth \<Longrightarrow> dn_id ` set ns \<subseteq> dom (map_of par) \<Longrightarrow> settled par (resolve_all par ns depth)"
proof (induction ns arbitrary: depth)
  case (Cons n ns)
  obtain d depth' where d: "resolve_depth par [] depth (dn_id n) = (d, depth')" by fastforce
  with resolve_settled(1) [of par depth "dn_id n" "[]"] Cons.prems have "settled par depth'" by auto
  with Cons.IH [of depth'] Cons.prems d show ?case by simp
qed simp

lemma resolve_all_keys:
  "distinct (map fst depth) \<Longrightarrow> distinct (map fst (snd (resolve_depth par visiting depth nid)))"
  "distinct (map fst depth) \<Longrightarrow> distinct (map fst (snd (resolve_max par visiting depth best ps)))"
proof (induction par visiting depth nid and par visiting depth best ps rule: resolve_depth_resolve_max.induct)
  case (1 par visiting depth nid)
  then show ?case
    by (auto simp: resolve_depth.simps [of par visiting] distinct_update split: option.split prod.split)
next
  case (3 par visiting depth best p ps)
  then show ?case by (cases "resolve_depth par visiting depth p") auto
qed simp

lemma depths_of_keys: "distinct (map fst (depths_of enum nodes))"
proof -
  have "distinct (map fst depth) \<Longrightarrow> distinct (map fst (resolve_all par ns depth))" for par ns depth
    by (induction ns arbitrary: depth) (simp_all add: resolve_all_keys)
  then show ?thesis by (simp add: depths_of_def resolve_all_def Let_def)
qed

lemma depths_of_total:
  shows "dom (map_of (depths_of enum nodes)) = dn_id ` set nodes"
    and "map_of (depths_of enum nodes) i = Some d \<Longrightarrow> 0 \<le> d"
proof -
  let ?par = "map (\<lambda>(c, ps). (c, enum ps)) (parents_of nodes)"
  have "dom (map_of ?par) = dn_id ` set nodes"
    using parents_of_edges(2) [of nodes] by (force simp: map_of_map)
  moreover have "depths_of enum nodes = resolve_all ?par nodes []" by (simp add: depths_of_def resolve_all_def)
  moreover have "plausible ?par []" by (simp add: plausible_def)
  ultimately have "plausible ?par (depths_of enum nodes)"
    "dn_id ` set nodes \<subseteq> dom (map_of (depths_of enum nodes))"
    "dom (map_of ?par) = dn_id ` set nodes"
    using resolve_all_plausible [of ?par "[]" nodes] by auto
  then show "dom (map_of (depths_of enum nodes)) = dn_id ` set nodes"
    and "map_of (depths_of enum nodes) i = Some d \<Longrightarrow> 0 \<le> d"
    unfolding plausible_def by blast+
qed

lemma depths_of_edges:
  assumes "enumerates enum" and "acyclic (dag_edges nodes)" and i: "map_of (depths_of enum nodes) i = Some d"
  shows "(p, i) \<in> dag_edges nodes \<Longrightarrow> \<exists>k < d. map_of (depths_of enum nodes) p = Some k"
    and "0 < d \<Longrightarrow> \<exists>p. (p, i) \<in> dag_edges nodes \<and> map_of (depths_of enum nodes) p = Some (d - 1)"
proof -
  let ?par = "map (\<lambda>(c, ps). (c, enum ps)) (parents_of nodes)" and ?d = "depths_of enum nodes"
  have e: "par_edges ?par = dag_edges nodes" "dom (map_of ?par) = dn_id ` set nodes"
    using parents_of_edges [of nodes] parents_enumerated [OF assms(1), of "parents_of nodes"] by simp_all
  have "?d = resolve_all ?par nodes []" by (simp add: depths_of_def resolve_all_def)
  moreover have "settled ?par (resolve_all ?par nodes [])"
    using assms(2) e by (intro resolve_all_settled) (auto simp: settled_def dag_edges_def)
  ultimately obtain ps where ps: "map_of ?par i = Some ps" "set ps \<subseteq> dom (map_of ?d)" "d = 1 + height_over ?d ps"
    using i unfolding settled_def by metis
  have edges: "(q, i) \<in> dag_edges nodes \<longleftrightarrow> q \<in> set ps" for q
    using ps(1) by (simp add: e(1) [symmetric] par_edges_def)
  show "\<exists>k < d. map_of ?d p = Some k" if "(p, i) \<in> dag_edges nodes"
  proof -
    from that edges ps(2) obtain k where "p \<in> set ps" "map_of ?d p = Some k" by blast
    with fold_max_ge(1) [of p ps "\<lambda>p. the (map_of ?d p)" "-1"] ps(3) show ?thesis by (auto simp: height_over_def)
  qed
  show "\<exists>p. (p, i) \<in> dag_edges nodes \<and> map_of ?d p = Some (d - 1)" if "0 < d"
  proof -
    from that ps(3) have "height_over ?d ps \<noteq> -1" by simp
    with fold_max_attained [of "\<lambda>p. the (map_of ?d p)" ps "-1"]
    obtain p where p: "p \<in> set ps" "the (map_of ?d p) = height_over ?d ps" by (auto simp: height_over_def)
    with ps(2,3) edges have "map_of ?d p = Some (d - 1)" "(p, i) \<in> dag_edges nodes" by fastforce+
    then show ?thesis by blast
  qed
qed

section \<open>The list of layers\<close>

lemma place_in_layers:
  "\<forall>i \<in> set is. \<exists>d. map_of depth i = Some (int d) \<and> d < length ls \<Longrightarrow>
     fold (place_in_layer depth) is ls =
     map (\<lambda>k. ls ! k @ filter (\<lambda>i. map_of depth i = Some (int k)) is) [0 ..< length ls]"
proof (induction "is" arbitrary: ls)
  case Nil
  then show ?case by (simp add: map_nth)
next
  case (Cons i "is")
  then obtain d where d: "map_of depth i = Some (int d)" "d < length ls" by auto
  let ?ls = "ls[d := ls ! d @ [i]]"
  have "fold (place_in_layer depth) is ?ls =
      map (\<lambda>k. ?ls ! k @ filter (\<lambda>i. map_of depth i = Some (int k)) is) [0 ..< length ?ls]"
    using Cons.prems by (intro Cons.IH) simp
  also have "\<dots> = map (\<lambda>k. ls ! k @ filter (\<lambda>i. map_of depth i = Some (int k)) (i # is)) [0 ..< length ls]"
    using d by (intro nth_equalityI) (auto simp: nth_list_update)
  finally have "fold (place_in_layer depth) is ?ls = \<dots>" .
  moreover have "place_in_layer depth i ls = ?ls" using d by (simp add: place_in_layer_def)
  ultimately show ?case by (simp del: filter.simps)
qed

definition at_depth :: "depths \<Rightarrow> nat \<Rightarrow> int list" where
  "at_depth depth k = filter (\<lambda>i. map_of depth i = Some (int k)) (sort (map fst depth))"

lemma layers_of_eq:
  assumes "nodes \<noteq> []"
  shows "layers_of enum nodes =
    map (at_depth (depths_of enum nodes)) [0 ..< nat (fold max (map snd (depths_of enum nodes)) 0) + 1]"
proof -
  let ?d = "depths_of enum nodes" let ?top = "fold max (map snd ?d) 0"
  have "\<exists>k. map_of ?d i = Some (int k) \<and> k < nat ?top + 1" if "i \<in> fst ` set ?d" for i
  proof -
    from that obtain d where d: "map_of ?d i = Some d" by (metis domD dom_map_of_conv_image_fst)
    have "d \<in> set (map snd ?d)" using map_of_SomeD [OF d] by force
    then have "d \<le> ?top" by (rule fold_max_member)
    with d depths_of_total(2) [OF d] show ?thesis by (intro exI [of _ "nat d"]) auto
  qed
  then have "fold (place_in_layer ?d) (sort (map fst ?d)) (replicate (nat ?top + 1) []) =
      map (\<lambda>k. replicate (nat ?top + 1) [] ! k @ at_depth ?d k) [0 ..< nat ?top + 1]"
    by (subst place_in_layers) (simp_all add: at_depth_def)
  also have "\<dots> = map (at_depth ?d) [0 ..< nat ?top + 1]" by (intro map_cong) (simp_all only: nth_replicate set_upt atLeastLessThan_iff append_Nil)
  finally show ?thesis using assms by (simp only: layers_of_def Let_def if_False)
qed

lemma member_layer:
  assumes "l < length (layers_of enum nodes)"
  shows "i \<in> set (layers_of enum nodes ! l) \<longleftrightarrow> map_of (depths_of enum nodes) i = Some (int l)"
proof (cases "nodes = []")
  case True
  with assms show ?thesis by (simp add: layers_of_def)
next
  case False
  with assms have "layers_of enum nodes ! l = at_depth (depths_of enum nodes) l"
    by (simp add: layers_of_eq del: upt_Suc)
  then show ?thesis by (auto simp: at_depth_def intro: rev_image_eqI dest: map_of_SomeD)
qed


definition lies_in :: "int list list \<Rightarrow> int \<Rightarrow> nat \<Rightarrow> bool" where
  "lies_in layers i l \<longleftrightarrow> l < length layers \<and> i \<in> set (layers ! l)"

lemma depth_has_layer:
  assumes "map_of (depths_of enum nodes) i = Some d"
  shows "lies_in (layers_of enum nodes) i (nat d)"
proof -
  have "d \<in> set (map snd (depths_of enum nodes))" using map_of_SomeD [OF assms] by force
  then have "d \<le> fold max (map snd (depths_of enum nodes)) 0" by (rule fold_max_member)
  moreover have "nodes \<noteq> []" using depths_of_total(1) [of enum nodes] assms by auto
  ultimately have "nat d < length (layers_of enum nodes)" by (simp add: layers_of_eq)
  with depths_of_total(2) [OF assms] assms show ?thesis by (simp add: lies_in_def member_layer)
qed

lemma lies_in_depth: "lies_in (layers_of enum nodes) i l \<longleftrightarrow> map_of (depths_of enum nodes) i = Some (int l)"
  using depth_has_layer [of enum nodes i "int l"] by (auto simp: lies_in_def member_layer)

lemma layers_partition:
  shows "i \<in> dn_id ` set nodes \<longleftrightarrow> (\<exists>l. lies_in (layers_of enum nodes) i l)"
    and "lies_in (layers_of enum nodes) i l \<Longrightarrow> lies_in (layers_of enum nodes) i k \<Longrightarrow> k = l"
    and "l < length (layers_of enum nodes) \<Longrightarrow> sorted_wrt (<) (layers_of enum nodes ! l)"
proof -
  show "i \<in> dn_id ` set nodes \<longleftrightarrow> (\<exists>l. lies_in (layers_of enum nodes) i l)"
    using depths_of_total [of enum nodes] by (metis domD domI int_nat_eq lies_in_depth)
  show "lies_in (layers_of enum nodes) i l \<Longrightarrow> lies_in (layers_of enum nodes) i k \<Longrightarrow> k = l"
    by (simp add: lies_in_depth)
  show "sorted_wrt (<) (layers_of enum nodes ! l)" if "l < length (layers_of enum nodes)"
  proof -
    have "nodes \<noteq> []" using that by (auto simp: layers_of_def)
    with that have "layers_of enum nodes ! l = at_depth (depths_of enum nodes) l"
      by (simp add: layers_of_eq del: upt_Suc)
    moreover have "sorted (at_depth (depths_of enum nodes) l)" "distinct (at_depth (depths_of enum nodes) l)"
      by (simp_all add: at_depth_def sorted_wrt_filter depths_of_keys)
    ultimately show ?thesis by (simp add: strict_sorted_iff)
  qed
qed



text \<open>Three nodes in a row, the last of which also needs the first.\<close>

definition sample_node :: "int \<Rightarrow> string \<Rightarrow> int list \<Rightarrow> json" where
  "sample_node i kind needs = JObj [(''id'', JInt i), (''type'', JStr kind), (''context_needed'', JList (map JInt needs))]"

definition sample_diagram :: "(string \<times> json) list" where
  "sample_diagram = [(''nodes'', JList [sample_node 3 ''result'' [1, 2], sample_node 1 ''tool'' [], sample_node 2 ''think'' [1]])]"


end
