(* ===== verification/TuiDrawing.thy ===== *)
theory TuiDrawing
  imports TuiDag
begin

unbundle bit_operations_syntax

text \<open>
  The plan diagram of \<open>gateways/tui/dag.py\<close>, second part: the geometry of the boxes, with
  pass-through dummies for the edges that skip a layer, and the drawing on a character grid.  The
  facts show that boxes lie within the grid and stay readable whatever edges the plan has.
\<close>

section \<open>The layout\<close>

text \<open>\<open>_BOX_W\<close>, \<open>_BOX_H\<close>, \<open>_COL_GAP\<close> and \<open>_CHANNEL\<close>.\<close>

definition box_w :: int where "box_w = 24"
definition box_h :: int where "box_h = 4"
definition col_gap :: int where "col_gap = 4"
definition channel :: int where "channel = 2"

lemmas geometry = box_w_def box_h_def col_gap_def channel_def

record dag_layout =
  lo_items :: "int list list"
  lo_vx :: "(int \<times> int) list"
  lo_vleft :: "(int \<times> int) list"
  lo_vlayer :: "(int \<times> nat) list"
  lo_segments :: "(int \<times> int) list"
  lo_width :: int
  lo_height :: int

text \<open>\<open>{n.id: n for n in nodes}\<close>: the last of two nodes with one id.\<close>

definition by_id :: "dag_node list \<Rightarrow> (int \<times> dag_node) list" where
  "by_id nodes = fold (\<lambda>n. AList.update (dn_id n) n) nodes []"

text \<open>\<open>_edges\<close>; pairs of ints are sorted by their first component, then by the second.\<close>

definition node_edge_list :: "int list \<Rightarrow> dag_node \<Rightarrow> (int \<times> int) list" where
  "node_edge_list ids n =
     map (\<lambda>dep. (dep, dn_id n)) (filter (\<lambda>d. d \<in> set ids) (dn_context_needed n)) @
     map (\<lambda>t. (dn_id n, t)) (filter (\<lambda>t. t \<in> set ids) (dn_branch_targets n))"

definition edge_list :: "(int \<times> dag_node) list \<Rightarrow> (int \<times> int) list" where
  "edge_list nodes =
     sort_key fst (sort_key snd (remdups (concat (map (\<lambda>(i, n). node_edge_list (map fst nodes) n) nodes))))"

text \<open>The vertices, segments and dummies so far: \<open>items\<close>, \<open>vlayer\<close>, \<open>segments\<close> and \<open>next_dummy\<close>.\<close>

record vertices =
  vt_items :: "int list list"
  vt_layer :: "(int \<times> nat) list"
  vt_segments :: "(int \<times> int) list"
  vt_next :: int

definition at_key :: "'a \<Rightarrow> (int \<times> 'a) list \<Rightarrow> int \<Rightarrow> 'a" where
  "at_key d m i = (case map_of m i of Some v \<Rightarrow> v | None \<Rightarrow> d)"

definition add_dummy :: "nat \<Rightarrow> int \<times> vertices \<Rightarrow> int \<times> vertices" where
  "add_dummy idx pv =
     (case pv of (prev, v) \<Rightarrow>
        (vt_next v,
         v\<lparr>vt_items := (vt_items v)[idx := vt_items v ! idx @ [vt_next v]],
           vt_layer := AList.update (vt_next v) idx (vt_layer v),
           vt_segments := vt_segments v @ [(prev, vt_next v)],
           vt_next := vt_next v - 1\<rparr>))"

definition split_edge :: "int \<times> int \<Rightarrow> vertices \<Rightarrow> vertices" where
  "split_edge e v =
     (case e of (parent, child) \<Rightarrow>
        (case fold add_dummy [Suc (at_key 0 (vt_layer v) parent) ..< at_key 0 (vt_layer v) child] (parent, v) of
           (prev, v') \<Rightarrow> v'\<lparr>vt_segments := vt_segments v' @ [(prev, child)]\<rparr>))"

definition start_vertices :: "int list list \<Rightarrow> vertices" where
  "start_vertices layers =
     \<lparr>vt_items = layers,
      vt_layer = fold (\<lambda>(l, layer). fold (\<lambda>i. AList.update i l) layer) (enumerate 0 layers) [],
      vt_segments = [], vt_next = -1\<rparr>"

text \<open>The first loop of the placement: left and centre columns of one row, from its left edge.\<close>

definition item_width :: "int \<Rightarrow> int" where
  "item_width item = (if item > 0 then box_w else 1)"

type_synonym columns = "(int \<times> int) list"

definition place_item :: "int \<Rightarrow> int \<times> columns \<times> columns \<Rightarrow> int \<times> columns \<times> columns" where
  "place_item item s =
     (case s of (cursor, vx, vleft) \<Rightarrow>
        (cursor + item_width item + col_gap,
         AList.update item (cursor + item_width item div 2) vx, AList.update item cursor vleft))"

definition place_row :: "int list \<Rightarrow> int list \<times> columns \<times> columns \<Rightarrow> int list \<times> columns \<times> columns" where
  "place_row row s =
     (case s of (widths, vx, vleft) \<Rightarrow>
        (case fold place_item row (0, vx, vleft) of
           (cursor, vx', vleft') \<Rightarrow> (widths @ [max (cursor - col_gap) 0], vx', vleft')))"

definition shift :: "int \<Rightarrow> int \<Rightarrow> columns \<Rightarrow> columns" where
  "shift offset item m = AList.update item (at_key 0 m item + offset) m"

definition centre_row :: "int \<Rightarrow> int list \<times> int \<Rightarrow> columns \<times> columns \<Rightarrow> columns \<times> columns" where
  "centre_row width rw s =
     (case rw of (row, row_width) \<Rightarrow>
        let offset = (width - row_width) div 2
        in fold (\<lambda>item (vx, vleft). (shift offset item vx, shift offset item vleft)) row s)"

definition compute_layout :: "dag_node list \<Rightarrow> int list list \<Rightarrow> dag_layout" where
  "compute_layout nodes layers =
     (let v = fold split_edge (edge_list (by_id nodes)) (start_vertices layers);
          (widths, vx, vleft) = fold place_row (vt_items v) ([], [], []);
          width = fold max widths 0;
          (vx', vleft') = fold (centre_row width) (zip (vt_items v) widths) (vx, vleft);
          n_layers = int (length layers)
      in \<lparr>lo_items = vt_items v, lo_vx = vx', lo_vleft = vleft', lo_vlayer = vt_layer v,
          lo_segments = vt_segments v, lo_width = width,
          lo_height = n_layers * box_h + max (n_layers - 1) 0 * channel\<rparr>)"

section \<open>The grid\<close>

text \<open>Directions are sets of the bits \<open>_N\<close>, \<open>_S\<close>, \<open>_E\<close>, \<open>_W\<close>.\<close>

definition dir_n :: nat where "dir_n = 1"
definition dir_s :: nat where "dir_s = 2"
definition dir_e :: nat where "dir_e = 4"
definition dir_w :: nat where "dir_w = 8"

definition dir_glyph :: "nat \<Rightarrow> nat" where
  "dir_glyph d =
     (case map_of
        [(3, 0x2502), (12, 0x2500), (5, 0x2514), (9, 0x2518), (6, 0x250C), (10, 0x2510),
         (7, 0x251C), (11, 0x2524), (14, 0x252C), (13, 0x2534), (15, 0x253C),
         (1, 0x2502), (2, 0x2502), (4, 0x2500), (8, 0x2500)] d of
        Some g \<Rightarrow> g | None \<Rightarrow> 0xB7)"

record cell =
  ce_char :: nat
  ce_style :: string
  ce_dir :: nat

text \<open>The three arrays of \<open>_Grid\<close> as one function on columns and rows, read only within the bounds.\<close>

record grid =
  gr_w :: int
  gr_h :: int
  gr_cell :: "int \<Rightarrow> int \<Rightarrow> cell"

definition blank_cell :: cell where
  "blank_cell = \<lparr>ce_char = 32, ce_style = [], ce_dir = 0\<rparr>"

definition new_grid :: "int \<Rightarrow> int \<Rightarrow> grid" where
  "new_grid w h = \<lparr>gr_w = w, gr_h = h, gr_cell = (\<lambda>x y. blank_cell)\<rparr>"

definition on_grid :: "grid \<Rightarrow> int \<Rightarrow> int \<Rightarrow> bool" where
  "on_grid g x y \<longleftrightarrow> 0 \<le> x \<and> x < gr_w g \<and> 0 \<le> y \<and> y < gr_h g"

definition put :: "int \<Rightarrow> int \<Rightarrow> nat \<Rightarrow> string \<Rightarrow> grid \<Rightarrow> grid" where
  "put x y c style g =
     (if on_grid g x y
      then g\<lparr>gr_cell := (\<lambda>x' y'. if x' = x \<and> y' = y then \<lparr>ce_char = c, ce_style = style, ce_dir = 0\<rparr>
                                else gr_cell g x' y')\<rparr>
      else g)"

definition write_text :: "int \<Rightarrow> int \<Rightarrow> utext \<Rightarrow> string \<Rightarrow> grid \<Rightarrow> grid" where
  "write_text x y txt style g = fold (\<lambda>(i, c). put (x + int i) y c style) (enumerate 0 txt) g"

definition add_dir :: "int \<Rightarrow> int \<Rightarrow> nat \<Rightarrow> grid \<Rightarrow> grid" where
  "add_dir x y d g =
     (if on_grid g x y
      then let c = gr_cell g x y
           in g\<lparr>gr_cell := (\<lambda>x' y'. if x' = x \<and> y' = y then c\<lparr>ce_dir := ce_dir c OR d\<rparr>
                                   else gr_cell g x' y')\<rparr>
      else g)"

text \<open>\<open>to_lines\<close>: one styled character per cell; the style \<open>None\<close> is the empty one.\<close>

definition cell_span :: "cell \<Rightarrow> utext \<times> string" where
  "cell_span c =
     (if ce_dir c \<noteq> 0 \<and> ce_char c = 32 then ([dir_glyph (ce_dir c)], ''dim'') else ([ce_char c], ce_style c))"

definition to_lines :: "grid \<Rightarrow> (utext \<times> string) list list" where
  "to_lines g = map (\<lambda>y. map (\<lambda>x. cell_span (gr_cell g x y)) [0 .. gr_w g - 1]) [0 .. gr_h g - 1]"

section \<open>Drawing\<close>

text \<open>\<open>_normalise_status\<close>, and the symbol and style of a status.\<close>

definition normalise_status :: "row_like option \<Rightarrow> string" where
  "normalise_status row =
     (case row of
        None \<Rightarrow> ''pending''
      | Some r \<Rightarrow>
          let t = strip (takeWhile (\<lambda>c. c \<noteq> CHR '':'') (rw_status r)) in if t = [] then ''pending'' else t)"

definition status_glyph :: "string \<Rightarrow> nat \<times> string" where
  "status_glyph s =
     (case map_of
        [(''pending'', (0x25CB, ''dim'')), (''running'', (0x25D0, ''bold yellow'')),
         (''completed'', (0x25CF, ''bold green'')), (''empty'', (0x25CC, ''yellow'')),
         (''skipped'', (0x2298, ''dim red'')), (''failed'', (0x2717, ''bold red''))] s of
        Some g \<Rightarrow> g | None \<Rightarrow> (0x2022, ''white''))"

definition glyph_of :: "(int \<Rightarrow> row_like option) \<Rightarrow> int \<Rightarrow> nat \<times> string" where
  "glyph_of rows i = status_glyph (normalise_status (rows i))"

definition text_or_else :: "'a list \<Rightarrow> 'a list \<Rightarrow> 'a list" where
  "text_or_else s t = (if s = [] then t else s)"

fun or_none :: "string option \<Rightarrow> string" where
  "or_none None = []" | "or_none (Some s) = s"

text \<open>\<open>_body_text\<close>.\<close>

definition body_text :: "dag_node \<Rightarrow> row_like option \<Rightarrow> utext" where
  "body_text n row =
     (if dn_type n = ''decision'' then
        (let cond = text_or_else (or_none (dn_condition n)) (dn_description n);
             taken = (case row of None \<Rightarrow> [] | Some r \<Rightarrow> or_none (rw_branch_taken r))
         in if taken \<noteq> [] then ustrip ([0x2192] @ utf taken @ utf '' '' @ utf cond)
            else if cond \<noteq> [] then utf (''? '' @ cond) else utf ''decision'')
      else
        (case dn_subplan_size n of
           Some k \<Rightarrow>
             (let size = ''('' @ str_nat k @ '' nodes)''
              in if dn_description n \<noteq> [] then ustrip (utf (dn_description n @ '' '' @ size)) else utf size)
         | None \<Rightarrow> utf (text_or_else (dn_description n) (text_or_else (or_none (dn_tool n)) (dn_type n)))))"

definition node_head :: "dag_node \<Rightarrow> string" where
  "node_head n = (if dn_type n = ''tool'' \<and> or_none (dn_tool n) \<noteq> [] then or_none (dn_tool n) else dn_type n)"

definition row_flagged :: "row_like option \<Rightarrow> bool" where
  "row_flagged row = (case row of None \<Rightarrow> False | Some r \<Rightarrow> rw_flagged r)"

definition draw_border :: "int \<Rightarrow> int \<Rightarrow> string \<Rightarrow> grid \<Rightarrow> grid" where
  "draw_border x0 y0 style g =
     (let right = x0 + box_w - 1; bottom = y0 + box_h - 1;
          g1 = put right bottom 0x2518 style (put x0 bottom 0x2514 style
                 (put right y0 0x2510 style (put x0 y0 0x250C style g)));
          g2 = fold (\<lambda>x g. put x bottom 0x2500 style (put x y0 0x2500 style g)) [x0 + 1 .. right - 1] g1
      in fold (\<lambda>y g. put right y 0x2502 style (put x0 y 0x2502 style g)) [y0 + 1, y0 + 2] g2)"

definition draw_box :: "(int \<Rightarrow> row_like option) \<Rightarrow> dag_node \<Rightarrow> int \<Rightarrow> int \<Rightarrow> grid \<Rightarrow> grid" where
  "draw_box rows n x0 y0 g =
     (let (glyph, style) = glyph_of rows (dn_id n);
          row = rows (dn_id n);
          title = [glyph] @ utf ('' '' @ str_int (dn_id n) @ '' '' @ node_head n) @
                  (if row_flagged row then utf ''  '' @ [0x2691] else []);
          desc_style = (if normalise_status row \<in> {''pending'', ''skipped''} then ''dim'' else [])
      in write_text (x0 + 1) (y0 + 2) (truncate_text (body_text n row) (nat (box_w - 2))) desc_style
           (write_text (x0 + 1) (y0 + 1) (truncate_text title (nat (box_w - 2))) style
             (draw_border x0 y0 style g)))"

definition layer_top :: "nat \<Rightarrow> int" where
  "layer_top layer = int layer * (box_h + channel)"

definition draw_segment :: "(int \<Rightarrow> row_like option) \<Rightarrow> dag_layout \<Rightarrow> int \<times> int \<Rightarrow> grid \<Rightarrow> grid" where
  "draw_segment rows lo seg g =
     (case seg of (parent, child) \<Rightarrow>
        let ax = at_key 0 (lo_vx lo) parent; bx = at_key 0 (lo_vx lo) child;
            top = layer_top (at_key 0 (lo_vlayer lo) parent);
            cr0 = top + box_h; cr1 = cr0 + 1;
            g1 = (if parent > 0 then put ax (top + box_h - 1) 0x252C (snd (glyph_of rows parent)) g else g);
            g2 = (if child > 0 then put bx (cr1 + 1) 0x2534 (snd (glyph_of rows child)) g1 else g1)
        in if ax = bx then add_dir ax cr1 (dir_n OR dir_s) (add_dir ax cr0 (dir_n OR dir_s) g2)
           else
             (let g3 = add_dir ax cr0 (dir_n OR (if bx > ax then dir_e else dir_w)) g2;
                  g4 = fold (\<lambda>x. add_dir x cr0 (dir_e OR dir_w)) [min ax bx + 1 .. max ax bx - 1] g3;
                  g5 = add_dir bx cr0 ((if bx > ax then dir_w else dir_e) OR dir_s) g4
              in add_dir bx cr1 (dir_n OR dir_s) g5))"

definition draw_vertex ::
  "(int \<Rightarrow> row_like option) \<Rightarrow> (int \<times> dag_node) list \<Rightarrow> dag_layout \<Rightarrow> int \<times> nat \<Rightarrow> grid \<Rightarrow> grid" where
  "draw_vertex rows nodes lo vl g =
     (case vl of (i, layer) \<Rightarrow>
        let top = layer_top layer
        in if i > 0 then
             (case map_of nodes i of
                Some n \<Rightarrow> draw_box rows n (at_key 0 (lo_vleft lo) i) top g
              | None \<Rightarrow> g)
           else fold (\<lambda>y. add_dir (at_key 0 (lo_vx lo) i) y (dir_n OR dir_s)) [top .. top + box_h - 1] g)"

definition draw :: "(int \<Rightarrow> row_like option) \<Rightarrow> (int \<times> dag_node) list \<Rightarrow> dag_layout \<Rightarrow> grid" where
  "draw rows nodes lo =
     fold (draw_segment rows lo) (lo_segments lo)
       (fold (draw_vertex rows nodes lo) (lo_vlayer lo) (new_grid (lo_width lo) (lo_height lo)))"

section \<open>The renderable\<close>

text \<open>\<open>_fallback\<close>: lines of styled texts.\<close>

definition fallback_node :: "(int \<Rightarrow> row_like option) \<Rightarrow> dag_node \<Rightarrow> (utext \<times> string) list" where
  "fallback_node rows n =
     (let (glyph, style) = glyph_of rows (dn_id n);
          row = rows (dn_id n);
          body = body_text n row
      in [(utf ''  '', []), ([glyph] @ utf '' '', style),
          (utf (str_int (dn_id n) @ '' '' @ node_head n), style)] @
         (if body \<noteq> [] then [(utf ''  '' @ truncate_text body 40, ''dim'')] else []) @
         (if dn_context_needed n \<noteq> []
          then [(utf ''  '' @ [0x2190] @ utf ('' '' @ join '','' (map str_int (dn_context_needed n))), ''dim cyan'')]
          else []) @
         (if row_flagged row then [(utf '' '' @ [0x2691], ''yellow'')] else []))"

definition fallback_lines ::
  "(int \<Rightarrow> row_like option) \<Rightarrow> (int \<times> dag_node) list \<Rightarrow> int list list \<Rightarrow> (utext \<times> string) list list" where
  "fallback_lines rows nodes layers =
     concat (map (\<lambda>(depth, layer).
         [(utf (''layer '' @ str_nat depth), ''dim'')] #
         map (fallback_node rows) (List.map_filter (map_of nodes) layer))
       (enumerate 0 layers))"

definition measure_dag :: "dag_layout \<Rightarrow> int \<Rightarrow> int \<times> int" where
  "measure_dag lo max_width =
     (if lo_width lo > max_width then (1, max_width) else (lo_width lo, lo_width lo))"

text \<open>\<open>render_dag\<close> and \<open>__rich_console__\<close>: the empty text is no line at all.\<close>

definition render_dag ::
  "(json \<Rightarrow> string) \<Rightarrow> (int list \<Rightarrow> int list) \<Rightarrow> int \<Rightarrow> (string \<times> json) list \<Rightarrow>
   (int \<Rightarrow> row_like option) \<Rightarrow> (utext \<times> string) list list" where
  "render_dag str enum max_width plan rows =
     (let nodes = parse_nodes str plan;
          layers = layers_of enum nodes;
          lo = compute_layout nodes layers
      in if nodes = [] then []
         else if lo_width lo > max_width then fallback_lines rows (by_id nodes) layers
         else to_lines (draw rows (by_id nodes) lo))"

section \<open>What a drawing step can change\<close>

text \<open>
  A step paints within a region: the size stays, cells outside are untouched, a cell of the result
  depends on the same cell before only, and no connector appears where there was none.
\<close>

definition paints :: "(int \<times> int) set \<Rightarrow> (grid \<Rightarrow> grid) \<Rightarrow> bool" where
  "paints A f \<longleftrightarrow>
     (\<forall>g. gr_w (f g) = gr_w g \<and> gr_h (f g) = gr_h g \<and>
        (\<forall>x y. (x, y) \<notin> A \<longrightarrow> gr_cell (f g) x y = gr_cell g x y) \<and>
        (\<forall>x y. ce_dir (gr_cell g x y) = 0 \<longrightarrow> ce_dir (gr_cell (f g) x y) = 0) \<and>
        (\<forall>g' x y. gr_w g' = gr_w g \<longrightarrow> gr_h g' = gr_h g \<longrightarrow> gr_cell g' x y = gr_cell g x y \<longrightarrow>
           gr_cell (f g') x y = gr_cell (f g) x y))"

lemma paintsD:
  assumes "paints A f"
  shows "gr_w (f g) = gr_w g" "gr_h (f g) = gr_h g"
    "(x, y) \<notin> A \<Longrightarrow> gr_cell (f g) x y = gr_cell g x y"
    "ce_dir (gr_cell g x y) = 0 \<Longrightarrow> ce_dir (gr_cell (f g) x y) = 0"
    "gr_w g' = gr_w g \<Longrightarrow> gr_h g' = gr_h g \<Longrightarrow> gr_cell g' x y = gr_cell g x y \<Longrightarrow>
       gr_cell (f g') x y = gr_cell (f g) x y"
  using assms unfolding paints_def by blast+

lemma paints_comp:
  assumes "paints A f" and "paints A h"
  shows "paints A (\<lambda>g. f (h g))"
  unfolding paints_def
proof (intro allI conjI impI)
  fix g :: grid
  show "gr_w (f (h g)) = gr_w g" "gr_h (f (h g)) = gr_h g"
    by (simp_all only: paintsD(1,2) [OF assms(1)] paintsD(1,2) [OF assms(2)])
next
  fix g :: grid and x y
  assume "(x, y) \<notin> A"
  then show "gr_cell (f (h g)) x y = gr_cell g x y"
    by (simp only: paintsD(3) [OF assms(1)] paintsD(3) [OF assms(2)] not_False_eq_True)
next
  fix g :: grid and x y
  assume "ce_dir (gr_cell g x y) = 0"
  then show "ce_dir (gr_cell (f (h g)) x y) = 0"
    by (intro paintsD(4) [OF assms(1)] paintsD(4) [OF assms(2)])
next
  fix g g' :: grid and x y
  assume "gr_w g' = gr_w g" "gr_h g' = gr_h g" "gr_cell g' x y = gr_cell g x y"
  then show "gr_cell (f (h g')) x y = gr_cell (f (h g)) x y"
    by (intro paintsD(5) [OF assms(1)] paintsD(5) [OF assms(2)])
      (simp_all only: paintsD(1,2) [OF assms(2)])
qed

lemma paints_mono: "paints A f \<Longrightarrow> A \<subseteq> B \<Longrightarrow> paints B f"
  unfolding paints_def by (meson subsetD)

lemma paints_fold:
  assumes "\<And>x. x \<in> set xs \<Longrightarrow> paints A (f x)"
  shows "paints A (fold f xs)"
  using assms
proof (induction xs)
  case Nil
  then show ?case by (simp add: paints_def)
next
  case (Cons x xs)
  then have "paints A (\<lambda>g. fold f xs (f x g))" by (simp add: paints_comp [of A "fold f xs" "f x"])
  then show ?case by (simp add: o_def)
qed

lemma put_simps [simp]:
  "gr_w (put x y c s g) = gr_w g" "gr_h (put x y c s g) = gr_h g"
  "gr_cell (put x y c s g) x' y' =
     (if x' = x \<and> y' = y \<and> on_grid g x y then \<lparr>ce_char = c, ce_style = s, ce_dir = 0\<rparr> else gr_cell g x' y')"
  by (simp_all add: put_def)

lemma paints_put:
  assumes "(x, y) \<in> A"
  shows "paints A (put x y c s)"
proof -
  have "gr_cell (put x y c s g) u v = gr_cell g u v" if "(u, v) \<notin> A" for u v and g :: grid
    using that assms by auto
  moreover have "ce_dir (gr_cell (put x y c s g) u v) = 0" if "ce_dir (gr_cell g u v) = 0" for u v and g :: grid
    using that by simp
  moreover have "gr_cell (put x y c s g') u v = gr_cell (put x y c s g) u v"
    if "gr_w g' = gr_w g" "gr_h g' = gr_h g" "gr_cell g' u v = gr_cell g u v" for u v and g g' :: grid
    by (simp add: that on_grid_def)
  ultimately show ?thesis unfolding paints_def put_simps(1,2) by blast
qed

lemma paints_write:
  assumes "\<And>i. i < length t \<Longrightarrow> (x + int i, y) \<in> A"
  shows "paints A (write_text x y t s)"
proof -
  have "write_text x y t s = fold (\<lambda>(i, c). put (x + int i) y c s) (enumerate 0 t)"
    by (auto simp: write_text_def)
  then show ?thesis
    using assms by (auto intro!: paints_fold paints_put simp: in_set_enumerate_eq)
qed

definition box_region :: "int \<Rightarrow> int \<Rightarrow> (int \<times> int) set" where
  "box_region x0 y0 = {x0 ..< x0 + box_w} \<times> {y0 ..< y0 + box_h}"

lemma urstrip_length: "length (urstrip t) \<le> length t"
  by (simp add: urstrip_def) (metis length_dropWhile_le length_rev)

lemma truncate_length: "1 \<le> limit \<Longrightarrow> length (truncate_text t limit) \<le> limit"
  using urstrip_length [of "take (limit - 1) (ustrip t)"] by (auto simp: truncate_text_def Let_def)

lemma in_box_region: "(x, y) \<in> box_region x0 y0 \<longleftrightarrow> x0 \<le> x \<and> x < x0 + 24 \<and> y0 \<le> y \<and> y < y0 + 4"
  by (simp add: box_region_def geometry)

lemma paints_border: "paints (box_region x0 y0) (draw_border x0 y0 s)"
proof -
  let ?A = "box_region x0 y0" and ?right = "x0 + box_w - 1" and ?bottom = "y0 + box_h - 1"
  have corners: "paints ?A (\<lambda>g. put ?right ?bottom c1 s (put x0 ?bottom c2 s (put ?right y0 c3 s (put x0 y0 c4 s g))))"
    for c1 c2 c3 c4
    by (rule paints_comp [OF paints_put paints_comp [OF paints_put paints_comp [OF paints_put paints_put]]])
      (simp_all add: in_box_region geometry)
  have "paints ?A (\<lambda>g. put x ?bottom c s (put x y0 c s g))" if "x \<in> set [x0 + 1 .. ?right - 1]" for x c
    using that by (intro paints_comp [OF paints_put paints_put]) (auto simp: in_box_region geometry)
  then have across: "paints ?A (fold (\<lambda>x g. put x ?bottom c s (put x y0 c s g)) [x0 + 1 .. ?right - 1])" for c
    by (rule paints_fold)
  have "paints ?A (\<lambda>g. put ?right y c s (put x0 y c s g))" if "y \<in> set [y0 + 1, y0 + 2]" for y c
    using that by (intro paints_comp [OF paints_put paints_put]) (auto simp: in_box_region geometry)
  then have down: "paints ?A (fold (\<lambda>y g. put ?right y c s (put x0 y c s g)) [y0 + 1, y0 + 2])" for c
    by (rule paints_fold)
  show ?thesis
    using paints_comp [OF down paints_comp [OF across corners]] unfolding draw_border_def Let_def .
qed

lemma paints_box: "paints (box_region x0 y0) (draw_box rows n x0 y0)"
proof -
  have line: "paints (box_region x0 y0) (write_text (x0 + 1) (y0 + k) (truncate_text t (nat (box_w - 2))) s)"
    if "0 < k" "k < 3" for k t s
    using that truncate_length [of "nat (box_w - 2)" t]
    by (intro paints_write) (simp add: in_box_region geometry)
  show ?thesis
    using paints_comp [OF line [of 2] paints_comp [OF line [of 1] paints_border]]
    unfolding draw_box_def Let_def case_prod_beta by simp
qed

text \<open>Connector steps, which do add directions, but only in their region.\<close>

definition connects :: "(int \<times> int) set \<Rightarrow> (int \<times> int) set \<Rightarrow> (grid \<Rightarrow> grid) \<Rightarrow> bool" where
  "connects A D f \<longleftrightarrow>
     (\<forall>g. gr_w (f g) = gr_w g \<and> gr_h (f g) = gr_h g \<and>
        (\<forall>x y. (x, y) \<notin> A \<longrightarrow> gr_cell (f g) x y = gr_cell g x y) \<and>
        (\<forall>x y. (x, y) \<notin> D \<longrightarrow> ce_dir (gr_cell g x y) = 0 \<longrightarrow> ce_dir (gr_cell (f g) x y) = 0))"

lemma connectsD:
  assumes "connects A D f"
  shows "gr_w (f g) = gr_w g" "gr_h (f g) = gr_h g"
    "(x, y) \<notin> A \<Longrightarrow> gr_cell (f g) x y = gr_cell g x y"
    "(x, y) \<notin> D \<Longrightarrow> ce_dir (gr_cell g x y) = 0 \<Longrightarrow> ce_dir (gr_cell (f g) x y) = 0"
  using assms unfolding connects_def by blast+

lemma paints_connects: "paints A f \<Longrightarrow> connects A D f"
  unfolding paints_def connects_def by blast

lemma connects_comp:
  assumes "connects A D f" and "connects A D h"
  shows "connects A D (\<lambda>g. f (h g))"
  unfolding connects_def
proof (intro allI conjI impI)
  fix g :: grid
  show "gr_w (f (h g)) = gr_w g" "gr_h (f (h g)) = gr_h g"
    by (simp_all only: connectsD(1,2) [OF assms(1)] connectsD(1,2) [OF assms(2)])
next
  fix g :: grid and x y
  assume "(x, y) \<notin> A"
  then show "gr_cell (f (h g)) x y = gr_cell g x y"
    by (simp only: connectsD(3) [OF assms(1)] connectsD(3) [OF assms(2)] not_False_eq_True)
next
  fix g :: grid and x y
  assume "(x, y) \<notin> D" and "ce_dir (gr_cell g x y) = 0"
  then show "ce_dir (gr_cell (f (h g)) x y) = 0"
    by (intro connectsD(4) [OF assms(1)] connectsD(4) [OF assms(2)])
qed

lemma connects_fold:
  assumes "\<And>x. x \<in> set xs \<Longrightarrow> connects A D (f x)"
  shows "connects A D (fold f xs)"
  using assms
proof (induction xs)
  case Nil
  then show ?case by (simp add: connects_def)
next
  case (Cons x xs)
  then have "connects A D (\<lambda>g. fold f xs (f x g))" by (simp add: connects_comp [of A D "fold f xs" "f x"])
  then show ?case by (simp add: o_def)
qed

lemma add_dir_simps:
  "gr_w (add_dir x y d g) = gr_w g" "gr_h (add_dir x y d g) = gr_h g"
  "gr_cell (add_dir x y d g) x' y' =
     (if x' = x \<and> y' = y \<and> on_grid g x y then (gr_cell g x y)\<lparr>ce_dir := ce_dir (gr_cell g x y) OR d\<rparr>
      else gr_cell g x' y')"
  by (simp_all add: add_dir_def Let_def)

lemma connects_add_dir: "(x, y) \<in> A \<Longrightarrow> (x, y) \<in> D \<Longrightarrow> connects A D (add_dir x y d)"
  by (auto simp: connects_def add_dir_simps)

lemma connects_put: "(x, y) \<in> A \<Longrightarrow> connects A D (put x y c s)"
  by (rule paints_connects [OF paints_put])

lemma connects_if: "connects A D f \<Longrightarrow> connects A D (\<lambda>g. if b then f g else g)"
  by (simp add: connects_def)

text \<open>A segment lives in a channel, and on the borders above and below it.\<close>

lemma channel_rows:
  "(layer_top l + box_h - 1) mod (box_h + channel) = 3" "(layer_top l + box_h) mod (box_h + channel) = 4"
  "(layer_top l + box_h + 1) mod (box_h + channel) = 5" "(layer_top l + box_h + 1 + 1) mod (box_h + channel) = 0"
proof -
  have "(k * 6 + 3) mod 6 = 3" "(k * 6 + 4) mod 6 = 4" "(k * 6 + 5) mod 6 = 5" "(k * 6 + 6) mod 6 = 0" for k :: int
    by presburger+
  then show "(layer_top l + box_h - 1) mod (box_h + channel) = 3" "(layer_top l + box_h) mod (box_h + channel) = 4"
    "(layer_top l + box_h + 1) mod (box_h + channel) = 5" "(layer_top l + box_h + 1 + 1) mod (box_h + channel) = 0"
    by (simp_all add: layer_top_def geometry algebra_simps)
qed

definition border_rows :: "(int \<times> int) set" where
  "border_rows = {(x, y). y mod (box_h + channel) \<in> {0, 3, 4, 5}}"

definition channel_cells :: "(int \<times> int) set" where
  "channel_cells = {(x, y). y mod (box_h + channel) \<in> {4, 5}}"

lemma connects_segment: "connects border_rows channel_cells (draw_segment rows lo seg)"
proof -
  obtain parent child where seg: "seg = (parent, child)" by fastforce
  define top where "top = layer_top (at_key 0 (lo_vlayer lo) parent)"
  define ax bx where "ax = at_key 0 (lo_vx lo) parent" and "bx = at_key 0 (lo_vx lo) child"
  have cells: "(x, top + box_h - 1) \<in> border_rows" "(x, top + box_h) \<in> border_rows" "(x, top + box_h) \<in> channel_cells"
    "(x, top + box_h + 1) \<in> border_rows" "(x, top + box_h + 1) \<in> channel_cells" "(x, top + box_h + 1 + 1) \<in> border_rows" for x
    unfolding border_rows_def channel_cells_def top_def mem_Collect_eq prod.case channel_rows by simp_all
  let ?tee1 = "\<lambda>g. if parent > 0 then put ax (top + box_h - 1) 0x252C (snd (glyph_of rows parent)) g else g"
  let ?tee2 = "\<lambda>g. if child > 0 then put bx (top + box_h + 1 + 1) 0x2534 (snd (glyph_of rows child)) g else g"
  have tees: "connects border_rows channel_cells (\<lambda>g. ?tee2 (?tee1 g))"
    by (rule connects_comp [OF connects_if [OF connects_put] connects_if [OF connects_put]]) (rule cells)+
  have down: "connects border_rows channel_cells (add_dir x (top + box_h + 1) d)"
    and across: "connects border_rows channel_cells (add_dir x (top + box_h) d)" for x d
    by (rule connects_add_dir; rule cells)+
  have "draw_segment rows lo seg = (\<lambda>g. add_dir ax (top + box_h + 1) (dir_n OR dir_s)
      (add_dir ax (top + box_h) (dir_n OR dir_s) (?tee2 (?tee1 g))))" if "ax = bx"
    using that unfolding draw_segment_def seg Let_def prod.case top_def ax_def bx_def by (intro ext) (simp only: simp_thms if_True)
  moreover have "draw_segment rows lo seg = (\<lambda>g. add_dir bx (top + box_h + 1) (dir_n OR dir_s)
      (add_dir bx (top + box_h) ((if bx > ax then dir_w else dir_e) OR dir_s)
        (fold (\<lambda>x. add_dir x (top + box_h) (dir_e OR dir_w)) [min ax bx + 1 .. max ax bx - 1]
          (add_dir ax (top + box_h) (dir_n OR (if bx > ax then dir_e else dir_w)) (?tee2 (?tee1 g))))))" if "ax \<noteq> bx"
    using that unfolding draw_segment_def seg Let_def prod.case top_def ax_def bx_def by (intro ext) (simp only: if_False)
  moreover note connects_comp [OF down connects_comp [OF across tees]]
    connects_comp [OF down connects_comp [OF across connects_comp [OF connects_fold [OF across] connects_comp [OF across tees]]]]
  ultimately show ?thesis by (cases "ax = bx") (simp_all only: not_False_eq_True)
qed

section \<open>Columns\<close>

lemma at_key_update: "at_key d (AList.update i v m) j = (if j = i then v else at_key d m j)"
  by (simp add: at_key_def)

text \<open>The left edge of an item of a row that starts at \<open>c\<close>, and where the row ends.\<close>

fun left_in :: "int \<Rightarrow> int list \<Rightarrow> int \<Rightarrow> int" where
  "left_in c [] i = c"
| "left_in c (j # row) i = (if i = j then c else left_in (c + item_width j + col_gap) row i)"

definition row_end :: "int \<Rightarrow> int list \<Rightarrow> int" where
  "row_end c row = c + (\<Sum>j\<leftarrow>row. item_width j + col_gap)"

lemma item_width_pos: "0 < item_width i" by (simp add: item_width_def geometry)

lemma row_end_ge: "c \<le> row_end c row"
proof -
  have "0 \<le> (\<Sum>j\<leftarrow>row. item_width j + col_gap)"
    by (rule sum_list_nonneg) (auto simp: item_width_def geometry)
  then show ?thesis by (simp add: row_end_def)
qed

lemma left_in_bounds: "i \<in> set row \<Longrightarrow> c \<le> left_in c row i \<and> left_in c row i + item_width i + col_gap \<le> row_end c row"
proof (induction row arbitrary: c)
  case (Cons j row)
  have e: "row_end c (j # row) = row_end (c + item_width j + col_gap) row" by (simp add: row_end_def)
  show ?case
  proof (cases "i = j")
    case True
    with row_end_ge [of "c + item_width j + col_gap" row] show ?thesis unfolding e by simp
  next
    case False
    with Cons have "c + item_width j + col_gap \<le> left_in (c + item_width j + col_gap) row i"
      "left_in (c + item_width j + col_gap) row i + item_width i + col_gap \<le> row_end (c + item_width j + col_gap) row"
      by auto
    with False item_width_pos [of j] show ?thesis unfolding e by (simp add: geometry)
  qed
qed simp

lemma left_in_apart:
  "i \<in> set row \<Longrightarrow> j \<in> set row \<Longrightarrow> i \<noteq> j \<Longrightarrow>
     left_in c row i + item_width i \<le> left_in c row j \<or> left_in c row j + item_width j \<le> left_in c row i"
proof (induction row arbitrary: c)
  case (Cons k row)
  have "c + item_width k \<le> left_in (c + item_width k + col_gap) row l" if "l \<in> set row" for l
    using left_in_bounds [OF that, of "c + item_width k + col_gap"] by (simp add: geometry)
  with Cons show ?case by fastforce
qed simp

lemma fold_place_item:
  "distinct row \<Longrightarrow> fold place_item row (c, vx, vleft) = (c', vx', vleft') \<Longrightarrow>
     c' = row_end c row \<and>
     (\<forall>i. at_key 0 vleft' i = (if i \<in> set row then left_in c row i else at_key 0 vleft i) \<and>
          at_key 0 vx' i = (if i \<in> set row then left_in c row i + item_width i div 2 else at_key 0 vx i))"
proof (induction row arbitrary: c vx vleft)
  case Nil
  then show ?case by (simp add: row_end_def)
next
  case (Cons j row)
  let ?c = "c + item_width j + col_gap"
  from Cons.prems have "fold place_item row (?c, AList.update j (c + item_width j div 2) vx, AList.update j c vleft) =
      (c', vx', vleft')" by (simp add: place_item_def [of j])
  with Cons.IH Cons.prems(1) have ih: "c' = row_end ?c row"
    "at_key 0 vleft' i = (if i \<in> set row then left_in ?c row i else at_key 0 (AList.update j c vleft) i)"
    "at_key 0 vx' i = (if i \<in> set row then left_in ?c row i + item_width i div 2
                       else at_key 0 (AList.update j (c + item_width j div 2) vx) i)" for i
    by auto
  have "j \<notin> set row" using Cons.prems(1) by simp
  then show ?case unfolding ih by (auto simp: at_key_update row_end_def)
qed

definition row_width :: "int list \<Rightarrow> int" where
  "row_width row = max (row_end 0 row - col_gap) 0"

lemma fold_place_row:
  "distinct (concat rows) \<Longrightarrow> fold place_row rows (ws, vx, vleft) = (ws', vx', vleft') \<Longrightarrow>
     ws' = ws @ map row_width rows \<and>
     (\<forall>i row. i \<in> set row \<longrightarrow> row \<in> set rows \<longrightarrow>
        at_key 0 vleft' i = left_in 0 row i \<and> at_key 0 vx' i = left_in 0 row i + item_width i div 2) \<and>
     (\<forall>i. i \<notin> set (concat rows) \<longrightarrow> at_key 0 vleft' i = at_key 0 vleft i \<and> at_key 0 vx' i = at_key 0 vx i)"
proof (induction rows arbitrary: ws vx vleft)
  case (Cons row rows)
  obtain c vx1 vleft1 where r: "fold place_item row (0, vx, vleft) = (c, vx1, vleft1)" by (metis prod_cases3)
  have d: "distinct row" "distinct (concat rows)" "set row \<inter> set (concat rows) = {}" using Cons.prems(1) by auto
  from fold_place_item [OF d(1) r] have f: "c = row_end 0 row"
    "at_key 0 vleft1 i = (if i \<in> set row then left_in 0 row i else at_key 0 vleft i)"
    "at_key 0 vx1 i = (if i \<in> set row then left_in 0 row i + item_width i div 2 else at_key 0 vx i)" for i by auto
  have "fold place_row rows (ws @ [row_width row], vx1, vleft1) = (ws', vx', vleft')"
    using Cons.prems(2) r f(1) by (simp add: place_row_def [of row] row_width_def)
  note ih = Cons.IH [OF d(2) this]
  show ?case
  proof (intro conjI allI impI)
    show "ws' = ws @ map row_width (row # rows)" using ih by simp
  next
    fix i row' assume "i \<in> set row'" and "row' \<in> set (row # rows)"
    then show "at_key 0 vleft' i = left_in 0 row' i" "at_key 0 vx' i = left_in 0 row' i + item_width i div 2"
      using ih d(3) f(2,3) by (cases "row' = row"; fastforce)+
  next
    fix i assume "i \<notin> set (concat (row # rows))"
    then show "at_key 0 vleft' i = at_key 0 vleft i" "at_key 0 vx' i = at_key 0 vx i"
      using ih f(2,3) by simp_all
  qed
qed simp

lemma fold_shift:
  "distinct row \<Longrightarrow> fold (\<lambda>item (vx, vleft). (shift o1 item vx, shift o1 item vleft)) row (vx, vleft) = (vx', vleft') \<Longrightarrow>
     at_key 0 vx' i = at_key 0 vx i + (if i \<in> set row then o1 else 0) \<and>
     at_key 0 vleft' i = at_key 0 vleft i + (if i \<in> set row then o1 else 0)"
proof (induction row arbitrary: vx vleft)
  case (Cons j row)
  from Cons.prems have "fold (\<lambda>item (vx, vleft). (shift o1 item vx, shift o1 item vleft)) row
      (shift o1 j vx, shift o1 j vleft) = (vx', vleft')" by simp
  from Cons.IH [OF _ this] Cons.prems(1) show ?case by (auto simp: shift_def at_key_update)
qed simp

lemma fold_centre:
  "distinct (concat rows) \<Longrightarrow> fold (centre_row width) (zip rows (map row_width rows)) (vx, vleft) = (vx', vleft') \<Longrightarrow>
     (\<forall>i row. i \<in> set row \<longrightarrow> row \<in> set rows \<longrightarrow>
        at_key 0 vx' i = at_key 0 vx i + (width - row_width row) div 2 \<and>
        at_key 0 vleft' i = at_key 0 vleft i + (width - row_width row) div 2) \<and>
     (\<forall>i. i \<notin> set (concat rows) \<longrightarrow> at_key 0 vleft' i = at_key 0 vleft i \<and> at_key 0 vx' i = at_key 0 vx i)"
proof (induction rows arbitrary: vx vleft)
  case (Cons row rows)
  obtain vx1 vleft1 where r: "centre_row width (row, row_width row) (vx, vleft) = (vx1, vleft1)" by fastforce
  have d: "distinct row" "distinct (concat rows)" "set row \<inter> set (concat rows) = {}" using Cons.prems(1) by auto
  note f = fold_shift [OF d(1) r [unfolded centre_row_def prod.case Let_def]]
  have "fold (centre_row width) (zip rows (map row_width rows)) (vx1, vleft1) = (vx', vleft')"
    using Cons.prems(2) r by simp
  note ih = Cons.IH [OF d(2) this]
  show ?case
  proof (intro conjI allI impI)
    fix i row' assume i: "i \<in> set row'" and "row' \<in> set (row # rows)"
    then consider "row' = row" "i \<notin> set (concat rows)" | "row' \<in> set rows" "i \<notin> set row" using d(3) by auto
    then show "at_key 0 vx' i = at_key 0 vx i + (width - row_width row') div 2"
      "at_key 0 vleft' i = at_key 0 vleft i + (width - row_width row') div 2"
      using ih f [of i] i by (cases; simp)+
  next
    fix i assume "i \<notin> set (concat (row # rows))"
    then show "at_key 0 vleft' i = at_key 0 vleft i" "at_key 0 vx' i = at_key 0 vx i"
      using ih f [of i] by simp_all
  qed
qed simp

section \<open>Vertices\<close>

lemma distinct_concat_rows:
  "(\<And>l. l < length rows \<Longrightarrow> distinct (rows ! l)) \<Longrightarrow>
   (\<And>i l k. lies_in rows i l \<Longrightarrow> lies_in rows i k \<Longrightarrow> k = l) \<Longrightarrow> distinct (concat rows)"
proof (induction rows)
  case (Cons row rows)
  have "distinct (rows ! l)" if "l < length rows" for l using Cons.prems(1) [of "Suc l"] that by simp
  moreover have "k = l" if "lies_in rows i l" "lies_in rows i k" for i l k
    using Cons.prems(2) [of i "Suc l" "Suc k"] that by (simp add: lies_in_def)
  moreover have "set row \<inter> set (concat rows) = {}"
  proof -
    have False if "i \<in> set row" "row' \<in> set rows" "i \<in> set row'" for i row'
    proof -
      from that(2) obtain l where "l < length rows" "rows ! l = row'" by (auto simp: in_set_conv_nth)
      with that Cons.prems(2) [of i 0 "Suc l"] show False by (simp add: lies_in_def)
    qed
    then show ?thesis by auto
  qed
  ultimately show ?case using Cons.IH Cons.prems(1) [of 0] by auto
qed simp

lemma concat_iff_lies: "i \<in> set (concat rows) \<longleftrightarrow> (\<exists>l. lies_in rows i l)"
  unfolding lies_in_def by (auto simp: in_set_conv_nth [of _ rows] intro: nth_mem)

lemma fold_update_keys:
  "map_of (fold (\<lambda>i. AList.update i l) layer m) j = (if j \<in> set layer then Some l else map_of m j)"
  by (induction layer arbitrary: m) auto

lemma fold_update_distinct: "distinct (map fst m) \<Longrightarrow> distinct (map fst (fold (\<lambda>i. AList.update i l) layer m))"
  by (induction layer arbitrary: m) (simp_all add: distinct_update)

lemma start_layer_map:
  "(\<And>l k. lies_in rows i l \<Longrightarrow> lies_in rows i k \<Longrightarrow> k = l) \<Longrightarrow>
   map_of (fold (\<lambda>(l, layer). fold (\<lambda>i. AList.update i l) layer) (enumerate n rows) m) i = Some l \<longleftrightarrow>
     (n \<le> l \<and> lies_in rows i (l - n)) \<or> (i \<notin> set (concat rows) \<and> map_of m i = Some l)"
proof (induction rows arbitrary: n m)
  case Nil
  then show ?case by (simp add: lies_in_def)
next
  case (Cons row rows)
  have u: "k = l" if "lies_in rows i l" "lies_in rows i k" for l k
    using Cons.prems [of "Suc l" "Suc k"] that by (simp add: lies_in_def)
  have x: "i \<in> set row \<Longrightarrow> i \<notin> set (concat rows)"
    using Cons.prems [of 0 "Suc _"] unfolding concat_iff_lies by (auto simp: lies_in_def)
  have s: "n \<le> l \<and> lies_in (row # rows) i (l - n) \<longleftrightarrow>
      (l = n \<and> i \<in> set row) \<or> (Suc n \<le> l \<and> lies_in rows i (l - Suc n))"
  proof (cases "l \<le> n")
    case False
    then have "l - n = Suc (l - Suc n)" by simp
    with False show ?thesis by (simp add: lies_in_def)
  qed (auto simp: lies_in_def)
  show ?case
    using Cons.IH [OF u, of "Suc n" "fold (\<lambda>i. AList.update i n) row m"] x
    unfolding s by (auto simp: fold_update_keys)
qed

lemma start_layer_distinct:
  "distinct (map fst m) \<Longrightarrow>
   distinct (map fst (fold (\<lambda>(l, layer). fold (\<lambda>i. AList.update i l) layer) (enumerate n rows) m))"
  by (induction rows arbitrary: n m) (simp_all add: fold_update_distinct)

text \<open>What every vertex state of a layout satisfies, for the layers it started from.\<close>

definition placed :: "int list list \<Rightarrow> vertices \<Rightarrow> bool" where
  "placed layers v \<longleftrightarrow>
     length (vt_items v) = length layers \<and>
     (\<forall>i l. lies_in (vt_items v) i l \<longleftrightarrow> map_of (vt_layer v) i = Some l) \<and>
     (\<forall>l < length layers. distinct (vt_items v ! l)) \<and>
     distinct (map fst (vt_layer v)) \<and>
     (\<forall>i l. 0 < i \<longrightarrow> (map_of (vt_layer v) i = Some l \<longleftrightarrow> lies_in layers i l)) \<and>
     vt_next v < 0 \<and> (\<forall>i. i \<le> vt_next v \<longrightarrow> map_of (vt_layer v) i = None)"

definition proper_layers :: "int list list \<Rightarrow> bool" where
  "proper_layers layers \<longleftrightarrow>
     (\<forall>i l k. lies_in layers i l \<longrightarrow> lies_in layers i k \<longrightarrow> k = l) \<and>
     (\<forall>i l. lies_in layers i l \<longrightarrow> 0 < i) \<and> (\<forall>l < length layers. distinct (layers ! l))"

lemma placed_start:
  assumes "proper_layers layers"
  shows "placed layers (start_vertices layers)"
proof -
  have m: "map_of (vt_layer (start_vertices layers)) i = Some l \<longleftrightarrow> lies_in layers i l" for i l
    using start_layer_map [of layers i 0 "[]" l] assms
    by (auto simp: start_vertices_def proper_layers_def)
  have "map_of (vt_layer (start_vertices layers)) i = None" if "i \<le> -1" for i
  proof (rule ccontr)
    assume "map_of (vt_layer (start_vertices layers)) i \<noteq> None"
    then obtain l where "lies_in layers i l" by (auto simp: m)
    with assms that show False by (force simp: proper_layers_def)
  qed
  with m assms show ?thesis
    by (simp add: placed_def proper_layers_def start_vertices_def start_layer_distinct)
qed

lemma placed_add_dummy:
  assumes "placed layers v" and "idx < length layers"
  shows "placed layers (snd (add_dummy idx (prev, v)))"
proof -
  let ?v = "snd (add_dummy idx (prev, v))"
  have l: "length (vt_items v) = length layers" and n: "vt_next v < 0"
    and none: "\<And>i. i \<le> vt_next v \<Longrightarrow> map_of (vt_layer v) i = None"
    and lies: "\<And>i l. lies_in (vt_items v) i l \<longleftrightarrow> map_of (vt_layer v) i = Some l"
    and pos: "\<And>i l. 0 < i \<Longrightarrow> map_of (vt_layer v) i = Some l \<longleftrightarrow> lies_in layers i l"
    using assms(1) unfolding placed_def by blast+
  have fresh: "\<not> lies_in (vt_items v) (vt_next v) k" for k using lies none by simp
  have "lies_in (vt_items ?v) i k \<longleftrightarrow> map_of (vt_layer ?v) i = Some k" for i k
    using lies [of i k] fresh [of k] l assms(2)
    by (auto simp: add_dummy_def lies_in_def nth_list_update)
  moreover have "distinct (vt_items ?v ! k)" if "k < length layers" for k
    using assms that l fresh [of k] by (auto simp: add_dummy_def nth_list_update placed_def lies_in_def)
  moreover have "distinct (map fst (vt_layer ?v))"
    using assms(1) by (simp add: add_dummy_def placed_def distinct_update)
  moreover have "map_of (vt_layer ?v) i = Some k \<longleftrightarrow> lies_in layers i k" if "0 < i" for i k
    using pos [OF that] that n by (simp add: add_dummy_def)
  ultimately show ?thesis
    unfolding placed_def using l n none by (simp add: add_dummy_def)
qed

lemma placed_split_edge:
  assumes "placed layers v"
  shows "placed layers (split_edge e v)"
proof -
  obtain parent child where e: "e = (parent, child)" by fastforce
  let ?idx = "[Suc (at_key 0 (vt_layer v) parent) ..< at_key 0 (vt_layer v) child]"
  have "k < length layers" if "k \<in> set ?idx" for k
  proof -
    from that obtain l where "map_of (vt_layer v) child = Some l" "k < l"
      by (auto simp: at_key_def split: option.splits)
    moreover from this have "lies_in (vt_items v) child l" "length (vt_items v) = length layers"
      using assms unfolding placed_def by blast+
    ultimately show ?thesis by (simp add: lies_in_def)
  qed
  then have "placed layers (snd (fold add_dummy ?idx (parent, v)))"
    using assms by (intro fold_invariant [where Q = "\<lambda>k. k < length layers" and P = "\<lambda>pv. placed layers (snd pv)"])
      (auto intro: placed_add_dummy)
  then show ?thesis
    unfolding e split_edge_def prod.case by (auto simp: placed_def split: prod.split)
qed

lemma placed_layout:
  assumes "proper_layers layers"
  shows "placed layers (fold split_edge es (start_vertices layers))"
  using placed_start [OF assms]
  by (intro fold_invariant [where Q = "\<lambda>_. True" and P = "placed layers"]) (simp_all add: placed_split_edge)

section \<open>Boxes stay readable\<close>

lemma layout_layer:
  "lo_vlayer (compute_layout nodes layers) = vt_layer (fold split_edge (edge_list (by_id nodes)) (start_vertices layers))"
  by (simp add: compute_layout_def Let_def split: prod.split)

lemma layout_height:
  "lo_height (compute_layout nodes layers) = int (length layers) * box_h + max (int (length layers) - 1) 0 * channel"
  by (simp add: compute_layout_def Let_def split: prod.split)

definition vertex_region :: "dag_layout \<Rightarrow> int \<times> nat \<Rightarrow> (int \<times> int) set" where
  "vertex_region lo vl =
     (case vl of (i, l) \<Rightarrow>
        {at_key 0 (lo_vleft lo) i ..< at_key 0 (lo_vleft lo) i + item_width i} \<times> {layer_top l ..< layer_top l + box_h})"

lemma layout_columns:
  assumes p: "proper_layers layers" and i: "map_of (lo_vlayer (compute_layout nodes layers)) i = Some l"
  defines "lo \<equiv> compute_layout nodes layers"
  shows "l < length layers"
    and "0 \<le> at_key 0 (lo_vleft lo) i \<and> at_key 0 (lo_vleft lo) i + item_width i \<le> lo_width lo"
    and "at_key 0 (lo_vx lo) i = at_key 0 (lo_vleft lo) i + item_width i div 2"
    and "map_of (lo_vlayer lo) j = Some l \<Longrightarrow> i \<noteq> j \<Longrightarrow>
      at_key 0 (lo_vleft lo) i + item_width i \<le> at_key 0 (lo_vleft lo) j \<or>
      at_key 0 (lo_vleft lo) j + item_width j \<le> at_key 0 (lo_vleft lo) i"
proof -
  define v where "v = fold split_edge (edge_list (by_id nodes)) (start_vertices layers)"
  obtain ws vx vleft where r: "fold place_row (vt_items v) ([], [], []) = (ws, vx, vleft)" by (metis prod_cases3)
  define width where "width = fold max ws 0"
  obtain vx' vleft' where c: "fold (centre_row width) (zip (vt_items v) ws) (vx, vleft) = (vx', vleft')" by fastforce
  have lo: "lo_vleft lo = vleft'" "lo_vx lo = vx'" "lo_vlayer lo = vt_layer v" "lo_width lo = width"
    using r c by (simp_all add: lo_def compute_layout_def v_def [symmetric] width_def Let_def)
  have pl: "placed layers v" unfolding v_def by (rule placed_layout [OF p])
  then have lies: "lies_in (vt_items v) j k \<longleftrightarrow> map_of (vt_layer v) j = Some k" for j k
    unfolding placed_def by blast
  have d: "distinct (concat (vt_items v))"
  proof (rule distinct_concat_rows)
    show "distinct (vt_items v ! k)" if "k < length (vt_items v)" for k using pl that unfolding placed_def by metis
  qed (simp only: lies option.inject)
  from fold_place_row [OF d r] have ws: "ws = map row_width (vt_items v)"
    and first: "\<And>j row. j \<in> set row \<Longrightarrow> row \<in> set (vt_items v) \<Longrightarrow>
      at_key 0 vleft j = left_in 0 row j \<and> at_key 0 vx j = left_in 0 row j + item_width j div 2"
    by auto
  define row where "row = vt_items v ! l"
  have i': "lies_in (vt_items v) i l" using i lies lo(3) by (simp add: lo_def)
  then have row: "row \<in> set (vt_items v)" "i \<in> set row" by (simp_all add: row_def lies_in_def)
  define off where "off = (width - row_width row) div 2"
  have cols: "at_key 0 vleft' j = left_in 0 row j + off" "at_key 0 vx' j = left_in 0 row j + item_width j div 2 + off"
    if "j \<in> set row" for j
    using fold_centre [OF d c [unfolded ws]] first [OF that row(1)] that row(1) by (auto simp: off_def)
  have "row_width row \<le> width" unfolding width_def ws using row(1) by (intro fold_max_member) simp
  then have off: "0 \<le> off" "row_width row + off \<le> width" by (simp_all add: off_def)
  have bounds: "0 \<le> left_in 0 row i" "left_in 0 row i + item_width i \<le> row_width row"
    using left_in_bounds [OF row(2), of 0] by (auto simp: row_width_def)
  show "l < length layers" using i' pl by (simp add: placed_def lies_in_def)
  show "0 \<le> at_key 0 (lo_vleft lo) i \<and> at_key 0 (lo_vleft lo) i + item_width i \<le> lo_width lo"
    using bounds off cols [OF row(2)] lo by simp
  show "at_key 0 (lo_vx lo) i = at_key 0 (lo_vleft lo) i + item_width i div 2"
    using cols [OF row(2)] lo by simp
  show "at_key 0 (lo_vleft lo) i + item_width i \<le> at_key 0 (lo_vleft lo) j \<or>
      at_key 0 (lo_vleft lo) j + item_width j \<le> at_key 0 (lo_vleft lo) i"
    if "map_of (lo_vlayer lo) j = Some l" "i \<noteq> j"
  proof -
    from that(1) lies lo(3) have "j \<in> set row" by (metis lies_in_def row_def)
    with left_in_apart [OF row(2) this that(2), of 0] cols row(2) lo show ?thesis by simp
  qed
qed

lemma layer_top_rows: "layer_top l \<le> y \<Longrightarrow> y < layer_top l + box_h \<Longrightarrow> layer_top k \<le> y \<Longrightarrow> y < layer_top k + box_h \<Longrightarrow> k = l"
  by (simp add: layer_top_def geometry)

lemma regions_apart:
  assumes "proper_layers layers"
    and "map_of (lo_vlayer (compute_layout nodes layers)) i = Some l"
    and "map_of (lo_vlayer (compute_layout nodes layers)) j = Some k" and "i \<noteq> j"
  shows "vertex_region (compute_layout nodes layers) (i, l) \<inter> vertex_region (compute_layout nodes layers) (j, k) = {}"
proof -
  let ?lo = "compute_layout nodes layers"
  have False if "(x, y) \<in> vertex_region ?lo (i, l)" "(x, y) \<in> vertex_region ?lo (j, k)" for x y
  proof -
    from that have "k = l" using layer_top_rows [of l y k] by (simp add: vertex_region_def)
    with layout_columns(4) [OF assms(1,2), of j] assms(3,4) that show False by (simp add: vertex_region_def)
  qed
  then show ?thesis by auto
qed

lemma draw_vertex_region:
  assumes "proper_layers layers" and "map_of (lo_vlayer (compute_layout nodes layers)) i = Some l"
  shows "connects (vertex_region (compute_layout nodes layers) (i, l)) UNIV
           (draw_vertex rows bi (compute_layout nodes layers) (i, l))"
proof (cases "i > 0")
  case True
  let ?lo = "compute_layout nodes layers"
  have "vertex_region ?lo (i, l) = box_region (at_key 0 (lo_vleft ?lo) i) (layer_top l)"
    using True by (simp add: vertex_region_def box_region_def item_width_def)
  with True show ?thesis
    by (cases "map_of bi i")
      (simp_all add: draw_vertex_def [abs_def] connects_def [of _ _ "\<lambda>g. g"] paints_connects [OF paints_box])
next
  case False
  let ?lo = "compute_layout nodes layers"
  have "at_key 0 (lo_vx ?lo) i = at_key 0 (lo_vleft ?lo) i" "item_width i = 1"
    using layout_columns(3) [OF assms] False by (simp_all add: item_width_def)
  then have "connects (vertex_region ?lo (i, l)) UNIV (add_dir (at_key 0 (lo_vx ?lo) i) y d)"
    if "y \<in> set [layer_top l .. layer_top l + box_h - 1]" for y d
    using that by (intro connects_add_dir) (auto simp: vertex_region_def)
  then have "connects (vertex_region ?lo (i, l)) UNIV
      (fold (\<lambda>y. add_dir (at_key 0 (lo_vx ?lo) i) y (dir_n OR dir_s)) [layer_top l .. layer_top l + box_h - 1])"
    by (rule connects_fold)
  with False show ?thesis by (simp add: draw_vertex_def [abs_def] Let_def)
qed

lemma connects_away:
  assumes "\<And>x. x \<in> set xs \<Longrightarrow> \<exists>A. connects A UNIV (f x) \<and> (c, r) \<notin> A"
  shows "gr_cell (fold f xs g) c r = gr_cell g c r" "gr_w (fold f xs g) = gr_w g" "gr_h (fold f xs g) = gr_h g"
proof -
  have "connects (- {(c, r)}) UNIV (f x)" if "x \<in> set xs" for x
    using assms [OF that] unfolding connects_def by blast
  then have "connects (- {(c, r)}) UNIV (fold f xs)" by (rule connects_fold)
  then show "gr_cell (fold f xs g) c r = gr_cell g c r" "gr_w (fold f xs g) = gr_w g" "gr_h (fold f xs g) = gr_h g"
    by (auto simp: connects_def)
qed

lemma by_id_map:
  "map_of (by_id nodes) i = Some n \<Longrightarrow> n \<in> set nodes \<and> dn_id n = i"
proof -
  have "map_of (fold (\<lambda>n. AList.update (dn_id n) n) ns m) i = Some n \<Longrightarrow>
      (n \<in> set ns \<and> dn_id n = i) \<or> map_of m i = Some n" for m and ns :: "dag_node list"
    by (induction ns arbitrary: m) (fastforce split: if_splits)+
  from this [of nodes "[]"] show "map_of (by_id nodes) i = Some n \<Longrightarrow> n \<in> set nodes \<and> dn_id n = i"
    by (simp add: by_id_def)
qed

lemma proper_layers_of:
  assumes "\<forall>n \<in> set nodes. 0 < dn_id n"
  shows "proper_layers (layers_of enum nodes)"
proof -
  have "0 < i" if "lies_in (layers_of enum nodes) i l" for i l
    using layers_partition(1) [of i nodes enum] that assms by auto
  moreover have "distinct (layers_of enum nodes ! l)" if "l < length (layers_of enum nodes)" for l
    using layers_partition(3) [OF that] by (simp add: strict_sorted_iff)
  ultimately show ?thesis
    using layers_partition(2) [of enum nodes] unfolding proper_layers_def by blast
qed

lemma box_after_drawing:
  assumes p: "proper_layers layers" and i: "map_of (lo_vlayer (compute_layout nodes layers)) i = Some l"
    and "0 < i" and n: "map_of bi i = Some n" and xy: "(x, y) \<in> box_region x0 (layer_top l)"
  defines "lo \<equiv> compute_layout nodes layers"
  defines "g0 \<equiv> new_grid (lo_width lo) (lo_height lo)"
  assumes x0: "x0 = at_key 0 (lo_vleft lo) i"
  shows "ce_dir (gr_cell (draw rows bi lo) x y) = 0"
    and "y \<in> {layer_top l + 1, layer_top l + 2} \<Longrightarrow>
      gr_cell (draw rows bi lo) x y = gr_cell (draw_box rows n x0 (layer_top l) g0) x y"
proof -
  let ?v = "draw_vertex rows bi lo"
  have pl: "distinct (map fst (lo_vlayer lo))"
    using placed_layout [OF p] unfolding lo_def layout_layer placed_def by blast
  obtain us vs where split: "lo_vlayer lo = us @ (i, l) # vs"
    using i map_of_SomeD unfolding lo_def by (metis split_list)
  have region: "(x, y) \<in> vertex_region lo (i, l)"
    using xy \<open>0 < i\<close> x0 by (simp add: vertex_region_def box_region_def item_width_def)
  have away: "\<exists>A. connects A UNIV (?v jk) \<and> (x, y) \<notin> A" if jk: "jk \<in> set us \<union> set vs" for jk
  proof -
    obtain j k where e: "jk = (j, k)" by fastforce
    with jk split have "(j, k) \<in> set (lo_vlayer lo)" by auto
    with pl have j: "map_of (lo_vlayer lo) j = Some k" by simp
    have "j \<in> fst ` set us \<union> fst ` set vs" using jk e by force
    with pl split have ne: "i \<noteq> j" by auto
    from regions_apart [OF p i, of j k] j ne region have "(x, y) \<notin> vertex_region lo (j, k)" by (auto simp: lo_def)
    with draw_vertex_region [OF p, of nodes j k rows bi] j e show ?thesis by (auto simp: lo_def)
  qed
  define g1 where "g1 = fold ?v us g0"
  have g1: "gr_cell g1 x y = gr_cell g0 x y" "gr_w g1 = gr_w g0" "gr_h g1 = gr_h g0"
    unfolding g1_def using away by (intro connects_away; blast)+
  have vi: "?v (i, l) g1 = draw_box rows n x0 (layer_top l) g1"
    using \<open>0 < i\<close> n x0 by (simp add: draw_vertex_def)
  define g2 where "g2 = fold ?v vs (?v (i, l) g1)"
  have "gr_cell g2 x y = gr_cell (?v (i, l) g1) x y" unfolding g2_def using away by (intro connects_away) blast
  also have "\<dots> = gr_cell (draw_box rows n x0 (layer_top l) g0) x y"
    unfolding vi by (rule paintsD(5) [OF paints_box g1(2,3,1)])
  finally have g2: "gr_cell g2 x y = gr_cell (draw_box rows n x0 (layer_top l) g0) x y" .
  have "ce_dir (gr_cell (draw_box rows n x0 (layer_top l) g0) x y) = 0"
    by (rule paintsD(4) [OF paints_box]) (simp add: g0_def new_grid_def blank_cell_def)
  with g2 have dir: "ce_dir (gr_cell g2 x y) = 0" by simp
  have final: "draw rows bi lo = fold (draw_segment rows lo) (lo_segments lo) g2"
    by (simp add: draw_def split g2_def g1_def g0_def)
  have segs: "connects border_rows channel_cells (fold (draw_segment rows lo) (lo_segments lo))"
    by (intro connects_fold connects_segment)
  obtain r where r: "y = layer_top l + r" "0 \<le> r" "r < 4"
    using xy in_box_region [of x y x0 "layer_top l"] that [of "y - layer_top l"] by simp
  then have m: "y mod (box_h + channel) = r" by (simp add: layer_top_def geometry)
  then have "(x, y) \<notin> channel_cells" using r by (simp add: channel_cells_def)
  with dir show "ce_dir (gr_cell (draw rows bi lo) x y) = 0" unfolding final by (intro connectsD(4) [OF segs])
  show "gr_cell (draw rows bi lo) x y = gr_cell (draw_box rows n x0 (layer_top l) g0) x y"
    if "y \<in> {layer_top l + 1, layer_top l + 2}"
  proof -
    have "(x, y) \<notin> border_rows" using that m r by (auto simp: border_rows_def)
    with g2 show ?thesis unfolding final by (simp add: connectsD(3) [OF segs])
  qed
qed

text \<open>C24: The boxes of a diagram are inside the grid and stay readable, whatever edges the plan has, as
  long as its node ids are positive.  Each node has a box at the height of its layer; the box lies
  within the width and height of the grid; the connectors never run through it, so that no cell of
  the box has a direction; and its two text lines, status, title and summary, look exactly as when
  the box is drawn alone.\<close>

theorem boxes_stay_readable:
  assumes "\<forall>n \<in> set (parse_nodes str plan). 0 < dn_id n"
    and "map_of (by_id (parse_nodes str plan)) i = Some n"
  shows "\<exists>l x0. let lo = compute_layout (parse_nodes str plan) (plan_layers str enum plan);
                   g = draw rows (by_id (parse_nodes str plan)) lo; y0 = layer_top l
               in lies_in (plan_layers str enum plan) i l \<and> x0 = at_key 0 (lo_vleft lo) i \<and>
                  0 \<le> x0 \<and> x0 + box_w \<le> lo_width lo \<and> 0 \<le> y0 \<and> y0 + box_h \<le> lo_height lo \<and>
                  (\<forall>x y. (x, y) \<in> box_region x0 y0 \<longrightarrow> ce_dir (gr_cell g x y) = 0 \<and>
                     (y \<in> {y0 + 1, y0 + 2} \<longrightarrow>
                      gr_cell g x y = gr_cell (draw_box rows n x0 y0 (new_grid (lo_width lo) (lo_height lo))) x y))"
proof -
  define nodes where "nodes = parse_nodes str plan"
  define layers where "layers = layers_of enum nodes"
  define lo where "lo = compute_layout nodes layers"
  have p: "proper_layers layers" using assms(1) by (simp add: layers_def nodes_def proper_layers_of)
  from by_id_map [OF assms(2)] assms(1) have i: "0 < i" "i \<in> dn_id ` set nodes" by (auto simp: nodes_def)
  then obtain l where l: "lies_in layers i l" using layers_partition(1) [of i nodes enum] by (auto simp: layers_def)
  have lo_l: "map_of (lo_vlayer lo) i = Some l"
    using placed_layout [OF p] i(1) l unfolding lo_def layout_layer placed_def by blast
  note cols = layout_columns [OF p lo_l [unfolded lo_def], folded lo_def]
  have height: "layer_top l + box_h \<le> lo_height lo"
    using cols(1) by (simp add: lo_def layout_height layer_top_def geometry max_def)
  define x0 where "x0 = at_key 0 (lo_vleft lo) i"
  have "0 \<le> x0" "x0 + box_w \<le> lo_width lo" using cols(2) i(1) by (simp_all add: x0_def item_width_def)
  moreover have "0 \<le> layer_top l" by (simp add: layer_top_def geometry)
  moreover have "\<forall>x y. (x, y) \<in> box_region x0 (layer_top l) \<longrightarrow>
      ce_dir (gr_cell (draw rows (by_id nodes) lo) x y) = 0 \<and>
      (y \<in> {layer_top l + 1, layer_top l + 2} \<longrightarrow> gr_cell (draw rows (by_id nodes) lo) x y =
         gr_cell (draw_box rows n x0 (layer_top l) (new_grid (lo_width lo) (lo_height lo))) x y)"
    using box_after_drawing [OF p lo_l [unfolded lo_def] i(1) assms(2) [folded nodes_def], of _ _ x0 rows, folded lo_def]
      x0_def by blast
  ultimately show ?thesis
    unfolding plan_layers_def nodes_def [symmetric] layers_def [symmetric] lo_def [symmetric] Let_def
    using l x0_def height by blast
qed


lemma boxes_stay_readable_witness:
  "(let lo = compute_layout (parse_nodes (\<lambda>_. []) sample_diagram) (plan_layers (\<lambda>_. []) id sample_diagram)
    in lo_width lo = 29 \<and> lo_height lo = 16) \<and>
   (\<exists>n l x0. lies_in (plan_layers (\<lambda>_. []) id sample_diagram) 3 l \<and> map_of (by_id (parse_nodes (\<lambda>_. []) sample_diagram)) 3 = Some n \<and>
      x0 + box_w \<le> lo_width (compute_layout (parse_nodes (\<lambda>_. []) sample_diagram) (plan_layers (\<lambda>_. []) id sample_diagram)))"
proof -
  have pos: "\<forall>n \<in> set (parse_nodes (\<lambda>_. []) sample_diagram). 0 < dn_id n" by code_simp
  have "map_of (by_id (parse_nodes (\<lambda>_. []) sample_diagram)) 3 \<noteq> None" by code_simp
  then obtain n where n: "map_of (by_id (parse_nodes (\<lambda>_. []) sample_diagram)) 3 = Some n" by auto
  have "let lo = compute_layout (parse_nodes (\<lambda>_. []) sample_diagram) (plan_layers (\<lambda>_. []) id sample_diagram)
        in lo_width lo = 29 \<and> lo_height lo = 16" by code_simp
  with boxes_stay_readable [OF pos n, of id "\<lambda>_. None"] n show ?thesis unfolding Let_def by blast
qed


section \<open>A node without a box\<close>

text \<open>
  Ids are any ints, and the validator accepts zero and negative ones; the drawing takes them for
  dummies.  A plan whose only node has the id zero is drawn as a vertical line.
\<close>

definition node_zero :: "(string \<times> json) list" where
  "node_zero = [(''nodes'', JList [sample_node 0 ''result'' []])]"

lemma node_zero_has_no_box:
  "render_dag (\<lambda>_. []) id 80 node_zero (\<lambda>_. None) = replicate 4 [([0x2502], ''dim'')]"
proof -
  let ?nodes = "parse_nodes (\<lambda>_. []) node_zero"
  let ?lo = "compute_layout ?nodes (layers_of id ?nodes)"
  have lo: "?nodes \<noteq> []" "lo_width ?lo = 1" "lo_height ?lo = 4" "lo_vx ?lo = [(0, 0)]" "lo_vlayer ?lo = [(0, 0)]"
    "lo_segments ?lo = []" by code_simp+
  have rows: "[0 .. 4 - 1] = [0, 1, 2, 3 :: int]" "[0 .. 3] = [0, 1, 2, 3 :: int]" by (simp_all add: upto.simps)
  have "draw (\<lambda>_. None) bi ?lo = fold (\<lambda>y. add_dir 0 y 3) [0, 1, 2, 3] (new_grid 1 4)" for bi
    unfolding draw_def lo draw_vertex_def layer_top_def geometry dir_n_def dir_s_def
    by (simp add: at_key_def lo rows)
  moreover have "gr_cell (fold (\<lambda>y. add_dir 0 y 3) [0, 1, 2, 3] (new_grid 1 4)) 0 y = blank_cell\<lparr>ce_dir := 3\<rparr>"
    if "y \<in> {0, 1, 2, 3}" for y
    using that by (auto simp: add_dir_simps on_grid_def new_grid_def blank_cell_def)
  moreover have "gr_w (fold (\<lambda>y. add_dir 0 y 3) [0, 1, 2, 3] (new_grid 1 4)) = 1"
    "gr_h (fold (\<lambda>y. add_dir 0 y 3) [0, 1, 2, 3] (new_grid 1 4)) = 4"
    by (simp_all add: add_dir_simps new_grid_def)
  moreover have "cell_span (blank_cell\<lparr>ce_dir := 3\<rparr>) = ([0x2502], ''dim'')" by code_simp
  ultimately show ?thesis
    by (simp add: render_dag_def Let_def to_lines_def lo rows numeral_eq_Suc del: fold_simps)
qed

end
