(* ===== verification/TuiView.thy ===== *)
theory TuiView
  imports RestGateway TuiDrawing
begin

text \<open>
  The terminal's view of a task (\<open>gateways/tui/view.py\<close>): the fold of decoded events into rows and
  a status, and what is rendered from them.  \<open>str\<close> is Python's \<open>str\<close> on JSON values, \<open>fmt\<close> the
  format \<open>.2f\<close>; Rich's renderables are a datatype of styled texts.
\<close>

section \<open>Reading values defensively\<close>

fun view_int :: "json \<Rightarrow> int option" where
  "view_int (JInt i) = Some i"
| "view_int _ = None"

text \<open>The left is the \<open>OverflowError\<close> of \<open>float\<close> on a huge integer.\<close>

fun view_float :: "json \<Rightarrow> string + pyfloat option" where
  "view_float (JInt i) =
     (if 2 ^ 1024 - 2 ^ 970 \<le> abs i then Inl ''int too large to convert to float''
      else Inr (Some (Fin (of_int i))))"
| "view_float (JFloat f) = Inr (Some f)"
| "view_float _ = Inr None"

fun view_str :: "json \<Rightarrow> string option" where
  "view_str (JStr s) = Some s"
| "view_str _ = None"

fun attempt_fields :: "json \<Rightarrow> (string \<times> json) list option" where
  "attempt_fields (JObj kvs) = Some kvs"
| "attempt_fields _ = None"

text \<open>\<open>attempts if _is_attempt_list(attempts) else []\<close>.\<close>

definition attempt_list :: "json \<Rightarrow> (string \<times> json) list list" where
  "attempt_list v =
     (case v of
        JList vs \<Rightarrow> if list_all (\<lambda>x. attempt_fields x \<noteq> None) vs then List.map_filter attempt_fields vs else []
      | _ \<Rightarrow> [])"

section \<open>The view\<close>

record view_row = row_like +
  vr_id :: int
  vr_type :: string
  vr_tier :: "int option"
  vr_confidence :: "pyfloat option"

record task_view =
  tv_request :: string
  tv_show_dag :: bool
  tv_status :: string
  tv_count :: "int option"
  tv_nodes :: "(int \<times> view_row) list"
  tv_plan :: "(string \<times> json) list option"
  tv_attempts :: "(string \<times> json) list list"
  tv_output :: "string option"
  tv_error :: "string option"
  tv_done :: bool

definition new_view :: "string \<Rightarrow> bool \<Rightarrow> task_view" where
  "new_view req dag =
     \<lparr>tv_request = req, tv_show_dag = dag, tv_status = ''planning'', tv_count = None, tv_nodes = [],
      tv_plan = None, tv_attempts = [], tv_output = None, tv_error = None, tv_done = False\<rparr>"

definition new_row :: "int \<Rightarrow> string \<Rightarrow> view_row" where
  "new_row i t =
     \<lparr>rw_status = ''running'', rw_branch_taken = None, rw_flagged = False,
      vr_id = i, vr_type = t, vr_tier = None, vr_confidence = None\<rparr>"

text \<open>\<open>_row\<close>: the id, and the row of the event's node or a new one.\<close>

definition event_node :: "(string \<times> json) list \<Rightarrow> int" where
  "event_node ev = (case view_int (jget ev ''node_id'') of None \<Rightarrow> 0 | Some i \<Rightarrow> i)"

definition row_of :: "(json \<Rightarrow> string) \<Rightarrow> (string \<times> json) list \<Rightarrow> view_row option \<Rightarrow> view_row" where
  "row_of str ev found =
     (case found of
        Some r \<Rightarrow> r
      | None \<Rightarrow> new_row (event_node ev) (str_of str (jget_default ev ''node_type'' (JStr []))))"

text \<open>\<open>_as_int(v) or old\<close>.\<close>

definition int_or :: "int option \<Rightarrow> int option \<Rightarrow> int option" where
  "int_or v old = (case v of Some i \<Rightarrow> if i = 0 then old else Some i | None \<Rightarrow> old)"

definition row_started :: "(json \<Rightarrow> string) \<Rightarrow> (string \<times> json) list \<Rightarrow> view_row \<Rightarrow> view_row" where
  "row_started str ev r =
     r\<lparr>vr_type := str_of str (jget_default ev ''node_type'' (JStr (vr_type r))),
       vr_tier := view_int (jget ev ''tier''), rw_status := ''running''\<rparr>"

definition row_finished :: "(json \<Rightarrow> string) \<Rightarrow> (string \<times> json) list \<Rightarrow> view_row \<Rightarrow> string + view_row" where
  "row_finished str ev r =
     and_then (view_float (jget ev ''confidence'')) (\<lambda>conf.
       let status = str_of str (jget_default ev ''status'' (JStr (rw_status r)))
       in Inr (r\<lparr>vr_confidence := conf, rw_flagged := truthy (jget_default ev ''flagged'' (JBool False)),
                 vr_tier := int_or (view_int (jget ev ''tier_used'')) (vr_tier r),
                 rw_status := (case view_str (jget ev ''error'') of
                    None \<Rightarrow> status | Some e \<Rightarrow> if e = [] then status else status @ '': '' @ e)\<rparr>))"

definition row_branched :: "(json \<Rightarrow> string) \<Rightarrow> (string \<times> json) list \<Rightarrow> view_row \<Rightarrow> view_row" where
  "row_branched str ev r =
     r\<lparr>rw_branch_taken := (case jget ev ''branch_taken'' of JNull \<Rightarrow> None | v \<Rightarrow> Some (str_of str v))\<rparr>"

text \<open>What an event does to the row of its node; \<open>None\<close> for an event of no node.\<close>

definition row_update ::
  "(json \<Rightarrow> string) \<Rightarrow> (string \<times> json) list \<Rightarrow> view_row option \<Rightarrow> (string + view_row) option"
where
  "row_update str ev found =
     (let kind = str_of str (jget_default ev ''type'' (JStr []))
      in if kind = ''node_started'' then Some (Inr (row_started str ev (row_of str ev found)))
         else if kind = ''node_finished'' then Some (row_finished str ev (row_of str ev found))
         else if kind = ''branch_decided'' then Some (Inr (row_branched str ev (row_of str ev found)))
         else None)"

definition is_nested :: "(string \<times> json) list \<Rightarrow> bool" where
  "is_nested ev = (case jget ev ''node_path'' of JStr p \<Rightarrow> CHR ''/'' \<in> set p | _ \<Rightarrow> False)"

text \<open>What an event that is of no node does.\<close>

definition task_update :: "(json \<Rightarrow> string) \<Rightarrow> (string \<times> json) list \<Rightarrow> task_view \<Rightarrow> task_view" where
  "task_update str ev v =
     (let kind = str_of str (jget_default ev ''type'' (JStr []))
      in if kind = ''planning_started'' then v\<lparr>tv_status := ''planning''\<rparr>
         else if kind = ''plan_ready'' then
           v\<lparr>tv_status := ''executing'', tv_count := view_int (jget ev ''node_count''),
             tv_plan := (case jget ev ''plan'' of JObj p \<Rightarrow> Some p | _ \<Rightarrow> None)\<rparr>
         else if kind = ''task_completed'' then
           v\<lparr>tv_status := ''completed'', tv_output := view_str (jget ev ''final_output''), tv_done := True\<rparr>
         else if kind = ''task_failed'' \<or> kind = ''plan_failed'' then
           v\<lparr>tv_status := ''failed'', tv_error := view_str (jget ev ''error''),
             tv_attempts := attempt_list (jget ev ''attempts''), tv_done := True\<rparr>
         else if kind = ''awaiting_confirmation'' then
           v\<lparr>tv_status := ''awaiting_confirmation'', tv_count := view_int (jget ev ''node_count''), tv_done := True\<rparr>
         else v)"

definition ingest :: "(json \<Rightarrow> string) \<Rightarrow> (string \<times> json) list \<Rightarrow> task_view \<Rightarrow> string + task_view" where
  "ingest str ev v =
     (if is_nested ev then Inr v
      else case row_update str ev (map_of (tv_nodes v) (event_node ev)) of
        None \<Rightarrow> Inr (task_update str ev v)
      | Some (Inl e) \<Rightarrow> Inl e
      | Some (Inr r) \<Rightarrow> Inr (v\<lparr>tv_nodes := AList.update (event_node ev) r (tv_nodes v)\<rparr>))"

fun ingest_all :: "(json \<Rightarrow> string) \<Rightarrow> (string \<times> json) list list \<Rightarrow> task_view \<Rightarrow> string + task_view" where
  "ingest_all str [] v = Inr v"
| "ingest_all str (ev # evs) v = and_then (ingest str ev v) (ingest_all str evs)"

section \<open>Rendering\<close>

datatype renderable =
    RText "(utext \<times> string) list"
  | RLines "(utext \<times> string) list list"
  | RTable "utext list" "(utext \<times> string) list list"
  | RPanel renderable string string
  | RGroup "renderable list"

definition style_of :: "(string \<times> string) list \<Rightarrow> string \<Rightarrow> string" where
  "style_of m s = (case map_of m s of None \<Rightarrow> ''white'' | Some x \<Rightarrow> x)"

definition status_styles :: "(string \<times> string) list" where
  "status_styles =
     [(''planning'', ''yellow''), (''executing'', ''cyan''), (''awaiting_confirmation'', ''magenta''),
      (''completed'', ''green''), (''failed'', ''red'')]"

definition node_status_styles :: "(string \<times> string) list" where
  "node_status_styles =
     [(''running'', ''yellow''), (''completed'', ''green''), (''skipped'', ''dim''), (''failed'', ''red''),
      (''empty'', ''dim yellow'')]"

definition plain_text :: "string \<Rightarrow> renderable" where
  "plain_text s = RText [(utf s, [])]"

definition header_text :: "task_view \<Rightarrow> renderable" where
  "header_text v = RText
     ([(utf ''task '', ''bold''), (utf (tv_request v), ''italic''), (utf (newline @ ''status: ''), ''bold''),
       (utf (tv_status v), style_of status_styles (tv_status v))] @
      (case tv_count v of None \<Rightarrow> [] | Some k \<Rightarrow> [(utf (''   nodes: '' @ str_int k), ''dim'')]))"

definition row_cells :: "(pyfloat \<Rightarrow> string) \<Rightarrow> view_row \<Rightarrow> (utext \<times> string) list" where
  "row_cells fmt r =
     (let flagged = utf (rw_status r) @ (if rw_flagged r then [0x20, 0x2691] else []);
          shown = (case rw_branch_taken r of None \<Rightarrow> flagged | Some b \<Rightarrow> flagged @ [0x20, 0x2192, 0x20] @ utf b)
      in [(utf (str_int (vr_id r)), []), (utf (vr_type r), []),
          (case vr_tier r of None \<Rightarrow> [] | Some t \<Rightarrow> utf (str_int t), []),
          (shown, style_of node_status_styles (rw_status r)),
          (case vr_confidence r of None \<Rightarrow> [] | Some c \<Rightarrow> utf (fmt c), [])])"

definition node_table :: "(pyfloat \<Rightarrow> string) \<Rightarrow> task_view \<Rightarrow> renderable" where
  "node_table fmt v =
     RTable (map utf [''node'', ''type'', ''tier'', ''status'', ''conf'']) (map (row_cells fmt \<circ> snd) (tv_nodes v))"

definition as_row_like :: "view_row \<Rightarrow> row_like" where
  "as_row_like r = \<lparr>rw_status = rw_status r, rw_branch_taken = rw_branch_taken r, rw_flagged = rw_flagged r\<rparr>"

definition attempt_lines :: "(json \<Rightarrow> string) \<Rightarrow> (string \<times> json) list \<Rightarrow> string list" where
  "attempt_lines str a =
     (let err = jget a ''error'';
          snippet = take 240 (map (\<lambda>c. if c = CHR 0x0A then CHR '' '' else c) (str_of str (jget_default a ''raw_output'' (JStr []))))
      in (str_of str (jget_default a ''attempt'' (JStr ''?'')) @ '': '' @ (if truthy err then str_of str err else ''valid'')) #
         (if snippet = [] then [] else [''raw: '' @ snippet]))"

definition format_attempts :: "(json \<Rightarrow> string) \<Rightarrow> (string \<times> json) list list \<Rightarrow> string" where
  "format_attempts str as = join newline (concat (map (attempt_lines str) as))"

definition render_view ::
  "(json \<Rightarrow> string) \<Rightarrow> (pyfloat \<Rightarrow> string) \<Rightarrow> (int list \<Rightarrow> int list) \<Rightarrow> int \<Rightarrow> task_view \<Rightarrow> renderable"
where
  "render_view str fmt enum max_width v =
     RPanel (RGroup
       ([header_text v] @
        (case tv_plan v of
           Some p \<Rightarrow>
             if tv_show_dag v
             then [RPanel (RLines (render_dag str enum max_width p (map_option as_row_like \<circ> map_of (tv_nodes v)))) ''plan'' ''dim'']
             else []
         | None \<Rightarrow> []) @
        [node_table fmt v] @
        (case tv_output v of None \<Rightarrow> [] | Some t \<Rightarrow> [RPanel (plain_text t) ''result'' ''green'']) @
        (case tv_error v of None \<Rightarrow> [] | Some t \<Rightarrow> [RPanel (plain_text t) ''error'' ''red'']) @
        (if tv_attempts v = [] then []
         else [RPanel (plain_text (format_attempts str (tv_attempts v))) ''planning attempts'' ''red''])))
       ''Glassrail'' (style_of status_styles (tv_status v))"

section \<open>On the events the gateway sends\<close>

text \<open>The fold over the events of one node alone.\<close>

definition concerns :: "(json \<Rightarrow> string) \<Rightarrow> int \<Rightarrow> (string \<times> json) list \<Rightarrow> bool" where
  "concerns str i ev \<longleftrightarrow> \<not> is_nested ev \<and> event_node ev = i \<and> row_update str ev None \<noteq> None"

fun row_history :: "(json \<Rightarrow> string) \<Rightarrow> (string \<times> json) list list \<Rightarrow> view_row option \<Rightarrow> view_row option" where
  "row_history str [] r = r"
| "row_history str (ev # evs) r =
     row_history str evs (case row_update str ev r of Some (Inr r') \<Rightarrow> Some r' | _ \<Rightarrow> r)"

lemma jget_default_Nil [simp]: "jget_default [] k d = d"
  by (simp add: jget_default_def)

lemma jget_default_Cons [simp]: "jget_default ((k', v) # kvs) k d = (if k = k' then v else jget_default kvs k d)"
  by (simp add: jget_default_def)

lemma dump_kind [simp]: "jget_default (event_dump e) ''type'' d = JStr (event_type (e_body e))"
  by (simp add: event_dump_def)

lemma str_of_JStr [simp]: "str_of str (JStr s) = s"
  by (simp add: str_of_def)

text \<open>No event the gateway sends makes the view fail.\<close>

lemma dump_confidence: "event_type (e_body e) = ''node_finished'' \<Longrightarrow> \<exists>c. jget (event_dump e) ''confidence'' = JFloat c"
  by (cases "e_body e") (simp_all add: event_dump_def)

lemma row_update_dump: "row_update str (event_dump e) r = None \<or> (\<exists>r'. row_update str (event_dump e) r = Some (Inr r'))"
  using dump_confidence [of e] by (auto simp: row_update_def row_finished_def Let_def)

lemma row_update_None: "row_update str ev r = None \<longleftrightarrow> row_update str ev None = None"
  by (simp add: row_update_def Let_def)

lemma ingest_dump:
  "\<exists>v'. ingest str (event_dump e) v = Inr v' \<and>
     map_of (tv_nodes v') i = (if concerns str i (event_dump e)
       then row_history str [event_dump e] (map_of (tv_nodes v) i) else map_of (tv_nodes v) i)"
proof -
  let ?ev = "event_dump e"
  let ?u = "row_update str ?ev (map_of (tv_nodes v) (event_node ?ev))"
  consider (nested) "is_nested ?ev" | (task) "\<not> is_nested ?ev" "?u = None"
    | (node) r where "\<not> is_nested ?ev" "?u = Some (Inr r)"
    by (cases "is_nested ?ev"; use row_update_dump [of str e "map_of (tv_nodes v) (event_node ?ev)"] in auto)
  then show ?thesis
  proof cases
    case nested
    then show ?thesis by (simp add: ingest_def concerns_def)
  next
    case task
    moreover have "tv_nodes (task_update str ?ev v) = tv_nodes v" by (simp add: task_update_def Let_def)
    moreover have "row_update str ?ev None = None" using task(2) row_update_None by blast
    ultimately show ?thesis by (simp add: ingest_def concerns_def)
  next
    case node
    then have "row_update str ?ev None \<noteq> None" using row_update_None by (metis option.distinct(1))
    with node have "concerns str i ?ev \<longleftrightarrow> event_node ?ev = i" by (simp add: concerns_def)
    with node show ?thesis by (auto simp: ingest_def update_conv')
  qed
qed

lemma row_history_append: "row_history str (xs @ ys) r = row_history str ys (row_history str xs r)"
  by (induction xs arbitrary: r) simp_all

lemma ingest_dumps:
  "\<exists>v'. ingest_all str (map event_dump es) v = Inr v' \<and>
     (\<forall>i. map_of (tv_nodes v') i = row_history str (filter (concerns str i) (map event_dump es)) (map_of (tv_nodes v) i))"
proof (induction es arbitrary: v)
  case (Cons e es)
  obtain v1 where one: "ingest str (event_dump e) v = Inr v1" using ingest_dump by blast
  then have row: "map_of (tv_nodes v1) i = (if concerns str i (event_dump e)
       then row_history str [event_dump e] (map_of (tv_nodes v) i) else map_of (tv_nodes v) i)" for i
    using ingest_dump [of str e v i] by simp
  from Cons.IH [of v1] one row show ?case by auto
qed simp

text \<open>The view never fails on the events a gateway sends, and the row of a node depends on the events
  of that node alone, in their order: however the events of concurrent nodes interleave, and whatever
  events of subplans come between them, the rows are the same.\<close>

theorem rows_ignore_interleaving:
  "\<exists>v'. ingest_all str (map event_dump es) v = Inr v' \<and>
     list_all (\<lambda>i. map_of (tv_nodes v') i =
       row_history str (filter (concerns str i) (map event_dump es)) (map_of (tv_nodes v) i)) is"
  using ingest_dumps [of str es v] by (auto simp: list_all_iff)

section \<open>What the view says at the end\<close>

lemma ingest_terminal:
  assumes "is_terminal_body b" and "ingest str (event_dump (Event t b)) v = Inr v'"
  shows "v' = task_update str (event_dump (Event t b)) v"
  using assms by (cases b) (auto simp: ingest_def row_update_def is_nested_def event_dump_def Let_def split: if_splits)

text \<open>What terminal events set, other events keep.\<close>

definition same_end :: "task_view \<Rightarrow> task_view \<Rightarrow> bool" where
  "same_end v v' \<longleftrightarrow> tv_done v' = tv_done v \<and> tv_output v' = tv_output v \<and> tv_error v' = tv_error v"

lemma ingest_other:
  assumes "\<not> is_terminal_body b" and "ingest str (event_dump (Event t b)) v = Inr v'"
  shows "same_end v v'"
proof (cases "row_update str (event_dump (Event t b)) (map_of (tv_nodes v) (event_node (event_dump (Event t b))))")
  case None
  have "same_end v (task_update str (event_dump (Event t b)) v)"
    using assms(1) by (cases b) (simp_all add: task_update_def same_end_def Let_def)
  with None assms(2) show ?thesis by (auto simp: ingest_def same_end_def split: if_splits)
next
  case (Some r)
  with assms(2) show ?thesis by (cases r) (auto simp: ingest_def same_end_def split: if_splits)
qed

lemma others_keep_end:
  "list_all (\<lambda>b. \<not> is_terminal_body b) bs \<Longrightarrow> ingest_all str (map (event_dump \<circ> Event t) bs) v = Inr v' \<Longrightarrow> same_end v v'"
proof (induction bs arbitrary: v)
  case Nil
  then show ?case by (simp add: same_end_def)
next
  case (Cons b bs)
  obtain v1 where one: "ingest str (event_dump (Event t b)) v = Inr v1"
    using Cons.prems(2) by (auto split: sum.splits)
  have "same_end v v1" by (rule ingest_other [OF _ one]) (use Cons.prems(1) in simp)
  with Cons.IH [of v1] Cons.prems one show ?case by (auto simp: same_end_def)
qed

lemma ingest_all_append:
  "ingest_all str (xs @ ys) v = and_then (ingest_all str xs v) (ingest_all str ys)"
proof (induction xs arbitrary: v)
  case (Cons x xs)
  then show ?case by (cases "ingest str x v") simp_all
qed simp

text \<open>How a view shows that a task ended in a state: not at all when it was rejected or cancelled.\<close>

definition view_shows :: "exec_state \<Rightarrow> task_view \<Rightarrow> bool" where
  "view_shows st v \<longleftrightarrow>
     (tv_done v \<longleftrightarrow> s_status st \<noteq> REJECTED \<and> s_status st \<noteq> CANCELLED) \<and>
     (s_status st = TASK_COMPLETED \<longrightarrow> tv_output v = s_final_output st \<and> tv_error v = None) \<and>
     (s_status st = TASK_FAILED \<longrightarrow>
        tv_output v = None \<and> tv_error v \<noteq> None \<and> (\<forall>e. s_error st = Some e \<longrightarrow> e \<noteq> [] \<longrightarrow> tv_error v = Some e))"

lemma view_str_option [simp]: "view_str (json_of_option JStr x) = x"
  by (cases x) (simp_all add: json_of_option_def)

lemma terminal_shown:
  assumes "tells st b" and "tv_done v = False" "tv_output v = None" "tv_error v = None"
  shows "view_shows st (task_update str (event_dump (Event t b)) v)"
  using assms by (cases b) (auto simp: tells_def view_shows_def task_update_def event_dump_def error_or_def text_or_def Let_def)

lemma told_shown:
  assumes "filter is_terminal_body bs = [b]" and "tells st b"
  shows "\<exists>v. ingest_all str (map (event_dump \<circ> Event t) bs) (new_view req dag) = Inr v \<and> view_shows st v"
proof -
  obtain xs ys where bs: "bs = xs @ b # ys" "list_all (\<lambda>x. \<not> is_terminal_body x) xs" "is_terminal_body b"
    "list_all (\<lambda>x. \<not> is_terminal_body x) ys"
    using assms(1) [symmetric] unfolding Cons_eq_filter_iff by (metis (full_types) list_all_iff filter_empty_conv)
  have total: "\<exists>v'. ingest_all str (map (event_dump \<circ> Event t) zs) v = Inr v'" for zs v
    using ingest_dumps [of str "map (Event t) zs" v] by (auto simp: comp_def)
  obtain v1 where v1: "ingest_all str (map (event_dump \<circ> Event t) xs) (new_view req dag) = Inr v1" using total by blast
  from others_keep_end [OF bs(2) v1] have start: "tv_done v1 = False" "tv_output v1 = None" "tv_error v1 = None"
    by (simp_all add: same_end_def new_view_def)
  obtain v2 where v2: "ingest str (event_dump (Event t b)) v1 = Inr v2" using ingest_dump by blast
  have shown: "view_shows st v2"
    using ingest_terminal [OF bs(3) v2] terminal_shown [OF assms(2) start] by simp
  obtain v3 where v3: "ingest_all str (map (event_dump \<circ> Event t) ys) v2 = Inr v3" using total by blast
  have "view_shows st v3" using shown others_keep_end [OF bs(4) v3] by (simp add: view_shows_def same_end_def)
  moreover have "ingest_all str (map (event_dump \<circ> Event t) bs) (new_view req dag) = Inr v3"
    using v1 v2 v3 bs(1) by (simp add: ingest_all_append)
  ultimately show ?thesis by blast
qed



end
