(* ===== verification/TuiClient.thy ===== *)
theory TuiClient
  imports RestGateway Providers
begin

text \<open>
  The terminal's client (\<open>gateways/tui/client.py\<close>): how the lines of a \<open>text/event-stream\<close> become
  event dictionaries.  The lines are those of \<open>httpx\<close>, which splits like \<open>str.splitlines\<close>; \<open>loads\<close>
  is \<open>json.loads\<close>.
\<close>

section \<open>Lines\<close>

abbreviation split_lines :: "string \<Rightarrow> string list" where
  "split_lines s \<equiv> splitlines [] s"

lemma splitlines_newline:
  "list_all (\<lambda>c. \<not> line_break c) l \<Longrightarrow> splitlines cur (l @ newline @ rest) = (rev cur @ l) # splitlines [] rest"
proof (induction l arbitrary: cur)
  case (Cons c l)
  then have "c \<noteq> CHR 0x0D" by (auto simp: line_break_def)
  with Cons show ?case by simp
qed (simp add: line_break_def)

lemma split_lines_newline:
  "list_all (\<lambda>c. \<not> line_break c) l \<Longrightarrow> split_lines (l @ newline @ rest) = l # split_lines rest"
  using splitlines_newline [of l "[]" rest] by simp

section \<open>Events\<close>

text \<open>The events read, and the exception of a payload that is no JSON.\<close>

fun client_events :: "(string \<Rightarrow> string + json) \<Rightarrow> string list \<Rightarrow> (string \<times> json) list list \<times> string option" where
  "client_events loads [] = ([], None)"
| "client_events loads (l # ls) =
     (let payload = strip (drop (length ''data:'') l)
      in if \<not> starts_with ''data:'' l \<or> payload = [] then client_events loads ls
         else case loads payload of
           Inl e \<Rightarrow> ([], Some e)
         | Inr (JObj kvs) \<Rightarrow> (case client_events loads ls of (evs, x) \<Rightarrow> (kvs # evs, x))
         | Inr _ \<Rightarrow> client_events loads ls)"

section \<open>What the gateway sends is read back\<close>

text \<open>A payload on one line; \<open>json.loads\<close> reads back what was dumped.\<close>

definition one_line :: "(string \<Rightarrow> string + json) \<Rightarrow> (json \<Rightarrow> string) \<Rightarrow> event \<Rightarrow> bool" where
  "one_line loads dumps e \<longleftrightarrow>
     (let t = dumps (JObj (event_dump e))
      in loads t = Inr (JObj (event_dump e)) \<and> strip t = t \<and> t \<noteq> [] \<and> list_all (\<lambda>c. \<not> line_break c) t)"

definition frame_events :: "frame list \<Rightarrow> event list" where
  "frame_events fs = concat (map (\<lambda>f. case f of Data e \<Rightarrow> [e] | Keepalive \<Rightarrow> []) fs)"

lemma frame_events_simps [simp]:
  "frame_events [] = []" "frame_events (Data e # fs) = e # frame_events fs" "frame_events (Keepalive # fs) = frame_events fs"
  by (simp_all add: frame_events_def)

lemma strip_space: "strip (CHR '' '' # s) = strip s"
  by (simp add: strip_def lstrip_def py_space_def Let_def)

lemma empty_line: "client_events loads (split_lines (newline @ s)) = client_events loads (split_lines s)"
  using split_lines_newline [of "[]" s] by simp

lemma frame_lines:
  "split_lines (frame_text dumps Keepalive @ s) = '': keepalive'' # split_lines (newline @ s)"
  "list_all (\<lambda>c. \<not> line_break c) (dumps (JObj (event_dump e))) \<Longrightarrow>
     split_lines (frame_text dumps (Data e) @ s) = (''data: '' @ dumps (JObj (event_dump e))) # split_lines (newline @ s)"
proof -
  have "list_all (\<lambda>c. \<not> line_break c) '': keepalive''" by (simp add: line_break_def)
  from split_lines_newline [OF this, of "newline @ s"]
  show "split_lines (frame_text dumps Keepalive @ s) = '': keepalive'' # split_lines (newline @ s)"
    by (simp add: frame_text_def)
next
  assume "list_all (\<lambda>c. \<not> line_break c) (dumps (JObj (event_dump e)))"
  then have "list_all (\<lambda>c. \<not> line_break c) (''data: '' @ dumps (JObj (event_dump e)))" by (simp add: line_break_def)
  from split_lines_newline [OF this, of "newline @ s"]
  show "split_lines (frame_text dumps (Data e) @ s) = (''data: '' @ dumps (JObj (event_dump e))) # split_lines (newline @ s)"
    by (simp add: frame_text_def)
qed

lemma data_line:
  assumes "one_line loads dumps e"
  shows "client_events loads ((''data: '' @ dumps (JObj (event_dump e))) # ls) =
     (case client_events loads ls of (evs, x) \<Rightarrow> (event_dump e # evs, x))"
  using assms by (simp add: one_line_def Let_def strip_space)

text \<open>C30: Whatever keepalives come between them, the terminal's client reads the events of a stream back as
  the gateway dumped them, in order and without an error, provided the JSON of each event is one line:
  it contains none of the line boundaries of \<open>str.splitlines\<close>.\<close>

theorem client_reads_frames:
  assumes "list_all (one_line loads dumps) (frame_events fs)"
  shows "client_events loads (split_lines (concat (map (frame_text dumps) fs))) = (map event_dump (frame_events fs), None)"
  using assms
proof (induction fs)
  case (Cons f fs)
  show ?case
  proof (cases f)
    case (Data e)
    then have e: "one_line loads dumps e" using Cons.prems by simp
    then have "list_all (\<lambda>c. \<not> line_break c) (dumps (JObj (event_dump e)))" by (simp add: one_line_def Let_def)
    note lines = frame_lines(2) [where dumps = dumps and e = e, OF this]
    have "client_events loads (split_lines (concat (map (frame_text dumps) (f # fs)))) =
        client_events loads ((''data: '' @ dumps (JObj (event_dump e))) # split_lines (newline @ concat (map (frame_text dumps) fs)))"
      using lines Data by (simp only: list.map concat.simps)
    also have "\<dots> = (map event_dump (frame_events (f # fs)), None)"
      unfolding data_line [OF e] empty_line using Cons.IH Cons.prems Data by simp
    finally show ?thesis .
  next
    case Keepalive
    have "client_events loads (split_lines (concat (map (frame_text dumps) (f # fs)))) =
        client_events loads ('': keepalive'' # split_lines (newline @ concat (map (frame_text dumps) fs)))"
      using frame_lines(1) Keepalive by (simp only: list.map concat.simps)
    also have "\<dots> = client_events loads (split_lines (newline @ concat (map (frame_text dumps) fs)))"
      by (simp add: Let_def del: splitlines.simps)
    finally show ?thesis unfolding empty_line using Cons Keepalive by simp
  qed
qed simp

text \<open>A frame whose JSON holds the control character U+0085, which JSON does not escape, is cut in two.\<close>

lemma next_line_cuts_a_frame:
  "split_lines (''data: {'' @ [CHR 0x22, CHR 0x85, CHR 0x22] @ ''}'' @ newline) =
     [''data: {'' @ [CHR 0x22], [CHR 0x22] @ ''}'']"
  by (simp add: line_break_def)

theorem client_reads_frames_witness:
  "client_events (\<lambda>t. Inr (JObj (event_dump (Event t TaskCancelled))))
     (split_lines (concat (map (frame_text (\<lambda>v. ''t'')) [Keepalive, Data (Event ''t'' TaskCancelled)]))) =
   ([[(''task_id'', JStr ''t''), (''type'', JStr ''task_cancelled'')]], None)"
proof -
  have "list_all (one_line (\<lambda>t. Inr (JObj (event_dump (Event t TaskCancelled)))) (\<lambda>v. ''t''))
      (frame_events [Keepalive, Data (Event ''t'' TaskCancelled)])"
    by (simp add: one_line_def strip_def lstrip_def rstrip_def py_space_def line_break_def Let_def)
  from client_reads_frames [OF this] show ?thesis by (simp add: event_dump_def)
qed

end
