(* ===== verification/CommandLine.thy ===== *)
theory CommandLine
  imports RestGateway PlannerModel TuiDag
begin

text \<open>
  The headless commands of \<open>cli/__init__.py\<close>: \<open>run\<close>, which takes a task through the orchestrator in
  process, and \<open>exec-plan\<close>, which executes a given plan; the trajectory and the result envelope they
  print, and their exit code.  \<open>dumps\<close> and \<open>str\<close> are Python's, \<open>plan_of\<close> is \<open>Plan.model_validate\<close>.
\<close>

section \<open>Settings of a run\<close>

text \<open>\<open>key\<close> is \<open>OPENROUTER_API_KEY\<close>.\<close>

definition settings_for_run :: "settings \<Rightarrow> string \<Rightarrow> string option \<Rightarrow> bool \<Rightarrow> bool \<Rightarrow> settings_error + settings" where
  "settings_for_run s key model confirm fast_mode =
     and_then (if fast_mode then with_fast_mode s [] key else Inr s) (\<lambda>s1.
       let s2 = (if confirm then s1 else s1\<lparr>confirm_plans := False\<rparr>)
       in Inr (case model of
                 None \<Rightarrow> s2
               | Some m \<Rightarrow> if m = [] then s2 else s2\<lparr>tier0 := (tier0 s1)\<lparr>tc_model := m\<rparr>\<rparr>))"

section \<open>The envelope\<close>

definition node_token :: "node \<Rightarrow> string" where
  "node_token n =
     (if n_type n = TOOL then (case n_tool n of None \<Rightarrow> ''tool'' | Some t \<Rightarrow> if t = [] then ''tool'' else t)
      else node_type_value (n_type n))"

text \<open>At most 2048 characters of a node's output.\<close>

definition output_text :: "(json \<Rightarrow> string) \<Rightarrow> (json \<Rightarrow> string) \<Rightarrow> json \<Rightarrow> json" where
  "output_text dumps str v =
     (case v of
        JNull \<Rightarrow> JNull
      | JList _ \<Rightarrow> JStr (take 2048 (dumps v))
      | JObj _ \<Rightarrow> JStr (take 2048 (dumps v))
      | _ \<Rightarrow> JStr (take 2048 (str_of str v)))"

definition trajectory_step :: "(json \<Rightarrow> string) \<Rightarrow> (json \<Rightarrow> string) \<Rightarrow> node \<Rightarrow> node_result option \<Rightarrow> json" where
  "trajectory_step dumps str n found =
     JObj ([(''tool'', JStr (node_token n)), (''input'', JObj (case n_args_template n of None \<Rightarrow> [] | Some a \<Rightarrow> a)),
            (''node_id'', JInt (n_id n)), (''node_type'', JStr (node_type_value (n_type n)))] @
       (case found of
          None \<Rightarrow>
            [(''tier_used'', JNull), (''status'', JStr ''pending''), (''confidence'', JFloat (Fin 1)),
             (''flagged'', JBool False), (''retries'', JInt 0), (''branch_taken'', JNull), (''args_used'', JNull),
             (''output'', JNull)]
        | Some r \<Rightarrow>
            [(''tier_used'', json_of_option JInt (r_tier_used r)), (''status'', JStr (node_status_value (r_status r))),
             (''confidence'', JFloat (r_confidence r)), (''flagged'', JBool (r_flagged r)),
             (''retries'', JInt (int (r_retries r))), (''branch_taken'', json_of_option JStr (r_branch_taken r)),
             (''args_used'', json_of_option JObj (r_args_used r)), (''output'', output_text dumps str (r_output r))]))"

text \<open>Of nodes that share an id the last one counts.\<close>

definition trajectory_nodes :: "plan \<Rightarrow> node list" where
  "trajectory_nodes p =
     List.map_filter (map_of (rev (map (\<lambda>n. (n_id n, n)) (p_nodes p))))
       (if p_sorted_node_ids p = [] then map n_id (p_nodes p) else p_sorted_node_ids p)"

definition trajectory :: "(json \<Rightarrow> string) \<Rightarrow> (json \<Rightarrow> string) \<Rightarrow> exec_state \<Rightarrow> json list" where
  "trajectory dumps str st =
     (case s_plan st of
        None \<Rightarrow> []
      | Some p \<Rightarrow> map (\<lambda>n. trajectory_step dumps str n (map_of (s_results st) (n_id n))) (trajectory_nodes p))"

definition failed_status :: "task_status \<Rightarrow> bool" where
  "failed_status s \<longleftrightarrow> s \<in> {TASK_FAILED, REJECTED, CANCELLED}"

text \<open>\<open>error or state.error\<close>.\<close>

definition error_text :: "string option \<Rightarrow> exec_state \<Rightarrow> string option" where
  "error_text err st = (case err of None \<Rightarrow> s_error st | Some e \<Rightarrow> if e = [] then s_error st else Some e)"

definition envelope :: "(json \<Rightarrow> string) \<Rightarrow> (json \<Rightarrow> string) \<Rightarrow> exec_state \<Rightarrow> string option \<Rightarrow> (string \<times> json) list" where
  "envelope dumps str st err =
     [(''result'', JStr (case s_final_output st of None \<Rightarrow> [] | Some t \<Rightarrow> t)),
      (''trajectory'', JList (trajectory dumps str st)), (''status'', JStr (status_value (s_status st))),
      (''is_error'', JBool (failed_status (s_status st) \<or> err \<noteq> None)), (''error'', json_of_option JStr (error_text err st)),
      (''total_cost_usd'', JNull), (''total_tokens'', JInt (total_tokens st)), (''task_id'', JStr (s_task_id st)),
      (''replan_count'', JInt (int (s_replan_count st))), (''plan'', json_of_option (\<lambda>p. JObj (plan_dump p)) (s_plan st)),
      (''planning_attempts'', json_attempts (s_planning_attempts st)),
      (''branch_log'', JList (map (\<lambda>b. JObj (branch_dump b)) (s_branch_log st))),
      (''flagged_nodes'', json_ints (map r_node_id (filter r_flagged (map snd (s_results st)))))]"

definition failure_envelope :: "string \<Rightarrow> (string \<times> json) list" where
  "failure_envelope msg =
     [(''result'', JStr []), (''trajectory'', JList []), (''status'', JStr ''failed''), (''is_error'', JBool True),
      (''error'', JStr msg), (''total_cost_usd'', JNull), (''total_tokens'', JInt 0)]"

section \<open>What is printed\<close>

definition exit_code :: "(string \<times> json) list \<Rightarrow> nat" where
  "exit_code env =
     (if jget env ''is_error'' = JBool True \<or>
         jget env ''status'' \<in> JStr ` status_value ` {TASK_FAILED, REJECTED, CANCELLED}
      then 1 else 0)"

definition printed :: "(json \<Rightarrow> string) \<Rightarrow> (json \<Rightarrow> string) \<Rightarrow> bool \<Rightarrow> (string \<times> json) list \<Rightarrow> string" where
  "printed dumps str json_output env =
     (if json_output then dumps (JObj env)
      else str_of str (if truthy (jget env ''result'') then jget env ''result''
                       else if truthy (jget env ''error'') then jget env ''error'' else JStr ''(no output)''))"

section \<open>Running a task\<close>

text \<open>
  \<open>_run_task\<close>; \<open>timed\<close> says that a cancellation of the run comes from its time limit.  \<open>None\<close> is any
  other cancellation, which ends the program.
\<close>

definition load_or :: "'w orch_env \<Rightarrow> exec_state \<Rightarrow> 'w \<Rightarrow> exec_state" where
  "load_or en st w = (case oe_load en (s_task_id st) w of None \<Rightarrow> st | Some st' \<Rightarrow> st')"

definition timed_out :: string where
  "timed_out = ''timed out''"

definition run_headless ::
  "'w orch_env \<Rightarrow> (json \<Rightarrow> string) \<Rightarrow> (json \<Rightarrow> string) \<Rightarrow> string \<Rightarrow> string \<Rightarrow> bool \<Rightarrow> 'w \<Rightarrow> ((string \<times> json) list) option"
where
  "run_headless en dumps str tid req timed w =
     (let st = new_state tid req None
      in case run_task en tid \<lparr>oc_world = oe_save en st w, oc_trace = []\<rparr> of
        (TaskEndedCancelled _, oc) \<Rightarrow>
          if timed
          then let late = (load_or en st (oc_world oc))\<lparr>s_status := TASK_FAILED, s_error := Some timed_out\<rparr>
               in Some (envelope dumps str (load_or en st (oe_save en late (oc_world oc))) (Some timed_out))
          else None
      | (_, oc) \<Rightarrow> Some (envelope dumps str (load_or en st (oc_world oc)) None))"

section \<open>Executing a plan\<close>

text \<open>\<open>_topo_sort_recursive\<close>: an order where there is one.\<close>

definition best_order :: "plan \<Rightarrow> node_id list" where
  "best_order p = (case topo_sort p of Inl _ \<Rightarrow> p_sorted_node_ids p | Inr ids \<Rightarrow> ids)"

fun sort_node :: "node \<Rightarrow> node" and sort_plan :: "plan \<Rightarrow> plan" where
  "sort_node (Node i t desc tool args ctx cond brs dflt reasoning tier sub fmt) =
     Node i t desc tool args ctx cond brs dflt reasoning tier
       (case sub of None \<Rightarrow> None | Some q \<Rightarrow> Some (sort_plan q)) fmt"
| "sort_plan (Plan ns ids) = Plan (map sort_node ns) (best_order (Plan ns ids))"

text \<open>The plan that is executed, or the error of its envelope.\<close>

definition plan_to_execute ::
  "(json \<Rightarrow> string + plan) \<Rightarrow> (string \<Rightarrow> string) \<Rightarrow> 'v harness \<Rightarrow> settings \<Rightarrow> bool \<Rightarrow> json \<Rightarrow> string + plan"
where
  "plan_to_execute plan_of repr h s no_validate v =
     (case plan_of v of
        Inl e \<Rightarrow> Inl (''plan parse failed: '' @ e)
      | Inr p \<Rightarrow>
          if no_validate then Inr (sort_plan p)
          else (case validate h s p of
                  Inl e \<Rightarrow> Inl (''plan validation failed: '' @ plan_error_text repr e)
                | Inr p' \<Rightarrow> Inr p'))"

definition exec_plan_headless ::
  "'w orch_env \<Rightarrow> (json \<Rightarrow> string) \<Rightarrow> (json \<Rightarrow> string) \<Rightarrow> (json \<Rightarrow> string + plan) \<Rightarrow> (string \<Rightarrow> string) \<Rightarrow> 'v harness
     \<Rightarrow> bool \<Rightarrow> string \<Rightarrow> json \<Rightarrow> 'w \<Rightarrow> ((string \<times> json) list) option"
where
  "exec_plan_headless en dumps str plan_of repr h no_validate tid v w =
     (case plan_to_execute plan_of repr h ((oe_settings en)\<lparr>confirm_plans := False\<rparr>) no_validate v of
        Inl e \<Rightarrow> Some (failure_envelope e)
      | Inr p \<Rightarrow>
          (let st = new_state tid ''<exec-plan>'' (Some p)
           in case execute_plan en st \<lparr>oc_world = oe_save en st w, oc_trace = []\<rparr> of
             (TaskEndedCancelled _, oc) \<Rightarrow> None
           | (_, oc) \<Rightarrow> Some (envelope dumps str (load_or en st (oc_world oc)) None)))"

text \<open>The command itself: the text of the file that could not be read or decoded, or its plan.\<close>

definition exec_plan_command ::
  "'w orch_env \<Rightarrow> (json \<Rightarrow> string) \<Rightarrow> (json \<Rightarrow> string) \<Rightarrow> (json \<Rightarrow> string + plan) \<Rightarrow> (string \<Rightarrow> string) \<Rightarrow> 'v harness
     \<Rightarrow> bool \<Rightarrow> bool \<Rightarrow> string \<Rightarrow> string + json \<Rightarrow> 'w \<Rightarrow> (string \<times> nat) option"
where
  "exec_plan_command en dumps str plan_of repr h no_validate json_output tid file w =
     (case file of
        Inl e \<Rightarrow>
          (let msg = ''could not load plan file: '' @ e
           in Some (if json_output then dumps (JObj (failure_envelope msg)) else msg, 2))
      | Inr v \<Rightarrow>
          map_option (\<lambda>env. (printed dumps str json_output env, exit_code env))
            (exec_plan_headless en dumps str plan_of repr h no_validate tid v w))"

definition run_command ::
  "'w orch_env \<Rightarrow> (json \<Rightarrow> string) \<Rightarrow> (json \<Rightarrow> string) \<Rightarrow> bool \<Rightarrow> string \<Rightarrow> string \<Rightarrow> bool \<Rightarrow> 'w \<Rightarrow> (string \<times> nat) option"
where
  "run_command en dumps str json_output tid req timed w =
     map_option (\<lambda>env. (printed dumps str json_output env, exit_code env)) (run_headless en dumps str tid req timed w)"

section \<open>The exit code\<close>

lemma exit_code_envelope: "exit_code (envelope dumps str st err) = (if failed_status (s_status st) \<or> err \<noteq> None then 1 else 0)"
  by (cases "s_status st") (auto simp: exit_code_def envelope_def failed_status_def)

lemma told_status:
  assumes "tells st b"
  shows "s_status st \<in> {AWAITING_CONFIRMATION, TASK_COMPLETED, TASK_FAILED, REJECTED, CANCELLED}"
  using assms by (cases b) (auto simp: tells_def)

text \<open>A run keeps the id of its task.\<close>

lemma plan_and_go_task:
  assumes "plan_and_go en report feedback st oc = (r, oc')" and "ended_in r st'"
    and "task_executor (oe_execute en)"
  shows "s_task_id st' = s_task_id st"
proof -
  have close: "s_task_id st' = s_task_id st1" if "close_task en report (x, st1, oc1) = (r, oc')" for x st1 oc1
    using that assms(2) by (auto simp: close_task_def ended_in_def mark_cancelled_def Let_def split: option.splits plan_exc.splits)
  have exec: "s_task_id st2 = s_task_id st1" if "run_executor en st1 oc1 = (x, st2, oc2)" for x st1 st2 oc1 oc2
    using that task_executor.same_task [OF assms(3)]
    by (auto simp: run_executor_def same_task_plan_def split: prod.splits)
  obtain x st1 oc1 where x: "plan_with_retry en feedback st (emit_event en PlanningStarted oc) = (x, st1, oc1)"
    by (metis prod_cases3)
  have st1: "s_task_id st1 = s_task_id st"
    using plan_loop_spec [OF x [unfolded plan_with_retry_def]] by (auto simp: planning_effect_def same_task_plan_def)
  show ?thesis
  proof (cases x)
    case (Planned p)
    let ?st = "st1\<lparr>s_plan := Some p\<rparr>"
    obtain y st2 oc2 where y: "present_or_execute en ?st oc1 = (y, st2, oc2)" by (metis prod_cases3)
    then have "s_task_id st2 = s_task_id st1"
      using exec [of ?st _ y st2 oc2] by (auto simp: present_or_execute_def Let_def split: if_splits)
    moreover have "close_task en report (y, st2, oc2) = (r, oc')"
      using assms(1) x y Planned by (simp add: plan_and_go_def)
    ultimately show ?thesis using close st1 by simp
  qed (use assms(1) x close st1 in \<open>auto simp: plan_and_go_def\<close>)
qed

text \<open>What a reader finds once a run has ended: the state it saved last.\<close>

lemma close_world:
  "close_task en report y = (r, oc') \<Longrightarrow> ended_in r st \<Longrightarrow> \<exists>w. oc_world oc' = oe_save en st w"
  by (auto simp: close_task_def save_task_def note_effect_def ended_in_def Let_def split: prod.splits option.splits plan_exc.splits)

lemma run_world:
  assumes "run_task en tid oc = (r, oc')" and "ended_in r st"
  shows "\<exists>w. oc_world oc' = oe_save en st w"
proof (cases "oe_load en tid (oc_world oc)")
  case None
  with assms show ?thesis by (auto simp: run_task_def ended_in_def)
next
  case (Some st0)
  with assms show ?thesis
    by (auto simp: run_task_def plan_and_go_def close_world split: prod.splits plan_end.splits)
qed



section \<open>The trajectory\<close>

lemma map_filter_ids:
  "\<forall>i \<in> set ids. \<exists>n. m i = Some n \<and> n_id n = i \<Longrightarrow> map n_id (List.map_filter m ids) = ids"
  by (induction ids) (auto simp: List.map_filter_simps)

lemma trajectory_nodes_sorted:
  assumes "topo_sort p = Inr (p_sorted_node_ids p)"
  shows "map n_id (trajectory_nodes p) = p_sorted_node_ids p" and "set (trajectory_nodes p) = set (p_nodes p)"
proof -
  note sound = topo_sort_sound [OF assms]
  let ?m = "map_of (rev (map (\<lambda>n. (n_id n, n)) (p_nodes p)))"
  have keys: "distinct (map fst (map (\<lambda>n. (n_id n, n)) (p_nodes p)))"
    using sound(2) by (simp add: node_ids_def comp_def)
  then have m: "?m i = Some n \<longleftrightarrow> n \<in> set (p_nodes p) \<and> n_id n = i" for i n
    by (subst map_of_eq_Some_iff) (auto simp: rev_map [symmetric] comp_def)
  have all: "\<exists>n. ?m i = Some n \<and> n_id n = i" if "i \<in> set (p_sorted_node_ids p)" for i
    using that sound(4) m by (auto simp: node_ids_def)
  have nodes: "trajectory_nodes p = List.map_filter ?m (p_sorted_node_ids p)"
  proof (cases "p_sorted_node_ids p")
    case Nil
    with sound(4) have "p_nodes p = []" by (simp add: node_ids_def)
    with Nil show ?thesis by (simp add: trajectory_nodes_def)
  qed (simp add: trajectory_nodes_def)
  show "map n_id (trajectory_nodes p) = p_sorted_node_ids p"
    unfolding nodes by (rule map_filter_ids) (use all in blast)
  show "set (trajectory_nodes p) = set (p_nodes p)"
  proof (rule set_eqI)
    fix n
    have "n \<in> set (trajectory_nodes p) \<longleftrightarrow> (\<exists>i \<in> set (p_sorted_node_ids p). ?m i = Some n)"
      unfolding nodes by (force simp: List.map_filter_def)
    then show "n \<in> set (trajectory_nodes p) \<longleftrightarrow> n \<in> set (p_nodes p)"
      using m sound(4) by (auto simp: node_ids_def)
  qed
qed

text \<open>The trajectory of a validated plan has one step for every node, none twice, each after the nodes
  it depends on.\<close>

theorem trajectory_of_validated_plan:
  assumes "plan_to_execute plan_of repr h s False v = Inr p"
  shows "map n_id (trajectory_nodes p) = p_sorted_node_ids p \<and> distinct (p_sorted_node_ids p) \<and>
    set (trajectory_nodes p) = set (p_nodes p) \<and> dep_ordered (set (plan_edges p)) (p_sorted_node_ids p)"
proof -
  obtain p0 where "validate h s p0 = Inr p"
    using assms by (auto simp: plan_to_execute_def split: sum.splits)
  from validate_sound(2) [OF this] have sorted: "topo_sort p = Inr (p_sorted_node_ids p)"
    by (rule fully_sortedE)
  from trajectory_nodes_sorted [OF sorted] topo_sort_sound [OF sorted] show ?thesis by simp
qed

definition two_nodes :: plan where
  "two_nodes = Plan [mk_node 2 RESULT ''answer'' [1], mk_node 1 THINK ''think'' []] []"

theorem trajectory_of_validated_plan_witness:
  "\<exists>p. plan_to_execute (\<lambda>v. Inr two_nodes) id \<lparr>h_funcs = [], h_schemas = [], h_risk = []\<rparr> (ne_settings sample_env) False JNull = Inr p \<and>
     p_sorted_node_ids p = [1, 2] \<and> map n_id (trajectory_nodes p) = [1, 2] \<and> dep_ordered (set (plan_edges p)) [1, 2]"
proof -
  let ?p = "set_sorted two_nodes [1, 2]"
  have v: "plan_to_execute (\<lambda>v. Inr two_nodes) id \<lparr>h_funcs = [], h_schemas = [], h_risk = []\<rparr> (ne_settings sample_env) False JNull
      = Inr ?p"
    by code_simp
  moreover have "p_sorted_node_ids ?p = [1, 2]" by simp
  ultimately show ?thesis using trajectory_of_validated_plan [OF v] by auto
qed

end
