(* ===== verification/AcpProtocol.thy ===== *)
theory AcpProtocol
  imports PlanPayload
begin

text \<open>
  JSON-RPC over a stream of lines: \<open>Connection\<close> of \<open>gateways/acp/protocol.py\<close>.  A line is a text of
  characters below 256; \<open>json.loads\<close> on bytes is a parameter, which gives a value, raises
  \<open>JSONDecodeError\<close>, or raises something else (\<open>UnicodeDecodeError\<close>).  Messages that are sent are
  JSON objects; their encoding as a line is \<open>json.dumps\<close>.  An outbound request is split at its
  suspension point: \<open>send_request\<close> up to \<open>await fut\<close>, and the resolution the reader gives it.
\<close>

section \<open>Messages\<close>

type_synonym msg = "(string \<times> json) list"

definition parse_error_code :: int where "parse_error_code = -32700"
definition method_not_found :: int where "method_not_found = -32601"
definition invalid_params :: int where "invalid_params = -32602"
definition internal_error :: int where "internal_error = -32603"

text \<open>\<open>JsonRpcError\<close>; code and message of a peer's error may be any JSON.\<close>

datatype rpc_error = RpcError (re_code: json) (re_message: json) (re_data: json)

definition rpc_version :: "string \<times> json" where
  "rpc_version = (''jsonrpc'', JStr ''2.0'')"

definition err_object :: "rpc_error \<Rightarrow> json" where
  "err_object e =
     JObj ([(''code'', re_code e), (''message'', re_message e)] @
           (if re_data e \<noteq> JNull then [(''data'', re_data e)] else []))"

definition response :: "json \<Rightarrow> json \<Rightarrow> msg" where
  "response i result = [rpc_version, (''id'', i), (''result'', result)]"

definition error_response :: "json \<Rightarrow> rpc_error \<Rightarrow> msg" where
  "error_response i e = [rpc_version, (''id'', i), (''error'', err_object e)]"

definition notification :: "string \<Rightarrow> json \<Rightarrow> msg" where
  "notification method params = [rpc_version, (''method'', JStr method), (''params'', params)]"

definition request_msg :: "int \<Rightarrow> string \<Rightarrow> json \<Rightarrow> msg" where
  "request_msg i method params = [rpc_version, (''id'', JInt i), (''method'', JStr method), (''params'', params)]"

section \<open>Outbound requests\<close>

text \<open>\<open>_pending\<close> maps ids to futures; a future is done already when its waiter was cancelled.\<close>

record connection =
  cn_next_id :: int
  cn_pending :: "(int \<times> bool) list"

definition new_connection :: connection where
  "new_connection = \<lparr>cn_next_id = 0, cn_pending = []\<rparr>"

definition send_request :: "string \<Rightarrow> json \<Rightarrow> connection \<Rightarrow> int \<times> msg \<times> connection" where
  "send_request method params cn =
     (let i = cn_next_id cn + 1
      in (i, request_msg i method params,
          \<lparr>cn_next_id = i, cn_pending = AList.update i False (cn_pending cn)\<rparr>))"

text \<open>The waiter of request \<open>i\<close> is cancelled, which cancels the future.\<close>

definition drop_waiter :: "int \<Rightarrow> connection \<Rightarrow> connection" where
  "drop_waiter i cn =
     (if i \<in> fst ` set (cn_pending cn) then cn\<lparr>cn_pending := AList.update i True (cn_pending cn)\<rparr> else cn)"

text \<open>
  \<open>_route_response\<close>: not a response to one of our requests; routed, with the resolution when the
  future was open; or the attribute error of \<open>err.get\<close> on an error that is no object, which leaves
  the request out of \<open>_pending\<close> and its waiter without an answer.
\<close>

datatype routed =
    NotRouted
  | Routed connection "(int \<times> (rpc_error + json)) option"
  | RouteRaised connection

definition peer_error :: "json \<Rightarrow> rpc_error option" where
  "peer_error v =
     (if \<not> truthy v then Some (RpcError (JInt internal_error) (JStr ''error'') JNull)
      else case v of
        JObj kvs \<Rightarrow> Some (RpcError (jget_default kvs ''code'' (JInt internal_error))
                              (jget_default kvs ''message'' (JStr ''error'')) JNull)
      | _ \<Rightarrow> None)"

definition route_response :: "msg \<Rightarrow> connection \<Rightarrow> routed" where
  "route_response m cn =
     (if map_of m ''method'' \<noteq> None \<or> map_of m ''id'' = None then NotRouted
      else case int_value (jget m ''id'') of
        None \<Rightarrow> NotRouted
      | Some i \<Rightarrow>
          (case map_of (cn_pending cn) i of
             None \<Rightarrow> NotRouted
           | Some done \<Rightarrow>
               (let cn' = cn\<lparr>cn_pending := AList.delete i (cn_pending cn)\<rparr>
                in if done then Routed cn' None
                   else case map_of m ''error'' of
                     None \<Rightarrow> Routed cn' (Some (i, Inr (jget m ''result'')))
                   | Some v \<Rightarrow>
                       (case peer_error v of
                          None \<Rightarrow> RouteRaised cn'
                        | Some e \<Rightarrow> Routed cn' (Some (i, Inl e))))))"

section \<open>Reading lines\<close>

datatype loads_result = Loaded json | BadJson | LoadsRaised

text \<open>\<open>bytes.strip\<close> takes off ASCII white space only.\<close>

definition ascii_space :: "char \<Rightarrow> bool" where
  "ascii_space c \<longleftrightarrow> of_char c \<in> {9, 10, 11, 12, 13, 32 :: nat}"

definition strip_bytes :: "string \<Rightarrow> string" where
  "strip_bytes s = rev (dropWhile ascii_space (rev (dropWhile ascii_space s)))"

text \<open>What one turn of the loop of \<open>incoming\<close> does with a line.\<close>

datatype received =
    Ignored
  | Answered msg
  | Resolves "(int \<times> (rpc_error + json)) option"
  | Yielded msg
  | ReadRaised

definition receive :: "(string \<Rightarrow> loads_result) \<Rightarrow> string \<Rightarrow> connection \<Rightarrow> received \<times> connection" where
  "receive loads line cn =
     (let t = strip_bytes line
      in if t = [] then (Ignored, cn)
         else case loads t of
           BadJson \<Rightarrow>
             (Answered (error_response JNull (RpcError (JInt parse_error_code) (JStr ''parse error'') JNull)), cn)
         | LoadsRaised \<Rightarrow> (ReadRaised, cn)
         | Loaded (JObj m) \<Rightarrow>
             (case route_response m cn of
                NotRouted \<Rightarrow> (Yielded m, cn)
              | Routed cn' r \<Rightarrow> (Resolves r, cn')
              | RouteRaised cn' \<Rightarrow> (ReadRaised, cn'))
         | Loaded _ \<Rightarrow> (Ignored, cn))"

section \<open>Ids are fresh and answers find their request\<close>

text \<open>Every pending id was issued, and each is pending once.\<close>

definition pending_ok :: "connection \<Rightarrow> bool" where
  "pending_ok cn \<longleftrightarrow> distinct (map fst (cn_pending cn)) \<and> (\<forall>i \<in> fst ` set (cn_pending cn). 0 < i \<and> i \<le> cn_next_id cn) \<and>
     0 \<le> cn_next_id cn"

lemma new_connection_ok: "pending_ok new_connection"
  by (simp add: pending_ok_def new_connection_def)

lemma send_request_fresh:
  assumes "pending_ok cn" and "send_request method params cn = (i, m, cn')"
  shows "pending_ok cn'" "i \<notin> fst ` set (cn_pending cn)" "cn_pending cn' = cn_pending cn @ [(i, False)]"
proof -
  have i: "i = cn_next_id cn + 1" "cn' = \<lparr>cn_next_id = i, cn_pending = AList.update i False (cn_pending cn)\<rparr>"
    using assms(2) by (auto simp: send_request_def Let_def)
  show fresh: "i \<notin> fst ` set (cn_pending cn)" using assms(1) i(1) by (auto simp: pending_ok_def)
  have "AList.update i v kvs = kvs @ [(i, v)]" if "i \<notin> fst ` set kvs" for v :: bool and kvs
    using that by (induction kvs) auto
  with fresh show p: "cn_pending cn' = cn_pending cn @ [(i, False)]" unfolding i(2) by simp
  show "pending_ok cn'"
    using assms(1) fresh p i by (auto simp: pending_ok_def)
qed

lemma route_response_cases:
  assumes "pending_ok cn"
  shows "route_response m cn = Routed cn' r \<Longrightarrow> pending_ok cn'"
    and "route_response m cn = RouteRaised cn' \<Longrightarrow> pending_ok cn'"
    and "route_response m cn = Routed cn' (Some (i, v)) \<Longrightarrow>
      map_of (cn_pending cn) i = Some False \<and> int_value (jget m ''id'') = Some i \<and> map_of m ''method'' = None \<and>
      i \<notin> fst ` set (cn_pending cn')"
proof -
  have "pending_ok (cn\<lparr>cn_pending := AList.delete j (cn_pending cn)\<rparr>)" for j
  proof -
    have d: "distinct (map fst (AList.delete j (cn_pending cn)))"
      using assms unfolding pending_ok_def by (intro distinct_delete) simp
    have "0 < i \<and> i \<le> cn_next_id cn" if "i \<in> fst ` set (AList.delete j (cn_pending cn))" for i
      using assms subsetD [OF dom_delete_subset that] unfolding pending_ok_def by blast
    with d assms show ?thesis unfolding pending_ok_def by simp
  qed
  then show "route_response m cn = Routed cn' r \<Longrightarrow> pending_ok cn'"
    "route_response m cn = RouteRaised cn' \<Longrightarrow> pending_ok cn'"
    by (auto simp: route_response_def Let_def split: if_splits option.splits)
  show "route_response m cn = Routed cn' (Some (i, v)) \<Longrightarrow>
      map_of (cn_pending cn) i = Some False \<and> int_value (jget m ''id'') = Some i \<and> map_of m ''method'' = None \<and>
      i \<notin> fst ` set (cn_pending cn')"
    using delete_notin_dom [of i "cn_pending cn"]
    by (auto simp: route_response_def Let_def split: if_splits option.splits bool.splits)
qed

end
