(* ===== verification/AcpMapping.thy ===== *)
theory AcpMapping
  imports Wire TuiDag
begin

text \<open>
  What the ACP gateway shows of a plan and reads from its client: the plan tracker of
  \<open>gateways/acp/mapping.py\<close>, and the pure helpers of \<open>gateways/acp/server.py\<close>.  \<open>str\<close> of a JSON value
  is a parameter.  A subscript that is missing (\<open>n["id"]\<close>) is the left of a sum.
\<close>

section \<open>The plan tracker\<close>

definition acp_plan_status :: "node_status option \<Rightarrow> bool \<Rightarrow> string" where
  "acp_plan_status status running =
     (if running \<and> (status = None \<or> status = Some PENDING) then ''in_progress''
      else if status \<in> {Some COMPLETED, Some SKIPPED, Some EMPTY, Some FAILED} then ''completed''
      else ''pending'')"

record tracker =
  tk_desc :: "(int \<times> string) list"
  tk_type :: "(int \<times> json) list"
  tk_tool :: "(int \<times> json) list"
  tk_args :: "(int \<times> json) list"
  tk_order :: "int list"
  tk_status :: "(int \<times> node_status) list"
  tk_running :: "int list"

definition new_tracker :: tracker where
  "new_tracker =
     \<lparr>tk_desc = [], tk_type = [], tk_tool = [], tk_args = [], tk_order = [], tk_status = [], tk_running = []\<rparr>"

text \<open>
  The nodes of a serialised plan, their order, and \<open>by_id\<close>.  The elements are objects with int ids in
  every dump of a plan; anything else is the error of the subscript.
\<close>

fun dumped_node :: "json \<Rightarrow> string + int \<times> (string \<times> json) list" where
  "dumped_node (JObj n) =
     (case map_of n ''id'' of
        Some (JInt i) \<Rightarrow> Inr (i, n)
      | Some v \<Rightarrow> Inl (type_name v)
      | None \<Rightarrow> Inl ''id'')"
| "dumped_node v = Inl (type_name v)"

fun json_list :: "json \<Rightarrow> json list" where
  "json_list (JList vs) = vs"
| "json_list _ = []"

definition dumped_nodes :: "(string \<times> json) list \<Rightarrow> string + (int \<times> (string \<times> json) list) list" where
  "dumped_nodes plan = map_all dumped_node (json_list (jget plan ''nodes''))"

definition dumped_order :: "(string \<times> json) list \<Rightarrow> (int \<times> (string \<times> json) list) list \<Rightarrow> int list" where
  "dumped_order plan nodes =
     (if truthy (jget plan ''sorted_node_ids'') then int_tuple (jget plan ''sorted_node_ids'') else map fst nodes)"

text \<open>\<open>{n["id"]: n for n in nodes}\<close>.\<close>

definition dumped_by_id :: "(int \<times> 'a) list \<Rightarrow> (int \<times> 'a) list" where
  "dumped_by_id nodes = fold (\<lambda>(i, n). AList.update i n) nodes []"

definition or_object :: "json \<Rightarrow> json" where
  "or_object v = (if truthy v then v else JObj [])"

definition load_node :: "(json \<Rightarrow> string) \<Rightarrow> int \<Rightarrow> (string \<times> json) list \<Rightarrow> tracker \<Rightarrow> tracker" where
  "load_node str i n tk =
     (let kind = jget_default n ''type'' (JStr ''node'')
      in tk\<lparr>tk_order := tk_order tk @ [i],
            tk_type := AList.update i kind (tk_type tk),
            tk_tool := AList.update i (jget n ''tool'') (tk_tool tk),
            tk_args := AList.update i (or_object (jget n ''args_template'')) (tk_args tk),
            tk_desc := AList.update i
              (strip (''['' @ str_of str kind @ ''] '' @ str_of str (jget_default n ''description'' (JStr []))))
              (tk_desc tk)\<rparr>)"

definition load_tracker :: "(json \<Rightarrow> string) \<Rightarrow> (string \<times> json) list \<Rightarrow> string + tracker" where
  "load_tracker str plan =
     and_then (dumped_nodes plan) (\<lambda>nodes. Inr (
       fold (\<lambda>i tk. case map_of (dumped_by_id nodes) i of None \<Rightarrow> tk | Some n \<Rightarrow> load_node str i n tk)
         (dumped_order plan nodes) new_tracker))"

definition start_node :: "int \<Rightarrow> tracker \<Rightarrow> tracker" where
  "start_node i tk = tk\<lparr>tk_running := List.insert i (tk_running tk)\<rparr>"

definition finish_node :: "int \<Rightarrow> node_status \<Rightarrow> tracker \<Rightarrow> tracker" where
  "finish_node i s tk =
     tk\<lparr>tk_running := removeAll i (tk_running tk), tk_status := AList.update i s (tk_status tk)\<rparr>"

definition entry_of :: "tracker \<Rightarrow> int \<Rightarrow> json" where
  "entry_of tk i =
     (let status = map_of (tk_status tk) i;
          content = (case map_of (tk_desc tk) i of None \<Rightarrow> [] | Some d \<Rightarrow> d);
          content' = (if status = Some SKIPPED then content @ '' (skipped)''
                      else if status = Some FAILED then content @ '' (failed)'' else content)
      in JObj [(''nodeId'', JInt i), (''content'', JStr content'), (''priority'', JStr ''medium''),
               (''status'', JStr (acp_plan_status status (i \<in> set (tk_running tk))))])"

definition tracker_entries :: "tracker \<Rightarrow> json list" where
  "tracker_entries tk = map (entry_of tk) (tk_order tk)"

section \<open>The plan graph\<close>

definition graph_deps :: "int list \<Rightarrow> (string \<times> json) list \<Rightarrow> int list" where
  "graph_deps ids n = filter (\<lambda>d. d \<in> set ids) (int_tuple (jget n ''context_needed''))"

definition data_edge :: "int \<Rightarrow> int \<Rightarrow> json" where
  "data_edge dep i = JObj [(''from'', JInt dep), (''to'', JInt i), (''kind'', JStr ''data'')]"

definition control_edge :: "int \<Rightarrow> string \<Rightarrow> int \<Rightarrow> json" where
  "control_edge i label target =
     JObj [(''from'', JInt i), (''to'', JInt target), (''kind'', JStr ''control''), (''label'', JStr label)]"

fun graph_control :: "int list \<Rightarrow> int \<Rightarrow> json \<Rightarrow> json list" where
  "graph_control ids i (JObj branches) =
     concat (map (\<lambda>(label, targets).
       map (control_edge i label) (filter (\<lambda>t. t \<in> set ids) (int_tuple targets))) branches)"
| "graph_control ids i _ = []"

definition graph_node :: "int list \<Rightarrow> int \<Rightarrow> (string \<times> json) list \<Rightarrow> json" where
  "graph_node ids i n =
     JObj [(''id'', JInt i), (''nodeType'', jget_default n ''type'' (JStr ''node'')),
           (''description'', jget_default n ''description'' (JStr [])), (''deps'', json_ints (graph_deps ids n))]"

definition graph_edges :: "int list \<Rightarrow> int \<Rightarrow> (string \<times> json) list \<Rightarrow> json list" where
  "graph_edges ids i n =
     map (\<lambda>dep. data_edge dep i) (graph_deps ids n) @ graph_control ids i (jget n ''branches'')"

definition plan_graph :: "(string \<times> json) list \<Rightarrow> string + json" where
  "plan_graph plan =
     and_then (dumped_nodes plan) (\<lambda>nodes.
       let by = dumped_by_id nodes; ids = map fst by;
           shown = List.map_filter (\<lambda>i. map_option (Pair i) (map_of by i)) (dumped_order plan nodes)
       in Inr (JObj [(''sessionUpdate'', JStr ''plan_graph''),
                     (''nodes'', JList (map (\<lambda>(i, n). graph_node ids i n) shown)),
                     (''edges'', JList (concat (map (\<lambda>(i, n). graph_edges ids i n) shown)))]))"

section \<open>Reading the client\<close>

definition text_of_block :: "json \<Rightarrow> string option" where
  "text_of_block v =
     (case v of
        JObj b \<Rightarrow> (if jget b ''type'' = JStr ''text'' then opt_str (jget b ''text'') else None)
      | _ \<Rightarrow> None)"

fun prompt_text :: "json \<Rightarrow> string" where
  "prompt_text (JStr s) = s"
| "prompt_text (JList blocks) = strip (join newline (List.map_filter text_of_block blocks))"
| "prompt_text _ = []"

definition feedback_text :: "json \<Rightarrow> string option" where
  "feedback_text v = (case v of JStr s \<Rightarrow> if strip s = [] then None else Some s | _ \<Rightarrow> None)"

text \<open>\<open>_parse_permission\<close>: a choice and the free-text feedback.\<close>

definition parse_permission :: "(json \<Rightarrow> string) \<Rightarrow> json \<Rightarrow> string \<times> string option" where
  "parse_permission str outcome =
     (case outcome of
        JObj obj \<Rightarrow>
          (let inner = jget obj ''outcome'';
               body = (case inner of JObj b \<Rightarrow> b | _ \<Rightarrow> obj);
               kind = (case inner of JObj b \<Rightarrow> jget b ''outcome'' | _ \<Rightarrow> inner);
               raw = (if truthy (jget body ''feedback'') then jget body ''feedback'' else jget obj ''feedback'')
           in if kind \<noteq> JStr ''selected'' then (''cancelled'', None)
              else (str_of str (jget body ''optionId''), feedback_text raw))
      | _ \<Rightarrow> (''cancelled'', None))"

definition tool_call_id :: "int \<Rightarrow> string" where
  "tool_call_id i = ''node-'' @ str_int i"

definition is_nested_node_event :: "event \<Rightarrow> bool" where
  "is_nested_node_event e =
     (case event_path (e_body e) of None \<Rightarrow> False | Some p \<Rightarrow> CHR ''/'' \<in> set p)"

definition as_text :: "(json \<Rightarrow> string) \<Rightarrow> json \<Rightarrow> string" where
  "as_text str v = (case v of JNull \<Rightarrow> [] | _ \<Rightarrow> str_of str v)"

definition tool_kind :: "json \<Rightarrow> string" where
  "tool_kind tool =
     (case map_of
        [(''file_read'', ''read''), (''file_write'', ''edit''), (''web_fetch'', ''fetch''),
         (''web_search'', ''search''), (''shell'', ''execute'')] (case tool of JStr t \<Rightarrow> t | _ \<Rightarrow> []) of
        Some k \<Rightarrow> k | None \<Rightarrow> ''other'')"
end
