(* ===== verification/AcpServer.thy ===== *)
theory AcpServer
  imports AcpProtocol AcpMapping
begin

text \<open>
  The ACP agent: sessions (\<open>gateways/acp/session.py\<close>), and the dispatch, the turns and the plan and
  tool gates of \<open>gateways/acp/server.py\<close>.  A turn is a machine whose inputs are the results of the
  awaits of \<open>_run_turn\<close>, in order: the next event of the task (with the state the store gives if it
  is loaded while the event is handled), the cancellation, or the client's answer to a request.
  Its outputs are the notifications and requests it sends, the orchestrator calls it starts, and
  its calls of the approval broker.  Logging is left out.
\<close>

section \<open>Sessions\<close>

record acp_session =
  ss_id :: string
  ss_tasks :: "string list"
  ss_carried :: "string option"
  ss_active :: "string option"

type_synonym registry = "(string \<times> acp_session) list"

definition compose_request :: "acp_session \<Rightarrow> string \<Rightarrow> string" where
  "compose_request ss txt =
     (case ss_carried ss of
        None \<Rightarrow> txt
      | Some c \<Rightarrow>
          if c = [] then txt
          else ''Context from the previous step:'' @ newline @ c @ newline @ newline @ ''New request: '' @ txt)"

text \<open>The argument is \<open>uuid.uuid4().hex\<close>.\<close>

definition create_session :: "string \<Rightarrow> registry \<Rightarrow> acp_session \<times> registry" where
  "create_session hex reg =
     (let ss = \<lparr>ss_id = ''sess_'' @ hex, ss_tasks = [], ss_carried = None, ss_active = None\<rparr>
      in (ss, AList.update (ss_id ss) ss reg))"

definition start_turn :: "string \<Rightarrow> string \<Rightarrow> acp_session \<Rightarrow> exec_state \<times> acp_session" where
  "start_turn tid txt ss =
     (new_state tid (compose_request ss txt) None, ss\<lparr>ss_tasks := ss_tasks ss @ [tid], ss_active := Some tid\<rparr>)"

text \<open>After a turn that ended with a stop reason; \<open>final\<close> is the stored state of its task.\<close>

definition finish_turn :: "exec_state option \<Rightarrow> acp_session \<Rightarrow> acp_session" where
  "finish_turn final ss =
     (let ss' = ss\<lparr>ss_active := None\<rparr>
      in case final of
        None \<Rightarrow> ss'
      | Some st \<Rightarrow>
          (case s_final_output st of
             None \<Rightarrow> ss'
           | Some out \<Rightarrow> if out = [] then ss' else ss'\<lparr>ss_carried := Some out\<rparr>))"

section \<open>What a turn does\<close>

datatype driver = Resume | Revise string

datatype turn_action =
    Update "(string \<times> json) list"
  | Ask "(string \<times> json) list"
  | Drive driver
  | RememberTool string
  | ResolveTool string bool

datatype turn_exc = PeerError rpc_error | TurnError string

datatype turn_phase =
    Reading
  | AtGate
  | AtApproval string string
  | TurnOver string
  | TurnFailed turn_exc

datatype turn_input =
    NextEvent event "exec_state option"
  | NextCancelled
  | ClientAnswer "rpc_error + json"

record acp_turn =
  tn_tracker :: tracker
  tn_phase :: turn_phase

record acp_env =
  ae_session :: string
  ae_task :: string
  ae_broker :: bool
  ae_str :: "json \<Rightarrow> string"

definition new_turn :: acp_turn where
  "new_turn = \<lparr>tn_tracker = new_tracker, tn_phase = Reading\<rparr>"

text \<open>Updates; \<open>None\<close> stands for the arguments of \<open>_message\<close> that are left out.\<close>

definition message_update :: "string \<Rightarrow> int option \<Rightarrow> string option \<Rightarrow> bool \<Rightarrow> turn_action" where
  "message_update txt node kind final = Update
     ([(''sessionUpdate'', JStr ''agent_message_chunk''),
       (''content'', JObj [(''type'', JStr ''text''), (''text'', JStr txt)]), (''isFinal'', JBool final)] @
      (case node of None \<Rightarrow> [] | Some i \<Rightarrow> [(''nodeId'', JInt i)]) @
      (case kind of None \<Rightarrow> [] | Some k \<Rightarrow> [(''nodeType'', JStr k)]))"

definition say :: "string \<Rightarrow> turn_action" where
  "say txt = message_update txt None None False"

definition plan_update :: "tracker \<Rightarrow> turn_action" where
  "plan_update tk = Update [(''sessionUpdate'', JStr ''plan''), (''entries'', JList (tracker_entries tk))]"

definition text_at :: "(int \<times> string) list \<Rightarrow> int \<Rightarrow> string" where
  "text_at m i = (case map_of m i of None \<Rightarrow> [] | Some t \<Rightarrow> t)"

definition json_at :: "(int \<times> json) list \<Rightarrow> int \<Rightarrow> json \<Rightarrow> json" where
  "json_at m i d = (case map_of m i of None \<Rightarrow> d | Some v \<Rightarrow> v)"

definition tool_call_update :: "tracker \<Rightarrow> int \<Rightarrow> turn_action" where
  "tool_call_update tk i = Update
     [(''sessionUpdate'', JStr ''tool_call''), (''toolCallId'', JStr (tool_call_id i)),
      (''title'', JStr (if text_at (tk_desc tk) i = [] then ''tool'' else text_at (tk_desc tk) i)),
      (''kind'', JStr (tool_kind (json_at (tk_tool tk) i JNull))), (''status'', JStr ''in_progress''),
      (''rawInput'', json_at (tk_args tk) i (JObj []))]"

text \<open>\<open>_emit_node_output\<close> and \<open>_emit_node_meta\<close>.\<close>

definition node_output :: "acp_env \<Rightarrow> tracker \<Rightarrow> exec_state option \<Rightarrow> int \<Rightarrow> node_status \<Rightarrow> turn_action list" where
  "node_output en tk found i status =
     (case (case found of None \<Rightarrow> None | Some st \<Rightarrow> map_of (s_results st) i) of
        None \<Rightarrow> []
      | Some r \<Rightarrow>
          if json_at (tk_type tk) i JNull = JStr ''tool''
          then [Update [(''sessionUpdate'', JStr ''tool_call_update''), (''toolCallId'', JStr (tool_call_id i)),
                        (''status'', JStr (if status = FAILED then ''failed'' else ''completed'')),
                        (''rawOutput'', JObj [(''output'', JStr (as_text (ae_str en) (r_output r)))])]]
          else [])"

definition node_meta :: "tracker \<Rightarrow> int \<Rightarrow> node_status \<Rightarrow> int option \<Rightarrow> pyfloat \<Rightarrow> bool \<Rightarrow> turn_action list" where
  "node_meta tk i status tier conf flagged =
     (if status \<noteq> COMPLETED \<and> status \<noteq> FAILED then []
      else [Update [(''sessionUpdate'', JStr ''node_meta''), (''nodeId'', JInt i),
                    (''nodeType'', (let k = json_at (tk_type tk) i JNull in if truthy k then k else JStr ''node'')),
                    (''tier'', json_of_option JInt tier), (''confidence'', JFloat conf), (''flagged'', JBool flagged)]])"

definition branch_arrow :: string where
  "branch_arrow = [CHR 0xE2, CHR 0x86, CHR 0x92]"

text \<open>\<open>_translate_terminal\<close>: what is sent, and the stop reason of a terminal event.\<close>

fun translate_terminal :: "event_body \<Rightarrow> turn_action list \<times> string option" where
  "translate_terminal (TaskCompleted out) =
     (case out of
        None \<Rightarrow> []
      | Some t \<Rightarrow> if t = [] then [] else [message_update t None (Some ''result'') True], Some ''end_turn'')"
| "translate_terminal (TaskFailed e as) = ([say (''Task failed: '' @ e)], Some ''end_turn'')"
| "translate_terminal (PlanFailed e as fp) =
     ([say (''Planning failed: '' @ e @
         (case fp of
            None \<Rightarrow> []
          | Some p \<Rightarrow> if p = [] then [] else newline @ ''Failed plan written to: '' @ p))], Some ''end_turn'')"
| "translate_terminal (PlanRejected r) = ([say (''Task rejected: '' @ r)], Some ''end_turn'')"
| "translate_terminal TaskCancelled = ([], Some ''cancelled'')"
| "translate_terminal _ = ([], None)"

text \<open>
  \<open>_translate\<close>: the updates, the tracker, and the stop reason; on the left, the exception of a plan
  that cannot be read, after the updates sent before it.
\<close>

definition translate ::
  "acp_env \<Rightarrow> tracker \<Rightarrow> event \<Rightarrow> exec_state option \<Rightarrow> turn_action list \<times> tracker \<times> (string + string option)"
where
  "translate en tk e found =
     (if is_nested_node_event e then ([], tk, Inr None)
      else case e_body e of
        NodeOutputChunk i t txt path \<Rightarrow>
          ([message_update txt (Some i) (Some (node_type_value t)) False], tk, Inr None)
      | PlanReady k (Some p) \<Rightarrow>
          (case load_tracker (ae_str en) (plan_dump p) of
             Inl t \<Rightarrow> ([], tk, Inl t)
           | Inr tk' \<Rightarrow>
               (case plan_graph (plan_dump p) of
                  Inl t \<Rightarrow> ([plan_update tk'], tk', Inl t)
                | Inr g \<Rightarrow> ([plan_update tk', Update (case g of JObj kvs \<Rightarrow> kvs | _ \<Rightarrow> [])], tk', Inr None)))
      | NodeStarted i t tier path \<Rightarrow>
          (let tk' = start_node i tk
           in (plan_update tk' # (if t = TOOL then [tool_call_update tk' i] else []), tk', Inr None))
      | NodeFinished i status conf flagged tier err path \<Rightarrow>
          (let tk' = finish_node i status tk
           in (plan_update tk' # node_output en tk' found i status @ node_meta tk' i status tier conf flagged, tk', Inr None))
      | BranchDecided i taken conf path \<Rightarrow>
          (case taken of
             None \<Rightarrow> []
           | Some b \<Rightarrow> if b = [] then [] else [say (branch_arrow @ '' branch: '' @ b)], tk, Inr None)
      | b \<Rightarrow> (case translate_terminal b of (acts, stop) \<Rightarrow> (acts, tk, Inr stop)))"

section \<open>The gates\<close>

definition option_json :: "string \<Rightarrow> string \<Rightarrow> string \<Rightarrow> json" where
  "option_json i name kind = JObj [(''optionId'', JStr i), (''name'', JStr name), (''kind'', JStr kind)]"

definition gate_request :: "acp_env \<Rightarrow> tracker \<Rightarrow> turn_action" where
  "gate_request en tk = Ask
     [(''sessionId'', JStr (ae_session en)), (''plan'', JObj [(''entries'', JList (tracker_entries tk))]),
      (''options'', JList [option_json ''approve'' ''Approve and run this plan'' ''allow_once'',
                         option_json ''reject'' ''Reject the plan'' ''reject_once''])]"

definition approval_question :: "acp_env \<Rightarrow> string \<Rightarrow> int \<Rightarrow> string \<Rightarrow> tool_risk \<Rightarrow> (string \<times> json) list \<Rightarrow> string \<Rightarrow> turn_action" where
  "approval_question en aid i tool risk args desc = Ask
     [(''sessionId'', JStr (ae_session en)), (''kind'', JStr ''tool_call''),
      (''toolCall'', JObj [(''approvalId'', JStr aid), (''nodeId'', JInt i), (''toolName'', JStr tool),
                         (''risk'', JStr (risk_value risk)), (''args'', JObj args), (''description'', JStr desc)]),
      (''options'', JList [option_json ''allow_once'' (''Allow '' @ tool @ '' once'') ''allow_once'',
                         option_json ''always_allow'' (''Always allow '' @ tool) ''allow_always'',
                         option_json ''deny'' ''Deny this tool call'' ''reject_once''])]"

text \<open>The end of \<open>_handle_gate\<close>: a call that goes on with the task, or a stop reason.\<close>

definition gate_outcome :: "(json \<Rightarrow> string) \<Rightarrow> json \<Rightarrow> driver + string" where
  "gate_outcome str v =
     (case parse_permission str v of
        (choice, feedback) \<Rightarrow>
          if choice = ''approve'' then Inl Resume
          else if choice = ''reject'' then
            (case feedback of Some f \<Rightarrow> Inl (Revise f) | None \<Rightarrow> Inr ''refusal'')
          else Inr ''cancelled'')"

text \<open>The end of \<open>_handle_tool_approval\<close>.\<close>

definition approval_actions :: "(json \<Rightarrow> string) \<Rightarrow> string \<Rightarrow> string \<Rightarrow> json \<Rightarrow> turn_action list" where
  "approval_actions str aid tool v =
     (let choice = fst (parse_permission str v)
      in if choice = ''always_allow'' then [RememberTool tool, ResolveTool aid True]
         else if choice = ''allow_once'' then [ResolveTool aid True]
         else [ResolveTool aid False])"

section \<open>The turn\<close>

definition on_event :: "acp_env \<Rightarrow> event \<Rightarrow> exec_state option \<Rightarrow> acp_turn \<Rightarrow> acp_turn \<times> turn_action list" where
  "on_event en e found tn =
     (if e_task e \<noteq> ae_task en then (tn\<lparr>tn_phase := TurnFailed (TurnError [])\<rparr>, [])
      else case e_body e of
        AwaitingConfirmation k \<Rightarrow> (tn\<lparr>tn_phase := AtGate\<rparr>, [gate_request en (tn_tracker tn)])
      | ToolApprovalRequested aid i tool risk args desc \<Rightarrow>
          if ae_broker en
          then (tn\<lparr>tn_phase := AtApproval aid tool\<rparr>, [approval_question en aid i tool risk args desc])
          else (tn, [])
      | _ \<Rightarrow>
          (case translate en (tn_tracker tn) e found of
             (acts, tk, Inl t) \<Rightarrow> (\<lparr>tn_tracker = tk, tn_phase = TurnFailed (TurnError t)\<rparr>, acts)
           | (acts, tk, Inr stop) \<Rightarrow>
               (\<lparr>tn_tracker = tk, tn_phase = (case stop of None \<Rightarrow> Reading | Some r \<Rightarrow> TurnOver r)\<rparr>, acts)))"

definition on_answer :: "acp_env \<Rightarrow> rpc_error + json \<Rightarrow> acp_turn \<Rightarrow> acp_turn \<times> turn_action list" where
  "on_answer en ans tn =
     (case ans of
        Inl e \<Rightarrow> (tn\<lparr>tn_phase := TurnFailed (PeerError e)\<rparr>, [])
      | Inr v \<Rightarrow>
          (case tn_phase tn of
             AtGate \<Rightarrow>
               (case gate_outcome (ae_str en) v of
                  Inl d \<Rightarrow> (tn\<lparr>tn_phase := Reading\<rparr>, [Drive d])
                | Inr r \<Rightarrow> (tn\<lparr>tn_phase := TurnOver r\<rparr>, []))
           | AtApproval aid tool \<Rightarrow> (tn\<lparr>tn_phase := Reading\<rparr>, approval_actions (ae_str en) aid tool v)
           | _ \<Rightarrow> (tn, [])))"

text \<open>One await after the other; an input that its phase does not await does not occur.\<close>

definition turn_step :: "acp_env \<Rightarrow> acp_turn \<Rightarrow> turn_input \<Rightarrow> acp_turn \<times> turn_action list" where
  "turn_step en tn inp =
     (case (tn_phase tn, inp) of
        (Reading, NextEvent e found) \<Rightarrow> on_event en e found tn
      | (Reading, NextCancelled) \<Rightarrow> (tn\<lparr>tn_phase := TurnOver ''cancelled''\<rparr>, [])
      | (AtGate, ClientAnswer ans) \<Rightarrow> on_answer en ans tn
      | (AtApproval aid tool, ClientAnswer ans) \<Rightarrow> on_answer en ans tn
      | _ \<Rightarrow> (tn, []))"

fun run_turn :: "acp_env \<Rightarrow> acp_turn \<Rightarrow> turn_input list \<Rightarrow> acp_turn \<times> turn_action list" where
  "run_turn en tn [] = (tn, [])"
| "run_turn en tn (i # is) =
     (case turn_step en tn i of
        (tn1, acts) \<Rightarrow> (case run_turn en tn1 is of (tn2, acts') \<Rightarrow> (tn2, acts @ acts')))"

text \<open>\<open>_next_event\<close>: an event that is ready wins over a cancellation; \<open>None\<close> while neither is.\<close>

definition next_input :: "subscription \<Rightarrow> bool \<Rightarrow> exec_state option \<Rightarrow> (turn_input \<times> subscription) option" where
  "next_input sub cancelled found =
     (case next_event sub of
        Some (e, sub') \<Rightarrow> Some (NextEvent e found, sub')
      | None \<Rightarrow> if cancelled then Some (NextCancelled, sub) else None)"

section \<open>Dispatch\<close>

datatype handler_exc = RpcFault rpc_error | InternalFault string

text \<open>What a request asks for: an answer at once, an error, or a turn of a session on a text.\<close>

datatype dispatched = Answer json | Fault handler_exc | StartTurn acp_session string

definition initialize_result :: json where
  "initialize_result = JObj
     [(''protocolVersion'', JInt 1),
      (''agentCapabilities'', JObj
         [(''loadSession'', JBool False),
          (''promptCapabilities'', JObj [(''image'', JBool False), (''audio'', JBool False), (''embeddedContext'', JBool False)])])]"

definition invalid :: "string \<Rightarrow> dispatched" where
  "invalid t = Fault (RpcFault (RpcError (JInt invalid_params) (JStr t) JNull))"

definition no_attribute_get :: "json \<Rightarrow> string" where
  "no_attribute_get v = apostrophe @ type_name v @ apostrophe @ '' object has no attribute '' @ apostrophe @ ''get'' @ apostrophe"

definition session_prompt :: "json \<Rightarrow> registry \<Rightarrow> dispatched" where
  "session_prompt params reg =
     (case params of
        JObj p \<Rightarrow>
          (case jget p ''sessionId'' of
             JStr sid \<Rightarrow>
               (case map_of reg sid of
                  None \<Rightarrow> invalid (''unknown session: '' @ sid)
                | Some ss \<Rightarrow>
                    (let txt = prompt_text (jget p ''prompt'')
                     in if txt = [] then invalid ''prompt must contain at least one text block'' else StartTurn ss txt))
           | _ \<Rightarrow> invalid ''sessionId is required'')
      | v \<Rightarrow> Fault (InternalFault (no_attribute_get v)))"

definition dispatch :: "(json \<Rightarrow> string) \<Rightarrow> string \<Rightarrow> json \<Rightarrow> json \<Rightarrow> registry \<Rightarrow> dispatched \<times> registry" where
  "dispatch str hex method params reg =
     (if method = JStr ''initialize'' then (Answer initialize_result, reg)
      else if method = JStr ''session/new'' then
        (case create_session hex reg of (ss, reg') \<Rightarrow> (Answer (JObj [(''sessionId'', JStr (ss_id ss))]), reg'))
      else if method = JStr ''session/prompt'' then (session_prompt params reg, reg)
      else (Fault (RpcFault (RpcError (JInt method_not_found) (JStr (''method not found: '' @ str_of str method)) JNull)), reg))"

text \<open>How a turn ends for the handler of its request: a stop reason, or the exception.\<close>

definition turn_result :: "acp_turn \<Rightarrow> (handler_exc + json) option" where
  "turn_result tn =
     (case tn_phase tn of
        TurnOver r \<Rightarrow> Some (Inr (JObj [(''stopReason'', JStr r)]))
      | TurnFailed (PeerError e) \<Rightarrow> Some (Inl (RpcFault e))
      | TurnFailed (TurnError t) \<Rightarrow> Some (Inl (InternalFault t))
      | _ \<Rightarrow> None)"

text \<open>The reply of \<open>_handle_request\<close>.\<close>

definition reply :: "json \<Rightarrow> handler_exc + json \<Rightarrow> msg" where
  "reply i r =
     (case r of
        Inr v \<Rightarrow> response i v
      | Inl (RpcFault e) \<Rightarrow> error_response i e
      | Inl (InternalFault t) \<Rightarrow>
          error_response i (RpcError (JInt internal_error) (JStr (''internal error: '' @ t)) JNull))"

section \<open>The serving loop\<close>

text \<open>
  What \<open>serve\<close> does with one line: nothing, a parse error sent back, the resolution of one of its
  own requests, a task for a request, the cancellation of a session's turn, or an exception that
  ends the loop.
\<close>

datatype served =
    Nothing
  | Sends msg
  | Settles "(int \<times> (rpc_error + json)) option"
  | Handles json json json
  | CancelsTurn string
  | LoopRaises

definition or_empty :: "json \<Rightarrow> json" where
  "or_empty v = (if truthy v then v else JObj [])"

text \<open>\<open>_session_cancel\<close>, with the sessions whose turn is running.\<close>

definition session_cancel :: "string list \<Rightarrow> json \<Rightarrow> served" where
  "session_cancel running params =
     (case params of
        JObj p \<Rightarrow>
          (case jget p ''sessionId'' of
             JStr sid \<Rightarrow> if sid \<in> set running then CancelsTurn sid else Nothing
           | _ \<Rightarrow> Nothing)
      | _ \<Rightarrow> LoopRaises)"

definition serve_message :: "string list \<Rightarrow> msg \<Rightarrow> served" where
  "serve_message running m =
     (let method = jget m ''method''; params = or_empty (jget m ''params'')
      in if method = JNull then Nothing
         else if map_of m ''id'' \<noteq> None then Handles (jget m ''id'') method params
         else if method = JStr ''session/cancel'' then session_cancel running params
         else Nothing)"

definition serve_line :: "(string \<Rightarrow> loads_result) \<Rightarrow> string list \<Rightarrow> string \<Rightarrow> connection \<Rightarrow> served \<times> connection" where
  "serve_line loads running line cn =
     (case receive loads line cn of
        (Ignored, cn') \<Rightarrow> (Nothing, cn')
      | (Answered m, cn') \<Rightarrow> (Sends m, cn')
      | (Resolves r, cn') \<Rightarrow> (Settles r, cn')
      | (Yielded m, cn') \<Rightarrow> (serve_message running m, cn')
      | (ReadRaised, cn') \<Rightarrow> (LoopRaises, cn'))"

section \<open>When the loop ends\<close>

text \<open>A response to an open request of ours whose error is a value that is true but no object.\<close>

definition malformed_error :: "connection \<Rightarrow> msg \<Rightarrow> bool" where
  "malformed_error cn m \<longleftrightarrow>
     map_of m ''method'' = None \<and> map_of m ''id'' \<noteq> None \<and>
     (\<exists>i v. int_value (jget m ''id'') = Some i \<and> map_of (cn_pending cn) i = Some False \<and>
        map_of m ''error'' = Some v \<and> truthy v \<and> (\<forall>kvs. v \<noteq> JObj kvs))"

text \<open>A \<open>session/cancel\<close> notification whose parameters are true but no object.\<close>

definition malformed_cancel :: "msg \<Rightarrow> bool" where
  "malformed_cancel m \<longleftrightarrow>
     map_of m ''method'' = Some (JStr ''session/cancel'') \<and> map_of m ''id'' = None \<and>
     truthy (jget m ''params'') \<and> (\<forall>kvs. jget m ''params'' \<noteq> JObj kvs)"

lemma peer_error_None: "peer_error v = None \<longleftrightarrow> truthy v \<and> (\<forall>kvs. v \<noteq> JObj kvs)"
  by (auto simp: peer_error_def split: json.splits)

lemma malformed_error_eq:
  "malformed_error cn m \<longleftrightarrow>
     map_of m ''method'' = None \<and> map_of m ''id'' \<noteq> None \<and>
     (\<exists>i v. int_value (jget m ''id'') = Some i \<and> map_of (cn_pending cn) i = Some False \<and>
        map_of m ''error'' = Some v \<and> peer_error v = None)"
  by (simp add: malformed_error_def peer_error_None)

lemma route_raises_iff: "(\<exists>cn'. route_response m cn = RouteRaised cn') \<longleftrightarrow> malformed_error cn m"
proof (cases "int_value (jget m ''id'')")
  case None
  then show ?thesis by (auto simp: route_response_def malformed_error_def)
next
  case (Some i)
  then show ?thesis
    by (auto simp: route_response_def malformed_error_eq Let_def split: option.splits)
qed

lemma session_cancel_raises: "session_cancel running params = LoopRaises \<longleftrightarrow> (\<forall>kvs. params \<noteq> JObj kvs)"
  by (auto simp: session_cancel_def split: json.splits)

lemma serve_message_raises: "serve_message running m = LoopRaises \<longleftrightarrow> malformed_cancel m"
proof -
  have "jget m ''method'' = JStr ''session/cancel'' \<longleftrightarrow> map_of m ''method'' = Some (JStr ''session/cancel'')"
    by (simp add: jget_def split: option.split)
  moreover have "(\<forall>kvs. or_empty (jget m ''params'') \<noteq> JObj kvs) \<longleftrightarrow>
      truthy (jget m ''params'') \<and> (\<forall>kvs. jget m ''params'' \<noteq> JObj kvs)"
    by (simp add: or_empty_def)
  ultimately show ?thesis
    by (auto simp: serve_message_def malformed_cancel_def Let_def session_cancel_raises)
qed

lemma receive_object:
  assumes "strip_bytes line \<noteq> []" and "loads (strip_bytes line) = Loaded (JObj m)"
  shows "receive loads line cn =
    (case route_response m cn of
       NotRouted \<Rightarrow> (Yielded m, cn)
     | Routed cn' r \<Rightarrow> (Resolves r, cn')
     | RouteRaised cn' \<Rightarrow> (ReadRaised, cn'))"
  using assms by (simp add: receive_def Let_def)


lemma requests_reach_a_handler:
  assumes "strip_bytes line \<noteq> []" and "loads (strip_bytes line) = Loaded (JObj m)"
    and "map_of m ''id'' = Some i" and "map_of m ''method'' = Some method" and "method \<noteq> JNull"
  shows "serve_line loads running line cn = (Handles i method (or_empty (jget m ''params'')), cn)"
  using assms by (simp add: serve_line_def receive_object route_response_def serve_message_def jget_def Let_def)

end
