(* ===== verification/AcpTurn.thy ===== *)
theory AcpTurn
  imports AcpServer StoredTrace
begin

text \<open>
  Properties of an ACP turn: what it may start and allow, and that it never waits for an orchestrator
  call that has ended.  The second part composes the turn with the orchestrator's trace.
\<close>

section \<open>Every permission was asked for\<close>

lemma run_turn_snoc:
  "run_turn en tn (is @ [i]) =
     (case run_turn en tn is of (tn1, acts) \<Rightarrow>
        (case turn_step en tn1 i of (tn2, acts') \<Rightarrow> (tn2, acts @ acts')))"
  by (induction "is" arbitrary: tn) (auto split: prod.splits)

text \<open>The last request in the inputs that no client answer has followed; \<open>P\<close> says what it asks.\<close>

definition open_request_for :: "acp_env \<Rightarrow> (event_body \<Rightarrow> bool) \<Rightarrow> turn_input list \<Rightarrow> bool" where
  "open_request_for en P is \<longleftrightarrow>
     (\<exists>pre e st mid. is = pre @ NextEvent e st # mid \<and> (\<forall>a. ClientAnswer a \<notin> set mid) \<and>
        e_task e = ae_task en \<and> P (e_body e))"

definition asks_tool :: "string \<Rightarrow> string \<Rightarrow> event_body \<Rightarrow> bool" where
  "asks_tool aid tool b \<longleftrightarrow> (\<exists>k risk args desc. b = ToolApprovalRequested aid k tool risk args desc)"

definition asks_plan :: "event_body \<Rightarrow> bool" where
  "asks_plan b \<longleftrightarrow> (\<exists>k. b = AwaitingConfirmation k)"

text \<open>The client answered \<open>v\<close> to the request, which was open.\<close>

definition answered :: "acp_env \<Rightarrow> (event_body \<Rightarrow> bool) \<Rightarrow> (string \<times> string option \<Rightarrow> bool) \<Rightarrow> turn_input list \<Rightarrow> bool" where
  "answered en P Q is \<longleftrightarrow>
     (\<exists>pre v post. is = pre @ ClientAnswer (Inr v) # post \<and> open_request_for en P pre \<and> Q (parse_permission (ae_str en) v))"

lemma open_request_snoc:
  assumes "open_request_for en P is" and "\<And>a. i \<noteq> ClientAnswer a"
  shows "open_request_for en P (is @ [i])"
proof -
  obtain pre e st mid where "is = pre @ NextEvent e st # mid" "\<forall>a. ClientAnswer a \<notin> set mid"
    "e_task e = ae_task en" "P (e_body e)"
    using assms(1) unfolding open_request_for_def by blast
  with assms(2) show ?thesis
    unfolding open_request_for_def
    by (intro exI [of _ pre] exI [of _ e] exI [of _ st] exI [of _ "mid @ [i]"]) (auto simp: eq_commute [of i])
qed

lemma open_request_new:
  "e_task e = ae_task en \<Longrightarrow> P (e_body e) \<Longrightarrow> open_request_for en P (is @ [NextEvent e st])"
  unfolding open_request_for_def by (intro exI [of _ "is"] exI [of _ e] exI [of _ st] exI [of _ "[]"]) simp

lemma answered_snoc:
  assumes "answered en P Q is" shows "answered en P Q (is @ [i])"
proof -
  obtain pre v post where "is = pre @ ClientAnswer (Inr v) # post" "open_request_for en P pre"
    "Q (parse_permission (ae_str en) v)"
    using assms unfolding answered_def by blast
  then show ?thesis
    unfolding answered_def by (intro exI [of _ pre] exI [of _ v] exI [of _ "post @ [i]"]) simp
qed

lemma answered_new:
  "open_request_for en P is \<Longrightarrow> Q (parse_permission (ae_str en) v) \<Longrightarrow> answered en P Q (is @ [ClientAnswer (Inr v)])"
  unfolding answered_def by (intro exI [of _ "is"] exI [of _ v] exI [of _ "[]"]) simp

text \<open>What an action needs to have happened.\<close>

definition permitted :: "acp_env \<Rightarrow> turn_input list \<Rightarrow> turn_action \<Rightarrow> bool" where
  "permitted en is act \<longleftrightarrow>
     (case act of
        Drive Resume \<Rightarrow> answered en asks_plan (\<lambda>(choice, _). choice = ''approve'') is
      | Drive (Revise f) \<Rightarrow>
          strip f \<noteq> [] \<and> answered en asks_plan (\<lambda>(choice, feedback). choice = ''reject'' \<and> feedback = Some f) is
      | RememberTool tool \<Rightarrow>
          (\<exists>aid. answered en (asks_tool aid tool) (\<lambda>(choice, _). choice = ''always_allow'') is)
      | ResolveTool aid approved \<Rightarrow>
          approved \<longrightarrow> (\<exists>tool. answered en (asks_tool aid tool)
                          (\<lambda>(choice, _). choice = ''allow_once'' \<or> choice = ''always_allow'') is)
      | _ \<Rightarrow> True)"

lemma permitted_snoc:
  assumes "permitted en is act" shows "permitted en (is @ [i]) act"
proof (cases act)
  case (Drive d)
  with assms show ?thesis by (cases d) (simp_all add: permitted_def answered_snoc)
next
  case (RememberTool tool)
  with assms show ?thesis by (simp add: permitted_def) (blast intro: answered_snoc)
next
  case (ResolveTool aid approved)
  with assms show ?thesis by (simp add: permitted_def) (blast intro: answered_snoc)
qed (simp_all add: permitted_def)

text \<open>Updates and requests need nothing.\<close>

definition harmless :: "turn_action \<Rightarrow> bool" where
  "harmless act \<longleftrightarrow> (\<exists>u. act = Update u) \<or> (\<exists>u. act = Ask u)"

lemma harmless_permitted: "harmless act \<Longrightarrow> permitted en is act"
  unfolding harmless_def by (elim disjE exE) (simp_all add: permitted_def)

lemma harmless_simps [simp]:
  "harmless (Update u)" "harmless (Ask u)" "harmless (say t)" "harmless (message_update t n k f)"
  "harmless (plan_update tk)" "harmless (tool_call_update tk i)" "harmless (gate_request en tk)"
  "harmless (approval_question en aid i tool risk args desc)"
  by (simp_all add: harmless_def say_def message_update_def plan_update_def tool_call_update_def
      gate_request_def approval_question_def)

lemma translate_terminal_harmless: "list_all harmless (fst (translate_terminal b))"
  by (cases b rule: translate_terminal.cases) (simp_all split: option.split)

lemma node_output_harmless:
  "list_all harmless (node_output en tk found i status)"
  "list_all harmless (node_meta tk i status tier conf flagged)"
  by (simp_all add: node_output_def node_meta_def split: option.split)

lemma translate_harmless: "list_all harmless (fst (translate en tk e found))"
proof (cases "is_nested_node_event e")
  case True
  then show ?thesis by (simp add: translate_def)
next
  case False
  show ?thesis
  proof (cases "e_body e")
    case (PlanReady k p)
    with False show ?thesis by (cases p) (simp_all add: translate_def split: sum.split)
  qed (use False translate_terminal_harmless [of "e_body e"] in
      \<open>simp_all add: translate_def Let_def node_output_harmless split: option.split prod.split\<close>)
qed

text \<open>The invariant of a turn: at a gate, the request it answers is the last one and is open.\<close>

definition awaits_request :: "acp_env \<Rightarrow> turn_input list \<Rightarrow> turn_phase \<Rightarrow> bool" where
  "awaits_request en is ph \<longleftrightarrow>
     (case ph of
        AtGate \<Rightarrow> open_request_for en asks_plan is
      | AtApproval aid tool \<Rightarrow> open_request_for en (asks_tool aid tool) is
      | _ \<Rightarrow> True)"

lemma on_event_awaits:
  assumes "on_event en e found tn = (tn', acts)" and "tn_phase tn = Reading"
  shows "awaits_request en (is @ [NextEvent e found]) (tn_phase tn')" and "list_all harmless acts"
proof -
  obtain as tk r where t: "translate en (tn_tracker tn) e found = (as, tk, r)" by (metis prod_cases3)
  have h: "list_all harmless as" using translate_harmless [of en "tn_tracker tn" e found] t by simp
  consider (other) "e_task e \<noteq> ae_task en"
    | (gate) k where "e_task e = ae_task en" "e_body e = AwaitingConfirmation k"
    | (tool) aid i tool risk args desc where "e_task e = ae_task en"
        "e_body e = ToolApprovalRequested aid i tool risk args desc"
    | (rest) "e_task e = ae_task en" "\<forall>k. e_body e \<noteq> AwaitingConfirmation k"
        "\<forall>aid i tool risk args desc. e_body e \<noteq> ToolApprovalRequested aid i tool risk args desc"
    by blast
  then have "awaits_request en (is @ [NextEvent e found]) (tn_phase tn') \<and> list_all harmless acts"
  proof cases
    case other
    with assms show ?thesis by (auto simp: on_event_def awaits_request_def)
  next
    case gate
    with assms open_request_new [of e en asks_plan "is" found] show ?thesis
      by (auto simp: on_event_def awaits_request_def asks_plan_def)
  next
    case tool
    with assms open_request_new [of e en "asks_tool aid tool" "is" found] show ?thesis
      by (auto simp: on_event_def awaits_request_def asks_tool_def split: if_splits)
  next
    case rest
    have "(tn', acts) = (case translate en (tn_tracker tn) e found of
             (acts, tk, Inl t) \<Rightarrow> (\<lparr>tn_tracker = tk, tn_phase = TurnFailed (TurnError t)\<rparr>, acts)
           | (acts, tk, Inr stop) \<Rightarrow>
               (\<lparr>tn_tracker = tk, tn_phase = (case stop of None \<Rightarrow> Reading | Some r \<Rightarrow> TurnOver r)\<rparr>, acts))"
      using assms(1) rest by (cases "e_body e") (simp_all add: on_event_def)
    with t h show ?thesis by (auto simp: awaits_request_def split: sum.splits option.splits)
  qed
  then show "awaits_request en (is @ [NextEvent e found]) (tn_phase tn')" and "list_all harmless acts" by auto
qed

lemma parse_permission_feedback:
  "parse_permission str v = (c, Some f) \<Longrightarrow> strip f \<noteq> []"
  by (auto simp: parse_permission_def feedback_text_def Let_def split: json.splits if_splits)

lemma gate_outcome_permitted:
  assumes "open_request_for en asks_plan is" and "gate_outcome (ae_str en) v = Inl d"
  shows "permitted en (is @ [ClientAnswer (Inr v)]) (Drive d)"
proof -
  obtain c f where p: "parse_permission (ae_str en) v = (c, f)" by fastforce
  note new = answered_new [OF assms(1), of _ v]
  show ?thesis
  proof (cases d)
    case Resume
    with assms(2) p have "c = ''approve''" by (simp add: gate_outcome_def split: if_splits option.splits)
    with Resume new p show ?thesis by (simp add: permitted_def)
  next
    case (Revise g)
    with assms(2) p have "c = ''reject'' \<and> f = Some g"
      by (simp add: gate_outcome_def split: if_splits option.splits)
    with Revise new p parse_permission_feedback [of "ae_str en" v c g] show ?thesis by (simp add: permitted_def)
  qed
qed

lemma approval_actions_permitted:
  assumes "open_request_for en (asks_tool aid tool) is"
  shows "list_all (permitted en (is @ [ClientAnswer (Inr v)])) (approval_actions (ae_str en) aid tool v)"
proof -
  obtain c f where p: "parse_permission (ae_str en) v = (c, f)" by fastforce
  have "permitted en (is @ [ClientAnswer (Inr v)]) (ResolveTool aid True)"
    if "c = ''allow_once'' \<or> c = ''always_allow''"
    unfolding permitted_def turn_action.case by (intro impI exI [of _ tool] answered_new [OF assms]) (use p that in simp)
  moreover have "permitted en (is @ [ClientAnswer (Inr v)]) (RememberTool tool)" if "c = ''always_allow''"
    unfolding permitted_def turn_action.case by (intro exI [of _ aid] answered_new [OF assms]) (use p that in simp)
  moreover have "permitted en (is @ [ClientAnswer (Inr v)]) (ResolveTool aid False)" by (simp add: permitted_def)
  ultimately show ?thesis using p by (simp add: approval_actions_def)
qed

lemma on_answer_awaits:
  assumes "on_answer en ans tn = (tn', acts)" and "awaits_request en is (tn_phase tn)"
    and "tn_phase tn = AtGate \<or> (\<exists>aid tool. tn_phase tn = AtApproval aid tool)"
  shows "awaits_request en is2 (tn_phase tn')"
    and "list_all (permitted en (is @ [ClientAnswer ans])) acts"
proof -
  have "awaits_request en is2 (tn_phase tn') \<and> list_all (permitted en (is @ [ClientAnswer ans])) acts"
  proof (cases ans)
    case (Inl e)
    with assms(1) show ?thesis by (auto simp: on_answer_def awaits_request_def)
  next
    case (Inr v)
    show ?thesis
    proof (cases "tn_phase tn")
      case AtGate
      with assms(2) have "open_request_for en asks_plan is" by (simp add: awaits_request_def)
      note ok = gate_outcome_permitted [OF this]
      from AtGate assms(1) Inr ok show ?thesis
        by (auto simp: on_answer_def awaits_request_def split: sum.splits)
    next
      case (AtApproval aid tool)
      with assms(2) have "open_request_for en (asks_tool aid tool) is" by (simp add: awaits_request_def)
      from approval_actions_permitted [OF this, of v] AtApproval assms(1) Inr show ?thesis
        by (auto simp: on_answer_def awaits_request_def)
    qed (use assms(3) in auto)
  qed
  then show "awaits_request en is2 (tn_phase tn')"
    and "list_all (permitted en (is @ [ClientAnswer ans])) acts" by auto
qed

lemma turn_step_awaits:
  assumes "turn_step en tn i = (tn', acts)" and "awaits_request en is (tn_phase tn)"
  shows "awaits_request en (is @ [i]) (tn_phase tn') \<and> list_all (permitted en (is @ [i])) acts"
proof -
  consider (event) e found where "tn_phase tn = Reading" "i = NextEvent e found"
    | (cancel) "tn_phase tn = Reading" "i = NextCancelled"
    | (gate) ans where "tn_phase tn = AtGate" "i = ClientAnswer ans"
    | (tool) ans aid tool where "tn_phase tn = AtApproval aid tool" "i = ClientAnswer ans"
    | (ignored) "turn_step en tn i = (tn, [])" "tn_phase tn = AtGate \<or> (\<exists>aid tool. tn_phase tn = AtApproval aid tool)"
        "\<forall>a. i \<noteq> ClientAnswer a"
    | (idle) "turn_step en tn i = (tn, [])" "tn_phase tn \<noteq> AtGate" "\<forall>aid tool. tn_phase tn \<noteq> AtApproval aid tool"
    by (cases "tn_phase tn"; cases i) (auto simp: turn_step_def)
  then show ?thesis
  proof cases
    case event
    then have "on_event en e found tn = (tn', acts)" using assms(1) by (simp add: turn_step_def)
    from on_event_awaits(1) [OF this event(1), of "is"] on_event_awaits(2) [OF this event(1)] event(2) show ?thesis
      by (auto simp: list_all_iff harmless_permitted)
  next
    case cancel
    with assms(1) show ?thesis by (auto simp: turn_step_def awaits_request_def)
  next
    case gate
    then have a: "on_answer en ans tn = (tn', acts)" using assms(1) by (simp add: turn_step_def)
    have ph: "tn_phase tn = AtGate \<or> (\<exists>aid tool. tn_phase tn = AtApproval aid tool)" using gate(1) by blast
    from on_answer_awaits(1) [OF a assms(2) ph, of "is @ [i]"] on_answer_awaits(2) [OF a assms(2) ph] gate(2) show ?thesis by blast
  next
    case tool
    then have a: "on_answer en ans tn = (tn', acts)" using assms(1) by (simp add: turn_step_def)
    have ph: "tn_phase tn = AtGate \<or> (\<exists>aid tool. tn_phase tn = AtApproval aid tool)" using tool(1) by blast
    from on_answer_awaits(1) [OF a assms(2) ph, of "is @ [i]"] on_answer_awaits(2) [OF a assms(2) ph] tool(2) show ?thesis by blast
  next
    case ignored
    with assms open_request_snoc [where i = i] show ?thesis by (auto simp: awaits_request_def)
  next
    case idle
    with assms(1) show ?thesis by (auto simp: awaits_request_def split: turn_phase.split)
  qed
qed

lemma run_turn_awaits:
  "awaits_request en is (tn_phase (fst (run_turn en new_turn is))) \<and>
   list_all (permitted en is) (snd (run_turn en new_turn is))"
proof (induction "is" rule: rev_induct)
  case Nil
  show ?case by (simp add: new_turn_def awaits_request_def)
next
  case (snoc i "is")
  obtain tn1 acts1 where r: "run_turn en new_turn is = (tn1, acts1)" by fastforce
  obtain tn2 acts2 where s: "turn_step en tn1 i = (tn2, acts2)" by fastforce
  have "list_all (permitted en (is @ [i])) acts1"
    using snoc r permitted_snoc [of en "is" _ i] by (auto simp: list_all_iff)
  with turn_step_awaits [OF s, of "is"] snoc r s show ?case by (simp add: run_turn_snoc)
qed

text \<open>C25: In an ACP turn the task is resumed only after the client approved the plan it was asked about,
  revised only after the client rejected that plan with feedback that is not blank, a tool call is
  approved only after the client allowed that very call, and a tool is remembered only after the client
  chose to allow it always; whatever events, answers and cancellations come, in whatever order.\<close>

theorem approvals_come_from_the_client:
  "list_all (permitted en is) (snd (run_turn en new_turn is))"
  using run_turn_awaits by blast

section \<open>With the orchestrator\<close>

text \<open>
  A conversation over the events of a call: each event is read by the loop with what the store holds
  then, and a question it raises is answered by the client.
\<close>

fun converse ::
  "acp_env \<Rightarrow> (event \<Rightarrow> rpc_error + json) \<Rightarrow> acp_turn \<Rightarrow> (event \<times> exec_state option) list \<Rightarrow> acp_turn \<times> turn_action list"
where
  "converse en client tn [] = (tn, [])"
| "converse en client tn ((e, found) # es) =
     (case run_turn en tn [NextEvent e found, ClientAnswer (client e)] of
        (tn1, acts) \<Rightarrow> (case converse en client tn1 es of (tn2, acts') \<Rightarrow> (tn2, acts @ acts')))"

definition turn_ended :: "acp_turn \<Rightarrow> bool" where
  "turn_ended tn \<longleftrightarrow> (\<exists>r. tn_phase tn = TurnOver r) \<or> (\<exists>x. tn_phase tn = TurnFailed x)"

lemma settled_stays: "turn_ended tn \<Longrightarrow> run_turn en tn is = (tn, [])"
  by (induction "is") (auto simp: turn_ended_def turn_step_def)

lemma settled_converse: "turn_ended tn \<Longrightarrow> converse en client tn es = (tn, [])"
  by (induction es rule: list.induct) (auto simp: settled_stays simp del: run_turn.simps)

lemma answer_settles_or_reads:
  assumes "tn_phase tn = Reading \<or> turn_ended tn"
    and "run_turn en tn [NextEvent e found, ClientAnswer a] = (tn', acts)"
  shows "tn_phase tn' = Reading \<or> turn_ended tn'"
proof (cases "turn_ended tn")
  case True
  with assms(2) settled_stays [OF True] show ?thesis by (simp del: run_turn.simps)
next
  case False
  with assms(1) have reading: "tn_phase tn = Reading" by simp
  obtain tn1 acts1 where one: "on_event en e found tn = (tn1, acts1)" by fastforce
  have two: "turn_step en tn1 (ClientAnswer a) = (tn', snd (turn_step en tn1 (ClientAnswer a)))"
    using assms(2) reading one by (auto simp: turn_step_def split: prod.splits)
  show ?thesis
  proof (cases "tn_phase tn1")
    case AtGate
    with two show ?thesis
      by (cases a) (auto simp: turn_step_def on_answer_def turn_ended_def split: sum.splits)
  next
    case (AtApproval aid tool)
    with two show ?thesis
      by (cases a) (auto simp: turn_step_def on_answer_def turn_ended_def split: sum.splits)
  qed (use two in \<open>auto simp: turn_step_def turn_ended_def\<close>)
qed

text \<open>A terminal event settles the turn, or drives the task on.\<close>

lemma terminal_settles:
  assumes "is_terminal_body (e_body e)" and "tn_phase tn = Reading"
    and "run_turn en tn [NextEvent e found, ClientAnswer a] = (tn', acts)"
  shows "turn_ended tn' \<or> (\<exists>d. Drive d \<in> set acts)"
proof (cases "e_task e = ae_task en")
  case False
  with assms show ?thesis by (auto simp: turn_step_def on_event_def turn_ended_def)
next
  case True
  show ?thesis
  proof (cases "\<exists>k. e_body e = AwaitingConfirmation k")
    case gate: True
    then show ?thesis
      using assms True
      by (cases a) (auto simp: turn_step_def on_event_def on_answer_def turn_ended_def all_conj_distrib split: sum.splits)
  next
    case False
    have "\<exists>r. translate_terminal (e_body e) = (fst (translate_terminal (e_body e)), Some r)"
      using assms(1) False by (cases "e_body e") auto
    then obtain out r where t: "translate_terminal (e_body e) = (out, Some r)" by blast
    have "\<not> is_nested_node_event e"
      using assms(1) by (cases "e_body e") (auto simp: is_nested_node_event_def)
    then have "on_event en e found tn = (\<lparr>tn_tracker = tn_tracker tn, tn_phase = TurnOver r\<rparr>, out)"
      using assms(1) True False t by (cases "e_body e") (auto simp: on_event_def translate_def)
    with assms(2,3) show ?thesis by (auto simp: turn_step_def turn_ended_def)
  qed
qed

lemma converse_settles:
  assumes "converse en client tn es = (tn', acts)" and "tn_phase tn = Reading \<or> turn_ended tn"
    and "e \<in> fst ` set es" and "is_terminal_body (e_body e)"
  shows "turn_ended tn' \<or> (\<exists>d. Drive d \<in> set acts)"
  using assms
proof (induction es arbitrary: tn acts)
  case (Cons x es)
  obtain e1 found where x: "x = (e1, found)" by fastforce
  obtain tn1 acts1 where one: "run_turn en tn [NextEvent e1 found, ClientAnswer (client e1)] = (tn1, acts1)"
    by fastforce
  obtain acts2 where rest: "converse en client tn1 es = (tn', acts2)" "acts = acts1 @ acts2"
    using Cons.prems(1) x one by (auto split: prod.splits)
  note next_phase = answer_settles_or_reads [OF Cons.prems(2) one]
  show ?case
  proof (cases "e \<in> fst ` set es")
    case True
    from Cons.IH [OF rest(1) next_phase True Cons.prems(4)] rest(2) show ?thesis by auto
  next
    case False
    with Cons.prems(3) x have "e1 = e" by auto
    have "turn_ended tn1 \<or> (\<exists>d. Drive d \<in> set acts1)"
    proof (cases "turn_ended tn")
      case True
      with one settled_stays [OF True] show ?thesis by (simp del: run_turn.simps)
    next
      case False
      with terminal_settles [OF _ _ one] Cons.prems(2,4) \<open>e1 = e\<close> show ?thesis by blast
    qed
    with rest settled_converse [of tn1 en client es] show ?thesis by auto
  qed
qed simp

lemma told_ended:
  "told r tr \<Longrightarrow> ended_in r st \<Longrightarrow> \<exists>b \<in> set (published tr). is_terminal_body b"
  by (auto simp: told_def ended_in_def told_once_def dest!: filter_eq_ConsD)

text \<open>A turn does not wait on an orchestrator call that has ended: once the turn has read the events
  the call published, whatever the client answered in between and whatever the store held, either the
  turn is over or it has started another call.\<close>

theorem no_turn_waits_on_an_ended_call:
  assumes "task_executor (oe_execute en)" and "oe_bus en" and "oc_trace oc = []"
    and "(r, oc') \<in> {run_task en tid oc, revise_task en tid feedback oc, resume_task en tid oc}" and "ended_in r st"
    and "map (e_body \<circ> fst) es = published (oc_trace oc')" and "tn_phase tn = Reading"
    and "converse aen client tn es = (tn', acts)"
  shows "turn_ended tn' \<or> (\<exists>d. Drive d \<in> set acts)"
proof -
  obtain b where "b \<in> set (published (oc_trace oc'))" "is_terminal_body b"
    using told_ended [OF calls_told [OF assms(1-4)] assms(5)] by blast
  then have "\<exists>e \<in> fst ` set es. is_terminal_body (e_body e)"
    unfolding assms(6) [symmetric] by auto
  with converse_settles [OF assms(8)] assms(7) show ?thesis by blast
qed

text \<open>While a run of a new task still has something to publish or to save, a turn that handles an end
  of one of its tool nodes sends no \<open>tool_call_update\<close> for it: it looks the output up in the store, and
  the run saves the results of its nodes at its very end only.\<close>

theorem tool_output_waits_for_the_save:
  assumes "run_task en tid oc = (r, oc')" and "oc_trace oc = []" and "ended_in r st"
    and "oe_load en tid (oc_world oc) = Some (fst (start_turn tid txt ss))"
    and "oc_trace oc' = pre @ e # post"
  shows "node_output aen tk (Some (stored_at (fst (start_turn tid txt ss)) pre)) i status = []"
proof -
  have s: "saved_until (fst (start_turn tid txt ss)) st (stored (oc_trace oc'))"
    by (rule run_stored [OF assms(1-4)])
  from stored_at_results [OF s assms(5) run_saves_last [OF assms(1,3)]]
  have "s_results (stored_at (fst (start_turn tid txt ss)) pre) = []"
    by (simp add: start_turn_def new_state_def)
  then show ?thesis by (simp add: node_output_def)
qed

section \<open>On the sample orchestrator\<close>

definition sample_acp :: acp_env where
  "sample_acp = \<lparr>ae_session = ''sess_1'', ae_task = ''t'', ae_broker = False, ae_str = sample_str\<rparr>"

definition sample_session :: acp_session where
  "sample_session = \<lparr>ss_id = ''sess_1'', ss_tasks = [], ss_carried = None, ss_active = None\<rparr>"

theorem no_turn_waits_on_an_ended_call_witness:
  "\<exists>st oc' tn' acts.
     resume_task sample_orch ''t'' gated_world = (TaskEnded st, oc') \<and>
     converse sample_acp (\<lambda>e. Inr JNull) new_turn
       (map (\<lambda>b. (Event ''t'' b, None)) (published (oc_trace oc'))) = (tn', acts) \<and>
     (turn_ended tn' \<or> (\<exists>d. Drive d \<in> set acts))"
proof -
  obtain r oc' where r: "resume_task sample_orch ''t'' gated_world = (r, oc')" by (metis surj_pair)
  then obtain st where st: "r = TaskEnded st" using sample_resumed by (cases r) auto
  let ?es = "map (\<lambda>b. (Event ''t'' b, None)) (published (oc_trace oc'))"
  obtain tn' acts where c: "converse sample_acp (\<lambda>e. Inr JNull) new_turn ?es = (tn', acts)" by fastforce
  have "turn_ended tn' \<or> (\<exists>d. Drive d \<in> set acts)"
  proof (rule no_turn_waits_on_an_ended_call [OF _ _ _ _ _ _ _ c])
    show "task_executor (oe_execute sample_orch)" by (simp add: sample_orch_def driven.task_executor_axioms)
    show "oe_bus sample_orch" and "oc_trace gated_world = []" by (simp_all add: sample_orch_def gated_world_def)
    show "(r, oc') \<in> {run_task sample_orch ''t'' gated_world, revise_task sample_orch ''t'' [] gated_world,
        resume_task sample_orch ''t'' gated_world}" using r by simp
    show "ended_in r st" by (simp add: ended_in_def st)
    show "map (e_body \<circ> fst) ?es = published (oc_trace oc')" by (simp add: comp_def)
    show "tn_phase new_turn = Reading" by (simp add: new_turn_def)
  qed
  with r st c show ?thesis by blast
qed

theorem tool_output_waits_for_the_save_witness:
  "\<exists>r st oc' e post.
     run_task sample_orch ''t'' \<lparr>oc_world = fresh_task_world, oc_trace = []\<rparr> = (r, oc') \<and> ended_in r st \<and>
     oc_trace oc' = e # post \<and>
     node_output sample_acp new_tracker (Some (stored_at (fst (start_turn ''t'' ''q'' sample_session)) [])) 1 COMPLETED = []"
proof -
  let ?oc = "\<lparr>oc_world = fresh_task_world, oc_trace = []\<rparr>"
  let ?st = "fst (start_turn ''t'' ''q'' sample_session)"
  have fresh: "?st = new_state ''t'' ''q'' None"
    by (simp add: start_turn_def compose_request_def sample_session_def)
  have load: "oe_load sample_orch ''t'' (oc_world ?oc) = Some ?st"
    by (simp add: fresh sample_orch_def mem_load_def fresh_task_world_def)
  obtain r oc' where r: "run_task sample_orch ''t'' ?oc = (r, oc')" by (metis surj_pair)
  have told: "told r (oc_trace oc')"
    using calls_told [of sample_orch ?oc r oc' "''t''" "[]"] r
    by (simp add: sample_orch_def driven.task_executor_axioms)
  obtain st where st: "ended_in r st" using known_task_ends [OF r] load by auto
  from told st obtain e post where tr: "oc_trace oc' = e # post"
    by (cases "oc_trace oc'") (auto simp: told_def told_once_def ended_in_def)
  have "node_output sample_acp new_tracker (Some (stored_at ?st [])) 1 COMPLETED = []"
    by (rule tool_output_waits_for_the_save [OF r _ st load])
      (simp_all add: tr)
  with r st tr show ?thesis by blast
qed

end
