(* ===== verification/IpAddress.thy ===== *)
theory IpAddress
  imports Prelude "HOL-Library.Word"
begin

text \<open>
  What the web tools use of the standard library's \<open>ipaddress\<close> and \<open>urllib.parse\<close>: the parsing
  of addresses and URLs, and the ranges that are not globally reachable.  An address is a machine word
  of its width.
\<close>

section \<open>Splitting texts\<close>

text \<open>\<open>s.split(sep)\<close> and \<open>s.partition(sep)\<close> for a separator of one character.\<close>

fun split_on :: "char \<Rightarrow> string \<Rightarrow> string list" where
  "split_on sep [] = [[]]"
| "split_on sep (c # cs) =
     (if c = sep then [] # split_on sep cs
      else case split_on sep cs of [] \<Rightarrow> [[c]] | s # ss \<Rightarrow> (c # s) # ss)"

definition before :: "char \<Rightarrow> string \<Rightarrow> string" where
  "before sep s = takeWhile (\<lambda>c. c \<noteq> sep) s"

definition after :: "char \<Rightarrow> string \<Rightarrow> string" where
  "after sep s = drop 1 (dropWhile (\<lambda>c. c \<noteq> sep) s)"

text \<open>The third part of \<open>s.rpartition(sep)\<close>.\<close>

definition after_last :: "char \<Rightarrow> string \<Rightarrow> string" where
  "after_last sep s = rev (before sep (rev s))"

lemma split_on_ne [simp]: "split_on sep s \<noteq> []"
  by (induction s) (auto split: list.split)

section \<open>Addresses\<close>

datatype ip = IPv4 "32 word" | IPv6 "128 word"

definition digit_value :: "char \<Rightarrow> nat option" where
  "digit_value c = (let n = of_char c in if 48 \<le> n \<and> n \<le> 57 then Some (n - 48) else None)"

definition hex_value :: "char \<Rightarrow> nat option" where
  "hex_value c =
     (let n = of_char c
      in if 48 \<le> n \<and> n \<le> 57 then Some (n - 48)
         else if 65 \<le> n \<and> n \<le> 70 then Some (n - 55)
         else if 97 \<le> n \<and> n \<le> 102 then Some (n - 87) else None)"

fun digits_value :: "(char \<Rightarrow> nat option) \<Rightarrow> nat \<Rightarrow> nat \<Rightarrow> string \<Rightarrow> nat option" where
  "digits_value value_of base acc [] = Some acc"
| "digits_value value_of base acc (c # cs) =
     (case value_of c of None \<Rightarrow> None | Some v \<Rightarrow> digits_value value_of base (base * acc + v) cs)"

definition parse_octet :: "string \<Rightarrow> nat option" where
  "parse_octet s =
     (if s = [] \<or> 3 < length s \<or> (hd s = CHR ''0'' \<and> s \<noteq> ''0'') then None
      else case digits_value digit_value 10 0 s of
             None \<Rightarrow> None
           | Some n \<Rightarrow> if 255 < n then None else Some n)"

text \<open>\<open>int.from_bytes(bs, 'big')\<close> on numbers below the base.\<close>

definition big_endian :: "nat \<Rightarrow> nat list \<Rightarrow> nat" where
  "big_endian base ns = foldl (\<lambda>acc n. base * acc + n) 0 ns"

fun all_some :: "'a option list \<Rightarrow> 'a list option" where
  "all_some [] = Some []"
| "all_some (None # xs) = None"
| "all_some (Some x # xs) = map_option ((#) x) (all_some xs)"

definition parse_ipv4 :: "string \<Rightarrow> 32 word option" where
  "parse_ipv4 s =
     (let os = split_on (CHR ''.'') s
      in if length os \<noteq> 4 then None
         else map_option (\<lambda>ns. of_nat (big_endian 256 ns)) (all_some (map parse_octet os)))"

definition parse_hextet :: "string \<Rightarrow> nat option" where
  "parse_hextet s = (if s = [] \<or> 4 < length s then None else digits_value hex_value 16 0 s)"

text \<open>
  The groups of an IPv6 address; an IPv4 suffix stands for its last two.  \<open>::\<close> leaves an empty inner
  group, and stands for the zeros that fill eight groups, at least one.
\<close>

definition ipv6_groups :: "string \<Rightarrow> nat option list option" where
  "ipv6_groups s =
     (let ps = split_on (CHR '':'') s
      in if CHR ''.'' \<in> set (last ps)
         then map_option (\<lambda>a. map parse_hextet (butlast ps) @ [Some (unat a div 65536), Some (unat a mod 65536)])
                (parse_ipv4 (last ps))
         else Some (map parse_hextet ps))"

definition ipv6_empty :: "string \<Rightarrow> bool list" where
  "ipv6_empty s =
     (let ps = split_on (CHR '':'') s
      in if CHR ''.'' \<in> set (last ps) then map (\<lambda>p. p = []) (butlast ps) @ [False, False] else map (\<lambda>p. p = []) ps)"

definition inner_gaps :: "bool list \<Rightarrow> nat list" where
  "inner_gaps es = filter (\<lambda>i. es ! i) [1 ..< length es - 1]"

definition fill_groups :: "nat option list \<Rightarrow> bool list \<Rightarrow> nat option list option" where
  "fill_groups gs es =
     (case inner_gaps es of
        [] \<Rightarrow> if length gs = 8 \<and> \<not> hd es \<and> \<not> last es then Some gs else None
      | [k] \<Rightarrow>
          (let hi = (if hd es then [] else take k gs);
               lo = (if last es then [] else drop (Suc k) gs)
           in if (hd es \<and> k \<noteq> 1) \<or> (last es \<and> k + 2 \<noteq> length gs) \<or> 7 < length hi + length lo then None
              else Some (hi @ replicate (8 - (length hi + length lo)) (Some 0) @ lo))
      | _ \<Rightarrow> None)"

definition parse_ipv6 :: "string \<Rightarrow> 128 word option" where
  "parse_ipv6 s =
     (let addr = before (CHR ''%'') s; scope = after (CHR ''%'') s
      in if CHR ''/'' \<in> set s \<or> (CHR ''%'' \<in> set s \<and> (scope = [] \<or> CHR ''%'' \<in> set scope)) then None
         else if length (split_on (CHR '':'') addr) < 3 then None
         else case ipv6_groups addr of
                None \<Rightarrow> None
              | Some gs \<Rightarrow>
                  if 9 < length gs then None
                  else case fill_groups gs (ipv6_empty addr) of
                         None \<Rightarrow> None
                       | Some hs \<Rightarrow> map_option (\<lambda>ns. of_nat (big_endian 65536 ns)) (all_some hs))"

text \<open>\<open>ipaddress.ip_address\<close>; \<open>None\<close> is its \<open>ValueError\<close>.\<close>

definition ip_address :: "string \<Rightarrow> ip option" where
  "ip_address s =
     (case parse_ipv4 s of
        Some a \<Rightarrow> Some (IPv4 a)
      | None \<Rightarrow> map_option IPv6 (parse_ipv6 s))"

section \<open>Special ranges\<close>

text \<open>A network is an address and the length of its prefix.\<close>

definition in_network :: "'a::len word \<Rightarrow> 'a word \<times> nat \<Rightarrow> bool" where
  "in_network a net = (drop_bit (LENGTH('a) - snd net) a = drop_bit (LENGTH('a) - snd net) (fst net))"

definition in_some :: "'a::len word \<Rightarrow> ('a word \<times> nat) list \<Rightarrow> bool" where
  "in_some a nets = list_ex (in_network a) nets"

definition v4 :: "nat \<Rightarrow> nat \<Rightarrow> nat \<Rightarrow> nat \<Rightarrow> nat \<Rightarrow> 32 word \<times> nat" where
  "v4 a b c d n = (of_nat (big_endian 256 [a, b, c, d]), n)"

text \<open>An IPv6 network by its first three groups.\<close>

definition v6 :: "nat \<Rightarrow> nat \<Rightarrow> nat \<Rightarrow> nat \<Rightarrow> 128 word \<times> nat" where
  "v6 a b c n = (of_nat (big_endian 65536 [a, b, c, 0, 0, 0, 0, 0]), n)"

definition v4_private :: "(32 word \<times> nat) list" where
  "v4_private =
     [v4 0 0 0 0 8, v4 10 0 0 0 8, v4 127 0 0 0 8, v4 169 254 0 0 16, v4 172 16 0 0 12, v4 192 0 0 0 24,
      v4 192 0 0 170 31, v4 192 0 2 0 24, v4 192 168 0 0 16, v4 198 18 0 0 15, v4 198 51 100 0 24,
      v4 203 0 113 0 24, v4 240 0 0 0 4, v4 255 255 255 255 32]"

definition v4_private_exceptions :: "(32 word \<times> nat) list" where
  "v4_private_exceptions = [v4 192 0 0 9 32, v4 192 0 0 10 32]"

definition v6_private :: "(128 word \<times> nat) list" where
  "v6_private =
     [(1, 128), (0, 128), (of_nat (big_endian 65536 [0, 0, 0, 0, 0, 0xFFFF, 0, 0]), 96), v6 0x64 0xFF9B 1 48, v6 0x100 0 0 64,
      v6 0x2001 0 0 23, v6 0x2001 0xDB8 0 32, v6 0x2002 0 0 16, v6 0xFC00 0 0 7, v6 0xFE80 0 0 10]"

definition v6_private_exceptions :: "(128 word \<times> nat) list" where
  "v6_private_exceptions =
     [(of_nat (big_endian 65536 [0x2001, 1, 0, 0, 0, 0, 0, 1]), 128), (of_nat (big_endian 65536 [0x2001, 1, 0, 0, 0, 0, 0, 2]), 128),
      v6 0x2001 3 0 32, v6 0x2001 4 0x112 48, v6 0x2001 0x20 0 28, v6 0x2001 0x30 0 28]"

definition v6_reserved :: "(128 word \<times> nat) list" where
  "v6_reserved =
     [v6 0 0 0 8, v6 0x100 0 0 8, v6 0x200 0 0 7, v6 0x400 0 0 6, v6 0x800 0 0 5, v6 0x1000 0 0 4, v6 0x4000 0 0 3,
      v6 0x6000 0 0 3, v6 0x8000 0 0 3, v6 0xA000 0 0 3, v6 0xC000 0 0 3, v6 0xE000 0 0 4, v6 0xF000 0 0 5,
      v6 0xF800 0 0 6, v6 0xFE00 0 0 9]"

definition v4_is_private :: "32 word \<Rightarrow> bool" where
  "v4_is_private a \<longleftrightarrow> in_some a v4_private \<and> \<not> in_some a v4_private_exceptions"

fun is_private :: "ip \<Rightarrow> bool" where
  "is_private (IPv4 a) = v4_is_private a"
| "is_private (IPv6 a) =
     (if drop_bit 32 a = 0xFFFF then v4_is_private (ucast a)
      else in_some a v6_private \<and> \<not> in_some a v6_private_exceptions)"

fun is_loopback :: "ip \<Rightarrow> bool" where
  "is_loopback (IPv4 a) = in_network a (v4 127 0 0 0 8)"
| "is_loopback (IPv6 a) = (a = 1)"

fun is_link_local :: "ip \<Rightarrow> bool" where
  "is_link_local (IPv4 a) = in_network a (v4 169 254 0 0 16)"
| "is_link_local (IPv6 a) = in_network a (v6 0xFE80 0 0 10)"

fun is_reserved :: "ip \<Rightarrow> bool" where
  "is_reserved (IPv4 a) = in_network a (v4 240 0 0 0 4)"
| "is_reserved (IPv6 a) = in_some a v6_reserved"

fun is_multicast :: "ip \<Rightarrow> bool" where
  "is_multicast (IPv4 a) = in_network a (v4 224 0 0 0 4)"
| "is_multicast (IPv6 a) = in_network a (v6 0xFF00 0 0 8)"

fun is_unspecified :: "ip \<Rightarrow> bool" where
  "is_unspecified (IPv4 a) = (a = 0)"
| "is_unspecified (IPv6 a) = (a = 0)"

section \<open>URLs\<close>

datatype url_error = BadBrackets | BadFuture | BracketedIpv4 | NoAddress string | BadPort string | PortRange

record url_parts =
  up_scheme :: string
  up_netloc :: string
  up_query :: string

definition scheme_char :: "char \<Rightarrow> bool" where
  "scheme_char c \<longleftrightarrow>
     (let n = of_char c :: nat
      in (48 \<le> n \<and> n \<le> 57) \<or> (65 \<le> n \<and> n \<le> 90) \<or> (97 \<le> n \<and> n \<le> 122) \<or> c \<in> set ''+-.'')"

definition ascii_alpha :: "char \<Rightarrow> bool" where
  "ascii_alpha c \<longleftrightarrow> (let n = of_char c :: nat in (65 \<le> n \<and> n \<le> 90) \<or> (97 \<le> n \<and> n \<le> 122))"

text \<open>The pattern \<open>v[a-fA-F0-9]+\..+\<close> on the whole text.\<close>

definition ip_future :: "string \<Rightarrow> bool" where
  "ip_future s \<longleftrightarrow>
     (let r = drop 1 s; hs = takeWhile (\<lambda>c. hex_value c \<noteq> None) r; t = drop (length hs) r
      in hs \<noteq> [] \<and> 1 < length t \<and> hd t = CHR ''.'' \<and> CHR 0x0A \<notin> set t)"

definition check_bracketed :: "string \<Rightarrow> url_error + unit" where
  "check_bracketed h =
     (if starts_with ''v'' h then (if ip_future h then Inr () else Inl BadFuture)
      else case ip_address h of
             None \<Rightarrow> Inl (NoAddress h)
           | Some (IPv4 a) \<Rightarrow> Inl BracketedIpv4
           | Some (IPv6 a) \<Rightarrow> Inr ())"

definition clean_url :: "string \<Rightarrow> string" where
  "clean_url s = filter (\<lambda>c. c \<notin> {CHR 0x09, CHR 0x0D, CHR 0x0A}) (dropWhile (\<lambda>c. of_char c \<le> (32::nat)) s)"

definition split_scheme :: "string \<Rightarrow> string \<times> string" where
  "split_scheme u =
     (let s = before (CHR '':'') u
      in if CHR '':'' \<in> set u \<and> s \<noteq> [] \<and> ascii_alpha (hd s) \<and> list_all scheme_char s
         then (lower s, after (CHR '':'') u) else ([], u))"

definition urlparse :: "string \<Rightarrow> url_error + url_parts" where
  "urlparse url =
     (let (scheme, rest) = split_scheme (clean_url url);
          loc = (if starts_with ''//'' rest then takeWhile (\<lambda>c. c \<notin> set ''/?#'') (drop 2 rest) else []);
          tail = (if starts_with ''//'' rest then dropWhile (\<lambda>c. c \<notin> set ''/?#'') (drop 2 rest) else rest)
      in and_then
           (if (CHR ''['' \<in> set loc) \<noteq> (CHR '']'' \<in> set loc) then Inl BadBrackets
            else if CHR ''['' \<in> set loc then check_bracketed (before (CHR '']'') (after (CHR ''['') loc))
            else Inr ())
           (\<lambda>_. Inr \<lparr>up_scheme = scheme, up_netloc = loc, up_query = after (CHR ''?'') (before (CHR ''#'') tail)\<rparr>))"

definition host_and_port :: "url_parts \<Rightarrow> string \<times> string" where
  "host_and_port u =
     (let info = after_last (CHR ''@'') (up_netloc u)
      in if CHR ''['' \<in> set info
         then (let b = after (CHR ''['') info in (before (CHR '']'') b, after (CHR '':'') (after (CHR '']'') b)))
         else (before (CHR '':'') info, after (CHR '':'') info))"

definition hostname :: "url_parts \<Rightarrow> string option" where
  "hostname u =
     (let h = fst (host_and_port u)
      in if h = [] then None
         else Some (lower (before (CHR ''%'') h) @ dropWhile (\<lambda>c. c \<noteq> CHR ''%'') h))"

definition port :: "url_parts \<Rightarrow> url_error + nat option" where
  "port u =
     (let p = snd (host_and_port u)
      in if p = [] then Inr None
         else case digits_value digit_value 10 0 p of
                None \<Rightarrow> Inl (BadPort p)
              | Some n \<Rightarrow> if 65535 < n then Inl PortRange else Inr (Some n))"

end
