(* ===== verification/WebTools.thy ===== *)
theory WebTools
  imports IpAddress ToolHarness
begin

text \<open>
  The web tools of \<open>harness/integrations/web.py\<close>.  The resolver, the HTTP client, trafilatura and
  lxml are fields of the environment: what they answer depends on the outside world.  The ranges of
  addresses are those of Python 3.12.
\<close>

section \<open>The environment\<close>

text \<open>
  A response: its status, the byte chunks it delivers, and the error that ends it early.  The client
  follows redirects on its own; \<open>wr_hops\<close> are the further URLs it asked, which the code never sees.
\<close>

datatype web_reply =
    NoReply string
  | WebReply (wr_status: int) (wr_hops: "string list") (wr_chunks: "string list") (wr_broken: "string option")

record 'w web_env =
  we_resolve :: "string \<Rightarrow> nat \<Rightarrow> 'w \<Rightarrow> (string + string list) \<times> 'w"
  we_get :: "string \<Rightarrow> 'w \<Rightarrow> web_reply \<times> 'w"
  we_decode :: "string \<Rightarrow> string"
  we_extract :: "string \<Rightarrow> string \<Rightarrow> string option \<times> string option"
  we_status_error :: "int \<Rightarrow> string"
  we_repr :: "string \<Rightarrow> string"
  we_unquote :: "string \<Rightarrow> string"

text \<open>Exceptions: of the tool itself, of the HTTP client, and \<open>ValueError\<close>s of the standard library.\<close>

datatype web_error = ToolFailure string | HttpFailure string | ValueFailure string

fun web_error_text :: "web_error \<Rightarrow> string" where
  "web_error_text (ToolFailure e) = e"
| "web_error_text (HttpFailure e) = e"
| "web_error_text (ValueFailure e) = e"

fun url_error_text :: "'w web_env \<Rightarrow> url_error \<Rightarrow> string" where
  "url_error_text en BadBrackets = ''Invalid IPv6 URL''"
| "url_error_text en BadFuture = ''IPvFuture address is invalid''"
| "url_error_text en BracketedIpv4 = ''An IPv4 address cannot be in brackets''"
| "url_error_text en (NoAddress h) = we_repr en h @ '' does not appear to be an IPv4 or IPv6 address''"
| "url_error_text en (BadPort p) = ''Port could not be cast to integer value as '' @ we_repr en p"
| "url_error_text en PortRange = ''Port out of range 0-65535''"

fun or_value_error :: "'w web_env \<Rightarrow> url_error + 'a \<Rightarrow> web_error + 'a" where
  "or_value_error en (Inl e) = Inl (ValueFailure (url_error_text en e))"
| "or_value_error en (Inr x) = Inr x"

section \<open>The guard\<close>

definition validate_fetch_url :: "'w web_env \<Rightarrow> string \<Rightarrow> web_error + unit" where
  "validate_fetch_url en url =
     and_then (or_value_error en (urlparse url)) (\<lambda>u.
       if up_scheme u \<notin> {''http'', ''https''} then Inl (ToolFailure ''web_fetch only supports http and https URLs'')
       else if hostname u = None then Inl (ToolFailure ''web_fetch URL must include a hostname'')
       else Inr ())"

definition is_private_address :: "ip \<Rightarrow> bool" where
  "is_private_address a \<longleftrightarrow>
     is_private a \<or> is_loopback a \<or> is_link_local a \<or> is_reserved a \<or> is_multicast a \<or> is_unspecified a"

definition fetch_port :: "'w web_env \<Rightarrow> url_parts \<Rightarrow> web_error + nat" where
  "fetch_port en u =
     and_then (or_value_error en (port u)) (\<lambda>p.
       Inr (case p of
              Some n \<Rightarrow> if n = 0 then (if up_scheme u = ''https'' then 443 else 80) else n
            | None \<Rightarrow> if up_scheme u = ''https'' then 443 else 80))"

text \<open>The loop over the addresses; a text that is no address raises.\<close>

fun check_addresses :: "'w web_env \<Rightarrow> string \<Rightarrow> ip option list \<Rightarrow> string list \<Rightarrow> web_error + unit" where
  "check_addresses en host (Some a # as) ts =
     (if is_private_address a
      then Inl (ToolFailure (''web_fetch target '' @ we_repr en host @ '' resolves to a private or reserved address''))
      else check_addresses en host as (drop 1 ts))"
| "check_addresses en host (None # as) ts = Inl (ValueFailure (url_error_text en (NoAddress (hd ts))))"
| "check_addresses en host [] ts = Inr ()"

text \<open>A host that is an address is checked itself: the code prints it and reads it again.\<close>

definition reject_private_fetch_host :: "'w web_env \<Rightarrow> string \<Rightarrow> 'w \<Rightarrow> (web_error + unit) \<times> 'w" where
  "reject_private_fetch_host en url w =
     (case or_value_error en (urlparse url) of
        Inl e \<Rightarrow> (Inl e, w)
      | Inr u \<Rightarrow>
          (case hostname u of
             None \<Rightarrow> (Inl (ToolFailure ''web_fetch URL must include a hostname''), w)
           | Some host \<Rightarrow>
               (case fetch_port en u of
                  Inl e \<Rightarrow> (Inl e, w)
                | Inr p \<Rightarrow>
                    (case ip_address host of
                       Some a \<Rightarrow> (check_addresses en host [Some a] [host], w)
                     | None \<Rightarrow>
                         (case we_resolve en host p w of
                            (Inl e, w') \<Rightarrow>
                              (Inl (ToolFailure (''could not resolve host '' @ we_repr en host @ '': '' @ e)), w')
                          | (Inr ts, w') \<Rightarrow> (check_addresses en host (map ip_address ts) ts, w'))))))"

section \<open>Fetching\<close>

fun take_chunks :: "int \<Rightarrow> int \<Rightarrow> string list \<Rightarrow> web_error + string" where
  "take_chunks limit got [] = Inr []"
| "take_chunks limit got (c # cs) =
     (if limit < got + int (length c)
      then Inl (ToolFailure (''web_fetch response exceeded max_fetch_bytes='' @ str_int limit))
      else and_then (take_chunks limit (got + int (length c)) cs) (\<lambda>r. Inr (c @ r)))"

definition stream_response :: "'w web_env \<Rightarrow> int \<Rightarrow> string \<Rightarrow> 'w \<Rightarrow> (web_error + string \<times> int) \<times> 'w" where
  "stream_response en limit url w =
     (case we_get en url w of
        (NoReply e, w') \<Rightarrow> (Inl (HttpFailure e), w')
      | (WebReply status hops chunks broken, w') \<Rightarrow>
          ((if status < 200 \<or> 300 \<le> status then Inl (HttpFailure (we_status_error en status))
            else and_then (take_chunks limit 0 chunks) (\<lambda>body.
                   case broken of Some e \<Rightarrow> Inl (HttpFailure e) | None \<Rightarrow> Inr (we_decode en body, status))), w'))"

definition web_fetch :: "'w web_env \<Rightarrow> web_tool_config \<Rightarrow> string \<Rightarrow> 'w \<Rightarrow> (web_error + json) \<times> 'w" where
  "web_fetch en cfg url w =
     (case validate_fetch_url en url of
        Inl e \<Rightarrow> (Inl e, w)
      | Inr _ \<Rightarrow>
          (case (if web_allow_private_hosts cfg then (Inr (), w) else reject_private_fetch_host en url w) of
             (Inl e, w1) \<Rightarrow> (Inl e, w1)
           | (Inr _, w1) \<Rightarrow>
               (case stream_response en (web_max_fetch_bytes cfg) url w1 of
                  (Inl (HttpFailure e), w2) \<Rightarrow> (Inr (JObj [(''url'', JStr url), (''error'', JStr e)]), w2)
                | (Inl e, w2) \<Rightarrow> (Inl e, w2)
                | (Inr (html, status), w2) \<Rightarrow>
                    (case we_extract en html url of
                       (title, txt) \<Rightarrow>
                         (Inr (JObj
                            (if txt = None \<or> txt = Some []
                             then [(''url'', JStr url), (''status'', JInt status), (''error'', JStr ''no extractable content'')]
                             else [(''url'', JStr url), (''title'', case title of None \<Rightarrow> JNull | Some t \<Rightarrow> JStr t),
                                   (''text'', JStr (the txt)), (''status'', JInt status)])), w2)))))"

section \<open>Search\<close>

text \<open>\<open>parse_qs(query).get("uddg")\<close>: its first value that is not empty.\<close>

definition uddg_value :: "'w web_env \<Rightarrow> string \<Rightarrow> string option" where
  "uddg_value en query =
     (let un = (\<lambda>t. we_unquote en (map (\<lambda>c. if c = CHR ''+'' then CHR '' '' else c) t))
      in map_option (\<lambda>p. un (after (CHR ''='') p))
           (find (\<lambda>p. after (CHR ''='') p \<noteq> [] \<and> un (before (CHR ''='') p) = ''uddg'') (split_on (CHR ''&'') query)))"

definition decode_ddg_href :: "'w web_env \<Rightarrow> string option \<Rightarrow> url_error + string" where
  "decode_ddg_href en href =
     (case href of
        None \<Rightarrow> Inr []
      | Some h \<Rightarrow>
          if h = [] then Inr []
          else and_then (urlparse h) (\<lambda>u.
            Inr (case uddg_value en (up_query u) of
                   Some v \<Rightarrow> v
                 | None \<Rightarrow> if starts_with ''//'' h then ''https:'' @ h else h)))"

text \<open>What lxml finds on the page: title, link and snippet of every result, in order.\<close>

type_synonym ddg_anchor = "string \<times> string option \<times> string option"

definition ddg_row :: "'w web_env \<Rightarrow> ddg_anchor \<Rightarrow> url_error + json" where
  "ddg_row en a =
     (case a of
        (title, href, snippet) \<Rightarrow>
          and_then (decode_ddg_href en href) (\<lambda>u.
            Inr (JObj [(''title'', JStr (strip title)), (''url'', JStr u),
                       (''snippet'', JStr (case snippet of None \<Rightarrow> [] | Some s \<Rightarrow> strip s))])))"

text \<open>The row is appended before the limit is asked, so that a page with results gives at least one.\<close>

fun parse_ddg :: "'w web_env \<Rightarrow> int \<Rightarrow> json list \<Rightarrow> ddg_anchor list \<Rightarrow> url_error + json list" where
  "parse_ddg en limit rows [] = Inr rows"
| "parse_ddg en limit rows (a # as) =
     and_then (ddg_row en a) (\<lambda>r.
       if limit \<le> int (length (rows @ [r])) then Inr (rows @ [r]) else parse_ddg en limit (rows @ [r]) as)"

datatype search_provider = DuckDuckGo | Searxng string

fun provider_name :: "search_provider \<Rightarrow> string" where
  "provider_name DuckDuckGo = ''duckduckgo''"
| "provider_name (Searxng u) = ''searxng''"

definition strip_slashes :: "string \<Rightarrow> string" where
  "strip_slashes s = rev (dropWhile (\<lambda>c. c = CHR ''/'') (rev s))"

text \<open>
  The answers of the two services.  Of the first one the status and the results of the page; of the
  second one the parsed body, after \<open>raise_for_status\<close>.  The client encodes whatever the query is.
\<close>

record 'w search_env =
  se_ddg :: "json \<Rightarrow> 'w \<Rightarrow> (string + int \<times> ddg_anchor list) \<times> 'w"
  se_searxng :: "string \<Rightarrow> json \<Rightarrow> 'w \<Rightarrow> (web_error + json) \<times> 'w"

text \<open>\<open>xs[:n]\<close>.\<close>

definition slice_to :: "int \<Rightarrow> 'a list \<Rightarrow> 'a list" where
  "slice_to n xs = (if 0 \<le> n then take (nat n) xs else take (length xs - nat (- n)) xs)"

text \<open>A body that is no object of a list of objects raises in the code; the text is the interpreter's.\<close>

definition no_rows :: web_error where
  "no_rows = ValueFailure ''unexpected search response''"

definition searxng_row :: "json \<Rightarrow> web_error + json" where
  "searxng_row item =
     (case item of
        JObj o' \<Rightarrow> Inr (JObj [(''title'', jget_default o' ''title'' (JStr [])), (''url'', jget_default o' ''url'' (JStr [])),
                             (''snippet'', jget_default o' ''content'' (JStr []))])
      | _ \<Rightarrow> Inl no_rows)"

definition searxng_rows :: "int \<Rightarrow> json \<Rightarrow> web_error + json list" where
  "searxng_rows limit body =
     (case body of
        JObj o' \<Rightarrow>
          (case jget_default o' ''results'' (JList []) of
             JList items \<Rightarrow> map_all searxng_row (slice_to limit items)
           | JStr s \<Rightarrow> (if slice_to limit s = [] then Inr [] else Inl no_rows)
           | _ \<Rightarrow> Inl no_rows)
      | _ \<Rightarrow> Inl no_rows)"

definition search :: "'w web_env \<Rightarrow> 'w search_env \<Rightarrow> search_provider \<Rightarrow> json \<Rightarrow> int \<Rightarrow> 'w \<Rightarrow> (web_error + json list) \<times> 'w" where
  "search en se p query limit w =
     (case p of
        DuckDuckGo \<Rightarrow>
          (case se_ddg se query w of
             (Inl e, w') \<Rightarrow> (Inl (HttpFailure e), w')
           | (Inr (status, as), w') \<Rightarrow>
               ((if status \<noteq> 200
                 then Inl (ToolFailure (''DuckDuckGo returned HTTP '' @ str_int status @
                        '' (likely an anti-bot challenge), not search results. Consider the '' @ apostrophe @ ''searxng'' @ apostrophe @ '' provider.''))
                 else or_value_error en (parse_ddg en limit [] as)), w'))
      | Searxng url \<Rightarrow>
          (case se_searxng se (strip_slashes url @ ''/search'') query w of
             (Inl e, w') \<Rightarrow> (Inl e, w')
           | (Inr body, w') \<Rightarrow> (searxng_rows limit body, w')))"

text \<open>The name of the class before the message; of HTTP errors it is part of the client's text.\<close>

definition web_search ::
  "'w web_env \<Rightarrow> 'w search_env \<Rightarrow> search_provider \<Rightarrow> int \<Rightarrow> json \<Rightarrow> 'w \<Rightarrow> (web_error + json) \<times> 'w"
where
  "web_search en se p limit query w =
     (let head = [(''query'', query), (''provider'', JStr (provider_name p))]
      in case search en se p query limit w of
           (Inl (HttpFailure e), w') \<Rightarrow> (Inr (JObj (head @ [(''error'', JStr e)])), w')
         | (Inl (ToolFailure e), w') \<Rightarrow> (Inr (JObj (head @ [(''error'', JStr (''ToolExecutionError: '' @ e))])), w')
         | (Inl (ValueFailure e), w') \<Rightarrow> (Inl (ValueFailure e), w')
         | (Inr rows, w') \<Rightarrow> (Inr (JObj (head @ [(''results'', JList rows)])), w'))"

section \<open>What the guard sees\<close>

text \<open>The addresses the guard asks about, with what asking the resolver left of the world.\<close>

definition host_addresses :: "'w web_env \<Rightarrow> string \<Rightarrow> 'w \<Rightarrow> ip option list option \<times> 'w" where
  "host_addresses en url w =
     (case urlparse url of
        Inl e \<Rightarrow> (None, w)
      | Inr u \<Rightarrow>
          (case (hostname u, fetch_port en u) of
             (Some host, Inr p) \<Rightarrow>
               (case ip_address host of
                  Some a \<Rightarrow> (Some [Some a], w)
                | None \<Rightarrow> (case we_resolve en host p w of (Inl e, w') \<Rightarrow> (None, w') | (Inr ts, w') \<Rightarrow> (Some (map ip_address ts), w')))
           | _ \<Rightarrow> (None, w)))"

definition global_address :: "ip option \<Rightarrow> bool" where
  "global_address x = (case x of None \<Rightarrow> False | Some a \<Rightarrow> \<not> is_private_address a)"

definition web_host :: "string \<Rightarrow> bool" where
  "web_host url = (case urlparse url of Inl e \<Rightarrow> False | Inr u \<Rightarrow> up_scheme u \<in> {''http'', ''https''} \<and> hostname u \<noteq> None)"

lemma check_addresses_Inr: "check_addresses en host as ts = Inr u \<longleftrightarrow> list_all global_address as"
  by (induction en host as ts rule: check_addresses.induct) (auto simp: global_address_def)

lemma sum_unit: "x \<noteq> Inr () \<Longrightarrow> \<exists>e. x = Inl e"
  by (cases x) simp_all

lemma guard_verdict:
  assumes "host_addresses en url w = (as, w1)"
  shows "reject_private_fetch_host en url w = (Inr (), w1) \<longleftrightarrow> (\<exists>xs. as = Some xs \<and> list_all global_address xs)"
    and "snd (reject_private_fetch_host en url w) = w1"
  using assms
  by (auto simp: host_addresses_def reject_private_fetch_host_def check_addresses_Inr global_address_def
      split: sum.splits option.splits prod.splits)

lemma guard_fails:
  assumes "host_addresses en url w = (as, w1)" and "\<not> (\<exists>xs. as = Some xs \<and> list_all global_address xs)"
  shows "\<exists>e. reject_private_fetch_host en url w = (Inl e, w1)"
  using guard_verdict [OF assms(1)] assms(2) sum_unit [of "fst (reject_private_fetch_host en url w)"]
  by (cases "reject_private_fetch_host en url w") auto

text \<open>The guard and the checks before it do not depend on the client.\<close>

lemma client_errors: "url_error_text (en\<lparr>we_get := g\<rparr>) e = url_error_text en e"
  by (cases e) simp_all

lemma client_values: "or_value_error (en\<lparr>we_get := g\<rparr>) x = or_value_error en x"
  by (cases x) (simp_all add: client_errors)

lemma client_checks: "check_addresses (en\<lparr>we_get := g\<rparr>) host as ts = check_addresses en host as ts"
  by (induction en host as ts rule: check_addresses.induct) (simp_all add: client_errors)

lemma client_fields:
  "we_resolve (en\<lparr>we_get := g\<rparr>) = we_resolve en" "we_repr (en\<lparr>we_get := g\<rparr>) = we_repr en"
  "we_decode (en\<lparr>we_get := g\<rparr>) = we_decode en" "we_extract (en\<lparr>we_get := g\<rparr>) = we_extract en"
  "we_status_error (en\<lparr>we_get := g\<rparr>) = we_status_error en"
  by simp_all

lemma client_guard:
  "validate_fetch_url (en\<lparr>we_get := g\<rparr>) url = validate_fetch_url en url"
  "reject_private_fetch_host (en\<lparr>we_get := g\<rparr>) url w = reject_private_fetch_host en url w"
  unfolding validate_fetch_url_def reject_private_fetch_host_def fetch_port_def client_values client_checks client_fields
  by (rule refl)+

lemma validate_iff: "validate_fetch_url en url = Inr u \<longleftrightarrow> web_host url"
  by (cases "urlparse url") (auto simp: validate_fetch_url_def web_host_def)

text \<open>The same answers of a client that was redirected otherwise.\<close>

fun via :: "string list \<Rightarrow> web_reply \<Rightarrow> web_reply" where
  "via hops (NoReply e) = NoReply e"
| "via hops (WebReply status hops' chunks broken) = WebReply status hops chunks broken"

definition redirected :: "string list \<Rightarrow> 'w web_env \<Rightarrow> 'w web_env" where
  "redirected hops en = en\<lparr>we_get := \<lambda>url w. case we_get en url w of (r, w') \<Rightarrow> (via hops r, w')\<rparr>"

lemma redirected_stream: "stream_response (redirected hops en) limit url w = stream_response en limit url w"
proof (cases "we_get en url w")
  case (Pair r w')
  then show ?thesis
    unfolding stream_response_def redirected_def client_fields by (cases r) simp_all
qed


text \<open>A client that delivers one page.\<close>

definition page_env :: "string \<Rightarrow> unit web_env" where
  "page_env body =
     \<lparr>we_resolve = (\<lambda>h p w. (Inr [''8.8.8.8''], w)), we_get = (\<lambda>u w. (WebReply 200 [] [body] None, w)),
      we_decode = id, we_extract = (\<lambda>html u. (None, Some html)), we_status_error = (\<lambda>s. ''HTTPStatusError''),
      we_repr = id, we_unquote = id\<rparr>"

lemma sample_urls:
  "urlparse ''http://169.254.169.254/meta'' = Inr \<lparr>up_scheme = ''http'', up_netloc = ''169.254.169.254'', up_query = []\<rparr>"
  "urlparse ''http://8.8.8.8/'' = Inr \<lparr>up_scheme = ''http'', up_netloc = ''8.8.8.8'', up_query = []\<rparr>"
  "hostname \<lparr>up_scheme = s, up_netloc = ''169.254.169.254'', up_query = q\<rparr> = Some ''169.254.169.254''"
  "hostname \<lparr>up_scheme = s, up_netloc = ''8.8.8.8'', up_query = q\<rparr> = Some ''8.8.8.8''"
  "port \<lparr>up_scheme = s, up_netloc = ''169.254.169.254'', up_query = q\<rparr> = Inr None"
  "port \<lparr>up_scheme = s, up_netloc = ''8.8.8.8'', up_query = q\<rparr> = Inr None"
  "ip_address ''169.254.169.254'' = Some (IPv4 2852039166)" "ip_address ''8.8.8.8'' = Some (IPv4 134744072)"
  by (code_simp, code_simp, code_simp, code_simp, code_simp, code_simp,
      simp_all add: ip_address_def parse_ipv4_def parse_octet_def digit_value_def big_endian_def)


section \<open>Bounds\<close>

lemma take_chunks_body: "take_chunks limit got cs = Inr body \<Longrightarrow> body = concat cs \<and> (cs = [] \<or> got + int (length body) \<le> limit)"
  by (induction limit got cs arbitrary: body rule: take_chunks.induct) (auto split: if_splits)

text \<open>A page is only decoded when all its chunks arrived and fit into the limit.\<close>

lemma fetched_body_is_bounded:
  assumes "stream_response en limit url w = (Inr (html, status), w')" and "0 \<le> limit"
  shows "\<exists>hops chunks. we_get en url w = (WebReply status hops chunks None, w') \<and>
    html = we_decode en (concat chunks) \<and> int (length (concat chunks)) \<le> limit \<and> 200 \<le> status \<and> status < 300"
  using assms take_chunks_body
  by (fastforce simp: stream_response_def split: prod.splits web_reply.splits if_splits option.splits)

text \<open>DuckDuckGo gives at most the wanted number of rows, and one when asked for none.\<close>

lemma parse_ddg_bound:
  "parse_ddg en limit rows as = Inr rows' \<Longrightarrow> int (length rows) < max 1 limit \<Longrightarrow> int (length rows') \<le> max 1 limit"
  by (induction en limit rows as arbitrary: rows' rule: parse_ddg.induct) (auto split: if_splits)

text \<open>An IPv4 address wrapped in an IPv6 address (mapped, compatible, NAT64, 6to4) is never global.\<close>

lemma wrapped_ipv4_is_private:
  shows "drop_bit 120 a = 0 \<Longrightarrow> is_private_address (IPv6 a)"
    and "drop_bit 112 a = 0x2002 \<Longrightarrow> is_private_address (IPv6 a)"
proof -
  show "is_private_address (IPv6 a)" if "drop_bit 120 a = 0"
    using that by (simp add: is_private_address_def v6_reserved_def in_some_def in_network_def v6_def big_endian_def)
  assume a: "drop_bit 112 a = 0x2002"
  then have "drop_bit 80 (drop_bit 32 a) \<noteq> 0" by simp
  moreover have "drop_bit 80 (0xFFFF :: 128 word) = 0" by simp
  ultimately have mapped: "drop_bit 32 a \<noteq> 0xFFFF" by metis
  have "\<not> in_network a (p, n)" if "drop_bit 112 p = 0x2001" "16 \<le> n" "n \<le> 128" for p n
  proof
    assume "in_network a (p, n)"
    then have "drop_bit (n - 16) (drop_bit (128 - n) a) = drop_bit (n - 16) (drop_bit (128 - n) p)"
      by (simp add: in_network_def)
    with that a show False by simp
  qed
  then have "\<not> in_some a v6_private_exceptions"
    by (simp add: in_some_def v6_private_exceptions_def v6_def big_endian_def)
  moreover have "in_some a v6_private"
    using a by (simp add: in_some_def v6_private_def in_network_def v6_def big_endian_def)
  ultimately show "is_private_address (IPv6 a)" using mapped by (simp add: is_private_address_def)
qed

end
