(* ===== verification/ToolIntegrations.thy ===== *)
theory ToolIntegrations
  imports WebTools
begin

text \<open>
  The tools that come with the program, as they are registered on the harness: the built-in ones
  (\<open>harness/builtin.py\<close>), the web tools, and the image tool (\<open>harness/integrations/image.py\<close>).  A
  tool takes keyword arguments; files and processes belong to the outside world.
\<close>

section \<open>The environment\<close>

text \<open>A read fails with an \<open>OSError\<close>, which the tool answers, or with another exception, which it raises.\<close>

datatype read_failure = OsFailure string | DecodeFailure string

datatype process_end =
    SpawnFails string
  | ProcessTimesOut
  | ProcessEnds int string string pyfloat

record 'w tool_env =
  te_resolve :: "string \<Rightarrow> string + string list"
  te_show :: "string list \<Rightarrow> string"
  te_read :: "string list \<Rightarrow> 'w \<Rightarrow> (read_failure + string) \<times> 'w"
  te_make_dir :: "string list \<Rightarrow> 'w \<Rightarrow> (string + unit) \<times> 'w"
  te_run :: "string list \<Rightarrow> rat \<Rightarrow> 'w \<Rightarrow> process_end \<times> 'w"
  te_exists :: "string list \<Rightarrow> 'w \<Rightarrow> bool"
  te_str :: "json \<Rightarrow> string"
  te_str_rat :: "rat \<Rightarrow> string"
  te_type_error :: "string \<Rightarrow> tool_args \<Rightarrow> string"
  te_known_bin :: string
  te_bin_exists :: "string \<Rightarrow> bool"
  te_repr :: "string \<Rightarrow> string"
  te_trafilatura :: bool
  te_lxml :: bool

text \<open>\<open>func(**args)\<close> binds when the required parameters are there and all others are known.\<close>

definition binds :: "string list \<Rightarrow> string list \<Rightarrow> tool_args \<Rightarrow> bool" where
  "binds required known args \<longleftrightarrow>
     list_all (\<lambda>k. k \<in> set (map fst args)) required \<and> list_all (\<lambda>(k, v). k \<in> set (required @ known)) args"

section \<open>Built-in tools\<close>

definition calendar_get :: "'w tool_env \<Rightarrow> 'w tool_func" where
  "calendar_get te args w =
     ((if binds [''date''] [] args
       then Inr (JObj [(''date'', jget args ''date''), (''events'', JList []), (''source'', JStr ''stub'')])
       else Inl (te_type_error te ''calendar_get'' args)), w)"

definition memory_search :: "'w tool_env \<Rightarrow> 'w tool_func" where
  "memory_search te args w =
     ((if binds [''query''] [''limit''] args
       then Inr (JObj [(''query'', jget args ''query''), (''limit'', jget_default args ''limit'' (JInt 5)),
                       (''results'', JList []), (''source'', JStr ''stub'')])
       else Inl (te_type_error te ''memory_search'' args)), w)"

definition confined :: "'w tool_env \<Rightarrow> string list option \<Rightarrow> string \<Rightarrow> tool_error + string list" where
  "confined te roots p = fst (ensure_within_roots (te_resolve te) p roots True)"

definition file_read :: "'w tool_env \<Rightarrow> string list option \<Rightarrow> 'w tool_func" where
  "file_read te roots args w =
     (case (binds [''path''] [] args, jget args ''path'') of
        (True, JStr p) \<Rightarrow>
          (case confined te roots p of
             Inl e \<Rightarrow> (Inl (tool_error_text e), w)
           | Inr resolved \<Rightarrow>
               (case te_read te resolved w of
                  (Inl (OsFailure e), w') \<Rightarrow> (Inr (JObj [(''path'', JStr p), (''error'', JStr e)]), w')
                | (Inl (DecodeFailure e), w') \<Rightarrow> (Inl e, w')
                | (Inr content, w') \<Rightarrow>
                    (Inr (JObj [(''path'', JStr (te_show te resolved)), (''content'', JStr content)]), w')))
      | _ \<Rightarrow> (Inl (te_type_error te ''_file_read'' args), w))"

definition eval_noop :: "'w tool_env \<Rightarrow> 'w tool_func" where
  "eval_noop te args w = ((if args = [] then Inr (JObj []) else Inl (te_type_error te ''eval_noop'' args)), w)"

definition param :: "string \<Rightarrow> string \<Rightarrow> string \<times> json" where
  "param name ty = (name, JObj [(''type'', JStr ty)])"

definition described_param :: "string \<Rightarrow> string \<Rightarrow> string \<Rightarrow> string \<times> json" where
  "described_param name ty d = (name, JObj [(''type'', JStr ty), (''description'', JStr d)])"

definition params_of :: "(string \<times> json) list \<Rightarrow> string list \<Rightarrow> json" where
  "params_of props required =
     JObj [(''type'', JStr ''object''), (''properties'', JObj props), (''required'', JList (map JStr required))]"

definition register_builtins :: "'w tool_env \<Rightarrow> string list option \<Rightarrow> 'w harness \<Rightarrow> tool_error + 'w harness" where
  "register_builtins te roots h =
     and_then (register ''calendar_get'' ''Fetch calendar events for a given date (stub).''
         (params_of [described_param ''date'' ''string'' ''ISO date YYYY-MM-DD''] [''date'']) RiskRead (calendar_get te) h) (\<lambda>h1.
     and_then (register ''memory_search'' (''Search the agent'' @ apostrophe @ ''s long-term memory store (stub).'')
         (params_of [param ''query'' ''string'', (''limit'', JObj [(''type'', JStr ''integer''), (''default'', JInt 5)])] [''query''])
         RiskRead (memory_search te) h1) (\<lambda>h2.
     register ''file_read'' ''Read a UTF-8 text file from the local filesystem.''
         (params_of [param ''path'' ''string''] [''path'']) RiskRead (file_read te roots) h2))"

definition register_eval_tools :: "'w tool_env \<Rightarrow> 'w harness \<Rightarrow> tool_error + 'w harness" where
  "register_eval_tools te h =
     register ''eval_noop'' (''Eval-only no-op '' @ em_dash @ '' always returns an empty result (test fixture only).'')
       (params_of [] []) RiskRead (eval_noop te) h"

section \<open>Images\<close>

definition resolve_bin :: "'w tool_env \<Rightarrow> image_tool_config \<Rightarrow> string" where
  "resolve_bin te cfg =
     (if img_mflux_bin cfg \<noteq> [] then img_mflux_bin cfg
      else if te_bin_exists te (te_known_bin te) then te_known_bin te else ''mflux-generate'')"

definition verify_bin :: "'w tool_env \<Rightarrow> string \<Rightarrow> string + unit" where
  "verify_bin te bin =
     (if starts_with ''/'' bin \<and> \<not> te_bin_exists te bin
      then Inl (''mflux-generate not found at '' @ te_repr te bin @ ''. Install mflux with: uv venv ~/.venvs/mflux --python 3.12 '' @
             ''&& uv pip install --python ~/.venvs/mflux/bin/python mflux'')
      else Inr ())"

record image_args =
  ia_prompt :: json
  ia_output :: json
  ia_width :: json
  ia_height :: json
  ia_steps :: json
  ia_image :: json
  ia_strength :: json

text \<open>The command up to \<open>--prompt\<close> and its flags; the prompt and the image are texts or \<open>exec\<close> raises.\<close>

definition image_base_command :: "'w tool_env \<Rightarrow> image_tool_config \<Rightarrow> string \<Rightarrow> image_args \<Rightarrow> string list \<Rightarrow> string \<Rightarrow> string list" where
  "image_base_command te cfg bin a out prompt =
     [bin, ''--model'', img_model cfg, ''--quantize'', str_int (img_quantize cfg), ''--steps'', te_str te (ia_steps a),
      ''--height'', te_str te (ia_height a), ''--width'', te_str te (ia_width a), ''--output'', te_show te out,
      ''--prompt'', prompt] @
     (if img_low_ram cfg then [''--low-ram''] else []) @
     (if 0 < img_mlx_cache_limit_gb cfg then [''--mlx-cache-limit-gb'', str_int (img_mlx_cache_limit_gb cfg)] else [])"

definition image_command :: "'w tool_env \<Rightarrow> image_tool_config \<Rightarrow> string \<Rightarrow> image_args \<Rightarrow> string list \<Rightarrow> string list option" where
  "image_command te cfg bin a out =
     (case ia_prompt a of
        JStr prompt \<Rightarrow>
          (let cmd = image_base_command te cfg bin a out prompt
           in if \<not> truthy (ia_image a) then Some cmd
              else case ia_image a of
                     JStr p \<Rightarrow> Some (cmd @ [''--image-path'', p, ''--image-strength'', te_str te (ia_strength a)])
                   | _ \<Rightarrow> None)
      | _ \<Rightarrow> None)"

definition image_answer ::
  "'w tool_env \<Rightarrow> image_tool_config \<Rightarrow> image_args \<Rightarrow> string list \<Rightarrow> process_end \<times> 'w \<Rightarrow> (string + json) \<times> 'w"
where
  "image_answer te cfg a out r =
     (case r of
        (SpawnFails e, w) \<Rightarrow> (Inl e, w)
      | (ProcessTimesOut, w) \<Rightarrow> (Inl (''image_generate timed out after '' @ te_str_rat te (img_timeout_s cfg) @ ''s''), w)
      | (ProcessEnds code stdout stderr elapsed, w) \<Rightarrow>
          ((if code \<noteq> 0
            then Inl (''mflux-generate exited '' @ str_int code @ '': '' @ take 600 (if stderr \<noteq> [] then stderr else stdout))
            else if \<not> te_exists te out w
            then Inl (''mflux-generate exited 0 but output was not written to '' @ te_show te out)
            else Inr (JObj [(''path'', JStr (te_show te out)), (''width'', ia_width a), (''height'', ia_height a),
                            (''generation_time_s'', JFloat elapsed)])), w))"

definition image_generate ::
  "'w tool_env \<Rightarrow> image_tool_config \<Rightarrow> string list option \<Rightarrow> string \<Rightarrow> tool_args \<Rightarrow> image_args \<Rightarrow> 'w \<Rightarrow> (string + json) \<times> 'w"
where
  "image_generate te cfg roots bin args a w =
     (case ia_output a of
        JStr p \<Rightarrow>
          (case confined te roots p of
             Inl e \<Rightarrow> (Inl (tool_error_text e), w)
           | Inr out \<Rightarrow>
               (case te_make_dir te (butlast out) w of
                  (Inl e, w1) \<Rightarrow> (Inl e, w1)
                | (Inr _, w1) \<Rightarrow>
                    (case image_command te cfg bin a out of
                       None \<Rightarrow> (Inl (te_type_error te ''_image_generate'' args), w1)
                     | Some cmd \<Rightarrow> image_answer te cfg a out (te_run te cmd (img_timeout_s cfg) w1))))
      | _ \<Rightarrow> (Inl (te_type_error te ''_image_generate'' args), w))"

definition image_args_of :: "image_tool_config \<Rightarrow> tool_args \<Rightarrow> image_args" where
  "image_args_of cfg args =
     \<lparr>ia_prompt = jget args ''prompt'', ia_output = jget args ''output_path'',
      ia_width = jget_default args ''width'' (JInt (img_default_width cfg)),
      ia_height = jget_default args ''height'' (JInt (img_default_height cfg)),
      ia_steps = jget_default args ''steps'' (JInt (img_default_steps cfg)),
      ia_image = jget_default args ''image_path'' JNull,
      ia_strength = jget_default args ''image_strength'' (JFloat (Fin (3 / 4)))\<rparr>"

definition image_tool :: "'w tool_env \<Rightarrow> image_tool_config \<Rightarrow> string list option \<Rightarrow> 'w tool_func" where
  "image_tool te cfg roots args w =
     (if binds [''prompt'', ''output_path''] [''width'', ''height'', ''steps'', ''image_path'', ''image_strength''] args
      then image_generate te cfg roots (resolve_bin te cfg) args (image_args_of cfg args) w
      else (Inl (te_type_error te ''_image_generate'' args), w))"

definition register_image :: "'w tool_env \<Rightarrow> image_tool_config \<Rightarrow> string list option \<Rightarrow> 'w harness \<Rightarrow> string + 'w harness" where
  "register_image te cfg roots h =
     and_then (verify_bin te (resolve_bin te cfg)) (\<lambda>_.
       map_sum tool_error_text id
         (register ''image_generate''
           (''Generate an image from a text prompt using Flux and save it to a file. '' @
            ''For img2img (editing an existing image), supply image_path and '' @
            ''image_strength (0.0 = ignore source, 1.0 = copy source; 0.6-0.8 '' @
            ''is the useful range). Returns the saved file path and generation time. '' @
            ''Generation takes 45-120 seconds; plan accordingly.'')
           (params_of
             [described_param ''prompt'' ''string'' ''Detailed description of the image to generate.'',
              described_param ''output_path'' ''string'' ''Absolute or home-relative path to save the PNG, e.g. ~/Desktop/result.png'',
              described_param ''width'' ''integer'' ''Output width in pixels (default 1024)'',
              described_param ''height'' ''integer'' ''Output height in pixels (default 1024)'',
              described_param ''steps'' ''integer'' ''Diffusion steps (default 4 for schnell)'',
              described_param ''image_path'' ''string'' ''Source image path for img2img. Omit for text-to-image.'',
              described_param ''image_strength'' ''number''
                ''Img2img blend strength 0.0-1.0 (default 0.75). Lower = closer to source; higher = more creative freedom.'']
             [''prompt'', ''output_path''])
           RiskWrite (image_tool te cfg roots) h))"

section \<open>Web tools\<close>

definition web_fetch_tool :: "'w tool_env \<Rightarrow> 'w web_env \<Rightarrow> web_tool_config \<Rightarrow> 'w tool_func" where
  "web_fetch_tool te en cfg args w =
     (case (binds [''url''] [] args, jget args ''url'') of
        (True, JStr url) \<Rightarrow> (case web_fetch en cfg url w of (r, w') \<Rightarrow> (map_sum web_error_text id r, w'))
      | _ \<Rightarrow> (Inl (te_type_error te ''_web_fetch'' args), w))"

definition web_search_tool ::
  "'w tool_env \<Rightarrow> 'w web_env \<Rightarrow> 'w search_env \<Rightarrow> web_tool_config \<Rightarrow> search_provider \<Rightarrow> 'w tool_func"
where
  "web_search_tool te en se cfg p args w =
     (if binds [''query''] [] args
      then (case web_search en se p (web_max_results cfg) (jget args ''query'') w of (r, w') \<Rightarrow> (map_sum web_error_text id r, w'))
      else (Inl (te_type_error te ''_web_search'' args), w))"

definition build_search_provider :: "'w tool_env \<Rightarrow> web_tool_config \<Rightarrow> string + search_provider" where
  "build_search_provider te cfg =
     (if web_search_kind cfg = ''duckduckgo''
      then (if te_lxml te then Inr DuckDuckGo
            else Inl (''DuckDuckGo search needs the '' @ apostrophe @ ''web'' @ apostrophe @ '' extra: pip install glassrail[web].''))
      else if web_search_kind cfg = ''searxng'' then Inr (Searxng (web_searxng_url cfg))
      else Inl (''Unknown web search provider: '' @ te_repr te (web_search_kind cfg)))"

definition require_trafilatura :: "'w tool_env \<Rightarrow> string + unit" where
  "require_trafilatura te =
     (if te_trafilatura te then Inr ()
      else Inl (''The web integration needs the '' @ apostrophe @ ''web'' @ apostrophe @ '' extra. Install it with '' @
             ''`pip install glassrail[web]` (or `uv sync --extra web`).''))"

definition register_web ::
  "'w tool_env \<Rightarrow> 'w web_env \<Rightarrow> 'w search_env \<Rightarrow> web_tool_config \<Rightarrow> 'w harness \<Rightarrow> string + 'w harness"
where
  "register_web te en se cfg h =
     and_then
       (if web_fetch_enabled cfg
        then and_then (require_trafilatura te) (\<lambda>_.
          map_sum tool_error_text id (register ''web_fetch''
            (''Fetch a web page by URL and return its main text content '' @
             ''(boilerplate removed). Use for reading or summarising a page.'')
            (params_of [described_param ''url'' ''string'' ''The absolute URL to fetch''] [''url''])
            RiskNetwork (web_fetch_tool te en cfg) h))
        else Inr h) (\<lambda>h1.
       if web_search_kind cfg \<noteq> ''none''
       then and_then (build_search_provider te cfg) (\<lambda>p.
         map_sum tool_error_text id (register ''web_search''
           (''Search the web and return a list of results (title, url, snippet). '' @
            ''Use to find pages; pair with web_fetch to read one.'')
           (params_of [described_param ''query'' ''string'' ''The search query''] [''query''])
           RiskNetwork (web_search_tool te en se cfg p) h1))
       else Inr h1)"

definition register_integrations ::
  "'w tool_env \<Rightarrow> 'w web_env \<Rightarrow> 'w search_env \<Rightarrow> tools_settings \<Rightarrow> 'w harness \<Rightarrow> string + 'w harness"
where
  "register_integrations te en se ts h =
     (let web = tools_web ts
      in and_then (if web_fetch_enabled web \<or> web_search_kind web \<noteq> ''none'' then register_web te en se web h else Inr h) (\<lambda>h1.
           if img_enabled (tools_image ts) then register_image te (tools_image ts) (fs_roots ts) h1 else Inr h1))"

text \<open>The two registrations of \<open>build_runtime\<close>, on an empty harness.\<close>

definition first_party_tools ::
  "'w tool_env \<Rightarrow> 'w web_env \<Rightarrow> 'w search_env \<Rightarrow> tools_settings \<Rightarrow> string + 'w harness"
where
  "first_party_tools te en se ts =
     and_then (map_sum tool_error_text id (register_builtins te (fs_roots ts) empty_harness)) (register_integrations te en se ts)"

section \<open>Which files the tools touch\<close>

text \<open>The path a text stands for lies at or below one of the configured roots.\<close>

definition under_roots :: "'w tool_env \<Rightarrow> string list \<Rightarrow> string list \<Rightarrow> bool" where
  "under_roots te rs p \<longleftrightarrow> list_ex (\<lambda>r. case te_resolve te r of Inl e \<Rightarrow> False | Inr q \<Rightarrow> is_relative_to p q) rs"

lemma list_ex_results: "list_all2 (\<lambda>r q. f r = Inr q) rs qs \<Longrightarrow> list_ex P qs = list_ex (\<lambda>r. case f r of Inl e \<Rightarrow> False | Inr q \<Rightarrow> P q) rs"
  by (induction rule: list_all2_induct) simp_all

lemma confined_under_roots: "confined te (Some (r # rs)) p = Inr q \<Longrightarrow> under_roots te (r # rs) q"
  unfolding confined_def ensure_within_roots_def under_roots_def
  by (auto simp: map_all_Inr_iff list_ex_results simp del: map_all.simps split: sum.splits if_splits)

lemma confined_fields:
  "te_resolve te' = te_resolve te \<Longrightarrow> confined te' = confined te"
  unfolding confined_def by (simp only:)


text \<open>An environment whose paths are their text, cut at slashes.\<close>

definition plain_env :: "unit tool_env" where
  "plain_env =
     \<lparr>te_resolve = (\<lambda>p. Inr (split_on (CHR ''/'') p)), te_show = join ''/'', te_read = (\<lambda>p w. (Inr ''text'', w)),
      te_make_dir = (\<lambda>p w. (Inr (), w)), te_run = (\<lambda>cmd t w. (SpawnFails (last (butlast (butlast cmd))), w)),
      te_exists = (\<lambda>p w. True), te_str = (\<lambda>v. ''1''), te_str_rat = (\<lambda>q. ''300.0''), te_type_error = (\<lambda>f a. ''TypeError''),
      te_known_bin = ''mflux'', te_bin_exists = (\<lambda>b. False), te_repr = id, te_trafilatura = True, te_lxml = True\<rparr>"

definition sample_image :: image_args where
  "sample_image = image_args_of default_image_tool_config
     [(''prompt'', JStr ''x''), (''output_path'', JStr ''w/o''), (''image_path'', JStr ''/etc/x'')]"


section \<open>What is registered\<close>

text \<open>The built-in tools never clash, and are free to call.\<close>

lemma builtins_registered:
  "\<exists>h. register_builtins te roots empty_harness = Inr h \<and> all_names h = [''calendar_get'', ''memory_search'', ''file_read''] \<and>
     (\<forall>n. risk_for h n = RiskRead)"
  by (simp add: register_builtins_def register_def empty_harness_def all_names_def risk_for_def)

lemma register_text: "map_sum tool_error_text id (register n d p r f h) = Inr h' \<Longrightarrow> register n d p r f h = Inr h'"
  by (cases "register n d p r f h") simp_all

text \<open>The image tool is a write tool, so that it is approved like one; the web tools are network tools.\<close>

lemma image_tool_is_a_write_tool: "register_image te cfg roots h = Inr h' \<Longrightarrow> risk_for h' ''image_generate'' = RiskWrite"
  unfolding register_image_def and_then_Inr_iff
  by (elim exE conjE) (drule register_text, drule register_lookup, simp)

end
