(* ===== verification/Runtime.thy ===== *)
theory Runtime
  imports OrchestratorRun ToolIntegrations
begin

text \<open>
  The composition root (\<open>runtime.py\<close>): one harness, one router and one set of settings go to the
  planner, its validator and the executor, and the orchestrator gets all of them with the store.
  What the code does not build itself (the JSON parser, the functions of the providers, the plugins,
  the broker's request) are the parts a runtime is built from.  The properties join those of the
  validator, the orchestrator and the scheduler.
\<close>

section \<open>Building\<close>

record 'w store_ops =
  so_load :: "string \<Rightarrow> 'w \<Rightarrow> exec_state option"
  so_save :: "exec_state \<Rightarrow> 'w \<Rightarrow> 'w"
  so_transition :: "string \<Rightarrow> task_status list \<Rightarrow> task_status \<Rightarrow> 'w \<Rightarrow> exec_state option \<times> 'w"

text \<open>
  \<open>rp_planner\<close> and \<open>rp_nodes\<close> give the fields that are outside the program; their settings, harness
  and router are replaced.  \<open>rp_execute\<close> is \<open>Executor.execute\<close> on the nodes it is given.
\<close>

record 'w runtime_parts =
  rp_tools :: "'w tool_env"
  rp_web :: "'w web_env"
  rp_search :: "'w search_env"
  rp_plugins :: "(string \<times> 'w entry_object) list"
  rp_provider :: "provider_spec \<Rightarrow> 'w provider"
  rp_planner :: "'w planner_env"
  rp_nodes :: "'w node_env"
  rp_request :: "node_id \<Rightarrow> string \<Rightarrow> tool_risk \<Rightarrow> tool_args \<Rightarrow> string \<Rightarrow> 'w \<Rightarrow> bool \<times> 'w"
  rp_execute :: "'w node_env \<Rightarrow> exec_state \<Rightarrow> 'w \<Rightarrow> event_body list \<times> plan_exc option \<times> exec_state \<times> 'w"
  rp_memory :: "'w store_ops"

record 'w runtime =
  rt_orchestrator :: "'w orch_env"
  rt_store :: "'w store_ops"
  rt_harness :: "'w harness"
  rt_settings :: settings
  rt_nodes :: "'w node_env"

definition build_harness :: "'w runtime_parts \<Rightarrow> settings \<Rightarrow> string + 'w harness" where
  "build_harness rp s =
     and_then (first_party_tools (rp_tools rp) (rp_web rp) (rp_search rp) (tools s)) (\<lambda>h.
       Inr (if load_tool_plugins s then fst (load_entry_points (rp_plugins rp) h 0) else h))"

definition build_router :: "'w runtime_parts \<Rightarrow> settings \<Rightarrow> string + 'w router" where
  "build_router rp s = and_then (router_specs s) (\<lambda>(specs, cap). make_router (map (rp_provider rp) specs) cap)"

definition build_runtime ::
  "'w runtime_parts \<Rightarrow> settings \<Rightarrow> 'w store_ops option \<Rightarrow> bool \<Rightarrow> string + 'w runtime"
where
  "build_runtime rp s store interactive =
     and_then (build_harness rp s) (\<lambda>h.
     and_then (build_router rp s) (\<lambda>r.
       let planner = (rp_planner rp)\<lparr>pe_settings := s, pe_harness := h, pe_router := r\<rparr>;
           nodes = (rp_nodes rp)\<lparr>ne_settings := s, ne_router := r, ne_harness := h, ne_bus := True,
             ne_request := if interactive then Some (rp_request rp) else None\<rparr>;
           st = (case store of None \<Rightarrow> rp_memory rp | Some x \<Rightarrow> x)
       in Inr \<lparr>rt_orchestrator = \<lparr>oe_settings = s, oe_bus = True, oe_planner = planner, oe_execute = rp_execute rp nodes,
                 oe_load = so_load st, oe_save = so_save st, oe_transition = so_transition st\<rparr>,
               rt_store = st, rt_harness = h, rt_settings = s, rt_nodes = nodes\<rparr>))"

text \<open>Everyone has the same harness and settings.\<close>

lemma runtime_shares:
  assumes "build_runtime rp s store interactive = Inr rt"
  shows "pe_harness (oe_planner (rt_orchestrator rt)) = rt_harness rt" "ne_harness (rt_nodes rt) = rt_harness rt"
    "pe_settings (oe_planner (rt_orchestrator rt)) = s" "oe_settings (rt_orchestrator rt) = s" "ne_settings (rt_nodes rt) = s"
    "oe_execute (rt_orchestrator rt) = rp_execute rp (rt_nodes rt)" "ne_request (rt_nodes rt) = (if interactive then Some (rp_request rp) else None)"
    "pe_router (oe_planner (rt_orchestrator rt)) = ne_router (rt_nodes rt)"
  using assms by (auto simp: build_runtime_def Let_def)

text \<open>A configuration whose tiers pass their validator always gives a router.\<close>

lemma router_builds:
  assumes "\<forall>c \<in> set (tiers s). check_required_fields c = Inr c"
  shows "\<exists>r. build_router rp s = Inr r \<and> length (ro_providers r) = 4"
proof -
  obtain specs where specs: "router_specs s = Inr (specs, Some (max_generation_tokens s))"
    using router_specs_valid [OF assms] by blast
  then have "map spec_tier specs = [0, 1, 2, 3]" by (rule router_specs_tiers)
  then have "length (map spec_tier specs) = 4" by simp
  then have "length specs = 4" by simp
  with specs show ?thesis by (auto simp: build_router_def make_router_def)
qed

section \<open>The tools of an accepted plan\<close>

inductive lies_within :: "plan \<Rightarrow> node \<Rightarrow> bool" where
  node_here: "n \<in> set (p_nodes p) \<Longrightarrow> lies_within p n"
| node_deeper: "m \<in> set (p_nodes p) \<Longrightarrow> n_subplan m = Some q \<Longrightarrow> lies_within q n \<Longrightarrow> lies_within p n"

inductive_cases lies_withinE: "lies_within p n"

definition knows_tool :: "'w harness \<Rightarrow> node \<Rightarrow> bool" where
  "knows_tool h n \<longleftrightarrow> (n_type n = TOOL \<longrightarrow> (\<exists>t. n_tool n = Some t \<and> t \<in> set (all_names h)))"

lemma level_knows: "level_ok h s b p \<Longrightarrow> n \<in> set (p_nodes p) \<Longrightarrow> knows_tool h n"
  by (cases "n_tool n") (auto simp: knows_tool_def level_ok_def node_ok_def falsy_str_def)

lemma knows_subplan [simp]: "knows_tool h (set_subplan n q) = knows_tool h n"
  by (simp add: knows_tool_def)

lemma within_set_sorted: "lies_within (set_sorted p ids) n \<longleftrightarrow> lies_within p n"
proof -
  have "lies_within q n \<Longrightarrow> p_nodes q = p_nodes p \<Longrightarrow> lies_within p n" for p q
    by (erule lies_withinE) (auto intro: lies_within.intros)
  from this [of "set_sorted p ids" p] this [of p "set_sorted p ids"] show ?thesis by auto
qed

lemma subplans_known:
  "check_subplans h s p = Inr p' \<Longrightarrow> level_ok h s b p \<Longrightarrow> lies_within p' n \<Longrightarrow> knows_tool h n"
proof (induction "size p" arbitrary: p p' b n rule: less_induct)
  case less
  from less.prems(1) obtain ns where ns: "map_all (check_subplan_node h s) (p_nodes p) = Inr ns" and p': "p_nodes p' = ns"
    by (auto simp: check_subplans_nodes split: if_splits)
  have sent: "\<exists>k \<in> set (p_nodes p). check_subplan_node h s k = Inr m" if "m \<in> set ns" for m
  proof -
    from that obtain i where "i < length ns" "ns ! i = m" by (auto simp: in_set_conv_nth)
    with ns show ?thesis by (intro bexI [of _ "p_nodes p ! i"]) (auto simp: map_all_Inr_iff list_all2_conv_all_nth)
  qed
  have node: "knows_tool h m \<and> (\<forall>q n. n_subplan m = Some q \<and> lies_within q n \<longrightarrow> knows_tool h n)"
    if k: "k \<in> set (p_nodes p)" and m: "check_subplan_node h s k = Inr m" for k m
  proof (cases "n_subplan k")
    case None
    have "node_ok k" using less.prems(2) k by (simp add: level_ok_def)
    with None m show ?thesis using level_knows [OF less.prems(2) k] node_ok_subplan [of k]
      by (auto simp: check_subplan_node_def)
  next
    case (Some q)
    have "node_ok k" using less.prems(2) k by (simp add: level_ok_def)
    with Some m node_ok_subplan [of k] obtain ids q' where
      lev: "check_level h s True q = Inr ids" and sub: "check_subplans h s q = Inr q'" and m_eq: "m = set_subplan k (set_sorted q' ids)"
      by (auto simp: check_subplan_node_def)
    note IH = less.hyps [OF size_subplan [OF k Some] sub check_level_sound(2) [OF lev sub]]
    show ?thesis using level_knows [OF less.prems(2) k] IH by (auto simp: m_eq within_set_sorted)
  qed
  from less.prems(3) show ?case
  proof (cases rule: lies_within.cases)
    case node_here
    then show ?thesis using sent node p' by blast
  next
    case (node_deeper m q)
    then show ?thesis using sent [of m] node p' by blast
  qed
qed

lemma validated_known: "validate h s p = Inr p' \<Longrightarrow> lies_within p' n \<Longrightarrow> knows_tool h n"
  by (auto simp: validate_level within_set_sorted dest: check_level_sound(2) intro: subplans_known)

section \<open>The state the executor is given\<close>

definition unrun :: "exec_state \<Rightarrow> bool" where
  "unrun st \<longleftrightarrow> s_results st = [] \<and> s_completed_nodes st = [] \<and> s_skipped_nodes st = []"

lemma plan_once_unrun: "plan_once en feedback n c st oc = (r, st', oc') \<Longrightarrow> unrun st' \<longleftrightarrow> unrun st"
  by (auto simp: plan_once_def Let_def save_attempt_eq unrun_def
      split: prod.splits sum.splits plan_exc.splits option.splits if_splits)

lemma plan_loop_unrun: "plan_loop en feedback ns c st oc = (r, st', oc') \<Longrightarrow> unrun st' \<longleftrightarrow> unrun st"
proof (induction en feedback ns c st oc rule: plan_loop.induct)
  case (2 en feedback n ns c st oc)
  obtain x st1 oc1 where once: "plan_once en feedback n c st oc = (x, st1, oc1)" by (metis prod_cases3)
  then have "unrun st1 \<longleftrightarrow> unrun st" by (rule plan_once_unrun)
  with 2 once show ?case by (cases x) auto
qed (auto simp: planning_failed_def unrun_def)

lemma planned_unrun:
  "plan_with_retry en feedback st oc = (r, st', oc') \<Longrightarrow> unrun st' \<longleftrightarrow> unrun st"
  unfolding plan_with_retry_def by (drule plan_loop_unrun) (simp add: unrun_def)

text \<open>A new task that reaches the executor reaches it with an accepted plan and nothing recorded.\<close>

lemma run_task_executes:
  assumes "oe_load en tid w = Some st" and "unrun st"
    and "executed (oc_trace (snd (run_task en tid \<lparr>oc_world = w, oc_trace = []\<rparr>))) = [st']"
  shows "unrun st' \<and> (\<exists>p. s_plan st' = Some p \<and> accepted en p) \<and> \<not> confirm_plans (oe_settings en)"
proof -
  let ?oc = "emit_event en PlanningStarted \<lparr>oc_world = w, oc_trace = []\<rparr>"
  obtain r oc' where go: "plan_and_go en s_planning_attempts None st \<lparr>oc_world = w, oc_trace = []\<rparr> = (r, oc')" by fastforce
  then have oc': "executed (oc_trace oc') = [st']" using assms(1,3) by (simp add: run_task_def)
  obtain x st1 oc1 where x: "plan_with_retry en None st ?oc = (x, st1, oc1)" by (metis prod_cases3)
  have t1: "executed (oc_trace oc1) = []"
    using plan_with_retry_spec [OF x] by (auto simp: emit_event_def note_effect_def)
  have unrun: "unrun st1" using planned_unrun [OF x] assms(2) by simp
  show ?thesis
  proof (cases x)
    case (Planned p)
    let ?st = "st1\<lparr>s_plan := Some p\<rparr>"
    obtain y st2 oc2 where y: "present_or_execute en ?st oc1 = (y, st2, oc2)" by (metis prod_cases3)
    then have "close_task en s_planning_attempts (y, st2, oc2) = (r, oc')" using go x Planned by (simp add: plan_and_go_def)
    from close_executed [OF this] have "executed (oc_trace oc2) = [st']" using oc' by simp
    then have "st' = ?st \<and> \<not> confirm_plans (oe_settings en)" using y t1
      by (auto simp: present_or_execute_def run_executor_def Let_def split: if_splits prod.splits)
    moreover have "accepted en p" using plan_with_retry_spec [OF x] Planned by (auto simp: planning_effect_def)
    ultimately show ?thesis using unrun by (simp add: unrun_def)
  next
    case NoPlanFound
    then have "close_task en s_planning_attempts (None, st1, save_task en st1 (emit_plan_terminal en st1 oc1)) = (r, oc')"
      using go x by (simp add: plan_and_go_def)
    from close_executed [OF this] oc' t1 show ?thesis by (auto simp: emit_plan_terminal_def split: if_splits)
  next
    case (PlanningRaised e)
    then have "close_task en s_planning_attempts (Some e, st1, oc1) = (r, oc')" using go x by (simp add: plan_and_go_def)
    from close_executed [OF this] oc' t1 show ?thesis by simp
  qed
qed

section \<open>From a request to the end of its run\<close>


section \<open>A sample runtime\<close>

text \<open>A model that plans a call of a built-in tool, over a store that has one new task.\<close>

definition calendar_plan :: plan where
  "calendar_plan =
     Plan [Node 1 TOOL ''t'' (Some ''calendar_get'') None [] None None None False None None None, mk_node 2 RESULT ''r'' [1]] []"

definition new_task :: exec_state where
  "new_task = new_state ''t'' ''q'' None"

definition sample_search :: "unit search_env" where
  "sample_search = \<lparr>se_ddg = \<lambda>q w. (Inl [], w), se_searxng = \<lambda>u q w. (Inl (ToolFailure []), w)\<rparr>"

definition calendar_planner :: "unit planner_env" where
  "calendar_planner =
     \<lparr>pe_settings = ne_settings sample_env, pe_harness = empty_harness, pe_router = ne_router sample_env,
      pe_cookbook = [], pe_dumps = (\<lambda>v. ''[]''), pe_parse = (\<lambda>t. Inr (JObj [(''nodes'', JList [])])), pe_str = sample_str,
      pe_repr = id, pe_hostname = id, pe_model = (\<lambda>kvs. Inr calendar_plan), pe_wait = (\<lambda>t w. (InTime, w)),
      pe_write = (\<lambda>a w. (None, w)), pe_value_error = (\<lambda>t. False)\<rparr>"

definition sample_parts :: "unit runtime_parts" where
  "sample_parts =
     \<lparr>rp_tools = plain_env, rp_web = page_env [], rp_search = sample_search, rp_plugins = [],
      rp_provider = (\<lambda>sp. \<lparr>pv_name = ''p'', pv_tier = spec_tier sp, pv_healthy = None,
        pv_complete = (\<lambda>msgs j mt w. (([text_chunk ''{}''], None), w))\<rparr>),
      rp_planner = calendar_planner, rp_nodes = sample_env, rp_request = (\<lambda>i t r a d w. (False, w)),
      rp_execute = (\<lambda>nodes. execute_driven (ne_settings nodes) (ne_str nodes) sample_node_result 20),
      rp_memory = \<lparr>so_load = (\<lambda>tid w. Some new_task), so_save = (\<lambda>st w. w), so_transition = (\<lambda>tid froms st w. (None, w))\<rparr>\<rparr>"

definition sample_executed :: "string + exec_state list" where
  "sample_executed =
     and_then (build_runtime sample_parts (ne_settings sample_env) None False) (\<lambda>rt.
       Inr (executed (oc_trace (snd (run_task (rt_orchestrator rt) ''t'' \<lparr>oc_world = (), oc_trace = []\<rparr>)))))"

lemma sample_executes: "case sample_executed of Inr [st] \<Rightarrow> True | _ \<Rightarrow> False"
  by code_simp


end
