(* ===== verification/EvalRunner.thy ===== *)
theory EvalRunner
  imports Prelude
begin

text \<open>
  One trial of the evaluation framework (\<open>eval-framework/evalkit/runner.py\<close>): fixtures are backed up,
  installed and restored around the call of the subject.  A file system maps paths to files and
  directories; a path is the list of its components.  Symbolic links and errors of the operating
  system are left out.
\<close>

section \<open>Files\<close>

type_synonym path = "string list"

datatype fs_node = FileNode string | DirNode

type_synonym fs = "path \<rightharpoonup> fs_node"

definition below :: "path \<Rightarrow> path \<Rightarrow> bool" where
  "below p q \<longleftrightarrow> take (length p) q = p"

text \<open>\<open>shutil.rmtree\<close>, \<open>shutil.copytree\<close>, and \<open>shutil.move\<close> to a path that does not exist.\<close>

definition remove_tree :: "path \<Rightarrow> fs \<Rightarrow> fs" where
  "remove_tree p f = (\<lambda>q. if below p q then None else f q)"

definition copy_tree :: "path \<Rightarrow> path \<Rightarrow> fs \<Rightarrow> fs" where
  "copy_tree p p' f = (\<lambda>q. if below p' q then f (p @ drop (length p') q) else f q)"

definition move_tree :: "path \<Rightarrow> path \<Rightarrow> fs \<Rightarrow> fs" where
  "move_tree p p' f = remove_tree p (copy_tree p p' f)"

definition remove_path :: "path \<Rightarrow> fs \<Rightarrow> fs" where
  "remove_path p f =
     (case f p of
        None \<Rightarrow> f
      | Some DirNode \<Rightarrow> remove_tree p f
      | Some (FileNode c) \<Rightarrow> f(p := None))"

section \<open>Backups\<close>

definition backup_suffix :: string where
  "backup_suffix = ''.evalbackup''"

definition backup_path :: "path \<Rightarrow> path" where
  "backup_path p = butlast p @ [last p @ backup_suffix]"

text \<open>\<open>_restore\<close>, \<open>_backup\<close> and \<open>_read_content\<close>; \<open>decode\<close> is UTF-8.\<close>

definition restore :: "path \<Rightarrow> fs \<Rightarrow> fs" where
  "restore p f =
     (if f (backup_path p) \<noteq> None then move_tree (backup_path p) p (remove_path p f) else remove_path p f)"

definition backup :: "path \<Rightarrow> fs \<Rightarrow> fs" where
  "backup p f =
     (let g = (if f (backup_path p) \<noteq> None then remove_path (backup_path p) f else f)
      in case g p of
           None \<Rightarrow> g
         | Some DirNode \<Rightarrow> copy_tree p (backup_path p) g
         | Some (FileNode c) \<Rightarrow> g(backup_path p \<mapsto> FileNode c))"

definition read_content :: "(string \<Rightarrow> string option) \<Rightarrow> path \<Rightarrow> fs \<Rightarrow> string option" where
  "read_content decode p f = (case f p of Some (FileNode c) \<Rightarrow> decode c | _ \<Rightarrow> None)"

section \<open>Tasks and trials\<close>

record eval_fixtures =
  fx_install :: "(string \<times> string option) list"
  fx_capture :: "string list"

record run_task_spec =
  rt_id :: string
  rt_path :: path
  rt_prompt :: string
  rt_fixtures :: eval_fixtures
  rt_context_files :: "(string \<times> string) list"

record run_result =
  rr_text :: string
  rr_trajectory :: "json list"
  rr_cost :: "pyfloat option"
  rr_tokens :: "int option"
  rr_success :: bool
  rr_error :: "string option"
  rr_envelope :: "(string \<times> json) list"
  rr_stdout :: string
  rr_stderr :: string
  rr_infra :: bool

record trial =
  tr_task :: string
  tr_run :: nat
  tr_result :: run_result
  tr_side_effects :: "(string \<times> string option) list"
  tr_baseline :: "(string \<times> string option) list"

definition no_result :: run_result where
  "no_result = \<lparr>rr_text = [], rr_trajectory = [], rr_cost = None, rr_tokens = None, rr_success = False, rr_error = None,
     rr_envelope = [], rr_stdout = [], rr_stderr = [], rr_infra = False\<rparr>"

text \<open>Keys of a dictionary come once; so do the managed paths.\<close>

definition managed_paths :: "run_task_spec \<Rightarrow> string list" where
  "managed_paths t = foldl (\<lambda>xs x. if x \<in> set xs then xs else xs @ [x]) [] (map fst (fx_install (rt_fixtures t)) @ fx_capture (rt_fixtures t))"

text \<open>What the trial finds outside: the home directory, the decoder, the split and the text
  of a path, \<open>repr\<close>, and the messages of the operating system.\<close>

record eval_env =
  ee_expand :: "string \<Rightarrow> path"
  ee_parts :: "string \<Rightarrow> path"
  ee_decode :: "string \<Rightarrow> string option"
  ee_show :: "path \<Rightarrow> string"
  ee_repr :: "string \<Rightarrow> string"
  ee_os_error :: "path \<Rightarrow> string"

definition fixture_candidates :: "eval_env \<Rightarrow> run_task_spec \<Rightarrow> string \<Rightarrow> path list" where
  "fixture_candidates en t src =
     [rt_path t @ [''fixtures''] @ ee_parts en src,
      butlast (butlast (rt_path t)) @ [''shared-fixtures''] @ ee_parts en src]"

definition find_fixture_source :: "eval_env \<Rightarrow> run_task_spec \<Rightarrow> string \<Rightarrow> fs \<Rightarrow> string + path" where
  "find_fixture_source en t src f =
     (case find (\<lambda>p. f p \<noteq> None) (fixture_candidates en t src) of
        None \<Rightarrow>
          Inl (''FileNotFoundError: fixture source '' @ ee_repr en src @ '' not found in ['' @
               join '', '' (map (\<lambda>p. ee_repr en (ee_show en p)) (fixture_candidates en t src)) @ '']'')
      | Some p \<Rightarrow> Inr p)"

text \<open>\<open>mkdir(parents=True, exist_ok=True)\<close>: an error when a file is in the way.\<close>

definition make_parents :: "eval_env \<Rightarrow> path \<Rightarrow> fs \<Rightarrow> string + fs" where
  "make_parents en p f =
     (let ps = map (\<lambda>k. take k p) [0 ..< length p]
      in if \<exists>q \<in> set ps. \<exists>c. f q = Some (FileNode c) then Inl (ee_os_error en p)
         else Inr (\<lambda>q. if q \<in> set ps then Some DirNode else f q))"

definition install_fixture :: "eval_env \<Rightarrow> run_task_spec \<Rightarrow> string \<times> string option \<Rightarrow> fs \<Rightarrow> fs \<times> string option" where
  "install_fixture en t d f =
     (let dest = ee_expand en (fst d)
      in case snd d of
           None \<Rightarrow> (remove_path dest f, None)
         | Some src \<Rightarrow>
             (case find_fixture_source en t src f of
                Inl e \<Rightarrow> (f, Some e)
              | Inr p \<Rightarrow>
                  (case make_parents en dest f of
                     Inl e \<Rightarrow> (f, Some e)
                   | Inr g \<Rightarrow>
                       (let h = remove_path dest g
                        in case h p of
                             Some DirNode \<Rightarrow> (copy_tree p dest h, None)
                           | Some (FileNode c) \<Rightarrow> (h(dest \<mapsto> FileNode c), None)
                           | None \<Rightarrow> (h, Some (ee_os_error en p))))))"

fun install_fixtures :: "eval_env \<Rightarrow> run_task_spec \<Rightarrow> (string \<times> string option) list \<Rightarrow> fs \<Rightarrow> fs \<times> string option" where
  "install_fixtures en t [] f = (f, None)"
| "install_fixtures en t (d # ds) f =
     (case install_fixture en t d f of
        (g, Some e) \<Rightarrow> (g, Some e)
      | (g, None) \<Rightarrow> install_fixtures en t ds g)"

definition scripted_responses :: "run_task_spec \<Rightarrow> fs \<Rightarrow> path option" where
  "scripted_responses t f =
     (let p = rt_path t @ [''fixtures'', ''responses.jsonl''] in if f p = None then None else Some p)"

definition exec_plan_prefix :: string where
  "exec_plan_prefix = ''__EXEC_PLAN__''"

definition fixtures_prefix :: string where
  "fixtures_prefix = ''fixtures/''"

definition context_block :: "(string \<times> string) list \<Rightarrow> string" where
  "context_block files =
     newline @ newline @ ''## Context files'' @ newline @
     concat (map (\<lambda>(name, txt). newline @ ''### '' @ name @ newline @ ''```'' @ newline @ txt @ newline @ ''```'' @ newline) files)"

definition build_prompt :: "eval_env \<Rightarrow> run_task_spec \<Rightarrow> fs \<Rightarrow> string + string" where
  "build_prompt en t f =
     (let raw = strip (rt_prompt t)
      in if starts_with exec_plan_prefix raw
         then (let d = strip (drop (length exec_plan_prefix) raw);
                   d' = (if starts_with fixtures_prefix d then drop (length fixtures_prefix) d else d)
               in and_then (find_fixture_source en t d' f) (\<lambda>p. Inr (ee_show en p)))
         else Inr (rt_prompt t @ (if rt_context_files t = [] then [] else context_block (rt_context_files t))))"

text \<open>
  The subject reads and changes files; an exception of it is on the left.  \<open>scripted\<close> says whether it
  takes a path of scripted responses.
\<close>

record subject =
  su_scripted :: bool
  su_run :: "string \<Rightarrow> path option \<Rightarrow> fs \<Rightarrow> (string + run_result) \<times> fs"

definition captured :: "eval_env \<Rightarrow> run_task_spec \<Rightarrow> fs \<Rightarrow> (string \<times> string option) list" where
  "captured en t f = map (\<lambda>raw. (raw, read_content (ee_decode en) (ee_expand en raw) f)) (fx_capture (rt_fixtures t))"

text \<open>The body of the \<open>try\<close>: the result, the captured files, and the files it leaves.\<close>

definition trial_body ::
  "eval_env \<Rightarrow> subject \<Rightarrow> run_task_spec \<Rightarrow> fs \<Rightarrow> (string + run_result \<times> (string \<times> string option) list) \<times> fs"
where
  "trial_body en su t f =
     (case install_fixtures en t (fx_install (rt_fixtures t)) f of
        (g, Some e) \<Rightarrow> (Inl e, g)
      | (g, None) \<Rightarrow>
          (case build_prompt en t g of
             Inl e \<Rightarrow> (Inl e, g)
           | Inr prompt \<Rightarrow>
               (case su_run su prompt (if su_scripted su then scripted_responses t g else None) g of
                  (Inl e, h) \<Rightarrow> (Inl e, h)
                | (Inr r, h) \<Rightarrow> (Inr (r, captured en t h), h))))"

definition restore_all :: "path list \<Rightarrow> fs \<Rightarrow> fs" where
  "restore_all ps f = foldl (\<lambda>g p. restore p g) f ps"

definition backup_all :: "path list \<Rightarrow> fs \<Rightarrow> fs" where
  "backup_all ps f = foldl (\<lambda>g p. backup p g) f ps"

definition run_trial :: "eval_env \<Rightarrow> subject \<Rightarrow> run_task_spec \<Rightarrow> nat \<Rightarrow> fs \<Rightarrow> trial \<times> fs" where
  "run_trial en su t k f0 =
     (let ps = map (ee_expand en) (managed_paths t);
          f = backup_all ps (restore_all ps f0)
      in case trial_body en su t f of
           (x, g) \<Rightarrow>
             (\<lparr>tr_task = rt_id t, tr_run = k,
               tr_result = (case x of Inl e \<Rightarrow> no_result\<lparr>rr_error := Some e, rr_infra := True\<rparr> | Inr (r, c) \<Rightarrow> r),
               tr_side_effects = (case x of Inl e \<Rightarrow> map (\<lambda>raw. (raw, None)) (fx_capture (rt_fixtures t)) | Inr (r, c) \<Rightarrow> c),
               tr_baseline = captured en t f\<rparr>,
              restore_all ps g))"

section \<open>What a trial does to the files\<close>

text \<open>Managed paths none of which lies at or under another one or its backup.\<close>

definition apart_paths :: "path list \<Rightarrow> bool" where
  "apart_paths ps \<longleftrightarrow> distinct ps \<and> [] \<notin> set ps \<and>
     (\<forall>p \<in> set ps. \<forall>p' \<in> set ps. p \<noteq> p' \<longrightarrow>
        \<not> below p' p \<and> \<not> below (backup_path p') p \<and> \<not> below p' (backup_path p) \<and> \<not> below (backup_path p') (backup_path p))"

lemma apart_pathsD:
  assumes "apart_paths ps" and "p \<in> set ps"
  shows "p \<noteq> []"
    and "p' \<in> set ps \<Longrightarrow> p' \<noteq> p \<Longrightarrow>
      \<not> below p' p \<and> \<not> below (backup_path p') p \<and> \<not> below p' (backup_path p) \<and> \<not> below (backup_path p') (backup_path p)"
  using assms unfolding apart_paths_def by metis+

lemma below_refl [simp]: "below p p"
  by (simp add: below_def)

lemma backup_apart: "p \<noteq> [] \<Longrightarrow> \<not> below p (backup_path p) \<and> \<not> below (backup_path p) p"
  by (cases p rule: rev_cases) (auto simp: below_def backup_path_def backup_suffix_def)

lemma remove_path_other: "\<not> below p q \<Longrightarrow> remove_path p f q = f q"
  by (auto simp: remove_path_def remove_tree_def below_def split: option.split fs_node.split)

lemma remove_path_self [simp]: "remove_path p f p = None"
  by (auto simp: remove_path_def remove_tree_def split: option.split fs_node.split)

lemma restore_other: "\<not> below p q \<Longrightarrow> \<not> below (backup_path p) q \<Longrightarrow> restore p f q = f q"
  by (simp add: restore_def move_tree_def remove_tree_def copy_tree_def remove_path_other)

lemma restore_self:
  assumes "p \<noteq> []"
  shows "restore p f p = f (backup_path p)" and "restore p f (backup_path p) = None"
  using backup_apart [OF assms]
  by (auto simp: restore_def move_tree_def remove_tree_def copy_tree_def remove_path_other)

lemma backup_other: "\<not> below p q \<Longrightarrow> \<not> below (backup_path p) q \<Longrightarrow> backup p f q = f q"
  by (auto simp: backup_def copy_tree_def remove_path_other Let_def split: option.split fs_node.split)

lemma backup_self:
  assumes "p \<noteq> []" and "f (backup_path p) = None"
  shows "backup p f p = f p" and "backup p f (backup_path p) = f p"
  using backup_apart [OF assms(1)] assms(2)
  by (auto simp: backup_def copy_tree_def Let_def split: option.split fs_node.split)

lemma all_other:
  assumes "\<forall>p \<in> set ps. \<not> below p q \<and> \<not> below (backup_path p) q"
  shows "restore_all ps f q = f q" and "backup_all ps f q = f q"
  using assms by (induction ps arbitrary: f) (simp_all add: restore_all_def backup_all_def restore_other backup_other)

lemma apart_split:
  assumes "apart_paths (xs @ p # ys)" and "q = p \<or> q = backup_path p"
  shows "\<forall>p' \<in> set xs \<union> set ys. \<not> below p' q \<and> \<not> below (backup_path p') q" and "p \<noteq> []"
  using assms unfolding apart_paths_def by auto

lemma restore_all_own:
  assumes "apart_paths ps" and "p \<in> set ps"
  shows "restore_all ps f p = f (backup_path p)" and "restore_all ps f (backup_path p) = None"
proof -
  obtain xs ys where ps: "ps = xs @ p # ys" using assms(2) by (auto simp: in_set_conv_decomp)
  note other = apart_split [OF assms(1) [unfolded ps]]
  have all: "restore_all ps f = restore_all ys (restore p (restore_all xs f))" by (simp add: ps restore_all_def)
  show "restore_all ps f p = f (backup_path p)" "restore_all ps f (backup_path p) = None"
    using other [of p] other [of "backup_path p"] all_other(1) [of xs "backup_path p" f]
    by (simp_all add: all all_other(1) restore_self)
qed

lemma backup_all_own:
  assumes "apart_paths ps" and "p \<in> set ps" and "f (backup_path p) = None"
  shows "backup_all ps f p = f p" and "backup_all ps f (backup_path p) = f p"
proof -
  obtain xs ys where ps: "ps = xs @ p # ys" using assms(2) by (auto simp: in_set_conv_decomp)
  note other = apart_split [OF assms(1) [unfolded ps]]
  have all: "backup_all ps f = backup_all ys (backup p (backup_all xs f))" by (simp add: ps backup_all_def)
  have "backup_all xs f p = f p" "backup_all xs f (backup_path p) = None"
    using other [of p] other [of "backup_path p"] assms(3) by (simp_all add: all_other(2))
  then show "backup_all ps f p = f p" "backup_all ps f (backup_path p) = f p"
    using other [of p] other [of "backup_path p"] by (simp_all add: all all_other(2) backup_self)
qed

text \<open>Fixtures are installed at managed paths, so the body leaves the backups alone when the subject does.\<close>

definition spares_backups :: "path list \<Rightarrow> subject \<Rightarrow> bool" where
  "spares_backups ps su \<longleftrightarrow>
     (\<forall>prompt s f. \<forall>p \<in> set ps. snd (su_run su prompt s f) (backup_path p) = f (backup_path p))"

lemma make_parents_other: "make_parents en p f = Inr g \<Longrightarrow> \<not> below q p \<Longrightarrow> g q = f q"
  by (auto simp: make_parents_def below_def Let_def split: if_splits)

lemma install_other:
  assumes "install_fixture en t d f = (g, e)" and "\<not> below (ee_expand en (fst d)) q" and "\<not> below q (ee_expand en (fst d))"
  shows "g q = f q"
  using assms make_parents_other [of en "ee_expand en (fst d)" f _ q]
  by (auto simp: install_fixture_def remove_path_other copy_tree_def Let_def
      split: option.splits sum.splits fs_node.splits)

lemma installs_other:
  "install_fixtures en t ds f = (g, e) \<Longrightarrow>
     \<forall>d \<in> set ds. \<not> below (ee_expand en (fst d)) q \<and> \<not> below q (ee_expand en (fst d)) \<Longrightarrow> g q = f q"
proof (induction ds arbitrary: f)
  case (Cons d ds)
  obtain h x where h: "install_fixture en t d f = (h, x)" by fastforce
  with Cons.prems(2) have "h q = f q" using install_other [OF h] by simp
  with Cons h show ?case by (cases x) auto
qed simp

lemma dedup_set: "set (foldl (\<lambda>xs x. if x \<in> set xs then xs else xs @ [x]) ys zs) = set ys \<union> set zs"
  by (induction zs arbitrary: ys) auto

lemma managed_paths_set:
  "set (managed_paths t) = fst ` set (fx_install (rt_fixtures t)) \<union> set (fx_capture (rt_fixtures t))"
  by (simp add: managed_paths_def dedup_set)

lemma body_spares:
  assumes "apart_paths (map (ee_expand en) (managed_paths t))" and "spares_backups (map (ee_expand en) (managed_paths t)) su"
    and "p \<in> set (map (ee_expand en) (managed_paths t))" and "trial_body en su t f = (x, g)"
  shows "g (backup_path p) = f (backup_path p)"
proof -
  obtain h e where h: "install_fixtures en t (fx_install (rt_fixtures t)) f = (h, e)" by fastforce
  have "\<not> below (ee_expand en (fst d)) (backup_path p) \<and> \<not> below (backup_path p) (ee_expand en (fst d))"
    if "d \<in> set (fx_install (rt_fixtures t))" for d
  proof -
    let ?d = "ee_expand en (fst d)"
    have d: "?d \<in> set (map (ee_expand en) (managed_paths t))" using that by (auto simp: managed_paths_set)
    show ?thesis
    proof (cases "?d = p")
      case True
      with backup_apart [OF apart_pathsD(1) [OF assms(1,3)]] show ?thesis by simp
    next
      case False
      then show ?thesis
        using apart_pathsD(2) [OF assms(1,3) d] apart_pathsD(2) [OF assms(1) d assms(3)] by simp
    qed
  qed
  then have same: "h (backup_path p) = f (backup_path p)" using installs_other [OF h] by blast
  have "g = h \<or> (\<exists>prompt s y. su_run su prompt s h = (y, g))"
    using assms(4) h by (cases e; cases "build_prompt en t h") (auto simp: trial_body_def split: sum.splits prod.splits)
  then show ?thesis using same assms(2,3) unfolding spares_backups_def by (metis snd_conv)
qed


text \<open>A task that only reads \<open>notes\<close>, and a subject that touches nothing.\<close>

definition sample_eval :: eval_env where
  "sample_eval = \<lparr>ee_expand = \<lambda>s. [s], ee_parts = \<lambda>s. [s], ee_decode = Some, ee_show = concat, ee_repr = id, ee_os_error = concat\<rparr>"

definition notes_task :: run_task_spec where
  "notes_task = \<lparr>rt_id = ''t'', rt_path = [''t''], rt_prompt = ''read notes'',
     rt_fixtures = \<lparr>fx_install = [], fx_capture = [''notes'']\<rparr>, rt_context_files = []\<rparr>"

definition idle_subject :: subject where
  "idle_subject = \<lparr>su_scripted = False, su_run = \<lambda>prompt s f. (Inr no_result, f)\<rparr>"


end
