(* ===== verification/EvalSubjects.thy ===== *)
theory EvalSubjects
  imports CommandLine EvalRunner
begin

text \<open>
  The systems a suite runs against (\<open>eval-framework/evalkit/subjects\<close>): Glassrail through its command
  line, with a fixed plan, and through its REST gateway, and the Claude command line.  A subprocess
  and an HTTP call are answers of the outside world; \<open>loads\<close> is \<open>json.loads\<close>, with \<open>None\<close> for text that
  is no JSON, and \<open>str\<close> is Python's on values that are no strings.
\<close>

section \<open>Numbers\<close>

text \<open>\<open>float(x)\<close> and \<open>int(x)\<close> under \<open>isinstance(x, (int, float))\<close>, which holds for booleans too.\<close>

fun number_float :: "json \<Rightarrow> pyfloat option" where
  "number_float (JInt i) = Some (Fin (of_int i))"
| "number_float (JBool b) = Some (Fin (of_bool b))"
| "number_float (JFloat f) = Some f"
| "number_float _ = None"

definition truncated :: "rat \<Rightarrow> int" where
  "truncated q = (if 0 \<le> q then \<lfloor>q\<rfloor> else \<lceil>q\<rceil>)"

fun number_int :: "json \<Rightarrow> string + int option" where
  "number_int (JInt i) = Inr (Some i)"
| "number_int (JBool b) = Inr (Some (of_bool b))"
| "number_int (JFloat (Fin q)) = Inr (Some (truncated q))"
| "number_int (JFloat NaN) = Inl ''ValueError: cannot convert float NaN to integer''"
| "number_int (JFloat _) = Inl ''OverflowError: cannot convert float infinity to integer''"
| "number_int _ = Inr None"

definition text_or_empty :: "json \<Rightarrow> string" where
  "text_or_empty v = (case v of JStr s \<Rightarrow> s | _ \<Rightarrow> [])"

definition failed_run :: "string \<Rightarrow> run_result" where
  "failed_run e = no_result\<lparr>rr_error := Some e, rr_infra := True\<rparr>"

section \<open>Glassrail's command line\<close>

type_synonym environ = "string \<rightharpoonup> string"

text \<open>The entries of a configuration that are lists of words, and the environment overrides.\<close>

definition command_of :: "(json \<Rightarrow> string) \<Rightarrow> string list \<Rightarrow> (string \<times> json) list \<Rightarrow> string list" where
  "command_of str dflt cfg =
     (case map_of cfg ''command'' of
        None \<Rightarrow> dflt
      | Some (JList ws) \<Rightarrow> map (str_of str) ws
      | Some v \<Rightarrow> [str_of str v])"

definition extra_args_of :: "(json \<Rightarrow> string) \<Rightarrow> (string \<times> json) list \<Rightarrow> string + string list" where
  "extra_args_of str cfg =
     (case jget_default cfg ''args'' (JList []) of
        JList ws \<Rightarrow> Inr (map (str_of str) ws)
      | JStr s \<Rightarrow> Inr (map (\<lambda>c. [c]) s)
      | JObj kvs \<Rightarrow> Inr (map fst kvs)
      | _ \<Rightarrow> Inl ''TypeError: object is not iterable'')"

definition env_overrides :: "(json \<Rightarrow> string) \<Rightarrow> (string \<times> json) list \<Rightarrow> string + (string \<times> string) list" where
  "env_overrides str cfg =
     (if \<not> truthy (jget cfg ''env'') then Inr []
      else case jget cfg ''env'' of
             JObj kvs \<Rightarrow> Inr (map (\<lambda>(k, v). (k, str_of str v)) kvs)
           | _ \<Rightarrow> Inl ''AttributeError: object has no attribute items'')"

definition cli_config ::
  "(json \<Rightarrow> string) \<Rightarrow> string list \<Rightarrow> (string \<times> json) list \<Rightarrow> string + string list \<times> string list \<times> (string \<times> string) list"
where
  "cli_config str dflt cfg =
     and_then (extra_args_of str cfg) (\<lambda>extra.
       and_then (env_overrides str cfg) (\<lambda>overrides. Inr (command_of str dflt cfg, extra, overrides)))"

definition tier_var :: "nat \<Rightarrow> string \<Rightarrow> string" where
  "tier_var k field = ''GLASSRAIL_TIER'' @ str_nat k @ ''__'' @ field"

definition openrouter_base_url :: string where
  "openrouter_base_url = ''https://openrouter.ai/api/v1''"

definition unset :: "environ \<Rightarrow> string \<Rightarrow> bool" where
  "unset env k \<longleftrightarrow> env k = None \<or> env k = Some []"

definition needs_key :: "environ \<Rightarrow> nat \<Rightarrow> bool" where
  "needs_key env k \<longleftrightarrow> env (tier_var k ''BASE_URL'') = Some openrouter_base_url \<and> unset env (tier_var k ''API_KEY'')"

text \<open>\<open>None\<close> is the environment of the suite itself.\<close>

definition build_env :: "environ \<Rightarrow> (string \<times> string) list \<Rightarrow> environ option" where
  "build_env base overrides =
     (if overrides = [] then None
      else let env = base ++ map_of (rev overrides)
           in if unset env ''OPENROUTER_API_KEY'' then Some env
              else Some (foldl (\<lambda>e k. if needs_key e k then e(tier_var k ''API_KEY'' := env ''OPENROUTER_API_KEY'') else e)
                     env [0 ..< 4]))"

definition missing_keys :: "environ option \<Rightarrow> string option" where
  "missing_keys env =
     (case env of
        None \<Rightarrow> None
      | Some e \<Rightarrow>
          (case filter (needs_key e) [0 ..< 4] of
             [] \<Rightarrow> None
           | ks \<Rightarrow> Some (''missing OpenRouter credentials for '' @ join '', '' (map (\<lambda>k. tier_var k ''API_KEY'') ks) @
                         ''; set OPENROUTER_API_KEY'')))"

datatype cli_end = CliTimesOut string string | CliMissing | CliEnds int string string

definition first_object :: "(string \<Rightarrow> json option) \<Rightarrow> string list \<Rightarrow> (string \<times> json) list option" where
  "first_object loads ls =
     (case List.map_filter (\<lambda>l. if strip l = [] then None
          else case loads (strip l) of Some (JObj e) \<Rightarrow> Some e | _ \<Rightarrow> None) ls of
        [] \<Rightarrow> None
      | e # es \<Rightarrow> Some e)"

definition parse_envelope :: "(string \<Rightarrow> json option) \<Rightarrow> string \<Rightarrow> (string \<times> json) list option" where
  "parse_envelope loads stdout =
     (let t = strip stdout
      in if t = [] then None
         else case loads t of
                Some (JObj e) \<Rightarrow> Some e
              | Some _ \<Rightarrow> None
              | None \<Rightarrow> first_object loads (rev (splitlines [] t)))"

text \<open>The error of a parsed envelope, and of its exit code.\<close>

definition envelope_error :: "int \<Rightarrow> (string \<times> json) list \<Rightarrow> string option" where
  "envelope_error code e =
     (if jget e ''is_error'' = JBool True
      then Some (case jget e ''status'' of
                   JStr s \<Rightarrow> if s = [] then ''glassrail task failed'' else ''glassrail task '' @ s
                 | _ \<Rightarrow> ''glassrail task failed'')
      else if code \<noteq> 0 then Some (''glassrail CLI exited '' @ str_int code) else None)"

definition envelope_text :: "(json \<Rightarrow> string) \<Rightarrow> (string \<times> json) list \<Rightarrow> string" where
  "envelope_text str e =
     (let t = text_or_empty (jget e ''result'')
      in if t = [] \<and> jget e ''status'' = JStr ''rejected''
         then (if truthy (jget e ''error'') then str_of str (jget e ''error'') else []) else t)"

definition result_from_proc ::
  "(string \<Rightarrow> json option) \<Rightarrow> (json \<Rightarrow> string) \<Rightarrow> int \<Rightarrow> string \<Rightarrow> string \<Rightarrow> string + run_result"
where
  "result_from_proc loads str code stdout stderr =
     (let parsed = parse_envelope loads stdout;
          e = (case parsed of None \<Rightarrow> [] | Some e \<Rightarrow> e);
          err = (if parsed = None then Some ''could not parse glassrail envelope'' else envelope_error code e)
      in and_then (number_int (jget e ''total_tokens'')) (\<lambda>tokens.
           Inr \<lparr>rr_text = envelope_text str e,
                rr_trajectory = (case jget e ''trajectory'' of JList ss \<Rightarrow> ss | _ \<Rightarrow> []),
                rr_cost = number_float (jget e ''total_cost_usd''), rr_tokens = tokens,
                rr_success = (code = 0 \<and> jget e ''is_error'' \<noteq> JBool True \<and> err = None),
                rr_error = err, rr_envelope = e, rr_stdout = stdout, rr_stderr = stderr, rr_infra = (parsed = None)\<rparr>))"

text \<open>What the subject makes of the end of its process; \<open>name\<close> is the first word of the command, as \<open>repr\<close>.\<close>

definition cli_result :: "(string \<Rightarrow> json option) \<Rightarrow> (json \<Rightarrow> string) \<Rightarrow> string \<Rightarrow> cli_end \<Rightarrow> string + run_result" where
  "cli_result loads str name r =
     (case r of
        CliTimesOut out err \<Rightarrow>
          Inr ((failed_run ''timed out'')\<lparr>rr_stdout := out, rr_stderr := err @ newline @ ''[timed out]''\<rparr>)
      | CliMissing \<Rightarrow> Inr (failed_run (''glassrail CLI not found: '' @ name))
      | CliEnds code out err \<Rightarrow> result_from_proc loads str code out err)"

definition cli_command :: "string list \<Rightarrow> string list \<Rightarrow> string \<Rightarrow> string \<Rightarrow> int \<Rightarrow> string list" where
  "cli_command command extra prompt model timeout =
     command @ [prompt, ''--json''] @ (if model \<noteq> [] then [''--model'', model] else []) @
     (if timeout \<noteq> 0 then [''--timeout'', str_int timeout] else []) @ extra"

definition run_cli ::
  "(string \<Rightarrow> json option) \<Rightarrow> (json \<Rightarrow> string) \<Rightarrow> (string \<Rightarrow> string) \<Rightarrow> environ \<Rightarrow>
     (string list \<Rightarrow> environ option \<Rightarrow> int \<Rightarrow> 'w \<Rightarrow> cli_end \<times> 'w) \<Rightarrow> string list \<times> string list \<times> (string \<times> string) list \<Rightarrow>
     string \<Rightarrow> string \<Rightarrow> int \<Rightarrow> 'w \<Rightarrow> (string + run_result) \<times> 'w"
where
  "run_cli loads str repr base spawn cfg prompt model timeout w =
     (case cfg of
        (command, extra, overrides) \<Rightarrow>
          (case missing_keys (build_env base overrides) of
             Some e \<Rightarrow> (Inr (failed_run e), w)
           | None \<Rightarrow>
               (case spawn (cli_command command extra prompt model timeout) (build_env base overrides) timeout w of
                  (r, w') \<Rightarrow> (cli_result loads str (repr (hd command)) r, w'))))"

definition run_exec_plan ::
  "(string \<Rightarrow> json option) \<Rightarrow> (json \<Rightarrow> string) \<Rightarrow> (string \<Rightarrow> string) \<Rightarrow> environ \<Rightarrow>
     (string list \<Rightarrow> environ option \<Rightarrow> int \<Rightarrow> 'w \<Rightarrow> cli_end \<times> 'w) \<Rightarrow> string list \<times> string list \<times> (string \<times> string) list \<Rightarrow>
     string option \<Rightarrow> string \<Rightarrow> int \<Rightarrow> 'w \<Rightarrow> (string + run_result) \<times> 'w"
where
  "run_exec_plan loads str repr base spawn cfg scripted prompt timeout w =
     (case cfg of
        (command, extra, overrides) \<Rightarrow>
          if strip prompt = [] then (Inr (failed_run ''exec-plan: no plan path provided''), w)
          else let env = base ++ map_of (rev overrides);
                   env' = (case scripted of
                             None \<Rightarrow> env
                           | Some p \<Rightarrow> if p = [] then env
                               else foldl (\<lambda>e k. e(tier_var k ''SCRIPTED_PATH'' \<mapsto> p)) env [0 ..< 4])
               in case spawn (command @ [strip prompt, ''--json''] @ extra) (Some env') timeout w of
                    (r, w') \<Rightarrow> (cli_result loads str (repr (hd command)) r, w'))"

section \<open>The REST gateway\<close>

text \<open>\<open>str(x)\<close> of an id.\<close>

definition key_text :: "(json \<Rightarrow> string) \<Rightarrow> json \<Rightarrow> string" where
  "key_text str v = (case v of JStr s \<Rightarrow> s | JInt i \<Rightarrow> str_int i | _ \<Rightarrow> str v)"

definition state_token :: "(json \<Rightarrow> string) \<Rightarrow> (string \<times> json) list \<Rightarrow> string" where
  "state_token str n =
     (let ty = key_text str (jget_default n ''type'' (JStr ''node''))
      in if ty = ''tool''
         then (if truthy (jget n ''tool'') then key_text str (jget n ''tool'') else ''tool'') else ty)"

definition state_step :: "(json \<Rightarrow> string) \<Rightarrow> (string \<times> json) list \<Rightarrow> (string \<times> json) list \<Rightarrow> json" where
  "state_step str n r =
     JObj [(''tool'', JStr (state_token str n)),
           (''input'', if truthy (jget n ''args_template'') then jget n ''args_template'' else JObj []),
           (''node_id'', jget n ''id''), (''node_type'', jget n ''type''), (''tier_used'', jget r ''tier_used''),
           (''status'', jget r ''status''), (''confidence'', jget_default r ''confidence'' (JFloat (Fin 1))),
           (''flagged'', jget_default r ''flagged'' (JBool False)), (''retries'', jget_default r ''retries'' (JInt 0)),
           (''branch_taken'', jget r ''branch_taken'')]"

definition json_objects :: "json list \<Rightarrow> (string \<times> json) list list" where
  "json_objects vs = List.map_filter (\<lambda>v. case v of JObj n \<Rightarrow> Some n | _ \<Rightarrow> None) vs"

text \<open>
  The state is that of the gateway's answer; \<open>None\<close> stands for the exception of the code on a state
  whose parts are not of the shape that the gateway sends.
\<close>

definition object_or_empty :: "json \<Rightarrow> (string \<times> json) list option" where
  "object_or_empty v = (if \<not> truthy v then Some [] else case v of JObj o' \<Rightarrow> Some o' | _ \<Rightarrow> None)"

definition state_order :: "(string \<times> json) list \<Rightarrow> json list \<Rightarrow> json list option" where
  "state_order plan nodes =
     (if truthy (jget plan ''sorted_node_ids'')
      then (case jget plan ''sorted_node_ids'' of JList ids \<Rightarrow> Some ids | _ \<Rightarrow> None)
      else if list_all (\<lambda>v. case v of JObj n \<Rightarrow> True | _ \<Rightarrow> False) nodes
      then Some (map (\<lambda>n. jget n ''id'') (json_objects nodes)) else None)"

definition trajectory_from_state :: "(json \<Rightarrow> string) \<Rightarrow> (string \<times> json) list \<Rightarrow> json list option" where
  "trajectory_from_state str st =
     (case object_or_empty (jget st ''plan'') of
        None \<Rightarrow> None
      | Some plan \<Rightarrow>
          (case jget_default plan ''nodes'' (JList []) of
             JList nodes \<Rightarrow>
               (let by_id = map_of (rev (map (\<lambda>n. (key_text str (jget n ''id''), n)) (json_objects nodes)));
                    results = jget st ''results'';
                    result_of = (\<lambda>k. case results of JObj rs \<Rightarrow> (case jget rs k of JObj r \<Rightarrow> r | _ \<Rightarrow> []) | _ \<Rightarrow> [])
                in map_option
                     (List.map_filter (\<lambda>v. map_option (\<lambda>n. state_step str n (result_of (key_text str v))) (by_id (key_text str v))))
                     (state_order plan nodes))
           | _ \<Rightarrow> None))"

text \<open>\<open>int(r.get("tokens_used", 0))\<close>; \<open>int_text\<close> reads a string.\<close>

definition tokens_used :: "(string \<Rightarrow> int option) \<Rightarrow> (string \<times> json) list \<Rightarrow> int option" where
  "tokens_used int_text r =
     (case jget_default r ''tokens_used'' (JInt 0) of
        JStr s \<Rightarrow> int_text s
      | v \<Rightarrow> (case number_int v of Inl e \<Rightarrow> None | Inr t \<Rightarrow> t))"

definition sum_tokens :: "(string \<Rightarrow> int option) \<Rightarrow> json list \<Rightarrow> int option" where
  "sum_tokens int_text vs =
     (let ts = map (tokens_used int_text) (json_objects vs) in if None \<in> set ts then None else Some (sum_list (map the ts)))"

definition state_error :: "(string \<times> json) list \<Rightarrow> json" where
  "state_error st =
     (if jget st ''status'' = JStr ''failed''
      then (if truthy (jget st ''error'') then jget st ''error'' else JStr ''task failed'') else JNull)"

definition result_from_state ::
  "(json \<Rightarrow> string) \<Rightarrow> (string \<Rightarrow> int option) \<Rightarrow> (json \<Rightarrow> string) \<Rightarrow> (string \<times> json) list \<Rightarrow> run_result option"
where
  "result_from_state str int_text dumps st =
     (case (trajectory_from_state str st, object_or_empty (jget st ''results''),
            if truthy (jget st ''planning_attempts'')
            then (case jget st ''planning_attempts'' of JList as \<Rightarrow> Some as | _ \<Rightarrow> None) else Some []) of
        (Some steps, Some rs, Some as) \<Rightarrow>
          (case (sum_tokens int_text (map snd rs), sum_tokens int_text as) of
             (Some x, Some p) \<Rightarrow>
               Some \<lparr>rr_text = text_or_empty (jget st ''final_output''), rr_trajectory = steps, rr_cost = None, rr_tokens = Some (p + x),
                 rr_success = (jget st ''status'' = JStr ''completed'' \<and> state_error st = JNull),
                 rr_error = (if state_error st = JNull then None else Some (str_of str (state_error st))),
                 rr_envelope = AList.update ''total_tokens'' (JInt (p + x)) st, rr_stdout = dumps (JObj st), rr_stderr = [],
                 rr_infra = False\<rparr>
           | _ \<Rightarrow> None)
      | _ \<Rightarrow> None)"

text \<open>
  The polling loop, over the readings of the clock and the answers of the gateway, json_objects or caught
  errors.  The list is what the world holds for it; \<open>None\<close> says that it would poll further.
\<close>

datatype poll_end = PollFinal "(string \<times> json) list" | PollTimesOut "(string \<times> json) list" | PollFails string

definition terminal_statuses :: "json set" where
  "terminal_statuses = {JStr ''completed'', JStr ''failed'', JStr ''awaiting_confirmation''}"

fun poll :: "rat \<Rightarrow> (string \<times> json) list \<Rightarrow> (rat \<times> (string + (string \<times> json) list)) list \<Rightarrow> poll_end option" where
  "poll deadline st [] = None"
| "poll deadline st ((now, answer) # rest) =
     (if deadline \<le> now then Some (PollTimesOut st)
      else case answer of
             Inl e \<Rightarrow> Some (PollFails e)
           | Inr st' \<Rightarrow> if jget st' ''status'' \<in> terminal_statuses then Some (PollFinal st') else poll deadline st' rest)"

definition gateway_result ::
  "(json \<Rightarrow> string) \<Rightarrow> (string \<Rightarrow> int option) \<Rightarrow> (json \<Rightarrow> string) \<Rightarrow> poll_end \<Rightarrow> run_result option"
where
  "gateway_result str int_text dumps e =
     (case e of
        PollFinal st \<Rightarrow> result_from_state str int_text dumps st
      | PollTimesOut st \<Rightarrow> Some ((failed_run ''timed out'')\<lparr>rr_envelope := st\<rparr>)
      | PollFails t \<Rightarrow> Some (failed_run (''gateway poll failed: '' @ t)))"

text \<open>\<open>run\<close>: \<open>submitted\<close> is the answer to \<open>POST /task\<close>; the clock starts after it.\<close>

definition run_gateway ::
  "(json \<Rightarrow> string) \<Rightarrow> (string \<Rightarrow> int option) \<Rightarrow> (json \<Rightarrow> string) \<Rightarrow> string + (string \<times> json) list \<Rightarrow> rat \<Rightarrow> rat \<Rightarrow>
     (rat \<times> (string + (string \<times> json) list)) list \<Rightarrow> run_result option option"
where
  "run_gateway str int_text dumps submitted start timeout polls =
     (case submitted of
        Inl e \<Rightarrow> Some (Some (failed_run (''gateway unreachable: '' @ e)))
      | Inr r \<Rightarrow>
          if \<not> truthy (jget r ''task_id'')
          then Some (Some ((failed_run ''gateway returned no task_id'')\<lparr>rr_envelope := r\<rparr>))
          else map_option (gateway_result str int_text dumps) (poll (start + timeout) [] polls))"

section \<open>Claude's command line\<close>

definition clean_env :: "environ \<Rightarrow> environ" where
  "clean_env env = (\<lambda>k. if starts_with ''CLAUDE_CODE'' k \<or> k = ''AI_AGENT'' then None else env k)"

definition claude_command :: "string \<Rightarrow> string \<Rightarrow> string \<Rightarrow> int option \<Rightarrow> string option \<Rightarrow> string list" where
  "claude_command prompt model fmt turns mode =
     [''claude'', ''-p'', prompt, ''--model'', model, ''--output-format'', fmt] @
     (case turns of None \<Rightarrow> [] | Some n \<Rightarrow> [''--max-turns'', str_int n]) @
     (case mode of None \<Rightarrow> [] | Some m \<Rightarrow> [''--permission-mode'', m])"

text \<open>Exit code, outputs, and whether the time ran out.\<close>

fun claude_end :: "cli_end \<Rightarrow> int \<times> string \<times> string \<times> bool" where
  "claude_end (CliTimesOut out err) = (124, out, err @ newline @ ''[timed out]'', True)"
| "claude_end CliMissing = (127, [], ''claude CLI not found on PATH'', False)"
| "claude_end (CliEnds code out err) = (code, out, err, False)"

definition extract_result_text :: "(string \<Rightarrow> json option) \<Rightarrow> string \<Rightarrow> string" where
  "extract_result_text loads stdout =
     (case loads stdout of
        Some (JObj e) \<Rightarrow> (case jget e ''result'' of JStr s \<Rightarrow> s | _ \<Rightarrow> stdout)
      | _ \<Rightarrow> stdout)"

definition tool_blocks :: "json \<Rightarrow> json list" where
  "tool_blocks message =
     (case message of
        JObj m \<Rightarrow>
          (case jget m ''content'' of
             JList bs \<Rightarrow> map (\<lambda>b. JObj [(''tool'', jget_default b ''name'' (JStr [])), (''input'', jget_default b ''input'' (JObj []))])
                          (filter (\<lambda>b. jget b ''type'' = JStr ''tool_use'') (json_objects bs))
           | _ \<Rightarrow> [])
      | _ \<Rightarrow> [])"

definition extract_trajectory :: "(string \<times> json) list \<Rightarrow> json list" where
  "extract_trajectory e = (case jget e ''messages'' of JList ms \<Rightarrow> concat (map tool_blocks ms) | _ \<Rightarrow> [])"

text \<open>\<open>bad_json\<close> is the text of the parser's exception.\<close>

definition claude_result :: "(string \<Rightarrow> json option) \<Rightarrow> (string \<Rightarrow> string) \<Rightarrow> cli_end \<Rightarrow> run_result" where
  "claude_result loads bad_json r =
     (case claude_end r of
        (code, out, err, late) \<Rightarrow>
          (let parsed = (if strip out = [] then Some JNull else loads out);
               e = (case parsed of Some (JObj e) \<Rightarrow> e | _ \<Rightarrow> []);
               error = (if late then Some ''timed out''
                        else if parsed = None then Some (''could not parse envelope: '' @ bad_json out) else None)
           in \<lparr>rr_text = text_or_empty (jget e ''result''), rr_trajectory = extract_trajectory e,
               rr_cost = number_float (jget e ''total_cost_usd''), rr_tokens = None,
               rr_success = (code = 0 \<and> error = None \<and> jget e ''is_error'' \<noteq> JBool True), rr_error = error, rr_envelope = e,
               rr_stdout = out, rr_stderr = err, rr_infra = (late \<or> code = 127 \<or> (strip out \<noteq> [] \<and> e = []))\<rparr>))"

section \<open>The registry\<close>

datatype backend = ClaudeCli | GlassrailCli | GlassrailExecPlan | GlassrailGateway | OpenAICompatible | ReactLoop

definition backends :: "(string \<times> backend) list" where
  "backends =
     [(''claude-cli'', ClaudeCli), (''glassrail-cli'', GlassrailCli), (''glassrail-exec-plan'', GlassrailExecPlan),
      (''glassrail-gateway'', GlassrailGateway), (''openai-compat'', OpenAICompatible), (''react-loop'', ReactLoop)]"

definition build_subject :: "(string \<Rightarrow> string) \<Rightarrow> string \<Rightarrow> string + backend" where
  "build_subject repr name =
     (case map_of backends name of
        Some b \<Rightarrow> Inr b
      | None \<Rightarrow> Inl (''unknown backend '' @ repr name @ ''; choose from ['' @ join '', '' (map (\<lambda>b. repr (fst b)) backends) @ '']''))"

section \<open>Ids as keys\<close>

lemma str_nat_unfold: "str_nat n = (if n < 10 then [] else str_nat (n div 10)) @ [char_of (48 + n mod 10)]"
  by (subst str_nat.simps) simp

lemma str_nat_ne [simp]: "str_nat n \<noteq> []"
  by (subst str_nat_unfold) simp

lemma digit_char: "d < 10 \<Longrightarrow> of_char (char_of (48 + d) :: char) = (48 + d :: nat)"
  by simp

lemma str_nat_inj: "str_nat m = str_nat n \<Longrightarrow> m = n"
proof (induction m arbitrary: n rule: less_induct)
  case (less m)
  have eq: "(if m < 10 then [] else str_nat (m div 10)) = (if n < 10 then [] else str_nat (n div 10))"
    "(char_of (48 + m mod 10) :: char) = char_of (48 + n mod 10)"
    using less.prems by (subst (asm) str_nat_unfold, subst (asm) (2) str_nat_unfold, simp)+
  then have last: "m mod 10 = n mod 10"
    using digit_char [of "m mod 10"] digit_char [of "n mod 10"] by simp
  show ?case
  proof (cases "m < 10")
    case True
    with eq(1) have "n < 10" by (metis str_nat_ne)
    with True last show ?thesis by simp
  next
    case False
    with eq(1) have "\<not> n < 10" by (metis str_nat_ne)
    with False eq(1) have "m div 10 = n div 10" by (intro less.IH) simp_all
    with last show ?thesis by (metis div_mult_mod_eq)
  qed
qed

lemma str_nat_digits: "c \<in> set (str_nat n) \<Longrightarrow> 48 \<le> (of_char c :: nat)"
proof (induction n rule: str_nat.induct)
  case (1 n)
  then show ?case
    using digit_char [of "n mod 10"] by (subst (asm) (2) str_nat_unfold) (auto split: if_splits)
qed

lemma str_int_inj:
  assumes "str_int i = str_int j"
  shows "i = j"
proof -
  have minus: "CHR ''-'' # s \<noteq> str_nat n" for s n
  proof
    assume "CHR ''-'' # s = str_nat n"
    then have "CHR ''-'' \<in> set (str_nat n)" by (metis list.set_intros(1))
    from str_nat_digits [OF this] show False by simp
  qed
  have "(i < 0) = (j < 0)" "nat \<bar>i\<bar> = nat \<bar>j\<bar>"
    using assms minus minus [symmetric] by (auto simp: str_int_def split: if_splits dest: str_nat_inj)
  then show ?thesis by linarith
qed

lemma map_of_ids: "map_of (map (\<lambda>(i, r). (str_int i, f r)) xs) (str_int k) = map_option f (map_of xs k)"
  by (induction xs) (auto dest: str_int_inj)

lemma map_of_node_ids:
  "map_of (rev (map (\<lambda>n. (str_int (n_id n), f n)) ns)) (str_int k) = map_option f (map_of (rev (map (\<lambda>n. (n_id n, n)) ns)) k)"
  using map_of_ids [of f "rev (map (\<lambda>n. (n_id n, n)) ns)" k] by (simp add: rev_map comp_def)

lemma jget_simps:
  "jget [] k = JNull" "jget ((k', v) # kvs) k = (if k' = k then v else jget kvs k)"
  "jget_default [] k d = d" "jget_default ((k', v) # kvs) k d = (if k' = k then v else jget_default kvs k d)"
  by (simp_all add: jget_def jget_default_def)

section \<open>Steps of the two subjects\<close>

definition step_field :: "json \<Rightarrow> string \<Rightarrow> json" where
  "step_field s k = (case s of JObj kvs \<Rightarrow> jget kvs k | _ \<Rightarrow> JNull)"

text \<open>Where a step of the gateway's subject \<open>g\<close> agrees with the step \<open>c\<close> the command line printed.\<close>

definition same_step :: "json \<Rightarrow> json \<Rightarrow> bool" where
  "same_step g c \<longleftrightarrow>
     list_all (\<lambda>k. step_field g k = step_field c k)
       [''tool'', ''input'', ''node_id'', ''node_type'', ''tier_used'', ''confidence'', ''flagged'', ''retries'', ''branch_taken''] \<and>
     (step_field g ''status'' = step_field c ''status'' \<or> step_field g ''status'' = JNull \<and> step_field c ''status'' = JStr ''pending'') \<and>
     step_field g ''output'' = JNull \<and> step_field g ''args_used'' = JNull"

lemma dumped_node_fields:
  "jget (node_dump n) ''id'' = JInt (n_id n)" "jget (node_dump n) ''type'' = JStr (node_type_value (n_type n))"
  "jget_default (node_dump n) ''type'' d = JStr (node_type_value (n_type n))"
  "jget (node_dump n) ''tool'' = json_of_option JStr (n_tool n)"
  "jget (node_dump n) ''args_template'' = json_of_option JObj (n_args_template n)"
  by (cases n, simp add: jget_def jget_default_def)+

lemma node_type_tool: "node_type_value t = ''tool'' \<longleftrightarrow> t = TOOL"
  by (cases t) simp_all

lemma token_agrees: "state_token str (node_dump n) = node_token n"
  by (auto simp: state_token_def node_token_def dumped_node_fields key_text_def node_type_tool json_of_option_def
      split: option.split)

lemma step_agrees:
  "same_step (state_step str (node_dump n) (case found of None \<Rightarrow> [] | Some r \<Rightarrow> result_dump r)) (trajectory_step dumps str n found)"
  by (cases found)
    (auto simp: same_step_def step_field_def state_step_def trajectory_step_def result_dump_def token_agrees dumped_node_fields
      jget_simps json_of_option_def split: option.split)

lemma objects_JObj: "json_objects (map (\<lambda>n. JObj (f n)) ns) = map f ns"
  by (induction ns) (simp_all add: json_objects_def List.map_filter_def)

lemma order_of_dump:
  "state_order (plan_dump p) (map (\<lambda>n. JObj (node_dump n)) (p_nodes p)) =
     Some (map JInt (if p_sorted_node_ids p = [] then map n_id (p_nodes p) else p_sorted_node_ids p))"
  by (cases p) (auto simp: state_order_def jget_simps json_ints_def objects_JObj dumped_node_fields list_all_iff comp_def)

definition found_result :: "exec_state \<Rightarrow> node_id \<Rightarrow> (string \<times> json) list" where
  "found_result st i = (case map_of (s_results st) i of None \<Rightarrow> [] | Some r \<Rightarrow> result_dump r)"

lemma result_lookup:
  "(case jget (state_dump st) ''results'' of
      JObj rs \<Rightarrow> (case jget rs (str_int i) of JObj r \<Rightarrow> r | _ \<Rightarrow> []) | _ \<Rightarrow> []) = found_result st i"
  by (simp add: state_dump_def jget_simps jget_def [of "map _ _"] map_of_ids found_result_def split: option.split)

lemma key_text_int: "key_text str (JInt i) = str_int i"
  by (simp add: key_text_def)

lemma map_filter_ints:
  "(\<And>i. f (JInt i) = g (JInt i)) \<Longrightarrow> List.map_filter f (map JInt is) = List.map_filter g (map JInt is)"
  by (induction "is") (simp_all add: List.map_filter_simps split: option.split)

lemma steps_of_ids:
  assumes "\<And>i n. look i = Some n \<Longrightarrow> n_id n = i"
  shows "List.map_filter (\<lambda>v. map_option (\<lambda>n. f n (found (key_text str v))) (map_option node_dump (case v of JInt i \<Rightarrow> look i | _ \<Rightarrow> None)))
      (map JInt is) = map (\<lambda>n. f (node_dump n) (found (str_int (n_id n)))) (List.map_filter look is)"
proof (induction "is")
  case (Cons i "is")
  then show ?case
    using assms [of i] by (cases "look i") (simp_all add: List.map_filter_simps key_text_def)
qed (simp add: List.map_filter_simps)

lemma trajectory_of_dump:
  "trajectory_from_state str (state_dump st) =
     Some (case s_plan st of
             None \<Rightarrow> []
           | Some p \<Rightarrow> map (\<lambda>n. state_step str (node_dump n) (found_result st (n_id n))) (trajectory_nodes p))"
proof (cases "s_plan st")
  case None
  then show ?thesis
    by (simp add: trajectory_from_state_def state_dump_def jget_simps json_of_option_def object_or_empty_def
        state_order_def json_objects_def List.map_filter_simps)
next
  case (Some p)
  let ?look = "map_of (rev (map (\<lambda>n. (n_id n, n)) (p_nodes p)))"
  let ?ids = "if p_sorted_node_ids p = [] then map n_id (p_nodes p) else p_sorted_node_ids p"
  let ?by_id = "map_of (rev (map (\<lambda>n. (key_text str (jget n ''id''), n)) (json_objects (map (\<lambda>n. JObj (node_dump n)) (p_nodes p)))))"
  let ?result = "\<lambda>k. case jget (state_dump st) ''results'' of
      JObj rs \<Rightarrow> (case jget rs k of JObj r \<Rightarrow> r | _ \<Rightarrow> []) | _ \<Rightarrow> []"
  have plan: "object_or_empty (jget (state_dump st) ''plan'') = Some (plan_dump p)"
    "jget_default (plan_dump p) ''nodes'' d = JList (map (\<lambda>n. JObj (node_dump n)) (p_nodes p))" for d
    using Some by (cases p, simp add: state_dump_def jget_simps json_of_option_def object_or_empty_def)+
  have by_id: "?by_id (str_int i) = map_option node_dump (?look i)" for i
    using map_of_node_ids [of node_dump "p_nodes p" i]
    by (simp add: objects_JObj comp_def dumped_node_fields key_text_int)
  have id: "n_id n = i" if "?look i = Some n" for i n
    using map_of_SomeD [OF that] by auto
  have "List.map_filter (\<lambda>v. map_option (\<lambda>n. state_step str n (?result (key_text str v))) (?by_id (key_text str v))) (map JInt ?ids) =
      List.map_filter (\<lambda>v. map_option (\<lambda>n. state_step str n (?result (key_text str v)))
        (map_option node_dump (case v of JInt i \<Rightarrow> ?look i | _ \<Rightarrow> None))) (map JInt ?ids)"
    by (rule map_filter_ints) (simp only: key_text_int by_id json.case)
  also have "\<dots> = map (\<lambda>n. state_step str (node_dump n) (?result (str_int (n_id n)))) (List.map_filter ?look ?ids)"
    by (rule steps_of_ids [OF id])
  finally show ?thesis
    unfolding trajectory_from_state_def plan option.case json.case Let_def order_of_dump
    by (simp add: Some trajectory_nodes_def result_lookup)
qed

lemma tokens_of_dumps:
  "tokens_used int_text (result_dump r) = Some (r_tokens_used r)"
  "tokens_used int_text (attempt_dump a) = Some (a_tokens_used a)"
  by (simp_all add: tokens_used_def result_dump_def attempt_dump_def jget_simps)

lemma tokens_of_dump:
  "sum_tokens int_text (map (\<lambda>x. JObj (result_dump (snd x))) rs) = Some (sum_list (map (r_tokens_used \<circ> snd) rs))"
  "sum_tokens int_text (map (\<lambda>a. JObj (attempt_dump a)) as) = Some (sum_list (map a_tokens_used as))"
  by (auto simp: sum_tokens_def objects_JObj tokens_of_dumps comp_def Let_def)

text \<open>The gateway's subject reads every state the gateway can send.\<close>

lemma result_of_dump:
  "result_from_state str int_text dumps (state_dump st) =
     Some \<lparr>rr_text = (case s_final_output st of None \<Rightarrow> [] | Some t \<Rightarrow> t),
           rr_trajectory = the (trajectory_from_state str (state_dump st)), rr_cost = None, rr_tokens = Some (total_tokens st),
           rr_success = (s_status st = TASK_COMPLETED),
           rr_error = (if s_status st = TASK_FAILED
                       then Some (case s_error st of None \<Rightarrow> ''task failed'' | Some e \<Rightarrow> if e = [] then ''task failed'' else e) else None),
           rr_envelope = AList.update ''total_tokens'' (JInt (total_tokens st)) (state_dump st),
           rr_stdout = dumps (JObj (state_dump st)), rr_stderr = [], rr_infra = False\<rparr>"
proof -
  have results: "map snd (map (\<lambda>(i, r). (str_int i, JObj (result_dump r))) rs) = map (\<lambda>x. JObj (result_dump (snd x))) rs" for rs
    by auto
  have "object_or_empty (jget (state_dump st) ''results'') = Some (map (\<lambda>(i, r). (str_int i, JObj (result_dump r))) (s_results st))"
    by (auto simp: object_or_empty_def state_dump_def jget_simps)
  moreover have "(if truthy (jget (state_dump st) ''planning_attempts'')
      then (case jget (state_dump st) ''planning_attempts'' of JList as \<Rightarrow> Some as | _ \<Rightarrow> None) else Some []) =
      Some (map (\<lambda>a. JObj (attempt_dump a)) (s_planning_attempts st))"
    by (simp add: state_dump_def jget_simps json_attempts_def)
  moreover have "jget (state_dump st) ''status'' = JStr ''completed'' \<longleftrightarrow> s_status st = TASK_COMPLETED"
    "jget (state_dump st) ''status'' = JStr ''failed'' \<longleftrightarrow> s_status st = TASK_FAILED"
    by (cases "s_status st"; simp add: state_dump_def jget_simps)+
  moreover have "jget (state_dump st) ''error'' = json_of_option JStr (s_error st)"
    "jget (state_dump st) ''final_output'' = json_of_option JStr (s_final_output st)"
    by (simp_all add: state_dump_def jget_simps)
  moreover obtain steps where "trajectory_from_state str (state_dump st) = Some steps"
    using trajectory_of_dump by blast
  ultimately show ?thesis
    unfolding result_from_state_def
    by (auto simp: results tokens_of_dump state_error_def text_or_empty_def json_of_option_def total_tokens_def str_of_def
        simp del: map_map split: option.split)
qed

text \<open>And the subject of the command line reads every envelope.\<close>

lemma result_of_envelope:
  assumes "strip out \<noteq> []" and "loads (strip out) = Some (JObj (envelope dumps str st None))"
  shows "\<exists>c. result_from_proc loads str' (int (exit_code (envelope dumps str st None))) out err = Inr c \<and>
    rr_trajectory c = trajectory dumps str st \<and> rr_tokens c = Some (total_tokens st) \<and>
    (s_status st \<noteq> REJECTED \<longrightarrow> rr_text c = (case s_final_output st of None \<Rightarrow> [] | Some t \<Rightarrow> t)) \<and>
    (rr_success c \<longleftrightarrow> \<not> failed_status (s_status st)) \<and> \<not> rr_infra c"
proof -
  let ?e = "envelope dumps str st None"
  have parsed: "parse_envelope loads out = Some ?e" using assms by (simp add: parse_envelope_def Let_def)
  have entries: "jget ?e ''total_tokens'' = JInt (total_tokens st)" "jget ?e ''trajectory'' = JList (trajectory dumps str st)"
    "jget ?e ''result'' = JStr (case s_final_output st of None \<Rightarrow> [] | Some t \<Rightarrow> t)"
    "jget ?e ''status'' = JStr (status_value (s_status st))" "jget ?e ''is_error'' = JBool (failed_status (s_status st))"
    by (simp_all add: envelope_def jget_simps)
  have code: "int (exit_code ?e) = 0 \<longleftrightarrow> \<not> failed_status (s_status st)"
    by (auto simp: exit_code_envelope failed_status_def)
  have rejected: "status_value (s_status st) = ''rejected'' \<longleftrightarrow> s_status st = REJECTED" by (cases "s_status st") simp_all
  show ?thesis
    unfolding result_from_proc_def parsed
    using code by (simp add: entries envelope_error_def envelope_text_def text_or_empty_def rejected Let_def)
qed

lemma polled_to_the_end:
  "jget (state_dump st) ''status'' \<in> terminal_statuses \<longleftrightarrow> s_status st \<in> {TASK_COMPLETED, TASK_FAILED, AWAITING_CONFIRMATION}"
  by (cases "s_status st") (simp_all add: state_dump_def jget_simps terminal_statuses_def)

text \<open>Of the state a task ended in, the gateway's subject and the subject of the command line read
  the same tokens, the same text unless the task was rejected, and step by step the same trajectory
  but for the output and the arguments of a step, which the gateway's subject leaves out.  They agree
  on success exactly when the task completed, failed, was rejected or cancelled, so not for a plan
  that awaits confirmation; and only the first two of these and a plan that awaits confirmation end
  the gateway subject's polling.\<close>

theorem subjects_read_one_task_alike:
  assumes "strip out \<noteq> []" and "loads (strip out) = Some (JObj (envelope dumps str st None))"
  shows "\<exists>g c. result_from_state str int_text dumps' (state_dump st) = Some g \<and>
    result_from_proc loads str (int (exit_code (envelope dumps str st None))) out err = Inr c \<and>
    list_all2 same_step (rr_trajectory g) (rr_trajectory c) \<and>
    rr_tokens g = Some (total_tokens st) \<and> rr_tokens c = Some (total_tokens st) \<and>
    (s_status st = REJECTED \<or> rr_text g = rr_text c) \<and>
    (rr_success g = rr_success c \<longleftrightarrow> s_status st \<in> {TASK_COMPLETED, TASK_FAILED, REJECTED, CANCELLED}) \<and>
    (poll 1 [] [(0, Inr (state_dump st))] = Some (PollFinal (state_dump st)) \<longleftrightarrow>
      s_status st \<in> {TASK_COMPLETED, TASK_FAILED, AWAITING_CONFIRMATION})"
proof -
  obtain g where g: "result_from_state str int_text dumps' (state_dump st) = Some g" and
    steps: "rr_trajectory g = the (trajectory_from_state str (state_dump st))" and
    fields: "rr_tokens g = Some (total_tokens st)" "rr_text g = (case s_final_output st of None \<Rightarrow> [] | Some t \<Rightarrow> t)"
      "rr_success g \<longleftrightarrow> s_status st = TASK_COMPLETED"
    using result_of_dump by simp
  obtain c where c: "result_from_proc loads str (int (exit_code (envelope dumps str st None))) out err = Inr c"
    "rr_trajectory c = trajectory dumps str st" "rr_tokens c = Some (total_tokens st)"
    "s_status st \<noteq> REJECTED \<longrightarrow> rr_text c = (case s_final_output st of None \<Rightarrow> [] | Some t \<Rightarrow> t)"
    "rr_success c \<longleftrightarrow> \<not> failed_status (s_status st)"
    using result_of_envelope [of out loads dumps str st str err, OF assms] by blast
  have "list_all2 same_step (rr_trajectory g) (rr_trajectory c)"
    unfolding steps c(2) trajectory_of_dump trajectory_def
    by (auto simp: list_all2_conv_all_nth found_result_def step_agrees split: option.split)
  moreover have "(s_status st = TASK_COMPLETED \<longleftrightarrow> \<not> failed_status (s_status st)) \<longleftrightarrow>
      s_status st \<in> {TASK_COMPLETED, TASK_FAILED, REJECTED, CANCELLED}"
    by (cases "s_status st") (simp_all add: failed_status_def)
  ultimately show ?thesis using g fields c(1,3-5) polled_to_the_end [of st] by auto
qed

text \<open>A task of one finished node.\<close>

definition one_node_state :: exec_state where
  "one_node_state =
     (new_state ''t'' ''q'' (Some (Plan [mk_node 1 RESULT ''d'' []] [1])))\<lparr>
       s_results := [(1, (mk_result 1 COMPLETED)\<lparr>r_output := JStr ''out'', r_tokens_used := 7\<rparr>)],
       s_status := TASK_COMPLETED, s_final_output := Some ''out''\<rparr>"

theorem subjects_read_one_task_alike_witness:
  "\<exists>g c. result_from_state (\<lambda>v. []) (\<lambda>s. None) (\<lambda>v. []) (state_dump one_node_state) = Some g \<and>
    result_from_proc (\<lambda>t. Some (JObj (envelope (\<lambda>v. []) (\<lambda>v. []) one_node_state None))) (\<lambda>v. [])
      (int (exit_code (envelope (\<lambda>v. []) (\<lambda>v. []) one_node_state None))) ''x'' [] = Inr c \<and>
    list_all2 same_step (rr_trajectory g) (rr_trajectory c) \<and> rr_text g = rr_text c \<and> rr_tokens g = Some 7 \<and> rr_success g = rr_success c"
proof -
  have s: "s_status one_node_state = TASK_COMPLETED" and t: "total_tokens one_node_state = 7"
    by (simp_all add: one_node_state_def new_state_def mk_result_def total_tokens_def)
  have "strip ''x'' \<noteq> []" by code_simp
  from subjects_read_one_task_alike [of "''x''" "\<lambda>t. Some (JObj (envelope (\<lambda>v. []) (\<lambda>v. []) one_node_state None))"
      "\<lambda>v. []" "\<lambda>v. []" one_node_state "\<lambda>s. None" "\<lambda>v. []" "[]", OF this refl]
  show ?thesis by (auto simp: s t)
qed

end
