(* ===== verification/EvalGraders.thy ===== *)
theory EvalGraders
  imports EvalSubjects "HOL-Library.Sublist"
begin

text \<open>
  The graders of the evaluation framework (\<open>eval-framework/evalkit/graders\<close>): deterministic checks,
  checks of the trajectory, the judge, and the cascade that combines them.  The left of a sum is an
  exception, which ends the grading.  Regular expressions, \<open>json.loads\<close>, \<open>repr\<close> and \<open>str\<close> are
  fields of the environment; the judge is asked through the outside world.
\<close>

section \<open>Criteria and results\<close>

record criterion =
  c_text :: string
  c_grader :: string
  c_check :: "string option"
  c_target :: "string option"
  c_value :: json
  c_tool_sequence :: "string list option"
  c_node_id :: "int option"
  c_expect_branch :: "string option"
  c_expect_status :: "string option"
  c_expect_tier :: "int option"
  c_expect_flagged :: "bool option"
  c_expect_args_contains :: "string option"
  c_expect_before :: "int list option"
  c_expect_after :: "int list option"
  c_expect_branch_taken :: "string option"

record criterion_result =
  cr_text :: string
  cr_passed :: bool
  cr_evidence :: string
  cr_grader :: string
  cr_infra :: bool

record score =
  sc_task :: string
  sc_trial :: nat
  sc_results :: "criterion_result list"
  sc_passed :: nat
  sc_failed :: nat
  sc_total :: nat
  sc_pass_rate :: rat
  sc_infra :: bool
  sc_graded :: bool

record grade_env =
  ge_repr :: "json \<Rightarrow> string"
  ge_str :: "json \<Rightarrow> string"
  ge_loads :: "string \<Rightarrow> json option"
  ge_search :: "string \<Rightarrow> string \<Rightarrow> string + bool"
  ge_int_text :: "string \<Rightarrow> int option"
  ge_expand :: "string \<Rightarrow> string"
  ge_basename :: "string \<Rightarrow> string"

definition str_json :: "grade_env \<Rightarrow> json \<Rightarrow> string" where
  "str_json en v = key_text (ge_str en) v"

definition opt_json :: "grade_env \<Rightarrow> string option \<Rightarrow> json" where
  "opt_json en s = (case s of None \<Rightarrow> JNull | Some t \<Rightarrow> JStr t)"

text \<open>An f-string shows a missing target as \<open>None\<close>.\<close>

definition shown :: "string option \<Rightarrow> string" where
  "shown s = (case s of None \<Rightarrow> ''None'' | Some t \<Rightarrow> t)"

text \<open>\<open>==\<close> on JSON values: numbers and booleans compare by value, objects without order.\<close>

fun number_value :: "json \<Rightarrow> pyfloat option" where
  "number_value (JInt i) = Some (Fin (of_int i))"
| "number_value (JBool b) = Some (Fin (of_bool b))"
| "number_value (JFloat f) = Some f"
| "number_value _ = None"

fun py_eq :: "json \<Rightarrow> json \<Rightarrow> bool"
  and py_eq_list :: "json list \<Rightarrow> json list \<Rightarrow> bool"
  and py_eq_obj :: "(string \<times> json) list \<Rightarrow> (string \<times> json) list \<Rightarrow> bool"
where
  "py_eq JNull v = (v = JNull)"
| "py_eq (JStr s) v = (v = JStr s)"
| "py_eq (JList xs) v = (case v of JList ys \<Rightarrow> length xs = length ys \<and> py_eq_list xs ys | _ \<Rightarrow> False)"
| "py_eq (JObj kvs) v = (case v of JObj kvs' \<Rightarrow> length kvs = length kvs' \<and> py_eq_obj kvs kvs' | _ \<Rightarrow> False)"
| "py_eq (JInt i) v = (number_value v = Some (Fin (of_int i)))"
| "py_eq (JBool b) v = (number_value v = Some (Fin (of_bool b)))"
| "py_eq (JFloat f) v = (f \<noteq> NaN \<and> number_value v = Some f)"
| "py_eq_list [] ys = True"
| "py_eq_list (x # xs) ys = (case ys of [] \<Rightarrow> False | y # ys' \<Rightarrow> py_eq x y \<and> py_eq_list xs ys')"
| "py_eq_obj [] kvs' = True"
| "py_eq_obj (kv # kvs) kvs' =
     (case map_of kvs' (fst kv) of None \<Rightarrow> False | Some v \<Rightarrow> py_eq (snd kv) v \<and> py_eq_obj kvs kvs')"

definition graded :: "string \<Rightarrow> criterion \<Rightarrow> bool \<Rightarrow> string \<Rightarrow> criterion_result" where
  "graded grader c passed evidence =
     \<lparr>cr_text = c_text c, cr_passed = passed, cr_evidence = evidence, cr_grader = grader, cr_infra = False\<rparr>"

section \<open>Deterministic checks\<close>

definition result_text_target :: string where
  "result_text_target = ''__result_text__''"

text \<open>A step that is no object has no \<open>get\<close>.\<close>

definition no_get :: string where
  "no_get = ''AttributeError: object has no attribute get''"

fun find_node :: "json list \<Rightarrow> int \<Rightarrow> string + (string \<times> json) list option" where
  "find_node [] i = Inr None"
| "find_node (JObj o' # ss) i = (if py_eq (jget o' ''node_id'') (JInt i) then Inr (Some o') else find_node ss i)"
| "find_node (s # ss) i = Inl no_get"

text \<open>The content of the target; \<open>None\<close> when it is absent.\<close>

definition resolve_target :: "grade_env \<Rightarrow> criterion \<Rightarrow> trial \<Rightarrow> string + string option" where
  "resolve_target en c t =
     (case c_target c of
        None \<Rightarrow> Inr None
      | Some target \<Rightarrow>
          if target = result_text_target then Inr (Some (rr_text (tr_result t)))
          else if starts_with ''node:'' target
          then (case ge_int_text en (drop 5 target) of
                  None \<Rightarrow> Inr None
                | Some i \<Rightarrow>
                    and_then (find_node (rr_trajectory (tr_result t)) i) (\<lambda>found.
                      Inr (case found of
                             None \<Rightarrow> None
                           | Some st \<Rightarrow>
                               if jget st ''output'' = JNull then None else Some (str_json en (jget st ''output'')))))
          else Inr (case map_of (tr_side_effects t) target of None \<Rightarrow> None | Some x \<Rightarrow> x))"

definition hashable :: "json \<Rightarrow> bool" where
  "hashable v = (case v of JList xs \<Rightarrow> False | JObj kvs \<Rightarrow> False | _ \<Rightarrow> True)"

definition parsed_or_last_line :: "grade_env \<Rightarrow> string \<Rightarrow> string + json" where
  "parsed_or_last_line en content =
     (case ge_loads en content of
        Some v \<Rightarrow> Inr v
      | None \<Rightarrow>
          (let ls = filter (\<lambda>l. strip l \<noteq> []) (splitlines [] content)
           in if ls = [] then Inl ''target is empty / not JSON''
              else case ge_loads en (last ls) of
                     None \<Rightarrow> Inl ''target is not valid JSON or JSONL''
                   | Some v \<Rightarrow> Inr v))"

definition json_match :: "grade_env \<Rightarrow> string \<Rightarrow> json \<Rightarrow> string + bool \<times> string" where
  "json_match en content value =
     (case parsed_or_last_line en content of
        Inl why \<Rightarrow> Inr (False, why)
      | Inr (JObj o') \<Rightarrow>
          (case value of
             JList ks \<Rightarrow>
               if \<not> list_all hashable ks then Inl ''TypeError: unhashable type''
               else (let missing = filter (\<lambda>k. \<not> (case k of JStr s \<Rightarrow> s \<in> set (map fst o') | _ \<Rightarrow> False)) ks
                     in Inr (missing = [], if missing = [] then ''all keys present'' else ''missing keys '' @ ge_repr en (JList missing)))
           | JObj kvs \<Rightarrow>
               (let bad = filter (\<lambda>(k, v). \<not> py_eq (jget o' k) v) kvs
                in Inr (bad = [], if bad = [] then ''all key/values match'' else ''mismatched '' @ ge_repr en (JObj bad)))
           | _ \<Rightarrow> Inr (False, ''json_field value must be a list of keys or a dict of key/values''))
      | Inr _ \<Rightarrow> Inr (False, ''parsed JSON is not an object''))"

text \<open>\<open>int(value)\<close>.\<close>

definition int_arg :: "grade_env \<Rightarrow> json \<Rightarrow> string + int" where
  "int_arg en v =
     (case v of
        JStr s \<Rightarrow> (case ge_int_text en s of None \<Rightarrow> Inl ''ValueError: invalid literal for int()'' | Some i \<Rightarrow> Inr i)
      | _ \<Rightarrow> (case number_int v of
                Inl e \<Rightarrow> Inl e
              | Inr None \<Rightarrow> Inl ''TypeError: int() argument must be a string or a real number''
              | Inr (Some i) \<Rightarrow> Inr i))"

definition non_empty_lines :: "string \<Rightarrow> nat" where
  "non_empty_lines s = length (filter (\<lambda>l. strip l \<noteq> []) (splitlines [] s))"

definition deterministic :: "grade_env \<Rightarrow> criterion \<Rightarrow> trial \<Rightarrow> string + criterion_result" where
  "deterministic en c t =
     and_then (resolve_target en c t) (\<lambda>content.
       let target = shown (c_target c);
           value = ge_repr en (c_value c);
           done = (\<lambda>passed why. Inr (graded ''deterministic'' c passed why));
           check = c_check c
       in if check = Some ''file_exists''
          then done (content \<noteq> None) (target @ (if content \<noteq> None then '': present'' else '': absent''))
          else if check = Some ''file_absent''
          then done (content = None) (target @ (if content = None then '': absent'' else '': present''))
          else if check = Some ''contains''
          then (case content of
                  None \<Rightarrow> done False (target @ '': absent, cannot contain '' @ value)
                | Some s \<Rightarrow> (let ok = contains (str_json en (c_value c)) s
                            in done ok ((if ok then ''found'' else ''missing'') @ '' substring '' @ value)))
          else if check = Some ''not_contains''
          then (case content of
                  None \<Rightarrow> done True (target @ '': absent (vacuously satisfied)'')
                | Some s \<Rightarrow> (let ok = (\<not> contains (str_json en (c_value c)) s)
                            in done ok ((if ok then ''absent'' else ''present'') @ '': '' @ value)))
          else if check = Some ''regex''
          then (case content of
                  None \<Rightarrow> done False (target @ '': absent, regex cannot match'')
                | Some s \<Rightarrow> and_then (ge_search en (str_json en (c_value c)) s) (\<lambda>ok.
                    done ok (''/'' @ str_json en (c_value c) @ (if ok then ''/ matched'' else ''/ did not match''))))
          else if check = Some ''not_regex''
          then (case content of
                  None \<Rightarrow> done True (target @ '': absent (vacuously satisfied)'')
                | Some s \<Rightarrow> and_then (ge_search en (str_json en (c_value c)) s) (\<lambda>hit.
                    done (\<not> hit) (''/'' @ str_json en (c_value c) @ (if hit then ''/ matched'' else ''/ absent''))))
          else if check = Some ''json_field''
          then (case content of
                  None \<Rightarrow> done False (target @ '': absent, no JSON to inspect'')
                | Some s \<Rightarrow> and_then (json_match en s (c_value c)) (\<lambda>(ok, why). done ok why))
          else if check = Some ''line_count''
          then (case content of
                  None \<Rightarrow> done False (target @ '': absent'')
                | Some s \<Rightarrow> and_then (int_arg en (c_value c)) (\<lambda>n.
                    done (int (non_empty_lines s) = n)
                      (str_nat (non_empty_lines s) @ '' non-empty lines (want '' @ str_json en (c_value c) @ '')'')))
          else if check = Some ''file_unchanged''
          then (let ok = (case c_target c of
                            None \<Rightarrow> True
                          | Some p \<Rightarrow> Option.bind (map_of (tr_baseline t) p) id = Option.bind (map_of (tr_side_effects t) p) id)
                in done ok (if ok then ''unchanged'' else ''content changed during run''))
          else done False (''unknown deterministic check: '' @ ge_repr en (opt_json en check)))"

section \<open>The trajectory\<close>

definition step_get :: "json \<Rightarrow> string \<Rightarrow> json \<Rightarrow> string + json" where
  "step_get s k d = (case s of JObj o' \<Rightarrow> Inr (jget_default o' k d) | _ \<Rightarrow> Inl no_get)"

definition step_tool :: "grade_env \<Rightarrow> json \<Rightarrow> string + string" where
  "step_tool en s = and_then (step_get s ''tool'' (JStr [])) (\<lambda>v. Inr (str_json en v))"

definition tool_names :: "grade_env \<Rightarrow> json list \<Rightarrow> string + string list" where
  "tool_names en ss = map_all (step_tool en) ss"

text \<open>\<open>all(tool in it for tool in expected)\<close>: each \<open>in\<close> consumes the iterator up to its hit.\<close>

fun is_subsequence :: "string list \<Rightarrow> string list \<Rightarrow> bool" where
  "is_subsequence [] actual = True"
| "is_subsequence (t # ts) actual =
     (case dropWhile (\<lambda>a. a \<noteq> t) actual of [] \<Rightarrow> False | a # rest \<Rightarrow> is_subsequence ts rest)"

fun flatten_strings :: "json \<Rightarrow> string list"
  and flatten_list :: "json list \<Rightarrow> string list"
  and flatten_obj :: "(string \<times> json) list \<Rightarrow> string list"
where
  "flatten_strings (JStr s) = [s]"
| "flatten_strings (JObj kvs) = flatten_obj kvs"
| "flatten_strings (JList vs) = flatten_list vs"
| "flatten_strings _ = []"
| "flatten_list [] = []"
| "flatten_list (v # vs) = flatten_strings v @ flatten_list vs"
| "flatten_obj [] = []"
| "flatten_obj (kv # kvs) = flatten_strings (snd kv) @ flatten_obj kvs"

definition or_empty_obj :: "json \<Rightarrow> json" where
  "or_empty_obj v = (if truthy v then v else JObj [])"

text \<open>Whether a call of one of the tools mentions the target, its expansion or its last component.\<close>

fun references_target :: "grade_env \<Rightarrow> json list \<Rightarrow> string list \<Rightarrow> string \<Rightarrow> string + bool" where
  "references_target en [] tseq target = Inr False"
| "references_target en (s # ss) tseq target =
     and_then (step_tool en s) (\<lambda>t.
       if t \<notin> set tseq then references_target en ss tseq target
       else and_then (step_get s ''input'' JNull) (\<lambda>i. and_then (step_get s ''args_used'' JNull) (\<lambda>a.
         if list_ex (\<lambda>v. list_ex (\<lambda>c. c \<noteq> [] \<and> contains c v) [target, ge_expand en target, ge_basename en target])
              (flatten_strings (or_empty_obj i) @ flatten_strings (or_empty_obj a))
         then Inr True else references_target en ss tseq target)))"

fun find_node_index :: "json list \<Rightarrow> int \<Rightarrow> nat \<Rightarrow> string + nat option" where
  "find_node_index [] i k = Inr None"
| "find_node_index (JObj o' # ss) i k =
     (if py_eq (jget o' ''node_id'') (JInt i) then Inr (Some k) else find_node_index ss i (Suc k))"
| "find_node_index (s # ss) i k = Inl no_get"

text \<open>The nodes of \<open>ids\<close> whose index is in the wrong relation to \<open>mine\<close>.\<close>

fun violations :: "(nat \<Rightarrow> nat \<Rightarrow> bool) \<Rightarrow> json list \<Rightarrow> nat \<Rightarrow> int list \<Rightarrow> string + int list" where
  "violations wrong ss mine [] = Inr []"
| "violations wrong ss mine (i # is) =
     and_then (find_node_index ss i 0) (\<lambda>k. and_then (violations wrong ss mine is) (\<lambda>r.
       Inr (case k of None \<Rightarrow> r | Some other \<Rightarrow> if wrong other mine then i # r else r)))"

definition ints :: "grade_env \<Rightarrow> int list \<Rightarrow> string" where
  "ints en is = ge_repr en (JList (map JInt is))"

definition strs :: "grade_env \<Rightarrow> string list \<Rightarrow> string" where
  "strs en ss = ge_repr en (JList (map JStr ss))"

abbreviation traj_result :: "criterion \<Rightarrow> bool \<Rightarrow> string \<Rightarrow> string + criterion_result" where
  "traj_result c passed why \<equiv> Inr (graded ''trajectory'' c passed why)"

definition order_result ::
  "grade_env \<Rightarrow> criterion \<Rightarrow> json list \<Rightarrow> int \<Rightarrow> nat \<Rightarrow> string + criterion_result"
where
  "order_result en c ss i mine =
     (case c_expect_before c of
        Some before \<Rightarrow>
          and_then (violations (\<le>) ss mine before) (\<lambda>bad.
            traj_result c (bad = [])
              (if bad = [] then ''node '' @ str_int i @ '' precedes all of '' @ ints en before
               else ''node(s) '' @ ints en bad @ '' ran at or before node '' @ str_int i))
      | None \<Rightarrow>
          (let after = (case c_expect_after c of None \<Rightarrow> [] | Some a \<Rightarrow> a)
           in and_then (violations (\<ge>) ss mine after) (\<lambda>bad.
                traj_result c (bad = [])
                  (if bad = [] then ''node '' @ str_int i @ '' follows all of '' @ ints en after
                   else ''node(s) '' @ ints en bad @ '' ran at or after node '' @ str_int i))))"

definition match_or :: "bool \<Rightarrow> string \<Rightarrow> string" where
  "match_or ok want = (if ok then '' (match)'' else '' (want '' @ want @ '')'')"

definition step_result :: "grade_env \<Rightarrow> criterion \<Rightarrow> (string \<times> json) list \<Rightarrow> criterion_result" where
  "step_result en c st =
     (let res = graded ''trajectory'' c
      in case (c_expect_branch c, c_expect_status c, c_expect_tier c, c_expect_flagged c, c_expect_args_contains c) of
           (Some b, _) \<Rightarrow>
             (let actual = jget st ''branch_taken''; ok = (actual = JStr b)
              in res ok (''branch='' @ ge_repr en actual @ match_or ok (ge_repr en (JStr b))))
         | (None, Some s, _) \<Rightarrow>
             (let actual = lower (str_json en (jget_default st ''status'' (JStr []))); ok = (actual = lower s)
              in res ok (''status='' @ ge_repr en (JStr actual) @ match_or ok (ge_repr en (JStr (lower s)))))
         | (None, None, Some k, _) \<Rightarrow>
             (let actual = jget st ''tier_used''; ok = py_eq actual (JInt k)
              in res ok (''tier='' @ str_json en actual @ match_or ok (str_int k)))
         | (None, None, None, Some f, _) \<Rightarrow>
             (let actual = truthy (jget_default st ''flagged'' (JBool False)); ok = (actual = f)
              in res ok (''flagged='' @ ge_str en (JBool actual) @ match_or ok (ge_str en (JBool f))))
         | (None, None, None, None, Some a) \<Rightarrow>
             (let used = (if truthy (jget st ''args_used'') then jget st ''args_used'' else or_empty_obj (jget st ''input''));
                  hit = list_ex (contains a) (flatten_strings used)
              in res hit (''args '' @ (if hit then ''contain '' else ''do not contain '') @ ge_repr en (JStr a)))
         | _ \<Rightarrow> res False ''node_id set but no expect_* assertion specified'')"

definition node_targeted :: "grade_env \<Rightarrow> criterion \<Rightarrow> trial \<Rightarrow> int \<Rightarrow> string + criterion_result" where
  "node_targeted en c t i =
     (let ss = rr_trajectory (tr_result t); missing = traj_result c False (''node '' @ str_int i @ '' not found in trajectory'')
      in if c_expect_before c \<noteq> None \<or> c_expect_after c \<noteq> None
         then and_then (find_node_index ss i 0) (\<lambda>k. case k of None \<Rightarrow> missing | Some mine \<Rightarrow> order_result en c ss i mine)
         else and_then (find_node ss i) (\<lambda>found. case found of None \<Rightarrow> missing | Some st \<Rightarrow> Inr (step_result en c st)))"

fun first_call :: "grade_env \<Rightarrow> json list \<Rightarrow> string list \<Rightarrow> string + json option" where
  "first_call en [] tseq = Inr None"
| "first_call en (s # ss) tseq = and_then (step_tool en s) (\<lambda>t. if t \<in> set tseq then Inr (Some s) else first_call en ss tseq)"

definition absent_result :: "grade_env \<Rightarrow> criterion \<Rightarrow> string list \<Rightarrow> string list \<Rightarrow> criterion_result" where
  "absent_result en c names tseq =
     (if tseq = []
      then graded ''trajectory'' c (names = []) (if names = [] then ''no tools called'' else ''tools used: '' @ strs en names)
      else (let present = filter (\<lambda>t. t \<in> set names) tseq
            in graded ''trajectory'' c (present = [])
                 (if present = [] then ''forbidden tools absent'' else ''used: '' @ strs en present)))"

text \<open>The last check of presence, on the first step of one of the tools.\<close>

definition present_result :: "grade_env \<Rightarrow> criterion \<Rightarrow> json list \<Rightarrow> string list \<Rightarrow> string + criterion_result" where
  "present_result en c ss tseq =
     (let ok = traj_result c True
            (strs en tseq @ '' present'' @
             (case c_target c of None \<Rightarrow> [] | Some p \<Rightarrow> if p = [] then [] else '' on '' @ p) @
             (case c_expect_branch_taken c of None \<Rightarrow> [] | Some b \<Rightarrow> if b = [] then [] else '' branch_taken='' @ ge_repr en (JStr b)))
      in case c_expect_branch_taken c of
           None \<Rightarrow> ok
         | Some b \<Rightarrow>
             and_then (first_call en ss tseq) (\<lambda>found.
               case found of
                 None \<Rightarrow> traj_result c False ''no matching step found for branch_taken check''
               | Some s \<Rightarrow>
                   and_then (step_get s ''branch_taken'' JNull) (\<lambda>actual.
                     if actual = JStr b then ok
                     else traj_result c False (''branch_taken='' @ ge_repr en actual @ '', want '' @ ge_repr en (JStr b)))))"

definition on_trajectory :: "grade_env \<Rightarrow> criterion \<Rightarrow> trial \<Rightarrow> string + criterion_result" where
  "on_trajectory en c t =
     (case c_node_id c of
        Some i \<Rightarrow> node_targeted en c t i
      | None \<Rightarrow>
          (let ss = rr_trajectory (tr_result t); tseq = (case c_tool_sequence c of None \<Rightarrow> [] | Some s \<Rightarrow> s)
           in and_then (tool_names en ss) (\<lambda>names.
                if c_value c = JStr ''absent'' then Inr (absent_result en c names tseq)
                else if tseq = [] then traj_result c False ''trajectory presence check requires tool_sequence''
                else if \<not> is_subsequence tseq names
                then traj_result c False (''expected subsequence '' @ strs en tseq @ '' not found in '' @ strs en names)
                else case c_target c of
                       None \<Rightarrow> present_result en c ss tseq
                     | Some p \<Rightarrow>
                         and_then (references_target en ss tseq p) (\<lambda>hit.
                           if hit then present_result en c ss tseq
                           else traj_result c False (''no '' @ strs en tseq @ '' call referenced '' @ p)))))"

section \<open>The judge\<close>

text \<open>\<open>str.upper\<close> on code points below 256 whose capital is below 256, and the sharp s.\<close>

definition upper_char :: "char \<Rightarrow> string" where
  "upper_char c =
     (let n = of_char c :: nat
      in if (97 \<le> n \<and> n \<le> 122) \<or> (224 \<le> n \<and> n \<le> 254 \<and> n \<noteq> 247) then [char_of (n - 32)]
         else if n = 223 then ''SS'' else [c])"

definition upper :: "string \<Rightarrow> string" where
  "upper s = concat (map upper_char s)"

definition ellipsis :: string where
  "ellipsis = [CHR 0xE2, CHR 0x80, CHR 0xA6]"

definition dict_of :: "('k \<times> 'v) list \<Rightarrow> ('k \<times> 'v) list" where
  "dict_of xs = foldl (\<lambda>d (k, v). AList.update k v d) [] xs"

definition side_effects_block :: "trial \<Rightarrow> string" where
  "side_effects_block t =
     (case List.map_filter (\<lambda>(p, x). map_option (Pair p) x) (dict_of (tr_side_effects t)) of
        [] \<Rightarrow> []
      | kept \<Rightarrow>
          join newline (''Relevant captured side-effects:'' #
            map (\<lambda>(p, x). newline @ ''['' @ p @ '']'' @ newline @
                   (if length x \<le> 2000 then x else take 2000 x @ ellipsis @ ''(truncated)'')) kept) @ newline)"

definition or_note :: "string \<Rightarrow> string \<Rightarrow> string" where
  "or_note s note = (if strip s = [] then note else strip s)"

definition judge_prompt :: "string \<Rightarrow> criterion \<Rightarrow> trial \<Rightarrow> string" where
  "judge_prompt expected c t =
     ''You are grading ONE criterion of an AI task. Evaluate ONLY this criterion '' @ em_dash @
     '' ignore everything else about quality.'' @ newline @ newline @
     ''Reference (expected behavior, for your judgment only):'' @ newline @ or_note expected ''(none provided)'' @ newline @ newline @
     ''Criterion to evaluate:'' @ newline @ c_text c @ newline @ newline @
     ''The agent'' @ apostrophe @ ''s output:'' @ newline @ ''---'' @ newline @ or_note (rr_text (tr_result t)) ''(empty output)'' @ newline @
     ''---'' @ newline @ side_effects_block t @ newline @
     ''First, briefly decide for yourself what a correct response looks like. Then judge the output against THIS criterion only.'' @
     newline @ newline @
     ''Your response must be exactly two lines. Line 1: the single word PASS, FAIL, or UNKNOWN '' @ em_dash @
     '' nothing else on that line, no prefix, no label, no punctuation (UNKNOWN only if the evidence is genuinely '' @
     ''insufficient). Line 2: one sentence of rationale (optional).''"

text \<open>The verdict is the first line; \<open>None\<close> is a judge that could not be reached.\<close>

definition verdict_line :: "string \<Rightarrow> string" where
  "verdict_line verdict = (case splitlines [] (strip verdict) of [] \<Rightarrow> [] | l # ls \<Rightarrow> upper (strip l))"

definition rationale :: "string \<Rightarrow> string" where
  "rationale verdict = (case splitlines [] (strip verdict) of l # m # ls \<Rightarrow> strip m | _ \<Rightarrow> [])"

definition or_text :: "string \<Rightarrow> string \<Rightarrow> string" where
  "or_text s d = (if s = [] then d else s)"

definition judged :: "criterion \<Rightarrow> string option \<Rightarrow> criterion_result" where
  "judged c answer =
     (case answer of
        None \<Rightarrow> (graded ''llm'' c False ''judge invocation failed'')\<lparr>cr_infra := True\<rparr>
      | Some v \<Rightarrow>
          if starts_with ''PASS'' (verdict_line v) then graded ''llm'' c True (or_text (rationale v) ''judge: PASS'')
          else if starts_with ''FAIL'' (verdict_line v) then graded ''llm'' c False (or_text (rationale v) ''judge: FAIL'')
          else graded ''llm'' c False (''judge inconclusive ('' @ or_text (verdict_line v) ''empty'' @ ''): '' @ rationale v))"

type_synonym 'w judge = "string \<Rightarrow> 'w \<Rightarrow> string option \<times> 'w"

definition llm :: "'w judge \<Rightarrow> string \<Rightarrow> criterion \<Rightarrow> trial \<Rightarrow> 'w \<Rightarrow> criterion_result \<times> 'w" where
  "llm judge expected c t w = (case judge (judge_prompt expected c t) w of (answer, w') \<Rightarrow> (judged c answer, w'))"

section \<open>The cascade\<close>

definition infra_keywords :: "string list" where
  "infra_keywords =
     [''timed out'', ''cli not found'', ''could not parse'', ''endpoint error'', ''gateway unreachable'', ''gateway poll failed'',
      ''http '', ''connect'', ''provider unavailable'', ''payment required'', ''credit'', ''quota'', ''rate limit'',
      ''missing openrouter credentials'', ''empty completion'']"

definition envelope_keywords :: "string list" where
  "envelope_keywords =
     [''provider unavailable'', ''payment required'', ''insufficient credit'', ''quota exceeded'', ''rate limit'',
      ''connection refused'', ''connection reset'', ''timed out'']"

definition has_keyword :: "string list \<Rightarrow> string \<Rightarrow> bool" where
  "has_keyword ks s \<longleftrightarrow> list_ex (\<lambda>k. contains k (lower s)) ks"

definition trial_infra_error :: "grade_env \<Rightarrow> trial \<Rightarrow> bool" where
  "trial_infra_error en t =
     (let r = tr_result t
      in if rr_infra r then True
         else if rr_success r then False
         else if has_keyword infra_keywords (case rr_error r of None \<Rightarrow> [] | Some e \<Rightarrow> e) then True
         else if has_keyword envelope_keywords (ge_str en (JObj (rr_envelope r))) then True
         else rr_text r = [] \<and> rr_trajectory r = [] \<and> rr_envelope r = [])"

definition ungraded_score :: "grade_env \<Rightarrow> run_task_spec \<Rightarrow> trial \<Rightarrow> score" where
  "ungraded_score en task t =
     \<lparr>sc_task = rt_id task, sc_trial = tr_run t, sc_results = [], sc_passed = 0, sc_failed = 0, sc_total = 0, sc_pass_rate = 0,
      sc_infra = trial_infra_error en t, sc_graded = False\<rparr>"

definition subject_infra_score :: "run_task_spec \<Rightarrow> criterion list \<Rightarrow> trial \<Rightarrow> score" where
  "subject_infra_score task cs t =
     \<lparr>sc_task = rt_id task, sc_trial = tr_run t,
      sc_results = map (\<lambda>c. (graded (c_grader c) c False ''not graded: subject infrastructure failure'')\<lparr>cr_infra := True\<rparr>) cs,
      sc_passed = 0, sc_failed = length cs, sc_total = length cs, sc_pass_rate = 0, sc_infra = True, sc_graded = True\<rparr>"

type_synonym indexed_results = "(nat \<times> criterion_result) list"

definition by_grader :: "string \<Rightarrow> criterion list \<Rightarrow> (nat \<times> criterion) list" where
  "by_grader g cs = filter (\<lambda>(i, c). c_grader c = g) (List.enumerate 0 cs)"

fun grade_each :: "(criterion \<Rightarrow> string + criterion_result) \<Rightarrow> (nat \<times> criterion) list \<Rightarrow> string + indexed_results" where
  "grade_each f [] = Inr []"
| "grade_each f ((i, c) # ics) = and_then (f c) (\<lambda>r. and_then (grade_each f ics) (\<lambda>rs. Inr ((i, r) # rs)))"

fun judge_each :: "'w judge \<Rightarrow> string \<Rightarrow> trial \<Rightarrow> (nat \<times> criterion) list \<Rightarrow> 'w \<Rightarrow> indexed_results \<times> 'w" where
  "judge_each judge expected t [] w = ([], w)"
| "judge_each judge expected t ((i, c) # ics) w =
     (case llm judge expected c t w of
        (r, w1) \<Rightarrow> (case judge_each judge expected t ics w1 of (rs, w2) \<Rightarrow> ((i, r) # rs, w2)))"

definition cost_gated :: "(nat \<times> criterion) list \<Rightarrow> indexed_results" where
  "cost_gated ics = map (\<lambda>(i, c). (i, graded ''llm'' c False ''skipped: all deterministic criteria failed (cost gate)'')) ics"

definition score_of :: "run_task_spec \<Rightarrow> trial \<Rightarrow> criterion_result list \<Rightarrow> score" where
  "score_of task t rs =
     (let passed = length (filter cr_passed rs); total = length rs
      in \<lparr>sc_task = rt_id task, sc_trial = tr_run t, sc_results = rs, sc_passed = passed, sc_failed = total - passed, sc_total = total,
          sc_pass_rate = (if total = 0 then 0 else of_nat passed / of_nat total), sc_infra = list_ex cr_infra rs, sc_graded = True\<rparr>)"

text \<open>\<open>[results[i] for i in range(n)]\<close>; an unknown grader leaves a gap.\<close>

definition in_order :: "nat \<Rightarrow> indexed_results \<Rightarrow> string + criterion_result list" where
  "in_order n results = map_all (\<lambda>i. case map_of results i of None \<Rightarrow> Inl ''KeyError'' | Some r \<Rightarrow> Inr r) [0 ..< n]"

definition grade ::
  "grade_env \<Rightarrow> run_task_spec \<Rightarrow> criterion list \<Rightarrow> string \<Rightarrow> 'w judge \<Rightarrow> bool \<Rightarrow> trial \<Rightarrow> 'w \<Rightarrow> (string + score) \<times> 'w"
where
  "grade en task cs expected judge cost_optimize t w =
     (if trial_infra_error en t then (Inr (subject_infra_score task cs t), w)
      else case and_then (grade_each (\<lambda>c. deterministic en c t) (by_grader ''deterministic'' cs)) (\<lambda>ds.
                and_then (grade_each (\<lambda>c. on_trajectory en c t) (by_grader ''trajectory'' cs)) (\<lambda>ts. Inr (ds, ts))) of
             Inl e \<Rightarrow> (Inl e, w)
           | Inr (ds, ts) \<Rightarrow>
               (let skip = (cost_optimize \<and> ds \<noteq> [] \<and> \<not> list_ex (\<lambda>(i, r). cr_passed r) ds)
                in case (if skip then (cost_gated (by_grader ''llm'' cs), w)
                         else judge_each judge expected t (by_grader ''llm'' cs) w) of
                     (js, w') \<Rightarrow> (and_then (in_order (length cs) (ds @ ts @ js)) (\<lambda>rs. Inr (score_of task t rs)), w')))"

section \<open>Facts\<close>

text \<open>Consuming the iterator decides the subsequence relation of the library.\<close>

lemma is_subsequence_iff: "is_subsequence ts actual \<longleftrightarrow> subseq ts actual"
proof (induction ts actual rule: is_subsequence.induct)
  case (2 t ts actual)
  show ?case
  proof (cases "dropWhile (\<lambda>a. a \<noteq> t) actual")
    case Nil
    then have "t \<notin> set actual" by (auto simp: dropWhile_eq_Nil_conv)
    then have "\<not> subseq (t # ts) actual" by (auto dest: list_emb_set)
    then show ?thesis unfolding is_subsequence.simps Nil list.case by simp
  next
    case (Cons a rest)
    then have a: "a = t" using hd_dropWhile [of "\<lambda>a. a \<noteq> t" actual] by simp
    have actual: "actual = takeWhile (\<lambda>a. a \<noteq> t) actual @ t # rest" using Cons a by (metis takeWhile_dropWhile_id)
    have skip: "subseq (t # ts) (xs @ ys) \<longleftrightarrow> subseq (t # ts) ys" if "t \<notin> set xs" for xs ys
      using that by (induction xs) auto
    have "t \<notin> set (takeWhile (\<lambda>a. a \<noteq> t) actual)" by (auto dest: set_takeWhileD)
    from skip [OF this, of "t # rest"] actual have "subseq (t # ts) actual \<longleftrightarrow> subseq ts rest" by simp
    with 2 [OF Cons] Cons show ?thesis by simp
  qed
qed simp

text \<open>Only a clear verdict passes, and only an unreachable judge is an infrastructure failure.\<close>

lemma judged_passes:
  "cr_passed (judged c answer) \<longleftrightarrow> (\<exists>v. answer = Some v \<and> starts_with ''PASS'' (verdict_line v))"
  "cr_infra (judged c answer) \<longleftrightarrow> answer = None"
  by (auto simp: judged_def graded_def split: option.split)

lemma grade_each_keys: "grade_each f ics = Inr rs \<Longrightarrow> map fst rs = map fst ics"
  by (induction f ics arbitrary: rs rule: grade_each.induct) auto

lemma judge_each_keys: "map fst (fst (judge_each judge expected t ics w)) = map fst ics"
  by (induction judge expected t ics w rule: judge_each.induct) (auto split: prod.split)

lemma cost_gated_keys: "map fst (cost_gated ics) = map fst ics"
  by (auto simp: cost_gated_def)

lemma by_grader_index: "i \<in> set (map fst (by_grader g cs)) \<Longrightarrow> i < length cs"
  by (auto simp: by_grader_def enumerate_eq_zip dest: set_zip_leftD)

lemma in_order_Inr:
  "in_order n R = Inr rs \<longleftrightarrow> length rs = n \<and> (\<forall>i < n. map_of R i = Some (rs ! i))"
  by (auto simp: in_order_def map_all_Inr_iff list_all2_conv_all_nth split: option.splits)

lemma in_order_Inl: "in_order n R = Inl e \<Longrightarrow> e = ''KeyError''"
  unfolding in_order_def by (auto dest!: map_all_InlD split: option.splits)

lemma in_order_keys:
  assumes "in_order n R = Inr rs" and "set (map fst R) \<subseteq> set (map fst R')"
  shows "\<exists>rs'. in_order n R' = Inr rs'"
proof -
  have "\<exists>r. map_of R' i = Some r" if "i < n" for i
  proof -
    have "i \<in> set (map fst R')" using assms that by (force simp: in_order_Inr dest: map_of_SomeD)
    then show ?thesis using map_of_eq_None_iff [of R' i] by (cases "map_of R' i") auto
  qed
  then have "in_order n R' = Inr (map (\<lambda>i. the (map_of R' i)) [0 ..< n])"
    unfolding in_order_Inr by (metis (no_types, lifting) add_0 diff_zero length_map length_upt nth_map_upt option.sel)
  then show ?thesis by blast
qed

lemma pass_rate_one: "sc_pass_rate (score_of task t rs) = 1 \<longleftrightarrow> rs \<noteq> [] \<and> list_all cr_passed rs"
proof -
  have "length (filter cr_passed rs) = length rs \<longleftrightarrow> list_all cr_passed rs"
  proof (induction rs)
    case (Cons r rs)
    moreover have "length (filter cr_passed rs) \<noteq> Suc (length rs)" using length_filter_le [of cr_passed rs] by linarith
    ultimately show ?case by auto
  qed simp
  then show ?thesis by (auto simp: score_of_def Let_def)
qed

lemma failed_first:
  assumes "in_order n (ds @ rest) = Inr rs" and "(i, r) \<in> set ds" and "distinct (map fst ds)" and "i < n" and "\<not> cr_passed r"
  shows "sc_pass_rate (score_of task t rs) \<noteq> 1"
proof -
  have "map_of ds i = Some r" using assms(2,3) by simp
  then have "rs ! i = r" "length rs = n" using assms(1,4) by (auto simp: in_order_Inr map_add_def)
  with assms(4,5) show ?thesis by (auto simp: pass_rate_one list_all_length)
qed

lemma by_grader_distinct: "distinct (map fst (by_grader g cs))"
proof -
  have "distinct (map fst (List.enumerate 0 cs))" by simp
  then show ?thesis unfolding by_grader_def by (rule distinct_map_filter)
qed

lemma in_order_both:
  assumes "set (map fst R) = set (map fst R')"
  shows "(\<exists>e. in_order n R = Inl e \<and> in_order n R' = Inl e) \<or> (\<exists>rs rs'. in_order n R = Inr rs \<and> in_order n R' = Inr rs')"
proof (cases "in_order n R")
  case (Inr rs)
  with in_order_keys [OF Inr] assms show ?thesis by blast
next
  case (Inl e)
  then have "in_order n R' \<noteq> Inr rs'" for rs' using in_order_keys [of n R' rs' R] assms by auto
  then obtain e' where e': "in_order n R' = Inl e'" by (cases "in_order n R'") auto
  from in_order_Inl [OF Inl] in_order_Inl [OF e'] Inl e' show ?thesis by simp
qed

lemma failed_checks:
  assumes "grade_each f (by_grader g cs) = Inr ds" and "ds \<noteq> [] \<and> \<not> list_ex (\<lambda>(i, r). cr_passed r) ds"
    and "in_order (length cs) (ds @ rest) = Inr rs"
  shows "sc_pass_rate (score_of task t rs) \<noteq> 1"
proof -
  obtain i r where ir: "(i, r) \<in> set ds" "\<not> cr_passed r" using assms(2) by (cases ds) auto
  then have "i \<in> set (map fst (by_grader g cs))" unfolding grade_each_keys [OF assms(1), symmetric] by force
  then have "i < length cs" by (rule by_grader_index)
  then show ?thesis using failed_first [OF assms(3) ir(1) _ _ ir(2)] grade_each_keys [OF assms(1)] by_grader_distinct by metis
qed


end
