(* ===== verification/EvalStats.thy ===== *)
theory EvalStats
  imports EvalGraders
begin

text \<open>
  Statistics of trials (\<open>eval-framework/evalkit/stats.py\<close>) and what a command makes of them
  (\<open>build_task_result\<close> and \<open>_results_exit_code\<close> of \<open>run.py\<close>, \<open>infra_error_stats\<close> of \<open>reporter.py\<close>).
  Floats are real numbers here; \<open>erf\<close> is that of \<open>math\<close>.
\<close>

section \<open>Estimators\<close>

definition model_quality_scores :: "score list \<Rightarrow> score list" where
  "model_quality_scores ss = filter (\<lambda>s. sc_graded s \<and> \<not> sc_infra s) ss"

text \<open>Of \<open>n\<close> trials \<open>c\<close> passed; the guards come first, so that no logarithm is taken of zero.\<close>

definition pass_at_k :: "nat \<Rightarrow> nat \<Rightarrow> nat \<Rightarrow> real" where
  "pass_at_k n c k =
     (if n < k then 0 else if c = 0 then 0 else if n \<le> c then 1 else if n - c < k then 1
      else 1 - exp (\<Sum>i<k. ln (real (n - c - i)) - ln (real (n - i))))"

definition perfect_scores :: "score list \<Rightarrow> score list" where
  "perfect_scores ss = filter (\<lambda>s. sc_pass_rate s = 1) ss"

definition pass_pow_k :: "score list \<Rightarrow> real" where
  "pass_pow_k ss =
     (case model_quality_scores ss of
        [] \<Rightarrow> 0
      | es \<Rightarrow> real (length (perfect_scores es)) / real (length es))"

definition mean_pass_rate :: "score list \<Rightarrow> real" where
  "mean_pass_rate ss =
     (case model_quality_scores ss of
        [] \<Rightarrow> 0
      | es \<Rightarrow> (\<Sum>s\<leftarrow>es. of_rat (sc_pass_rate s)) / real (length es))"

text \<open>The bisection for the critical value, in \<open>k\<close> halvings.\<close>

fun bisect :: "(real \<Rightarrow> real) \<Rightarrow> real \<Rightarrow> nat \<Rightarrow> real \<Rightarrow> real \<Rightarrow> real" where
  "bisect erf target 0 lo hi = (lo + hi) / 2"
| "bisect erf target (Suc k) lo hi =
     (let mid = (lo + hi) / 2
      in if erf (mid / sqrt 2) < target then bisect erf target k mid hi else bisect erf target k lo mid)"

definition z_for_alpha :: "(real \<Rightarrow> real) \<Rightarrow> real \<Rightarrow> real" where
  "z_for_alpha erf alpha = bisect erf (1 - alpha) 100 0 10"

definition wilson_ci :: "(real \<Rightarrow> real) \<Rightarrow> nat \<Rightarrow> nat \<Rightarrow> real \<Rightarrow> real \<times> real" where
  "wilson_ci erf successes trials alpha =
     (if trials = 0 then (0, 0)
      else let z = z_for_alpha erf alpha; t = real trials; p = real successes / t;
               denom = 1 + z * z / t;
               center = (p + z * z / (2 * t)) / denom;
               margin = (z * sqrt (p * (1 - p) / t + z * z / (4 * t * t))) / denom
           in (max 0 (center - margin), min 1 (center + margin)))"

section \<open>Results of tasks\<close>

text \<open>A task as the loader makes it; \<open>et_spec\<close> is what the runner uses of it.\<close>

record eval_task =
  et_spec :: run_task_spec
  et_name :: string
  et_suite :: string
  et_model :: string
  et_max_turns :: int
  et_timeout :: int
  et_tags :: "string list"
  et_type :: string
  et_difficulty :: int
  et_control_for :: "string option"
  et_expected :: string
  et_criteria :: "criterion list"
  et_backend :: string
  et_backend_config :: "(string \<times> json) list"

record task_result =
  tk_task :: eval_task
  tk_trials :: "trial list"
  tk_scores :: "score list"
  tk_pass_at :: "real option"
  tk_pass_pow :: "real option"
  tk_mean :: "real option"

definition build_task_result :: "eval_task \<Rightarrow> trial list \<Rightarrow> score list \<Rightarrow> task_result" where
  "build_task_result task trials scores =
     (let quality = model_quality_scores scores; n = length quality;
          whenever = (\<lambda>v. if n = 0 then None else Some v)
      in \<lparr>tk_task = task, tk_trials = trials, tk_scores = scores,
          tk_pass_at = whenever (pass_at_k n (length (perfect_scores quality)) n),
          tk_pass_pow = whenever (pass_pow_k quality), tk_mean = whenever (mean_pass_rate quality)\<rparr>)"

text \<open>Failed trials, all trials, and their ratio.\<close>

definition infra_error_stats :: "task_result list \<Rightarrow> nat \<times> nat \<times> rat" where
  "infra_error_stats rs =
     (let scores = concat (map tk_scores rs); infra = length (filter sc_infra scores); trials = length scores
      in (infra, trials, if trials = 0 then 0 else of_nat infra / of_nat trials))"

definition invalid_rate :: rat where
  "invalid_rate = 1 / 5"

definition run_is_invalid :: "task_result list \<Rightarrow> bool" where
  "run_is_invalid rs \<longleftrightarrow> (case infra_error_stats rs of (infra, trials, rate) \<Rightarrow> 0 < trials \<and> invalid_rate \<le> rate)"

definition results_exit_code :: "task_result list \<Rightarrow> nat" where
  "results_exit_code rs =
     (case infra_error_stats rs of
        (infra, trials, rate) \<Rightarrow>
          if invalid_rate \<le> rate then 2
          else if list_ex (\<lambda>r. et_type (tk_task r) = ''regression'' \<and> tk_pass_pow r = Some 0) rs then 1 else 0)"

section \<open>The estimator is exact\<close>

text \<open>The product of the ratios is a ratio of binomial coefficients.\<close>

lemma ratio_product:
  assumes "k \<le> m" and "m \<le> n"
  shows "(\<Prod>i<k. real (m - i) / real (n - i)) * real (n choose k) = real (m choose k)"
  using assms(1)
proof (induction k)
  case (Suc k)
  have step: "real (Suc k) * real (x choose Suc k) = real (x - k) * real (x choose k)" for x :: nat
    by (simp only: of_nat_mult [symmetric] binomial_absorption binomial_absorb_comp)
  have n: "0 < real (n - k)" using Suc.prems assms(2) by simp
  have "real (Suc k) * ((\<Prod>i<Suc k. real (m - i) / real (n - i)) * real (n choose Suc k)) =
      (\<Prod>i<k. real (m - i) / real (n - i)) * (real (m - k) / real (n - k)) * (real (Suc k) * real (n choose Suc k))"
    by simp
  also have "\<dots> = real (m - k) * ((\<Prod>i<k. real (m - i) / real (n - i)) * real (n choose k))"
    using step [of n] n Suc.prems assms(2) by simp
  also have "\<dots> = real (Suc k) * real (m choose Suc k)"
    using Suc step [of m] by simp
  finally have "real (Suc k) * ((\<Prod>i<Suc k. real (m - i) / real (n - i)) * real (n choose Suc k)) = real (Suc k) * real (m choose Suc k)" .
  moreover have "real (Suc k) \<noteq> 0" by simp
  ultimately show ?case using mult_left_cancel by blast
qed simp

lemma missing_subsets:
  assumes "c \<le> n"
  shows "card {S. S \<subseteq> {..<n} \<and> card S = k \<and> S \<inter> {..<c} \<noteq> {}} = (n choose k) - (n - c choose k)"
proof -
  let ?all = "{S. S \<subseteq> {..<n} \<and> card S = k}" and ?none = "{S. S \<subseteq> {c..<n} \<and> card S = k}"
  have "{S. S \<subseteq> {..<n} \<and> card S = k \<and> S \<inter> {..<c} \<noteq> {}} = ?all - ?none"
    by (auto simp: subset_iff disjoint_iff)
  moreover have "?none \<subseteq> ?all" using assms by auto
  moreover have "finite ?none" by (rule finite_subset [of _ "Pow {c..<n}"]) auto
  ultimately show ?thesis using n_subsets [of "{..<n}" k] n_subsets [of "{c..<n}" k] by (simp add: card_Diff_subset)
qed

lemma pass_at_k_binomial:
  assumes "0 < k" and "k \<le> n" and "c \<le> n"
  shows "pass_at_k n c k * real (n choose k) = real (n choose k) - real (n - c choose k)"
proof (cases "c = 0 \<or> n \<le> c \<or> n - c < k")
  case True
  with assms show ?thesis by (auto simp: pass_at_k_def binomial_eq_0)
next
  case False
  then have small: "k \<le> n - c" by simp
  have "ln (real (n - c - i)) - ln (real (n - i)) = ln (real (n - c - i) / real (n - i))" if "i < k" for i
  proof -
    have "0 < real (n - c - i)" "0 < real (n - i)" using that small by simp_all
    then show ?thesis by (auto simp only: ln_div split: if_split)
  qed
  then have "exp (\<Sum>i<k. ln (real (n - c - i)) - ln (real (n - i))) = exp (\<Sum>i<k. ln (real (n - c - i) / real (n - i)))"
    by simp
  also have "\<dots> = (\<Prod>i<k. real (n - c - i) / real (n - i))"
    using small assms by (simp add: exp_sum)
  finally have "pass_at_k n c k = 1 - (\<Prod>i<k. real (n - c - i) / real (n - i))"
    using False assms by (simp add: pass_at_k_def)
  then show ?thesis using ratio_product [OF small, of n] by (simp add: left_diff_distrib)
qed

lemma quality_idem: "model_quality_scores (model_quality_scores ss) = model_quality_scores ss"
  by (simp add: model_quality_scores_def)

lemma perfect_bound: "length (perfect_scores ss) \<le> length ss"
  by (simp add: perfect_scores_def)

text \<open>A reported pass@k is taken at all its trials, so it only tells whether one of them passed.\<close>

lemma reported_pass_at:
  "tk_pass_at (build_task_result task ts ss) =
     (if model_quality_scores ss = [] then None
      else Some (of_bool (list_ex (\<lambda>s. sc_pass_rate s = 1) (model_quality_scores ss))))"
proof -
  let ?q = "model_quality_scores ss"
  have "perfect_scores ?q = [] \<longleftrightarrow> \<not> list_ex (\<lambda>s. sc_pass_rate s = 1) ?q"
    by (auto simp: perfect_scores_def filter_empty_conv list_ex_iff)
  moreover have "pass_at_k (length ?q) (length (perfect_scores ?q)) (length ?q) = of_bool (perfect_scores ?q \<noteq> [])"
    using perfect_bound [of ?q] by (cases "perfect_scores ?q") (auto simp: pass_at_k_def)
  ultimately show ?thesis by (simp add: build_task_result_def Let_def)
qed



section \<open>The interval\<close>

lemma bisect_between: "lo \<le> hi \<Longrightarrow> lo \<le> bisect erf target k lo hi \<and> bisect erf target k lo hi \<le> hi"
proof (induction k arbitrary: lo hi)
  case (Suc k)
  then show ?case using Suc.IH [of "(lo + hi) / 2" hi] Suc.IH [of lo "(lo + hi) / 2"] by (auto simp: Let_def)
qed simp

lemma wilson_margin:
  fixes p a :: real
  assumes "0 \<le> p" and "p \<le> 1" and "0 \<le> a"
  shows "a * \<bar>p - 1 / 2\<bar> \<le> sqrt (a * (p * (1 - p)) + a * a / 4)"
proof (rule real_le_rsqrt)
  have "(a * \<bar>p - 1 / 2\<bar>)\<^sup>2 = a * a / 4 - a * a * (p * (1 - p))" by (simp add: power2_eq_square power_mult_distrib algebra_simps)
  also have "\<dots> \<le> a * (p * (1 - p)) + a * a / 4"
  proof -
    have "0 \<le> p * (1 - p)" using assms by simp
    then have "0 \<le> a * (p * (1 - p))" "0 \<le> a * a * (p * (1 - p))" using assms(3) by simp_all
    then show ?thesis by linarith
  qed
  finally show "(a * \<bar>p - 1 / 2\<bar>)\<^sup>2 \<le> a * (p * (1 - p)) + a * a / 4" .
qed

text \<open>The reported interval lies in the unit interval and contains the observed rate.\<close>

lemma wilson_interval:
  assumes "successes \<le> trials" and "0 < trials"
  shows "case wilson_ci erf successes trials alpha of
      (lo, hi) \<Rightarrow> 0 \<le> lo \<and> lo \<le> real successes / real trials \<and> real successes / real trials \<le> hi \<and> hi \<le> 1"
proof -
  define z t p a where "z = z_for_alpha erf alpha" and "t = real trials" and "p = real successes / t" and "a = z * z / t"
  have t: "0 < t" using assms(2) by (simp add: t_def)
  have p: "0 \<le> p" "p \<le> 1" using assms t by (simp_all add: p_def t_def)
  have z: "0 \<le> z" unfolding z_def z_for_alpha_def using bisect_between [of 0 10] by simp
  have a: "0 \<le> a" using t by (simp add: a_def)
  have "z * sqrt (p * (1 - p) / t + z * z / (4 * t * t)) = sqrt (z * z * (p * (1 - p) / t + z * z / (4 * t * t)))"
    using z by (simp add: real_sqrt_mult)
  also have "z * z * (p * (1 - p) / t + z * z / (4 * t * t)) = a * (p * (1 - p)) + a * a / 4"
    using t by (simp add: a_def field_simps)
  finally have margin: "a * \<bar>p - 1 / 2\<bar> \<le> z * sqrt (p * (1 - p) / t + z * z / (4 * t * t))"
    using wilson_margin [OF p a] by simp
  define m where "m = z * sqrt (p * (1 - p) / t + z * z / (4 * t * t))"
  have split: "p - (p + a / 2) / (1 + a) = a * (p - 1 / 2) / (1 + a)" using a by (simp add: field_simps)
  have "\<bar>a * (p - 1 / 2)\<bar> \<le> m" using margin a by (simp add: m_def abs_mult)
  then have "a * (p - 1 / 2) \<le> m" "- m \<le> a * (p - 1 / 2)" by linarith+
  from divide_right_mono [OF this(1), of "1 + a"] divide_right_mono [OF this(2), of "1 + a"] a
  have "a * (p - 1 / 2) / (1 + a) \<le> m / (1 + a)" "- (m / (1 + a)) \<le> a * (p - 1 / 2) / (1 + a)" by simp_all
  with split have "(p + a / 2) / (1 + a) - m / (1 + a) \<le> p" "p \<le> (p + a / 2) / (1 + a) + m / (1 + a)" by linarith+
  moreover have "wilson_ci erf successes trials alpha = (max 0 ((p + a / 2) / (1 + a) - m / (1 + a)), min 1 ((p + a / 2) / (1 + a) + m / (1 + a)))"
    using assms(2) by (simp add: wilson_ci_def Let_def m_def a_def p_def t_def z_def mult.commute)
  ultimately show ?thesis using p by (simp add: p_def t_def)
qed

section \<open>Exit statuses\<close>

lemma perfect_none: "pass_pow_k qs = 0 \<longleftrightarrow> \<not> list_ex (\<lambda>s. sc_pass_rate s = 1) (model_quality_scores qs)"
  by (auto simp: pass_pow_k_def perfect_scores_def list_ex_iff filter_empty_conv split: list.split)

text \<open>A run whose trials failed for infrastructure at the given rate is an error; otherwise a regression
  task gates it exactly when it had trustworthy trials and none of them was perfect.\<close>

lemma exit_status:
  assumes "list_all (\<lambda>r. \<exists>task ts ss. r = build_task_result task ts ss) rs"
  shows "results_exit_code rs = 2 \<longleftrightarrow> run_is_invalid rs"
    and "results_exit_code rs = 1 \<longleftrightarrow> \<not> run_is_invalid rs \<and>
      list_ex (\<lambda>r. et_type (tk_task r) = ''regression'' \<and> model_quality_scores (tk_scores r) \<noteq> [] \<and>
        \<not> list_ex (\<lambda>s. sc_pass_rate s = 1) (model_quality_scores (tk_scores r))) rs"
proof -
  have gate: "tk_pass_pow r = Some 0 \<longleftrightarrow> model_quality_scores (tk_scores r) \<noteq> [] \<and>
      \<not> list_ex (\<lambda>s. sc_pass_rate s = 1) (model_quality_scores (tk_scores r))" if mem: "r \<in> set rs" for r
  proof -
    obtain task ts ss where "r = build_task_result task ts ss" using assms mem unfolding list_all_iff by blast
    then show ?thesis using perfect_none [of "model_quality_scores ss"] by (simp add: build_task_result_def Let_def quality_idem)
  qed
  have invalid: "run_is_invalid rs \<longleftrightarrow> invalid_rate \<le> snd (snd (infra_error_stats rs))"
    by (simp add: run_is_invalid_def infra_error_stats_def invalid_rate_def Let_def)
  show "results_exit_code rs = 2 \<longleftrightarrow> run_is_invalid rs"
    unfolding invalid by (simp add: results_exit_code_def split: prod.split)
  show "results_exit_code rs = 1 \<longleftrightarrow> \<not> run_is_invalid rs \<and>
      list_ex (\<lambda>r. et_type (tk_task r) = ''regression'' \<and> model_quality_scores (tk_scores r) \<noteq> [] \<and>
        \<not> list_ex (\<lambda>s. sc_pass_rate s = 1) (model_quality_scores (tk_scores r))) rs"
    unfolding invalid using gate by (auto simp: results_exit_code_def list_ex_iff split: prod.split)
qed

end
