(* ===== verification/EvalLoader.thy ===== *)
theory EvalLoader
  imports EvalStats
begin

text \<open>
  Suites and tasks from their files (\<open>eval-framework/evalkit/loader.py\<close>).  The values of a parsed TOML
  file are those of \<open>json\<close>; dates have no use in it.  The loader keeps text fields of a criterion
  whatever their type is; the model holds texts, and \<open>IllTyped\<close> stands for what it does not hold.
\<close>

section \<open>Reading\<close>

datatype load_error = LoaderError string | Raised string | IllTyped string

text \<open>What a file is to \<open>tomllib\<close>: missing, not TOML, unreadable for another reason, or a table.\<close>

datatype toml_file = NoFile | BadToml string | FileRaises string | Toml "(string \<times> json) list"

record load_env =
  le_toml :: "path \<Rightarrow> toml_file"
  le_text :: "path \<Rightarrow> string + string option"
  le_dirs :: "path \<Rightarrow> string list option"
  le_resolve :: "path \<Rightarrow> path"
  le_show :: "path \<Rightarrow> string"

definition read_toml :: "load_env \<Rightarrow> path \<Rightarrow> load_error + (string \<times> json) list" where
  "read_toml le p =
     (case le_toml le p of
        NoFile \<Rightarrow> Inl (LoaderError (''missing TOML file: '' @ le_show le p))
      | BadToml e \<Rightarrow> Inl (LoaderError (''invalid TOML in '' @ le_show le p @ '': '' @ e))
      | FileRaises e \<Rightarrow> Inl (Raised e)
      | Toml d \<Rightarrow> Inr d)"

definition load_suite_meta :: "load_env \<Rightarrow> path \<Rightarrow> load_error + (string \<times> json) list" where
  "load_suite_meta le dir =
     and_then (read_toml le (dir @ [''suite.toml''])) (\<lambda>d.
       let folded = (\<lambda>k k' m. case jget d k of JObj t \<Rightarrow> AList.update k' (JObj t) m | _ \<Rightarrow> m);
           bad = Inl (LoaderError (le_show le dir @ ''/suite.toml needs a [suite] table with a name''))
       in case jget_default d ''suite'' (JObj []) of
            JObj raw \<Rightarrow>
              if map_of raw ''name'' = None then bad
              else Inr (folded ''judge'' ''judge_config'' (folded ''backend'' ''backend_config'' raw))
          | _ \<Rightarrow> bad)"

section \<open>Parts of a task\<close>

text \<open>\<open>x or default\<close>.\<close>

definition if_falsy :: "json \<Rightarrow> json \<Rightarrow> json" where
  "if_falsy v d = (if truthy v then v else d)"

definition text_field :: "(string \<times> json) list \<Rightarrow> string \<Rightarrow> load_error + string option" where
  "text_field c k = (case jget c k of JNull \<Rightarrow> Inr None | JStr s \<Rightarrow> Inr (Some s) | _ \<Rightarrow> Inl (IllTyped k))"

definition texts_field :: "(string \<times> json) list \<Rightarrow> string \<Rightarrow> load_error + string list option" where
  "texts_field c k =
     (case jget c k of
        JNull \<Rightarrow> Inr None
      | JList vs \<Rightarrow>
          map_sum id Some (map_all (\<lambda>v. case v of JStr s \<Rightarrow> Inr s | _ \<Rightarrow> Inl (IllTyped k)) vs)
      | _ \<Rightarrow> Inl (IllTyped k))"

definition load_int :: "grade_env \<Rightarrow> json \<Rightarrow> load_error + int" where
  "load_int en v = map_sum Raised id (int_arg en v)"

definition int_field :: "grade_env \<Rightarrow> (string \<times> json) list \<Rightarrow> string \<Rightarrow> load_error + int option" where
  "int_field en c k = (if jget c k = JNull then Inr None else map_sum id Some (load_int en (jget c k)))"

text \<open>What a value is as an iterable.\<close>

fun list_items :: "json \<Rightarrow> load_error + json list" where
  "list_items (JList vs) = Inr vs"
| "list_items (JStr s) = Inr (map (\<lambda>ch. JStr [ch]) s)"
| "list_items (JObj kvs) = Inr (map (\<lambda>kv. JStr (fst kv)) kvs)"
| "list_items v = Inl (Raised (''TypeError: '' @ type_name v @ '' object is not iterable''))"

fun table_of :: "json \<Rightarrow> load_error + (string \<times> json) list" where
  "table_of (JObj kvs) = Inr kvs"
| "table_of v = Inl (Raised (type_name v @ '' object is no mapping''))"

definition ints_field :: "grade_env \<Rightarrow> (string \<times> json) list \<Rightarrow> string \<Rightarrow> load_error + int list option" where
  "ints_field en c k =
     (if jget c k = JNull then Inr None
      else and_then (list_items (jget c k)) (\<lambda>vs. map_sum id Some (map_all (load_int en) vs)))"

definition known_graders :: "string list" where
  "known_graders = [''deterministic'', ''trajectory'', ''llm'']"

text \<open>\<open>"text" not in c\<close> works on tables, lists and texts; the subscription only on tables.\<close>

definition has_keys :: "json \<Rightarrow> load_error + bool" where
  "has_keys c =
     (case c of
        JObj kvs \<Rightarrow> Inr (map_of kvs ''text'' \<noteq> None \<and> map_of kvs ''grader'' \<noteq> None)
      | JList vs \<Rightarrow> Inr (JStr ''text'' \<in> set vs \<and> JStr ''grader'' \<in> set vs)
      | JStr s \<Rightarrow> Inr (contains ''text'' s \<and> contains ''grader'' s)
      | _ \<Rightarrow> Inl (Raised (''TypeError: argument of type '' @ type_name c @ '' is not iterable'')))"

definition parse_criterion :: "grade_env \<Rightarrow> string \<Rightarrow> nat \<Rightarrow> json \<Rightarrow> load_error + criterion" where
  "parse_criterion en dir i v =
     and_then (has_keys v) (\<lambda>ok.
       if \<not> ok then Inl (LoaderError (dir @ '': criterion #'' @ str_nat (i + 1) @ '' needs '' @ apostrophe @ ''text'' @ apostrophe @
                           '' and '' @ apostrophe @ ''grader'' @ apostrophe))
       else case v of
              JObj c \<Rightarrow>
                if jget c ''grader'' \<notin> set (map JStr known_graders)
                then Inl (LoaderError (dir @ '': criterion '' @ apostrophe @ str_json en (jget c ''text'') @ apostrophe @
                            '' has unknown grader '' @ apostrophe @ str_json en (jget c ''grader'') @ apostrophe))
                else
                  and_then (text_field c ''check'') (\<lambda>check.
                  and_then (text_field c ''target'') (\<lambda>target.
                  and_then (texts_field c ''tool_sequence'') (\<lambda>tools.
                  and_then (int_field en c ''node_id'') (\<lambda>node.
                  and_then (text_field c ''expect_branch'') (\<lambda>branch.
                  and_then (text_field c ''expect_status'') (\<lambda>status.
                  and_then (int_field en c ''expect_tier'') (\<lambda>tier.
                  and_then (text_field c ''expect_args_contains'') (\<lambda>args.
                  and_then (ints_field en c ''expect_before'') (\<lambda>before.
                  and_then (ints_field en c ''expect_after'') (\<lambda>after.
                  and_then (text_field c ''expect_branch_taken'') (\<lambda>taken.
                    Inr \<lparr>c_text = str_json en (jget c ''text''), c_grader = str_json en (jget c ''grader''), c_check = check,
                         c_target = target, c_value = jget c ''value'', c_tool_sequence = tools, c_node_id = node,
                         c_expect_branch = branch, c_expect_status = status, c_expect_tier = tier,
                         c_expect_flagged = (if jget c ''expect_flagged'' = JNull then None else Some (truthy (jget c ''expect_flagged''))),
                         c_expect_args_contains = args, c_expect_before = before, c_expect_after = after,
                         c_expect_branch_taken = taken\<rparr>)))))))))))
            | _ \<Rightarrow> Inl (Raised ''TypeError: indices must be integers''))"

definition parse_criteria :: "grade_env \<Rightarrow> string \<Rightarrow> json \<Rightarrow> load_error + criterion list" where
  "parse_criteria en dir raw =
     and_then (list_items raw) (\<lambda>vs. map_all (\<lambda>(i, v). parse_criterion en dir i v) (List.enumerate 0 vs))"

definition parse_fixtures :: "grade_env \<Rightarrow> json \<Rightarrow> load_error + eval_fixtures" where
  "parse_fixtures en raw =
     and_then (table_of raw) (\<lambda>r.
     and_then (table_of (if_falsy (jget r ''install'') (JObj []))) (\<lambda>install.
     and_then (list_items (if_falsy (jget r ''capture'') (JList []))) (\<lambda>capture.
       Inr \<lparr>fx_install = map (\<lambda>(dest, src). (dest, if src = JStr [] then None else Some (str_json en src))) install,
            fx_capture = map (str_json en) capture\<rparr>)))"

section \<open>Tasks and suites\<close>

definition default_model :: string where "default_model = ''sonnet''"
definition default_timeout :: int where "default_timeout = 180"
definition default_max_turns :: int where "default_max_turns = 10"
definition default_backend :: string where "default_backend = ''claude-cli''"

text \<open>\<open>{**a, **b}\<close>.\<close>

definition merged :: "(string \<times> json) list \<Rightarrow> (string \<times> json) list \<Rightarrow> (string \<times> json) list" where
  "merged a b = foldl (\<lambda>d (k, v). AList.update k v d) a b"

definition prompt_of :: "load_env \<Rightarrow> path \<Rightarrow> load_error + string" where
  "prompt_of le dir =
     (case le_text le (dir @ [''prompt.md'']) of
        Inl e \<Rightarrow> Inl (Raised e)
      | Inr None \<Rightarrow> Inl (LoaderError (le_show le dir @ '': missing prompt.md''))
      | Inr (Some t) \<Rightarrow> Inr t)"

definition load_task :: "load_env \<Rightarrow> grade_env \<Rightarrow> path \<Rightarrow> (string \<times> json) list \<Rightarrow> string \<Rightarrow> load_error + eval_task" where
  "load_task le en task_dir meta suite =
     (let dir = le_resolve le task_dir; str = str_json en;
          first = (\<lambda>cfg k k' d. if_falsy (jget cfg k) (if_falsy (jget meta k') d))
      in
      and_then (read_toml le (dir @ [''config.toml''])) (\<lambda>cfg.
      and_then (prompt_of le dir) (\<lambda>prompt.
      and_then (load_int en (first cfg ''timeout_s'' ''default_timeout_s'' (JInt default_timeout))) (\<lambda>timeout.
      and_then (load_int en (if_falsy (jget cfg ''max_turns'') (JInt default_max_turns))) (\<lambda>turns.
      and_then (parse_fixtures en (if_falsy (jget cfg ''fixtures'') (JObj []))) (\<lambda>fixtures.
      and_then (parse_criteria en (le_show le dir) (if_falsy (jget cfg ''criteria'') (JList []))) (\<lambda>criteria.
      and_then (table_of (if_falsy (jget cfg ''context_files'') (JObj []))) (\<lambda>context.
      and_then (table_of (if_falsy (jget meta ''backend_config'') (JObj []))) (\<lambda>base.
      and_then (table_of (if_falsy (jget cfg ''backend_config'') (JObj []))) (\<lambda>own.
      and_then (list_items (if_falsy (jget cfg ''tags'') (JList []))) (\<lambda>tags.
      and_then (load_int en (jget_default cfg ''difficulty'' (JInt 1))) (\<lambda>difficulty.
      and_then (text_field cfg ''control_for'') (\<lambda>control.
        Inr \<lparr>et_spec = \<lparr>rt_id = last dir, rt_path = dir, rt_prompt = prompt, rt_fixtures = fixtures,
                         rt_context_files = map (\<lambda>(k, v). (k, str v)) context\<rparr>,
             et_name = str (jget_default cfg ''name'' (JStr (last dir))), et_suite = suite,
             et_model = str (first cfg ''model'' ''default_model'' (JStr default_model)),
             et_max_turns = turns, et_timeout = timeout, et_tags = map str tags,
             et_type = str (first cfg ''type'' ''default_type'' (JStr ''capability'')), et_difficulty = difficulty,
             et_control_for = control, et_expected = str (jget_default cfg ''expected_behavior'' (JStr [])),
             et_criteria = criteria, et_backend = str (first cfg ''backend'' ''default_backend'' (JStr default_backend)),
             et_backend_config = merged base own\<rparr>)))))))))))))"

text \<open>\<open>le_dirs\<close> lists the directories of a directory; those with a \<open>config.toml\<close> are tasks.\<close>

definition load_suite :: "load_env \<Rightarrow> grade_env \<Rightarrow> path \<Rightarrow> load_error + (string \<times> json) list \<times> eval_task list" where
  "load_suite le en suite_dir =
     (let dir = le_resolve le suite_dir; tasks = dir @ [''tasks'']
      in and_then (load_suite_meta le dir) (\<lambda>meta.
           case le_dirs le tasks of
             None \<Rightarrow> Inl (LoaderError (le_show le dir @ '': missing tasks/ directory''))
           | Some ds \<Rightarrow>
               and_then (map_all (\<lambda>d. load_task le en (tasks @ [d]) meta (str_json en (jget meta ''name'')))
                           (filter (\<lambda>d. le_toml le (tasks @ [d, ''config.toml'']) \<noteq> NoFile) (sort ds))) (\<lambda>ts. Inr (meta, ts))))"

definition load_task_with_suite :: "load_env \<Rightarrow> grade_env \<Rightarrow> path \<Rightarrow> load_error + (string \<times> json) list \<times> eval_task" where
  "load_task_with_suite le en dir =
     and_then (load_suite_meta le (butlast (butlast dir))) (\<lambda>meta.
       and_then (load_task le en dir meta (str_json en (jget meta ''name''))) (\<lambda>t. Inr (meta, t)))"

section \<open>Loaded tasks are graded\<close>

lemma loaded_grader: "parse_criterion en dir i v = Inr c \<Longrightarrow> c_grader c \<in> set known_graders"
  by (auto simp: parse_criterion_def str_json_def key_text_def split: if_splits json.splits)

lemma loaded_graders:
  assumes "load_task le en dir meta suite = Inr t"
  shows "list_all (\<lambda>c. c_grader c \<in> set known_graders) (et_criteria t)"
proof -
  obtain raw where "parse_criteria en (le_show le (le_resolve le dir)) raw = Inr (et_criteria t)"
    using assms by (auto simp: load_task_def Let_def)
  then obtain vs where "map_all (\<lambda>(i, v). parse_criterion en (le_show le (le_resolve le dir)) i v) vs = Inr (et_criteria t)"
    by (auto simp: parse_criteria_def)
  then have "\<exists>dir i v. parse_criterion en dir i v = Inr (et_criteria t ! j)" if "j < length (et_criteria t)" for j
    using that unfolding map_all_Inr_iff list_all2_conv_all_nth by (cases "vs ! j") force
  then show ?thesis unfolding list_all_length using loaded_grader by blast
qed

text \<open>Every check reports the criterion it was given.\<close>

definition reports :: "string \<Rightarrow> criterion \<Rightarrow> criterion_result \<Rightarrow> bool" where
  "reports g c r \<longleftrightarrow> cr_text r = c_text c \<and> cr_grader r = g"

lemma reports_graded [simp]: "reports g c (graded g c passed why)" "reports g c ((graded g c passed why)\<lparr>cr_infra := b\<rparr>)"
  by (simp_all add: reports_def graded_def)

lemma deterministic_reports: "deterministic en c t = Inr r \<Longrightarrow> reports ''deterministic'' c r"
  by (auto simp: deterministic_def Let_def split: if_splits option.splits prod.splits)

lemma trajectory_parts:
  "reports ''trajectory'' c (step_result en c st)" "reports ''trajectory'' c (absent_result en c names tseq)"
  "order_result en c ss i mine = Inr r \<Longrightarrow> reports ''trajectory'' c r" "present_result en c ss tseq = Inr r \<Longrightarrow> reports ''trajectory'' c r"
  by (auto simp: step_result_def absent_result_def order_result_def present_result_def Let_def split: if_splits option.splits)

lemma trajectory_reports: "on_trajectory en c t = Inr r \<Longrightarrow> reports ''trajectory'' c r"
  by (auto simp: on_trajectory_def node_targeted_def Let_def trajectory_parts split: if_splits option.splits)

lemma judged_reports: "reports ''llm'' c (judged c answer)"
  by (simp add: judged_def split: option.split)

lemma grade_each_results:
  assumes "grade_each f ics = Inr rs" and "(i, r) \<in> set rs"
  shows "\<exists>c. (i, c) \<in> set ics \<and> f c = Inr r"
  using assms
proof (induction ics arbitrary: rs)
  case (Cons ic ics)
  obtain j c where ic: "ic = (j, c)" by (cases ic)
  from Cons.prems obtain r' rs' where "f c = Inr r'" "grade_each f ics = Inr rs'" "rs = (j, r') # rs'" by (auto simp: ic)
  with Cons.IH [of rs'] Cons.prems(2) show ?case by (cases "(i, r) = (j, r')") (auto simp: ic)
qed simp

lemma grade_each_raises: "grade_each f ics = Inl e \<Longrightarrow> \<exists>c \<in> snd ` set ics. f c = Inl e"
  by (induction f ics rule: grade_each.induct) (auto simp: and_then_Inl_iff)

lemma judge_each_results: "(i, r) \<in> set (fst (judge_each judge expected t ics w)) \<Longrightarrow> \<exists>c. (i, c) \<in> set ics \<and> reports ''llm'' c r"
  by (induction judge expected t ics w rule: judge_each.induct) (auto simp: llm_def judged_reports split: prod.splits)

lemma cost_gated_results: "(i, r) \<in> set (cost_gated ics) \<Longrightarrow> \<exists>c. (i, c) \<in> set ics \<and> reports ''llm'' c r"
  by (auto simp: cost_gated_def)

lemma by_grader_iff: "(i, c) \<in> set (by_grader g cs) \<longleftrightarrow> i < length cs \<and> c = cs ! i \<and> c_grader c = g"
  by (auto simp: by_grader_def in_set_enumerate_eq)

lemma by_grader_keys: "fst ` set (by_grader g cs) = {i. i < length cs \<and> c_grader (cs ! i) = g}"
  using by_grader_iff [of _ _ g cs] by (auto simp: image_iff) force

lemma in_order_total:
  assumes "{..<n} \<subseteq> fst ` set R"
  obtains rs where "in_order n R = Inr rs" and "length rs = n" and "\<And>i. i < n \<Longrightarrow> (i, rs ! i) \<in> set R"
proof -
  have "\<exists>r. map_of R i = Some r" if "i < n" for i
    using assms that map_of_eq_None_iff [of R i] by (cases "map_of R i") auto
  then have "\<exists>rs. in_order n R = Inr rs" unfolding in_order_def map_all_Inr_ex by (auto split: option.split)
  then obtain rs where "in_order n R = Inr rs" by blast
  with that [OF this] show ?thesis by (auto simp: in_order_Inr dest: map_of_SomeD)
qed

lemma known_grader_keys:
  assumes "list_all (\<lambda>c. c_grader c \<in> set known_graders) cs"
    and "map fst ds = map fst (by_grader ''deterministic'' cs)" and "map fst ts = map fst (by_grader ''trajectory'' cs)"
    and "map fst js = map fst (by_grader ''llm'' cs)"
  shows "{..<length cs} \<subseteq> fst ` set (ds @ ts @ js)"
proof
  fix i assume "i \<in> {..<length cs}"
  then have i: "i < length cs" "c_grader (cs ! i) \<in> set known_graders" using assms(1) by (auto simp: list_all_length)
  have "fst ` set ds = fst ` set (by_grader ''deterministic'' cs)" "fst ` set ts = fst ` set (by_grader ''trajectory'' cs)"
    "fst ` set js = fst ` set (by_grader ''llm'' cs)" using assms(2-4) by (metis set_map)+
  then show "i \<in> fst ` set (ds @ ts @ js)" using i by (auto simp: by_grader_keys known_graders_def image_Un)
qed

lemma report_of_index:
  assumes "(i, r) \<in> set (ds @ ts @ js)"
    and "grade_each (\<lambda>c. deterministic en c t) (by_grader ''deterministic'' cs) = Inr ds"
    and "grade_each (\<lambda>c. on_trajectory en c t) (by_grader ''trajectory'' cs) = Inr ts"
    and "\<And>i r. (i, r) \<in> set js \<Longrightarrow> \<exists>c. (i, c) \<in> set (by_grader ''llm'' cs) \<and> reports ''llm'' c r"
  shows "reports (c_grader (cs ! i)) (cs ! i) r"
  using assms(1) grade_each_results [OF assms(2), of i r] grade_each_results [OF assms(3), of i r] assms(4) [of i r]
  by (auto simp: by_grader_iff dest: deterministic_reports trajectory_reports)

lemma graded_in_full:
  assumes "list_all (\<lambda>c. c_grader c \<in> set known_graders) cs" and "\<not> trial_infra_error en t"
    and ds: "grade_each (\<lambda>c. deterministic en c t) (by_grader ''deterministic'' cs) = Inr ds"
    and ts: "grade_each (\<lambda>c. on_trajectory en c t) (by_grader ''trajectory'' cs) = Inr ts"
  obtains s w' where "grade en task cs expected judge opt t w = (Inr s, w')"
    and "list_all2 (\<lambda>c r. reports (c_grader c) c r) cs (sc_results s)"
proof -
  let ?skip = "opt \<and> ds \<noteq> [] \<and> \<not> list_ex (\<lambda>(i, r). cr_passed r) ds"
  obtain js w' where js: "(if ?skip then (cost_gated (by_grader ''llm'' cs), w) else judge_each judge expected t (by_grader ''llm'' cs) w) = (js, w')"
    by (metis surj_pair)
  then have keys: "map fst js = map fst (by_grader ''llm'' cs)"
    using judge_each_keys [of judge expected t "by_grader ''llm'' cs" w] by (auto simp: cost_gated_keys split: if_splits)
  have judged: "\<exists>c. (i, c) \<in> set (by_grader ''llm'' cs) \<and> reports ''llm'' c r" if "(i, r) \<in> set js" for i r
    using js that judge_each_results [of i r judge expected t "by_grader ''llm'' cs" w] cost_gated_results [of i r]
    by (auto split: if_splits)
  obtain rs where rs: "in_order (length cs) (ds @ ts @ js) = Inr rs" "length rs = length cs"
    "\<And>i. i < length cs \<Longrightarrow> (i, rs ! i) \<in> set (ds @ ts @ js)"
    using in_order_total [OF known_grader_keys [OF assms(1) grade_each_keys [OF ds] grade_each_keys [OF ts] keys]] by blast
  have "grade en task cs expected judge opt t w = (Inr (score_of task t rs), w')"
    using assms(2) ds ts js rs(1) by (simp add: grade_def Let_def)
  moreover have "list_all2 (\<lambda>c r. reports (c_grader c) c r) cs (sc_results (score_of task t rs))"
    using rs(2) report_of_index [OF rs(3) ds ts judged] by (auto simp: list_all2_conv_all_nth score_of_def Let_def)
  ultimately show ?thesis by (rule that)
qed


text \<open>A task of one criterion for the judge.\<close>

definition sample_loader :: load_env where
  "sample_loader =
     \<lparr>le_toml = (\<lambda>p. Toml [(''criteria'', JList [JObj [(''text'', JStr ''is polite''), (''grader'', JStr ''llm'')]])]),
      le_text = (\<lambda>p. Inr (Some ''say hello'')), le_dirs = (\<lambda>p. None), le_resolve = id, le_show = concat\<rparr>"

definition sample_grading :: grade_env where
  "sample_grading =
     \<lparr>ge_repr = (\<lambda>v. []), ge_str = (\<lambda>v. []), ge_loads = (\<lambda>s. None), ge_search = (\<lambda>p s. Inr False), ge_int_text = (\<lambda>s. None),
      ge_expand = id, ge_basename = id\<rparr>"

lemma sample_loaded:
  "\<exists>t. load_task sample_loader sample_grading [''s'', ''tasks'', ''a''] [] ''s'' = Inr t \<and>
     map c_grader (et_criteria t) = [''llm''] \<and> map c_text (et_criteria t) = [''is polite''] \<and> et_timeout t = 180"
  by (simp add: load_task_def Let_def read_toml_def prompt_of_def sample_loader_def if_falsy_def jget_simps load_int_def int_arg_def
      parse_fixtures_def parse_criteria_def parse_criterion_def has_keys_def text_field_def texts_field_def int_field_def ints_field_def
      known_graders_def str_json_def key_text_def default_timeout_def default_max_turns_def)


end
