(* ===== verification/EvalReports.thy ===== *)
theory EvalReports
  imports EvalLoader
begin

text \<open>
  The archive of a run (\<open>eval-framework/evalkit/reporter.py\<close>): what is written for tasks, trials and
  scores, and how archived trials are read back.  The archive is a list of files with the JSON value
  each holds, under paths relative to the results.  Times, the model's name and the version are left
  out of the records, and printing is left out.
\<close>

type_synonym archive = "(path \<times> json) list"

definition write_json :: "path \<Rightarrow> json \<Rightarrow> archive \<Rightarrow> archive" where
  "write_json p v ar = AList.update p v ar"

section \<open>Values as JSON\<close>

definition opt_text :: "string option \<Rightarrow> json" where
  "opt_text x = (case x of None \<Rightarrow> JNull | Some s \<Rightarrow> JStr s)"

definition opt_texts :: "(string \<times> string option) list \<Rightarrow> json" where
  "opt_texts xs = JObj (map (\<lambda>(k, v). (k, opt_text v)) xs)"

definition int_json :: "int option \<Rightarrow> json" where
  "int_json x = (case x of None \<Rightarrow> JNull | Some i \<Rightarrow> JInt i)"

text \<open>\<open>_jsonable\<close> of a trial, in the order of its fields.\<close>

definition trial_json :: "trial \<Rightarrow> json" where
  "trial_json t =
     (let r = tr_result t
      in JObj [(''task_id'', JStr (tr_task t)), (''run_number'', JInt (int (tr_run t))), (''success'', JBool (rr_success r)),
           (''error'', opt_text (rr_error r)), (''output_envelope'', JObj (rr_envelope r)), (''result_text'', JStr (rr_text r)),
           (''raw_stdout'', JStr (rr_stdout r)), (''raw_stderr'', JStr (rr_stderr r)), (''trajectory'', JList (rr_trajectory r)),
           (''side_effects'', opt_texts (tr_side_effects t)),
           (''cost_usd'', case rr_cost r of None \<Rightarrow> JNull | Some c \<Rightarrow> JFloat c), (''total_tokens'', int_json (rr_tokens r)),
           (''baseline'', opt_texts (tr_baseline t)), (''infra_error'', JBool (rr_infra r))])"

definition result_json :: "criterion_result \<Rightarrow> json" where
  "result_json r =
     JObj [(''criterion_text'', JStr (cr_text r)), (''passed'', JBool (cr_passed r)), (''evidence'', JStr (cr_evidence r)),
       (''grader_used'', JStr (cr_grader r)), (''infra_error'', JBool (cr_infra r))]"

definition score_json :: "score \<Rightarrow> json" where
  "score_json s =
     JObj [(''task_id'', JStr (sc_task s)), (''trial_num'', JInt (int (sc_trial s))),
       (''criterion_results'', JList (map result_json (sc_results s))), (''passed'', JInt (int (sc_passed s))),
       (''failed'', JInt (int (sc_failed s))), (''total'', JInt (int (sc_total s))), (''pass_rate'', JFloat (Fin (sc_pass_rate s))),
       (''infra_error'', JBool (sc_infra s)), (''graded'', JBool (sc_graded s))]"

text \<open>The mean of the tokens that trials report.\<close>

definition mean_tokens :: "trial list \<Rightarrow> json" where
  "mean_tokens ts =
     (case List.map_filter (\<lambda>t. rr_tokens (tr_result t)) ts of
        [] \<Rightarrow> JNull
      | vs \<Rightarrow> JFloat (Fin (of_int (sum_list vs) / of_nat (length vs))))"

definition quality_trials :: "task_result \<Rightarrow> nat" where
  "quality_trials r = length (model_quality_scores (tk_scores r))"

definition score_counts :: "task_result \<Rightarrow> (string \<times> json) list" where
  "score_counts r =
     [(''attempted_trials'', JInt (int (length (tk_trials r)))),
      (''graded_trials'', JInt (int (length (filter sc_graded (tk_scores r))))),
      (''model_quality_trials'', JInt (int (quality_trials r))),
      (''excluded_infra_trials'', JInt (int (length (filter sc_infra (tk_scores r))))),
      (''metrics_valid'', JBool (0 < quality_trials r))]"

text \<open>\<open>float_json\<close> is the float of a metric, and \<open>show_path\<close> the text of a path.\<close>

definition task_metadata :: "(real \<Rightarrow> json) \<Rightarrow> (path \<Rightarrow> string) \<Rightarrow> task_result \<Rightarrow> json" where
  "task_metadata float_json show_path r =
     (let t = tk_task r; metric = (\<lambda>m. case m of None \<Rightarrow> JNull | Some x \<Rightarrow> float_json x)
      in JObj ([(''id'', JStr (rt_id (et_spec t))), (''name'', JStr (et_name t)), (''suite'', JStr (et_suite t)),
           (''path'', JStr (show_path (rt_path (et_spec t)))), (''type'', JStr (et_type t)), (''difficulty'', JInt (et_difficulty t)),
           (''backend'', JStr (et_backend t)), (''model'', JStr (et_model t)), (''control_for'', opt_text (et_control_for t)),
           (''tags'', JList (map JStr (et_tags t))), (''num_criteria'', JInt (int (length (et_criteria t)))),
           (''pass_at_k'', metric (tk_pass_at r)), (''pass_pow_k'', metric (tk_pass_pow r)), (''mean_pass_rate'', metric (tk_mean r)),
           (''mean_tokens'', mean_tokens (tk_trials r))] @ score_counts r))"

section \<open>Writing\<close>

definition trial_name :: "nat \<Rightarrow> string" where
  "trial_name k = ''trial-'' @ (if k < 10 then ''0'' else []) @ str_nat k"

definition task_dir :: "path \<Rightarrow> task_result \<Rightarrow> path" where
  "task_dir run_dir r = run_dir @ [rt_id (et_spec (tk_task r))]"

text \<open>The score of a trial is the last one with its number.\<close>

definition save_trial :: "path \<Rightarrow> score list \<Rightarrow> trial \<Rightarrow> archive \<Rightarrow> archive" where
  "save_trial dir scores t ar =
     (let td = dir @ [trial_name (tr_run t)];
          ar1 = write_json (td @ [''trial.json'']) (trial_json t) ar;
          ar2 = (case map_of (rev (map (\<lambda>s. (sc_trial s, s)) scores)) (tr_run t) of
                   None \<Rightarrow> ar1
                 | Some s \<Rightarrow> write_json (td @ [''score.json'']) (score_json s) ar1)
      in write_json (td @ [''stderr.txt'']) (JStr (rr_stderr (tr_result t)))
           (write_json (td @ [''stdout.json'']) (JObj (rr_envelope (tr_result t))) ar2))"

definition save_task_artifacts :: "(real \<Rightarrow> json) \<Rightarrow> (path \<Rightarrow> string) \<Rightarrow> path \<Rightarrow> task_result \<Rightarrow> archive \<Rightarrow> archive" where
  "save_task_artifacts float_json show_path run_dir r ar =
     foldl (\<lambda>a t. save_trial (task_dir run_dir r) (tk_scores r) t a)
       (write_json (task_dir run_dir r @ [''task_metadata.json'']) (task_metadata float_json show_path r) ar) (tk_trials r)"

definition save_task_scores :: "(real \<Rightarrow> json) \<Rightarrow> (path \<Rightarrow> string) \<Rightarrow> path \<Rightarrow> task_result \<Rightarrow> archive \<Rightarrow> archive" where
  "save_task_scores float_json show_path run_dir r ar =
     foldl (\<lambda>a s. write_json (task_dir run_dir r @ [trial_name (sc_trial s), ''score.json'']) (score_json s) a)
       (write_json (task_dir run_dir r @ [''task_metadata.json'']) (task_metadata float_json show_path r) ar) (tk_scores r)"

text \<open>\<open>round(x, 4)\<close> is an argument, as it rounds a float.\<close>

definition infra_fields :: "(rat \<Rightarrow> rat) \<Rightarrow> task_result list \<Rightarrow> (string \<times> json) list" where
  "infra_fields round4 rs =
     (case infra_error_stats rs of
        (infra, trials, rate) \<Rightarrow>
          [(''infra_error_trials'', JInt (int infra)), (''infra_error_rate'', JFloat (Fin (round4 rate))),
           (''flagged_invalid'', JBool (0 < trials \<and> invalid_rate \<le> rate)),
           (''graded_trials'', JInt (int (length (filter sc_graded (concat (map tk_scores rs)))))),
           (''model_quality_trials'', JInt (int (sum_list (map quality_trials rs))))])"

record suite_result =
  sr_suite :: string
  sr_run :: string
  sr_model :: string
  sr_grader_model :: string
  sr_version :: string
  sr_trials :: int
  sr_results :: "task_result list"
  sr_cost :: json
  sr_tokens :: "int option"

definition save_run_metadata :: "(rat \<Rightarrow> rat) \<Rightarrow> path \<Rightarrow> suite_result \<Rightarrow> archive \<Rightarrow> archive" where
  "save_run_metadata round4 run_dir s ar =
     write_json (run_dir @ [''run_metadata.json''])
       (JObj ([(''suite_name'', JStr (sr_suite s)), (''run_name'', JStr (sr_run s)), (''model'', JStr (sr_model s)),
          (''grader_model'', JStr (sr_grader_model s)), (''harness_version'', JStr (sr_version s)),
          (''trials_per_task'', JInt (sr_trials s)), (''total_cost_usd'', sr_cost s), (''total_tokens'', int_json (sr_tokens s))] @
          infra_fields round4 (sr_results s) @
          [(''tasks'', JList (map (\<lambda>r. JObj [(''id'', JStr (rt_id (et_spec (tk_task r)))), (''mean_tokens'', mean_tokens (tk_trials r))])
              (sr_results s)))])) ar"

text \<open>The run's file after a re-grade; \<open>None\<close> when it is no object.\<close>

definition update_run_metadata_scores :: "(rat \<Rightarrow> rat) \<Rightarrow> string \<Rightarrow> path \<Rightarrow> task_result list \<Rightarrow> archive \<Rightarrow> archive option" where
  "update_run_metadata_scores round4 version run_dir rs ar =
     (case map_of ar (run_dir @ [''run_metadata.json'']) of
        Some (JObj m) \<Rightarrow>
          Some (write_json (run_dir @ [''run_metadata.json''])
                  (JObj (merged m (infra_fields round4 rs @ [(''scoring_harness_version'', JStr version)]))) ar)
      | _ \<Rightarrow> None)"

section \<open>Reading\<close>

text \<open>An archived value that is not of the type the runner writes has no trial in the model.\<close>

definition ill_typed :: string where
  "ill_typed = ''a field of another type''"

definition read_text :: "json \<Rightarrow> string + string" where
  "read_text v = (case v of JStr s \<Rightarrow> Inr s | _ \<Rightarrow> Inl ill_typed)"

definition read_opt_text :: "json \<Rightarrow> string + string option" where
  "read_opt_text v = (case v of JNull \<Rightarrow> Inr None | JStr s \<Rightarrow> Inr (Some s) | _ \<Rightarrow> Inl ill_typed)"

definition read_opt_texts :: "json \<Rightarrow> string + (string \<times> string option) list" where
  "read_opt_texts v =
     (case v of
        JObj kvs \<Rightarrow> map_all (\<lambda>(k, x). and_then (read_opt_text x) (\<lambda>t. Inr (k, t))) kvs
      | _ \<Rightarrow> Inl ill_typed)"

definition read_cost :: "json \<Rightarrow> string + pyfloat option" where
  "read_cost v = (case v of JNull \<Rightarrow> Inr None | JFloat f \<Rightarrow> Inr (Some f) | JInt i \<Rightarrow> Inr (Some (Fin (of_int i))) | _ \<Rightarrow> Inl ill_typed)"

definition read_tokens :: "json \<Rightarrow> string + int option" where
  "read_tokens v = (case v of JNull \<Rightarrow> Inr None | JInt i \<Rightarrow> Inr (Some i) | _ \<Rightarrow> Inl ill_typed)"

definition read_table :: "json \<Rightarrow> string + (string \<times> json) list" where
  "read_table v = (case v of JObj kvs \<Rightarrow> Inr kvs | _ \<Rightarrow> Inl ill_typed)"

definition read_list :: "json \<Rightarrow> string + json list" where
  "read_list v = (case v of JList vs \<Rightarrow> Inr vs | _ \<Rightarrow> Inl ill_typed)"

definition key_or :: "(string \<times> json) list \<Rightarrow> string \<Rightarrow> string + json" where
  "key_or d k = (case map_of d k of None \<Rightarrow> Inl (''KeyError: '' @ k) | Some v \<Rightarrow> Inr v)"

definition load_trial :: "grade_env \<Rightarrow> json \<Rightarrow> string + trial" where
  "load_trial en v =
     (case v of
        JObj d \<Rightarrow>
          and_then (and_then (key_or d ''task_id'') read_text) (\<lambda>task.
          and_then (and_then (key_or d ''run_number'') (int_arg en)) (\<lambda>k.
          and_then (read_opt_text (jget d ''error'')) (\<lambda>error.
          and_then (read_table (jget_default d ''output_envelope'' (JObj []))) (\<lambda>e.
          and_then (read_text (jget_default d ''result_text'' (JStr []))) (\<lambda>t.
          and_then (read_text (jget_default d ''raw_stdout'' (JStr []))) (\<lambda>out.
          and_then (read_text (jget_default d ''raw_stderr'' (JStr []))) (\<lambda>err.
          and_then (read_list (jget_default d ''trajectory'' (JList []))) (\<lambda>ss.
          and_then (read_opt_texts (jget_default d ''side_effects'' (JObj []))) (\<lambda>effects.
          and_then (read_cost (jget d ''cost_usd'')) (\<lambda>cost.
          and_then (read_tokens (jget d ''total_tokens'')) (\<lambda>tokens.
          and_then (read_opt_texts (jget_default d ''baseline'' (JObj []))) (\<lambda>base.
            Inr \<lparr>tr_task = task, tr_run = nat k,
                 tr_result = \<lparr>rr_text = t, rr_trajectory = ss, rr_cost = cost, rr_tokens = tokens,
                   rr_success = truthy (jget d ''success''), rr_error = error, rr_envelope = e, rr_stdout = out, rr_stderr = err,
                   rr_infra = truthy (jget d ''infra_error'')\<rparr>,
                 tr_side_effects = effects, tr_baseline = base\<rparr>))))))))))))
      | _ \<Rightarrow> Inl ill_typed)"

text \<open>The trial directories of a task, in the order of their names, and their trials.\<close>

definition trial_dirs :: "path \<Rightarrow> archive \<Rightarrow> string list" where
  "trial_dirs dir ar =
     sort (remdups (List.map_filter (\<lambda>(p, v).
       if length p = length dir + 2 \<and> take (length dir) p = dir \<and> last p = ''trial.json'' \<and> starts_with ''trial-'' (p ! length dir)
       then Some (p ! length dir) else None) ar))"

definition load_archived_trials :: "grade_env \<Rightarrow> path \<Rightarrow> archive \<Rightarrow> string + trial list" where
  "load_archived_trials en dir ar =
     map_all (\<lambda>n. case map_of ar (dir @ [n, ''trial.json'']) of None \<Rightarrow> Inl ill_typed | Some v \<Rightarrow> load_trial en v) (trial_dirs dir ar)"

section \<open>Archived trials come back\<close>

lemma read_opt_texts_dump: "read_opt_texts (opt_texts xs) = Inr xs"
  by (induction xs) (auto simp: read_opt_texts_def opt_texts_def read_opt_text_def opt_text_def split: option.split)

lemma load_trial_dump: "load_trial en (trial_json t) = Inr t"
proof -
  obtain task k r effects base where t: "t = \<lparr>tr_task = task, tr_run = k, tr_result = r, tr_side_effects = effects, tr_baseline = base\<rparr>"
    by (cases t)
  have "int_arg en (JInt (int k)) = Inr (int k)" by (simp add: int_arg_def)
  then show ?thesis
    by (cases r) (simp add: t trial_json_def Let_def load_trial_def key_or_def jget_simps jget_default_def read_text_def read_opt_text_def
        read_opt_texts_dump read_table_def read_list_def read_cost_def read_tokens_def opt_text_def int_json_def split: option.split)
qed

definition digit :: "nat \<Rightarrow> char" where
  "digit d = char_of (48 + d)"

lemma digit_less: "a < 10 \<Longrightarrow> b < 10 \<Longrightarrow> digit a < digit b \<longleftrightarrow> a < b"
  by (simp add: less_char_def digit_def)

lemma two_digits:
  assumes "k < 100"
  shows "trial_name k = ''trial-'' @ [digit (k div 10), digit (k mod 10)]"
proof -
  have "digit 0 = CHR ''0''" unfolding digit_def by code_simp
  with assms show ?thesis
    by (cases "k < 10") (simp_all add: trial_name_def str_nat.simps [of k] str_nat.simps [of "k div 10"] digit_def)
qed

lemma trial_name_less:
  assumes "i < j" and "j < 100"
  shows "trial_name i < trial_name j"
proof -
  have "i div 10 < j div 10 \<or> i div 10 = j div 10 \<and> i mod 10 < j mod 10"
    using assms(1) by (metis div_le_mono div_mult_mod_eq le_eq_less_or_eq nat_add_left_cancel_less less_imp_le)
  moreover have "i div 10 < 10" "j div 10 < 10" "i mod 10 < 10" "j mod 10 < 10" using assms by simp_all
  ultimately have "[digit (i div 10), digit (i mod 10)] < [digit (j div 10), digit (j mod 10)]"
    using digit_less [of "i div 10" "j div 10"] digit_less [of "i mod 10" "j mod 10"] by auto
  then show ?thesis using assms by (simp only: two_digits append_Cons append_Nil less_trans [OF assms] Cons_less_Cons less_irrefl simp_thms)
qed

definition trial_file :: "path \<Rightarrow> trial \<Rightarrow> path" where
  "trial_file dir t = dir @ [trial_name (tr_run t), ''trial.json'']"

lemma save_trial_lookup:
  assumes "last p = ''trial.json''"
  shows "map_of (save_trial dir ss t ar) p = ((map_of ar)(trial_file dir t \<mapsto> trial_json t)) p"
proof -
  have other: "p \<noteq> dir @ [n, ''score.json'']" "p \<noteq> dir @ [n, ''stdout.json'']" "p \<noteq> dir @ [n, ''stderr.txt'']" for n
    using assms by auto
  then show ?thesis by (simp add: save_trial_def Let_def write_json_def trial_file_def split: option.split)
qed

lemma save_trials_lookup:
  assumes "last p = ''trial.json''"
  shows "map_of (foldl (\<lambda>a t. save_trial dir ss t a) ar ts) p =
    (map_of ar ++ map_of (map (\<lambda>t. (trial_file dir t, trial_json t)) (rev ts))) p"
proof (induction ts arbitrary: ar)
  case (Cons t ts)
  show ?case using save_trial_lookup [OF assms, of dir ss t ar] by (simp add: Cons map_add_def split: option.split)
qed simp

lemma save_task_lookup:
  assumes "last p = ''trial.json''" and "map_of ar p = None" and "distinct (map (trial_file (task_dir run_dir r)) (tk_trials r))"
  shows "map_of (save_task_artifacts fj sp run_dir r ar) p = Some v \<longleftrightarrow>
    (\<exists>t \<in> set (tk_trials r). p = trial_file (task_dir run_dir r) t \<and> v = trial_json t)"
proof -
  let ?kvs = "map (\<lambda>t. (trial_file (task_dir run_dir r) t, trial_json t)) (rev (tk_trials r))"
  have "p \<noteq> task_dir run_dir r @ [''task_metadata.json'']" using assms(1) by auto
  then have "map_of (save_task_artifacts fj sp run_dir r ar) p = map_of ?kvs p"
    using assms(2) by (simp add: save_task_artifacts_def save_trials_lookup [OF assms(1)] write_json_def map_add_def split: option.split)
  moreover have "distinct (map fst ?kvs)" using assms(3) by (simp add: comp_def flip: rev_map)
  ultimately show ?thesis by (auto simp: map_of_eq_Some_iff)
qed

lemma map_filter_pairs: "y \<in> set (List.map_filter (\<lambda>(p, v). if P p then Some (g p) else None) xs) \<longleftrightarrow> (\<exists>p v. (p, v) \<in> set xs \<and> P p \<and> y = g p)"
proof (induction xs)
  case (Cons x xs)
  then show ?case by (cases x, cases "P (fst x)") (auto simp: List.map_filter_simps)
qed (simp add: List.map_filter_simps)

lemma set_trial_dirs:
  "name \<in> set (trial_dirs dir ar) \<longleftrightarrow> starts_with ''trial-'' name \<and> map_of ar (dir @ [name, ''trial.json'']) \<noteq> None"
proof -
  have path: "length p = length dir + 2 \<and> take (length dir) p = dir \<and> last p = ''trial.json'' \<longleftrightarrow> p = dir @ [p ! length dir, ''trial.json'']"
    for p :: path
  proof
    assume p: "length p = length dir + 2 \<and> take (length dir) p = dir \<and> last p = ''trial.json''"
    then have "length (drop (length dir) p) = 2" by simp
    then obtain x y where xy: "drop (length dir) p = [x, y]" by (auto simp del: length_drop simp add: numeral_2_eq_2 length_Suc_conv)
    then have "p = dir @ [x, y]" using p append_take_drop_id [of "length dir" p] by simp
    with p show "p = dir @ [p ! length dir, ''trial.json'']" by simp
  next
    assume p: "p = dir @ [p ! length dir, ''trial.json'']"
    show "length p = length dir + 2 \<and> take (length dir) p = dir \<and> last p = ''trial.json''" by (subst p, subst (2) p, subst (3) p) simp
  qed
  have "name \<in> set (trial_dirs dir ar) \<longleftrightarrow>
      (\<exists>p v. (p, v) \<in> set ar \<and> p = dir @ [p ! length dir, ''trial.json''] \<and> starts_with ''trial-'' (p ! length dir) \<and> name = p ! length dir)"
    unfolding path [symmetric] trial_dirs_def set_sort set_remdups map_filter_pairs by (simp only: conj_assoc)
  also have "\<dots> \<longleftrightarrow> starts_with ''trial-'' name \<and> dir @ [name, ''trial.json''] \<in> fst ` set ar" by force
  finally show ?thesis by (simp add: map_of_eq_None_iff)
qed

lemma sort_remdups_eq:
  assumes "set xs = set ys" and "sorted_wrt (<) ys"
  shows "sort (remdups xs) = (ys :: 'a::linorder list)"
  using assms sorted_list_of_set_sort_remdups [of xs] sorted_list_of_set.idem_if_sorted_distinct [of ys] strict_sorted_iff by metis



end
