(* ===== verification/EvalBaselines.thy ===== *)
theory EvalBaselines
  imports EvalGraders WebTools
begin

text \<open>
  The baselines of the evaluation framework and its judge (\<open>eval-framework/evalkit/judge.py\<close>,
  \<open>subjects/openai_compat.py\<close>, \<open>subjects/react_loop.py\<close>): one chat completion with its one retry, the
  subject that asks a bare model, the loop that lets a model read files, and the two judges.  The
  HTTP client, the file system and \<open>json\<close> are fields of an environment; the left of a sum is what an
  operation raised.
\<close>

section \<open>Failures\<close>

text \<open>
  An HTTP error has a status, a reason, and a body unless it cannot be read; of the other failures of
  the client the text is all that is used.
\<close>

datatype endpoint_failure = HttpFailed int string "string option" | UrlFailed string

text \<open>What the subjects tell apart: failures of the endpoint, a \<open>ValueError\<close>, anything else.\<close>

datatype chat_failure = Endpoint endpoint_failure | BadValue string | Uncaught string

text \<open>What a path or a file may raise.\<close>

datatype file_failure = OsFailed string | FileValue string | FileOther string

definition error_body :: "string option \<Rightarrow> string" where
  "error_body raw =
     (case raw of
        None \<Rightarrow> []
      | Some b \<Rightarrow> if 2000 < length (strip b) then take 2000 (strip b) @ ''...<truncated>'' else strip b)"

fun endpoint_error :: "endpoint_failure \<Rightarrow> string" where
  "endpoint_error (HttpFailed code reason raw) =
     ''HTTP '' @ str_int code @ '' '' @ reason @ (if error_body raw = [] then [] else '': '' @ error_body raw)"
| "endpoint_error (UrlFailed t) = t"

section \<open>One chat completion\<close>

record 'w chat_env =
  ce_post :: "string \<Rightarrow> (string \<times> string) list \<Rightarrow> (string \<times> json) list \<Rightarrow> int \<Rightarrow> 'w \<Rightarrow> (chat_failure + string) \<times> 'w"
  ce_loads :: "string \<Rightarrow> string + json"
  ce_dumps :: "json \<Rightarrow> string"
  ce_str :: "json \<Rightarrow> string"
  ce_repr :: "string \<Rightarrow> string"
  ce_resolve :: "string \<Rightarrow> file_failure + path"
  ce_root :: path
  ce_is_file :: "path \<Rightarrow> 'w \<Rightarrow> bool"
  ce_read :: "path \<Rightarrow> 'w \<Rightarrow> file_failure + string"
  ce_show :: "path \<Rightarrow> string"

definition requires_reasoning_chat :: "string \<Rightarrow> bool" where
  "requires_reasoning_chat b \<longleftrightarrow> contains ''reasoning is mandatory'' (lower b) \<and> contains ''cannot be disabled'' (lower b)"

definition without_disabled_reasoning_chat :: "(string \<times> json) list \<Rightarrow> (string \<times> json) list option" where
  "without_disabled_reasoning_chat body =
     (case jget body ''reasoning'' of
        JObj r \<Rightarrow>
          if jget r ''effort'' = JStr ''none'' \<or> jget r ''enabled'' = JBool False then Some (AList.delete ''reasoning'' body) else None
      | _ \<Rightarrow> None)"

text \<open>The body of the second request, if there is one.\<close>

definition retry_body :: "chat_failure \<Rightarrow> (string \<times> json) list \<Rightarrow> (string \<times> json) list option" where
  "retry_body f body =
     (case f of
        Endpoint (HttpFailed code reason raw) \<Rightarrow>
          if requires_reasoning_chat (error_body raw) then without_disabled_reasoning_chat body else None
      | _ \<Rightarrow> None)"

definition parsed_envelope :: "'w chat_env \<Rightarrow> string \<Rightarrow> chat_failure + (string \<times> json) list" where
  "parsed_envelope en t =
     (case ce_loads en t of Inl e \<Rightarrow> Inl (BadValue e) | Inr (JObj e) \<Rightarrow> Inr e | Inr v \<Rightarrow> Inr [])"

definition chat_completion ::
  "'w chat_env \<Rightarrow> string \<Rightarrow> string \<Rightarrow> (string \<times> json) list \<Rightarrow> int \<Rightarrow> 'w \<Rightarrow> (chat_failure + (string \<times> json) list) \<times> 'w"
where
  "chat_completion en base_url key body timeout w =
     (let post = (\<lambda>b. ce_post en (strip_slashes base_url @ ''/chat/completions'')
            ((''Content-Type'', ''application/json'') # (if key = [] then [] else [(''Authorization'', ''Bearer '' @ key)])) b timeout)
      in case post body w of
           (Inr t, w1) \<Rightarrow> (parsed_envelope en t, w1)
         | (Inl f, w1) \<Rightarrow>
             (case retry_body f body of
                None \<Rightarrow> (Inl f, w1)
              | Some b \<Rightarrow>
                  (case post b w1 of
                     (Inr t, w2) \<Rightarrow> (parsed_envelope en t, w2)
                   | (Inl f', w2) \<Rightarrow> (Inl f', w2))))"

definition role_message :: "string \<Rightarrow> json \<Rightarrow> json" where
  "role_message role content = JObj [(''role'', JStr role), (''content'', content)]"

text \<open>\<open>d.update(extra)\<close>.\<close>

definition updated :: "(string \<times> json) list \<Rightarrow> (string \<times> json) list option \<Rightarrow> (string \<times> json) list" where
  "updated d extra = (case extra of None \<Rightarrow> d | Some e \<Rightarrow> foldl (\<lambda>d (k, v). AList.update k v d) d e)"

definition first_message :: "(string \<times> json) list \<Rightarrow> (string \<times> json) list option" where
  "first_message e =
     (case jget e ''choices'' of
        JList (JObj c # cs) \<Rightarrow> (case jget c ''message'' of JObj m \<Rightarrow> Some m | _ \<Rightarrow> None)
      | _ \<Rightarrow> None)"

definition chat_once ::
  "'w chat_env \<Rightarrow> string \<Rightarrow> string \<Rightarrow> string \<Rightarrow> string \<Rightarrow> json \<Rightarrow> (string \<times> json) list option \<Rightarrow> int \<Rightarrow> 'w \<Rightarrow>
     (chat_failure + string \<times> (string \<times> json) list \<times> (string \<times> json) list) \<times> 'w"
where
  "chat_once en base_url key model prompt system extra timeout w =
     (let messages = (if truthy system then [role_message ''system'' system] else []) @ [role_message ''user'' (JStr prompt)];
          body = updated [(''model'', JStr model), (''messages'', JList messages), (''stream'', JBool False)] extra
      in case chat_completion en base_url key body timeout w of
           (Inl f, w') \<Rightarrow> (Inl f, w')
         | (Inr e, w') \<Rightarrow>
             (Inr (case first_message e of None \<Rightarrow> [] | Some m \<Rightarrow> text_or_empty (jget m ''content''),
                   case jget e ''usage'' of JObj u \<Rightarrow> u | _ \<Rightarrow> [], e), w'))"

section \<open>The configuration of an endpoint\<close>

definition local_endpoint :: string where
  "local_endpoint = ''http://localhost:8080/v1''"

definition base_url_of :: "(json \<Rightarrow> string) \<Rightarrow> (string \<times> json) list \<Rightarrow> string" where
  "base_url_of str cfg = str_of str (jget_default cfg ''base_url'' (JStr local_endpoint))"

definition getenv :: "environ \<Rightarrow> string \<Rightarrow> string" where
  "getenv env k = (case env k of None \<Rightarrow> [] | Some v \<Rightarrow> v)"

definition api_key_of :: "(json \<Rightarrow> string) \<Rightarrow> environ \<Rightarrow> (string \<times> json) list \<Rightarrow> string" where
  "api_key_of str env cfg =
     (let key = str_of str (jget_default cfg ''api_key'' (JStr []));
          key1 = (if key \<noteq> [] then key else case jget cfg ''api_key_env'' of JStr k \<Rightarrow> getenv env k | _ \<Rightarrow> [])
      in if key1 = [] \<and> strip_slashes (base_url_of str cfg) = openrouter_base_url then getenv env ''OPENROUTER_API_KEY'' else key1)"

definition extra_body_of :: "(string \<times> json) list \<Rightarrow> (string \<times> json) list option" where
  "extra_body_of cfg = (case jget cfg ''extra_body'' of JObj e \<Rightarrow> Some e | _ \<Rightarrow> None)"

section \<open>A bare model\<close>

text \<open>What a subject makes of a failure; anything but a failed endpoint and a \<open>ValueError\<close> goes on.\<close>

definition failure_result :: "chat_failure \<Rightarrow> string + run_result" where
  "failure_result f =
     (case f of
        Endpoint e \<Rightarrow> Inr (failed_run (''endpoint error: '' @ endpoint_error e))
      | BadValue t \<Rightarrow> Inr (failed_run t)
      | Uncaught t \<Rightarrow> Inl t)"

definition answer_result :: "string \<Rightarrow> run_result" where
  "answer_result t =
     no_result\<lparr>rr_text := t, rr_success := t \<noteq> [], rr_error := (if t = [] then Some ''empty completion'' else None), rr_infra := t = []\<rparr>"

definition run_openai ::
  "'w chat_env \<Rightarrow> environ \<Rightarrow> (string \<times> json) list \<Rightarrow> string \<Rightarrow> string \<Rightarrow> int \<Rightarrow> 'w \<Rightarrow> (string + run_result) \<times> 'w"
where
  "run_openai en env cfg prompt model timeout w =
     (case chat_once en (base_url_of (ce_str en) cfg) (api_key_of (ce_str en) env cfg) model prompt (jget cfg ''system'')
             (extra_body_of cfg) timeout w of
        (Inl f, w') \<Rightarrow> (failure_result f, w')
      | (Inr (t, usage, e), w') \<Rightarrow>
          (and_then (number_int (jget usage ''total_tokens'')) (\<lambda>tokens.
             Inr ((answer_result t)\<lparr>rr_tokens := tokens, rr_envelope := e, rr_stdout := ce_dumps en (JObj e)\<rparr>)), w'))"

section \<open>A loop that reads files\<close>

definition react_system :: string where
  "react_system =
     ''Answer the user'' @ apostrophe @ ''s task. A file_read tool is available; call it when you need to inspect a file path. '' @
     ''When you have enough information, give the final answer as plain text.''"

definition file_read_schema :: json where
  "file_read_schema =
     JObj [(''type'', JStr ''function''),
       (''function'', JObj [(''name'', JStr ''file_read''),
          (''description'', JStr ''Read a UTF-8 text file from the local eval fixture filesystem.''),
          (''parameters'', JObj [(''type'', JStr ''object''),
             (''properties'', JObj [(''path'', JObj [(''type'', JStr ''string''), (''description'', JStr ''Path to the file to read.'')])]),
             (''required'', JList [JStr ''path'']), (''additionalProperties'', JBool False)])])]"

definition parse_args :: "'w chat_env \<Rightarrow> json \<Rightarrow> (string \<times> json) list" where
  "parse_args en raw =
     (case raw of
        JObj o' \<Rightarrow> o'
      | JStr t \<Rightarrow> if t = [] then [] else (case ce_loads en t of Inr (JObj o') \<Rightarrow> o' | _ \<Rightarrow> [])
      | _ \<Rightarrow> [])"

text \<open>An error of the operating system is an answer for the model; other exceptions are not.\<close>

definition file_failed :: "file_failure \<Rightarrow> chat_failure + string" where
  "file_failed f = (case f of OsFailed t \<Rightarrow> Inr (''ERROR: '' @ t) | FileValue t \<Rightarrow> Inl (BadValue t) | FileOther t \<Rightarrow> Inl (Uncaught t))"

definition file_answer :: "'w chat_env \<Rightarrow> string \<Rightarrow> 'w \<Rightarrow> chat_failure + string" where
  "file_answer en raw w =
     (case ce_resolve en raw of
        Inl f \<Rightarrow> file_failed f
      | Inr p \<Rightarrow>
          if \<not> is_relative_to p (ce_root en) then Inr (''ERROR: file_read path must be under '' @ ce_show en (ce_root en))
          else if \<not> ce_is_file en p w then Inr (''ERROR: file_read path is not a regular file: '' @ ce_show en p)
          else (case ce_read en p w of Inl f \<Rightarrow> file_failed f | Inr t \<Rightarrow> Inr t))"

definition str_or_empty :: "'w chat_env \<Rightarrow> json \<Rightarrow> string" where
  "str_or_empty en v = (if truthy v then key_text (ce_str en) v else [])"

definition execute_tool_call :: "'w chat_env \<Rightarrow> json \<Rightarrow> 'w \<Rightarrow> chat_failure + string \<times> json" where
  "execute_tool_call en call w =
     (let f = (case call of JObj c \<Rightarrow> (case jget c ''function'' of JObj f \<Rightarrow> f | _ \<Rightarrow> []) | _ \<Rightarrow> []);
          name = str_or_empty en (jget f ''name'');
          args = parse_args en (jget f ''arguments'');
          made_step = JObj [(''tool'', JStr (if name = [] then ''tool'' else name)), (''input'', JObj args)]
      in if name \<noteq> ''file_read'' then Inr (''ERROR: unknown tool '' @ ce_repr en name, made_step)
         else (case text_or_empty (jget args ''path'') of
                 [] \<Rightarrow> Inr (''ERROR: file_read requires a string path'', made_step)
               | raw \<Rightarrow> and_then (file_answer en raw w) (\<lambda>t. Inr (t, made_step))))"

text \<open>\<open>call.get("id")\<close>, which the code calls whatever the call is.\<close>

definition call_id :: "'w chat_env \<Rightarrow> json \<Rightarrow> chat_failure + string" where
  "call_id en call =
     (case call of
        JObj c \<Rightarrow> Inr (str_or_empty en (jget c ''id''))
      | _ \<Rightarrow> Inl (Uncaught ''AttributeError: object has no attribute get''))"

text \<open>The calls of one message: their steps, and the messages that answer them.\<close>

fun run_calls :: "'w chat_env \<Rightarrow> 'w \<Rightarrow> json list \<Rightarrow> chat_failure + json list \<times> json list" where
  "run_calls en w [] = Inr ([], [])"
| "run_calls en w (call # calls) =
     and_then (execute_tool_call en call w) (\<lambda>(t, made_step).
       and_then (call_id en call) (\<lambda>i.
         and_then (run_calls en w calls) (\<lambda>(ss, ms).
           Inr (made_step # ss,
                JObj [(''role'', JStr ''tool''), (''tool_call_id'', JStr i), (''content'', JStr t)] # ms))))"

record react_state =
  rs_messages :: "json list"
  rs_steps :: "json list"
  rs_tokens :: int
  rs_turns :: "json list"

definition react_result :: "'w chat_env \<Rightarrow> react_state \<Rightarrow> run_result \<Rightarrow> run_result" where
  "react_result en st r =
     r\<lparr>rr_trajectory := rs_steps st, rr_envelope := [(''turns'', JList (rs_turns st))],
       rr_stdout := ce_dumps en (JObj [(''turns'', JList (rs_turns st))])\<rparr>"

definition react_failed :: "'w chat_env \<Rightarrow> string \<Rightarrow> bool \<Rightarrow> react_state \<Rightarrow> run_result" where
  "react_failed en error infra st =
     react_result en st (no_result\<lparr>rr_error := Some error, rr_infra := infra,
       rr_tokens := (if rs_tokens st = 0 then None else Some (rs_tokens st))\<rparr>)"

text \<open>The tokens of a reply: \<open>(envelope.get("usage") or {}).get("total_tokens")\<close>, as an integer.\<close>

definition turn_tokens :: "(string \<times> json) list \<Rightarrow> chat_failure + int" where
  "turn_tokens e =
     (let usage = jget e ''usage''
      in if \<not> truthy usage then Inr 0
         else case usage of
                JObj u \<Rightarrow>
                  (case number_int (jget u ''total_tokens'') of
                     Inl t \<Rightarrow> Inl (if starts_with ''ValueError'' t then BadValue t else Uncaught t)
                   | Inr None \<Rightarrow> Inr 0
                   | Inr (Some n) \<Rightarrow> Inr n)
              | _ \<Rightarrow> Inl (Uncaught ''AttributeError: object has no attribute get''))"

text \<open>What follows from one reply: the end of the run, or the state of the next turn.\<close>

definition react_turn :: "'w chat_env \<Rightarrow> (string \<times> json) list \<Rightarrow> react_state \<Rightarrow> 'w \<Rightarrow> chat_failure + run_result + react_state" where
  "react_turn en e st w =
     and_then (turn_tokens e) (\<lambda>tokens.
       let st1 = st\<lparr>rs_turns := rs_turns st @ [JObj e], rs_tokens := rs_tokens st + tokens\<rparr>
       in case first_message e of
            None \<Rightarrow> Inr (Inl (react_failed en ''missing assistant message'' True st1))
          | Some m \<Rightarrow>
              (case jget m ''tool_calls'' of
                 JList (call # calls) \<Rightarrow>
                   and_then (run_calls en w (call # calls)) (\<lambda>(ss, ms).
                     Inr (Inr (st1\<lparr>rs_messages := rs_messages st @ [JObj m] @ ms, rs_steps := rs_steps st @ ss\<rparr>)))
               | _ \<Rightarrow>
                   Inr (Inl (react_result en st1
                     ((answer_result (text_or_empty (jget m ''content'')))\<lparr>rr_tokens := Some (rs_tokens st1)\<rparr>)))))"

fun react_turns ::
  "'w chat_env \<Rightarrow> (json list \<Rightarrow> 'w \<Rightarrow> (chat_failure + (string \<times> json) list) \<times> 'w) \<Rightarrow> nat \<Rightarrow> react_state \<Rightarrow> 'w \<Rightarrow>
     (chat_failure + run_result) \<times> 'w"
where
  "react_turns en chat 0 st w = (Inr (react_failed en ''max turns exhausted'' False st), w)"
| "react_turns en chat (Suc n) st w =
     (case chat (rs_messages st) w of
        (Inl f, w1) \<Rightarrow> (Inl f, w1)
      | (Inr e, w1) \<Rightarrow>
          (case react_turn en e st w1 of
             Inl f \<Rightarrow> (Inl f, w1)
           | Inr (Inl r) \<Rightarrow> (Inr r, w1)
           | Inr (Inr st') \<Rightarrow> react_turns en chat n st' w1))"

definition react_chat ::
  "'w chat_env \<Rightarrow> environ \<Rightarrow> (string \<times> json) list \<Rightarrow> string \<Rightarrow> int \<Rightarrow> json list \<Rightarrow> 'w \<Rightarrow> (chat_failure + (string \<times> json) list) \<times> 'w"
where
  "react_chat en env cfg model timeout messages w =
     chat_completion en (base_url_of (ce_str en) cfg) (api_key_of (ce_str en) env cfg)
       (updated [(''model'', JStr model), (''messages'', JList messages), (''tools'', JList [file_read_schema]),
          (''stream'', JBool False)] (extra_body_of cfg)) timeout w"

definition run_react ::
  "'w chat_env \<Rightarrow> environ \<Rightarrow> (string \<times> json) list \<Rightarrow> string \<Rightarrow> string \<Rightarrow> int \<Rightarrow> int \<Rightarrow> 'w \<Rightarrow> (string + run_result) \<times> 'w"
where
  "run_react en env cfg prompt model max_turns timeout w =
     (let system = jget cfg ''system'';
          messages = [role_message ''system'' (JStr (if truthy system then key_text (ce_str en) system else react_system)),
                      role_message ''user'' (JStr prompt)]
      in case react_turns en (react_chat en env cfg model timeout) (nat max_turns)
                \<lparr>rs_messages = messages, rs_steps = [], rs_tokens = 0, rs_turns = []\<rparr> w of
           (Inl f, w') \<Rightarrow> (failure_result f, w')
         | (Inr r, w') \<Rightarrow> (Inr r, w'))"

section \<open>The judges\<close>

definition claude_judge ::
  "'w chat_env \<Rightarrow> environ \<Rightarrow> (string list \<Rightarrow> environ \<Rightarrow> int \<Rightarrow> 'w \<Rightarrow> cli_end \<times> 'w) \<Rightarrow> string \<Rightarrow> 'w judge"
where
  "claude_judge en env spawn model prompt w =
     (case spawn (claude_command prompt model ''json'' None None) (clean_env env) 120 w of
        (r, w') \<Rightarrow>
          (case claude_end r of
             (code, out, err, late) \<Rightarrow>
               (if code \<noteq> 0 then None
                else Some (extract_result_text (\<lambda>t. case ce_loads en t of Inl e \<Rightarrow> None | Inr v \<Rightarrow> Some v) out), w')))"

definition openai_judge :: "'w chat_env \<Rightarrow> environ \<Rightarrow> (string \<times> json) list \<Rightarrow> string \<Rightarrow> 'w judge" where
  "openai_judge en env cfg model prompt w =
     (case chat_once en (base_url_of (ce_str en) cfg) (api_key_of (ce_str en) env cfg) model prompt JNull (extra_body_of cfg) 120 w of
        (Inr (c # cs, usage, e), w') \<Rightarrow> (Some (c # cs), w')
      | (_, w') \<Rightarrow> (None, w'))"

definition build_judge ::
  "'w chat_env \<Rightarrow> environ \<Rightarrow> (string list \<Rightarrow> environ \<Rightarrow> int \<Rightarrow> 'w \<Rightarrow> cli_end \<times> 'w) \<Rightarrow> string \<Rightarrow> string \<Rightarrow> (string \<times> json) list \<Rightarrow>
     string + 'w judge"
where
  "build_judge en env spawn model name cfg =
     (if name \<in> {''claude-cli'', ''claude''} then Inr (claude_judge en env spawn model)
      else if name \<in> {''openai-compat'', ''mlx''} then Inr (openai_judge en env cfg model)
      else Inl (''unknown judge backend '' @ ce_repr en name))"

section \<open>What the loop may do\<close>

text \<open>The same environment in a world that counts the requests.\<close>

definition asking_counted :: "'w chat_env \<Rightarrow> ('w \<times> nat) chat_env" where
  "asking_counted en =
     \<lparr>ce_post = (\<lambda>url headers body timeout (w, n). case ce_post en url headers body timeout w of (r, w') \<Rightarrow> (r, (w', Suc n))),
      ce_loads = ce_loads en, ce_dumps = ce_dumps en, ce_str = ce_str en, ce_repr = ce_repr en, ce_resolve = ce_resolve en,
      ce_root = ce_root en, ce_is_file = (\<lambda>p (w, n). ce_is_file en p w), ce_read = (\<lambda>p (w, n). ce_read en p w),
      ce_show = ce_show en\<rparr>"

lemma counted_post: "snd (snd (ce_post (asking_counted en) url headers body timeout v)) = Suc (snd v)"
  by (cases v) (simp add: asking_counted_def split: prod.split)

lemma chat_counts: "snd (snd (chat_completion (asking_counted en) url key body timeout v)) \<le> snd v + 2"
proof -
  let ?post = "\<lambda>b. ce_post (asking_counted en) (strip_slashes url @ ''/chat/completions'')
    ((''Content-Type'', ''application/json'') # (if key = [] then [] else [(''Authorization'', ''Bearer '' @ key)])) b timeout"
  obtain r v1 where 1: "?post body v = (r, v1)" by (metis surj_pair)
  then have n1: "snd v1 = Suc (snd v)" by (metis counted_post snd_conv)
  show ?thesis
  proof (cases "\<exists>f b. r = Inl f \<and> retry_body f body = Some b")
    case True
    then obtain f b where f: "r = Inl f" "retry_body f body = Some b" by blast
    obtain r2 v2 where 2: "?post b v1 = (r2, v2)" by (metis surj_pair)
    then have "snd v2 = Suc (Suc (snd v))" by (metis counted_post n1 snd_conv)
    with 1 2 f show ?thesis by (simp add: chat_completion_def Let_def split: sum.split)
  next
    case False
    with 1 n1 show ?thesis by (auto simp: chat_completion_def Let_def split: sum.split option.split)
  qed
qed

lemma turns_count:
  assumes "\<And>ms v. snd (snd (chat ms v)) \<le> snd v + 2"
  shows "snd (snd (react_turns en chat k st v)) \<le> snd v + 2 * k"
proof (induction k arbitrary: st v)
  case (Suc k)
  obtain r v1 where 1: "chat (rs_messages st) v = (r, v1)" by (metis surj_pair)
  then have n1: "snd v1 \<le> snd v + 2" using assms [of "rs_messages st" v] by simp
  moreover have "snd (snd (react_turns en chat k st' v1)) \<le> snd v + 2 * Suc k" for st'
    using Suc.IH [of st' v1] n1 by simp
  ultimately show ?case using 1 by (auto split: sum.split)
qed simp

text \<open>Files are read for calls only, and below the root only.\<close>

lemma env_fields:
  "ce_post (en\<lparr>ce_is_file := i, ce_read := r\<rparr>) = ce_post en" "ce_loads (en\<lparr>ce_is_file := i, ce_read := r\<rparr>) = ce_loads en"
  "ce_dumps (en\<lparr>ce_is_file := i, ce_read := r\<rparr>) = ce_dumps en" "ce_str (en\<lparr>ce_is_file := i, ce_read := r\<rparr>) = ce_str en"
  "ce_repr (en\<lparr>ce_is_file := i, ce_read := r\<rparr>) = ce_repr en" "ce_resolve (en\<lparr>ce_is_file := i, ce_read := r\<rparr>) = ce_resolve en"
  "ce_root (en\<lparr>ce_is_file := i, ce_read := r\<rparr>) = ce_root en" "ce_show (en\<lparr>ce_is_file := i, ce_read := r\<rparr>) = ce_show en"
  by simp_all

lemma fileless:
  "parse_args (en\<lparr>ce_is_file := i, ce_read := r\<rparr>) = parse_args en" "str_or_empty (en\<lparr>ce_is_file := i, ce_read := r\<rparr>) = str_or_empty en"
  "call_id (en\<lparr>ce_is_file := i, ce_read := r\<rparr>) = call_id en" "react_result (en\<lparr>ce_is_file := i, ce_read := r\<rparr>) = react_result en"
  "react_failed (en\<lparr>ce_is_file := i, ce_read := r\<rparr>) = react_failed en" "react_chat (en\<lparr>ce_is_file := i, ce_read := r\<rparr>) = react_chat en"
  unfolding fun_eq_iff parse_args_def str_or_empty_def call_id_def react_result_def react_failed_def react_chat_def
    chat_completion_def parsed_envelope_def env_fields by (rule allI | rule refl)+

lemma files_below_root:
  assumes "\<forall>p w. is_relative_to p (ce_root en) \<longrightarrow> is_file p w = ce_is_file en p w \<and> read p w = ce_read en p w"
  shows "react_turn (en\<lparr>ce_is_file := is_file, ce_read := read\<rparr>) = react_turn en"
proof -
  let ?en = "en\<lparr>ce_is_file := is_file, ce_read := read\<rparr>"
  have answer: "file_answer ?en raw w = file_answer en raw w" for raw w
    using assms by (auto simp: file_answer_def split: sum.split)
  have call: "execute_tool_call ?en call w = execute_tool_call en call w" for call w
    unfolding execute_tool_call_def fileless env_fields answer by (rule refl)
  have calls: "run_calls ?en w cs = run_calls en w cs" for w cs
  proof (induction cs)
    case (Cons c cs)
    show ?case unfolding run_calls.simps fileless call Cons by (rule refl)
  qed simp
  show ?thesis unfolding fun_eq_iff react_turn_def fileless calls by (rule allI | rule refl)+
qed

lemma turns_cong:
  assumes "react_turn en = react_turn en'" and "react_failed en = react_failed en'"
  shows "react_turns en chat k st w = react_turns en' chat k st w"
proof (induction k arbitrary: st w)
  case (Suc k)
  show ?case unfolding react_turns.simps assms(1) Suc by (rule refl)
qed (simp add: assms)

lemma calls_answered: "run_calls en w calls = Inr (ss, ms) \<Longrightarrow> list_all (\<lambda>c. \<exists>kvs. c = JObj kvs) calls \<and> length ss = length calls"
  by (induction calls arbitrary: ss ms) (auto simp: call_id_def split: json.splits)

lemma react_world: "\<exists>st. snd (run_react en env cfg prompt model turns timeout w) = snd (react_turns en (react_chat en env cfg model timeout) (nat turns) st w)"
  (is "\<exists>st. _ = snd (?turns st)")
proof -
  have "snd (case p of (Inl f, w') \<Rightarrow> (failure_result f, w') | (Inr r, w') \<Rightarrow> (Inr r, w')) = snd p" for p :: "(chat_failure + run_result) \<times> 'a"
    by (simp split: prod.split sum.split)
  then show ?thesis unfolding run_react_def Let_def by blast
qed

text \<open>C37: What a run of the file-reading loop reports depends on no file outside its root, and it makes at
  most two requests per turn.  When a reply calls a tool with something that is no object, the turn
  raises: the loop that takes care to answer such a call then fails to read its id.\<close>

theorem react_loop_is_confined:
  assumes "\<forall>p w. is_relative_to p (ce_root en) \<longrightarrow> is_file p w = ce_is_file en p w \<and> read p w = ce_read en p w"
  shows "run_react (en\<lparr>ce_is_file := is_file, ce_read := read\<rparr>) env cfg prompt model turns timeout w =
      run_react en env cfg prompt model turns timeout w \<and>
    snd (snd (run_react (asking_counted en) env cfg prompt model turns timeout (w, 0))) \<le> 2 * nat turns \<and>
    (first_message e = Some m \<and> jget m ''tool_calls'' = JList calls \<and> \<not> list_all (\<lambda>c. \<exists>kvs. c = JObj kvs) calls \<longrightarrow>
      (\<exists>f. react_turn en e st w = Inl f))"
proof (intro conjI impI)
  let ?en = "en\<lparr>ce_is_file := is_file, ce_read := read\<rparr>"
  show "run_react ?en env cfg prompt model turns timeout w = run_react en env cfg prompt model turns timeout w"
    unfolding run_react_def fileless env_fields turns_cong [OF files_below_root [OF assms] fileless(5)] by (rule refl)
  have "snd (snd (react_chat (asking_counted en) env cfg model timeout ms v)) \<le> snd v + 2" for ms v
    unfolding react_chat_def by (rule chat_counts)
  then show "snd (snd (run_react (asking_counted en) env cfg prompt model turns timeout (w, 0))) \<le> 2 * nat turns"
    using react_world [of "asking_counted en" env cfg prompt model turns timeout "(w, 0)"]
      turns_count [where en = "asking_counted en" and k = "nat turns" and v = "(w, 0)"] by force
next
  assume odd: "first_message e = Some m \<and> jget m ''tool_calls'' = JList calls \<and> \<not> list_all (\<lambda>c. \<exists>kvs. c = JObj kvs) calls"
  then obtain c cs where calls: "calls = c # cs" by (cases calls) auto
  obtain f where "run_calls en w calls = Inl f" using calls_answered [of en w calls] odd by (cases "run_calls en w calls") auto
  with odd show "\<exists>f. react_turn en e st w = Inl f"
    unfolding calls by (cases "turn_tokens e") (simp_all add: react_turn_def Let_def del: run_calls.simps)
qed

text \<open>A model that always asks for the file \<open>a\<close> of the root.\<close>

definition asking_env :: "unit chat_env" where
  "asking_env =
     \<lparr>ce_post = (\<lambda>u h b t w. (Inr ''reply'', w)),
      ce_loads = (\<lambda>t. Inr (JObj (if t = ''reply''
         then [(''choices'', JList [JObj [(''message'', JObj [(''tool_calls'',
                 JList [JObj [(''function'', JObj [(''name'', JStr ''file_read''), (''arguments'', JStr ''args'')])]])])]])]
         else [(''path'', JStr ''a'')]))),
      ce_dumps = (\<lambda>v. []), ce_str = (\<lambda>v. []), ce_repr = id, ce_resolve = (\<lambda>p. Inr [''tmp'', p]), ce_root = [''tmp''],
      ce_is_file = (\<lambda>p w. True), ce_read = (\<lambda>p w. Inr ''text''), ce_show = concat\<rparr>"

lemma asking_run:
  "map_sum id rr_trajectory (fst (run_react asking_env env [] ''p'' ''m'' 2 1 ())) =
     Inr (replicate 2 (JObj [(''tool'', JStr ''file_read''), (''input'', JObj [(''path'', JStr ''a'')])]))"
  by (simp add: run_react_def asking_env_def numeral_2_eq_2 react_chat_def chat_completion_def parsed_envelope_def react_turn_def
      turn_tokens_def first_message_def jget_simps Let_def execute_tool_call_def str_or_empty_def key_text_def parse_args_def
      text_or_empty_def file_answer_def is_relative_to_def call_id_def react_failed_def react_result_def)

theorem react_loop_is_confined_witness:
  "run_react (asking_env\<lparr>ce_read := \<lambda>p w. if starts_with [''tmp''] p then Inr ''text'' else Inr ''secret''\<rparr>) Map.empty [] ''p'' ''m'' 2 1 () =
     run_react asking_env Map.empty [] ''p'' ''m'' 2 1 () \<and>
   snd (snd (run_react (asking_counted asking_env) Map.empty [] ''p'' ''m'' 2 1 ((), 0))) \<le> 4 \<and>
   (\<exists>f. react_turn asking_env [(''choices'', JList [JObj [(''message'', JObj [(''tool_calls'', JList [JNull])])]])]
       \<lparr>rs_messages = [], rs_steps = [], rs_tokens = 0, rs_turns = []\<rparr> () = Inl f)"
proof -
  have below: "\<forall>p w. is_relative_to p (ce_root asking_env) \<longrightarrow> ce_is_file asking_env p w = ce_is_file asking_env p w \<and>
      (if starts_with [''tmp''] p then Inr ''text'' else Inr ''secret'') = ce_read asking_env p w"
    by (simp add: asking_env_def is_relative_to_def)
  have same: "asking_env\<lparr>ce_is_file := ce_is_file asking_env, ce_read := r\<rparr> = asking_env\<lparr>ce_read := r\<rparr>" for r by simp
  have reply: "first_message [(''choices'', JList [JObj [(''message'', JObj [(''tool_calls'', JList [JNull])])]])] =
      Some [(''tool_calls'', JList [JNull])] \<and> jget [(''tool_calls'', JList [JNull])] ''tool_calls'' = JList [JNull] \<and>
      \<not> list_all (\<lambda>c. \<exists>kvs. c = JObj kvs) [JNull]"
    by (simp add: first_message_def jget_simps)
  note it = react_loop_is_confined [OF below, of Map.empty "[]" "''p''" "''m''" 2 1 "()"]
  from it [THEN conjunct1] it [THEN conjunct2, THEN conjunct1] it [THEN conjunct2, THEN conjunct2, THEN mp, OF reply]
  show ?thesis unfolding same by simp
qed

end
