(* ===== verification/EvalCommands.thy ===== *)
theory EvalCommands
  imports EvalReports EvalBaselines
begin

text \<open>
  The commands of the evaluation framework that run and grade (\<open>eval-framework/run.py\<close>): \<open>task\<close>,
  \<open>suite\<close>, \<open>score\<close> and \<open>score-suite\<close>.  They work on the user's files, the archive of results, and a
  world of models behind the judge.  Printing is left out; the parallel pool of \<open>suite\<close> is that of
  \<open>EvalWorkers\<close>, here the tasks run in their order.  What a subject does with its configuration is a
  field of the environment.
\<close>

section \<open>Arguments\<close>

record run_args =
  ra_trials :: int
  ra_model :: "string option"
  ra_tier_model :: "string list"
  ra_tiers :: "nat \<Rightarrow> string option"
  ra_backend :: "string option"
  ra_grader_model :: "string option"
  ra_grader_backend :: "string option"
  ra_timeout :: "int option"
  ra_dry_run :: bool
  ra_skip_grading :: bool
  ra_run_name :: "string option"
  ra_tags :: "string list option"
  ra_type :: "string option"

text \<open>\<open>x or y\<close> on optional texts and numbers.\<close>

definition text_or_default :: "string option \<Rightarrow> string \<Rightarrow> string" where
  "text_or_default x y = (case x of Some (c # cs) \<Rightarrow> c # cs | _ \<Rightarrow> y)"

definition int_or_default :: "int option \<Rightarrow> int \<Rightarrow> int" where
  "int_or_default x y = (case x of Some i \<Rightarrow> if i = 0 then y else i | None \<Rightarrow> y)"

text \<open>One \<open>--tier-model TIER=MODEL\<close>; \<open>int_text\<close> is \<open>int\<close> of a text.\<close>

definition tier_override :: "(string \<Rightarrow> int option) \<Rightarrow> (string \<Rightarrow> string) \<Rightarrow> string \<Rightarrow> load_error + nat \<times> string" where
  "tier_override int_text repr raw =
     (case find_sub ''='' raw of
        None \<Rightarrow> Inl (LoaderError (''--tier-model expects TIER=MODEL, got '' @ repr raw))
      | Some i \<Rightarrow>
          (let tier_raw = take i raw; model = drop (i + 1) raw
           in case int_text tier_raw of
                None \<Rightarrow> Inl (LoaderError (''--tier-model tier must be an integer 0-3, got '' @ repr tier_raw))
              | Some tier \<Rightarrow>
                  if tier < 0 \<or> 3 < tier then Inl (LoaderError (''--tier-model tier must be 0-3, got '' @ str_int tier))
                  else if strip model = []
                  then Inl (LoaderError (''--tier-model '' @ str_int tier @ ''=... needs a non-empty model''))
                  else Inr (nat tier, strip model)))"

text \<open>The aliases \<open>--tierN-model\<close> come last, so they win.\<close>

definition tier_model_overrides ::
  "(string \<Rightarrow> int option) \<Rightarrow> (string \<Rightarrow> string) \<Rightarrow> run_args \<Rightarrow> load_error + (nat \<times> string) list"
where
  "tier_model_overrides int_text repr args =
     and_then (map_all (tier_override int_text repr) (ra_tier_model args)) (\<lambda>os.
       Inr (foldl (\<lambda>d k. case ra_tiers args k of Some (c # cs) \<Rightarrow> AList.update k (c # cs) d | _ \<Rightarrow> d) (dict_of os) [0 ..< 4]))"

text \<open>The overrides as environment variables of the backend, in the order of the tiers.\<close>

definition backend_config_with_tiers :: "(string \<times> json) list \<Rightarrow> (nat \<times> string) list \<Rightarrow> string + (string \<times> json) list" where
  "backend_config_with_tiers cfg overrides =
     (if overrides = [] then Inr cfg
      else case if_falsy (jget cfg ''env'') (JObj []) of
             JObj env \<Rightarrow>
               Inr (AList.update ''env'' (JObj (foldl (\<lambda>e (k, m). AList.update (tier_var k ''MODEL'') (JStr m) e) env (sort_key fst overrides))) cfg)
           | _ \<Rightarrow> Inl ''TypeError: object is not a mapping'')"

definition format_tier_models :: "(nat \<times> string) list \<Rightarrow> string" where
  "format_tier_models overrides = join '', '' (map (\<lambda>(k, m). ''tier'' @ str_nat k @ ''='' @ m) (sort_key fst overrides))"

definition model_label :: "string \<Rightarrow> (nat \<times> string) list \<Rightarrow> string" where
  "model_label m overrides = (if overrides = [] then m else m @ '' ('' @ format_tier_models overrides @ '')'')"

definition filter_suite_tasks :: "run_args \<Rightarrow> eval_task list \<Rightarrow> eval_task list" where
  "filter_suite_tasks args ts =
     (let tagged = (case ra_tags args of
            Some (g # gs) \<Rightarrow> filter (\<lambda>t. set (g # gs) \<inter> set (et_tags t) \<noteq> {}) ts | _ \<Rightarrow> ts)
      in case ra_type args of Some (c # cs) \<Rightarrow> filter (\<lambda>t. et_type t = c # cs) tagged | _ \<Rightarrow> tagged)"

section \<open>The environment of a command\<close>

text \<open>
  \<open>cmd_subject\<close> is the subject of a backend with its configuration, for a model, a number of turns and
  a timeout; \<open>cmd_float\<close>, \<open>cmd_sum\<close> and \<open>cmd_round\<close> are the floats of metrics, the sum of costs and
  \<open>round(x, 4)\<close>.
\<close>

record 'w cmd_env =
  cmd_load :: load_env
  cmd_grade :: grade_env
  cmd_eval :: eval_env
  cmd_chat :: "'w chat_env"
  cmd_environ :: environ
  cmd_spawn :: "string list \<Rightarrow> environ \<Rightarrow> int \<Rightarrow> 'w \<Rightarrow> cli_end \<times> 'w"
  cmd_subject :: "backend \<Rightarrow> (string \<times> json) list \<Rightarrow> string \<Rightarrow> int \<Rightarrow> int \<Rightarrow> string + subject"
  cmd_path :: "string \<Rightarrow> path"
  cmd_show :: "path \<Rightarrow> string"
  cmd_float :: "real \<Rightarrow> json"
  cmd_sum :: "pyfloat list \<Rightarrow> json"
  cmd_round :: "rat \<Rightarrow> rat"
  cmd_fresh_name :: string
  cmd_version :: string

text \<open>The user's files, the world of the judge, the archive.\<close>

record 'w cmd_state =
  cs_fs :: fs
  cs_world :: 'w
  cs_archive :: archive

datatype command_end = Exits nat | Fails string

text \<open>\<open>main\<close> turns a \<open>LoaderError\<close> into exit status 2; other exceptions leave it.\<close>

fun load_end :: "load_error \<Rightarrow> command_end" where
  "load_end (LoaderError e) = Exits 2"
| "load_end (Raised e) = Fails e"
| "load_end (IllTyped e) = Fails e"

definition make_judge :: "'w cmd_env \<Rightarrow> run_args \<Rightarrow> (string \<times> json) list \<Rightarrow> string + 'w judge" where
  "make_judge en args meta =
     (let str = str_json (cmd_grade en);
          pick = (\<lambda>x k d. text_or_default x (str (if_falsy (jget meta k) (JStr d))))
      in build_judge (cmd_chat en) (cmd_environ en) (cmd_spawn en)
           (pick (ra_grader_model args) ''default_grader_model'' ''sonnet'')
           (pick (ra_grader_backend args) ''default_grader_backend'' ''claude-cli'')
           (case jget meta ''judge_config'' of JObj c \<Rightarrow> c | _ \<Rightarrow> []))"

section \<open>Running tasks\<close>

fun run_trials ::
  "'w cmd_env \<Rightarrow> subject \<Rightarrow> 'w judge \<Rightarrow> bool \<Rightarrow> eval_task \<Rightarrow> nat list \<Rightarrow> fs \<Rightarrow> 'w \<Rightarrow>
     (string + (trial \<times> score) list) \<times> fs \<times> 'w"
where
  "run_trials en su judge skip task [] f w = (Inr [], f, w)"
| "run_trials en su judge skip task (k # ks) f w =
     (case run_trial (cmd_eval en) su (et_spec task) k f of
        (t, f1) \<Rightarrow>
          (case (if skip then (Inr (ungraded_score (cmd_grade en) (et_spec task) t), w)
                 else grade (cmd_grade en) (et_spec task) (et_criteria task) (et_expected task) judge True t w) of
             (Inl e, w1) \<Rightarrow> (Inl e, f1, w1)
           | (Inr s, w1) \<Rightarrow>
               (case run_trials en su judge skip task ks f1 w1 of
                  (Inl e, f2, w2) \<Rightarrow> (Inl e, f2, w2)
                | (Inr rs, f2, w2) \<Rightarrow> (Inr ((t, s) # rs), f2, w2))))"

definition subject_for :: "'w cmd_env \<Rightarrow> run_args \<Rightarrow> (nat \<times> string) list \<Rightarrow> eval_task \<Rightarrow> string + subject" where
  "subject_for en args overrides task =
     and_then (backend_config_with_tiers (et_backend_config task) overrides) (\<lambda>cfg.
     and_then (build_subject (ce_repr (cmd_chat en)) (text_or_default (ra_backend args) (et_backend task))) (\<lambda>b.
       cmd_subject en b cfg
         (text_or_default (ra_model args) (text_or_default (map_of overrides 0) (et_model task)))
         (et_max_turns task) (int_or_default (ra_timeout args) (et_timeout task))))"

definition run_task_command ::
  "'w cmd_env \<Rightarrow> run_args \<Rightarrow> (nat \<times> string) list \<Rightarrow> 'w judge \<Rightarrow> eval_task \<Rightarrow> fs \<Rightarrow> 'w \<Rightarrow> (string + task_result) \<times> fs \<times> 'w"
where
  "run_task_command en args overrides judge task f w =
     (case subject_for en args overrides task of
        Inl e \<Rightarrow> (Inl e, f, w)
      | Inr su \<Rightarrow>
          (case run_trials en su judge (ra_skip_grading args) task [1 ..< Suc (nat (ra_trials args))] f w of
             (Inl e, f', w') \<Rightarrow> (Inl e, f', w')
           | (Inr rs, f', w') \<Rightarrow> (Inr (build_task_result task (map fst rs) (map snd rs)), f', w')))"

fun run_task_list ::
  "'w cmd_env \<Rightarrow> run_args \<Rightarrow> (nat \<times> string) list \<Rightarrow> 'w judge \<Rightarrow> eval_task list \<Rightarrow> fs \<Rightarrow> 'w \<Rightarrow> (string + task_result list) \<times> fs \<times> 'w"
where
  "run_task_list en args overrides judge [] f w = (Inr [], f, w)"
| "run_task_list en args overrides judge (t # ts) f w =
     (case run_task_command en args overrides judge t f w of
        (Inl e, f1, w1) \<Rightarrow> (Inl e, f1, w1)
      | (Inr r, f1, w1) \<Rightarrow>
          (case run_task_list en args overrides judge ts f1 w1 of
             (Inl e, f2, w2) \<Rightarrow> (Inl e, f2, w2)
           | (Inr rs, f2, w2) \<Rightarrow> (Inr (r # rs), f2, w2)))"

definition run_dir_of :: "'w cmd_env \<Rightarrow> run_args \<Rightarrow> path" where
  "run_dir_of en args = [text_or_default (ra_run_name args) (cmd_fresh_name en)]"

definition overrides_of :: "'w cmd_env \<Rightarrow> run_args \<Rightarrow> load_error + (nat \<times> string) list" where
  "overrides_of en args = tier_model_overrides (ge_int_text (cmd_grade en)) (ce_repr (cmd_chat en)) args"

definition cmd_task :: "'w cmd_env \<Rightarrow> run_args \<Rightarrow> path \<Rightarrow> 'w cmd_state \<Rightarrow> command_end \<times> 'w cmd_state" where
  "cmd_task en args p st =
     (case and_then (load_task_with_suite (cmd_load en) (cmd_grade en) p) (\<lambda>(meta, task).
             and_then (overrides_of en args) (\<lambda>overrides. Inr (meta, task, overrides))) of
        Inl e \<Rightarrow> (load_end e, st)
      | Inr (meta, task, overrides) \<Rightarrow>
          if ra_dry_run args then (Exits 0, st)
          else (case make_judge en args meta of
                  Inl e \<Rightarrow> (Fails e, st)
                | Inr judge \<Rightarrow>
                    (case run_task_command en args overrides judge task (cs_fs st) (cs_world st) of
                       (Inl e, f, w) \<Rightarrow> (Fails e, st\<lparr>cs_fs := f, cs_world := w\<rparr>)
                     | (Inr r, f, w) \<Rightarrow>
                         (Exits (results_exit_code [r]),
                          \<lparr>cs_fs = f, cs_world = w,
                           cs_archive = save_task_artifacts (cmd_float en) (cmd_show en) (run_dir_of en args) r (cs_archive st)\<rparr>))))"

definition suite_result_of ::
  "'w cmd_env \<Rightarrow> run_args \<Rightarrow> (string \<times> json) list \<Rightarrow> (nat \<times> string) list \<Rightarrow> task_result list \<Rightarrow> suite_result"
where
  "suite_result_of en args meta overrides rs =
     (let str = str_json (cmd_grade en); ts = concat (map tk_trials rs); tokens = List.map_filter (\<lambda>t. rr_tokens (tr_result t)) ts
      in \<lparr>sr_suite = str (jget meta ''name''), sr_run = text_or_default (ra_run_name args) (cmd_fresh_name en),
          sr_model = model_label (text_or_default (ra_model args) (str (jget_default meta ''default_model'' (JStr default_model)))) overrides,
          sr_grader_model = text_or_default (ra_grader_model args) (str (jget_default meta ''default_grader_model'' (JStr ''sonnet''))),
          sr_version = cmd_version en, sr_trials = ra_trials args, sr_results = rs,
          sr_cost = cmd_sum en (map (\<lambda>t. case rr_cost (tr_result t) of None \<Rightarrow> Fin 0 | Some c \<Rightarrow> c) ts),
          sr_tokens = (if tokens = [] then None else Some (sum_list tokens))\<rparr>)"

definition save_suite ::
  "'w cmd_env \<Rightarrow> run_args \<Rightarrow> (string \<times> json) list \<Rightarrow> (nat \<times> string) list \<Rightarrow> task_result list \<Rightarrow> archive \<Rightarrow> archive"
where
  "save_suite en args meta overrides rs ar =
     save_run_metadata (cmd_round en) (run_dir_of en args) (suite_result_of en args meta overrides rs)
       (foldl (\<lambda>a r. save_task_artifacts (cmd_float en) (cmd_show en) (run_dir_of en args) r a) ar rs)"

definition cmd_suite :: "'w cmd_env \<Rightarrow> run_args \<Rightarrow> path \<Rightarrow> 'w cmd_state \<Rightarrow> command_end \<times> 'w cmd_state" where
  "cmd_suite en args p st =
     (case and_then (load_suite (cmd_load en) (cmd_grade en) p) (\<lambda>(meta, tasks).
             and_then (overrides_of en args) (\<lambda>overrides. Inr (meta, filter_suite_tasks args tasks, overrides))) of
        Inl e \<Rightarrow> (load_end e, st)
      | Inr (meta, tasks, overrides) \<Rightarrow>
          if tasks = [] then (Exits 0, st)
          else (case make_judge en args meta of
                  Inl e \<Rightarrow> (Fails e, st)
                | Inr judge \<Rightarrow>
                    if ra_dry_run args then (Exits 0, st)
                    else (case run_task_list en args overrides judge tasks (cs_fs st) (cs_world st) of
                            (Inl e, f, w) \<Rightarrow> (Fails e, st\<lparr>cs_fs := f, cs_world := w\<rparr>)
                          | (Inr rs, f, w) \<Rightarrow>
                              (Exits (results_exit_code rs),
                               \<lparr>cs_fs = f, cs_world = w, cs_archive = save_suite en args meta overrides rs (cs_archive st)\<rparr>))))"

section \<open>Grading an archive again\<close>

fun grade_all ::
  "grade_env \<Rightarrow> eval_task \<Rightarrow> 'w judge \<Rightarrow> trial list \<Rightarrow> 'w \<Rightarrow> (string + score list) \<times> 'w"
where
  "grade_all en task judge [] w = (Inr [], w)"
| "grade_all en task judge (t # ts) w =
     (case grade en (et_spec task) (et_criteria task) (et_expected task) judge True t w of
        (Inl e, w1) \<Rightarrow> (Inl e, w1)
      | (Inr s, w1) \<Rightarrow>
          (case grade_all en task judge ts w1 of
             (Inl e, w2) \<Rightarrow> (Inl e, w2)
           | (Inr ss, w2) \<Rightarrow> (Inr (s # ss), w2)))"

text \<open>
  One task of an archive: its file names where the task is, the task is loaded as it is now, its
  trials are read, and every trial is graded.  An end of the command is the left of the sum.
\<close>

definition regrade_task ::
  "'w cmd_env \<Rightarrow> run_args \<Rightarrow> path \<Rightarrow> archive \<Rightarrow> 'w \<Rightarrow> (command_end + task_result) \<times> 'w"
where
  "regrade_task en args dir ar w =
     (case map_of ar (dir @ [''task_metadata.json'']) of
        Some (JObj m) \<Rightarrow>
          (case map_of m ''path'' of
             Some (JStr p) \<Rightarrow>
               (case load_task_with_suite (cmd_load en) (cmd_grade en) (cmd_path en p) of
                  Inl e \<Rightarrow> (Inl (load_end e), w)
                | Inr (meta, task) \<Rightarrow>
                    (case make_judge en args meta of
                       Inl e \<Rightarrow> (Inl (Fails e), w)
                     | Inr judge \<Rightarrow>
                         (case load_archived_trials (cmd_grade en) dir ar of
                            Inl e \<Rightarrow> (Inl (Fails e), w)
                          | Inr [] \<Rightarrow> (Inl (Exits 2), w)
                          | Inr (t # ts) \<Rightarrow>
                              (case grade_all (cmd_grade en) task judge (t # ts) w of
                                 (Inl e, w') \<Rightarrow> (Inl (Fails e), w')
                               | (Inr ss, w') \<Rightarrow> (Inr (build_task_result task (t # ts) ss), w')))))
           | _ \<Rightarrow> (Inl (Fails ''KeyError or TypeError: path''), w))
      | None \<Rightarrow> (Inl (Exits 2), w)
      | _ \<Rightarrow> (Inl (Fails ''TypeError: indices must be integers''), w))"

text \<open>\<open>score\<close> writes nothing.\<close>

definition cmd_score :: "'w cmd_env \<Rightarrow> run_args \<Rightarrow> path \<Rightarrow> 'w cmd_state \<Rightarrow> command_end \<times> 'w cmd_state" where
  "cmd_score en args dir st =
     (case regrade_task en args dir (cs_archive st) (cs_world st) of
        (Inl e, w) \<Rightarrow> (e, st\<lparr>cs_world := w\<rparr>)
      | (Inr r, w) \<Rightarrow> (Exits 0, st\<lparr>cs_world := w\<rparr>))"

fun regrade_tasks ::
  "'w cmd_env \<Rightarrow> run_args \<Rightarrow> path list \<Rightarrow> archive \<Rightarrow> 'w \<Rightarrow> (command_end + task_result list) \<times> 'w"
where
  "regrade_tasks en args [] ar w = (Inr [], w)"
| "regrade_tasks en args (d # ds) ar w =
     (case regrade_task en args d ar w of
        (Inl e, w1) \<Rightarrow> (Inl e, w1)
      | (Inr r, w1) \<Rightarrow>
          (case regrade_tasks en args ds ar w1 of
             (Inl e, w2) \<Rightarrow> (Inl e, w2)
           | (Inr rs, w2) \<Rightarrow> (Inr (r # rs), w2)))"

text \<open>The directories below a run that hold a task, in the order of their names.\<close>

definition task_dirs :: "path \<Rightarrow> archive \<Rightarrow> path list" where
  "task_dirs run_dir ar =
     map (\<lambda>d. run_dir @ [d])
       (sort (remdups (List.map_filter (\<lambda>(p, v).
          if length p = length run_dir + 2 \<and> take (length run_dir) p = run_dir \<and> last p = ''task_metadata.json''
          then Some (p ! length run_dir) else None) ar)))"

definition cmd_score_suite :: "'w cmd_env \<Rightarrow> run_args \<Rightarrow> path \<Rightarrow> 'w cmd_state \<Rightarrow> command_end \<times> 'w cmd_state" where
  "cmd_score_suite en args run_dir st =
     (let ar = cs_archive st
      in case map_of ar (run_dir @ [''run_metadata.json'']) of
           None \<Rightarrow> (Exits 2, st)
         | Some (JObj m) \<Rightarrow>
             if task_dirs run_dir ar = [] then (Exits 2, st)
             else (case regrade_tasks en args (task_dirs run_dir ar) ar (cs_world st) of
                     (Inl e, w) \<Rightarrow> (e, st\<lparr>cs_world := w\<rparr>)
                   | (Inr rs, w) \<Rightarrow>
                       if run_is_invalid rs then (Exits 2, st\<lparr>cs_world := w\<rparr>)
                       else (let ar1 = foldl (\<lambda>a r. save_task_scores (cmd_float en) (cmd_show en) run_dir r a) ar rs
                             in case update_run_metadata_scores (cmd_round en) (cmd_version en) run_dir rs ar1 of
                                  None \<Rightarrow> (Fails ''AttributeError: object has no attribute update'', st\<lparr>cs_world := w, cs_archive := ar1\<rparr>)
                                | Some ar2 \<Rightarrow> (Exits 0, st\<lparr>cs_world := w, cs_archive := ar2\<rparr>)))
         | Some v \<Rightarrow> (Fails ''AttributeError: object has no attribute get'', st))"

section \<open>All or nothing\<close>

definition regraded_files :: "string set" where
  "regraded_files = {''score.json'', ''task_metadata.json'', ''run_metadata.json''}"

lemma scores_spare_others: "last p \<notin> regraded_files \<Longrightarrow> map_of (save_task_scores fj sp run_dir r ar) p = map_of ar p"
proof -
  assume p: "last p \<notin> regraded_files"
  then have other: "p \<noteq> task_dir run_dir r @ [trial_name k, ''score.json'']" "p \<noteq> task_dir run_dir r @ [''task_metadata.json'']" for k
    by (auto simp: regraded_files_def)
  have "map_of (foldl (\<lambda>a s. write_json (task_dir run_dir r @ [trial_name (sc_trial s), ''score.json'']) (score_json s) a) a ss) p = map_of a p"
    for a ss using other by (induction ss arbitrary: a) (simp_all add: write_json_def)
  then show ?thesis using other by (simp add: save_task_scores_def write_json_def)
qed

lemma scores_spare_run_file:
  "map_of (save_task_scores fj sp run_dir r ar) (run_dir @ [''run_metadata.json'']) = map_of ar (run_dir @ [''run_metadata.json''])"
proof -
  have "map_of (foldl (\<lambda>a s. write_json (task_dir run_dir r @ [trial_name (sc_trial s), ''score.json'']) (score_json s) a) a ss)
      (run_dir @ [''run_metadata.json'']) = map_of a (run_dir @ [''run_metadata.json''])" for a ss
    by (induction ss arbitrary: a) (simp_all add: write_json_def task_dir_def)
  then show ?thesis by (simp add: save_task_scores_def write_json_def task_dir_def)
qed

lemma all_scores_spare:
  "last p \<notin> regraded_files \<Longrightarrow> map_of (foldl (\<lambda>a r. save_task_scores fj sp run_dir r a) ar rs) p = map_of ar p"
  "map_of (foldl (\<lambda>a r. save_task_scores fj sp run_dir r a) ar rs) (run_dir @ [''run_metadata.json'']) = map_of ar (run_dir @ [''run_metadata.json''])"
  by (induction rs arbitrary: ar) (simp_all add: scores_spare_others scores_spare_run_file)

lemma merged_lookup: "map_of (merged a b) = map_of a ++ map_of (rev b)"
proof (induction b arbitrary: a)
  case (Cons kv b)
  obtain k v where "kv = (k, v)" by (cases kv)
  then have "merged a (kv # b) = merged (AList.update k v a) b" by (simp add: merged_def)
  with Cons \<open>kv = (k, v)\<close> show ?case by (intro ext) (simp add: map_add_def split: option.split)
qed (simp add: merged_def)

lemma merged_flag: "jget (merged m (infra_fields round4 rs @ [(''scoring_harness_version'', JStr v)])) ''flagged_invalid'' = JBool (run_is_invalid rs)"
  by (simp add: jget_def merged_lookup infra_fields_def run_is_invalid_def map_add_def split: prod.split)

text \<open>A task whose grading does not end the command never ends it with status 0.\<close>

lemma load_end_not_0: "load_end e \<noteq> Exits 0"
  by (cases e) simp_all

lemma regrade_task_end: "regrade_task en args d ar w = (Inl e, w') \<Longrightarrow> e \<noteq> Exits 0"
  by (auto simp: regrade_task_def load_end_not_0 split: option.splits json.splits sum.splits prod.splits list.splits)

lemma regrade_tasks_end: "regrade_tasks en args ds ar w = (Inl e, w') \<Longrightarrow> e \<noteq> Exits 0"
  by (induction ds arbitrary: w) (auto dest: regrade_task_end split: sum.splits prod.splits)

text \<open>Grading an archived run again touches no file of the user, and is all or nothing: unless it exits
  with 0, the archive is as it was.  If it exits with 0, then every task was graded, fewer than a fifth
  of the scores are infrastructure failures, the run's file says so, and only scores and the files
  that describe the run and its tasks have changed: trials and outputs are kept.\<close>

theorem regrade_is_all_or_nothing:
  assumes "cmd_score_suite en args run_dir st = (e, st')"
  shows "cs_fs st' = cs_fs st \<and>
    (e \<noteq> Exits 0 \<and> cs_archive st' = cs_archive st \<or>
     e = Exits 0 \<and> (\<exists>rs m. regrade_tasks en args (task_dirs run_dir (cs_archive st)) (cs_archive st) (cs_world st) = (Inr rs, cs_world st') \<and>
       \<not> run_is_invalid rs \<and>
       map_of (cs_archive st') (run_dir @ [''run_metadata.json'']) = Some (JObj m) \<and> jget m ''flagged_invalid'' = JBool False \<and>
       (\<forall>p. last p \<notin> regraded_files \<longrightarrow> map_of (cs_archive st') p = map_of (cs_archive st) p)))"
proof -
  let ?ar = "cs_archive st" and ?run = "run_dir @ [''run_metadata.json'']"
  show ?thesis
  proof (cases "\<exists>m. map_of ?ar ?run = Some (JObj m) \<and> task_dirs run_dir ?ar \<noteq> []")
    case False
    with assms show ?thesis by (auto simp: cmd_score_suite_def Let_def split: option.splits json.splits if_splits)
  next
    case True
    then obtain m where m: "map_of ?ar ?run = Some (JObj m)" and ds: "task_dirs run_dir ?ar \<noteq> []" by blast
    obtain x w where x: "regrade_tasks en args (task_dirs run_dir ?ar) ?ar (cs_world st) = (x, w)" by (metis surj_pair)
    show ?thesis
    proof (cases x)
      case (Inl e')
      with assms m ds x show ?thesis using regrade_tasks_end [of en args "task_dirs run_dir ?ar" ?ar "cs_world st" e' w]
        by (auto simp: cmd_score_suite_def Let_def)
    next
      case (Inr rs)
      let ?ar1 = "foldl (\<lambda>a r. save_task_scores (cmd_float en) (cmd_show en) run_dir r a) ?ar rs"
      let ?m = "merged m (infra_fields (cmd_round en) rs @ [(''scoring_harness_version'', JStr (cmd_version en))])"
      have upd: "update_run_metadata_scores (cmd_round en) (cmd_version en) run_dir rs ?ar1 = Some (write_json ?run (JObj ?m) ?ar1)"
        by (simp add: update_run_metadata_scores_def all_scores_spare m)
      show ?thesis
      proof (cases "run_is_invalid rs")
        case True
        with assms m ds x Inr show ?thesis by (auto simp: cmd_score_suite_def Let_def)
      next
        case False
        with assms m ds x Inr upd have st': "e = Exits 0" "st' = st\<lparr>cs_world := w, cs_archive := write_json ?run (JObj ?m) ?ar1\<rparr>"
          by (simp_all add: cmd_score_suite_def Let_def)
        have flag: "jget ?m ''flagged_invalid'' = JBool False" using False by (simp add: merged_flag)
        have "map_of (cs_archive st') p = map_of ?ar p" if "last p \<notin> regraded_files" for p
        proof -
          have "p \<noteq> ?run" using that by (auto simp: regraded_files_def)
          with that show ?thesis by (simp add: st' write_json_def all_scores_spare(1))
        qed
        moreover have "map_of (cs_archive st') ?run = Some (JObj ?m)" by (simp add: st' write_json_def)
        ultimately show ?thesis using st' x Inr False flag by auto
      qed
    qed
  qed
qed

text \<open>An archive of one task with one trial, and no criteria to grade it by.\<close>

definition bare_loader :: load_env where
  "bare_loader =
     \<lparr>le_toml = (\<lambda>p. Toml [(''suite'', JObj [(''name'', JStr ''s'')])]), le_text = (\<lambda>p. Inr (Some ''say hello'')),
      le_dirs = (\<lambda>p. None), le_resolve = id, le_show = concat\<rparr>"

definition bare_env :: "unit cmd_env" where
  "bare_env =
     \<lparr>cmd_load = bare_loader, cmd_grade = sample_grading,
      cmd_eval = \<lparr>ee_expand = (\<lambda>s. [s]), ee_parts = (\<lambda>s. [s]), ee_decode = Some, ee_show = concat, ee_repr = id, ee_os_error = concat\<rparr>,
      cmd_chat = asking_env, cmd_environ = Map.empty, cmd_spawn = (\<lambda>c e t w. (CliMissing, w)),
      cmd_subject = (\<lambda>b c m n t. Inl []), cmd_path = (\<lambda>s. [''s'', ''tasks'', s]), cmd_show = concat, cmd_float = (\<lambda>x. JNull),
      cmd_sum = (\<lambda>xs. JNull), cmd_round = id, cmd_fresh_name = ''run'', cmd_version = ''1''\<rparr>"

definition bare_trial :: trial where
  "bare_trial = \<lparr>tr_task = ''a'', tr_run = 1, tr_result = no_result\<lparr>rr_text := ''hello'', rr_success := True\<rparr>, tr_side_effects = [], tr_baseline = []\<rparr>"

definition bare_archive :: archive where
  "bare_archive =
     [([''r'', ''run_metadata.json''], JObj [(''run_name'', JStr ''r'')]),
      ([''r'', ''a'', ''task_metadata.json''], JObj [(''path'', JStr ''a'')]),
      ([''r'', ''a'', ''trial-01'', ''trial.json''], trial_json bare_trial)]"

definition no_args :: run_args where
  "no_args =
     \<lparr>ra_trials = 3, ra_model = None, ra_tier_model = [], ra_tiers = (\<lambda>k. None), ra_backend = None, ra_grader_model = None,
      ra_grader_backend = None, ra_timeout = None, ra_dry_run = False, ra_skip_grading = False, ra_run_name = None, ra_tags = None,
      ra_type = None\<rparr>"

lemma bare_dirs: "task_dirs [''r''] bare_archive = [[''r'', ''a'']]" "trial_dirs [''r'', ''a''] bare_archive = [''trial-01'']"
  by (simp_all add: task_dirs_def trial_dirs_def bare_archive_def List.map_filter_simps)

lemma bare_loaded: "load_archived_trials sample_grading [''r'', ''a''] bare_archive = Inr [bare_trial]"
  by (simp add: load_archived_trials_def bare_dirs) (simp add: bare_archive_def load_trial_dump)

lemma bare_task:
  "\<exists>meta task. load_task_with_suite bare_loader sample_grading [''s'', ''tasks'', ''a''] = Inr (meta, task) \<and>
     et_criteria task = [] \<and> meta = [(''name'', JStr ''s'')]"
  by (simp add: load_task_with_suite_def load_suite_meta_def load_task_def Let_def read_toml_def prompt_of_def bare_loader_def if_falsy_def
      jget_simps load_int_def int_arg_def parse_fixtures_def parse_criteria_def text_field_def default_timeout_def default_max_turns_def)

lemma bare_sound: "\<not> trial_infra_error sample_grading bare_trial"
  by (simp add: trial_infra_error_def bare_trial_def no_result_def)

lemma bare_regrade: "\<exists>r. regrade_tasks bare_env no_args [[''r'', ''a'']] bare_archive () = (Inr [r], ()) \<and> \<not> run_is_invalid [r]"
proof -
  obtain meta task where t: "load_task_with_suite bare_loader sample_grading [''s'', ''tasks'', ''a''] = Inr (meta, task)"
    "et_criteria task = []" "meta = [(''name'', JStr ''s'')]" using bare_task by (elim exE conjE) (rule that)
  have "str_json sample_grading (JStr s) = s" for s by (simp add: str_json_def key_text_def)
  then obtain judge where judge: "make_judge bare_env no_args meta = Inr judge"
    by (simp add: make_judge_def Let_def t(3) jget_simps no_args_def text_or_default_def if_falsy_def build_judge_def bare_env_def)
  obtain s where s: "grade sample_grading (et_spec task) [] (et_expected task) judge True bare_trial () = (Inr s, ())" "\<not> sc_infra s"
    using bare_sound by (simp add: grade_def by_grader_def Let_def in_order_def score_of_def)
  have "map_of bare_archive [''r'', ''a'', ''task_metadata.json''] = Some (JObj [(''path'', JStr ''a'')])" by (simp add: bare_archive_def)
  moreover have "cmd_load bare_env = bare_loader" "cmd_grade bare_env = sample_grading" "cmd_path bare_env ''a'' = [''s'', ''tasks'', ''a'']"
    by (simp_all add: bare_env_def)
  ultimately have "regrade_task bare_env no_args [''r'', ''a''] bare_archive () = (Inr (build_task_result task [bare_trial] [s]), ())"
    using t(1,2) judge s bare_loaded by (simp add: regrade_task_def)
  moreover have "\<not> run_is_invalid [build_task_result task [bare_trial] [s]]"
    using s(2) by (simp add: run_is_invalid_def infra_error_stats_def build_task_result_def Let_def invalid_rate_def)
  ultimately show ?thesis by simp
qed

theorem regrade_is_all_or_nothing_witness:
  "\<exists>st'. cmd_score_suite bare_env no_args [''r''] \<lparr>cs_fs = Map.empty, cs_world = (), cs_archive = bare_archive\<rparr> = (Exits 0, st') \<and>
     cs_fs st' = Map.empty \<and>
     map_of (cs_archive st') [''r'', ''a'', ''trial-01'', ''trial.json''] = Some (trial_json bare_trial)"
proof -
  let ?st = "\<lparr>cs_fs = Map.empty, cs_world = (), cs_archive = bare_archive\<rparr>"
  obtain r where r: "regrade_tasks bare_env no_args [[''r'', ''a'']] bare_archive () = (Inr [r], ())" "\<not> run_is_invalid [r]"
    using bare_regrade by blast
  have run: "map_of bare_archive [''r'', ''run_metadata.json''] = Some (JObj [(''run_name'', JStr ''r'')])" by (simp add: bare_archive_def)
  have kept: "map_of (save_task_scores fj sp [''r''] r bare_archive) [''r'', ''run_metadata.json''] = Some (JObj [(''run_name'', JStr ''r'')])" for fj sp
    using scores_spare_run_file [of fj sp "[''r'']" r bare_archive] run by simp
  obtain st' where st': "cmd_score_suite bare_env no_args [''r''] ?st = (Exits 0, st')"
    using r run kept by (simp add: cmd_score_suite_def bare_dirs update_run_metadata_scores_def Let_def)
  from regrade_is_all_or_nothing [OF st'] have "cs_fs st' = Map.empty"
    "\<forall>p. last p \<notin> regraded_files \<longrightarrow> map_of (cs_archive st') p = map_of bare_archive p" by auto
  moreover from this(2) have "map_of (cs_archive st') [''r'', ''a'', ''trial-01'', ''trial.json''] = Some (trial_json bare_trial)"
    by (simp add: regraded_files_def bare_archive_def)
  ultimately show ?thesis using st' by blast
qed

end
