(* ===== verification/EvalPrint.thy ===== *)
theory EvalPrint
  imports EvalCommands
begin

text \<open>
  What a run prints (\<open>eval-framework/evalkit/reporter.py\<close>): the table of a task with its criteria and
  trials, the summary of a suite, the control pairs.  Printed lines are lists of characters; the
  formatting of floats, the durations of trials and the wall clock are fields of the environment.
\<close>

record print_env =
  pe_fixed :: "nat \<Rightarrow> real \<Rightarrow> string"
  pe_percent :: "rat \<Rightarrow> string"
  pe_cost :: "json \<Rightarrow> string"
  pe_erf :: "real \<Rightarrow> real"
  pe_seconds :: "trial \<Rightarrow> real"
  pe_wall :: "real option"

section \<open>Cells\<close>

text \<open>\<open>f"{s:<w}"\<close> and \<open>f"{s:>w}"\<close>.\<close>

definition pad_right :: "nat \<Rightarrow> string \<Rightarrow> string" where
  "pad_right w s = s @ replicate (w - length s) CHR '' ''"

definition pad_left :: "nat \<Rightarrow> string \<Rightarrow> string" where
  "pad_left w s = replicate (w - length s) CHR '' '' @ s"

text \<open>Symbols beyond 256, as their UTF-8 bytes; no property depends on their length.\<close>

definition box_line :: string where
  "box_line = [CHR 0xE2, CHR 0x94, CHR 0x80, CHR 0xE2, CHR 0x94, CHR 0x80]"

definition warning_sign :: string where
  "warning_sign = [CHR 0xE2, CHR 0x9A, CHR 0xA0]"

definition arrow_right :: string where
  "arrow_right = [CHR 0xE2, CHR 0x86, CHR 0x92]"

definition arrow_left :: string where
  "arrow_left = [CHR 0xE2, CHR 0x86, CHR 0x90]"

definition arrow_both :: string where
  "arrow_both = [CHR 0xE2, CHR 0x86, CHR 0x94]"

definition check_mark :: string where
  "check_mark = [CHR 0xE2, CHR 0x9C, CHR 0x93]"

definition at_least_sign :: string where
  "at_least_sign = [CHR 0xE2, CHR 0x89, CHR 0xA5]"

definition verdict_cell :: "bool \<Rightarrow> string" where
  "verdict_cell passed = (if passed then ''PASS'' else ''FAIL'')"

definition task_seconds :: "print_env \<Rightarrow> task_result \<Rightarrow> real \<times> real" where
  "task_seconds pe r =
     (let durs = map (pe_seconds pe) (tk_trials r)
      in (sum_list durs, if durs = [] then 0 else sum_list durs / real (length durs)))"

definition fmt_secs :: "print_env \<Rightarrow> real \<Rightarrow> string" where
  "fmt_secs pe s = (if s < 90 then pe_fixed pe 0 s @ ''s'' else pe_fixed pe 1 (s / 60) @ ''m'')"

definition task_tokens :: "task_result \<Rightarrow> (int \<times> real) option" where
  "task_tokens r =
     (case List.map_filter (\<lambda>t. rr_tokens (tr_result t)) (tk_trials r) of
        [] \<Rightarrow> None
      | vs \<Rightarrow> Some (sum_list vs, real_of_int (sum_list vs) / real (length vs)))"

definition fmt_tokens :: "print_env \<Rightarrow> real option \<Rightarrow> string" where
  "fmt_tokens pe tokens = (case tokens of None \<Rightarrow> ''-'' | Some x \<Rightarrow> pe_fixed pe 0 x)"

section \<open>The table of a task\<close>

definition criterion_width :: "string list \<Rightarrow> nat" where
  "criterion_width ts = min 60 (if ts = [] then 10 else Max (length ` set ts))"

definition table_header :: "nat \<Rightarrow> nat \<Rightarrow> string" where
  "table_header w n =
     ''  '' @ pad_right w ''criterion'' @ '' '' @ join '' '' (map (\<lambda>i. ''T'' @ pad_right 4 (str_nat (i + 1))) [0 ..< n]) @ '' grader''"

definition criterion_label :: "nat \<Rightarrow> string \<Rightarrow> string" where
  "criterion_label w s = (if length s \<le> w then s else take (w - 1) s @ ellipsis)"

text \<open>The row of a criterion; a score without it is an \<open>IndexError\<close>.\<close>

definition criterion_row :: "nat \<Rightarrow> score list \<Rightarrow> (string \<times> string) list \<Rightarrow> nat \<times> string \<Rightarrow> string + string" where
  "criterion_row w scores graders c =
     (case c of (i, s) \<Rightarrow>
        and_then (map_all (\<lambda>sc. if i < length (sc_results sc) then Inr (pad_right 5 (verdict_cell (cr_passed (sc_results sc ! i))))
                             else Inl ''IndexError: list index out of range'') scores) (\<lambda>cells.
          Inr (''  '' @ pad_right w (criterion_label w s) @ '' '' @ join '' '' cells @ '' '' @
               (case map_of graders s of None \<Rightarrow> [] | Some g \<Rightarrow> g))))"

definition task_heading :: "eval_task \<Rightarrow> string" where
  "task_heading t =
     box_line @ '' '' @ rt_id (et_spec t) @ ''  ['' @ et_type t @ '', difficulty '' @ str_int (et_difficulty t) @ ''] '' @ box_line"

definition metrics_text :: "print_env \<Rightarrow> task_result \<Rightarrow> string" where
  "metrics_text pe r =
     (let quality = model_quality_scores (tk_scores r); k = length quality;
          (lo, hi) = wilson_ci (pe_erf pe) (length (perfect_scores quality)) k (1 / 20)
      in case (tk_pass_at r, tk_pass_pow r, tk_mean r) of
           (Some p_at, Some p_pow, Some mean) \<Rightarrow>
             ''pass@'' @ str_nat k @ ''='' @ pe_fixed pe 2 p_at @ ''  pass^'' @ str_nat k @ ''='' @ pe_fixed pe 2 p_pow @ ''  mean='' @
             pe_fixed pe 2 mean @ ''  pass^k 95% CI=['' @ pe_fixed pe 2 lo @ '', '' @ pe_fixed pe 2 hi @ '']''
         | _ \<Rightarrow> ''model-quality metrics unavailable (no trustworthy graded trials)'')"

definition infra_count :: "task_result \<Rightarrow> nat" where
  "infra_count r = length (filter sc_infra (tk_scores r))"

definition metrics_line :: "print_env \<Rightarrow> task_result \<Rightarrow> string" where
  "metrics_line pe r =
     ''  '' @ arrow_right @ '' '' @ metrics_text pe r @ ''  mean trial='' @ fmt_secs pe (snd (task_seconds pe r)) @
     ''  mean tokens='' @ fmt_tokens pe (map_option snd (task_tokens r)) @
     (if infra_count r = 0 then []
      else ''  '' @ warning_sign @ '' '' @ str_nat (infra_count r) @ ''/'' @ str_nat (length (tk_scores r)) @ '' infra-error'')"

definition print_task_result :: "print_env \<Rightarrow> task_result \<Rightarrow> string + string list" where
  "print_task_result pe r =
     (let heading = [[], task_heading (tk_task r)]
      in case tk_scores r of
           [] \<Rightarrow> Inr (heading @ [''  (no trials)''])
         | first # others \<Rightarrow>
             if \<not> list_ex sc_graded (first # others)
             then Inr (heading @ [''  grading skipped; infrastructure failures: '' @ str_nat (infra_count r) @ ''/'' @
                     str_nat (length (first # others))])
             else (let texts = map cr_text (sc_results first); w = criterion_width texts;
                       graders = rev (map (\<lambda>c. (cr_text c, cr_grader c)) (sc_results first));
                       header = table_header w (length (first # others))
                   in and_then (map_all (criterion_row w (first # others) graders) (List.enumerate 0 texts)) (\<lambda>rows.
                        Inr (heading @ [header, ''  '' @ replicate (length header - 2) CHR ''-''] @ rows @ [metrics_line pe r]))))"

section \<open>The summary of a suite\<close>

definition is_regression :: "task_result \<Rightarrow> bool" where
  "is_regression r \<longleftrightarrow> et_type (tk_task r) = ''regression'' \<and> tk_pass_pow r = Some 0"

definition task_flag :: "task_result \<Rightarrow> string" where
  "task_flag r =
     (if is_regression r then ''  '' @ arrow_left @ '' REGRESSION (pass^k=0)'' else []) @
     (if infra_count r = 0 then [] else ''  '' @ warning_sign @ str_nat (infra_count r) @ ''infra'')"

definition metric_or_na :: "print_env \<Rightarrow> real option \<Rightarrow> string" where
  "metric_or_na pe x = (case x of None \<Rightarrow> ''N/A'' | Some v \<Rightarrow> pe_fixed pe 2 v)"

definition summary_line :: "print_env \<Rightarrow> task_result \<Rightarrow> string" where
  "summary_line pe r =
     ''  '' @ pad_right 28 (rt_id (et_spec (tk_task r))) @ '' '' @ pad_right 11 (et_type (tk_task r)) @
     '' pass@k='' @ pad_left 4 (metric_or_na pe (tk_pass_at r)) @ '' pass^k='' @ pad_left 4 (metric_or_na pe (tk_pass_pow r)) @
     '' '' @ pad_left 6 (fmt_secs pe (snd (task_seconds pe r))) @ ''/trial tokens='' @
     pad_left 6 (fmt_tokens pe (map_option snd (task_tokens r))) @ task_flag r"

text \<open>A control pair is printed for each task whose control is in the suite.\<close>

definition by_task_id :: "task_result list \<Rightarrow> (string \<times> task_result) list" where
  "by_task_id rs = dict_of (map (\<lambda>r. (rt_id (et_spec (tk_task r)), r)) rs)"

definition concordant :: "task_result \<Rightarrow> task_result \<Rightarrow> bool" where
  "concordant a b \<longleftrightarrow> tk_pass_pow a = Some 1 \<and> tk_pass_pow b = Some 1"

definition control_concordance :: "task_result list \<Rightarrow> string list" where
  "control_concordance rs =
     List.map_filter (\<lambda>r. case et_control_for (tk_task r) of
         None \<Rightarrow> None
       | Some ctrl \<Rightarrow>
           if ctrl = [] then None
           else (case map_of (by_task_id rs) ctrl of
                   None \<Rightarrow> None
                 | Some b \<Rightarrow> Some (''  control pair: '' @ rt_id (et_spec (tk_task r)) @ '' '' @ arrow_both @ '' '' @ ctrl @ '': '' @
                     (if concordant r b then ''concordant '' @ check_mark else ''SUSPICIOUS (one side fails)'')))) rs"

definition judge_failures :: "task_result list \<Rightarrow> nat" where
  "judge_failures rs =
     length (filter (\<lambda>s. sc_infra s \<and> list_ex (\<lambda>c. contains ''judge invocation failed'' (cr_evidence c)) (sc_results s))
       (concat (map tk_scores rs)))"

definition invalid_banner :: "print_env \<Rightarrow> task_result list \<Rightarrow> string list" where
  "invalid_banner pe rs =
     (case infra_error_stats rs of
        (infra, trials, rate) \<Rightarrow>
          if 0 < trials \<and> invalid_rate \<le> rate
          then [''  '' @ replicate 60 CHR ''!'',
                ''  '' @ warning_sign @ '' RUN INVALID '' @ em_dash @ '' '' @ str_nat infra @ ''/'' @ str_nat trials @ '' trials ('' @
                  pe_percent pe rate @ '') hit infra failures ('' @ at_least_sign @ pe_percent pe invalid_rate @ '' tripwire).'',
                ''    subject crash/empty/provider: '' @ str_int (int infra - int (judge_failures rs)) @ ''   unreachable judge: '' @
                  str_nat (judge_failures rs) @
                  ''.  Broken plumbing, not the model '' @ em_dash @ '' fix and re-run; do not publish these numbers.'',
                ''  '' @ replicate 60 CHR ''!'']
          else [])"

definition print_suite_summary :: "print_env \<Rightarrow> suite_result \<Rightarrow> string list" where
  "print_suite_summary pe s =
     (let rs = sr_results s; rule = replicate 64 CHR ''=''; agent = (\<Sum>r\<leftarrow>rs. fst (task_seconds pe r));
          infra = (\<Sum>r\<leftarrow>rs. infra_count r)
      in [[], rule, ''  SUITE '' @ sr_suite s @ ''  ('' @ sr_run s @ '')'',
          ''  model='' @ sr_model s @ ''  grader='' @ sr_grader_model s @ ''  harness='' @ sr_version s, rule] @
         map (summary_line pe) rs @ control_concordance rs @
         [''  '' @ replicate 60 CHR ''-'',
          ''  agent time: '' @ fmt_secs pe agent @ '' over '' @ str_int (sr_trials s * int (length rs)) @ '' trials   wall clock: '' @
            fmt_secs pe (case pe_wall pe of None \<Rightarrow> agent | Some x \<Rightarrow> x),
          ''  regression failures: '' @ str_nat (length (filter is_regression rs)) @ ''   total cost: $'' @ pe_cost pe (sr_cost s) @
            (if infra = 0 then [] else ''   infra-errors: '' @ str_nat infra)] @
         invalid_banner pe rs @ [rule, []])"

section \<open>Printing never fails\<close>

text \<open>Every score that grading makes has one result per criterion, in the order of the criteria.\<close>

lemma grade_length:
  assumes "grade en task cs expected judge gate t w = (Inr s, w')"
  shows "length (sc_results s) = length cs"
  using assms
  by (auto simp: grade_def subject_infra_score_def score_of_def in_order_Inr Let_def split: if_splits sum.splits prod.splits)

definition uniform :: "nat \<Rightarrow> score list \<Rightarrow> bool" where
  "uniform n ss \<longleftrightarrow> list_all (\<lambda>s. length (sc_results s) = n) ss"

lemma run_trials_scores:
  "run_trials en su judge skip task ks f w = (Inr rs, f', w') \<Longrightarrow>
     if skip then \<not> list_ex sc_graded (map snd rs) else uniform (length (et_criteria task)) (map snd rs)"
proof (induction ks arbitrary: f w rs)
  case (Cons k ks)
  obtain t f1 where run: "run_trial (cmd_eval en) su (et_spec task) k f = (t, f1)" by fastforce
  obtain x w1 where score: "(if skip then (Inr (ungraded_score (cmd_grade en) (et_spec task) t), w)
      else grade (cmd_grade en) (et_spec task) (et_criteria task) (et_expected task) judge True t w) = (x, w1)" by fastforce
  from Cons.prems obtain s ss where x: "x = Inr s" and rest: "run_trials en su judge skip task ks f1 w1 = (Inr ss, f', w')"
    and rs: "rs = (t, s) # ss"
    by (auto simp: run score split: sum.splits prod.splits)
  show ?case using Cons.IH [OF rest] score x
    by (auto simp: rs uniform_def ungraded_score_def dest: grade_length split: if_splits)
qed (simp add: uniform_def)

lemma grade_all_scores:
  "grade_all en task judge ts w = (Inr ss, w') \<Longrightarrow> uniform (length (et_criteria task)) ss"
proof (induction ts arbitrary: w ss)
  case (Cons t ts)
  obtain x w1 where score: "grade en (et_spec task) (et_criteria task) (et_expected task) judge True t w = (x, w1)" by fastforce
  from Cons.prems obtain s ss' where x: "x = Inr s" and rest: "grade_all en task judge ts w1 = (Inr ss', w')" and ss: "ss = s # ss'"
    by (auto simp: score split: sum.splits prod.splits)
  show ?case using Cons.IH [OF rest] score x by (auto simp: ss uniform_def dest: grade_length)
qed (simp add: uniform_def)

lemma uniform_prints:
  assumes "\<not> list_ex sc_graded (tk_scores r) \<or> uniform n (tk_scores r)"
  shows "\<exists>ls. print_task_result pe r = Inr ls"
proof (cases "tk_scores r")
  case (Cons first others)
  let ?texts = "map cr_text (sc_results first)"
  have row: "\<exists>l. criterion_row w (first # others) gs (i, t) = Inr l" if "i < length ?texts" "uniform n (tk_scores r)" for w gs i t
  proof -
    have "\<forall>sc \<in> set (first # others). i < length (sc_results sc)"
      using that Cons by (auto simp: uniform_def list_all_iff)
    then have "\<exists>cells. map_all (\<lambda>sc. if i < length (sc_results sc) then Inr (pad_right 5 (verdict_cell (cr_passed (sc_results sc ! i))))
        else Inl ''IndexError: list index out of range'') (first # others) = Inr cells"
      unfolding map_all_Inr_ex by simp
    then show ?thesis by (auto simp only: criterion_row_def prod.case and_then.simps)
  qed
  show ?thesis
  proof (cases "list_ex sc_graded (first # others)")
    case True
    then have "uniform n (tk_scores r)" using assms Cons by simp
    then have "\<exists>rows. map_all (criterion_row (criterion_width ?texts) (first # others)
        (rev (map (\<lambda>c. (cr_text c, cr_grader c)) (sc_results first)))) (List.enumerate 0 ?texts) = Inr rows"
      unfolding map_all_Inr_ex using row by (auto simp: in_set_enumerate_eq)
    then show ?thesis using True Cons by (auto simp: print_task_result_def Let_def)
  qed (use Cons in \<open>auto simp: print_task_result_def Let_def\<close>)
qed (simp add: print_task_result_def)

text \<open>A task that was run, graded or not, and a task that was graded again can always be printed.\<close>

theorem every_result_prints:
  assumes "run_task_command en args overrides judge task f w = (Inr r, f', w') \<or>
    (\<exists>ss. grade_all ge task judge ts w = (Inr ss, w') \<and> r = build_task_result task ts ss)"
  shows "\<exists>ls. print_task_result pe r = Inr ls"
  using assms
proof
  assume "run_task_command en args overrides judge task f w = (Inr r, f', w')"
  then obtain su rs where run: "run_trials en su judge (ra_skip_grading args) task [1 ..< Suc (nat (ra_trials args))] f w = (Inr rs, f', w')"
    and r: "r = build_task_result task (map fst rs) (map snd rs)"
    by (auto simp: run_task_command_def split: sum.splits prod.splits)
  have "\<not> list_ex sc_graded (tk_scores r) \<or> uniform (length (et_criteria task)) (tk_scores r)"
    using run_trials_scores [OF run] by (simp add: r build_task_result_def Let_def split: if_splits)
  then show ?thesis by (rule uniform_prints)
next
  assume "\<exists>ss. grade_all ge task judge ts w = (Inr ss, w') \<and> r = build_task_result task ts ss"
  then have "uniform (length (et_criteria task)) (tk_scores r)"
    by (auto simp: build_task_result_def Let_def dest: grade_all_scores)
  then show ?thesis by (intro uniform_prints) (rule disjI2)
qed

text \<open>What is printed agrees with the exit status: the banner is that of status 2, the failures that of 1.\<close>

lemma summary_agrees_with_exit:
  "results_exit_code rs =
     (if invalid_banner pe rs \<noteq> [] then 2 else if filter is_regression rs \<noteq> [] then 1 else 0)"
proof -
  obtain infra trials rate where stats: "infra_error_stats rs = (infra, trials, rate)" by (cases "infra_error_stats rs")
  have "trials = 0 \<Longrightarrow> rate = 0" using stats by (auto simp: infra_error_stats_def Let_def)
  then have "0 < trials \<and> invalid_rate \<le> rate \<longleftrightarrow> invalid_rate \<le> rate" by (cases "trials = 0") (auto simp: invalid_rate_def)
  moreover have "filter is_regression rs \<noteq> [] \<longleftrightarrow> list_ex (\<lambda>r. et_type (tk_task r) = ''regression'' \<and> tk_pass_pow r = Some 0) rs"
    by (auto simp: filter_empty_conv list_ex_iff is_regression_def)
  ultimately show ?thesis by (simp add: results_exit_code_def invalid_banner_def stats)
qed

end
