(* ===== verification/EvalRatchet.thy ===== *)
theory EvalRatchet
  imports EvalReports
begin

text \<open>
  Promotion of tasks (\<open>eval-framework/evalkit/ratchet.py\<close>, and the commands \<open>promote\<close>, \<open>demote\<close>,
  \<open>candidates\<close> and \<open>matrix\<close> of \<open>run.py\<close>): which tasks of a suite passed their last runs, and the edit of
  a task's configuration.  The archive is that of the reports, with one directory per run.
\<close>

section \<open>Candidates\<close>

text \<open>The parsed value of a file, which the code takes for an object.\<close>

definition object_at :: "archive \<Rightarrow> path \<Rightarrow> string + (string \<times> json) list option" where
  "object_at ar p =
     (case map_of ar p of
        None \<Rightarrow> Inr None
      | Some (JObj m) \<Rightarrow> Inr (Some m)
      | Some v \<Rightarrow> Inl ''AttributeError: object has no attribute get'')"

definition run_names :: "archive \<Rightarrow> string list" where
  "run_names ar =
     remdups (List.map_filter (\<lambda>(p, v). case p of [r, f] \<Rightarrow> if f = ''run_metadata.json'' then Some r else None | _ \<Rightarrow> None) ar)"

text \<open>The runs of a suite, oldest first, each after the time it started.\<close>

definition load_runs :: "(json \<Rightarrow> string) \<Rightarrow> string \<Rightarrow> archive \<Rightarrow> string + (string \<times> string) list" where
  "load_runs str suite ar =
     and_then (map_all (\<lambda>r. and_then (object_at ar [r, ''run_metadata.json'']) (\<lambda>m. Inr (r, case m of None \<Rightarrow> [] | Some o' \<Rightarrow> o'))) (run_names ar))
       (\<lambda>rs. Inr (sort_key fst (map (\<lambda>(r, m). (str (jget_default m ''started_at'' (JStr r)), r))
                    (filter (\<lambda>(r, m). jget m ''suite_name'' = JStr suite) rs))))"

definition task_meta :: "archive \<Rightarrow> string \<Rightarrow> string \<Rightarrow> string + (string \<times> json) list option" where
  "task_meta ar run task = object_at ar [run, task, ''task_metadata.json'']"

definition invalid_run :: "archive \<Rightarrow> string \<Rightarrow> string + bool" where
  "invalid_run ar run =
     and_then (object_at ar [run, ''run_metadata.json'']) (\<lambda>m.
       Inr (case m of None \<Rightarrow> True | Some o' \<Rightarrow> jget o' ''flagged_invalid'' = JBool True))"

text \<open>A run that counts for a task: valid, with metrics of the task, all of whose trials were perfect.\<close>

definition clean_run :: "archive \<Rightarrow> string \<Rightarrow> string \<Rightarrow> string + bool" where
  "clean_run ar task run =
     and_then (invalid_run ar run) (\<lambda>bad.
       if bad then Inr False
       else and_then (task_meta ar run task) (\<lambda>m.
              Inr (case m of
                     None \<Rightarrow> False
                   | Some o' \<Rightarrow> jget_default o' ''metrics_valid'' (JBool True) \<noteq> JBool False \<and>
                                 py_eq (jget o' ''pass_pow_k'') (JFloat (Fin 1)))))"

fun streak :: "('r \<Rightarrow> string + bool) \<Rightarrow> 'r list \<Rightarrow> string + nat" where
  "streak f [] = Inr 0"
| "streak f (r # rs) = and_then (f r) (\<lambda>ok. if ok then map_sum id Suc (streak f rs) else Inr 0)"

text \<open>The newest description of a task that says anything.\<close>

fun latest_meta :: "archive \<Rightarrow> string \<Rightarrow> string list \<Rightarrow> string + (string \<times> json) list" where
  "latest_meta ar task [] = Inr []"
| "latest_meta ar task (r # rs) =
     and_then (task_meta ar r task) (\<lambda>m. case m of Some (kv # kvs) \<Rightarrow> Inr (kv # kvs) | _ \<Rightarrow> latest_meta ar task rs)"

definition tasks_of_runs :: "archive \<Rightarrow> string list \<Rightarrow> string list" where
  "tasks_of_runs ar runs =
     sort (remdups (List.map_filter (\<lambda>(p, v). case p of
       [r, t, f] \<Rightarrow> if r \<in> set runs \<and> f = ''task_metadata.json'' then Some t else None | _ \<Rightarrow> None) ar))"

record candidate =
  cd_task :: string
  cd_passes :: nat
  cd_last :: string

definition find_promotion_candidates :: "(json \<Rightarrow> string) \<Rightarrow> string \<Rightarrow> int \<Rightarrow> archive \<Rightarrow> string + candidate list" where
  "find_promotion_candidates str suite threshold ar =
     and_then (load_runs str suite ar) (\<lambda>runs.
       let newest = rev (map snd runs)
       in and_then (map_all (\<lambda>t.
              and_then (streak (clean_run ar t) newest) (\<lambda>n.
                and_then (latest_meta ar t newest) (\<lambda>m. Inr (t, n, jget m ''type'' = JStr ''capability''))))
            (tasks_of_runs ar (map snd runs)))
          (\<lambda>xs. Inr (map (\<lambda>(t, n, c). \<lparr>cd_task = t, cd_passes = n, cd_last = hd newest\<rparr>)
                       (filter (\<lambda>(t, n, c). threshold \<le> int n \<and> c) xs))))"

section \<open>Editing a configuration\<close>

text \<open>\<open>^\s*key\s*=\<close>.\<close>

definition is_key :: "string \<Rightarrow> string \<Rightarrow> bool" where
  "is_key line key \<longleftrightarrow>
     (let l = lstrip line in starts_with key l \<and> starts_with ''='' (lstrip (drop (length key) l)))"

text \<open>\<open>dumps\<close> is \<open>json.dumps\<close> of a text, \<open>str\<close> the text of any value.\<close>

definition toml_scalar :: "(string \<Rightarrow> string) \<Rightarrow> (json \<Rightarrow> string) \<Rightarrow> json \<Rightarrow> string" where
  "toml_scalar dumps str v =
     (case v of
        JBool b \<Rightarrow> if b then ''true'' else ''false''
      | JInt i \<Rightarrow> str_int i
      | JFloat f \<Rightarrow> str v
      | JStr s \<Rightarrow> dumps s
      | _ \<Rightarrow> dumps (str v))"

definition type_line :: "string \<Rightarrow> string" where
  "type_line new = ''type = '' @ [CHR 0x22] @ new @ [CHR 0x22]"

text \<open>The position of the last line of a kind.\<close>

fun last_index :: "('a \<Rightarrow> bool) \<Rightarrow> 'a list \<Rightarrow> nat option" where
  "last_index P [] = None"
| "last_index P (x # xs) = (case last_index P xs of Some i \<Rightarrow> Some (Suc i) | None \<Rightarrow> if P x then Some 0 else None)"

fun replace_first :: "('a \<Rightarrow> bool) \<Rightarrow> 'a \<Rightarrow> 'a list \<Rightarrow> 'a list option" where
  "replace_first P y [] = None"
| "replace_first P y (x # xs) = (if P x then Some (y # xs) else map_option ((#) x) (replace_first P y xs))"

definition assignment :: "string \<times> string \<Rightarrow> string" where
  "assignment kv = fst kv @ '' = '' @ snd kv"

definition put_field :: "nat \<Rightarrow> string list \<Rightarrow> string \<times> string \<Rightarrow> string list" where
  "put_field i ls kv =
     (case replace_first (\<lambda>l. is_key l (fst kv)) (assignment kv) ls of
        Some ls' \<Rightarrow> ls'
      | None \<Rightarrow> take (i + 1) ls @ assignment kv # drop (i + 1) ls)"

definition edit_lines :: "string \<Rightarrow> (string \<times> string) list \<Rightarrow> string list \<Rightarrow> string list \<Rightarrow> string list" where
  "edit_lines new adds removed ls0 =
     (let ls = filter (\<lambda>l. \<not> list_ex (is_key l) removed) ls0;
          is_type = (\<lambda>l. is_key l ''type'')
      in case last_index is_type ls of
           None \<Rightarrow> foldl (put_field 0) (type_line new # ls) adds
         | Some i \<Rightarrow> foldl (put_field i) (map (\<lambda>l. if is_type l then type_line new else l) ls) adds)"

definition update_task_type ::
  "(string \<Rightarrow> string) \<Rightarrow> (json \<Rightarrow> string) \<Rightarrow> string \<Rightarrow> (string \<times> json) list \<Rightarrow> string list \<Rightarrow> string \<Rightarrow> string"
where
  "update_task_type dumps str new adds removed cfg_text =
     join newline (edit_lines new (map (\<lambda>(k, v). (k, toml_scalar dumps str v)) adds) removed (splitlines [] cfg_text)) @ newline"

section \<open>The commands\<close>

text \<open>
  \<open>re_exists\<close> are the configurations there are, \<open>re_suites\<close> the directories of the suites, and
  \<open>re_path\<close> a path as it is given; \<open>re_today\<close> is the date.
\<close>

record ratchet_env =
  re_load :: load_env
  re_grade :: grade_env
  re_exists :: "path \<Rightarrow> bool"
  re_suites :: "path list"
  re_path :: "string \<Rightarrow> path"
  re_dumps :: "string \<Rightarrow> string"
  re_today :: string

definition resolve_task_config :: "ratchet_env \<Rightarrow> string \<Rightarrow> load_error + path" where
  "resolve_task_config en arg =
     (let p = re_path en arg
      in if ends_with ''.toml'' (last p) \<and> re_exists en p then Inr p
         else if re_exists en (p @ [''config.toml'']) then Inr (p @ [''config.toml''])
         else case filter (re_exists en) (map (\<lambda>s. s @ [''tasks''] @ p @ [''config.toml'']) (re_suites en)) of
                q # qs \<Rightarrow> Inr q
              | [] \<Rightarrow> Inl (LoaderError (''could not resolve task config for '' @ ge_repr (re_grade en) (JStr arg))))"

definition default_threshold :: int where
  "default_threshold = 5"

definition threshold_of :: "ratchet_env \<Rightarrow> (string \<times> json) list \<Rightarrow> load_error + int" where
  "threshold_of en meta = load_int (re_grade en) (jget_default meta ''promotion_threshold'' (JInt default_threshold))"

text \<open>The texts of the configurations, with one rewritten.\<close>

definition rewrite_config ::
  "ratchet_env \<Rightarrow> string \<Rightarrow> (string \<times> json) list \<Rightarrow> string list \<Rightarrow> path \<Rightarrow> (path \<rightharpoonup> string) \<Rightarrow> (path \<rightharpoonup> string)"
where
  "rewrite_config en new adds removed p files =
     (case files p of
        None \<Rightarrow> files
      | Some t \<Rightarrow> files(p \<mapsto> update_task_type (re_dumps en) (ge_str (re_grade en)) new adds removed t))"

text \<open>Exit statuses, and the files afterwards; the left is an exception.\<close>

definition cmd_promote ::
  "ratchet_env \<Rightarrow> string \<Rightarrow> string option \<Rightarrow> bool \<Rightarrow> archive \<Rightarrow> (path \<rightharpoonup> string) \<Rightarrow> load_error + nat \<times> (path \<rightharpoonup> string)"
where
  "cmd_promote en arg evidence force ar files =
     and_then (resolve_task_config en arg) (\<lambda>p.
     and_then (load_suite_meta (re_load en) (butlast (butlast (butlast p)))) (\<lambda>meta.
     and_then (threshold_of en meta) (\<lambda>threshold.
     and_then (if force then Inr True
               else map_sum Raised (list_ex (\<lambda>c. cd_task c = last (butlast p)))
                      (find_promotion_candidates (str_json (re_grade en)) (str_json (re_grade en) (jget meta ''name'')) threshold ar)) (\<lambda>ok.
       if \<not> ok then Inr (2, files)
       else Inr (0, rewrite_config en ''regression''
              [(''promoted_at'', JStr (re_today en)),
               (''promotion_evidence'', JStr (case evidence of Some (c # cs) \<Rightarrow> c # cs | _ \<Rightarrow> ''manual promotion''))] [] p files)))))"

definition cmd_demote :: "ratchet_env \<Rightarrow> string \<Rightarrow> string \<Rightarrow> (path \<rightharpoonup> string) \<Rightarrow> load_error + nat \<times> (path \<rightharpoonup> string)" where
  "cmd_demote en arg reason files =
     and_then (resolve_task_config en arg) (\<lambda>p.
       Inr (0, rewrite_config en ''capability'' [(''demoted_at'', JStr (re_today en)), (''demotion_reason'', JStr reason)]
                 [''promoted_at'', ''promotion_evidence''] p files))"

text \<open>The candidates of one suite, or of all.\<close>

definition cmd_candidates :: "ratchet_env \<Rightarrow> path option \<Rightarrow> archive \<Rightarrow> load_error + (string \<times> candidate list) list" where
  "cmd_candidates en arg ar =
     (let suites = (case arg of Some p \<Rightarrow> [p] | None \<Rightarrow> filter (\<lambda>d. re_exists en (d @ [''suite.toml''])) (re_suites en));
          str = str_json (re_grade en)
      in and_then (map_all (\<lambda>d. and_then (load_suite_meta (re_load en) d) (\<lambda>m.
             and_then (threshold_of en m) (\<lambda>k. Inr (str (jget m ''name''), k)))) suites)
         (map_all (\<lambda>(name, k). map_sum Raised (Pair name) (find_promotion_candidates str name k ar))))"

section \<open>The matrix of runs\<close>

text \<open>A file of the archive, with an empty object for anything else.\<close>

definition load_json :: "archive \<Rightarrow> path \<Rightarrow> (string \<times> json) list" where
  "load_json ar p = (case map_of ar p of Some (JObj m) \<Rightarrow> m | _ \<Rightarrow> [])"

definition has_suffix :: "path \<Rightarrow> nat \<Rightarrow> string \<Rightarrow> path \<Rightarrow> bool" where
  "has_suffix dir n f p \<longleftrightarrow> length p = length dir + n \<and> take (length dir) p = dir \<and> last p = f"

definition short_model_label :: "string \<Rightarrow> string" where
  "short_model_label m =
     (case find_sub ''('' m of
        Some i \<Rightarrow> if ends_with '')'' m then butlast (drop (i + 1) m) else m
      | None \<Rightarrow> m)"

record matrix_row =
  mr_run :: string
  mr_suite :: string
  mr_model :: string
  mr_tasks :: nat
  mr_metric_tasks :: nat
  mr_at_full :: nat
  mr_pow_full :: nat
  mr_pow_zero :: nat
  mr_mean_at :: rat
  mr_mean_pow :: rat
  mr_error_trials :: nat
  mr_zero_tasks :: string
  mr_sample_errors :: string

definition is_number :: "json \<Rightarrow> bool" where
  "is_number v = (case v of JInt i \<Rightarrow> True | JFloat f \<Rightarrow> True | JBool b \<Rightarrow> True | _ \<Rightarrow> False)"

definition metric_value :: "json \<Rightarrow> rat" where
  "metric_value v = (case v of JInt i \<Rightarrow> of_int i | JFloat (Fin q) \<Rightarrow> q | JBool b \<Rightarrow> of_bool b | _ \<Rightarrow> 0)"

definition mean_of :: "rat list \<Rightarrow> rat" where
  "mean_of xs = (if xs = [] then 0 else sum_list xs / of_nat (length xs))"

definition matrix_row_of :: "(json \<Rightarrow> string) \<Rightarrow> archive \<Rightarrow> path \<Rightarrow> matrix_row" where
  "matrix_row_of str ar dir =
     (let meta = load_json ar (dir @ [''run_metadata.json'']);
          tasks = filter (\<lambda>m. m \<noteq> []) (map (load_json ar) (sort (filter (has_suffix dir 2 ''task_metadata.json'') (map fst ar))));
          metric = filter (\<lambda>m. jget_default m ''metrics_valid'' (JBool True) \<noteq> JBool False \<and>
                                is_number (jget m ''pass_at_k'') \<and> is_number (jget m ''pass_pow_k'')) tasks;
          full = (\<lambda>k. length (filter (\<lambda>m. py_eq (jget m k) (JFloat (Fin 1))) metric));
          zeros = map (\<lambda>m. str (jget_default m ''id'' (JStr []))) (filter (\<lambda>m. py_eq (jget m ''pass_pow_k'') (JFloat (Fin 0))) tasks);
          errors = filter truthy (map (\<lambda>p. jget (load_json ar p) ''error'')
                     (sort (filter (\<lambda>p. has_suffix dir 3 ''trial.json'' p \<and> starts_with ''trial-'' (last (butlast p))) (map fst ar))))
      in \<lparr>mr_run = last dir, mr_suite = str (jget_default meta ''suite_name'' (JStr [])),
          mr_model = short_model_label (str (jget_default meta ''model'' (JStr []))), mr_tasks = length tasks,
          mr_metric_tasks = length metric, mr_at_full = full ''pass_at_k'', mr_pow_full = full ''pass_pow_k'', mr_pow_zero = length zeros,
          mr_mean_at = mean_of (map (\<lambda>m. metric_value (jget m ''pass_at_k'')) metric),
          mr_mean_pow = mean_of (map (\<lambda>m. metric_value (jget m ''pass_pow_k'')) metric),
          mr_error_trials = length errors, mr_zero_tasks = join '', '' zeros, mr_sample_errors = join '' | '' (map str (take 3 errors))\<rparr>)"

text \<open>The runs that need attention.\<close>

definition matrix_failures :: "matrix_row list \<Rightarrow> matrix_row list" where
  "matrix_failures rows = filter (\<lambda>r. mr_pow_zero r \<noteq> 0 \<or> mr_error_trials r \<noteq> 0) rows"

section \<open>Who is promoted\<close>

lemma streak_at_least:
  "streak f rs = Inr n \<Longrightarrow> j \<le> n \<longleftrightarrow> j \<le> length rs \<and> list_all (\<lambda>r. f r = Inr True) (take j rs)"
proof (induction rs arbitrary: j n)
  case (Cons r rs)
  show ?case
  proof (cases j)
    case (Suc i)
    from Cons.prems obtain ok where ok: "f r = Inr ok" by auto
    show ?thesis
    proof (cases ok)
      case True
      with Cons.prems ok obtain n' where "streak f rs = Inr n'" "n = Suc n'" by (cases "streak f rs") auto
      with Cons.IH [of n' i] ok True Suc show ?thesis by simp
    next
      case False
      with Cons.prems ok Suc show ?thesis by auto
    qed
  qed simp
qed auto

lemma map_all_mem: "map_all f xs = Inr ys \<Longrightarrow> y \<in> set ys \<longleftrightarrow> (\<exists>x \<in> set xs. f x = Inr y)"
  by (induction xs arbitrary: ys) auto

text \<open>A task is a candidate for promotion exactly when it has a directory in a run of the suite, there
  are at least as many runs as the threshold, the newest that many were valid with metrics and perfect
  for the task, and its newest description calls it a capability task.\<close>

theorem promotion_needs_clean_runs:
  assumes "load_runs str suite ar = Inr runs" and "find_promotion_candidates str suite (int k) ar = Inr cs"
  shows "(\<exists>c. c \<in> set cs \<and> cd_task c = t) \<longleftrightarrow>
    t \<in> set (tasks_of_runs ar (map snd runs)) \<and> k \<le> length runs \<and>
    list_all (\<lambda>r. clean_run ar t r = Inr True) (take k (rev (map snd runs))) \<and>
    (\<exists>m. latest_meta ar t (rev (map snd runs)) = Inr m \<and> jget m ''type'' = JStr ''capability'')"
proof -
  let ?new = "rev (map snd runs)" and ?ts = "tasks_of_runs ar (map snd runs)"
  let ?f = "\<lambda>t. and_then (streak (clean_run ar t) ?new) (\<lambda>n.
    and_then (latest_meta ar t ?new) (\<lambda>m. Inr (t, n, jget m ''type'' = JStr ''capability'')))"
  from assms obtain xs where xs: "map_all ?f ?ts = Inr xs"
    and cs: "cs = map (\<lambda>(t, n, c). \<lparr>cd_task = t, cd_passes = n, cd_last = hd ?new\<rparr>) (filter (\<lambda>(t, n, c). int k \<le> int n \<and> c) xs)"
    by (auto simp: find_promotion_candidates_def Let_def)
  have "(\<exists>c. c \<in> set cs \<and> cd_task c = t) \<longleftrightarrow> (\<exists>n. (t, n, True) \<in> set xs \<and> k \<le> n)" unfolding cs by force
  also have "\<dots> \<longleftrightarrow> t \<in> set ?ts \<and> (\<exists>n m. streak (clean_run ar t) ?new = Inr n \<and> k \<le> n \<and>
      latest_meta ar t ?new = Inr m \<and> jget m ''type'' = JStr ''capability'')"
    unfolding map_all_mem [OF xs] by auto
  also have "\<dots> \<longleftrightarrow> t \<in> set ?ts \<and> k \<le> length runs \<and> list_all (\<lambda>r. clean_run ar t r = Inr True) (take k ?new) \<and>
      (\<exists>m. latest_meta ar t ?new = Inr m \<and> jget m ''type'' = JStr ''capability'')"
  proof (cases "t \<in> set ?ts")
    case True
    with xs obtain y where "?f t = Inr y" using map_all_Inr_ex [of ?f ?ts] by auto
    then obtain n where n: "streak (clean_run ar t) ?new = Inr n" by auto
    show ?thesis using True streak_at_least [OF n, of k] n by auto
  qed simp
  finally show ?thesis .
qed

text \<open>Two runs of one task; the older one failed.\<close>

definition two_runs :: archive where
  "two_runs =
     [([''r1'', ''run_metadata.json''], JObj [(''suite_name'', JStr ''s''), (''started_at'', JStr ''1'')]),
      ([''r1'', ''a'', ''task_metadata.json''], JObj [(''type'', JStr ''capability''), (''pass_pow_k'', JFloat (Fin 0))]),
      ([''r2'', ''run_metadata.json''], JObj [(''suite_name'', JStr ''s''), (''started_at'', JStr ''2'')]),
      ([''r2'', ''a'', ''task_metadata.json''], JObj [(''type'', JStr ''capability''), (''pass_pow_k'', JFloat (Fin 1))])]"

lemma two_runs_loaded: "load_runs (str_json sample_grading) ''s'' two_runs = Inr [(''1'', ''r1''), (''2'', ''r2'')]"
  by (simp add: load_runs_def two_runs_def run_names_def List.map_filter_simps object_at_def jget_simps str_json_def key_text_def)

lemma two_runs_tasks: "tasks_of_runs two_runs [''r1'', ''r2''] = [''a'']"
  by (simp add: tasks_of_runs_def two_runs_def List.map_filter_simps)

lemma two_runs_objects:
  "object_at two_runs [''r1'', ''run_metadata.json''] = Inr (Some [(''suite_name'', JStr ''s''), (''started_at'', JStr ''1'')])"
  "object_at two_runs [''r2'', ''run_metadata.json''] = Inr (Some [(''suite_name'', JStr ''s''), (''started_at'', JStr ''2'')])"
  "object_at two_runs [''r1'', ''a'', ''task_metadata.json''] = Inr (Some [(''type'', JStr ''capability''), (''pass_pow_k'', JFloat (Fin 0))])"
  "object_at two_runs [''r2'', ''a'', ''task_metadata.json''] = Inr (Some [(''type'', JStr ''capability''), (''pass_pow_k'', JFloat (Fin 1))])"
  by (simp_all add: object_at_def two_runs_def)

lemma two_runs_clean:
  "clean_run two_runs ''a'' ''r1'' = Inr False" "clean_run two_runs ''a'' ''r2'' = Inr True"
  "latest_meta two_runs ''a'' [''r2'', ''r1''] = Inr [(''type'', JStr ''capability''), (''pass_pow_k'', JFloat (Fin 1))]"
  unfolding clean_run_def invalid_run_def task_meta_def latest_meta.simps two_runs_objects by (simp_all add: jget_simps)

lemma two_runs_candidates:
  "find_promotion_candidates (str_json sample_grading) ''s'' (int k) two_runs =
     Inr (if k \<le> 1 then [\<lparr>cd_task = ''a'', cd_passes = 1, cd_last = ''r2''\<rparr>] else [])"
proof -
  have runs: "map snd [(''1'', ''r1''), (''2'', ''r2'')] = [''r1'', ''r2'']" "rev [''r1'', ''r2''] = [''r2'', ''r1'']" by simp_all
  have streak: "streak (clean_run two_runs ''a'') [''r2'', ''r1''] = Inr 1"
    unfolding streak.simps two_runs_clean by simp
  show ?thesis
    unfolding find_promotion_candidates_def two_runs_loaded and_then.simps runs Let_def two_runs_tasks map_all.simps streak two_runs_clean(3)
    by (simp add: jget_simps)
qed

theorem promotion_needs_clean_runs_witness:
  "clean_run two_runs ''a'' ''r2'' = Inr True \<and> clean_run two_runs ''a'' ''r1'' \<noteq> Inr True"
proof -
  have one: "find_promotion_candidates (str_json sample_grading) ''s'' (int 1) two_runs = Inr [\<lparr>cd_task = ''a'', cd_passes = 1, cd_last = ''r2''\<rparr>]"
    using two_runs_candidates [of 1] by simp
  have two: "find_promotion_candidates (str_json sample_grading) ''s'' (int 2) two_runs = Inr []" using two_runs_candidates [of 2] by simp
  from promotion_needs_clean_runs [OF two_runs_loaded one, of "''a''"] promotion_needs_clean_runs [OF two_runs_loaded two, of "''a''"]
  show ?thesis by (simp add: two_runs_tasks numeral_2_eq_2)
qed

section \<open>What an edit leaves\<close>

definition word :: "string \<Rightarrow> bool" where
  "word k \<longleftrightarrow> k \<noteq> [] \<and> list_all (\<lambda>c. \<not> py_space c \<and> c \<noteq> CHR ''='') k"

lemma blank: "py_space CHR '' ''" "\<not> py_space CHR ''=''"
  by code_simp+

lemma key_of_assignment:
  assumes "word k" and "word k'"
  shows "is_key (k @ '' = '' @ v) k' \<longleftrightarrow> k' = k"
proof -
  have l: "lstrip (k @ '' = '' @ v) = k @ '' = '' @ v" using assms(1) by (cases k) (auto simp: word_def lstrip_def)
  show ?thesis
  proof
    assume "is_key (k @ '' = '' @ v) k'"
    then have pre: "starts_with k' (k @ '' = '' @ v)" and eq: "starts_with ''='' (lstrip (drop (length k') (k @ '' = '' @ v)))"
      unfolding is_key_def Let_def l by simp_all
    from pre obtain t where t: "k @ '' = '' @ v = k' @ t" by (auto simp: starts_with_iff)
    then have t': "t = drop (length k') (k @ '' = '' @ v)" by simp
    from t obtain us where "k = k' @ us \<and> us @ '' = '' @ v = t \<or> k @ us = k' \<and> '' = '' @ v = us @ t"
      by (auto simp: append_eq_append_conv2)
    then show "k' = k"
    proof (elim disjE conjE)
      assume us: "k = k' @ us" "us @ '' = '' @ v = t"
      with eq t' have "starts_with ''='' (lstrip (us @ '' = '' @ v))" by simp
      with us(1) assms(1) show "k' = k" by (cases us) (auto simp: word_def lstrip_def)
    next
      assume us: "k @ us = k'" "'' = '' @ v = us @ t"
      with assms(2) blank show "k' = k" by (cases us) (auto simp: word_def)
    qed
  next
    assume "k' = k"
    moreover have "lstrip ('' = '' @ v) = ''= '' @ v" using blank by (simp add: lstrip_def)
    ultimately show "is_key (k @ '' = '' @ v) k'"
      unfolding is_key_def Let_def l by (auto simp: starts_with_iff)
  qed
qed

lemma assignment_key: "word (fst kv) \<Longrightarrow> word k \<Longrightarrow> is_key (assignment kv) k \<longleftrightarrow> k = fst kv"
  unfolding assignment_def by (rule key_of_assignment)

lemma type_line_key: "word k \<Longrightarrow> is_key (type_line new) k \<longleftrightarrow> k = ''type''"
proof -
  assume "word k"
  moreover have "word ''type''" by code_simp
  ultimately show ?thesis using key_of_assignment [of "''type''" k "[CHR 0x22] @ new @ [CHR 0x22]"] by (simp add: type_line_def)
qed

lemma replace_first_Some:
  "replace_first P y xs = Some zs \<Longrightarrow> \<exists>a x b. xs = a @ x # b \<and> P x \<and> zs = a @ y # b"
proof (induction xs arbitrary: zs)
  case (Cons x xs)
  show ?case
  proof (cases "P x")
    case True
    with Cons.prems show ?thesis by (intro exI [of _ "[]"]) auto
  next
    case False
    with Cons.prems obtain ws where ws: "replace_first P y xs = Some ws" "zs = x # ws" by auto
    with Cons.IH obtain a x' b where "xs = a @ x' # b" "P x'" "ws = a @ y # b" by blast
    with ws show ?thesis by (intro exI [of _ "x # a"]) auto
  qed
qed simp

text \<open>One more field: its line replaces another one of its key, or comes in between.\<close>

lemma put_field_cases:
  obtains a x b where "ls = a @ x # b" "is_key x (fst kv)" "put_field i ls kv = a @ assignment kv # b"
  | a b where "ls = a @ b" "put_field i ls kv = a @ assignment kv # b"
proof (cases "replace_first (\<lambda>l. is_key l (fst kv)) (assignment kv) ls")
  case None
  then have "put_field i ls kv = take (i + 1) ls @ assignment kv # drop (i + 1) ls" by (simp add: put_field_def)
  moreover have "ls = take (i + 1) ls @ drop (i + 1) ls" by simp
  ultimately show ?thesis using that(2) by blast
next
  case (Some ls')
  from replace_first_Some [OF Some] obtain a x b where "ls = a @ x # b" "is_key x (fst kv)" "ls' = a @ assignment kv # b" by blast
  with Some show ?thesis using that(1) by (simp add: put_field_def)
qed

lemma put_field_other:
  assumes "\<And>l. is_key l (fst kv) \<Longrightarrow> \<not> P l" and "\<not> P (assignment kv)"
  shows "filter P (put_field i ls kv) = filter P ls"
  by (rule put_field_cases [of ls kv i]) (use assms in auto)

lemma put_field_mem:
  "l \<in> set (put_field i ls kv) \<Longrightarrow> l \<in> set ls \<or> l = assignment kv" "assignment kv \<in> set (put_field i ls kv)"
  "l \<in> set ls \<Longrightarrow> \<not> is_key l (fst kv) \<Longrightarrow> l \<in> set (put_field i ls kv)"
  by (rule put_field_cases [of ls kv i]; auto)+

lemma put_fields_other:
  assumes "\<And>kv l. kv \<in> set adds \<Longrightarrow> is_key l (fst kv) \<Longrightarrow> \<not> P l" and "\<And>kv. kv \<in> set adds \<Longrightarrow> \<not> P (assignment kv)"
  shows "filter P (foldl (put_field i) ls adds) = filter P ls"
  using assms
proof (induction adds arbitrary: ls)
  case (Cons kv adds)
  have "filter P (put_field i ls kv) = filter P ls"
    using Cons.prems(1) [of kv] Cons.prems(2) [of kv] by (intro put_field_other) simp_all
  moreover have "filter P (foldl (put_field i) (put_field i ls kv) adds) = filter P (put_field i ls kv)"
    using Cons.prems by (intro Cons.IH) auto
  ultimately show ?case by simp
qed simp

lemma put_fields_mem:
  "l \<in> set (foldl (put_field i) ls adds) \<Longrightarrow> l \<in> set ls \<or> l \<in> assignment ` set adds"
  "l \<in> set ls \<Longrightarrow> (\<And>kv. kv \<in> set adds \<Longrightarrow> \<not> is_key l (fst kv)) \<Longrightarrow> l \<in> set (foldl (put_field i) ls adds)"
proof (induction adds arbitrary: ls)
  case (Cons kv adds)
  { case 1
    then show ?case using Cons.IH(1) [of "put_field i ls kv"] put_field_mem(1) [of l i ls kv] by auto }
  { case 2
    then have "l \<in> set (put_field i ls kv)" using put_field_mem(3) [of l ls kv i] by auto
    then show ?case using Cons.IH(2) [of "put_field i ls kv"] 2(2) by simp }
qed simp_all

lemma put_fields_added:
  assumes "distinct (map fst adds)" and "list_all word (map fst adds)" and "kv \<in> set adds"
  shows "assignment kv \<in> set (foldl (put_field i) ls adds)"
  using assms
proof (induction adds arbitrary: ls)
  case (Cons kv' adds)
  show ?case
  proof (cases "kv = kv'")
    case True
    have "\<not> is_key (assignment kv') (fst kv2)" if "kv2 \<in> set adds" for kv2
    proof -
      have mem: "fst kv2 \<in> set (map fst adds)" using that by simp
      moreover have "fst kv' \<notin> set (map fst adds)" using Cons.prems(1) by simp
      ultimately have "fst kv2 \<noteq> fst kv'" by metis
      moreover have "word (fst kv')" "word (fst kv2)" using Cons.prems(2) that by (auto simp: list_all_iff)
      ultimately show ?thesis using assignment_key [of kv' "fst kv2"] by simp
    qed
    then show ?thesis using True put_field_mem(2) [of kv' i ls] by (auto intro!: put_fields_mem(2))
  next
    case False
    with Cons show ?thesis by simp
  qed
qed simp

lemma last_index_None: "last_index P xs = None \<longleftrightarrow> (\<forall>x \<in> set xs. \<not> P x)"
  by (induction xs) (auto split: option.split)

text \<open>The lines before any field is put in.\<close>

lemma edit_base:
  obtains base i where "edit_lines new adds removed ls = foldl (put_field i) base adds" and "type_line new \<in> set base"
    and "\<forall>l \<in> set base. l = type_line new \<or> l \<in> set ls \<and> \<not> list_ex (is_key l) removed \<and> \<not> is_key l ''type''"
    and "\<forall>P. \<not> P (type_line new) \<and> (\<forall>l. is_key l ''type'' \<or> list_ex (is_key l) removed \<longrightarrow> \<not> P l) \<longrightarrow> filter P base = filter P ls"
proof -
  let ?kept = "filter (\<lambda>l. \<not> list_ex (is_key l) removed) ls"
  have kept: "filter P ?kept = filter P ls" if "\<And>l. list_ex (is_key l) removed \<Longrightarrow> \<not> P l" for P
    using that by (auto intro: filter_cong)
  show ?thesis
  proof (cases "last_index (\<lambda>l. is_key l ''type'') ?kept")
    case None
    then have typeless: "\<forall>l \<in> set ?kept. \<not> is_key l ''type''" by (simp only: last_index_None)
    have edit: "edit_lines new adds removed ls = foldl (put_field 0) (type_line new # ?kept) adds"
      using None by (simp add: edit_lines_def)
    have only: "\<forall>l \<in> set (type_line new # ?kept).
        l = type_line new \<or> l \<in> set ls \<and> \<not> list_ex (is_key l) removed \<and> \<not> is_key l ''type''"
      using typeless by (simp only: list.set ball_simps set_filter mem_Collect_eq simp_thms) blast
    have rest: "\<forall>P. \<not> P (type_line new) \<and> (\<forall>l. is_key l ''type'' \<or> list_ex (is_key l) removed \<longrightarrow> \<not> P l) \<longrightarrow>
        filter P (type_line new # ?kept) = filter P ls"
    proof (intro allI impI)
      fix P :: "string \<Rightarrow> bool"
      assume P: "\<not> P (type_line new) \<and> (\<forall>l. is_key l ''type'' \<or> list_ex (is_key l) removed \<longrightarrow> \<not> P l)"
      then have "filter P ?kept = filter P ls" by (intro kept) blast
      then show "filter P (type_line new # ?kept) = filter P ls" using P by (simp only: filter.simps simp_thms if_False)
    qed
    show ?thesis by (rule that [OF edit _ only rest]) simp
  next
    case (Some i)
    let ?base = "map (\<lambda>l. if is_key l ''type'' then type_line new else l) ?kept"
    have mapped: "filter P (map (\<lambda>l. if is_key l ''type'' then type_line new else l) xs) = filter P xs"
      if "\<not> P (type_line new)" "\<And>l. is_key l ''type'' \<Longrightarrow> \<not> P l" for P xs
      using that by (induction xs) auto
    have edit: "edit_lines new adds removed ls = foldl (put_field i) ?base adds" using Some by (simp add: edit_lines_def)
    have has: "type_line new \<in> set ?base" using Some last_index_None [of "\<lambda>l. is_key l ''type''" ?kept] by force
    have only: "\<forall>l \<in> set ?base. l = type_line new \<or> l \<in> set ls \<and> \<not> list_ex (is_key l) removed \<and> \<not> is_key l ''type''"
      by (simp add: ball_Un)
    have rest: "\<forall>P. \<not> P (type_line new) \<and> (\<forall>l. is_key l ''type'' \<or> list_ex (is_key l) removed \<longrightarrow> \<not> P l) \<longrightarrow>
        filter P ?base = filter P ls"
    proof (intro allI impI)
      fix P :: "string \<Rightarrow> bool"
      assume P: "\<not> P (type_line new) \<and> (\<forall>l. is_key l ''type'' \<or> list_ex (is_key l) removed \<longrightarrow> \<not> P l)"
      have "filter P ?base = filter P ?kept" by (rule mapped) (use P in blast)+
      also have "\<dots> = filter P ls" by (rule kept) (use P in blast)
      finally show "filter P ?base = filter P ls" .
    qed
    show ?thesis by (rule that [OF edit has only rest])
  qed
qed

text \<open>However a task's configuration is edited, the lines that are neither its type nor a key that is
  removed or added stay as they are, in their order.  Afterwards every line that sets a type sets the
  new one, and there is one; every added key has its value; a removed key that is not added is gone.\<close>

theorem edit_keeps_the_rest:
  assumes "list_all word (removed @ map fst adds)" and "distinct (map fst adds)" and "''type'' \<notin> set (removed @ map fst adds)"
  defines "managed \<equiv> \<lambda>l. list_ex (is_key l) (''type'' # removed @ map fst adds)"
  shows "filter (\<lambda>l. \<not> managed l) (edit_lines new adds removed ls) = filter (\<lambda>l. \<not> managed l) ls \<and>
    (\<forall>l \<in> set (edit_lines new adds removed ls). is_key l ''type'' \<longrightarrow> l = type_line new) \<and>
    type_line new \<in> set (edit_lines new adds removed ls) \<and>
    (\<forall>kv \<in> set adds. assignment kv \<in> set (edit_lines new adds removed ls)) \<and>
    (\<forall>k \<in> set removed - set (map fst adds). \<forall>l \<in> set (edit_lines new adds removed ls). \<not> is_key l k)"
proof -
  let ?keys = "removed @ map fst adds"
  have type: "word ''type''" by code_simp
  have words: "word k" if "k \<in> set ?keys" for k using assms(1) that by (auto simp: list_all_iff)
  have none: "\<not> is_key (type_line new) k" if "k \<in> set ?keys" for k
    using type_line_key [OF words [OF that], of new] assms(3) that by auto
  have added: "is_key (assignment kv) k \<longleftrightarrow> k = fst kv" if "kv \<in> set adds" "word k" for kv k
    using assignment_key [OF words that(2)] that(1) by simp
  obtain base i where edit: "edit_lines new adds removed ls = foldl (put_field i) base adds" and has: "type_line new \<in> set base"
    and only: "\<forall>l \<in> set base. l = type_line new \<or> l \<in> set ls \<and> \<not> list_ex (is_key l) removed \<and> \<not> is_key l ''type''"
    and rest: "\<forall>P. \<not> P (type_line new) \<and> (\<forall>l. is_key l ''type'' \<or> list_ex (is_key l) removed \<longrightarrow> \<not> P l) \<longrightarrow> filter P base = filter P ls"
    by (rule edit_base [where new = new and adds = adds and removed = removed and ls = ls])
  have lines: "l = type_line new \<or> l \<in> assignment ` set adds \<or> \<not> list_ex (is_key l) removed \<and> \<not> is_key l ''type''"
    if "l \<in> set (edit_lines new adds removed ls)" for l
    using put_fields_mem(1) [of l i base adds] only that edit by auto
  show ?thesis
  proof (intro conjI)
    show "filter (\<lambda>l. \<not> managed l) (edit_lines new adds removed ls) = filter (\<lambda>l. \<not> managed l) ls"
    proof -
      have "filter (\<lambda>l. \<not> managed l) base = filter (\<lambda>l. \<not> managed l) ls"
        using type_line_key [OF type, of new] by (intro rest [rule_format]) (auto simp: managed_def list_ex_iff)
      moreover have "filter (\<lambda>l. \<not> managed l) (foldl (put_field i) base adds) = filter (\<lambda>l. \<not> managed l) base"
        by (rule put_fields_other) (auto simp: managed_def list_ex_iff added words)
      ultimately show ?thesis by (simp only: edit)
    qed
    show "\<forall>l \<in> set (edit_lines new adds removed ls). is_key l ''type'' \<longrightarrow> l = type_line new"
      using lines added [OF _ type] assms(3) by force
    show "type_line new \<in> set (edit_lines new adds removed ls)"
      unfolding edit using has none by (intro put_fields_mem(2)) auto
    show "\<forall>kv \<in> set adds. assignment kv \<in> set (edit_lines new adds removed ls)"
      unfolding edit using assms(1,2) by (auto intro!: put_fields_added)
    show "\<forall>k \<in> set removed - set (map fst adds). \<forall>l \<in> set (edit_lines new adds removed ls). \<not> is_key l k"
    proof (intro ballI)
      fix k l
      assume k: "k \<in> set removed - set (map fst adds)" and l: "l \<in> set (edit_lines new adds removed ls)"
      then have "k \<in> set ?keys" by simp
      from lines [OF l] show "\<not> is_key l k"
      proof (elim disjE conjE imageE)
        assume "l = type_line new"
        then show ?thesis using none [OF \<open>k \<in> set ?keys\<close>] by simp
      next
        fix kv assume "l = assignment kv" "kv \<in> set adds"
        then show ?thesis using added [OF _ words [OF \<open>k \<in> set ?keys\<close>], of kv] k by auto
      next
        assume "\<not> list_ex (is_key l) removed"
        then show ?thesis using k by (auto simp: list_ex_iff)
      qed
    qed
  qed
qed

text \<open>Demoting a promoted task.\<close>

definition demoted_lines :: "string list \<Rightarrow> string list" where
  "demoted_lines ls =
     edit_lines ''capability'' [(''demoted_at'', ''today''), (''demotion_reason'', ''flaky'')] [''promoted_at'', ''promotion_evidence'']
       (edit_lines ''regression'' [(''promoted_at'', ''today''), (''promotion_evidence'', ''runs'')] [] ls)"

theorem edit_keeps_the_rest_witness:
  "\<forall>ls. type_line ''capability'' \<in> set (demoted_lines ls) \<and> filter (\<lambda>l. is_key l ''promoted_at'') (demoted_lines ls) = []"
proof -
  have 1: "list_all word ([''promoted_at'', ''promotion_evidence''] @ map fst [(''demoted_at'', ''today''), (''demotion_reason'', ''flaky'')])"
    by code_simp
  have 2: "distinct (map fst [(''demoted_at'', ''today''), (''demotion_reason'', ''flaky'')])" by code_simp
  have 3: "''type'' \<notin> set ([''promoted_at'', ''promotion_evidence''] @ map fst [(''demoted_at'', ''today''), (''demotion_reason'', ''flaky'')])"
    by code_simp
  have 4: "''promoted_at'' \<in> set [''promoted_at'', ''promotion_evidence''] - set (map fst [(''demoted_at'', ''today''), (''demotion_reason'', ''flaky'')])"
    by code_simp
  note it = edit_keeps_the_rest [OF 1 2 3, of "''capability''"]
  show ?thesis
  proof (intro allI conjI)
    fix ls
    show "type_line ''capability'' \<in> set (demoted_lines ls)"
      unfolding demoted_lines_def by (rule it [THEN conjunct2, THEN conjunct2, THEN conjunct1])
    show "filter (\<lambda>l. is_key l ''promoted_at'') (demoted_lines ls) = []"
      unfolding filter_empty_conv demoted_lines_def
      by (intro ballI) (erule it [THEN conjunct2, THEN conjunct2, THEN conjunct2, THEN conjunct2, THEN bspec, OF 4, THEN bspec])
  qed
qed

text \<open>A type in another table is taken for that of the task, and new keys go below the last one.\<close>

lemma other_tables_are_edited:
  "edit_lines ''regression'' [(''promoted_at'', ''today'')] [] [''type=1'', ''[backend_config]'', ''type=2''] =
     [type_line ''regression'', ''[backend_config]'', type_line ''regression'', ''promoted_at = today'']"
  by code_simp

end
