(* ===== verification/EvalWorkers.thy ===== *)
theory EvalWorkers
  imports EvalRunner TextSearch
begin

text \<open>
  The parallel suite of \<open>eval-framework/run.py\<close>: a pool of threads runs the tasks in submission
  order, and each task holds the locks of its fixture paths from before its first trial until after its
  last one (\<open>_run_task_locked\<close>).  A step is one acquisition, one release, or the whole run of a task.
\<close>

section \<open>Locks\<close>

text \<open>\<open>_task_managed_paths\<close>; \<open>resolve\<close> is \<open>str(Path(raw).expanduser().resolve())\<close>.\<close>

definition task_locks :: "(string \<Rightarrow> string) \<Rightarrow> run_task_spec \<Rightarrow> string list" where
  "task_locks resolve t = sort (remdups (map resolve (map fst (fx_install (rt_fixtures t)) @ fx_capture (rt_fixtures t))))"

text \<open>Where the thread of a task is; the number counts the locks acquired or released.\<close>

datatype work_phase = Queued | Acquiring nat | TaskRuns | Releasing nat | WorkDone

fun held :: "string list \<Rightarrow> work_phase \<Rightarrow> string list" where
  "held L (Acquiring k) = take k L"
| "held L TaskRuns = L"
| "held L (Releasing k) = drop k L"
| "held L _ = []"

fun in_pool :: "work_phase \<Rightarrow> bool" where
  "in_pool Queued = False"
| "in_pool WorkDone = False"
| "in_pool _ = True"

definition lock_free :: "string list list \<Rightarrow> work_phase list \<Rightarrow> string \<Rightarrow> bool" where
  "lock_free Ls ps l \<longleftrightarrow> list_all (\<lambda>(L, ph). l \<notin> set (held L ph)) (zip Ls ps)"

inductive pool_step :: "nat \<Rightarrow> string list list \<Rightarrow> work_phase list \<Rightarrow> work_phase list \<Rightarrow> bool" for n Ls where
  pool_start: "i < length ps \<Longrightarrow> ps ! i = Queued \<Longrightarrow> Queued \<notin> set (take i ps) \<Longrightarrow>
     length (filter in_pool ps) < n \<Longrightarrow> pool_step n Ls ps (ps[i := Acquiring 0])"
| pool_acquire: "i < length ps \<Longrightarrow> ps ! i = Acquiring k \<Longrightarrow> k < length (Ls ! i) \<Longrightarrow>
     lock_free Ls ps (Ls ! i ! k) \<Longrightarrow> pool_step n Ls ps (ps[i := Acquiring (Suc k)])"
| pool_run: "i < length ps \<Longrightarrow> ps ! i = Acquiring (length (Ls ! i)) \<Longrightarrow> pool_step n Ls ps (ps[i := TaskRuns])"
| pool_finish: "i < length ps \<Longrightarrow> ps ! i = TaskRuns \<Longrightarrow> pool_step n Ls ps (ps[i := Releasing 0])"
| pool_release: "i < length ps \<Longrightarrow> ps ! i = Releasing k \<Longrightarrow> k < length (Ls ! i) \<Longrightarrow>
     pool_step n Ls ps (ps[i := Releasing (Suc k)])"
| pool_done: "i < length ps \<Longrightarrow> ps ! i = Releasing (length (Ls ! i)) \<Longrightarrow> pool_step n Ls ps (ps[i := WorkDone])"

section \<open>Safety\<close>

fun phase_ok :: "string list \<Rightarrow> work_phase \<Rightarrow> bool" where
  "phase_ok L (Acquiring k) = (k \<le> length L)"
| "phase_ok L (Releasing k) = (k \<le> length L)"
| "phase_ok L _ = True"

text \<open>No lock has two holders.\<close>

definition exclusive :: "string list list \<Rightarrow> work_phase list \<Rightarrow> bool" where
  "exclusive Ls ps \<longleftrightarrow> list_all (\<lambda>i. list_all (\<lambda>j. i = j \<or> set (held (Ls ! i) (ps ! i)) \<inter> set (held (Ls ! j) (ps ! j)) = {})
     [0 ..< length ps]) [0 ..< length ps]"

lemma exclusive_iff: "exclusive Ls ps \<longleftrightarrow>
    (\<forall>i < length ps. \<forall>j < length ps. i \<noteq> j \<longrightarrow> set (held (Ls ! i) (ps ! i)) \<inter> set (held (Ls ! j) (ps ! j)) = {})"
  by (simp add: exclusive_def list_all_iff atLeast0LessThan) blast

definition pool_inv :: "string list list \<Rightarrow> work_phase list \<Rightarrow> bool" where
  "pool_inv Ls ps \<longleftrightarrow> length ps = length Ls \<and> (\<forall>i < length ps. phase_ok (Ls ! i) (ps ! i)) \<and> exclusive Ls ps"

lemma lock_freeD: "lock_free Ls ps l \<Longrightarrow> length ps = length Ls \<Longrightarrow> i < length ps \<Longrightarrow> l \<notin> set (held (Ls ! i) (ps ! i))"
  by (auto simp: lock_free_def list_all_length)

lemma pool_inv_update:
  assumes "pool_inv Ls ps" and "i < length ps" and "phase_ok (Ls ! i) ph"
    and "\<And>j. j < length ps \<Longrightarrow> j \<noteq> i \<Longrightarrow> set (held (Ls ! i) ph) \<inter> set (held (Ls ! j) (ps ! j)) = {}"
  shows "pool_inv Ls (ps[i := ph])"
proof -
  have "set (held (Ls ! a) (ps[i := ph] ! a)) \<inter> set (held (Ls ! b) (ps[i := ph] ! b)) = {}"
    if "a < length ps" "b < length ps" "a \<noteq> b" for a b
    using that assms(1,2) assms(4) [of a] assms(4) [of b] unfolding pool_inv_def exclusive_iff
    by (cases "a = i"; cases "b = i") (simp_all add: Int_commute)
  with assms(1-3) show ?thesis by (auto simp: pool_inv_def exclusive_iff nth_list_update)
qed

lemma fewer_held:
  assumes "pool_inv Ls ps" and "i < length ps" and "phase_ok (Ls ! i) ph"
    and "set (held (Ls ! i) ph) \<subseteq> set (held (Ls ! i) (ps ! i))"
  shows "pool_inv Ls (ps[i := ph])"
proof (rule pool_inv_update [OF assms(1-3)])
  fix j
  assume "j < length ps" "j \<noteq> i"
  with assms(1,2) have "set (held (Ls ! i) (ps ! i)) \<inter> set (held (Ls ! j) (ps ! j)) = {}"
    unfolding pool_inv_def exclusive_iff by metis
  with assms(4) show "set (held (Ls ! i) ph) \<inter> set (held (Ls ! j) (ps ! j)) = {}" by blast
qed

lemma pool_step_inv: "pool_step n Ls ps ps' \<Longrightarrow> pool_inv Ls ps \<Longrightarrow> pool_inv Ls ps'"
proof (induction rule: pool_step.induct)
  case (pool_acquire i ps k)
  show ?case
  proof (rule pool_inv_update [OF pool_acquire.prems pool_acquire.hyps(1)])
    show "phase_ok (Ls ! i) (Acquiring (Suc k))" using pool_acquire.hyps(3) by simp
    fix j
    assume j: "j < length ps" "j \<noteq> i"
    have "set (take k (Ls ! i)) \<inter> set (held (Ls ! j) (ps ! j)) = {}"
      using pool_acquire.prems pool_acquire.hyps(1,2) j unfolding pool_inv_def exclusive_iff by fastforce
    moreover have "Ls ! i ! k \<notin> set (held (Ls ! j) (ps ! j))"
      using lock_freeD [OF pool_acquire.hyps(4)] pool_acquire.prems j(1) by (simp add: pool_inv_def)
    ultimately show "set (held (Ls ! i) (Acquiring (Suc k))) \<inter> set (held (Ls ! j) (ps ! j)) = {}"
      using pool_acquire.hyps(3) by (simp add: take_Suc_conv_app_nth)
  qed
next
  case (pool_release i ps k)
  have "set (drop (Suc k) (Ls ! i)) \<subseteq> set (drop k (Ls ! i))" by (simp add: set_drop_subset_set_drop)
  with pool_release show ?case by (intro fewer_held) simp_all
qed (auto intro!: fewer_held)

section \<open>Progress\<close>

text \<open>Every step takes one off the work that is left.\<close>

fun work_left :: "string list \<Rightarrow> work_phase \<Rightarrow> nat" where
  "work_left L Queued = 2 * length L + 4"
| "work_left L (Acquiring k) = 2 * length L - k + 3"
| "work_left L TaskRuns = length L + 2"
| "work_left L (Releasing k) = length L - k + 1"
| "work_left L WorkDone = 0"

definition pool_work :: "string list list \<Rightarrow> work_phase list \<Rightarrow> nat" where
  "pool_work Ls ps = sum_list (map (\<lambda>i. work_left (Ls ! i) (ps ! i)) [0 ..< length ps])"

lemma pool_work_update:
  assumes "i < length ps" and "work_left (Ls ! i) (ps ! i) = Suc (work_left (Ls ! i) ph)"
  shows "pool_work Ls ps = Suc (pool_work Ls (ps[i := ph]))"
proof -
  have split: "[0 ..< length ps] = [0 ..< i] @ i # [Suc i ..< length ps]"
    using assms(1) by (metis le0 less_or_eq_imp_le upt_add_eq_append upt_conv_Cons le_add_diff_inverse)
  have "sum_list (map (\<lambda>j. work_left (Ls ! j) (ps[i := ph] ! j)) js) = sum_list (map (\<lambda>j. work_left (Ls ! j) (ps ! j)) js)"
    if "i \<notin> set js" for js
    by (rule arg_cong [where f = sum_list], rule map_cong [OF refl]) (use that in \<open>metis nth_list_update_neq\<close>)
  then have same: "sum_list (map (\<lambda>j. work_left (Ls ! j) (ps[i := ph] ! j)) [0 ..< i]) = sum_list (map (\<lambda>j. work_left (Ls ! j) (ps ! j)) [0 ..< i])"
    "sum_list (map (\<lambda>j. work_left (Ls ! j) (ps[i := ph] ! j)) [Suc i ..< length ps]) =
     sum_list (map (\<lambda>j. work_left (Ls ! j) (ps ! j)) [Suc i ..< length ps])"
    by simp_all
  show ?thesis unfolding pool_work_def length_list_update split map_append sum_list_append list.map sum_list.Cons same
    using assms by simp
qed

lemma pool_step_work: "pool_step n Ls ps ps' \<Longrightarrow> pool_work Ls ps = Suc (pool_work Ls ps')"
  by (induction rule: pool_step.induct) (rule pool_work_update; simp)+

text \<open>
  The thread that waits for the greatest lock is not kept waiting: the holder of that lock is past its
  acquisitions, since it acquires in ascending order.
\<close>

lemma greatest_waiter:
  assumes inv: "pool_inv Ls ps" and sorted: "\<forall>L \<in> set Ls. sorted_wrt (<) L"
    and stuck: "\<forall>i < length ps. ps ! i = Queued \<or> ps ! i = WorkDone \<or>
      (\<exists>k < length (Ls ! i). ps ! i = Acquiring k \<and> \<not> lock_free Ls ps (Ls ! i ! k))"
    and i: "i < length ps" "ps ! i = Acquiring k" "k < length (Ls ! i)"
  shows False
proof -
  define W where "W = {l. \<exists>i k. i < length ps \<and> ps ! i = Acquiring k \<and> k < length (Ls ! i) \<and> l = Ls ! i ! k}"
  have "W \<subseteq> (\<Union>L \<in> set Ls. set L)" using inv nth_mem unfolding W_def pool_inv_def by fastforce
  then have fin: "finite W" by (rule finite_subset) simp
  have "Ls ! i ! k \<in> W" using i by (auto simp: W_def)
  then have ne: "W \<noteq> {}" by blast
  obtain a m where a: "a < length ps" "ps ! a = Acquiring m" "m < length (Ls ! a)" "Max W = Ls ! a ! m"
    using Max_in [OF fin ne] by (auto simp: W_def)
  then have "\<not> lock_free Ls ps (Max W)" using stuck by force
  then obtain b where b: "b < length ps" "Max W \<in> set (held (Ls ! b) (ps ! b))"
    using inv by (auto simp: lock_free_def list_all_length pool_inv_def)
  with stuck obtain c where c: "ps ! b = Acquiring c" "c < length (Ls ! b)" by force
  then have "Max W \<in> set (take c (Ls ! b))" using b(2) by simp
  then obtain d where d: "d < c" "Ls ! b ! d = Max W" using c(2) by (auto simp: in_set_conv_nth)
  have "sorted_wrt (<) (Ls ! b)" using sorted inv b(1) by (simp add: pool_inv_def)
  then have "Max W < Ls ! b ! c" using sorted_wrt_nth_less d c(2) by metis
  moreover have "Ls ! b ! c \<in> W" using b(1) c by (auto simp: W_def)
  ultimately show False using Max_ge [OF fin] by force
qed

lemma pool_progress:
  assumes inv: "pool_inv Ls ps" and sorted: "\<forall>L \<in> set Ls. sorted_wrt (<) L" and "0 < n"
    and todo: "\<not> list_all (\<lambda>ph. ph = WorkDone) ps"
  shows "\<exists>ps'. pool_step n Ls ps ps'"
proof (rule ccontr)
  assume no: "\<not> ?thesis"
  have stuck: "ps ! i = Queued \<or> ps ! i = WorkDone \<or>
      (\<exists>k < length (Ls ! i). ps ! i = Acquiring k \<and> \<not> lock_free Ls ps (Ls ! i ! k))" if "i < length ps" for i
  proof (cases "ps ! i")
    case (Acquiring k)
    with inv that have "k \<le> length (Ls ! i)" by (fastforce simp: pool_inv_def)
    with Acquiring no that pool_run [of i ps Ls n] pool_acquire [of i ps k Ls n] show ?thesis
      by (cases "k = length (Ls ! i)") auto
  next
    case (Releasing k)
    with inv that have "k \<le> length (Ls ! i)" by (fastforce simp: pool_inv_def)
    with Releasing no that pool_done [of i ps Ls n] pool_release [of i ps k Ls n] show ?thesis
      by (cases "k = length (Ls ! i)") auto
  qed (use no that pool_finish [of i ps n Ls] in auto)
  have "\<not> in_pool ph" if "ph \<in> set ps" for ph
  proof -
    obtain i where i: "i < length ps" "ps ! i = ph" using \<open>ph \<in> set ps\<close> by (auto simp: in_set_conv_nth)
    with stuck [OF i(1)] greatest_waiter [OF inv sorted, of i] stuck show ?thesis by auto
  qed
  then have idle: "length (filter in_pool ps) < n" using assms(3) by (simp add: filter_False)
  obtain ph where "ph \<in> set ps" "ph \<noteq> WorkDone" using todo by (auto simp: list_all_iff)
  moreover have "\<not> in_pool ph" using \<open>\<And>ph. ph \<in> set ps \<Longrightarrow> \<not> in_pool ph\<close> \<open>ph \<in> set ps\<close> .
  moreover have "ph = Queued \<or> ph = WorkDone \<or> in_pool ph" by (cases ph) simp_all
  ultimately have "Queued \<in> set ps" by blast
  then obtain xs ys where q: "ps = xs @ Queued # ys" "Queued \<notin> set xs" by (meson split_list_first)
  have "pool_step n Ls ps (ps[length xs := Acquiring 0])"
    by (rule pool_start) (use q idle in simp_all)
  with no show False by blast
qed

lemma pool_run_inv:
  assumes "(pool_step n Ls ^^ m) ps ps'" and "pool_inv Ls ps"
  shows "pool_inv Ls ps' \<and> pool_work Ls ps = m + pool_work Ls ps'"
  using assms
proof (induction m arbitrary: ps')
  case (Suc m)
  then obtain q where "(pool_step n Ls ^^ m) ps q" "pool_step n Ls q ps'" by auto
  with Suc pool_step_inv pool_step_work [of n Ls q ps'] show ?case by auto
qed auto

lemma task_locks_sorted: "sorted_wrt (<) (task_locks resolve t)"
  unfolding task_locks_def by (simp add: strict_sorted_iff)

definition pool_begin :: "run_task_spec list \<Rightarrow> work_phase list" where
  "pool_begin ts = replicate (length ts) Queued"

lemma pool_begin_inv: "pool_inv (map f ts) (pool_begin ts)"
  by (simp add: pool_inv_def pool_begin_def exclusive_iff)

text \<open>C33: Whatever the interleaving of the threads of a pool that has at least one: no two tasks ever hold
  the lock of one path at the same time, the pool is never stuck before all tasks are done, and it is
  done after exactly two steps for every lock of a task and four for the task.\<close>

theorem workers_never_deadlock:
  assumes "0 < n" and "(pool_step n (map (task_locks resolve) ts) ^^ m) (pool_begin ts) ps"
  shows "exclusive (map (task_locks resolve) ts) ps \<and>
    (list_all (\<lambda>ph. ph = WorkDone) ps \<or> (\<exists>ps'. pool_step n (map (task_locks resolve) ts) ps ps')) \<and>
    m + pool_work (map (task_locks resolve) ts) ps = sum_list (map (\<lambda>t. 2 * length (task_locks resolve t) + 4) ts)"
proof -
  let ?Ls = "map (task_locks resolve) ts"
  have inv: "pool_inv ?Ls ps" and work: "pool_work ?Ls (pool_begin ts) = m + pool_work ?Ls ps"
    using pool_run_inv [OF assms(2) pool_begin_inv] by auto
  have "map (\<lambda>i. work_left (?Ls ! i) (pool_begin ts ! i)) [0 ..< length ts] = map (\<lambda>t. 2 * length (task_locks resolve t) + 4) ts"
    by (rule nth_equalityI) (simp_all add: pool_begin_def)
  then have "pool_work ?Ls (pool_begin ts) = sum_list (map (\<lambda>t. 2 * length (task_locks resolve t) + 4) ts)"
    by (simp add: pool_work_def pool_begin_def)
  with inv work pool_progress [OF inv _ assms(1)] task_locks_sorted show ?thesis
    by (auto simp: pool_inv_def)
qed

theorem workers_never_deadlock_witness:
  "\<exists>ps. (pool_step 2 (map (task_locks id) [notes_task, notes_task]) ^^ 3) (pool_begin [notes_task, notes_task]) ps \<and>
     ps = [Acquiring 1, Acquiring 0] \<and> exclusive (map (task_locks id) [notes_task, notes_task]) ps \<and>
     (\<exists>ps'. pool_step 2 (map (task_locks id) [notes_task, notes_task]) ps ps')"
proof -
  let ?Ls = "map (task_locks id) [notes_task, notes_task]"
  have L: "?Ls = [[''notes''], [''notes'']]" by (simp add: task_locks_def notes_task_def)
  have "pool_step 2 ?Ls [Queued, Queued] [Acquiring 0, Queued]" using pool_start [of 0 "[Queued, Queued]" 2 ?Ls] by simp
  moreover have "pool_step 2 ?Ls [Acquiring 0, Queued] [Acquiring 0, Acquiring 0]"
    using pool_start [of 1 "[Acquiring 0, Queued]" 2 ?Ls] by simp
  moreover have "pool_step 2 ?Ls [Acquiring 0, Acquiring 0] [Acquiring 1, Acquiring 0]"
    using pool_acquire [of 0 "[Acquiring 0, Acquiring 0]" 0 ?Ls 2] unfolding L by (simp add: lock_free_def)
  ultimately have r: "(pool_step 2 ?Ls ^^ 3) (pool_begin [notes_task, notes_task]) [Acquiring 1, Acquiring 0]"
    by (auto simp: numeral_3_eq_3 pool_begin_def relcompp_apply)
  from workers_never_deadlock [OF _ r] r show ?thesis by auto
qed

end
