(* ===== verification/NameCheck.thy ===== *)
theory NameCheck
  imports EvalGraders TextSearch
begin

text \<open>
  The checker of project names (\<open>scripts/name_check.py\<close>): the slugs of a name, the requests to
  registries, GitHub, Docker Hub and domain registries, what their answers are taken to mean, and the
  tables that are printed.  The HTTP client and the JSON parser are fields of the environment; its time
  limit, its TLS context and the delay between names are left out.
\<close>

section \<open>Slugs\<close>

definition slug_char :: "char \<Rightarrow> bool" where
  "slug_char c \<longleftrightarrow> (let n = of_char c :: nat in (97 \<le> n \<and> n \<le> 122) \<or> (48 \<le> n \<and> n \<le> 57))"

text \<open>\<open>str.casefold\<close> below 256; the micro sign folds to a letter above and stays, since no slug has either.\<close>

definition casefold :: "string \<Rightarrow> string" where
  "casefold s = concat (map (\<lambda>c. if c = CHR 0xDF then ''ss'' else [lower_char c]) s)"

text \<open>\<open>re.sub(r"[^a-z0-9]+", "-", s)\<close>; the flag says whether the last character was replaced.\<close>

fun dash_runs :: "bool \<Rightarrow> string \<Rightarrow> string" where
  "dash_runs b [] = []"
| "dash_runs b (c # cs) =
     (if slug_char c then c # dash_runs False cs else if b then dash_runs True cs else CHR ''-'' # dash_runs True cs)"

definition strip_dashes :: "string \<Rightarrow> string" where
  "strip_dashes s = rev (dropWhile (\<lambda>c. c = CHR ''-'') (rev (dropWhile (\<lambda>c. c = CHR ''-'') s)))"

definition slugify :: "string \<Rightarrow> string" where
  "slugify name = strip_dashes (dash_runs False (casefold name))"

definition compact_slug :: "string \<Rightarrow> string" where
  "compact_slug name = filter slug_char (casefold name)"

definition variants :: "string \<Rightarrow> string list" where
  "variants name =
     foldl (\<lambda>seen v. if v \<noteq> [] \<and> v \<notin> set seen then seen @ [v] else seen) [] [slugify name, compact_slug name]"

section \<open>Requests\<close>

text \<open>How opening a URL ends: an answer, one with an error status, or no answer; other exceptions escape.\<close>

datatype open_end = Answered int string | Refused int string | Unreachable string | TimedOut | OpenRaised string

datatype script_error = BadShape | Escaped string

record 'w name_env =
  nc_open :: "string \<Rightarrow> (string \<times> string) list \<Rightarrow> 'w \<Rightarrow> open_end \<times> 'w"
  nc_loads :: "string \<Rightarrow> json option"
  nc_str :: "json \<Rightarrow> string"

definition text_of :: "'w name_env \<Rightarrow> json \<Rightarrow> string" where
  "text_of en v = (case v of JStr s \<Rightarrow> s | _ \<Rightarrow> nc_str en v)"

definition user_agent :: string where
  "user_agent = ''glassrail-name-check/0.1 (+https://github.com/andrew-ellis-engineering/glassrail)''"

definition request_headers :: "string option \<Rightarrow> (string \<times> string) list" where
  "request_headers token =
     [(''Accept'', ''application/json''), (''User-Agent'', user_agent)] @
     (case token of None \<Rightarrow> [] | Some t \<Rightarrow> if t = [] then [] else [(''Authorization'', ''Bearer '' @ t)])"

definition body_json :: "'w name_env \<Rightarrow> string \<Rightarrow> json" where
  "body_json en body = (if body = [] then JNull else case nc_loads en body of None \<Rightarrow> JStr body | Some v \<Rightarrow> v)"

definition fetched :: "'w name_env \<Rightarrow> open_end \<Rightarrow> script_error + int \<times> json" where
  "fetched en e =
     (case e of
        Answered code body \<Rightarrow> Inr (code, body_json en body)
      | Refused code body \<Rightarrow> Inr (code, body_json en body)
      | Unreachable reason \<Rightarrow> Inr (0, JObj [(''error'', JStr reason)])
      | TimedOut \<Rightarrow> Inr (0, JObj [(''error'', JStr ''timeout'')])
      | OpenRaised x \<Rightarrow> Inl (Escaped x))"

definition fetch_json :: "'w name_env \<Rightarrow> string \<Rightarrow> string option \<Rightarrow> 'w \<Rightarrow> (script_error + int \<times> json) \<times> 'w" where
  "fetch_json en url token w = (let (e, w') = nc_open en url (request_headers token) w in (fetched en e, w'))"

text \<open>A request whose answer becomes one row, and the requests of a list one after the other.\<close>

definition asked ::
  "'w name_env \<Rightarrow> string \<Rightarrow> string option \<Rightarrow> (int \<times> json \<Rightarrow> script_error + 'r) \<Rightarrow> 'w \<Rightarrow> (script_error + 'r) \<times> 'w"
where
  "asked en url token f w = (let (r, w') = fetch_json en url token w in (and_then r f, w'))"

fun in_turn :: "('w \<Rightarrow> (script_error + 'r list) \<times> 'w) list \<Rightarrow> 'w \<Rightarrow> (script_error + 'r list) \<times> 'w" where
  "in_turn [] w = (Inr [], w)"
| "in_turn (m # ms) w =
     (case m w of
        (Inl e, w1) \<Rightarrow> (Inl e, w1)
      | (Inr rs, w1) \<Rightarrow> (case in_turn ms w1 of (Inl e, w2) \<Rightarrow> (Inl e, w2) | (Inr ss, w2) \<Rightarrow> (Inr (rs @ ss), w2)))"

section \<open>What an answer means\<close>

record check_result =
  ck_name :: string
  ck_surface :: string
  ck_candidate :: string
  ck_status :: string
  ck_detail :: string
  ck_url :: string

definition check_result_of :: "string \<Rightarrow> string \<Rightarrow> string \<Rightarrow> string \<times> string \<Rightarrow> string \<Rightarrow> check_result" where
  "check_result_of name surface candidate sd url =
     \<lparr>ck_name = name, ck_surface = surface, ck_candidate = candidate, ck_status = fst sd, ck_detail = snd sd, ck_url = url\<rparr>"

definition str_value :: "json \<Rightarrow> string option" where
  "str_value v = (case v of JStr s \<Rightarrow> Some s | _ \<Rightarrow> None)"

definition sub_object :: "json \<Rightarrow> (string \<times> json) list" where
  "sub_object v = (case v of JObj kvs \<Rightarrow> kvs | _ \<Rightarrow> [])"

definition part :: "string \<Rightarrow> string option \<Rightarrow> string list" where
  "part label v = (case v of None \<Rightarrow> [] | Some s \<Rightarrow> [label @ s])"

definition payload_parts :: "(string \<times> json) list \<Rightarrow> string list" where
  "payload_parts kvs =
     part ''name='' (str_value (jget kvs ''name'')) @
     part [] (map_option (take 120) (str_value (jget kvs ''description''))) @
     part ''version='' (str_value (jget kvs ''version'')) @
     part ''latest='' (str_value (jget (sub_object (jget kvs ''dist-tags'')) ''latest'')) @
     part ''modified='' (str_value (jget (sub_object (jget kvs ''time'')) ''modified''))"

definition summarize_payload :: "'w name_env \<Rightarrow> json \<Rightarrow> string" where
  "summarize_payload en v =
     (case v of
        JObj kvs \<Rightarrow>
          (case map_of kvs ''error'' of
             Some x \<Rightarrow> text_of en x
           | None \<Rightarrow> (case map_of kvs ''message'' of
                Some x \<Rightarrow> text_of en x
              | None \<Rightarrow> if payload_parts kvs \<noteq> [] then join ''; '' (payload_parts kvs) else take 180 (text_of en v)))
      | JList xs \<Rightarrow> str_nat (length xs) @ '' item(s)''
      | JNull \<Rightarrow> []
      | _ \<Rightarrow> take 180 (text_of en v))"

definition unknown_status :: "'w name_env \<Rightarrow> int \<times> json \<Rightarrow> string \<times> string" where
  "unknown_status en a =
     (''unknown'', if fst a = 0 then summarize_payload en (snd a)
                   else ''HTTP '' @ str_int (fst a) @ '': '' @ summarize_payload en (snd a))"

definition registry_status :: "'w name_env \<Rightarrow> int \<times> json \<Rightarrow> string \<times> string" where
  "registry_status en a =
     (if fst a = 200 then (''taken'', summarize_payload en (snd a))
      else if fst a = 404 then (''available'', ''HTTP '' @ str_int (fst a))
      else unknown_status en a)"

definition registry_result ::
  "'w name_env \<Rightarrow> string \<Rightarrow> string \<Rightarrow> string \<Rightarrow> string \<Rightarrow> 'w \<Rightarrow> (script_error + check_result list) \<times> 'w"
where
  "registry_result en name surface candidate url =
     asked en url None (\<lambda>a. Inr [check_result_of name surface candidate (registry_status en a) url])"

section \<open>URLs\<close>

text \<open>\<open>urllib.parse.quote\<close> on code points below 256, as their UTF-8 bytes.\<close>

definition percent_digit :: "nat \<Rightarrow> char" where
  "percent_digit n = (if n < 10 then char_of (48 + n) else char_of (55 + n))"

definition percent :: "nat \<Rightarrow> string" where
  "percent n = [CHR 0x25, percent_digit (n div 16), percent_digit (n mod 16)]"

definition quote_char :: "string \<Rightarrow> char \<Rightarrow> string" where
  "quote_char safe c =
     (let n = of_char c :: nat
      in if slug_char c \<or> (65 \<le> n \<and> n \<le> 90) \<or> c \<in> set ''_.-~'' \<or> c \<in> set safe then [c]
         else if n < 128 then percent n else percent (192 + n div 64) @ percent (128 + n mod 64))"

definition quote_url :: "string \<Rightarrow> string" where
  "quote_url s = concat (map (quote_char ''/'') s)"

definition quote_plus :: "string \<Rightarrow> string" where
  "quote_plus s = concat (map (\<lambda>c. if c = CHR '' '' then ''+'' else quote_char [] c) s)"

section \<open>Package registries, GitHub, Docker Hub\<close>

definition registry_urls :: "string \<Rightarrow> (string \<times> string) list" where
  "registry_urls quoted =
     [(''PyPI'', ''https://pypi.org/pypi/'' @ quoted @ ''/json''),
      (''npm'', ''https://registry.npmjs.org/'' @ quoted),
      (''RubyGems'', ''https://rubygems.org/api/v1/gems/'' @ quoted @ ''.json''),
      (''crates.io'', ''https://crates.io/api/v1/crates/'' @ quoted)]"

definition check_package_registries :: "'w name_env \<Rightarrow> string \<Rightarrow> 'w \<Rightarrow> (script_error + check_result list) \<times> 'w" where
  "check_package_registries en name =
     in_turn (concat (map (\<lambda>candidate. map (\<lambda>(surface, url). registry_result en name surface candidate url)
       (registry_urls (quote_url candidate))) (variants name)))"

definition github_detail :: "'w name_env \<Rightarrow> json \<Rightarrow> string" where
  "github_detail en v =
     (case v of
        JObj kvs \<Rightarrow>
          (case map_of kvs ''full_name'' of
             Some full \<Rightarrow>
               take 180 (text_of en full @ '' ('' @ text_of en (jget kvs ''stargazers_count'') @ '' stars, pushed '' @
                 text_of en (jget kvs ''pushed_at'') @ '') '' @
                 (if truthy (jget kvs ''description'') then text_of en (jget kvs ''description'') else []))
           | None \<Rightarrow>
               text_of en (jget kvs ''login'') @ '' ('' @ text_of en (jget kvs ''type'') @ '', public_repos='' @
                 text_of en (jget kvs ''public_repos'') @ '', created='' @ text_of en (jget kvs ''created_at'') @ '')'')
      | _ \<Rightarrow> summarize_payload en v)"

definition github_status :: "'w name_env \<Rightarrow> int \<times> json \<Rightarrow> string \<times> string" where
  "github_status en a =
     (if fst a = 200 then (''taken'', github_detail en (snd a))
      else if fst a = 404 then (''available'', ''HTTP 404'') else unknown_status en a)"

text \<open>The items to loop over: those of a list; the characters of a text are no objects; others raise.\<close>

definition looped :: "json \<Rightarrow> script_error + json list" where
  "looped v =
     (if \<not> truthy v then Inr [] else case v of JList xs \<Rightarrow> Inr xs | JStr s \<Rightarrow> Inr [] | _ \<Rightarrow> Inl BadShape)"

definition search_hits :: "'w name_env \<Rightarrow> json list \<Rightarrow> string list" where
  "search_hits en items =
     List.map_filter (\<lambda>item. case item of
         JObj kvs \<Rightarrow> Some (text_of en (jget_default kvs ''full_name'' (JStr ''?'')) @ '' ('' @
           text_of en (jget_default kvs ''stargazers_count'' (JInt 0)) @ '' stars, pushed '' @
           text_of en (jget_default kvs ''pushed_at'' (JStr ''?'')) @ '')'')
       | _ \<Rightarrow> None) (take 5 items)"

definition search_status :: "'w name_env \<Rightarrow> int \<times> json \<Rightarrow> script_error + string \<times> string" where
  "search_status en a =
     (case a of
        (code, JObj kvs) \<Rightarrow>
          if code = 200 then and_then (looped (jget kvs ''items'')) (\<lambda>items.
              let hits = search_hits en items
              in Inr (if hits \<noteq> [] then (''taken'', join ''; '' hits) else (''available'', ''no repository-name hits'')))
          else Inr (unknown_status en a)
      | _ \<Rightarrow> Inr (unknown_status en a))"

definition search_url :: "string \<Rightarrow> string" where
  "search_url candidate =
     ''https://api.github.com/search/repositories?q='' @ quote_plus (candidate @ '' in:name'') @ ''&per_page=10''"

definition github_urls :: "string \<Rightarrow> string \<Rightarrow> (string \<times> string) list" where
  "github_urls owner quoted =
     [(''GitHub user'', ''https://api.github.com/users/'' @ quoted),
      (''GitHub org'', ''https://api.github.com/orgs/'' @ quoted),
      (''GitHub repo'', ''https://api.github.com/repos/'' @ quote_url owner @ ''/'' @ quoted)]"

definition check_github ::
  "'w name_env \<Rightarrow> string \<Rightarrow> string option \<Rightarrow> string \<Rightarrow> 'w \<Rightarrow> (script_error + check_result list) \<times> 'w"
where
  "check_github en owner token name =
     (let candidate = slugify name
      in in_turn
        (map (\<lambda>(surface, url). asked en url token (\<lambda>a. Inr [check_result_of name surface candidate (github_status en a) url]))
           (github_urls owner (quote_url candidate)) @
         [asked en (search_url candidate) token (\<lambda>a. and_then (search_status en a) (\<lambda>sd.
            Inr [check_result_of name ''GitHub repo search'' candidate sd (search_url candidate)]))]))"

definition check_dockerhub :: "'w name_env \<Rightarrow> string \<Rightarrow> 'w \<Rightarrow> (script_error + check_result list) \<times> 'w" where
  "check_dockerhub en name =
     (let candidate = slugify name; quoted = quote_url candidate
      in in_turn
        [\<lambda>w. (Inr [check_result_of name ''Docker Hub namespace'' candidate
            (''unknown'', ''Docker Hub does not expose a definitive unauthenticated namespace check'')
            (''https://hub.docker.com/u/'' @ quoted)], w),
         registry_result en name ''Docker Hub repo'' (candidate @ ''/'' @ candidate)
            (''https://hub.docker.com/v2/repositories/'' @ quoted @ ''/'' @ quoted @ ''/'')])"

section \<open>Domains\<close>

definition domain_rdap_url :: "string \<Rightarrow> string option" where
  "domain_rdap_url domain =
     (if ends_with ''.com'' domain then Some (''https://rdap.verisign.com/com/v1/domain/'' @ quote_url (upper domain))
      else if ends_with ''.net'' domain then Some (''https://rdap.verisign.com/net/v1/domain/'' @ quote_url (upper domain))
      else if ends_with ''.dev'' domain \<or> ends_with ''.app'' domain then Some (''https://rdap.nic.google/domain/'' @ quote_url domain)
      else if ends_with ''.io'' domain then Some (''https://rdap.nic.io/domain/'' @ quote_url (upper domain))
      else if ends_with ''.ai'' domain then Some (''https://rdap.whois.ai/domain/'' @ quote_url (upper domain))
      else None)"

text \<open>An action that is a list or an object cannot be looked up in a set.\<close>

definition event_bit :: "'w name_env \<Rightarrow> json \<Rightarrow> script_error + string list" where
  "event_bit en event =
     (case event of
        JObj kvs \<Rightarrow>
          (case jget kvs ''eventAction'' of
             JList xs \<Rightarrow> Inl BadShape
           | JObj xs \<Rightarrow> Inl BadShape
           | JStr action \<Rightarrow> Inr (if action \<in> {''registration'', ''expiration''} \<and> truthy (jget kvs ''eventDate'')
               then [action @ ''='' @ text_of en (jget kvs ''eventDate'')] else [])
           | _ \<Rightarrow> Inr [])
      | _ \<Rightarrow> Inr [])"

text \<open>Only what can be sliced has servers, and only texts can be joined.\<close>

definition sliced_servers :: "json \<Rightarrow> script_error + json list" where
  "sliced_servers v = and_then (looped v) (\<lambda>xs. Inr (take 2 xs))"

definition server_name :: "json \<Rightarrow> script_error + string list" where
  "server_name v =
     (case v of
        JObj kvs \<Rightarrow> (if truthy (jget kvs ''ldhName'')
          then (case jget kvs ''ldhName'' of JStr s \<Rightarrow> Inr [s] | _ \<Rightarrow> Inl BadShape) else Inr [])
      | _ \<Rightarrow> Inr [])"

definition looped_events :: "json \<Rightarrow> script_error + json list" where
  "looped_events v = (case v of JObj kvs \<Rightarrow> Inr [] | _ \<Rightarrow> looped v)"

definition domain_detail :: "'w name_env \<Rightarrow> json \<Rightarrow> script_error + string" where
  "domain_detail en v =
     (case v of
        JObj kvs \<Rightarrow>
          and_then (looped_events (jget kvs ''events'')) (\<lambda>events.
          and_then (map_all (event_bit en) events) (\<lambda>bits.
          and_then (sliced_servers (jget kvs ''nameservers'')) (\<lambda>servers.
          and_then (map_all server_name servers) (\<lambda>ns.
            let bits' = concat bits @ (if concat ns \<noteq> [] then [''ns='' @ join '','' (concat ns)] else [])
            in Inr (if bits' \<noteq> [] then join ''; '' bits' else ''registered'')))))
      | _ \<Rightarrow> Inr (summarize_payload en v))"

definition domain_status :: "'w name_env \<Rightarrow> int \<times> json \<Rightarrow> script_error + string \<times> string" where
  "domain_status en a =
     (if fst a = 200 then and_then (domain_detail en (snd a)) (\<lambda>d. Inr (''taken'', d))
      else if fst a = 404 then Inr (''available'', ''RDAP 404'') else Inr (unknown_status en a))"

definition without_dot :: "string \<Rightarrow> string" where
  "without_dot s = (if starts_with ''.'' s then drop 1 s else s)"

definition check_domain :: "'w name_env \<Rightarrow> string \<Rightarrow> string \<Rightarrow> 'w \<Rightarrow> (script_error + check_result list) \<times> 'w" where
  "check_domain en name tld w =
     (let domain = slugify name @ ''.'' @ without_dot tld
      in case domain_rdap_url domain of
           None \<Rightarrow> (Inr [check_result_of name ''Domain RDAP'' domain (''unknown'', ''no built-in RDAP endpoint for this TLD'') []], w)
         | Some url \<Rightarrow> asked en url None (\<lambda>a. and_then (domain_status en a) (\<lambda>sd.
             Inr [check_result_of name ''Domain RDAP'' domain sd url])) w)"

definition check_domains :: "'w name_env \<Rightarrow> string list \<Rightarrow> string \<Rightarrow> 'w \<Rightarrow> (script_error + check_result list) \<times> 'w" where
  "check_domains en tlds name = in_turn (map (check_domain en name) tlds)"

section \<open>A name, and the script\<close>

definition manual_links :: "string \<Rightarrow> check_result list" where
  "manual_links name =
     (let candidate = slugify name
      in map (\<lambda>(surface, url). check_result_of name surface candidate (''manual'', ''open and review'') url)
        [(''USPTO manual'', ''https://tmsearch.uspto.gov/search/search-results?query='' @ quote_url candidate),
         (''Google exact search'', ''https://www.google.com/search?q='' @ quote_url ([CHR 0x22] @ candidate @ [CHR 0x22])),
         (''GitHub web search'', ''https://github.com/search?q='' @ quote_url candidate @ ''&type=repositories'')])"

record name_args =
  na_names :: "string list"
  na_preset :: "string option"
  na_owner :: string
  na_token :: "string option"
  na_domains :: string
  na_json :: bool
  na_summary :: bool
  na_no_manual :: bool

definition check_name ::
  "'w name_env \<Rightarrow> string \<Rightarrow> string option \<Rightarrow> string list \<Rightarrow> bool \<Rightarrow> string \<Rightarrow> 'w \<Rightarrow> (script_error + check_result list) \<times> 'w"
where
  "check_name en owner token domains manual name =
     in_turn ([check_package_registries en name, check_github en owner token name, check_dockerhub en name,
       check_domains en domains name] @ (if manual then [\<lambda>w. (Inr (manual_links name), w)] else []))"

text \<open>A dict of lists, filled with \<open>setdefault(key, []).append(row)\<close>.\<close>

definition rows_by_name :: "check_result list \<Rightarrow> (string \<times> check_result list) list" where
  "rows_by_name rs =
     foldl (\<lambda>d r. AList.update (ck_name r) ((case map_of d (ck_name r) of None \<Rightarrow> [] | Some rows \<Rightarrow> rows) @ [r]) d) [] rs"

definition escape_md :: "string \<Rightarrow> string" where
  "escape_md s = concat (map (\<lambda>c. if c = CHR ''|'' then [CHR 0x5C, c] else if c = CHR 0x0A then '' '' else [c]) s)"

definition status_label :: "string \<Rightarrow> string" where
  "status_label s = (if s = ''manual'' then ''manual review'' else s)"

definition backtick :: string where
  "backtick = [CHR 0x60]"

definition markdown_row :: "check_result \<Rightarrow> string" where
  "markdown_row r =
     ''| '' @ join '' | '' [escape_md (ck_surface r), backtick @ escape_md (ck_candidate r) @ backtick,
        status_label (ck_status r), escape_md (ck_detail r),
        if ck_url r \<noteq> [] then ''[link]('' @ ck_url r @ '')'' else []] @ '' |''"

definition print_markdown :: "check_result list \<Rightarrow> string list" where
  "print_markdown rs =
     concat (map (\<lambda>(name, rows).
        [''## '' @ name, [], ''| Surface | Candidate | Status | Detail | URL |'', ''|---|---|---|---|---|''] @
        map markdown_row rows @ [[]]) (rows_by_name rs))"

definition noted_surfaces :: "string list" where
  "noted_surfaces = [''PyPI'', ''npm'', ''GitHub user'', ''GitHub org'', ''GitHub repo'', ''GitHub repo search'', ''Domain RDAP'']"

definition with_status :: "string \<Rightarrow> check_result list \<Rightarrow> check_result list" where
  "with_status s rows = filter (\<lambda>r. ck_status r = s) rows"

definition summary_row :: "string \<times> check_result list \<Rightarrow> string" where
  "summary_row g =
     (let (name, rows) = g;
          notes = map (\<lambda>r. ck_surface r @ '': '' @ ck_candidate r)
            (filter (\<lambda>r. ck_surface r \<in> set noted_surfaces) (with_status ''taken'' rows))
      in ''| '' @ escape_md name @ '' | '' @ str_nat (length (with_status ''available'' rows)) @ '' | '' @
         str_nat (length (with_status ''taken'' rows)) @ '' | '' @ str_nat (length (with_status ''unknown'' rows)) @ '' | '' @
         escape_md (join ''; '' (take 4 notes)) @ '' |'')"

definition print_summary :: "check_result list \<Rightarrow> string list" where
  "print_summary rs =
     [''| Name | Clear Signals | Taken Signals | Unknown | Notes |'', ''|---|---:|---:|---:|---|''] @
     map summary_row (rows_by_name rs)"

text \<open>The candidate sets; argparse rejects any other.\<close>

definition finalists :: "string list" where
  "finalists = [''Glassrail'', ''Checkrail'', ''Proofmark'', ''Waymark'', ''Chartwright'']"

definition favorites :: "string list" where
  "favorites =
     [''Glassrail'', ''Checkrail'', ''Proofmark'', ''Waymark'', ''Chartwright'', ''Mica'', ''Stemma'', ''Pyxis'', ''Orrery'',
      ''Mortise'', ''Vellum'', ''Caliper'', ''Fiducial'', ''Witness'']"

definition broad :: "string list" where
  "broad =
     [''Glassrail'', ''Checkrail'', ''Proofmark'', ''Waymark'', ''Chartwright'', ''Mica'', ''Stemma'', ''Pyxis'', ''Orrery'',
      ''Mortise'', ''Vellum'', ''Caliper'', ''Fiducial'', ''Witness'', ''Stemma'', ''Indicia'', ''Cambium'', ''Rootnote'', ''Azimuth'',
      ''Rhumb'', ''Fathom'', ''Signalbox'', ''Airlock'', ''Keel'', ''Strata'']"

definition presets :: "(string \<times> string list) list" where
  "presets = [(''finalists'', finalists), (''favorites'', favorites), (''broad'', broad)]"

definition default_domains :: "string list" where
  "default_domains = [''com'', ''dev'', ''io'', ''ai'']"

definition first_uses :: "'a list \<Rightarrow> 'a list" where
  "first_uses xs = rev (remdups (rev xs))"

definition names_of :: "name_args \<Rightarrow> string list" where
  "names_of args =
     first_uses ((case na_preset args of None \<Rightarrow> [] | Some p \<Rightarrow> (case map_of presets p of None \<Rightarrow> [] | Some ns \<Rightarrow> ns)) @
       na_names args)"

definition domains_of :: "name_args \<Rightarrow> string list" where
  "domains_of args =
     map (\<lambda>s. without_dot (strip s)) (filter (\<lambda>s. strip s \<noteq> []) (split_char CHR '','' (na_domains args)))"

definition result_object :: "check_result \<Rightarrow> json" where
  "result_object r =
     JObj [(''name'', JStr (ck_name r)), (''surface'', JStr (ck_surface r)), (''candidate'', JStr (ck_candidate r)),
       (''status'', JStr (ck_status r)), (''detail'', JStr (ck_detail r)), (''url'', JStr (ck_url r))]"

datatype script_end = Usage string | Crashed script_error | PrintedJson json | PrintedLines "string list"

definition name_check_main ::
  "'w name_env \<Rightarrow> (string \<Rightarrow> string option) \<Rightarrow> name_args \<Rightarrow> 'w \<Rightarrow> script_end \<times> 'w"
where
  "name_check_main en environ args w =
     (let token = (case na_token args of None \<Rightarrow> environ ''GITHUB_TOKEN'' | Some t \<Rightarrow> Some t)
      in if names_of args = [] then (Usage ''provide at least one name or --preset'', w)
         else case in_turn (map (check_name en (na_owner args) token (domains_of args) (\<not> na_no_manual args)) (names_of args)) w of
             (Inl e, w1) \<Rightarrow> (Crashed e, w1)
           | (Inr rs, w1) \<Rightarrow>
               (if na_json args then PrintedJson (JList (map result_object rs))
                else PrintedLines (if na_summary args then print_summary rs else print_markdown rs), w1))"

section \<open>Slugs need no quoting\<close>

lemma slug_lower: "slug_char (lower_char c) \<Longrightarrow> lower_char c \<noteq> CHR ''-''"
  by (auto simp: slug_char_def)

definition slug_text :: "string \<Rightarrow> bool" where
  "slug_text s \<longleftrightarrow> list_all (\<lambda>c. slug_char c \<or> c = CHR ''-'') s"

lemma dash_runs_slug: "slug_text (dash_runs b s)"
  by (induction b s rule: dash_runs.induct) (auto simp: slug_text_def)

lemma slugify_text: "slug_text (slugify name)"
  using dash_runs_slug [of False "casefold name"]
  by (auto simp: slugify_def strip_dashes_def slug_text_def list_all_iff dest!: set_dropWhileD)

lemma compact_text: "slug_text (compact_slug name)"
  by (simp add: compact_slug_def slug_text_def list_all_iff)

text \<open>Without dashes the slug is the compact slug: a name in one word has one variant.\<close>

lemma compact_of_runs: "filter slug_char (dash_runs b s) = filter slug_char s"
  by (induction b s rule: dash_runs.induct) (auto simp: slug_char_def)

lemma filter_strip:
  assumes "\<not> P CHR ''-''"
  shows "filter P (strip_dashes s) = filter P s"
proof -
  have drop: "filter P (dropWhile (\<lambda>c. c = CHR ''-'') s) = filter P s" for s
    using assms by (induction s) auto
  show ?thesis by (simp only: strip_dashes_def rev_filter [symmetric] drop rev_rev_ident)
qed

theorem compact_is_slug_without_dashes: "compact_slug name = filter slug_char (slugify name)"
proof -
  have "\<not> slug_char CHR ''-''" by (simp add: slug_char_def)
  then show ?thesis by (simp add: compact_slug_def slugify_def filter_strip compact_of_runs)
qed

lemma quote_slug: "slug_text s \<Longrightarrow> quote_url s = s"
  by (induction s) (auto simp: slug_text_def quote_url_def quote_char_def)

section \<open>No name is called free unasked\<close>

text \<open>The environment with a log of the requests and of how each ended.\<close>

definition logged :: "'w name_env \<Rightarrow> ('w \<times> (string \<times> open_end) list) name_env" where
  "logged en =
     \<lparr>nc_open = \<lambda>url hs (w, l). (case nc_open en url hs w of (e, w') \<Rightarrow> (e, (w', l @ [(url, e)]))),
      nc_loads = nc_loads en, nc_str = nc_str en\<rparr>"

lemma fetched_logged: "fetched (logged en) e = fetched en e"
  by (simp add: fetched_def body_json_def logged_def split: open_end.split)

text \<open>What an answer must be for a row to call a name available.\<close>

definition says_free :: "'w name_env \<Rightarrow> string \<Rightarrow> open_end \<Rightarrow> bool" where
  "says_free en surface e =
     (case fetched en e of
        Inr (code, v) \<Rightarrow> code = 404 \<or> surface = ''GitHub repo search'' \<and> code = 200 \<and>
          (case v of JObj kvs \<Rightarrow> (case looped (jget kvs ''items'') of Inr items \<Rightarrow> search_hits en items = [] | Inl x \<Rightarrow> False) | _ \<Rightarrow> False)
      | Inl x \<Rightarrow> False)"

definition backed :: "'w name_env \<Rightarrow> (string \<times> open_end) list \<Rightarrow> check_result \<Rightarrow> bool" where
  "backed en l r \<longleftrightarrow> (ck_status r = ''available'' \<longrightarrow> (\<exists>e. (ck_url r, e) \<in> set l \<and> says_free en (ck_surface r) e))"

definition honest ::
  "'w name_env \<Rightarrow> ('w \<times> (string \<times> open_end) list \<Rightarrow> (script_error + check_result list) \<times> 'w \<times> (string \<times> open_end) list) \<Rightarrow> bool"
where
  "honest en m \<longleftrightarrow>
     (\<forall>w rs w'. m w = (Inr rs, w') \<longrightarrow> (\<exists>l. snd w' = snd w @ l) \<and> list_all (backed en (snd w')) rs)"

lemma backed_later: "backed en l r \<Longrightarrow> backed en (l @ l') r"
  by (auto simp: backed_def)

lemma honest_in_turn: "list_all (honest en) ms \<Longrightarrow> honest en (in_turn ms)"
proof (induction ms)
  case (Cons m ms)
  then have 1: "honest en m" and 2: "honest en (in_turn ms)" by simp_all
  show ?case unfolding honest_def
  proof (intro allI impI)
    fix w rs w'
    assume "in_turn (m # ms) w = (Inr rs, w')"
    then obtain rs1 w1 rs2 where m: "m w = (Inr rs1, w1)" and ms: "in_turn ms w1 = (Inr rs2, w')" and rs: "rs = rs1 @ rs2"
      by (auto split: prod.splits sum.splits)
    obtain l where l: "snd w1 = snd w @ l" and b1: "list_all (backed en (snd w1)) rs1"
      using 1 m unfolding honest_def by blast
    obtain l' where l': "snd w' = snd w1 @ l'" and b2: "list_all (backed en (snd w')) rs2"
      using 2 ms unfolding honest_def by blast
    have "list_all (backed en (snd w')) rs1" using b1 by (auto simp: list_all_iff l' intro: backed_later)
    then show "(\<exists>l. snd w' = snd w @ l) \<and> list_all (backed en (snd w')) rs" using l l' b2 rs by simp
  qed
qed (simp add: honest_def)

lemma honest_constant: "list_all (\<lambda>r. ck_status r \<noteq> ''available'') rs \<Longrightarrow> honest en (\<lambda>w. (Inr rs, w))"
  by (auto simp: honest_def backed_def list_all_iff)

text \<open>A request is honest when its row calls the name available only on an answer that says so.\<close>

lemma honest_asked:
  assumes "\<And>e a rs r. fetched en e = Inr a \<Longrightarrow> f a = Inr rs \<Longrightarrow> r \<in> set rs \<Longrightarrow>
    ck_url r = url \<and> (ck_status r = ''available'' \<longrightarrow> says_free en (ck_surface r) e)"
  shows "honest en (asked (logged en) url token f)"
  unfolding honest_def
proof (intro allI impI)
  fix w rs w'
  assume run: "asked (logged en) url token f w = (Inr rs, w')"
  obtain v l where w: "w = (v, l)" by (cases w)
  obtain e v' where answer: "nc_open en url (request_headers token) v = (e, v')" by fastforce
  have "and_then (fetched en e) f = Inr rs" and w': "w' = (v', l @ [(url, e)])"
    using run answer by (auto simp: asked_def fetch_json_def w logged_def fetched_logged [unfolded logged_def])
  then obtain a where "fetched en e = Inr a" and "f a = Inr rs" by auto
  then have "list_all (backed en (snd w')) rs" using assms w' by (fastforce simp: list_all_iff backed_def)
  then show "(\<exists>l. snd w' = snd w @ l) \<and> list_all (backed en (snd w')) rs" by (simp add: w w')
qed

text \<open>What an answer is taken to mean does not depend on the log.\<close>

lemma text_logged [simp]: "text_of (logged en) v = text_of en v"
  by (simp add: text_of_def logged_def split: json.split)

lemma summary_logged [simp]: "summarize_payload (logged en) v = summarize_payload en v"
  by (simp add: summarize_payload_def split: json.split option.split)

lemma status_logged [simp]:
  "unknown_status (logged en) a = unknown_status en a" "registry_status (logged en) a = registry_status en a"
  "github_status (logged en) a = github_status en a" "search_status (logged en) a = search_status en a"
proof -
  show 1: "unknown_status (logged en) a = unknown_status en a" for a by (simp add: unknown_status_def)
  show "registry_status (logged en) a = registry_status en a" by (simp add: registry_status_def 1)
  have "github_detail (logged en) v = github_detail en v" for v
    by (simp add: github_detail_def split: json.split option.split)
  then show "github_status (logged en) a = github_status en a" by (simp add: github_status_def 1)
  have "search_hits (logged en) xs = search_hits en xs" for xs by (simp add: search_hits_def cong: json.case_cong)
  then show "search_status (logged en) a = search_status en a" by (simp add: search_status_def 1 Let_def split: prod.split json.split)
qed

lemma domain_logged [simp]: "domain_status (logged en) a = domain_status en a"
proof -
  have "event_bit (logged en) = event_bit en" by (rule ext) (simp add: event_bit_def split: json.split)
  then have "domain_detail (logged en) v = domain_detail en v" for v
    by (simp add: domain_detail_def cong: json.case_cong)
  then show ?thesis by (simp add: domain_status_def)
qed

lemma unknown_not_free: "fst (unknown_status en a) \<noteq> ''available''"
  by (simp add: unknown_status_def)

lemma free_registry: "fst (registry_status en a) = ''available'' \<Longrightarrow> fst a = 404"
  using unknown_not_free [of en a] by (auto simp: registry_status_def split: if_splits)

lemma free_github: "fst (github_status en a) = ''available'' \<Longrightarrow> fst a = 404"
  using unknown_not_free [of en a] by (auto simp: github_status_def split: if_splits)

lemma free_domain: "domain_status en a = Inr sd \<Longrightarrow> fst sd = ''available'' \<Longrightarrow> fst a = 404"
  using unknown_not_free [of en a] by (auto simp: domain_status_def split: if_splits)

lemma free_search:
  assumes "search_status en a = Inr sd" and "fst sd = ''available''" and "fetched en e = Inr a"
  shows "says_free en ''GitHub repo search'' e"
  using assms unknown_not_free [of en a]
  by (cases a; cases "snd a") (auto simp: search_status_def says_free_def Let_def split: if_splits)

lemma says_404: "fetched en e = Inr a \<Longrightarrow> fst a = 404 \<Longrightarrow> says_free en s e"
  by (cases a) (simp add: says_free_def)

lemma free_rows:
  "fetched en e = Inr a \<Longrightarrow> fst (registry_status en a) = ''available'' \<Longrightarrow> says_free en s e"
  "fetched en e = Inr a \<Longrightarrow> fst (github_status en a) = ''available'' \<Longrightarrow> says_free en s e"
  "fetched en e = Inr a \<Longrightarrow> domain_status en a = Inr sd \<Longrightarrow> fst sd = ''available'' \<Longrightarrow> says_free en s e"
  by (auto intro: says_404 dest: free_registry free_github free_domain)

lemma check_result_fields [simp]:
  "ck_status (check_result_of n s c sd u) = fst sd" "ck_url (check_result_of n s c sd u) = u"
  "ck_surface (check_result_of n s c sd u) = s" "ck_name (check_result_of n s c sd u) = n"
  by (simp_all add: check_result_of_def)

lemma honest_row:
  assumes "\<And>e a sd. fetched en e = Inr a \<Longrightarrow> st a = Inr sd \<Longrightarrow> fst sd = ''available'' \<Longrightarrow> says_free en surface e"
  shows "honest en (asked (logged en) url token (\<lambda>a. and_then (st a) (\<lambda>sd. Inr [check_result_of name surface candidate sd url])))"
proof (rule honest_asked)
  fix e a rs r
  assume e: "fetched en e = Inr a" and r: "r \<in> set rs"
    and f: "and_then (st a) (\<lambda>sd. Inr [check_result_of name surface candidate sd url]) = Inr rs"
  from f r obtain sd where "st a = Inr sd" and "r = check_result_of name surface candidate sd url" by auto
  then show "ck_url r = url \<and> (ck_status r = ''available'' \<longrightarrow> says_free en (ck_surface r) e)"
    using assms [OF e] by simp
qed

lemma honest_pure_row:
  assumes "\<And>e a. fetched en e = Inr a \<Longrightarrow> fst (st a) = ''available'' \<Longrightarrow> says_free en surface e"
  shows "honest en (asked (logged en) url token (\<lambda>a. Inr [check_result_of name surface candidate (st a) url]))"
proof -
  have "honest en (asked (logged en) url token
      (\<lambda>a. and_then (Inr (st a)) (\<lambda>sd. Inr [check_result_of name surface candidate sd url])))"
    by (rule honest_row) (use assms in auto)
  then show ?thesis by simp
qed

lemma honest_registry: "honest en (registry_result (logged en) name surface candidate url)"
  unfolding registry_result_def status_logged by (rule honest_pure_row) (rule free_rows(1))

lemma honest_packages: "honest en (check_package_registries (logged en) name)"
  unfolding check_package_registries_def
  by (rule honest_in_turn) (auto simp: list_all_iff honest_registry)

lemma honest_github: "honest en (check_github (logged en) owner token name)"
  unfolding check_github_def Let_def status_logged
proof (rule honest_in_turn, unfold list_all_append, intro conjI)
  show "list_all (honest en) (map (\<lambda>(surface, url). asked (logged en) url token
      (\<lambda>a. Inr [check_result_of name surface (slugify name) (github_status en a) url])) (github_urls owner (quote_url (slugify name))))"
    by (auto simp: list_all_iff intro!: honest_pure_row intro: free_rows(2))
qed (simp add: honest_row free_search)

lemma honest_dockerhub: "honest en (check_dockerhub (logged en) name)"
  unfolding check_dockerhub_def Let_def
  by (rule honest_in_turn) (simp add: honest_registry honest_constant)

lemma honest_domain: "honest en (check_domain (logged en) name tld)"
proof (cases "domain_rdap_url (slugify name @ ''.'' @ without_dot tld)")
  case None
  then have "check_domain (logged en) name tld = (\<lambda>w. (Inr [check_result_of name ''Domain RDAP''
      (slugify name @ ''.'' @ without_dot tld) (''unknown'', ''no built-in RDAP endpoint for this TLD'') []], w))"
    by (intro ext) (simp add: check_domain_def)
  then show ?thesis by (simp add: honest_constant)
next
  case (Some url)
  then have "check_domain (logged en) name tld = asked (logged en) url None (\<lambda>a. and_then (domain_status en a) (\<lambda>sd.
      Inr [check_result_of name ''Domain RDAP'' (slugify name @ ''.'' @ without_dot tld) sd url]))"
    by (intro ext) (simp add: check_domain_def)
  then show ?thesis by (simp only:) (rule honest_row, rule free_rows(3))
qed

text \<open>
  In every run of the script for any names, however the servers answer, each row that calls a name
  available has its URL in the log with an answer that says so: the status 404, or for the search a
  list without hits.
\<close>

theorem no_name_is_called_free_unasked:
  assumes "in_turn (map (check_name (logged en) owner token tlds manual) names) (w, []) = (Inr rs, (w', l))"
  shows "list_all (\<lambda>r. ck_status r = ''available'' \<longrightarrow> (\<exists>e. (ck_url r, e) \<in> set l \<and> says_free en (ck_surface r) e)) rs"
proof -
  have "honest en (check_domains (logged en) tlds name)" for name
    unfolding check_domains_def by (rule honest_in_turn) (simp add: list_all_iff honest_domain)
  moreover have "honest en (\<lambda>w. (Inr (manual_links name), w))" for name
    by (rule honest_constant) (simp add: manual_links_def Let_def)
  ultimately have "honest en (check_name (logged en) owner token tlds manual name)" for name
    unfolding check_name_def
    by (intro honest_in_turn) (simp add: honest_packages honest_github honest_dockerhub)
  then have "honest en (in_turn (map (check_name (logged en) owner token tlds manual) names))"
    by (intro honest_in_turn) (simp add: list_all_iff)
  then show ?thesis using assms unfolding honest_def backed_def [abs_def] by fastforce
qed

end
